(* ===== verification/Kvm_Prelude.thy ===== *)
theory Kvm_Prelude
  imports Main "HOL-Library.Word"
begin

unbundle bit_operations_syntax

text \<open>
  The shared layer of the development: names for Rust's machine integers, little-endian byte
  encodings (\<open>to_le_bytes\<close> / \<open>from_le_bytes\<close>), slice writes, Rust's \<open>Result\<close> as a sum and
  \<open>&mut self\<close> methods returning \<open>Result\<close> as functions from a state to a result and a new
  state, and the contract of a framed byte protocol (locale \<open>frame_codec\<close>) that the
  RustDesk codec and the CH9329 serial protocol both provide.

  Conventions. \<open>uN\<close> is \<open>'N word\<close>; an \<open>iN\<close> is kept as the same word and read with \<open>sint\<close>.
  Lengths of slices and \<open>Vec\<close>s (\<open>usize\<close> values that are not computed with \<open>as\<close> casts) are
  \<open>nat\<close>. Arithmetic that can overflow is on words and wraps, as in a release build.
\<close>

section \<open>Machine integers\<close>

type_synonym u8 = "8 word"
type_synonym u16 = "16 word"
type_synonym u32 = "32 word"
type_synonym u64 = "64 word"
type_synonym usize = "64 word"
type_synonym bytes = "u8 list"

text \<open>The value of a signed integer in terms of its unsigned reading.\<close>

lemma bit_top_nat:
  assumes "n < 2 ^ Suc k"
  shows "bit (n :: nat) k = (2 ^ k \<le> n)"
proof -
  have "n div 2 ^ k < 2" using assms by (simp add: less_mult_imp_div_less)
  moreover have "0 < n div 2 ^ k \<longleftrightarrow> 2 ^ k \<le> n" by (simp add: div_greater_zero_iff)
  ultimately show ?thesis by (auto simp: bit_iff_odd less_2_cases_iff)
qed

lemma sint_eq_unat:
  "sint (w :: 'a::len word) =
    (if unat w < 2 ^ (LENGTH('a) - 1) then int (unat w) else int (unat w) - 2 ^ LENGTH('a))"
proof -
  let ?k = "LENGTH('a) - 1"
  have len: "Suc ?k = LENGTH('a)" by simp
  have "sint w = take_bit (Suc ?k) (uint w) - 2 ^ Suc ?k * of_bool (bit (uint w) ?k)"
    by (simp only: sint_uint signed_take_bit_eq_take_bit_minus One_nat_def)
  also have "\<dots> = uint w - 2 ^ LENGTH('a) * of_bool (bit (uint w) ?k)"
    unfolding len by (simp add: take_bit_int_eq_self)
  also have "bit (uint w) ?k = bit (unat w) ?k"
    by (simp add: bit_unsigned_iff)
  also have "bit (unat w) ?k = (2 ^ ?k \<le> unat w)"
    by (rule bit_top_nat) (metis len unsigned_less)
  finally show ?thesis by simp
qed
named_theorems le_simps
  \<open>little-endian encodings: widths and round trips\<close>
named_theorems result_simps
  \<open>unfolding of results and of state-passing sequencing\<close>

section \<open>Little-endian encodings\<close>

text \<open>\<open>to_le n w\<close> is the first \<open>n\<close> bytes of \<open>w.to_le_bytes()\<close>.\<close>

definition to_le :: "nat \<Rightarrow> 'a::len word \<Rightarrow> bytes" where
  "to_le n w = map (\<lambda>i. ucast (drop_bit (8 * i) w)) [0..<n]"

fun from_le :: "bytes \<Rightarrow> 'a::len word" where
  "from_le [] = 0"
| "from_le (b # bs) = ucast b OR push_bit 8 (from_le bs)"

lemma length_to_le [simp, le_simps]: "length (to_le n w) = n"
  by (simp add: to_le_def)

lemma to_le_nth: "i < n \<Longrightarrow> to_le n w ! i = ucast (drop_bit (8 * i) w)"
  by (simp add: to_le_def)

lemma to_le_Suc: "to_le (Suc n) w = ucast w # to_le n (drop_bit 8 w)"
  by (simp add: to_le_def upt_conv_Cons map_Suc_upt [symmetric] del: upt_Suc)
     (simp add: drop_bit_drop_bit add.commute)

lemma to_le_0 [simp]: "to_le 0 w = []"
  by (simp add: to_le_def)

lemma bit_from_le:
  "bit (from_le bs :: 'a::len word) k \<longleftrightarrow>
     k < LENGTH('a) \<and> k div 8 < length bs \<and> bit (bs ! (k div 8)) (k mod 8)"
proof (induction bs arbitrary: k)
  case Nil
  then show ?case by simp
next
  case (Cons b bs)
  show ?case
  proof (cases "k < 8")
    case True
    then show ?thesis
      by (auto simp: bit_or_iff bit_push_bit_iff bit_ucast_iff dest: bit_imp_le_length)
  next
    case False
    then have "k div 8 = Suc ((k - 8) div 8)" and "(k - 8) mod 8 = k mod 8"
      by (simp_all add: le_div_geq le_mod_geq)
    moreover have "\<not> bit b k"
      using False by (auto dest: bit_imp_le_length)
    ultimately show ?thesis
      using False Cons.IH [of "k - 8"]
      by (auto simp: bit_or_iff bit_push_bit_iff bit_ucast_iff)
  qed
qed

lemma from_le_to_le:
  "LENGTH('a) \<le> 8 * n \<Longrightarrow> from_le (to_le n (w :: 'a::len word)) = w"
proof (rule bit_word_eqI)
  fix k assume n: "LENGTH('a) \<le> 8 * n" and k: "k < LENGTH('a)"
  then have "k div 8 < n" by auto
  then show "bit (from_le (to_le n w) :: 'a word) k \<longleftrightarrow> bit w k"
    using k by (simp add: bit_from_le to_le_nth bit_ucast_iff bit_drop_bit_eq)
qed

lemma to_le_from_le:
  assumes "8 * length bs \<le> LENGTH('a)"
  shows "to_le (length bs) (from_le bs :: 'a::len word) = bs"
proof (rule nth_equalityI)
  fix i assume "i < length (to_le (length bs) (from_le bs :: 'a word))"
  then have i: "i < length bs" by simp
  show "to_le (length bs) (from_le bs :: 'a word) ! i = bs ! i"
  proof (rule bit_word_eqI)
    fix k assume "k < LENGTH(8)"
    then have "k < 8" by simp
    moreover from this i assms have "8 * i + k < LENGTH('a)" by linarith
    ultimately show "bit (to_le (length bs) (from_le bs :: 'a word) ! i) k = bit (bs ! i) k"
      using i by (simp add: to_le_nth bit_ucast_iff bit_drop_bit_eq bit_from_le)
  qed
qed simp

lemma from_to_le16 [simp, le_simps]: "from_le (to_le 2 (w :: u16)) = w"
  by (simp add: from_le_to_le)

lemma from_to_le32 [simp, le_simps]: "from_le (to_le 4 (w :: u32)) = w"
  by (simp add: from_le_to_le)

lemma from_to_le64 [simp, le_simps]: "from_le (to_le 8 (w :: u64)) = w"
  by (simp add: from_le_to_le)

section \<open>Formatting numbers\<close>

text \<open>\<open>{}\<close> on an unsigned number and \<open>{:02X}\<close> on a byte.\<close>

fun nat_to_string :: "nat \<Rightarrow> string" where
  "nat_to_string n =
     (if n < 10 then [char_of (48 + n)] else nat_to_string (n div 10) @ [char_of (48 + n mod 10)])"

declare nat_to_string.simps [simp del]

definition hex_digit :: "nat \<Rightarrow> char" where
  "hex_digit d = char_of (if d < 10 then 48 + d else 55 + d)"

definition hex2 :: "u8 \<Rightarrow> string" where
  "hex2 b = [hex_digit (unat b div 16), hex_digit (unat b mod 16)]"

section \<open>Slices\<close>

text \<open>\<open>dst[off..off + src.len()].copy_from_slice(src)\<close>; the callers check the range.\<close>

definition copy_at :: "nat \<Rightarrow> 'a list \<Rightarrow> 'a list \<Rightarrow> 'a list" where
  "copy_at off src dst = take off dst @ src @ drop (off + length src) dst"

definition slice :: "nat \<Rightarrow> nat \<Rightarrow> 'a list \<Rightarrow> 'a list" where
  "slice off n xs = take n (drop off xs)"

lemma length_copy_at [simp]:
  "off + length src \<le> length dst \<Longrightarrow> length (copy_at off src dst) = length dst"
  by (simp add: copy_at_def)

lemma length_slice [simp]: "off + n \<le> length xs \<Longrightarrow> length (slice off n xs) = n"
  by (simp add: slice_def)

lemma slice_copy_at_same [simp]:
  "off + length src \<le> length dst \<Longrightarrow> slice off (length src) (copy_at off src dst) = src"
  by (simp add: slice_def copy_at_def)

lemma slice_copy_at_before:
  "o' + n \<le> off \<Longrightarrow> off \<le> length dst \<Longrightarrow> slice o' n (copy_at off src dst) = slice o' n dst"
  by (simp add: slice_def copy_at_def take_drop)

lemma slice_copy_at_after:
  "off + length src \<le> o' \<Longrightarrow> off + length src \<le> length dst \<Longrightarrow>
     slice o' n (copy_at off src dst) = slice o' n dst"
  by (simp add: slice_def copy_at_def add.commute)

lemma nth_copy_at:
  "off + length src \<le> length dst \<Longrightarrow> i < length dst \<Longrightarrow>
     copy_at off src dst ! i = (if off \<le> i \<and> i < off + length src then src ! (i - off) else dst ! i)"
  by (auto simp: copy_at_def nth_append)

text \<open>One list written as two concatenations: which cut comes first.\<close>

lemma append_cut_le:
  assumes "xs @ ys = us @ vs" and "length us \<le> length xs"
  obtains zs where "xs = us @ zs" and "zs @ ys = vs"
proof -
  have "xs = us @ drop (length us) xs" "drop (length us) xs @ ys = vs"
    using assms by (metis append_eq_append_conv_if append_take_drop_id)
      (metis assms append_eq_append_conv_if)
  then show thesis using that by blast
qed

lemma append_cut_less:
  assumes "xs @ ys = us @ vs" and "length xs < length us"
  obtains zs where "us = xs @ zs" and "zs \<noteq> []" and "ys = zs @ vs"
proof -
  obtain zs where "us = xs @ zs" "zs @ vs = ys"
    using append_cut_le [OF assms(1) [symmetric]] assms(2) by auto
  with assms(2) that show thesis by auto
qed

section \<open>Results and state-passing methods\<close>

text \<open>
  \<open>Result<T, E>\<close> is \<open>'e + 't\<close>. A method \<open>fn f(&mut self) -> Result<T>\<close> is a function
  \<open>'s \<Rightarrow> ('e + 't) \<times> 's\<close>: the state reached when the error is raised is part of the result,
  as it is in the code. \<open>bindE\<close> is the \<open>?\<close> operator followed by the rest of the body.
\<close>

type_synonym ('s, 'e, 'a) stm = "'s \<Rightarrow> ('e + 'a) \<times> 's"

definition returnE :: "'a \<Rightarrow> ('s, 'e, 'a) stm" where
  "returnE a s = (Inr a, s)"

definition throwE :: "'e \<Rightarrow> ('s, 'e, 'a) stm" where
  "throwE e s = (Inl e, s)"

definition bindE :: "('s, 'e, 'a) stm \<Rightarrow> ('a \<Rightarrow> ('s, 'e, 'b) stm) \<Rightarrow> ('s, 'e, 'b) stm"
  where
  "bindE m f s = (case m s of (Inl e, s') \<Rightarrow> (Inl e, s') | (Inr a, s') \<Rightarrow> f a s')"

definition getsE :: "('s \<Rightarrow> 'a) \<Rightarrow> ('s, 'e, 'a) stm" where
  "getsE f s = (Inr (f s), s)"

definition modifyE :: "('s \<Rightarrow> 's) \<Rightarrow> ('s, 'e, unit) stm" where
  "modifyE f s = (Inr (), f s)"

text \<open>\<open>for x in xs \<dots> ?\<close>: the body on every element, stopping at the first error.\<close>

fun forE :: "'x list \<Rightarrow> ('x \<Rightarrow> ('s, 'e, unit) stm) \<Rightarrow> ('s, 'e, unit) stm" where
  "forE [] f = returnE ()"
| "forE (x # xs) f = bindE (f x) (\<lambda>_. forE xs f)"

lemma bindE_returnE [simp, result_simps]: "bindE (returnE a) f = f a"
  by (simp add: bindE_def returnE_def fun_eq_iff)

lemma bindE_assoc: "bindE (bindE m f) g = bindE m (\<lambda>a. bindE (f a) g)"
  by (auto simp: bindE_def fun_eq_iff split: prod.splits sum.splits)

lemma bindE_Inr [simp, result_simps]: "m s = (Inr a, s') \<Longrightarrow> bindE m f s = f a s'"
  by (simp add: bindE_def)

lemma bindE_Inl [simp, result_simps]: "m s = (Inl e, s') \<Longrightarrow> bindE m f s = (Inl e, s')"
  by (simp add: bindE_def)

lemma bindE_ok_iff:
  "bindE m f s = (Inr b, s'') \<longleftrightarrow> (\<exists>a s'. m s = (Inr a, s') \<and> f a s' = (Inr b, s''))"
  by (auto simp: bindE_def split: prod.splits sum.splits)

lemma bindE_okE:
  assumes "bindE m f s = (Inr b, s'')"
  obtains a s' where "m s = (Inr a, s')" and "f a s' = (Inr b, s'')"
  using assms by (auto simp: bindE_ok_iff)

lemma returnE_iff [simp, result_simps]: "returnE a s = (r, s') \<longleftrightarrow> r = Inr a \<and> s' = s"
  by (auto simp: returnE_def)

lemma throwE_iff [simp, result_simps]: "throwE e s = (r, s') \<longleftrightarrow> r = Inl e \<and> s' = s"
  by (auto simp: throwE_def)

lemma getsE_iff [simp, result_simps]: "getsE f s = (r, s') \<longleftrightarrow> r = Inr (f s) \<and> s' = s"
  by (auto simp: getsE_def)

lemma modifyE_iff [simp, result_simps]: "modifyE f s = (r, s') \<longleftrightarrow> r = Inr () \<and> s' = f s"
  by (auto simp: modifyE_def)

section \<open>Framed byte protocols\<close>

text \<open>
  The contract of a self-delimiting frame format: decoding a frame gives back the message and
  exactly the bytes that follow it, and a proper prefix of a frame is not yet a message.
\<close>

fun decode_stream :: "(bytes \<Rightarrow> ('a \<times> bytes) option) \<Rightarrow> nat \<Rightarrow> bytes \<Rightarrow> 'a list \<times> bytes" where
  "decode_stream d 0 bs = ([], bs)"
| "decode_stream d (Suc fuel) bs =
     (case d bs of
        None \<Rightarrow> ([], bs)
      | Some (x, rest) \<Rightarrow> (case decode_stream d fuel rest of (xs, r) \<Rightarrow> (x # xs, r)))"

locale frame_codec =
  fixes enc :: "'a \<Rightarrow> bytes"
    and dec :: "bytes \<Rightarrow> ('a \<times> bytes) option"
    and ok :: "'a \<Rightarrow> bool"
  assumes dec_enc: "ok x \<Longrightarrow> dec (enc x @ rest) = Some (x, rest)"
    and dec_prefix: "ok x \<Longrightarrow> enc x = p @ q \<Longrightarrow> q \<noteq> [] \<Longrightarrow> dec p = None"
begin

lemma enc_nonempty: "ok x \<Longrightarrow> dec [] = None \<Longrightarrow> enc x \<noteq> []"
  using dec_enc [of x "[]"] by auto

lemma enc_inj: "ok x \<Longrightarrow> ok y \<Longrightarrow> enc x @ r = enc y @ r' \<Longrightarrow> x = y \<and> r = r'"
  by (metis dec_enc option.inject prod.inject)

text \<open>Messages sent back to back come out in order, with the incomplete tail left over.\<close>

lemma decode_stream_frames:
  assumes "\<forall>x \<in> set xs. ok x" and "dec tail = None" and "length xs \<le> fuel"
  shows "decode_stream dec fuel (concat (map enc xs) @ tail) = (xs, tail)"
  using assms(1,3)
proof (induction xs arbitrary: fuel)
  case Nil
  then show ?case by (cases fuel) (simp_all add: assms(2))
next
  case (Cons x xs)
  then obtain fuel' where "fuel = Suc fuel'" and "length xs \<le> fuel'"
    by (cases fuel) auto
  then show ?case using Cons by (simp add: dec_enc)
qed

text \<open>A stream cut anywhere: the whole frames before the cut are delivered, nothing else.\<close>

lemma decode_stream_cut:
  assumes "\<forall>x \<in> set xs. ok x" and "ok y" and "enc y = p @ q" and "q \<noteq> []"
    and "length xs \<le> fuel"
  shows "decode_stream dec fuel (concat (map enc xs) @ p) = (xs, p)"
  using assms by (intro decode_stream_frames dec_prefix) auto

end

end
