(* ===== verification/Rustdesk_Codec.thy ===== *)
theory Rustdesk_Codec
  imports Kvm_Prelude
begin

text \<open>
  \<^verbatim>\<open>src/src/rustdesk/bytes_codec.rs\<close>: the variable-length framing of RustDesk's TCP messages.
  The three encoders (\<open>encode_frame\<close>, \<open>encode_frame_into\<close>, \<open>BytesCodec::encode\<close>), the stateful
  decoder \<open>BytesCodec::decode\<close> over a receive buffer, and the reader \<open>read_frame\<close> over a byte
  stream. A \<open>BytesMut\<close> is the list of its bytes; a reader is the list of the bytes still to
  come, and \<open>read_exact\<close> fails at its end. Writers are modelled by the bytes they receive.
\<close>

section \<open>Encoders\<close>

datatype io_error = InvalidInput | InvalidData | UnexpectedEof

definition MAX_PACKET_LENGTH :: nat where
  "MAX_PACKET_LENGTH = 0x3FFFFFFF"

text \<open>\<open>len << 2\<close> on \<open>usize\<close>.\<close>

definition len_shl2 :: "nat \<Rightarrow> usize" where
  "len_shl2 len = push_bit 2 (word_of_nat len)"

definition encode_frame :: "bytes \<Rightarrow> io_error + bytes" where
  "encode_frame data =
     (let len = length data in
      if len \<le> 0x3F then Inr ([ucast (len_shl2 len)] @ data)
      else if len \<le> 0x3FFF then
        (let h = (ucast (len_shl2 len) :: u16) OR 0x1 in Inr (to_le 2 h @ data))
      else if len \<le> 0x3FFFFF then
        (let h = (ucast (len_shl2 len) :: u32) OR 0x2 in
         Inr ([ucast (h AND 0xFF), ucast (drop_bit 8 h AND 0xFF), ucast (drop_bit 16 h AND 0xFF)]
              @ data))
      else if len \<le> MAX_PACKET_LENGTH then
        (let h = (ucast (len_shl2 len) :: u32) OR 0x3 in Inr (to_le 4 h @ data))
      else Inl InvalidInput)"

text \<open>\<open>put_u8\<close>, \<open>put_u16_le\<close>, \<open>put_u32_le\<close> of \<open>BufMut\<close> append to the buffer.\<close>

definition encode_frame_into :: "bytes \<Rightarrow> bytes \<Rightarrow> io_error + bytes" where
  "encode_frame_into data buf =
     (let len = length data in
      if len \<le> 0x3F then Inr ((buf @ [ucast (len_shl2 len)]) @ data)
      else if len \<le> 0x3FFF then
        Inr ((buf @ to_le 2 ((ucast (len_shl2 len) :: u16) OR 0x1)) @ data)
      else if len \<le> 0x3FFFFF then
        (let h = (ucast (len_shl2 len) :: u32) OR 0x2;
             buf = buf @ [ucast (h AND 0xFF)];
             buf = buf @ [ucast (drop_bit 8 h AND 0xFF)];
             buf = buf @ [ucast (drop_bit 16 h AND 0xFF)]
         in Inr (buf @ data))
      else if len \<le> MAX_PACKET_LENGTH then
        Inr ((buf @ to_le 4 ((ucast (len_shl2 len) :: u32) OR 0x3)) @ data)
      else Inl InvalidInput)"

text \<open>\<open>write_frame\<close> and \<open>write_frame_buffered\<close>: the bytes handed to the writer. The buffered
  form clears the reused buffer first.\<close>

definition write_frame :: "bytes \<Rightarrow> bytes \<Rightarrow> io_error + bytes" where
  "write_frame writer data =
     (case encode_frame data of Inl e \<Rightarrow> Inl e | Inr frame \<Rightarrow> Inr (writer @ frame))"

definition write_frame_buffered :: "bytes \<Rightarrow> bytes \<Rightarrow> bytes \<Rightarrow> io_error + bytes \<times> bytes" where
  "write_frame_buffered writer data buf =
     (let buf = [] in
      case encode_frame_into data buf of
        Inl e \<Rightarrow> Inl e
      | Inr buf \<Rightarrow> Inr (writer @ buf, buf))"

section \<open>The stateful decoder\<close>

datatype decode_state = Head | Data nat

record bytes_codec =
  codec_state :: decode_state
  max_packet_length :: nat

definition codec_new :: bytes_codec where
  "codec_new = \<lparr>codec_state = Head, max_packet_length = MAX_PACKET_LENGTH\<rparr>"

definition set_max_packet_length :: "nat \<Rightarrow> bytes_codec \<Rightarrow> bytes_codec" where
  "set_max_packet_length n c = c\<lparr>max_packet_length := n\<rparr>"

text \<open>\<open>((b & 0x3) + 1) as usize\<close>\<close>

definition head_len :: "u8 \<Rightarrow> nat" where
  "head_len b = unat ((b AND 0x3) + 1)"

definition decode_header :: "u8 \<Rightarrow> bytes \<Rightarrow> nat \<times> nat" where
  "decode_header first_byte header_bytes =
     (let hl = head_len first_byte;
          n = (ucast first_byte :: usize);
          n = (if hl > 1 \<and> header_bytes \<noteq> []
               then n OR push_bit 8 (ucast (header_bytes ! 0)) else n);
          n = (if hl > 2 \<and> length header_bytes \<ge> 2
               then n OR push_bit 16 (ucast (header_bytes ! 1)) else n);
          n = (if hl > 3 \<and> length header_bytes \<ge> 3
               then n OR push_bit 24 (ucast (header_bytes ! 2)) else n)
      in (hl, unat (drop_bit 2 n)))"

definition decode_head :: "bytes_codec \<Rightarrow> bytes \<Rightarrow> io_error + nat option \<times> bytes" where
  "decode_head c src =
     (if src = [] then Inr (None, src)
      else
        let hl = head_len (src ! 0) in
        if length src < hl then Inr (None, src)
        else
          let n = (ucast (src ! 0) :: usize);
              n = (if hl > 1 then n OR push_bit 8 (ucast (src ! 1)) else n);
              n = (if hl > 2 then n OR push_bit 16 (ucast (src ! 2)) else n);
              n = (if hl > 3 then n OR push_bit 24 (ucast (src ! 3)) else n);
              n = unat (drop_bit 2 n)
          in if n > max_packet_length c then Inl InvalidData
             else Inr (Some n, drop hl src))"

definition decode_data :: "nat \<Rightarrow> bytes \<Rightarrow> bytes option \<times> bytes" where
  "decode_data n src = (if length src < n then (None, src) else (Some (take n src), drop n src))"

text \<open>The decoder returns its result, its new state and what is left of the buffer.\<close>

definition decode :: "bytes_codec \<Rightarrow> bytes \<Rightarrow> (io_error + bytes option) \<times> bytes_codec \<times> bytes" where
  "decode c src =
     (case (case codec_state c of
              Head \<Rightarrow>
                (case decode_head c src of
                   Inl e \<Rightarrow> Inl (Inl e, c, src)
                 | Inr (Some n, src') \<Rightarrow> Inr (n, c\<lparr>codec_state := Data n\<rparr>, src')
                 | Inr (None, src') \<Rightarrow> Inl (Inr None, c, src'))
            | Data n \<Rightarrow> Inr (n, c, src)) of
        Inl r \<Rightarrow> r
      | Inr (n, c', src') \<Rightarrow>
          (case decode_data n src' of
             (Some data, src'') \<Rightarrow> (Inr (Some data), c'\<lparr>codec_state := Head\<rparr>, src'')
           | (None, src'') \<Rightarrow> (Inr None, c', src'')))"

definition codec_encode :: "bytes \<Rightarrow> bytes \<Rightarrow> io_error + bytes" where
  "codec_encode data buf =
     (let len = length data in
      if len \<le> 0x3F then Inr ((buf @ [ucast (len_shl2 len)]) @ data)
      else if len \<le> 0x3FFF then
        Inr ((buf @ to_le 2 ((ucast (len_shl2 len) :: u16) OR 0x1)) @ data)
      else if len \<le> 0x3FFFFF then
        (let h = (ucast (len_shl2 len) :: u32) OR 0x2;
             buf = buf @ to_le 2 (ucast (h AND 0xFFFF) :: u16);
             buf = buf @ [ucast (drop_bit 16 h)]
         in Inr (buf @ data))
      else if len \<le> MAX_PACKET_LENGTH then
        Inr ((buf @ to_le 4 ((ucast (len_shl2 len) :: u32) OR 0x3)) @ data)
      else Inl InvalidInput)"

section \<open>The stream reader\<close>

definition read_exact :: "nat \<Rightarrow> bytes \<Rightarrow> io_error + bytes \<times> bytes" where
  "read_exact n r = (if length r < n then Inl UnexpectedEof else Inr (take n r, drop n r))"

definition read_frame :: "bytes \<Rightarrow> io_error + bytes \<times> bytes" where
  "read_frame reader =
     (case read_exact 1 reader of
        Inl e \<Rightarrow> Inl e
      | Inr (first_byte, reader) \<Rightarrow>
          let hl = head_len (first_byte ! 0) in
          (case (if hl > 1 then
                   (case read_exact (hl - 1) reader of
                      Inl e \<Rightarrow> Inl e
                    | Inr (h, reader) \<Rightarrow> Inr (copy_at 0 h [0, 0, 0], reader))
                 else Inr ([0, 0, 0], reader)) of
             Inl e \<Rightarrow> Inl e
           | Inr (header_rest, reader) \<Rightarrow>
               let msg_len = snd (decode_header (first_byte ! 0) header_rest) in
               if msg_len > MAX_PACKET_LENGTH then Inl InvalidData
               else read_exact msg_len reader))"

section \<open>The header as one number\<close>

text \<open>
  Every header is the little-endian form of \<open>(len << 2) | tag\<close> in \<open>tag + 1\<close> bytes, where
  \<open>tag\<close> is the low two bits; the lemmas below reduce the encoders and the decoder to that.
\<close>

definition header_tag :: "nat \<Rightarrow> nat" where
  "header_tag len = (if len \<le> 0x3F then 0 else if len \<le> 0x3FFF then 1
                     else if len \<le> 0x3FFFFF then 2 else 3)"

definition header_word :: "nat \<Rightarrow> u32" where
  "header_word len = push_bit 2 (word_of_nat len) OR word_of_nat (header_tag len)"

definition header :: "nat \<Rightarrow> bytes" where
  "header len = to_le (header_tag len + 1) (header_word len)"

lemma header_tag_le: "header_tag len \<le> 3"
  by (simp add: header_tag_def)

lemma length_header: "length (header len) = header_tag len + 1"
  by (simp add: header_def)

lemma bit_nat_less: "bit (n :: nat) k \<Longrightarrow> n < 2 ^ m \<Longrightarrow> k < m"
  by (metis bit_take_bit_iff take_bit_nat_eq_self)

lemma bit_tag: "bit (header_tag len) k \<Longrightarrow> k < 2"
  using header_tag_le [of len] by (auto intro: bit_nat_less [of _ _ 2])

lemma bit_header_word:
  "bit (header_word len) k \<longleftrightarrow> k < 32 \<and> (if k < 2 then bit (header_tag len) k else bit len (k - 2))"
  using bit_tag [of len k]
  by (auto simp: header_word_def bit_or_iff bit_push_bit_iff bit_of_nat_iff)

lemma to_le_cong:
  assumes "\<And>k. k < 8 * n \<Longrightarrow> bit (v :: 'a::len word) k = bit (w :: 'b::len word) k"
  shows "to_le n v = to_le n w"
proof (rule nth_equalityI)
  fix i assume "i < length (to_le n v)"
  then have i: "i < n" by simp
  show "to_le n v ! i = to_le n w ! i"
  proof (rule bit_word_eqI)
    fix k assume "k < LENGTH(8)"
    with i have "8 * i + k < 8 * n" by simp
    with i assms [of "8 * i + k"] show "bit (to_le n v ! i) k = bit (to_le n w ! i) k"
      by (simp add: to_le_nth bit_ucast_iff bit_drop_bit_eq)
  qed
qed simp

lemma bit_len_shl2: "bit (len_shl2 len) k \<longleftrightarrow> k < 64 \<and> 2 \<le> k \<and> bit len (k - 2)"
  by (auto simp: len_shl2_def bit_push_bit_iff bit_of_nat_iff)

lemma bit_3_iff: "bit (3 :: 'a::len word) k \<longleftrightarrow> k < LENGTH('a) \<and> k < 2"
proof -
  have "(3 :: 'a word) = mask 2" by (simp add: mask_eq_exp_minus_1)
  then show ?thesis by (metis bit_mask_iff possible_bit_word)
qed

lemma bit_tag_nat: "bit (Suc 0) k \<longleftrightarrow> k = 0" "bit (2 :: nat) k \<longleftrightarrow> k = 1"
  "bit (3 :: nat) k \<longleftrightarrow> k < 2"
proof -
  have "(3 :: nat) = mask 2" by (simp add: mask_eq_exp_minus_1)
  then show "bit (3 :: nat) k \<longleftrightarrow> k < 2" by (metis bit_mask_iff possible_bit_nat)
qed (simp_all add: bit_Suc_0_iff bit_2_iff)

lemma bit_3_int: "bit (3 :: int) k \<longleftrightarrow> k < 2"
proof -
  have "(3 :: int) = mask 2" by (simp add: mask_eq_exp_minus_1)
  then show ?thesis by (metis bit_mask_iff possible_bit_int)
qed

lemmas header_bits = bit_3_int bit_ucast_iff bit_len_shl2 bit_header_word bit_or_iff bit_1_iff bit_2_iff
  bit_3_iff bit_tag_nat bit_and_iff bit_drop_bit_eq bit_mask_iff

lemma header1: "len \<le> 0x3F \<Longrightarrow> [ucast (len_shl2 len)] = header len"
proof -
  assume len: "len \<le> 0x3F"
  have "to_le 1 (ucast (len_shl2 len) :: u8) = to_le 1 (header_word len)"
    using len by (intro to_le_cong) (auto simp: header_bits header_tag_def)
  with len show ?thesis by (simp add: header_def header_tag_def to_le_def)
qed

lemma header2:
  assumes "0x3F < len" and "len \<le> 0x3FFF"
  shows "to_le 2 ((ucast (len_shl2 len) :: u16) OR 1) = header len"
proof -
  have "to_le 2 ((ucast (len_shl2 len) :: u16) OR 1) = to_le 2 (header_word len)"
    using assms by (intro to_le_cong) (auto simp: header_bits header_tag_def)
  then show ?thesis using assms by (simp add: header_def header_tag_def numeral_2_eq_2)
qed

lemma header4: "0x3FFFFF < len \<Longrightarrow>
    to_le 4 ((ucast (len_shl2 len) :: u32) OR 3) = header len"
  by (simp add: header_def header_tag_def)
     (rule to_le_cong, auto simp: header_bits header_tag_def)

lemma header3_word: "0x3FFF < len \<Longrightarrow> len \<le> 0x3FFFFF \<Longrightarrow>
    (ucast (len_shl2 len) :: u32) OR 2 = header_word len"
  by (rule bit_word_eqI) (auto simp: header_bits header_tag_def)

lemma to_le_3: "to_le 3 (h :: u32) =
    [ucast (h AND 0xFF), ucast (drop_bit 8 h AND 0xFF), ucast (drop_bit 16 h AND 0xFF)]"
proof -
  have ff: "(0xFF :: u32) = mask 8" by (simp add: mask_eq_exp_minus_1)
  have "(ucast (w AND 0xFF) :: u8) = ucast w" for w :: u32
    unfolding ff by (rule bit_word_eqI) (simp add: header_bits)
  then show ?thesis by (simp add: to_le_def upt_rec)
qed

lemma to_le_3_split: "to_le 2 (ucast (h AND 0xFFFF) :: u16) @ [ucast (drop_bit 16 h)] =
    to_le 3 (h :: u32)"
proof -
  have ff: "(0xFFFF :: u32) = mask 16" by (simp add: mask_eq_exp_minus_1)
  have "to_le 2 (ucast (h AND 0xFFFF) :: u16) = to_le 2 h"
    unfolding ff by (rule to_le_cong) (auto simp: header_bits)
  then show ?thesis by (simp add: to_le_def upt_rec)
qed

text \<open>All three encoders write the same header.\<close>

lemma encode_frame_eq:
  "encode_frame data =
     (if length data \<le> MAX_PACKET_LENGTH then Inr (header (length data) @ data)
      else Inl InvalidInput)"
proof -
  have h3: "0x3FFF < len \<Longrightarrow> len \<le> 0x3FFFFF \<Longrightarrow> header len = to_le 3 (header_word len)" for len
    by (simp add: header_def header_tag_def)
  show ?thesis
    using header1 [of "length data"] header2 [of "length data"] header4 [of "length data"]
      h3 [of "length data"] header3_word [of "length data"] to_le_3 [of "header_word (length data)"]
    by (auto simp: encode_frame_def Let_def MAX_PACKET_LENGTH_def)
qed

lemma encode_frame_into_eq:
  "encode_frame_into data buf =
     (case encode_frame data of Inl e \<Rightarrow> Inl e | Inr f \<Rightarrow> Inr (buf @ f))"
  by (simp add: encode_frame_into_def encode_frame_def Let_def)

lemma codec_encode_eq: "codec_encode data buf = encode_frame_into data buf"
proof -
  have "to_le 2 (ucast (h AND 0xFFFF) :: u16) @ [ucast (drop_bit 16 h)] @ data =
      [ucast (h AND 0xFF), ucast (drop_bit 8 h AND 0xFF), ucast (drop_bit 16 h AND 0xFF)] @ data"
    for h :: u32
    using to_le_3_split [of h] to_le_3 [of h] by (metis append_assoc)
  then show ?thesis by (simp add: codec_encode_def encode_frame_into_def Let_def)
qed

section \<open>Decoding a header\<close>

lemma head_len_eq: "head_len b = unat (b AND 3) + 1"
  and head_len_bounds: "1 \<le> head_len b" "head_len b \<le> 4"
proof -
  have "unat (b AND 3) \<le> unat (3 :: u8)"
    by (rule word_and_le1 [THEN word_le_nat_alt [THEN iffD1]])
  then have le: "unat (b AND 3) \<le> 3" by simp
  then show "head_len b = unat (b AND 3) + 1"
    by (simp add: head_len_def unat_word_ariths)
  with le show "1 \<le> head_len b" "head_len b \<le> 4" by simp_all
qed

lemma header_Cons: "header len = ucast (header_word len) # to_le (header_tag len) (drop_bit 8 (header_word len))"
  by (simp add: header_def to_le_Suc)

lemma head_len_header: "head_len (ucast (header_word len)) = header_tag len + 1"
proof -
  have "(ucast (header_word len) :: u8) AND 3 = word_of_nat (header_tag len)"
    using bit_tag [of len] by (intro bit_word_eqI) (auto simp: header_bits bit_of_nat_iff)
  moreover have "unat (word_of_nat (header_tag len) :: u8) = header_tag len"
    using header_tag_le [of len] by (simp add: unat_of_nat)
  ultimately show ?thesis by (simp add: head_len_eq)
qed

text \<open>The length field the decoder reads is the little-endian number without its tag.\<close>

definition length_field :: "bytes \<Rightarrow> nat" where
  "length_field h = unat (drop_bit 2 (from_le h :: usize))"

lemma decode_head_eq:
  "decode_head c src =
     (if src = [] \<or> length src < head_len (hd src) then Inr (None, src)
      else let n = length_field (take (head_len (hd src)) src) in
        if n > max_packet_length c then Inl InvalidData
        else Inr (Some n, drop (head_len (hd src)) src))"
proof (cases src)
  case Nil
  then show ?thesis by (simp add: decode_head_def)
next
  case (Cons b xs)
  show ?thesis
  proof (cases "length src < head_len b")
    case True
    with Cons show ?thesis by (simp add: decode_head_def)
  next
    case False
    consider "head_len b = 1" | x ys where "head_len b = 2" "xs = x # ys"
      | x y ys where "head_len b = 3" "xs = x # y # ys"
      | x y z ys where "head_len b = 4" "xs = x # y # z # ys"
    proof -
      have "head_len b \<in> {1, 2, 3, 4}" using head_len_bounds [of b] by auto
      then show ?thesis
        using False Cons that by (auto simp: Suc_le_length_iff numeral_eq_Suc not_less)
    qed
    then show ?thesis
      by cases (simp_all add: Cons decode_head_def length_field_def push_bit_or or.assoc Let_def)
  qed
qed

lemma decode_header_eq:
  assumes "length rest = 3"
  shows "decode_header b rest =
    (head_len b, length_field (take (head_len b) (b # rest)))"
proof -
  obtain x y z where rest: "rest = [x, y, z]"
    using assms by (auto simp: length_Suc_conv numeral_eq_Suc)
  consider "head_len b = 1" | "head_len b = 2" | "head_len b = 3" | "head_len b = 4"
    using head_len_bounds [of b] by linarith
  then show ?thesis
    by cases (simp_all add: rest decode_header_def length_field_def push_bit_or or.assoc)
qed

lemma length_field_header:
  assumes "len \<le> MAX_PACKET_LENGTH"
  shows "length_field (header len) = len"
proof -
  have len: "len < 2 ^ 30" using assms by (simp add: MAX_PACKET_LENGTH_def)
  have small: "len < 2 ^ (8 * header_tag len + 6)"
    using len by (simp add: header_tag_def)
  have "drop_bit 2 (from_le (header len) :: usize) = word_of_nat len"
  proof (rule bit_word_eqI)
    fix k assume "k < LENGTH(64)"
    have "bit len k \<Longrightarrow> k < 8 * header_tag len + 6"
      by (rule bit_nat_less [OF _ small])
    moreover have "bit len k \<Longrightarrow> k < 30" by (rule bit_nat_less [OF _ len])
    moreover have "(2 + k) div 8 < Suc (header_tag len) \<longleftrightarrow> k < 8 * header_tag len + 6"
      by (subst div_less_iff_less_mult) auto
    ultimately show "bit (drop_bit 2 (from_le (header len) :: usize)) k =
        bit (word_of_nat len :: usize) k"
      by (auto simp: bit_drop_bit_eq bit_from_le length_header bit_of_nat_iff header_def to_le_nth
          bit_ucast_iff bit_header_word)
  qed
  then show ?thesis
    using len by (simp add: length_field_def unat_of_nat)
qed

section \<open>Decoding frames\<close>

definition frame :: "bytes \<Rightarrow> bytes" where
  "frame data = header (length data) @ data"

definition frame_ok :: "bytes_codec \<Rightarrow> bytes \<Rightarrow> bool" where
  "frame_ok c data \<longleftrightarrow>
     length data \<le> MAX_PACKET_LENGTH \<and> length data \<le> max_packet_length c"

lemma encode_frame_frame: "encode_frame data = Inr f \<longleftrightarrow> length data \<le> MAX_PACKET_LENGTH \<and> f = frame data"
  by (auto simp: encode_frame_eq frame_def)

lemma decode_head_frame:
  assumes "frame_ok c data"
  shows "decode_head c (header (length data) @ rest) = Inr (Some (length data), rest)"
proof -
  let ?n = "length data"
  have hd: "header ?n @ rest \<noteq> []" "head_len (hd (header ?n @ rest)) = length (header ?n)"
    by (simp_all add: header_Cons head_len_header)
  with assms show ?thesis
    by (simp add: decode_head_eq length_field_header frame_ok_def)
qed

lemma decode_head_short:
  assumes "header n = p @ q" and "q \<noteq> []"
  shows "decode_head c p = Inr (None, p)"
proof (cases p)
  case Nil
  then show ?thesis by (simp add: decode_head_eq)
next
  case (Cons b p')
  with assms(1) have "head_len b = header_tag n + 1"
    using head_len_header [of n] by (auto simp: header_Cons head_len_header)
  moreover have "length p < header_tag n + 1"
  proof -
    have "length (p @ q) = header_tag n + 1" using assms(1) length_header [of n] by simp
    with assms(2) show ?thesis by (cases q) auto
  qed
  ultimately show ?thesis using Cons by (simp add: decode_head_eq)
qed

lemma decode_frame:
  assumes "frame_ok c data" and "codec_state c = Head"
  shows "decode c (frame data @ rest) = (Inr (Some data), c, rest)"
  using assms
  by (cases c) (simp add: decode_def frame_def decode_head_frame decode_data_def)

text \<open>A proper prefix of a frame is consumed at most up to the end of its header.\<close>

lemma decode_prefix:
  assumes "frame_ok c data" and "codec_state c = Head" and "frame data = p @ q" and "q \<noteq> []"
  shows "decode c p =
    (if length p < length (header (length data)) then (Inr None, c, p)
     else (Inr None, c\<lparr>codec_state := Data (length data)\<rparr>, drop (length (header (length data))) p))"
proof (cases "length p < length (header (length data))")
  case True
  let ?h = "header (length data)"
  from assms(3) have "take (length p) (?h @ data) = p"
    by (simp add: frame_def)
  with True have "?h = p @ drop (length p) ?h"
    by (metis append_take_drop_id take_append less_imp_le diff_is_0_eq take_0 append_Nil2)
  moreover have "drop (length p) ?h \<noteq> []" using True by simp
  ultimately have "decode_head c p = Inr (None, p)"
    by (rule decode_head_short)
  with True assms(2) show ?thesis by (simp add: decode_def)
next
  case False
  let ?h = "header (length data)"
  from assms(3) have eq: "?h @ data = p @ q" by (simp add: frame_def)
  with False obtain p' where p: "p = ?h @ p'"
    by (auto simp: append_eq_append_conv2)
  with eq have "data = p' @ q" by simp
  with \<open>q \<noteq> []\<close> have "length p' < length data" by simp
  then show ?thesis using assms(1,2) p
    by (simp add: decode_def decode_head_frame decode_data_def)
qed

text \<open>The decoder provides the framed-protocol contract, in each of its \<open>Head\<close> states.\<close>

definition decode_one :: "bytes_codec \<Rightarrow> bytes \<Rightarrow> (bytes \<times> bytes) option" where
  "decode_one c bs =
     (case decode c bs of (Inr (Some d), _, rest) \<Rightarrow> Some (d, rest) | _ \<Rightarrow> None)"

interpretation rd: frame_codec frame "decode_one codec_new" "frame_ok codec_new"
proof unfold_locales
  fix x rest assume "frame_ok codec_new x"
  then show "decode_one codec_new (frame x @ rest) = Some (x, rest)"
    by (simp add: decode_one_def decode_frame codec_new_def)
next
  fix x p q assume "frame_ok codec_new x" and "frame x = p @ q" and "q \<noteq> []"
  then show "decode_one codec_new p = None"
    using decode_prefix [of codec_new x p q]
    by (simp add: decode_one_def codec_new_def)
qed

section \<open>Receiving in chunks\<close>

text \<open>
  The polling loop a \<open>Framed\<close> transport runs around \<open>decode\<close>: append what arrived to the
  buffer, then decode until no message is complete. \<open>drain\<close> is given two more units of fuel
  than there are bytes, which is enough (\<open>drain_step\<close>): a decoded frame takes at least its
  header byte from the buffer, except the one whose header had been read before.
\<close>

fun drain :: "nat \<Rightarrow> bytes_codec \<Rightarrow> bytes \<Rightarrow> (io_error + bytes list) \<times> bytes_codec \<times> bytes" where
  "drain 0 c buf = (Inr [], c, buf)"
| "drain (Suc fuel) c buf =
     (case decode c buf of
        (Inl e, c', buf') \<Rightarrow> (Inl e, c', buf')
      | (Inr None, c', buf') \<Rightarrow> (Inr [], c', buf')
      | (Inr (Some d), c', buf') \<Rightarrow>
          (case drain fuel c' buf' of
             (Inl e, c'', buf'') \<Rightarrow> (Inl e, c'', buf'')
           | (Inr ds, c'', buf'') \<Rightarrow> (Inr (d # ds), c'', buf'')))"

fun receive :: "bytes_codec \<Rightarrow> bytes \<Rightarrow> bytes list \<Rightarrow> (io_error + bytes list) \<times> bytes_codec \<times> bytes" where
  "receive c buf [] = (Inr [], c, buf)"
| "receive c buf (chunk # chunks) =
     (let buf = buf @ chunk in
      case drain (length buf + 2) c buf of
        (Inl e, c', buf') \<Rightarrow> (Inl e, c', buf')
      | (Inr ds, c', buf') \<Rightarrow>
          (case receive c' buf' chunks of
             (Inl e, c'', buf'') \<Rightarrow> (Inl e, c'', buf'')
           | (Inr ds', c'', buf'') \<Rightarrow> (Inr (ds @ ds'), c'', buf'')))"

text \<open>\<open>awaiting m c buf future ds\<close>: with limit \<open>m\<close>, the decoder has exactly the messages
  \<open>ds\<close> still to deliver once the bytes \<open>future\<close> have arrived.\<close>

definition awaiting :: "nat \<Rightarrow> bytes_codec \<Rightarrow> bytes \<Rightarrow> bytes \<Rightarrow> bytes list \<Rightarrow> bool" where
  "awaiting m c buf future ds \<longleftrightarrow>
     max_packet_length c = m \<and> (\<forall>d \<in> set ds. length d \<le> MAX_PACKET_LENGTH \<and> length d \<le> m) \<and>
     (case codec_state c of
        Head \<Rightarrow> buf @ future = concat (map frame ds)
      | Data n \<Rightarrow> (\<exists>d ds'. ds = d # ds' \<and> n = length d \<and> buf @ future = d @ concat (map frame ds')))"

definition slack :: "bytes_codec \<Rightarrow> nat" where
  "slack c = (case codec_state c of Head \<Rightarrow> 0 | Data _ \<Rightarrow> 1)"

lemma frame_nonempty: "frame d \<noteq> []"
  by (simp add: frame_def header_Cons)

text \<open>One call of \<open>decode\<close>: either the next message comes out, or the buffer holds only a
  proper part of it.\<close>

lemma awaiting_decode:
  assumes "awaiting m c buf future ds"
  obtains (msg) d ds' c' buf' where "ds = d # ds'" "decode c buf = (Inr (Some d), c', buf')"
      "awaiting m c' buf' future ds'" "length buf' + slack c' < length buf + slack c"
  | (more) c' buf' where "decode c buf = (Inr None, c', buf')" "awaiting m c' buf' future ds"
      "future = [] \<Longrightarrow> ds = [] \<and> buf' = [] \<and> codec_state c' = Head"
proof (cases "codec_state c")
  case Head
  then have eq: "buf @ future = concat (map frame ds)"
    and ok: "\<forall>d \<in> set ds. frame_ok c d" and m: "max_packet_length c = m"
    using assms by (auto simp: awaiting_def frame_ok_def)
  show thesis
  proof (cases ds)
    case Nil
    with eq Head have "decode c buf = (Inr None, c, buf)"
      by (simp add: decode_def decode_head_eq)
    with more assms Nil eq Head show thesis by simp
  next
    case (Cons d ds')
    with ok have dok: "frame_ok c d" by simp
    from eq Cons have eq': "buf @ future = frame d @ concat (map frame ds')" by simp
    show thesis
    proof (cases "length (frame d) \<le> length buf")
      case True
      with eq' obtain buf' where buf: "buf = frame d @ buf'" "buf' @ future = concat (map frame ds')"
        by (rule append_cut_le)
      have "decode c buf = (Inr (Some d), c, buf')"
        using dok Head buf(1) by (simp add: decode_frame)
      with msg Cons Head buf ok m assms frame_nonempty [of d] show thesis
        by (auto simp: awaiting_def)
    next
      case False
      then have "length buf < length (frame d)" by simp
      with eq' obtain q where fq: "frame d = buf @ q" "q \<noteq> []" and fut: "future = q @ concat (map frame ds')"
        by (rule append_cut_less)
      let ?h = "header (length d)"
      note dp = decode_prefix [OF dok Head fq]
      show thesis
      proof (cases "length buf < length ?h")
        case True
        with dp more assms fut fq Head show thesis by auto
      next
        case False
        with fq have "d = drop (length ?h) buf @ q"
          by (auto simp: frame_def append_eq_append_conv2)
        with False dp more assms fut fq Cons Head show thesis
          by (auto simp: awaiting_def)
      qed
    qed
  qed
next
  case (Data n)
  then obtain d ds' where ds: "ds = d # ds'" "n = length d"
    and eq: "buf @ future = d @ concat (map frame ds')" and m: "max_packet_length c = m"
    using assms by (auto simp: awaiting_def)
  show thesis
  proof (cases "length d \<le> length buf")
    case True
    with eq obtain buf' where "buf = d @ buf'" "buf' @ future = concat (map frame ds')"
      by (rule append_cut_le)
    with msg ds Data assms show thesis
      by (auto simp: decode_def decode_data_def awaiting_def slack_def)
  next
    case False
    then have "length buf < length d" by simp
    with eq obtain q where "d = buf @ q" "q \<noteq> []" "future = q @ concat (map frame ds')"
      by (rule append_cut_less)
    with more [of c buf] ds Data assms show thesis
      by (simp add: decode_def decode_data_def)
  qed
qed

lemma drain_step:
  assumes "awaiting m c buf future ds" and "length buf + slack c < fuel"
  obtains ds1 ds2 c' buf' where "ds = ds1 @ ds2" "drain fuel c buf = (Inr ds1, c', buf')"
    "awaiting m c' buf' future ds2" "future = [] \<Longrightarrow> ds2 = [] \<and> buf' = [] \<and> codec_state c' = Head"
  using assms
proof (induction fuel arbitrary: c buf ds thesis)
  case 0
  then show ?case by simp
next
  case (Suc fuel)
  from Suc.prems(2) show ?case
  proof (cases rule: awaiting_decode)
    case (msg d ds' c1 buf1)
    with Suc.prems(3) have "length buf1 + slack c1 < fuel" by simp
    then obtain ds1 ds2 c' buf' where "ds' = ds1 @ ds2" "drain fuel c1 buf1 = (Inr ds1, c', buf')"
      "awaiting m c' buf' future ds2" "future = [] \<Longrightarrow> ds2 = [] \<and> buf' = [] \<and> codec_state c' = Head"
      using Suc.IH [OF _ msg(3)] by blast
    with msg Suc.prems(1) [of "d # ds1"] show ?thesis by simp
  next
    case (more c' buf')
    with Suc.prems(1) [of "[]"] show ?thesis by simp
  qed
qed

declare drain.simps(2) [simp del]

lemma receive_awaiting:
  assumes "awaiting m c buf (concat chunks) ds" and "chunks \<noteq> []"
  shows "\<exists>c'. receive c buf chunks = (Inr ds, c', []) \<and> codec_state c' = Head \<and>
    max_packet_length c' = m"
  using assms
proof (induction chunks arbitrary: c buf ds)
  case Nil
  then show ?case by simp
next
  case (Cons chunk chunks)
  let ?buf = "buf @ chunk"
  have "awaiting m c ?buf (concat chunks) ds"
    using Cons.prems by (simp add: awaiting_def split: decode_state.splits)
  moreover have "length ?buf + slack c < length ?buf + 2"
    by (simp add: slack_def split: decode_state.splits)
  ultimately obtain ds1 ds2 c' buf' where ds: "ds = ds1 @ ds2"
    and dr: "drain (length ?buf + 2) c ?buf = (Inr ds1, c', buf')"
    and aw': "awaiting m c' buf' (concat chunks) ds2"
    and fin: "concat chunks = [] \<longrightarrow> ds2 = [] \<and> buf' = [] \<and> codec_state c' = Head"
    by (rule drain_step) blast
  show ?case
  proof (cases chunks)
    case Nil
    with dr ds fin aw' show ?thesis by (auto simp: awaiting_def Let_def)
  next
    case (Cons x xs)
    with Cons.IH [OF aw'] dr ds show ?thesis by (auto simp: Let_def)
  qed
qed

section \<open>Properties\<close>

text \<open>C4: Chunk independence of the RustDesk framing. However the bytes of a sequence of encoded
  messages are cut into network reads, the polling loop around \<open>BytesCodec::decode\<close> delivers
  exactly those messages in order, and ends with an empty buffer, ready for the next header.\<close>

theorem codec_chunk_independent:
  assumes "map encode_frame ds = map Inr fs"
    and "\<forall>d \<in> set ds. length d \<le> m"
    and "concat chunks = concat fs" and "chunks \<noteq> []"
  shows "receive (set_max_packet_length m codec_new) [] chunks =
    (Inr ds, set_max_packet_length m codec_new, [])"
proof -
  let ?c = "set_max_packet_length m codec_new"
  have "\<forall>d \<in> set ds. length d \<le> MAX_PACKET_LENGTH" and fs: "fs = map frame ds"
    using assms(1) by (induction ds arbitrary: fs; auto simp: encode_frame_frame)+
  then have "awaiting m ?c [] (concat chunks) ds"
    using assms by (simp add: awaiting_def set_max_packet_length_def codec_new_def)
  then obtain c' where "receive ?c [] chunks = (Inr ds, c', [])" "codec_state c' = Head"
    "max_packet_length c' = m"
    using receive_awaiting [of m ?c "[]" chunks ds] assms(4) by auto
  then show ?thesis
    by (cases c') (simp add: set_max_packet_length_def codec_new_def)
qed

text \<open>The four encoders of the source: one frame, appended to whatever was there.\<close>

text \<open>The three encoders agree. \<open>encode_frame_into\<close> and \<open>BytesCodec::encode\<close> append to the
  buffer exactly the bytes \<open>encode_frame\<close> builds (and fail on the same inputs), and
  \<open>write_frame\<close> and \<open>write_frame_buffered\<close> send the same bytes, whatever the reused buffer held.\<close>

theorem codec_encoders_agree:
  "encode_frame_into data buf = (case encode_frame data of Inl e \<Rightarrow> Inl e | Inr f \<Rightarrow> Inr (buf @ f)) \<and>
   codec_encode data buf = (case encode_frame data of Inl e \<Rightarrow> Inl e | Inr f \<Rightarrow> Inr (buf @ f)) \<and>
   map_sum id fst (write_frame_buffered out data buf) = write_frame out data"
  by (auto simp: codec_encode_eq encode_frame_into_eq write_frame_buffered_def write_frame_def
      split: sum.splits)

lemma length_field_bound: "length h \<le> 4 \<Longrightarrow> length_field h \<le> MAX_PACKET_LENGTH"
proof -
  assume h: "length h \<le> 4"
  have "drop_bit 2 (from_le h :: usize) = take_bit 30 (drop_bit 2 (from_le h))"
  proof (rule bit_word_eqI)
    fix k
    have "bit (from_le h :: usize) (2 + k) \<Longrightarrow> k < 30"
      using h by (auto simp: bit_from_le)
    then show "bit (drop_bit 2 (from_le h :: usize)) k =
        bit (take_bit 30 (drop_bit 2 (from_le h) :: usize)) k"
      by (auto simp: bit_drop_bit_eq bit_take_bit_iff)
  qed
  then have "length_field h = unat (take_bit 30 (drop_bit 2 (from_le h) :: usize))"
    by (simp add: length_field_def)
  also have "\<dots> < 2 ^ 30" by (metis unsigned_take_bit_eq take_bit_nat_less_exp)
  finally show ?thesis by (simp add: MAX_PACKET_LENGTH_def)
qed

lemma read_frame_decode:
  "read_frame r =
     (case decode codec_new r of
        (Inr (Some d), _, rest) \<Rightarrow> Inr (d, rest)
      | (Inr None, _, _) \<Rightarrow> Inl UnexpectedEof
      | (Inl e, _, _) \<Rightarrow> Inl e) \<and>
   read_frame r \<noteq> Inl InvalidData"
proof (cases r)
  case Nil
  then show ?thesis
    by (simp add: read_frame_def read_exact_def decode_def codec_new_def decode_head_eq)
next
  case (Cons b xs)
  have hl: "1 \<le> head_len b" "head_len b \<le> 4" by (fact head_len_bounds)+
  show ?thesis
  proof (cases "length xs < head_len b - 1")
    case True
    with hl Cons show ?thesis
      by (auto simp: read_frame_def read_exact_def decode_def codec_new_def decode_head_eq)
  next
    case False
    define h where "h = take (head_len b - 1) xs"
    let ?n = "length_field (b # h)" and ?rest = "drop (head_len b - 1) xs"
    have lh: "length h = head_len b - 1" using False by (simp add: h_def)
    then have n: "?n \<le> MAX_PACKET_LENGTH" using hl by (intro length_field_bound) simp
    have dh: "decode_header b (copy_at 0 h [0, 0, 0]) = (head_len b, ?n)"
      using hl lh by (simp add: decode_header_eq copy_at_def take_Cons')
    have re: "read_exact 1 r = Inr ([b], xs)" "read_exact (head_len b - 1) xs = Inr (h, ?rest)"
      using False Cons by (simp_all add: read_exact_def h_def)
    have rf: "read_frame r = read_exact ?n ?rest"
    proof (cases "head_len b = 1")
      case True
      then have "h = []" by (simp add: h_def)
      then have "decode_header b [0, 0, 0] = (head_len b, ?n)" using dh by (simp add: copy_at_def)
      with True re n show ?thesis by (simp add: read_frame_def)
    next
      case False
      with hl have "1 < head_len b" by simp
      with re dh n show ?thesis by (simp add: read_frame_def)
    qed
    have "take (head_len b) r = b # h" and "drop (head_len b) r = ?rest"
      using hl Cons by (simp_all add: h_def take_Cons' drop_Cons')
    then have "decode_head codec_new r = Inr (Some ?n, ?rest)"
      using False hl Cons n by (simp add: decode_head_eq codec_new_def)
    with rf show ?thesis
      by (simp add: decode_def codec_new_def decode_data_def read_exact_def)
  qed
qed

text \<open>\<open>read_frame\<close> on a byte stream and \<open>BytesCodec::decode\<close> on a buffer are the same parser:
  for every input, a message read by one is the message decoded by the other with the same
  bytes left, and the reader fails (end of input) exactly where the decoder waits for more. In
  particular the "Message too large" branch of \<open>read_frame\<close> is dead: four header bytes cannot
  announce more than the limit.\<close>

theorem read_frame_is_decode:
  "read_frame r =
     (case decode codec_new r of
        (Inr (Some d), _, rest) \<Rightarrow> Inr (d, rest)
      | (Inr None, _, _) \<Rightarrow> Inl UnexpectedEof
      | (Inl e, _, _) \<Rightarrow> Inl e) \<and>
   read_frame r \<noteq> Inl InvalidData"
  by (rule read_frame_decode)

text \<open>Every frame the decoder delivers is a slice of the buffer: header, then payload, then
  the untouched rest; the payload never exceeds the configured limit and at most four header
  bytes are consumed. A header that announces more than the limit is an error, consumes
  nothing and leaves the decoder where it was.\<close>

theorem decode_consumes:
  assumes "codec_state c = Head" and "decode c src = (r, c', rest)"
  shows "case r of
      Inr (Some d) \<Rightarrow> (\<exists>h. src = h @ d @ rest \<and> length h = head_len (hd src) \<and> length h \<le> 4 \<and>
                         length d = length_field h \<and> length d \<le> max_packet_length c) \<and> c' = c
    | Inr None \<Rightarrow> (c' = c \<and> rest = src) \<or>
                   (\<exists>n. c' = c\<lparr>codec_state := Data n\<rparr> \<and> length rest < n \<and> n \<le> max_packet_length c)
    | Inl e \<Rightarrow> e = InvalidData \<and> c' = c \<and> rest = src \<and>
               max_packet_length c < length_field (take (head_len (hd src)) src)"
proof (cases "src = [] \<or> length src < head_len (hd src)")
  case True
  with assms show ?thesis by (auto simp: decode_def decode_head_eq)
next
  case False
  let ?h = "take (head_len (hd src)) src" and ?b = "drop (head_len (hd src)) src"
  show ?thesis
  proof (cases "length_field ?h > max_packet_length c")
    case True
    with False assms show ?thesis by (auto simp: decode_def decode_head_eq)
  next
    case le: False
    show ?thesis
    proof (cases "length ?b < length_field ?h")
      case True
      with False le assms have "r = Inr None" "rest = ?b" "c' = c\<lparr>codec_state := Data (length_field ?h)\<rparr>"
        by (auto simp: decode_def decode_head_eq decode_data_def)
      with True le show ?thesis by auto
    next
      case full: False
      with False le assms have r: "r = Inr (Some (take (length_field ?h) ?b))"
        "rest = drop (length_field ?h) ?b" "c' = c"
        by (auto simp: decode_def decode_head_eq decode_data_def)
      have "src = ?h @ take (length_field ?h) ?b @ rest" using r(2) by (simp only: append_take_drop_id)
      with r False full le head_len_bounds [of "hd src"] show ?thesis
        by (auto intro!: exI [of _ ?h])
    qed
  qed
qed

section \<open>Witnesses\<close>

text \<open>Two messages, one of them empty, cut inside the header and inside the payload.\<close>

lemma codec_chunk_independent_witness:
  "receive (set_max_packet_length 10 codec_new) [] [[], [12, 7], [8], [9, 0]] =
    (Inr [[7, 8, 9], []], set_max_packet_length 10 codec_new, [])"
  by (rule codec_chunk_independent [where fs = "[[12, 7, 8, 9], [0]]"])
     (simp_all add: encode_frame_def len_shl2_def)

lemma decode_consumes_witness:
  "\<exists>h. [12, 7, 8, 9, 5] = h @ [7, 8, 9] @ [5 :: u8] \<and> length h = head_len 12 \<and> length h \<le> 4 \<and>
     length [7, 8, 9 :: u8] = length_field h \<and> length [7, 8, 9 :: u8] \<le> max_packet_length codec_new"
proof -
  have "decode codec_new [12, 7, 8, 9, 5] = (Inr (Some [7, 8, 9]), codec_new, [5])"
    by (simp add: decode_def decode_head_def decode_data_def codec_new_def head_len_def
        MAX_PACKET_LENGTH_def)
  from decode_consumes [OF _ this] show ?thesis by (simp add: codec_new_def)
qed

end
