(* ===== verification/Hid_Types.thy ===== *)
theory Hid_Types
  imports Kvm_Prelude "HOL-Library.Multiset"
begin

text \<open>
  \<^verbatim>\<open>src/src/hid/keyboard.rs\<close>, \<^verbatim>\<open>src/src/hid/types.rs\<close> and \<^verbatim>\<open>src/src/hid/consumer.rs\<close>: the
  canonical keys and their USB HID usage codes, modifier masks, keyboard and mouse events, the
  boot-protocol keyboard report with its six key slots, and the mouse report.

  The 117 keys of \<open>CanonicalKey\<close> are declared as the sum of the nine consecutive blocks of the
  source's enum (the datatype package is quadratic in the constructors of one type); every
  source constructor keeps its name, inside the constructor of its block.
\<close>

section \<open>Canonical keys\<close>

datatype (plugins only: code size) letter_key =
    KeyA | KeyB | KeyC | KeyD | KeyE | KeyF | KeyG | KeyH | KeyI | KeyJ | KeyK | KeyL | KeyM
  | KeyN | KeyO | KeyP | KeyQ | KeyR | KeyS | KeyT | KeyU | KeyV | KeyW | KeyX | KeyY | KeyZ

datatype (plugins only: code size) digit_key =
    Digit1 | Digit2 | Digit3 | Digit4 | Digit5 | Digit6 | Digit7 | Digit8 | Digit9 | Digit0

datatype (plugins only: code size) text_key =
    Enter | Escape | Backspace | Tab | Space | Minus | Equal | BracketLeft | BracketRight
  | Backslash | Semicolon | Quote | Backquote | Comma | Period | Slash | CapsLock

datatype (plugins only: code size) function_key =
    F1 | F2 | F3 | F4 | F5 | F6 | F7 | F8 | F9 | F10 | F11 | F12

datatype (plugins only: code size) nav_key =
    PrintScreen | ScrollLock | Pause | Insert | Home | PageUp | Delete | End | PageDown
  | ArrowRight | ArrowLeft | ArrowDown | ArrowUp

datatype (plugins only: code size) numpad_key =
    NumLock | NumpadDivide | NumpadMultiply | NumpadSubtract | NumpadAdd | NumpadEnter
  | Numpad1 | Numpad2 | Numpad3 | Numpad4 | Numpad5 | Numpad6 | Numpad7 | Numpad8 | Numpad9
  | Numpad0 | NumpadDecimal

datatype (plugins only: code size) extra_key =
    IntlBackslash | ContextMenu

datatype (plugins only: code size) high_function_key =
    F13 | F14 | F15 | F16 | F17 | F18 | F19 | F20 | F21 | F22 | F23 | F24

datatype (plugins only: code size) modifier_key =
    ControlLeft | ShiftLeft | AltLeft | MetaLeft | ControlRight | ShiftRight | AltRight
  | MetaRight

datatype (plugins only: code size) canonical_key =
    Letter letter_key | Digit digit_key | TextKey text_key | FunctionKey function_key
  | NavKey nav_key | Numpad numpad_key | ExtraKey extra_key | HighFunctionKey high_function_key
  | Modifier modifier_key

fun letter_usage :: "letter_key \<Rightarrow> u8" where
  "letter_usage KeyA = 0x04" | "letter_usage KeyB = 0x05" | "letter_usage KeyC = 0x06"
| "letter_usage KeyD = 0x07" | "letter_usage KeyE = 0x08" | "letter_usage KeyF = 0x09"
| "letter_usage KeyG = 0x0A" | "letter_usage KeyH = 0x0B" | "letter_usage KeyI = 0x0C"
| "letter_usage KeyJ = 0x0D" | "letter_usage KeyK = 0x0E" | "letter_usage KeyL = 0x0F"
| "letter_usage KeyM = 0x10" | "letter_usage KeyN = 0x11" | "letter_usage KeyO = 0x12"
| "letter_usage KeyP = 0x13" | "letter_usage KeyQ = 0x14" | "letter_usage KeyR = 0x15"
| "letter_usage KeyS = 0x16" | "letter_usage KeyT = 0x17" | "letter_usage KeyU = 0x18"
| "letter_usage KeyV = 0x19" | "letter_usage KeyW = 0x1A" | "letter_usage KeyX = 0x1B"
| "letter_usage KeyY = 0x1C" | "letter_usage KeyZ = 0x1D"

fun digit_usage :: "digit_key \<Rightarrow> u8" where
  "digit_usage Digit1 = 0x1E" | "digit_usage Digit2 = 0x1F" | "digit_usage Digit3 = 0x20"
| "digit_usage Digit4 = 0x21" | "digit_usage Digit5 = 0x22" | "digit_usage Digit6 = 0x23"
| "digit_usage Digit7 = 0x24" | "digit_usage Digit8 = 0x25" | "digit_usage Digit9 = 0x26"
| "digit_usage Digit0 = 0x27"

fun text_usage :: "text_key \<Rightarrow> u8" where
  "text_usage Enter = 0x28" | "text_usage Escape = 0x29" | "text_usage Backspace = 0x2A"
| "text_usage Tab = 0x2B" | "text_usage Space = 0x2C" | "text_usage Minus = 0x2D"
| "text_usage Equal = 0x2E" | "text_usage BracketLeft = 0x2F" | "text_usage BracketRight = 0x30"
| "text_usage Backslash = 0x31" | "text_usage Semicolon = 0x33" | "text_usage Quote = 0x34"
| "text_usage Backquote = 0x35" | "text_usage Comma = 0x36" | "text_usage Period = 0x37"
| "text_usage Slash = 0x38" | "text_usage CapsLock = 0x39"

fun function_usage :: "function_key \<Rightarrow> u8" where
  "function_usage F1 = 0x3A" | "function_usage F2 = 0x3B" | "function_usage F3 = 0x3C"
| "function_usage F4 = 0x3D" | "function_usage F5 = 0x3E" | "function_usage F6 = 0x3F"
| "function_usage F7 = 0x40" | "function_usage F8 = 0x41" | "function_usage F9 = 0x42"
| "function_usage F10 = 0x43" | "function_usage F11 = 0x44" | "function_usage F12 = 0x45"

fun nav_usage :: "nav_key \<Rightarrow> u8" where
  "nav_usage PrintScreen = 0x46" | "nav_usage ScrollLock = 0x47" | "nav_usage Pause = 0x48"
| "nav_usage Insert = 0x49" | "nav_usage Home = 0x4A" | "nav_usage PageUp = 0x4B"
| "nav_usage Delete = 0x4C" | "nav_usage End = 0x4D" | "nav_usage PageDown = 0x4E"
| "nav_usage ArrowRight = 0x4F" | "nav_usage ArrowLeft = 0x50" | "nav_usage ArrowDown = 0x51"
| "nav_usage ArrowUp = 0x52"

fun numpad_usage :: "numpad_key \<Rightarrow> u8" where
  "numpad_usage NumLock = 0x53" | "numpad_usage NumpadDivide = 0x54"
| "numpad_usage NumpadMultiply = 0x55" | "numpad_usage NumpadSubtract = 0x56"
| "numpad_usage NumpadAdd = 0x57" | "numpad_usage NumpadEnter = 0x58"
| "numpad_usage Numpad1 = 0x59" | "numpad_usage Numpad2 = 0x5A" | "numpad_usage Numpad3 = 0x5B"
| "numpad_usage Numpad4 = 0x5C" | "numpad_usage Numpad5 = 0x5D" | "numpad_usage Numpad6 = 0x5E"
| "numpad_usage Numpad7 = 0x5F" | "numpad_usage Numpad8 = 0x60" | "numpad_usage Numpad9 = 0x61"
| "numpad_usage Numpad0 = 0x62" | "numpad_usage NumpadDecimal = 0x63"

fun extra_usage :: "extra_key \<Rightarrow> u8" where
  "extra_usage IntlBackslash = 0x64" | "extra_usage ContextMenu = 0x65"

fun high_function_usage :: "high_function_key \<Rightarrow> u8" where
  "high_function_usage F13 = 0x68" | "high_function_usage F14 = 0x69"
| "high_function_usage F15 = 0x6A" | "high_function_usage F16 = 0x6B"
| "high_function_usage F17 = 0x6C" | "high_function_usage F18 = 0x6D"
| "high_function_usage F19 = 0x6E" | "high_function_usage F20 = 0x6F"
| "high_function_usage F21 = 0x70" | "high_function_usage F22 = 0x71"
| "high_function_usage F23 = 0x72" | "high_function_usage F24 = 0x73"

fun modifier_usage :: "modifier_key \<Rightarrow> u8" where
  "modifier_usage ControlLeft = 0xE0" | "modifier_usage ShiftLeft = 0xE1"
| "modifier_usage AltLeft = 0xE2" | "modifier_usage MetaLeft = 0xE3"
| "modifier_usage ControlRight = 0xE4" | "modifier_usage ShiftRight = 0xE5"
| "modifier_usage AltRight = 0xE6" | "modifier_usage MetaRight = 0xE7"

fun to_hid_usage :: "canonical_key \<Rightarrow> u8" where
  "to_hid_usage (Letter k) = letter_usage k"
| "to_hid_usage (Digit k) = digit_usage k"
| "to_hid_usage (TextKey k) = text_usage k"
| "to_hid_usage (FunctionKey k) = function_usage k"
| "to_hid_usage (NavKey k) = nav_usage k"
| "to_hid_usage (Numpad k) = numpad_usage k"
| "to_hid_usage (ExtraKey k) = extra_usage k"
| "to_hid_usage (HighFunctionKey k) = high_function_usage k"
| "to_hid_usage (Modifier k) = modifier_usage k"

definition letter_table :: "(u8 \<times> letter_key) list" where
  "letter_table =
    [(0x04, KeyA), (0x05, KeyB), (0x06, KeyC), (0x07, KeyD), (0x08, KeyE), (0x09, KeyF),
     (0x0A, KeyG), (0x0B, KeyH), (0x0C, KeyI), (0x0D, KeyJ), (0x0E, KeyK), (0x0F, KeyL),
     (0x10, KeyM), (0x11, KeyN), (0x12, KeyO), (0x13, KeyP), (0x14, KeyQ), (0x15, KeyR),
     (0x16, KeyS), (0x17, KeyT), (0x18, KeyU), (0x19, KeyV), (0x1A, KeyW), (0x1B, KeyX),
     (0x1C, KeyY), (0x1D, KeyZ)]"

definition digit_table :: "(u8 \<times> digit_key) list" where
  "digit_table =
    [(0x1E, Digit1), (0x1F, Digit2), (0x20, Digit3), (0x21, Digit4), (0x22, Digit5),
     (0x23, Digit6), (0x24, Digit7), (0x25, Digit8), (0x26, Digit9), (0x27, Digit0)]"

definition text_table :: "(u8 \<times> text_key) list" where
  "text_table =
    [(0x28, Enter), (0x29, Escape), (0x2A, Backspace), (0x2B, Tab), (0x2C, Space), (0x2D, Minus),
     (0x2E, Equal), (0x2F, BracketLeft), (0x30, BracketRight), (0x31, Backslash),
     (0x33, Semicolon), (0x34, Quote), (0x35, Backquote), (0x36, Comma), (0x37, Period),
     (0x38, Slash), (0x39, CapsLock)]"

definition function_table :: "(u8 \<times> function_key) list" where
  "function_table =
    [(0x3A, F1), (0x3B, F2), (0x3C, F3), (0x3D, F4), (0x3E, F5), (0x3F, F6), (0x40, F7),
     (0x41, F8), (0x42, F9), (0x43, F10), (0x44, F11), (0x45, F12)]"

definition nav_table :: "(u8 \<times> nav_key) list" where
  "nav_table =
    [(0x46, PrintScreen), (0x47, ScrollLock), (0x48, Pause), (0x49, Insert), (0x4A, Home),
     (0x4B, PageUp), (0x4C, Delete), (0x4D, End), (0x4E, PageDown), (0x4F, ArrowRight),
     (0x50, ArrowLeft), (0x51, ArrowDown), (0x52, ArrowUp)]"

definition numpad_table :: "(u8 \<times> numpad_key) list" where
  "numpad_table =
    [(0x53, NumLock), (0x54, NumpadDivide), (0x55, NumpadMultiply), (0x56, NumpadSubtract),
     (0x57, NumpadAdd), (0x58, NumpadEnter), (0x59, Numpad1), (0x5A, Numpad2), (0x5B, Numpad3),
     (0x5C, Numpad4), (0x5D, Numpad5), (0x5E, Numpad6), (0x5F, Numpad7), (0x60, Numpad8),
     (0x61, Numpad9), (0x62, Numpad0), (0x63, NumpadDecimal)]"

definition extra_table :: "(u8 \<times> extra_key) list" where
  "extra_table =
    [(0x64, IntlBackslash), (0x65, ContextMenu)]"

definition high_function_table :: "(u8 \<times> high_function_key) list" where
  "high_function_table =
    [(0x68, F13), (0x69, F14), (0x6A, F15), (0x6B, F16), (0x6C, F17), (0x6D, F18), (0x6E, F19),
     (0x6F, F20), (0x70, F21), (0x71, F22), (0x72, F23), (0x73, F24)]"

definition modifier_table :: "(u8 \<times> modifier_key) list" where
  "modifier_table =
    [(0xE0, ControlLeft), (0xE1, ShiftLeft), (0xE2, AltLeft), (0xE3, MetaLeft),
     (0xE4, ControlRight), (0xE5, ShiftRight), (0xE6, AltRight), (0xE7, MetaRight)]"

definition hid_usage_table :: "(u8 \<times> canonical_key) list" where
  "hid_usage_table =
     map (map_prod id Letter) letter_table @
     map (map_prod id Digit) digit_table @
     map (map_prod id TextKey) text_table @
     map (map_prod id FunctionKey) function_table @
     map (map_prod id NavKey) nav_table @
     map (map_prod id Numpad) numpad_table @
     map (map_prod id ExtraKey) extra_table @
     map (map_prod id HighFunctionKey) high_function_table @
     map (map_prod id Modifier) modifier_table"

definition from_hid_usage :: "u8 \<Rightarrow> canonical_key option" where
  "from_hid_usage usage = map_of hid_usage_table usage"

lemmas usage_tables = letter_table_def digit_table_def text_table_def function_table_def nav_table_def numpad_table_def extra_table_def high_function_table_def modifier_table_def

lemma letter_in_table: "(letter_usage k, k) \<in> set letter_table"
  by (cases k) (simp_all add: letter_table_def)

lemma digit_in_table: "(digit_usage k, k) \<in> set digit_table"
  by (cases k) (simp_all add: digit_table_def)

lemma text_in_table: "(text_usage k, k) \<in> set text_table"
  by (cases k) (simp_all add: text_table_def)

lemma function_in_table: "(function_usage k, k) \<in> set function_table"
  by (cases k) (simp_all add: function_table_def)

lemma nav_in_table: "(nav_usage k, k) \<in> set nav_table"
  by (cases k) (simp_all add: nav_table_def)

lemma numpad_in_table: "(numpad_usage k, k) \<in> set numpad_table"
  by (cases k) (simp_all add: numpad_table_def)

lemma extra_in_table: "(extra_usage k, k) \<in> set extra_table"
  by (cases k) (simp_all add: extra_table_def)

lemma high_function_in_table: "(high_function_usage k, k) \<in> set high_function_table"
  by (cases k) (simp_all add: high_function_table_def)

lemma modifier_in_table: "(modifier_usage k, k) \<in> set modifier_table"
  by (cases k) (simp_all add: modifier_table_def)

lemma map_prod_mem: "(u, x) \<in> set t \<Longrightarrow> (u, C x) \<in> map_prod id C ` set t"
  by force

lemmas map_prod_mems =
  map_prod_mem [OF letter_in_table, where C = Letter]
  map_prod_mem [OF digit_in_table, where C = Digit]
  map_prod_mem [OF text_in_table, where C = TextKey]
  map_prod_mem [OF function_in_table, where C = FunctionKey]
  map_prod_mem [OF nav_in_table, where C = NavKey]
  map_prod_mem [OF numpad_in_table, where C = Numpad]
  map_prod_mem [OF extra_in_table, where C = ExtraKey]
  map_prod_mem [OF high_function_in_table, where C = HighFunctionKey]
  map_prod_mem [OF modifier_in_table, where C = Modifier]

lemma usage_in_table: "(to_hid_usage k, k) \<in> set hid_usage_table"
  by (cases k) (simp_all add: hid_usage_table_def map_prod_mems)

text \<open>The table is in ascending order, so adjacent comparisons suffice.\<close>

lemma usage_table_distinct: "distinct (map fst hid_usage_table)"
proof -
  have "sorted_wrt (<) (map fst hid_usage_table)"
    by (simp add: hid_usage_table_def usage_tables sorted_wrt2 sorted_wrt1 del: sorted_wrt.simps(2))
  then show ?thesis by (simp add: strict_sorted_iff)
qed

lemma usage_table_sound: "list_all (\<lambda>(u, k). to_hid_usage k = u) hid_usage_table"
  by (simp add: hid_usage_table_def usage_tables)

lemma from_hid_usage_iff: "from_hid_usage u = Some k \<longleftrightarrow> to_hid_usage k = u"
proof
  assume "from_hid_usage u = Some k"
  then show "to_hid_usage k = u" using usage_table_sound
    by (auto simp: from_hid_usage_def list_all_iff dest: map_of_SomeD)
next
  assume "to_hid_usage k = u"
  then show "from_hid_usage u = Some k"
    using usage_in_table [of k] by (simp add: from_hid_usage_def usage_table_distinct)
qed

definition is_modifier :: "canonical_key \<Rightarrow> bool" where
  "is_modifier k = (case k of
     Modifier m \<Rightarrow> (case m of ControlLeft \<Rightarrow> True | ShiftLeft \<Rightarrow> True | AltLeft \<Rightarrow> True
                     | MetaLeft \<Rightarrow> True | ControlRight \<Rightarrow> True | ShiftRight \<Rightarrow> True
                     | AltRight \<Rightarrow> True | MetaRight \<Rightarrow> True)
   | _ \<Rightarrow> False)"

definition modifier_bit :: "canonical_key \<Rightarrow> u8 option" where
  "modifier_bit k = (case k of
     Modifier m \<Rightarrow> (case m of
         ControlLeft \<Rightarrow> Some 0x01 | ShiftLeft \<Rightarrow> Some 0x02 | AltLeft \<Rightarrow> Some 0x04
       | MetaLeft \<Rightarrow> Some 0x08 | ControlRight \<Rightarrow> Some 0x10 | ShiftRight \<Rightarrow> Some 0x20
       | AltRight \<Rightarrow> Some 0x40 | MetaRight \<Rightarrow> Some 0x80)
   | _ \<Rightarrow> None)"

section \<open>Events\<close>

datatype key_event_type = KeyDown | KeyUp

record keyboard_modifiers =
  left_ctrl :: bool
  left_shift :: bool
  left_alt :: bool
  left_meta :: bool
  right_ctrl :: bool
  right_shift :: bool
  right_alt :: bool
  right_meta :: bool

definition no_modifiers :: keyboard_modifiers where
  "no_modifiers = \<lparr>left_ctrl = False, left_shift = False, left_alt = False, left_meta = False,
     right_ctrl = False, right_shift = False, right_alt = False, right_meta = False\<rparr>"

definition to_hid_byte :: "keyboard_modifiers \<Rightarrow> u8" where
  "to_hid_byte m =
     (let byte = 0;
          byte = (if left_ctrl m then byte OR 0x01 else byte);
          byte = (if left_shift m then byte OR 0x02 else byte);
          byte = (if left_alt m then byte OR 0x04 else byte);
          byte = (if left_meta m then byte OR 0x08 else byte);
          byte = (if right_ctrl m then byte OR 0x10 else byte);
          byte = (if right_shift m then byte OR 0x20 else byte);
          byte = (if right_alt m then byte OR 0x40 else byte);
          byte = (if right_meta m then byte OR 0x80 else byte)
      in byte)"

definition from_hid_byte :: "u8 \<Rightarrow> keyboard_modifiers" where
  "from_hid_byte byte = \<lparr>
     left_ctrl = byte AND 0x01 \<noteq> 0,
     left_shift = byte AND 0x02 \<noteq> 0,
     left_alt = byte AND 0x04 \<noteq> 0,
     left_meta = byte AND 0x08 \<noteq> 0,
     right_ctrl = byte AND 0x10 \<noteq> 0,
     right_shift = byte AND 0x20 \<noteq> 0,
     right_alt = byte AND 0x40 \<noteq> 0,
     right_meta = byte AND 0x80 \<noteq> 0\<rparr>"

definition any_modifier :: "keyboard_modifiers \<Rightarrow> bool" where
  "any_modifier m \<longleftrightarrow> left_ctrl m \<or> left_shift m \<or> left_alt m \<or> left_meta m \<or>
     right_ctrl m \<or> right_shift m \<or> right_alt m \<or> right_meta m"

record keyboard_event =
  ke_type :: key_event_type
  ke_key :: canonical_key
  ke_modifiers :: keyboard_modifiers

definition key_down :: "canonical_key \<Rightarrow> keyboard_modifiers \<Rightarrow> keyboard_event" where
  "key_down k m = \<lparr>ke_type = KeyDown, ke_key = k, ke_modifiers = m\<rparr>"

definition key_up :: "canonical_key \<Rightarrow> keyboard_modifiers \<Rightarrow> keyboard_event" where
  "key_up k m = \<lparr>ke_type = KeyUp, ke_key = k, ke_modifiers = m\<rparr>"

datatype mouse_button = LeftButton | RightButton | MiddleButton | BackButton | ForwardButton

fun to_hid_bit :: "mouse_button \<Rightarrow> u8" where
  "to_hid_bit LeftButton = 0x01"
| "to_hid_bit RightButton = 0x02"
| "to_hid_bit MiddleButton = 0x04"
| "to_hid_bit BackButton = 0x08"
| "to_hid_bit ForwardButton = 0x10"

datatype mouse_event_type = MouseMove | MouseMoveAbs | MouseDown | MouseUp | MouseScroll

text \<open>\<open>x\<close>, \<open>y\<close> are \<open>i32\<close>; \<open>scroll\<close> is \<open>i8\<close>: words read with \<open>sint\<close>.\<close>

record mouse_event =
  me_type :: mouse_event_type
  me_x :: u32
  me_y :: u32
  me_button :: "mouse_button option"
  me_scroll :: u8

definition move_rel :: "u32 \<Rightarrow> u32 \<Rightarrow> mouse_event" where
  "move_rel dx dy = \<lparr>me_type = MouseMove, me_x = dx, me_y = dy, me_button = None, me_scroll = 0\<rparr>"

definition move_abs :: "u32 \<Rightarrow> u32 \<Rightarrow> mouse_event" where
  "move_abs x y = \<lparr>me_type = MouseMoveAbs, me_x = x, me_y = y, me_button = None, me_scroll = 0\<rparr>"

definition button_down :: "mouse_button \<Rightarrow> mouse_event" where
  "button_down b = \<lparr>me_type = MouseDown, me_x = 0, me_y = 0, me_button = Some b, me_scroll = 0\<rparr>"

definition button_up :: "mouse_button \<Rightarrow> mouse_event" where
  "button_up b = \<lparr>me_type = MouseUp, me_x = 0, me_y = 0, me_button = Some b, me_scroll = 0\<rparr>"

definition scroll_event :: "u8 \<Rightarrow> mouse_event" where
  "scroll_event delta =
     \<lparr>me_type = MouseScroll, me_x = 0, me_y = 0, me_button = None, me_scroll = delta\<rparr>"

record consumer_event =
  usage :: u16

datatype hid_event =
    KeyboardEv keyboard_event | MouseEv mouse_event | ConsumerEv consumer_event

definition is_valid_usage :: "u16 \<Rightarrow> bool" where
  "is_valid_usage u \<longleftrightarrow> u \<in> {0x00CD, 0x00B7, 0x00B5, 0x00B6, 0x00E2, 0x00E9, 0x00EA}"

section \<open>Reports\<close>

text \<open>\<open>keys : [u8; 6]\<close> is a list; that its length stays six is part of the report invariant.\<close>

record keyboard_report =
  kr_modifiers :: u8
  kr_reserved :: u8
  kr_keys :: bytes

definition keyboard_report_default :: keyboard_report where
  "keyboard_report_default = \<lparr>kr_modifiers = 0, kr_reserved = 0, kr_keys = replicate 6 0\<rparr>"

definition keyboard_report_to_bytes :: "keyboard_report \<Rightarrow> bytes" where
  "keyboard_report_to_bytes r = [kr_modifiers r, kr_reserved r, kr_keys r ! 0, kr_keys r ! 1,
     kr_keys r ! 2, kr_keys r ! 3, kr_keys r ! 4, kr_keys r ! 5]"

text \<open>The loop over the slots: the first zero slot takes the key.\<close>

fun fill_slot :: "u8 \<Rightarrow> bytes \<Rightarrow> bool \<times> bytes" where
  "fill_slot key [] = (False, [])"
| "fill_slot key (slot # slots) =
     (if slot = 0 then (True, key # slots)
      else (case fill_slot key slots of (added, slots') \<Rightarrow> (added, slot # slots')))"

definition add_key :: "u8 \<Rightarrow> keyboard_report \<Rightarrow> bool \<times> keyboard_report" where
  "add_key key r = (case fill_slot key (kr_keys r) of (added, ks) \<Rightarrow> (added, r\<lparr>kr_keys := ks\<rparr>))"

text \<open>\<open>sort_by(|a, b| b.cmp(a))\<close>: descending order.\<close>

definition remove_key :: "u8 \<Rightarrow> keyboard_report \<Rightarrow> keyboard_report" where
  "remove_key key r =
     (let ks = map (\<lambda>slot. if slot = key then 0 else slot) (kr_keys r)
      in r\<lparr>kr_keys := rev (sort ks)\<rparr>)"

definition clear_report :: "keyboard_report \<Rightarrow> keyboard_report" where
  "clear_report r = r\<lparr>kr_modifiers := 0, kr_keys := replicate 6 0\<rparr>"

record mouse_report =
  mr_buttons :: u8
  mr_x :: u8
  mr_y :: u8
  mr_wheel :: u8

definition to_bytes_relative :: "mouse_report \<Rightarrow> bytes" where
  "to_bytes_relative r = [mr_buttons r, mr_x r, mr_y r, mr_wheel r]"

definition to_bytes_absolute :: "mouse_report \<Rightarrow> u16 \<Rightarrow> u16 \<Rightarrow> bytes" where
  "to_bytes_absolute r x y =
     [mr_buttons r, ucast (x AND 0xFF), ucast (drop_bit 8 x),
      ucast (y AND 0xFF), ucast (drop_bit 8 y), mr_wheel r]"

section \<open>The report as a bag of pressed keys\<close>

definition compact :: "bytes \<Rightarrow> bool" where
  "compact ks \<longleftrightarrow> (\<exists>ps n. ks = ps @ replicate n 0 \<and> 0 \<notin> set ps)"

definition wf_report :: "keyboard_report \<Rightarrow> bool" where
  "wf_report r \<longleftrightarrow> length (kr_keys r) = 6 \<and> compact (kr_keys r)"

definition pressed :: "keyboard_report \<Rightarrow> u8 multiset" where
  "pressed r = mset (filter (\<lambda>k. k \<noteq> 0) (kr_keys r))"

lemma wf_report_default: "wf_report keyboard_report_default"
  by (auto simp: wf_report_def keyboard_report_default_def compact_def intro: exI [of _ "[]"])

lemma pressed_default [simp]: "pressed keyboard_report_default = {#}"
  by (simp add: pressed_def keyboard_report_default_def numeral_eq_Suc)

lemma wf_clear_report: "wf_report (clear_report r)"
  by (auto simp: wf_report_def clear_report_def compact_def intro: exI [of _ "[]"])

lemma pressed_clear_report [simp]: "pressed (clear_report r) = {#}"
  by (simp add: pressed_def clear_report_def numeral_eq_Suc)

lemma sorted_zeros_first:
  assumes "sorted (xs :: bytes)"
  obtains n ps where "xs = replicate n 0 @ ps" "0 \<notin> set ps"
  using assms
proof (induction xs arbitrary: thesis)
  case Nil
  then show ?case by simp
next
  case (Cons x xs)
  then obtain n ps where xs: "xs = replicate n 0 @ ps" "0 \<notin> set ps" by auto
  show ?case
  proof (cases "x = 0")
    case True
    with xs Cons.prems(1) [of "Suc n" ps] show ?thesis by simp
  next
    case False
    with Cons.prems(2) have "0 \<notin> set (x # xs)" by (auto simp: word_le_0_iff)
    with Cons.prems(1) [of 0 "x # xs"] show ?thesis by simp
  qed
qed

lemma compact_rev_sort: "compact (rev (sort ks))"
proof -
  obtain n ps where "sort ks = replicate n 0 @ ps" "0 \<notin> set ps"
    using sorted_zeros_first [of "sort ks"] sorted_sort by blast
  then show ?thesis
    unfolding compact_def by (intro exI [of _ "rev ps"] exI [of _ n]) simp
qed

lemma fill_slot_compact:
  "0 \<notin> set ps \<Longrightarrow> fill_slot k (ps @ replicate n 0) =
     (if n = 0 then (False, ps) else (True, ps @ k # replicate (n - 1) 0))"
proof (induction ps)
  case Nil
  then show ?case by (cases n) simp_all
next
  case (Cons p ps)
  then show ?case by (cases "n = 0") simp_all
qed

lemma add_key_spec:
  assumes "wf_report r" and "k \<noteq> 0"
  shows "wf_report (snd (add_key k r)) \<and>
    (if size (pressed r) < 6
     then fst (add_key k r) \<and> pressed (snd (add_key k r)) = add_mset k (pressed r)
     else add_key k r = (False, r))"
proof -
  obtain ps n where ks: "kr_keys r = ps @ replicate n 0" "0 \<notin> set ps" and len: "length ps + n = 6"
    using assms(1) by (auto simp: wf_report_def compact_def)
  have ps: "filter (\<lambda>k. k \<noteq> 0) ps = ps" by (rule filter_True) (use ks(2) in auto)
  then have pr: "pressed r = mset ps" by (simp add: pressed_def ks)
  show ?thesis
  proof (cases "n = 0")
    case True
    with ks(2) have "fill_slot k ps = (False, ps)" using fill_slot_compact [of ps k 0] by simp
    with True ks len pr assms(1) show ?thesis
      by (cases r) (simp add: add_key_def)
  next
    case False
    have "compact (ps @ k # replicate (n - 1) 0)"
      unfolding compact_def using ks(2) assms(2) by (intro exI [of _ "ps @ [k]"] exI [of _ "n - 1"]) simp
    with False ks len pr ps assms(2) show ?thesis
      by (auto simp: add_key_def fill_slot_compact wf_report_def pressed_def)
  qed
qed

lemma filter_zeroed:
  "mset (filter (\<lambda>x. x \<noteq> (0 :: u8)) (map (\<lambda>slot. if slot = k then 0 else slot) xs)) =
    filter_mset (\<lambda>x. x \<noteq> k) (mset (filter (\<lambda>x. x \<noteq> 0) xs))"
  by (induction xs) auto

lemma remove_key_spec:
  assumes "wf_report r"
  shows "wf_report (remove_key k r) \<and> pressed (remove_key k r) = filter_mset (\<lambda>x. x \<noteq> k) (pressed r)"
proof -
  let ?ks = "map (\<lambda>slot. if slot = k then 0 else slot) (kr_keys r)"
  have "mset (filter (\<lambda>x. x \<noteq> 0) (rev (sort ?ks))) = mset (filter (\<lambda>x. x \<noteq> 0) ?ks)"
    by (simp add: mset_filter)
  also have "\<dots> = filter_mset (\<lambda>x. x \<noteq> k) (mset (filter (\<lambda>x. x \<noteq> 0) (kr_keys r)))"
    by (rule filter_zeroed)
  finally show ?thesis using assms
    by (simp add: remove_key_def Let_def wf_report_def pressed_def compact_rev_sort)
qed

lemma length_keys: "wf_report r \<Longrightarrow> size (pressed r) \<le> 6"
  unfolding wf_report_def pressed_def by (metis length_filter_le size_mset)

text \<open>
  What the HID backends rely on: pressing adds at most the pressed key, releasing removes every
  occurrence of the released one. \<open>run_keys\<close> replays key events; a key whose last event is a
  release is not held afterwards, whatever overflowed in between.
\<close>

fun run_keys :: "('k \<Rightarrow> 'r \<Rightarrow> bool \<times> 'r) \<Rightarrow> ('k \<Rightarrow> 'r \<Rightarrow> 'r) \<Rightarrow> (bool \<times> 'k) list \<Rightarrow> 'r \<Rightarrow> 'r" where
  "run_keys press release [] r = r"
| "run_keys press release ((down, k) # es) r =
     run_keys press release es (if down then snd (press k r) else release k r)"

locale key_slots =
  fixes press :: "'k \<Rightarrow> 'r \<Rightarrow> bool \<times> 'r"
    and release :: "'k \<Rightarrow> 'r \<Rightarrow> 'r"
    and held :: "'r \<Rightarrow> 'k multiset"
    and inv :: "'r \<Rightarrow> bool"
    and key_ok :: "'k \<Rightarrow> bool"
    and capacity :: nat
  assumes press_inv: "inv r \<Longrightarrow> key_ok k \<Longrightarrow> inv (snd (press k r))"
    and release_inv: "inv r \<Longrightarrow> inv (release k r)"
    and press_held: "inv r \<Longrightarrow> key_ok k \<Longrightarrow>
      held (snd (press k r)) = (if size (held r) < capacity then add_mset k (held r) else held r)"
    and release_held: "inv r \<Longrightarrow> held (release k r) = filter_mset (\<lambda>x. x \<noteq> k) (held r)"
    and held_capacity: "inv r \<Longrightarrow> size (held r) \<le> capacity"
begin

lemma run_inv: "inv r \<Longrightarrow> \<forall>(d, k) \<in> set es. key_ok k \<Longrightarrow> inv (run_keys press release es r)"
  by (induction es arbitrary: r) (auto simp: press_inv release_inv)

lemma run_held_subset:
  "inv r \<Longrightarrow> \<forall>(d, k) \<in> set es. key_ok k \<Longrightarrow> x \<in># held (run_keys press release es r) \<Longrightarrow>
     x \<in># held r \<or> (True, x) \<in> set es"
proof (induction es arbitrary: r)
  case Nil
  then show ?case by simp
next
  case (Cons e es)
  obtain d k where e: "e = (d, k)" by (cases e)
  let ?r = "if d then snd (press k r) else release k r"
  have "inv ?r" using Cons.prems e by (auto simp: press_inv release_inv)
  then have "x \<in># held ?r \<or> (True, x) \<in> set es"
    using Cons e by auto
  moreover have "x \<in># held r \<or> (d \<and> x = k)" if "x \<in># held ?r"
    using that Cons.prems e by (auto simp: press_held release_held split: if_splits)
  ultimately show ?case using e by auto
qed

lemma no_stuck_key:
  assumes "inv r" and "\<forall>(d, x) \<in> set (es @ (False, k) # es'). key_ok x" and "(True, k) \<notin> set es'"
  shows "k \<notin># held (run_keys press release (es @ (False, k) # es') r)"
proof -
  have app: "run_keys press release (xs @ ys) r = run_keys press release ys (run_keys press release xs r)"
    for xs ys r by (induction xs arbitrary: r) auto
  let ?r = "run_keys press release es r"
  have "inv ?r" using assms by (intro run_inv) auto
  then have "inv (release k ?r)" "k \<notin># held (release k ?r)"
    by (simp_all add: release_inv release_held)
  then show ?thesis using run_held_subset [of "release k ?r" es' k] assms
    by (auto simp: app)
qed

end

interpretation report: key_slots add_key remove_key pressed wf_report "\<lambda>k. k \<noteq> 0" 6
  by unfold_locales (use add_key_spec remove_key_spec length_keys in \<open>auto split: if_splits\<close>)

lemma from_hid_usage_0: "from_hid_usage 0 = None"
  by (simp add: from_hid_usage_def hid_usage_table_def usage_tables)

lemma to_hid_usage_nonzero: "to_hid_usage k \<noteq> 0"
  using from_hid_usage_0 from_hid_usage_iff [of 0 k] by auto

section \<open>Properties\<close>

text \<open>The wire codes of keys. \<open>from_hid_usage\<close> is the exact inverse of \<open>to_hid_usage\<close>: a byte
  decodes to a key iff it is that key's code, so distinct keys have distinct codes and no other
  byte is accepted; zero, the empty-slot marker of the report, is no key's code.\<close>

theorem hid_usage_inverse:
  "(from_hid_usage u = Some k) = (to_hid_usage k = u) \<and>
   (to_hid_usage k = to_hid_usage k') = (k = k') \<and> from_hid_usage 0 = None"
  using from_hid_usage_0 from_hid_usage_iff by (metis option.inject)

text \<open>The bits of a modifier byte.\<close>

lemma and_bit_iff: "((b :: u8) AND 1 \<noteq> 0) = bit b 0" "(b AND 2 \<noteq> 0) = bit b 1"
  "(b AND 4 \<noteq> 0) = bit b 2" "(b AND 8 \<noteq> 0) = bit b 3" "(b AND 16 \<noteq> 0) = bit b 4"
  "(b AND 32 \<noteq> 0) = bit b 5" "(b AND 64 \<noteq> 0) = bit b 6" "(b AND 128 \<noteq> 0) = bit b 7"
proof -
  have and_exp: "(b AND 2 ^ n \<noteq> 0) = bit b n" for n
    by (simp add: bit_iff_and_push_bit_not_eq_0 push_bit_of_1)
  show "(b AND 1 \<noteq> 0) = bit b 0" "(b AND 2 \<noteq> 0) = bit b 1" "(b AND 4 \<noteq> 0) = bit b 2"
    "(b AND 8 \<noteq> 0) = bit b 3" "(b AND 16 \<noteq> 0) = bit b 4" "(b AND 32 \<noteq> 0) = bit b 5"
    "(b AND 64 \<noteq> 0) = bit b 6" "(b AND 128 \<noteq> 0) = bit b 7"
    using and_exp [of 0] and_exp [of 1] and_exp [of 2] and_exp [of 3] and_exp [of 4] and_exp [of 5]
      and_exp [of 6] and_exp [of 7] by simp_all
qed

lemma less_8_cases: "(k :: nat) < 8 \<Longrightarrow> k = 0 \<or> k = 1 \<or> k = 2 \<or> k = 3 \<or> k = 4 \<or> k = 5 \<or> k = 6 \<or> k = 7"
  by arith

lemma from_hid_byte_inj: "from_hid_byte b = from_hid_byte b' \<Longrightarrow> b = b'"
proof (rule bit_word_eqI)
  fix k assume eq: "from_hid_byte b = from_hid_byte b'" and "k < LENGTH(8)"
  then have "k \<in> {0, 1, 2, 3, 4, 5, 6, 7}" using less_8_cases [of k] by auto
  with eq show "bit b k = bit b' k" by (auto simp: from_hid_byte_def and_bit_iff)
qed

lemma from_to_hid_byte: "from_hid_byte (to_hid_byte m) = m"
proof -
  obtain f0 f1 f2 f3 f4 f5 f6 f7 where m: "m = \<lparr>left_ctrl = f0, left_shift = f1, left_alt = f2,
     left_meta = f3, right_ctrl = f4, right_shift = f5, right_alt = f6, right_meta = f7\<rparr>"
    by (cases m)
  show ?thesis unfolding m
    by (cases f0; cases f1; cases f2; cases f3; cases f4; cases f5; cases f6; cases f7;
        simp add: to_hid_byte_def from_hid_byte_def)
qed

lemma to_from_hid_byte: "to_hid_byte (from_hid_byte b) = b"
  using from_to_hid_byte by (blast intro: from_hid_byte_inj)

text \<open>Modifier masks round-trip both ways: the struct of eight flags and the USB modifier byte
  determine each other, and \<open>any\<close> is exactly "the byte is not zero".\<close>

theorem modifier_byte_bijection:
  "from_hid_byte (to_hid_byte m) = m \<and> to_hid_byte (from_hid_byte b) = b \<and>
   any_modifier m = (to_hid_byte m \<noteq> 0)"
proof -
  obtain f0 f1 f2 f3 f4 f5 f6 f7 where m: "m = \<lparr>left_ctrl = f0, left_shift = f1, left_alt = f2,
     left_meta = f3, right_ctrl = f4, right_shift = f5, right_alt = f6, right_meta = f7\<rparr>"
    by (cases m)
  have "any_modifier m = (to_hid_byte m \<noteq> 0)"
    unfolding m
    by (cases f0; cases f1; cases f2; cases f3; cases f4; cases f5; cases f6; cases f7;
        simp add: to_hid_byte_def any_modifier_def)
  then show ?thesis
    using from_to_hid_byte to_from_hid_byte by blast
qed

text \<open>Modifier keys. Exactly the keys with usage codes \<open>0xE0..0xE7\<close> are modifiers, and the bit
  of a modifier key in the modifier byte is \<open>1 << (code - 0xE0)\<close>, as the HID report expects.\<close>

theorem modifier_key_bits:
  "(modifier_bit k \<noteq> None) = is_modifier k \<and>
   is_modifier k = (0xE0 \<le> to_hid_usage k \<and> to_hid_usage k \<le> 0xE7) \<and>
   modifier_bit k = (if is_modifier k then Some (push_bit (unat (to_hid_usage k - 0xE0)) 1) else None)"
proof (cases k)
  case (Modifier m)
  then show ?thesis by (cases m) (simp_all add: modifier_bit_def is_modifier_def)
next
  case (Letter x)
  then show ?thesis by (cases x) (simp_all add: modifier_bit_def is_modifier_def)
next
  case (Digit x)
  then show ?thesis by (cases x) (simp_all add: modifier_bit_def is_modifier_def)
next
  case (TextKey x)
  then show ?thesis by (cases x) (simp_all add: modifier_bit_def is_modifier_def)
next
  case (FunctionKey x)
  then show ?thesis by (cases x) (simp_all add: modifier_bit_def is_modifier_def)
next
  case (NavKey x)
  then show ?thesis by (cases x) (simp_all add: modifier_bit_def is_modifier_def)
next
  case (Numpad x)
  then show ?thesis by (cases x) (simp_all add: modifier_bit_def is_modifier_def)
next
  case (ExtraKey x)
  then show ?thesis by (cases x) (simp_all add: modifier_bit_def is_modifier_def)
next
  case (HighFunctionKey x)
  then show ?thesis by (cases x) (simp_all add: modifier_bit_def is_modifier_def)
qed

text \<open>The six-slot keyboard report is a bounded bag of pressed keys. On a well-formed report
  (six slots, free slots at the end) \<open>add_key\<close> adds one occurrence of a key when fewer than six
  are held and otherwise reports failure and changes nothing; \<open>remove_key\<close> removes every
  occurrence of its key and no other; both keep the report well formed and the modifiers.\<close>

theorem keyboard_report_bag:
  assumes "wf_report r" and "k \<noteq> 0"
  shows "(let (added, r') = add_key k r in
      wf_report r' \<and> kr_modifiers r' = kr_modifiers r \<and>
      (if size (pressed r) < 6 then added \<and> pressed r' = add_mset k (pressed r)
       else \<not> added \<and> r' = r)) \<and>
    wf_report (remove_key k r) \<and> kr_modifiers (remove_key k r) = kr_modifiers r \<and>
    pressed (remove_key k r) = filter_mset (\<lambda>x. x \<noteq> k) (pressed r)"
  using add_key_spec [OF assms] remove_key_spec [OF assms(1), of k]
  by (auto simp: add_key_def remove_key_def Let_def split: prod.splits if_splits)

lemma keyboard_report_bag_witness:
  "pressed (remove_key 4 (snd (add_key 4 keyboard_report_default))) = {#}"
proof -
  note r = keyboard_report_bag [OF wf_report_default, of 4]
  have "wf_report (snd (add_key 4 keyboard_report_default))"
    and p: "pressed (snd (add_key 4 keyboard_report_default)) = {#4#}"
    using r by (auto simp: Let_def split: prod.splits)
  from keyboard_report_bag [OF this(1), of 4] p show ?thesis by simp
qed

text \<open>No stuck keys. Starting from any well-formed report, after any sequence of key events in
  which the last event of a key is its release, the report does not contain the key, even if
  presses in between overflowed the six slots.\<close>

theorem report_no_stuck_key:
  assumes "wf_report r" and "\<forall>(d, x) \<in> set (es @ (False, k) # es'). x \<noteq> 0"
    and "(True, k) \<notin> set es'"
  shows "k \<notin> set (kr_keys (run_keys add_key remove_key (es @ (False, k) # es') r))"
proof -
  have "k \<noteq> 0" using assms(2) by auto
  with report.no_stuck_key [OF assms] show ?thesis by (auto simp: pressed_def)
qed

lemma report_no_stuck_key_witness:
  "4 \<notin> set (kr_keys (run_keys add_key remove_key
     ([(True, 4), (True, 4), (True, 5)] @ (False, 4) # [(True, 6)]) keyboard_report_default))"
  by (rule report_no_stuck_key [OF wf_report_default]) simp_all

end
