(* ===== verification/Hid_Channel.thy ===== *)
theory Hid_Channel
  imports Hid_Types
begin

text \<open>
  \<^verbatim>\<open>src/src/hid/datachannel.rs\<close>: the binary HID messages of the WebRTC data channel (and of the
  HID WebSocket, which uses the same parser). \<open>parse_hid_message\<close> dispatches on the first byte;
  \<open>encode_keyboard_event\<close> and \<open>encode_mouse_event\<close> are the writers.
\<close>

section \<open>Message layout\<close>

definition MSG_KEYBOARD :: u8 where "MSG_KEYBOARD = 0x01"
definition MSG_MOUSE :: u8 where "MSG_MOUSE = 0x02"
definition MSG_CONSUMER :: u8 where "MSG_CONSUMER = 0x03"

definition KB_EVENT_DOWN :: u8 where "KB_EVENT_DOWN = 0x00"
definition KB_EVENT_UP :: u8 where "KB_EVENT_UP = 0x01"

definition MS_EVENT_MOVE :: u8 where "MS_EVENT_MOVE = 0x00"
definition MS_EVENT_MOVE_ABS :: u8 where "MS_EVENT_MOVE_ABS = 0x01"
definition MS_EVENT_DOWN :: u8 where "MS_EVENT_DOWN = 0x02"
definition MS_EVENT_UP :: u8 where "MS_EVENT_UP = 0x03"
definition MS_EVENT_SCROLL :: u8 where "MS_EVENT_SCROLL = 0x04"

lemmas wire_codes = MSG_KEYBOARD_def MSG_MOUSE_def MSG_CONSUMER_def KB_EVENT_DOWN_def
  KB_EVENT_UP_def MS_EVENT_MOVE_def MS_EVENT_MOVE_ABS_def MS_EVENT_DOWN_def MS_EVENT_UP_def
  MS_EVENT_SCROLL_def

datatype hid_channel_event =
    ChKeyboard keyboard_event | ChMouse mouse_event | ChConsumer consumer_event

section \<open>Parsers\<close>

definition parse_keyboard_message :: "bytes \<Rightarrow> hid_channel_event option" where
  "parse_keyboard_message data =
     (if length data < 3 then None
      else
        case (if data ! 0 = KB_EVENT_DOWN then Some KeyDown
              else if data ! 0 = KB_EVENT_UP then Some KeyUp else None) of
          None \<Rightarrow> None
        | Some event_type \<Rightarrow>
            (case from_hid_usage (data ! 1) of
               None \<Rightarrow> None
             | Some key \<Rightarrow>
                 let modifiers_byte = data ! 2;
                     modifiers = \<lparr>
                       left_ctrl = modifiers_byte AND 0x01 \<noteq> 0,
                       left_shift = modifiers_byte AND 0x02 \<noteq> 0,
                       left_alt = modifiers_byte AND 0x04 \<noteq> 0,
                       left_meta = modifiers_byte AND 0x08 \<noteq> 0,
                       right_ctrl = modifiers_byte AND 0x10 \<noteq> 0,
                       right_shift = modifiers_byte AND 0x20 \<noteq> 0,
                       right_alt = modifiers_byte AND 0x40 \<noteq> 0,
                       right_meta = modifiers_byte AND 0x80 \<noteq> 0\<rparr>
                 in Some (ChKeyboard
                      \<lparr>ke_type = event_type, ke_key = key, ke_modifiers = modifiers\<rparr>)))"

text \<open>\<open>i16::from_le_bytes([a, b]) as i32\<close> sign-extends.\<close>

definition coord :: "u8 \<Rightarrow> u8 \<Rightarrow> u32" where
  "coord a b = scast (from_le [a, b] :: u16)"

definition button_of_byte :: "u8 \<Rightarrow> mouse_button" where
  "button_of_byte b =
     (if b = 0 then LeftButton else if b = 1 then MiddleButton else if b = 2 then RightButton
      else if b = 3 then BackButton else if b = 4 then ForwardButton else LeftButton)"

definition parse_mouse_message :: "bytes \<Rightarrow> hid_channel_event option" where
  "parse_mouse_message data =
     (if length data < 6 then None
      else
        case (if data ! 0 = MS_EVENT_MOVE then Some MouseMove
              else if data ! 0 = MS_EVENT_MOVE_ABS then Some MouseMoveAbs
              else if data ! 0 = MS_EVENT_DOWN then Some MouseDown
              else if data ! 0 = MS_EVENT_UP then Some MouseUp
              else if data ! 0 = MS_EVENT_SCROLL then Some MouseScroll
              else None) of
          None \<Rightarrow> None
        | Some event_type \<Rightarrow>
            let x = coord (data ! 1) (data ! 2);
                y = coord (data ! 3) (data ! 4);
                (button, scroll) =
                  (case event_type of
                     MouseDown \<Rightarrow> (Some (button_of_byte (data ! 5)), 0)
                   | MouseUp \<Rightarrow> (Some (button_of_byte (data ! 5)), 0)
                   | MouseScroll \<Rightarrow> (None, data ! 5)
                   | _ \<Rightarrow> (None, 0))
            in Some (ChMouse
                 \<lparr>me_type = event_type, me_x = x, me_y = y, me_button = button, me_scroll = scroll\<rparr>))"

definition parse_consumer_message :: "bytes \<Rightarrow> hid_channel_event option" where
  "parse_consumer_message data =
     (if length data < 2 then None
      else Some (ChConsumer \<lparr>usage = from_le [data ! 0, data ! 1]\<rparr>))"

definition parse_hid_message :: "bytes \<Rightarrow> hid_channel_event option" where
  "parse_hid_message data =
     (if data = [] then None
      else
        let msg_type = data ! 0; payload = drop 1 data in
        if msg_type = MSG_KEYBOARD then parse_keyboard_message payload
        else if msg_type = MSG_MOUSE then parse_mouse_message payload
        else if msg_type = MSG_CONSUMER then parse_consumer_message payload
        else None)"

section \<open>Writers\<close>

definition encode_keyboard_event :: "keyboard_event \<Rightarrow> bytes" where
  "encode_keyboard_event event =
     (let event_type = (case ke_type event of KeyDown \<Rightarrow> KB_EVENT_DOWN | KeyUp \<Rightarrow> KB_EVENT_UP);
          modifiers = to_hid_byte (ke_modifiers event)
      in [MSG_KEYBOARD, event_type, to_hid_usage (ke_key event), modifiers])"

fun button_byte :: "mouse_button \<Rightarrow> u8" where
  "button_byte LeftButton = 0"
| "button_byte MiddleButton = 1"
| "button_byte RightButton = 2"
| "button_byte BackButton = 3"
| "button_byte ForwardButton = 4"

definition encode_mouse_event :: "mouse_event \<Rightarrow> bytes" where
  "encode_mouse_event event =
     (let event_type =
            (case me_type event of
               MouseMove \<Rightarrow> MS_EVENT_MOVE | MouseMoveAbs \<Rightarrow> MS_EVENT_MOVE_ABS
             | MouseDown \<Rightarrow> MS_EVENT_DOWN | MouseUp \<Rightarrow> MS_EVENT_UP
             | MouseScroll \<Rightarrow> MS_EVENT_SCROLL);
          x_bytes = to_le 2 (ucast (me_x event) :: u16);
          y_bytes = to_le 2 (ucast (me_y event) :: u16);
          button = (case me_button event of Some b \<Rightarrow> button_byte b | None \<Rightarrow> 0);
          extra =
            (case me_type event of
               MouseDown \<Rightarrow> button | MouseUp \<Rightarrow> button
             | MouseScroll \<Rightarrow> me_scroll event
             | _ \<Rightarrow> 0)
      in [MSG_MOUSE, event_type, x_bytes ! 0, x_bytes ! 1, y_bytes ! 0, y_bytes ! 1, extra])"

section \<open>Lemmas\<close>

lemma button_of_byte_inverse [simp]: "button_of_byte (button_byte b) = b"
  by (cases b) (simp_all add: button_of_byte_def)

lemma pair_of_to_le: "[to_le 2 w ! 0, to_le 2 w ! Suc 0] = to_le 2 (w :: u16)"
  by (simp add: to_le_def upt_rec)

lemma coord_of_to_le [simp]:
  "coord (to_le 2 w ! 0) (to_le 2 w ! Suc 0) = scast (w :: u16)"
  unfolding coord_def pair_of_to_le by simp

lemma parse_keyboard_eq:
  "parse_keyboard_message (t # u # m # rest) =
     (case (if t = KB_EVENT_DOWN then Some KeyDown else if t = KB_EVENT_UP then Some KeyUp else None) of
        None \<Rightarrow> None
      | Some ty \<Rightarrow> map_option (\<lambda>k. ChKeyboard \<lparr>ke_type = ty, ke_key = k, ke_modifiers = from_hid_byte m\<rparr>)
          (from_hid_usage u))"
  by (simp add: parse_keyboard_message_def from_hid_byte_def split: option.split)

text \<open>What a mouse event keeps on the wire: coordinates as \<open>i16\<close>, and only the extra field its
  type uses (a press without a button is sent as the left button).\<close>

definition wire_mouse_event :: "mouse_event \<Rightarrow> mouse_event" where
  "wire_mouse_event e = e\<lparr>
     me_x := scast (ucast (me_x e) :: u16), me_y := scast (ucast (me_y e) :: u16),
     me_button := (case me_type e of
         MouseDown \<Rightarrow> Some (case me_button e of Some b \<Rightarrow> b | None \<Rightarrow> LeftButton)
       | MouseUp \<Rightarrow> Some (case me_button e of Some b \<Rightarrow> b | None \<Rightarrow> LeftButton)
       | _ \<Rightarrow> None),
     me_scroll := (case me_type e of MouseScroll \<Rightarrow> me_scroll e | _ \<Rightarrow> 0)\<rparr>"

lemma button_of_byte_0 [simp]: "button_of_byte 0 = LeftButton"
  by (simp add: button_of_byte_def)

lemma parse_encode_mouse: "parse_hid_message (encode_mouse_event e @ rest) = Some (ChMouse (wire_mouse_event e))"
  by (cases e; cases "me_type e")
     (auto simp: parse_hid_message_def encode_mouse_event_def parse_mouse_message_def Let_def
       wire_codes wire_mouse_event_def split: option.splits)

lemma parse_encode_keyboard:
  "parse_hid_message (encode_keyboard_event e @ rest) = Some (ChKeyboard e)"
proof -
  have "from_hid_usage (to_hid_usage k) = Some k" for k
    by (simp add: from_hid_usage_iff)
  moreover have "KB_EVENT_UP \<noteq> KB_EVENT_DOWN" by (simp add: wire_codes)
  ultimately show ?thesis
    by (cases e; cases "ke_type e")
       (auto simp: parse_hid_message_def encode_keyboard_event_def Let_def parse_keyboard_eq
         MSG_KEYBOARD_def from_to_hid_byte)
qed

section \<open>Properties\<close>

text \<open>HID channel round trip. A keyboard event survives encoding and parsing unchanged, whatever
  bytes follow the message. A mouse event survives up to its wire form: coordinates wrapped to
  \<open>i16\<close>, only the extra field its type uses; it survives unchanged exactly when it is already in
  wire form.\<close>

theorem hid_channel_roundtrip:
  "parse_hid_message (encode_keyboard_event ke @ rest) = Some (ChKeyboard ke) \<and>
   parse_hid_message (encode_mouse_event me @ rest) = Some (ChMouse (wire_mouse_event me)) \<and>
   (parse_hid_message (encode_mouse_event me @ rest) = Some (ChMouse me)) = (wire_mouse_event me = me)"
  by (auto simp: parse_encode_keyboard parse_encode_mouse)

lemma coord_bounds: "- 32768 \<le> sint (coord a b) \<and> sint (coord a b) \<le> 32767"
proof -
  have "sint (coord a b) = sint (from_le [a, b] :: u16)"
    unfolding coord_def by (rule sint_up_scast) (simp add: is_up)
  then show ?thesis
    using sint_ge [of "from_le [a, b] :: u16"] sint_lt [of "from_le [a, b] :: u16"] by simp
qed

text \<open>What the parser accepts, with exact lengths, and what it produces. It never reads past
  the message; a keyboard message needs four bytes and a known key, a mouse message seven bytes
  and a known event type, a consumer message three bytes. Parsed coordinates are \<open>i16\<close> values, a
  button is present exactly on presses and releases, and a scroll delta only on scroll events.\<close>

theorem parse_hid_message_shape:
  assumes "parse_hid_message data = Some ev"
  shows "case ev of
      ChKeyboard e \<Rightarrow> 4 \<le> length data \<and> data ! 0 = MSG_KEYBOARD \<and> data ! 2 = to_hid_usage (ke_key e) \<and>
        encode_keyboard_event e = take 4 data
    | ChMouse e \<Rightarrow> 7 \<le> length data \<and> data ! 0 = MSG_MOUSE \<and>
        - 32768 \<le> sint (me_x e) \<and> sint (me_x e) \<le> 32767 \<and>
        - 32768 \<le> sint (me_y e) \<and> sint (me_y e) \<le> 32767 \<and>
        (me_button e \<noteq> None) = (me_type e = MouseDown \<or> me_type e = MouseUp) \<and>
        (me_scroll e \<noteq> 0 \<longrightarrow> me_type e = MouseScroll)
    | ChConsumer e \<Rightarrow> 3 \<le> length data \<and> data ! 0 = MSG_CONSUMER \<and> usage e = from_le (take 2 (drop 1 data))"
proof (cases data)
  case Nil
  with assms show ?thesis by (simp add: parse_hid_message_def)
next
  case (Cons t payload)
  consider "t = MSG_KEYBOARD" "parse_keyboard_message payload = Some ev"
    | "t = MSG_MOUSE" "parse_mouse_message payload = Some ev"
    | "t = MSG_CONSUMER" "parse_consumer_message payload = Some ev"
    using assms Cons by (auto simp: parse_hid_message_def Let_def split: if_splits)
  then show ?thesis
  proof cases
    case 1
    then have "3 \<le> length payload"
      by (auto simp: parse_keyboard_message_def split: if_splits)
    then obtain a u m rest where payload: "payload = a # u # m # rest"
      by (auto simp: Suc_le_length_iff numeral_eq_Suc)
    with 1 obtain ty k where "a = (case ty of KeyDown \<Rightarrow> KB_EVENT_DOWN | KeyUp \<Rightarrow> KB_EVENT_UP)"
      and "from_hid_usage u = Some k"
      and "ev = ChKeyboard \<lparr>ke_type = ty, ke_key = k, ke_modifiers = from_hid_byte m\<rparr>"
      by (auto simp: parse_keyboard_eq split: if_splits)
    moreover from this have "to_hid_usage k = u" by (simp add: from_hid_usage_iff)
    ultimately show ?thesis
      using 1 Cons payload to_from_hid_byte
      by (simp add: encode_keyboard_event_def)
  next
    case 2
    then show ?thesis using Cons coord_bounds
      by (auto simp: parse_mouse_message_def Let_def numeral_eq_Suc
          split: if_splits mouse_event_type.splits)
  next
    case 3
    then have "2 \<le> length payload"
      by (auto simp: parse_consumer_message_def split: if_splits)
    then obtain a b rest where "payload = a # b # rest"
      by (auto simp: Suc_le_length_iff numeral_eq_Suc)
    with 3 Cons show ?thesis by (auto simp: parse_consumer_message_def)
  qed
qed

lemma parse_hid_message_shape_witness:
  "encode_keyboard_event \<lparr>ke_type = KeyDown, ke_key = Letter KeyA, ke_modifiers = from_hid_byte 1\<rparr> =
    take 4 [1, 0, 4, 1, 99]"
proof -
  have "from_hid_usage 4 = Some (Letter KeyA)" by (simp add: from_hid_usage_iff)
  then have "parse_hid_message [1, 0, 4, 1, 99] =
      Some (ChKeyboard \<lparr>ke_type = KeyDown, ke_key = Letter KeyA, ke_modifiers = from_hid_byte 1\<rparr>)"
    by (simp add: parse_hid_message_def MSG_KEYBOARD_def KB_EVENT_DOWN_def parse_keyboard_eq)
  from parse_hid_message_shape [OF this] show ?thesis by simp
qed

text \<open>Absolute coordinates are not unsigned. The module comment specifies the coordinates of a
  \<open>MoveAbs\<close> message as \<open>u16\<close>, but the parser reads them as \<open>i16\<close>: every documented value from
  32768 on arrives as a negative coordinate (which the backends clamp to 0).\<close>

theorem absolute_coordinate_sign:
  assumes "32768 \<le> unat (v :: u16)"
  shows "\<exists>e. parse_hid_message ([MSG_MOUSE, MS_EVENT_MOVE_ABS] @ to_le 2 v @ to_le 2 v @ [0]) = Some (ChMouse e) \<and>
    sint (me_x e) = int (unat v) - 65536 \<and> sint (me_x e) < 0"
proof -
  have "sint (scast v :: u32) = sint v" by (rule sint_up_scast) (simp add: is_up)
  moreover have "sint v = int (unat v) - 65536"
    using assms by (simp add: sint_eq_unat)
  moreover have tl: "to_le 2 v = [ucast v, ucast (drop_bit 8 v)]"
    by (simp add: to_le_def upt_rec)
  moreover have "coord (ucast v) (ucast (drop_bit 8 v)) = scast v"
    using coord_of_to_le [of v] by (simp add: tl)
  moreover have "int (unat v) < 65536"
    using unsigned_less [of v, where ?'a = int] by simp
  ultimately show ?thesis
    by (simp add: parse_hid_message_def Let_def parse_mouse_message_def wire_codes)
qed

lemma absolute_coordinate_sign_witness:
  "\<exists>e. parse_hid_message ([MSG_MOUSE, MS_EVENT_MOVE_ABS] @ to_le 2 (40000 :: u16) @ to_le 2 (40000 :: u16) @ [0]) = Some (ChMouse e) \<and>
    sint (me_x e) = int (unat (40000 :: u16)) - 65536 \<and> sint (me_x e) < 0"
  by (rule absolute_coordinate_sign) simp

end
