(* ===== verification/Ch9329_Protocol.thy ===== *)
theory Ch9329_Protocol
  imports Hid_Types
begin

text \<open>
  \<^verbatim>\<open>src/src/hid/ch9329.rs\<close>, protocol part: packets of the CH9329 serial HID chip
  (\<open>57 AB addr cmd len data sum\<close>), response parsing, resynchronisation on a noisy byte stream and
  the request/response transfer \<open>xfer_packet\<close>.

  The serial port is a script: for each transfer, whether the write succeeds and what each read
  before the deadline returns; the end of the list of reads is the deadline. A slice access that
  the code does not guard is \<open>None\<close> (a panic).
\<close>

section \<open>Constants and codes\<close>

definition PACKET_HEADER :: bytes where "PACKET_HEADER = [0x57, 0xAB]"
definition DEFAULT_ADDR :: u8 where "DEFAULT_ADDR = 0x00"
definition MAX_DATA_LEN :: nat where "MAX_DATA_LEN = 64"
definition MAX_PACKET_SIZE :: nat where "MAX_PACKET_SIZE = 70"
definition CH9329_MOUSE_RESOLUTION :: u32 where "CH9329_MOUSE_RESOLUTION = 4096"
definition RESPONSE_SUCCESS_MASK :: u8 where "RESPONSE_SUCCESS_MASK = 0x80"
definition RESPONSE_ERROR_MASK :: u8 where "RESPONSE_ERROR_MASK = 0xC0"

definition GET_INFO :: u8 where "GET_INFO = 0x01"
definition SEND_KB_GENERAL_DATA :: u8 where "SEND_KB_GENERAL_DATA = 0x02"
definition SEND_KB_MEDIA_DATA :: u8 where "SEND_KB_MEDIA_DATA = 0x03"
definition SEND_MS_ABS_DATA :: u8 where "SEND_MS_ABS_DATA = 0x04"
definition SEND_MS_REL_DATA :: u8 where "SEND_MS_REL_DATA = 0x05"
definition SEND_MY_HID_DATA :: u8 where "SEND_MY_HID_DATA = 0x06"
definition SET_DEFAULT_CFG :: u8 where "SET_DEFAULT_CFG = 0x0C"
definition RESET_CMD :: u8 where "RESET_CMD = 0x0F"

datatype ch9329_error =
    Success | Timeout | InvalidHeader | InvalidCommand | ChecksumError | ParameterError
  | OperationFailed

definition ch9329_error_from :: "u8 \<Rightarrow> ch9329_error" where
  "ch9329_error_from code =
     (if code = 0x00 then Success else if code = 0xE1 then Timeout
      else if code = 0xE2 then InvalidHeader else if code = 0xE3 then InvalidCommand
      else if code = 0xE4 then ChecksumError else if code = 0xE5 then ParameterError
      else if code = 0xE6 then OperationFailed else OperationFailed)"

fun ch9329_error_display :: "ch9329_error \<Rightarrow> string" where
  "ch9329_error_display Success = ''Success''"
| "ch9329_error_display Timeout = ''Serial receive timeout''"
| "ch9329_error_display InvalidHeader = ''Invalid packet header''"
| "ch9329_error_display InvalidCommand = ''Invalid command code''"
| "ch9329_error_display ChecksumError = ''Checksum mismatch''"
| "ch9329_error_display ParameterError = ''Parameter error''"
| "ch9329_error_display OperationFailed = ''Operation failed''"

section \<open>Chip information\<close>

record chip_info =
  ci_version :: string
  ci_version_raw :: u8
  ci_usb_connected :: bool
  ci_num_lock :: bool
  ci_caps_lock :: bool
  ci_scroll_lock :: bool

definition chip_info_from_response :: "bytes \<Rightarrow> chip_info option" where
  "chip_info_from_response data =
     (if length data < 8 then None
      else
        let version_raw = data ! 0;
            version = ''V'' @ nat_to_string (unat (drop_bit 4 version_raw)) @ ''.''
                      @ nat_to_string (unat (version_raw AND 0x0F));
            led_status = data ! 2
        in Some \<lparr>ci_version = version, ci_version_raw = version_raw,
             ci_usb_connected = (data ! 1 = 0x01),
             ci_num_lock = led_status AND 0x01 \<noteq> 0,
             ci_caps_lock = led_status AND 0x02 \<noteq> 0,
             ci_scroll_lock = led_status AND 0x04 \<noteq> 0\<rparr>)"

record led_status =
  led_num_lock :: bool
  led_caps_lock :: bool
  led_scroll_lock :: bool

definition led_status_from :: "u8 \<Rightarrow> led_status" where
  "led_status_from byte = \<lparr>led_num_lock = byte AND 0x01 \<noteq> 0, led_caps_lock = byte AND 0x02 \<noteq> 0,
     led_scroll_lock = byte AND 0x04 \<noteq> 0\<rparr>"

section \<open>Packets\<close>

text \<open>\<open>fold(0u8, |acc, &x| acc.wrapping_add(x))\<close>\<close>

definition calculate_checksum :: "bytes \<Rightarrow> u8" where
  "calculate_checksum data = foldl (\<lambda>acc x. acc + x) 0 data"

text \<open>The stack buffer has \<open>MAX_PACKET_SIZE\<close> bytes: a longer payload panics on the slice index
  (the \<open>debug_assert\<close> is not compiled in a release build).\<close>

definition build_packet_buf :: "u8 \<Rightarrow> u8 \<Rightarrow> bytes \<Rightarrow> (bytes \<times> nat) option" where
  "build_packet_buf address cmd data =
     (let len = word_of_nat (length data);
          packet_len = 6 + length data;
          packet = replicate MAX_PACKET_SIZE 0;
          packet = packet[0 := PACKET_HEADER ! 0];
          packet = packet[1 := PACKET_HEADER ! 1];
          packet = packet[2 := address];
          packet = packet[3 := cmd];
          packet = packet[4 := len]
      in if 5 + length data > MAX_PACKET_SIZE then None
         else
           let packet = copy_at 5 data packet;
               checksum = calculate_checksum (take (5 + length data) packet)
           in if 5 + length data \<ge> MAX_PACKET_SIZE then None
              else Some (packet[5 + length data := checksum], packet_len))"

definition build_packet :: "u8 \<Rightarrow> u8 \<Rightarrow> bytes \<Rightarrow> bytes option" where
  "build_packet address cmd data =
     map_option (\<lambda>(buf, len). take len buf) (build_packet_buf address cmd data)"

record response =
  rsp_address :: u8
  rsp_cmd :: u8
  rsp_data :: bytes
  rsp_is_error :: bool
  rsp_error_code :: "ch9329_error option"

definition response_parse :: "bytes \<Rightarrow> response option" where
  "response_parse bs =
     (if length bs < 6 then None
      else if bs ! 0 \<noteq> PACKET_HEADER ! 0 \<or> bs ! 1 \<noteq> PACKET_HEADER ! 1 then None
      else
        let address = bs ! 2; cmd = bs ! 3; len = unat (bs ! 4) in
        if length bs < 5 + len + 1 then None
        else
          let expected_checksum = bs ! (5 + len);
              calculated_checksum = foldl (\<lambda>acc x. acc + x) 0 (take (5 + len) bs)
          in if expected_checksum \<noteq> calculated_checksum then None
             else
               let data = take len (drop 5 bs);
                   is_error = (cmd AND RESPONSE_ERROR_MASK = RESPONSE_ERROR_MASK);
                   error_code = (if is_error \<and> data \<noteq> [] then Some (ch9329_error_from (data ! 0))
                                 else None)
               in Some \<lparr>rsp_address = address, rsp_cmd = cmd, rsp_data = data,
                    rsp_is_error = is_error, rsp_error_code = error_code\<rparr>)"

definition response_is_success :: "response \<Rightarrow> bool" where
  "response_is_success r \<longleftrightarrow>
     \<not> rsp_is_error r \<and> (rsp_data r = [] \<or> rsp_data r ! 0 = 0x00)"

text \<open>The scan for a response; \<open>offset\<close> is the loop variable.\<close>

function extract_from :: "bytes \<Rightarrow> nat \<Rightarrow> (response \<times> nat) option" where
  "extract_from buffer offset =
     (if offset + 6 \<le> length buffer then
        if buffer ! offset \<noteq> PACKET_HEADER ! 0 \<or> buffer ! (offset + 1) \<noteq> PACKET_HEADER ! 1
        then extract_from buffer (offset + 1)
        else
          let len = unat (buffer ! (offset + 4)); frame_len = 6 + len in
          if offset + frame_len > length buffer then None
          else (case response_parse (take frame_len (drop offset buffer)) of
                  Some response \<Rightarrow> Some (response, offset + frame_len)
                | None \<Rightarrow> extract_from buffer (offset + 1))
      else None)"
  by pat_completeness auto
termination
  by (relation "measure (\<lambda>(buffer, offset). length buffer - offset)") auto

declare extract_from.simps [simp del]

definition try_extract_response :: "bytes \<Rightarrow> (response \<times> nat) option" where
  "try_extract_response buffer = extract_from buffer 0"

definition expected_response_cmd :: "u8 \<Rightarrow> bool \<Rightarrow> u8" where
  "expected_response_cmd cmd is_error =
     cmd OR (if is_error then RESPONSE_ERROR_MASK else RESPONSE_SUCCESS_MASK)"

section \<open>Transfers over the serial port\<close>

text \<open>An error of the backend: \<open>AppError::HidError\<close> with backend \<open>"ch9329"\<close>.\<close>

record hid_error =
  he_reason :: string
  he_code :: string

definition backend_error :: "string \<Rightarrow> string \<Rightarrow> hid_error" where
  "backend_error reason code = \<lparr>he_reason = reason, he_code = code\<rparr>"

datatype read_result = ReadBytes bytes | ReadTimedOut | ReadError string

text \<open>One transfer of the script: the write's error, if it fails, and the reads up to the deadline.\<close>

record transfer =
  tr_write_error :: "string option"
  tr_reads :: "read_result list"

text \<open>The port: the transfers it will serve and the packets written so far. Past the end of the
  script it accepts writes and never answers.\<close>

record port =
  pt_script :: "transfer list"
  pt_written :: "bytes list"

definition silent_transfer :: transfer where
  "silent_transfer = \<lparr>tr_write_error = None, tr_reads = []\<rparr>"

definition next_transfer :: "port \<Rightarrow> transfer" where
  "next_transfer p = (case pt_script p of [] \<Rightarrow> silent_transfer | t # _ \<Rightarrow> t)"

text \<open>\<open>write_packet\<close>: \<open>None\<close> is the panic of an oversized payload.\<close>

definition write_packet :: "u8 \<Rightarrow> u8 \<Rightarrow> bytes \<Rightarrow> port \<Rightarrow> ((hid_error + unit) \<times> port) option" where
  "write_packet address cmd data p =
     (case build_packet address cmd data of
        None \<Rightarrow> None
      | Some packet \<Rightarrow>
          Some (case tr_write_error (next_transfer p) of
             Some e \<Rightarrow> (Inl (backend_error (''Failed to write to CH9329: '' @ e) ''write_failed''),
                        p\<lparr>pt_script := tl (pt_script p)\<rparr>)
           | None \<Rightarrow> (Inr (), p\<lparr>pt_written := pt_written p @ [packet]\<rparr>)))"

text \<open>The inner \<open>while let\<close>: take responses from the front of \<open>pending\<close> until one matches.
  Every response consumes at least six bytes, so \<open>length pending\<close> is enough fuel.\<close>

fun take_matching :: "nat \<Rightarrow> u8 \<Rightarrow> u8 \<Rightarrow> bytes \<Rightarrow> response option \<times> bytes" where
  "take_matching 0 expected_ok expected_err pending = (None, pending)"
| "take_matching (Suc fuel) expected_ok expected_err pending =
     (case try_extract_response pending of
        None \<Rightarrow> (None, pending)
      | Some (response, consumed) \<Rightarrow>
          let pending = drop consumed pending in
          if rsp_cmd response = expected_ok \<or> rsp_cmd response = expected_err
          then (Some response, pending)
          else take_matching fuel expected_ok expected_err pending)"

definition trim_pending :: "bytes \<Rightarrow> bytes" where
  "trim_pending pending =
     (if length pending > MAX_PACKET_SIZE * 4 then drop (length pending - MAX_PACKET_SIZE) pending
      else pending)"

fun read_response :: "u8 \<Rightarrow> u8 \<Rightarrow> bytes \<Rightarrow> read_result list \<Rightarrow> hid_error + response option" where
  "read_response expected_ok expected_err pending [] = Inr None"
| "read_response expected_ok expected_err pending (r # rs) =
     (case r of
        ReadBytes chunk \<Rightarrow>
          if chunk = [] then read_response expected_ok expected_err pending rs
          else
            let pending = pending @ chunk in
            (case take_matching (length pending) expected_ok expected_err pending of
               (Some response, _) \<Rightarrow> Inr (Some response)
             | (None, pending) \<Rightarrow>
                 read_response expected_ok expected_err (trim_pending pending) rs)
      | ReadTimedOut \<Rightarrow> read_response expected_ok expected_err pending rs
      | ReadError e \<Rightarrow>
          Inl (backend_error (''Failed to read from CH9329: '' @ e) ''read_failed''))"

definition xfer_packet :: "u8 \<Rightarrow> u8 \<Rightarrow> bytes \<Rightarrow> port \<Rightarrow> ((hid_error + response) \<times> port) option" where
  "xfer_packet address cmd data p =
     (case write_packet address cmd data p of
        None \<Rightarrow> None
      | Some (Inl e, p') \<Rightarrow> Some (Inl e, p')
      | Some (Inr _, p') \<Rightarrow>
          let expected_ok = expected_response_cmd cmd False;
              expected_err = expected_response_cmd cmd True;
              p'' = p'\<lparr>pt_script := tl (pt_script p')\<rparr>
          in Some (case read_response expected_ok expected_err [] (tr_reads (next_transfer p')) of
               Inl e \<Rightarrow> (Inl e, p'')
             | Inr (Some response) \<Rightarrow> (Inr response, p'')
             | Inr None \<Rightarrow>
                 (Inl (backend_error (''No matching response from CH9329 for cmd 0x'' @ hex2 cmd)
                    ''no_response''), p'')))"

definition try_best_effort_reset :: "u8 \<Rightarrow> port \<Rightarrow> port option" where
  "try_best_effort_reset address p = map_option snd (write_packet address RESET_CMD [] p)"

definition query_chip_info_on_port :: "u8 \<Rightarrow> port \<Rightarrow> ((hid_error + chip_info) \<times> port) option" where
  "query_chip_info_on_port address p =
     (case xfer_packet address GET_INFO [] p of
        None \<Rightarrow> None
      | Some (Inl e, p') \<Rightarrow> Some (Inl e, p')
      | Some (Inr response, p') \<Rightarrow>
          Some (if rsp_is_error response then
                  (Inl (backend_error
                     (case rsp_error_code response of
                        Some e \<Rightarrow> ''CH9329 error response: '' @ ch9329_error_display e
                      | None \<Rightarrow> ''CH9329 returned error response'') ''protocol_error''), p')
                else
                  (case chip_info_from_response (rsp_data response) of
                     Some info \<Rightarrow> (Inr info, p')
                   | None \<Rightarrow> (Inl (backend_error ''Failed to parse chip info'' ''invalid_response''), p'))))"

section \<open>Packets as lists\<close>

definition packet_body :: "u8 \<Rightarrow> u8 \<Rightarrow> bytes \<Rightarrow> bytes" where
  "packet_body address cmd data = [0x57, 0xAB, address, cmd, word_of_nat (length data)] @ data"

definition packet :: "u8 \<Rightarrow> u8 \<Rightarrow> bytes \<Rightarrow> bytes" where
  "packet address cmd data =
     packet_body address cmd data @ [sum_list (packet_body address cmd data)]"

definition response_of :: "u8 \<Rightarrow> u8 \<Rightarrow> bytes \<Rightarrow> response" where
  "response_of address cmd data =
     (let is_error = (cmd AND RESPONSE_ERROR_MASK = RESPONSE_ERROR_MASK) in
      \<lparr>rsp_address = address, rsp_cmd = cmd, rsp_data = data, rsp_is_error = is_error,
       rsp_error_code = (if is_error \<and> data \<noteq> [] then Some (ch9329_error_from (data ! 0)) else None)\<rparr>)"

lemma foldl_sum: "foldl (\<lambda>acc x. acc + x) (a :: u8) xs = a + sum_list xs"
  by (induction xs arbitrary: a) (simp_all add: add.assoc)

lemma checksum_sum: "calculate_checksum xs = sum_list xs"
  by (simp add: calculate_checksum_def foldl_sum)

lemma length_packet_body [simp]: "length (packet_body a c d) = 5 + length d"
  by (simp add: packet_body_def)

lemma length_packet [simp]: "length (packet a c d) = 6 + length d"
  by (simp add: packet_def)

lemma take_5_plus [simp]: "take (5 + n) (a # b # c # d # e # xs) = a # b # c # d # e # take n xs"
  by (simp add: numeral_eq_Suc)

lemma drop_5_plus [simp]: "drop (5 + n) (a # b # c # d # e # xs) = drop n xs"
  by (simp add: numeral_eq_Suc)

lemma packet_buffer_start:
  "(replicate 70 (0 :: u8))[0 := 0x57, Suc 0 := 0xAB, 2 := a, 3 := c, 4 := l] =
     [0x57, 0xAB, a, c, l] @ replicate 65 0"
proof -
  have rep: "replicate 70 (0 :: u8) = replicate 5 0 @ replicate 65 0"
    by (simp flip: replicate_add)
  show ?thesis by (simp add: rep numeral_eq_Suc)
qed

lemma build_packet_eq:
  "build_packet a c d = (if length d \<le> MAX_DATA_LEN then Some (packet a c d) else None)"
proof -
  define base where "base = [0x57, 0xAB, a, c, word_of_nat (length d)] @ replicate 65 (0 :: u8)"
  have "take (5 + length d) (copy_at 5 d base) = packet_body a c d"
    if "length d \<le> 64"
    using that by (simp add: base_def copy_at_def packet_body_def)
  moreover have "take (6 + length d) ((copy_at 5 d base)[5 + length d := x]) =
      packet_body a c d @ [x]" if "length d \<le> 64" for x
  proof -
    have "copy_at 5 d base = packet_body a c d @ replicate (65 - length d) 0"
      using that by (simp add: base_def copy_at_def packet_body_def)
    moreover have "replicate (65 - length d) (0 :: u8) = 0 # replicate (64 - length d) 0"
      using that by (simp add: Suc_diff_le flip: replicate_Suc)
    ultimately show ?thesis by (simp add: list_update_append)
  qed
  ultimately show ?thesis
    by (auto simp: build_packet_def build_packet_buf_def Let_def PACKET_HEADER_def
        MAX_PACKET_SIZE_def MAX_DATA_LEN_def packet_def checksum_sum packet_buffer_start
        base_def [symmetric] simp del: append_Cons)
qed

lemma response_parse_packet:
  assumes "length d \<le> 255"
  shows "response_parse (packet a c d) = Some (response_of a c d)"
proof -
  have len: "unat (word_of_nat (length d) :: u8) = length d"
    using assms by (simp add: unat_of_nat)
  have nth: "packet a c d ! 0 = 0x57" "packet a c d ! 1 = 0xAB" "packet a c d ! 2 = a"
    "packet a c d ! 3 = c" "packet a c d ! 4 = word_of_nat (length d)"
    by (simp_all add: packet_def packet_body_def)
  have "packet a c d ! (5 + length d) = sum_list (packet_body a c d)"
    and "take (5 + length d) (packet a c d) = packet_body a c d"
    and "take (length d) (drop 5 (packet a c d)) = d"
    by (simp_all add: packet_def nth_append packet_body_def)
  with nth len show ?thesis
    by (simp add: response_parse_def Let_def PACKET_HEADER_def foldl_sum response_of_def)
qed

lemma extract_packet:
  assumes "length d \<le> 255"
  shows "extract_from (junk @ packet a c d @ rest) (length junk) =
    Some (response_of a c d, length junk + (6 + length d))"
proof -
  let ?b = "junk @ packet a c d @ rest"
  have len: "unat (word_of_nat (length d) :: u8) = length d"
    using assms by (simp add: unat_of_nat)
  have nth: "?b ! length junk = 0x57" "?b ! (length junk + 1) = 0xAB"
    "?b ! (length junk + 4) = word_of_nat (length d)"
    by (simp_all add: nth_append packet_def packet_body_def)
  have "take (6 + length d) (drop (length junk) ?b) = packet a c d" by simp
  with nth len show ?thesis
    by (subst extract_from.simps) (simp add: PACKET_HEADER_def response_parse_packet assms Let_def)
qed

lemma extract_skip:
  assumes "0x57 \<notin> set junk"
  shows "extract_from (junk @ buf) 0 =
    (if 6 \<le> length buf then extract_from (junk @ buf) (length junk) else None)"
proof -
  have "extract_from (junk @ buf) i =
    (if 6 \<le> length buf then extract_from (junk @ buf) (length junk) else None)" if "i \<le> length junk" for i
    using that
  proof (induction "length junk - i" arbitrary: i)
    case 0
    then show ?case by (subst extract_from.simps) (auto simp: extract_from.simps [of _ "length junk"])
  next
    case (Suc n)
    then have i: "i < length junk" and "n = length junk - (i + 1)" by auto
    with Suc have IH: "extract_from (junk @ buf) (i + 1) =
       (if 6 \<le> length buf then extract_from (junk @ buf) (length junk) else None)" by simp
    have "(junk @ buf) ! i \<noteq> 0x57" using i assms by (metis nth_append nth_mem)
    then show ?case using IH i
      by (subst extract_from.simps) (auto simp: PACKET_HEADER_def extract_from.simps [of _ "length junk"])
  qed
  from this [of 0] show ?thesis by simp
qed


lemma extract_junk_packet:
  "0x57 \<notin> set junk \<Longrightarrow> length d \<le> 255 \<Longrightarrow>
     try_extract_response (junk @ packet a c d @ rest) =
       Some (response_of a c d, length junk + (6 + length d))"
  by (simp add: try_extract_response_def extract_skip extract_packet)

text \<open>The serial protocol provides the framed-protocol contract for chip responses.\<close>

definition response_bytes :: "response \<Rightarrow> bytes" where
  "response_bytes r = packet (rsp_address r) (rsp_cmd r) (rsp_data r)"

definition response_wf :: "response \<Rightarrow> bool" where
  "response_wf r \<longleftrightarrow> length (rsp_data r) \<le> 255 \<and> r = response_of (rsp_address r) (rsp_cmd r) (rsp_data r)"

definition extract_one :: "bytes \<Rightarrow> (response \<times> bytes) option" where
  "extract_one bs = map_option (\<lambda>(r, n). (r, drop n bs)) (try_extract_response bs)"

lemma extract_partial:
  assumes "packet a c d = p @ q" and "q \<noteq> []" and "length d \<le> 255"
  shows "try_extract_response p = None"
proof (cases "6 \<le> length p")
  case False
  then show ?thesis by (simp add: try_extract_response_def extract_from.simps)
next
  case True
  have less: "length p < 6 + length d"
    using assms(2) arg_cong [OF assms(1), of length] by (cases q) auto
  have p: "p ! i = packet a c d ! i" if "i < 6" for i
    using that True by (simp add: assms(1) nth_append)
  have "p ! 0 = 0x57" "p ! 1 = 0xAB" "p ! 4 = word_of_nat (length d)"
    by (simp_all add: p packet_def packet_body_def)
  moreover have "unat (word_of_nat (length d) :: u8) = length d"
    using assms(3) by (simp add: unat_of_nat)
  ultimately show ?thesis
    using True less unfolding try_extract_response_def
    by (subst extract_from.simps) (simp add: PACKET_HEADER_def Let_def)
qed

interpretation ch: frame_codec response_bytes extract_one response_wf
proof unfold_locales
  fix x rest assume "response_wf x"
  then show "extract_one (response_bytes x @ rest) = Some (x, rest)"
    using extract_junk_packet [of "[]" "rsp_data x" "rsp_address x" "rsp_cmd x" rest]
    by (simp add: extract_one_def response_bytes_def response_wf_def)
next
  fix x p q assume "response_wf x" "response_bytes x = p @ q" "q \<noteq> []"
  then show "extract_one p = None"
    using extract_partial [of "rsp_address x" "rsp_cmd x" "rsp_data x" p q]
    by (simp add: extract_one_def response_bytes_def response_wf_def)
qed

lemma extract_one_Some:
  "extract_one bs = Some (r, rest) \<longleftrightarrow> (\<exists>n. try_extract_response bs = Some (r, n) \<and> rest = drop n bs)"
  by (auto simp: extract_one_def)

section \<open>Transfers find their response\<close>

definition matches :: "u8 \<Rightarrow> u8 \<Rightarrow> response \<Rightarrow> bool" where
  "matches ok err r \<longleftrightarrow> rsp_cmd r = ok \<or> rsp_cmd r = err"

text \<open>What is still to come: responses to other commands, the wanted one, anything.\<close>

definition incoming :: "u8 \<Rightarrow> u8 \<Rightarrow> bytes \<Rightarrow> response \<Rightarrow> bool" where
  "incoming ok err bs r \<longleftrightarrow> (\<exists>rs tail. bs = concat (map response_bytes rs) @ response_bytes r @ tail \<and>
     (\<forall>x \<in> set rs. response_wf x \<and> \<not> matches ok err x) \<and> response_wf r \<and> matches ok err r)"

lemma length_response_bytes: "response_wf r \<Longrightarrow> 6 \<le> length (response_bytes r) \<and> length (response_bytes r) \<le> 261"
  by (simp add: response_bytes_def response_wf_def)

lemma take_matching_incoming:
  assumes "incoming ok err (pending @ future) r" and "length pending \<le> fuel"
  shows "(\<exists>p. take_matching fuel ok err pending = (Some r, p)) \<or>
    (\<exists>p. take_matching fuel ok err pending = (None, p) \<and> incoming ok err (p @ future) r \<and> length p \<le> 261 \<and>
         try_extract_response p = None)"
  using assms
proof (induction fuel arbitrary: pending)
  case 0
  then have "pending = []" by simp
  moreover have "try_extract_response [] = None"
    by (simp add: try_extract_response_def extract_from.simps)
  ultimately show ?case using 0 by auto
next
  case (Suc fuel)
  from Suc.prems(1) obtain rs tail where
    eq: "pending @ future = concat (map response_bytes rs) @ response_bytes r @ tail" and
    rs: "\<forall>x \<in> set rs. response_wf x \<and> \<not> matches ok err x" and r: "response_wf r" "matches ok err r"
    unfolding incoming_def by blast
  define x where "x = (case rs of [] \<Rightarrow> r | y # _ \<Rightarrow> y)"
  define rest where "rest = (case rs of [] \<Rightarrow> tail | _ # ys \<Rightarrow> concat (map response_bytes ys) @ response_bytes r @ tail)"
  have eq': "pending @ future = response_bytes x @ rest" and wf: "response_wf x"
    using eq rs r by (auto simp: x_def rest_def split: list.split)
  show ?case
  proof (cases "length (response_bytes x) \<le> length pending")
    case False
    then have "length pending < length (response_bytes x)" by simp
    with eq' obtain q where q: "response_bytes x = pending @ q" "q \<noteq> []" "future = q @ rest"
      by (rule append_cut_less)
    have "try_extract_response pending = None"
      using ch.dec_prefix [OF wf q(1,2)] by (simp add: extract_one_def)
    moreover have "length pending \<le> 261"
      using length_response_bytes [OF wf] False by simp
    ultimately show ?thesis using Suc.prems(1) q by auto
  next
    case True
    with eq' obtain p where p: "pending = response_bytes x @ p" "p @ future = rest"
      by (rule append_cut_le)
    have ex: "try_extract_response pending = Some (x, n) \<Longrightarrow> drop n pending = p"
      "\<exists>n. try_extract_response pending = Some (x, n)" for n
      using ch.dec_enc [OF wf, of p] p(1) by (auto simp: extract_one_Some)
    show ?thesis
    proof (cases rs)
      case Nil
      with ex r show ?thesis by (auto simp: x_def matches_def)
    next
      case (Cons y ys)
      then have "x = y" and "incoming ok err (p @ future) r"
        using p(2) rs r by (auto simp: x_def rest_def incoming_def)
      moreover have "length p \<le> fuel"
        using p(1) Suc.prems(2) length_response_bytes [OF wf] by simp
      moreover have "\<not> matches ok err x" using rs Cons \<open>x = y\<close> by simp
      ultimately show ?thesis
        using Suc.IH [of p] ex by (auto simp: matches_def Let_def)
    qed
  qed
qed

fun read_bytes :: "read_result \<Rightarrow> bytes" where
  "read_bytes (ReadBytes bs) = bs"
| "read_bytes ReadTimedOut = []"
| "read_bytes (ReadError e) = []"

definition no_read_error :: "read_result list \<Rightarrow> bool" where
  "no_read_error reads \<longleftrightarrow> (\<forall>e. ReadError e \<notin> set reads)"

lemma read_response_incoming:
  assumes "incoming ok err (pending @ concat (map read_bytes reads)) r" and "no_read_error reads"
    and "reads \<noteq> [] \<Longrightarrow> length pending \<le> 261"
    and "try_extract_response pending = None"
  shows "read_response ok err pending reads = Inr (Some r)"
  using assms
proof (induction reads arbitrary: pending)
  case Nil
  then obtain rs tail where pending: "pending = concat (map response_bytes rs) @ response_bytes r @ tail"
    and rs: "\<forall>x \<in> set rs. response_wf x" and r: "response_wf r"
    by (auto simp: incoming_def)
  have "extract_one pending \<noteq> None"
    using ch.dec_enc [OF r, of tail] ch.dec_enc rs by (cases rs) (auto simp: pending)
  with Nil show ?case by (simp add: extract_one_def)
next
  case (Cons x reads)
  show ?case
  proof (cases "read_bytes x = []")
    case True
    with Cons show ?thesis
      by (cases x) (auto simp: no_read_error_def)
  next
    case False
    with Cons.prems(2) obtain chunk where x: "x = ReadBytes chunk" "chunk \<noteq> []"
      by (cases x) (auto simp: no_read_error_def)
    with Cons.prems(1) have inc: "incoming ok err ((pending @ chunk) @ concat (map read_bytes reads)) r"
      by simp
    from take_matching_incoming [OF inc order_refl] consider
      (found) p where "take_matching (length (pending @ chunk)) ok err (pending @ chunk) = (Some r, p)"
      | (more) p where "take_matching (length (pending @ chunk)) ok err (pending @ chunk) = (None, p)"
          "incoming ok err (p @ concat (map read_bytes reads)) r" "length p \<le> 261"
          "try_extract_response p = None"
      by blast
    then show ?thesis
    proof cases
      case found
      with x show ?thesis by simp
    next
      case more
      have trim: "trim_pending p = p" using more(3) by (simp add: trim_pending_def MAX_PACKET_SIZE_def)
      with more Cons x show ?thesis by (simp add: no_read_error_def)
    qed
  qed
qed

lemma all_less_8: "(\<forall>n < 8. P n) \<longleftrightarrow> P 0 \<and> P 1 \<and> P 2 \<and> P 3 \<and> P 4 \<and> P 5 \<and> P 6 \<and> P (7 :: nat)"
  by (simp add: numeral_eq_Suc All_less_Suc) blast

lemma u8_eq_bits: "a = b \<longleftrightarrow> (\<forall>n < 8. bit a n = bit (b :: u8) n)"
  by (auto simp: bit_eq_iff possible_bit_def)

lemma and_C0: "c AND (0xC0 :: u8) = 0xC0 \<longleftrightarrow> bit c 7 \<and> bit c 6"
  unfolding u8_eq_bits all_less_8 by (simp add: bit_and_iff) auto

lemma sum_list_change:
  "i < length xs \<Longrightarrow> sum_list (xs[i := b]) = sum_list xs + (b - xs ! i)" for xs :: "u8 list"
  by (induction xs arbitrary: i) (auto split: nat.split simp: algebra_simps)

lemma response_parse_header:
  "response_parse bs = Some r \<Longrightarrow> bs ! 0 = 0x57 \<and> bs ! 1 = 0xAB \<and> 6 \<le> length bs \<and>
     5 + unat (bs ! 4) < length bs \<and>
     bs ! (5 + unat (bs ! 4)) = sum_list (take (5 + unat (bs ! 4)) bs)"
  by (auto simp: response_parse_def Let_def PACKET_HEADER_def foldl_sum split: if_splits)

text \<open>C30: Packets round-trip. A payload of at most 64 bytes builds the packet
  \<open>57 AB addr cmd len data sum\<close>, which fits the 70-byte buffer; a longer one is the panic. The
  response scanner, given the packet after any junk without the byte \<open>57\<close> and before any other
  bytes, skips the junk, returns address, command and data, and consumes exactly up to the end of
  the packet; the error flag is bits 6 and 7 of the command.\<close>

theorem ch9329_packet_roundtrip:
  "build_packet a c d =
     (if length d \<le> MAX_DATA_LEN then Some (packet a c d) else None) \<and>
   (length d \<le> MAX_DATA_LEN \<and> 0x57 \<notin> set junk \<longrightarrow>
     length (packet a c d) = 6 + length d \<and> length (packet a c d) \<le> MAX_PACKET_SIZE \<and>
     (\<exists>r. try_extract_response (junk @ packet a c d @ rest) = Some (r, length junk + length (packet a c d)) \<and>
        rsp_address r = a \<and> rsp_cmd r = c \<and> rsp_data r = d \<and>
        (rsp_is_error r \<longleftrightarrow> bit c 7 \<and> bit c 6)))"
proof -
  have err: "c AND 0xC0 = 0xC0 \<longleftrightarrow> bit c 7 \<and> bit c 6"
    by (rule and_C0)
  show ?thesis
    using extract_junk_packet [of junk d a c rest] err
    by (auto simp: build_packet_eq MAX_DATA_LEN_def MAX_PACKET_SIZE_def response_of_def Let_def RESPONSE_ERROR_MASK_def)
qed

text \<open>One wrong byte is noticed. A packet parses, and if any one byte of it except the
  length byte is replaced by another value (header, address, command, data or checksum), it does
  not parse.\<close>

theorem ch9329_corruption_detected:
  assumes "length d \<le> MAX_DATA_LEN" and "i < length (packet a c d)" and "i \<noteq> 4" and "b \<noteq> packet a c d ! i"
  shows "response_parse (packet a c d) = Some (response_of a c d) \<and>
    response_parse ((packet a c d)[i := b]) = None"
proof
  have d: "length d \<le> 255" using assms(1) by (simp add: MAX_DATA_LEN_def)
  then show "response_parse (packet a c d) = Some (response_of a c d)" by (rule response_parse_packet)
  let ?p = "packet a c d" let ?q = "?p[i := b]"
  have q4: "?q ! 4 = word_of_nat (length d)" using assms(3) nth_list_update_neq [of i 4 ?p b] by (simp add: packet_def packet_body_def)
  have len: "unat (?q ! 4) = length d"
    using d unfolding q4 by (simp add: unat_of_nat)
  show "response_parse ?q = None"
  proof (rule ccontr)
    assume "response_parse ?q \<noteq> None"
    then obtain r where "response_parse ?q = Some r" by auto
    from response_parse_header [OF this]
    have sum: "?q ! (5 + length d) = sum_list (take (5 + length d) ?q)" by (simp only: len)
    show False
    proof (cases "i < 5 + length d")
      case True
      then have "?q = (packet_body a c d)[i := b] @ [sum_list (packet_body a c d)]"
        by (simp add: packet_def list_update_append)
      moreover have "b \<noteq> packet_body a c d ! i" using assms(4) True by (simp add: packet_def nth_append)
      ultimately show False using sum True by (simp add: nth_append sum_list_change)
    next
      case False
      with assms(2) have "i = 5 + length d" by simp
      then have "?q = packet_body a c d @ [b]" by (simp add: packet_def list_update_append)
      with sum assms(4) \<open>i = 5 + length d\<close> show False by (simp add: nth_append packet_def)
    qed
  qed
qed

definition error_flag_ok :: "response \<Rightarrow> bool" where
  "error_flag_ok r \<longleftrightarrow> rsp_is_error r = (rsp_cmd r AND RESPONSE_ERROR_MASK = RESPONSE_ERROR_MASK)"

lemma extract_from_sound:
  "extract_from bs i = Some (r, n) \<Longrightarrow>
     error_flag_ok r \<and> i + 6 \<le> n \<and> n \<le> length bs"
proof (induction bs i rule: extract_from.induct)
  case (1 bs i)
  have parse: "response_parse xs = Some r \<Longrightarrow>
      error_flag_ok r" for xs
    by (auto simp: response_parse_def Let_def error_flag_ok_def split: if_splits)
  let ?len = "unat (bs ! (i + 4))"
  consider (header) "i + 6 \<le> length bs" "bs ! i \<noteq> PACKET_HEADER ! 0 \<or> bs ! (i + 1) \<noteq> PACKET_HEADER ! 1"
      "extract_from bs (i + 1) = Some (r, n)"
    | (again) "i + 6 \<le> length bs" "\<not> (bs ! i \<noteq> PACKET_HEADER ! 0 \<or> bs ! (i + 1) \<noteq> PACKET_HEADER ! 1)"
      "\<not> i + (6 + ?len) > length bs" "response_parse (take (6 + ?len) (drop i bs)) = None"
      "extract_from bs (i + 1) = Some (r, n)"
    | (found) "i + (6 + ?len) \<le> length bs" "response_parse (take (6 + ?len) (drop i bs)) = Some r"
      "n = i + (6 + ?len)"
    using "1.prems" unfolding extract_from.simps [of bs i] Let_def
    by (cases "response_parse (take (6 + ?len) (drop i bs))") (auto split: if_splits)
  then show ?case
  proof cases
    case header
    with "1.IH"(1) show ?thesis by fastforce
  next
    case again
    with "1.IH"(2) show ?thesis by fastforce
  next
    case found
    with parse show ?thesis by simp
  qed
qed

lemma take_matching_sound:
  "take_matching fuel ok err pending = (Some r, p) \<Longrightarrow>
     matches ok err r \<and> error_flag_ok r"
proof (induction fuel arbitrary: pending)
  case (Suc fuel)
  then obtain x n where x: "try_extract_response pending = Some (x, n)"
    by (cases "try_extract_response pending") auto
  then have flag: "error_flag_ok x"
    unfolding try_extract_response_def by (rule extract_from_sound [THEN conjunct1])
  show ?case
  proof (cases "matches ok err x")
    case True
    with Suc.prems x flag show ?thesis by (simp add: matches_def Let_def)
  next
    case False
    with Suc.prems x have "take_matching fuel ok err (drop n pending) = (Some r, p)"
      by (simp add: matches_def Let_def)
    then show ?thesis by (rule Suc.IH)
  qed
qed simp

lemma read_response_sound:
  "read_response ok err pending reads = Inr (Some r) \<Longrightarrow>
     matches ok err r \<and> error_flag_ok r"
  by (induction ok err pending reads rule: read_response.induct)
    (auto simp: Let_def split: read_result.splits option.splits if_splits prod.splits
      dest: take_matching_sound)

lemma read_response_error:
  "read_response ok err pending reads = Inl e \<Longrightarrow> he_code e = ''read_failed'' \<and> \<not> no_read_error reads"
  by (induction ok err pending reads rule: read_response.induct)
    (auto simp: Let_def no_read_error_def backend_error_def split: read_result.splits option.splits if_splits prod.splits)

lemma read_response_silent:
  "read_response ok err pending reads = Inr None \<Longrightarrow> no_read_error reads"
  by (induction ok err pending reads rule: read_response.induct)
    (auto simp: Let_def no_read_error_def split: read_result.splits option.splits if_splits prod.splits)

lemma expected_cmd_bits:
  "expected_response_cmd cmd e AND RESPONSE_ERROR_MASK = RESPONSE_ERROR_MASK \<longleftrightarrow> e \<or> bit cmd 6"
  by (simp add: expected_response_cmd_def RESPONSE_ERROR_MASK_def RESPONSE_SUCCESS_MASK_def and_C0 bit_or_iff)

text \<open>C22: A transfer finds its answer. If the port's reads deliver, in any chunks and with
  any number of timeouts in between, responses to other commands followed by a response to this
  one (success or error), then \<open>xfer_packet\<close> writes exactly its packet and returns that
  response: neither chunk boundaries nor the trimming of the pending buffer lose it.\<close>

theorem ch9329_transfer_finds_response:
  assumes "length data \<le> MAX_DATA_LEN"
    and "pt_script p = \<lparr>tr_write_error = None, tr_reads = reads\<rparr> # later"
    and "no_read_error reads"
    and "concat (map read_bytes reads) = concat (map response_bytes others) @ response_bytes r @ tail"
    and "\<forall>x \<in> set others. response_wf x \<and> rsp_cmd x \<noteq> expected_response_cmd cmd False \<and>
           rsp_cmd x \<noteq> expected_response_cmd cmd True"
    and "response_wf r" and "rsp_cmd r = expected_response_cmd cmd is_error"
  shows "xfer_packet address cmd data p =
    Some (Inr r, \<lparr>pt_script = later, pt_written = pt_written p @ [packet address cmd data]\<rparr>)"
proof -
  let ?ok = "expected_response_cmd cmd False" and ?err = "expected_response_cmd cmd True"
  have "matches ?ok ?err r" using assms(7) by (cases is_error) (simp_all add: matches_def)
  then have "incoming ?ok ?err ([] @ concat (map read_bytes reads)) r"
    unfolding incoming_def using assms(4-6) by (auto simp: matches_def)
  then have "read_response ?ok ?err [] reads = Inr (Some r)"
    using assms(3) by (rule read_response_incoming)
      (simp_all add: try_extract_response_def extract_from.simps)
  then show ?thesis
    using assms(1,2) by (simp add: xfer_packet_def write_packet_def build_packet_eq next_transfer_def Let_def)
qed

text \<open>How a transfer ends. For a command code with bit 6 clear and a payload that fits,
  \<open>xfer_packet\<close> returns: a write error is \<open>write_failed\<close> and nothing was written; otherwise exactly
  the packet was written, and the result is a response whose command is the expected one for its
  error flag, or \<open>read_failed\<close> when a read failed, or \<open>no_response\<close> at the deadline.\<close>

theorem ch9329_transfer_outcomes:
  assumes "length data \<le> MAX_DATA_LEN" and "\<not> bit cmd 6"
  shows "\<exists>res p'. xfer_packet address cmd data p = Some (res, p') \<and> pt_script p' = tl (pt_script p) \<and>
    pt_written p' = pt_written p @ (if tr_write_error (next_transfer p) = None then [packet address cmd data] else []) \<and>
    (case res of
       Inl e \<Rightarrow> he_code e = (if tr_write_error (next_transfer p) \<noteq> None then ''write_failed''
           else if no_read_error (tr_reads (next_transfer p)) then ''no_response'' else ''read_failed'')
     | Inr r \<Rightarrow> tr_write_error (next_transfer p) = None \<and>
         rsp_cmd r = expected_response_cmd cmd (rsp_is_error r))"
proof (cases "tr_write_error (next_transfer p)")
  case (Some e)
  then show ?thesis
    using assms(1) by (simp add: xfer_packet_def write_packet_def build_packet_eq backend_error_def)
next
  case None
  let ?ok = "expected_response_cmd cmd False" and ?err = "expected_response_cmd cmd True"
  let ?p' = "p\<lparr>pt_written := pt_written p @ [packet address cmd data]\<rparr>"
  have next_eq: "next_transfer ?p' = next_transfer p" by (simp add: next_transfer_def)
  show ?thesis
  proof (cases "read_response ?ok ?err [] (tr_reads (next_transfer p))")
    case (Inl e)
    with read_response_error [OF Inl] None assms(1) show ?thesis
      by (simp add: xfer_packet_def write_packet_def build_packet_eq Let_def next_eq)
  next
    case (Inr found)
    show ?thesis
    proof (cases found)
      case None
      with Inr have "no_read_error (tr_reads (next_transfer p))"
        by (simp add: read_response_silent)
      with None Inr \<open>tr_write_error (next_transfer p) = None\<close> assms(1) show ?thesis
        by (simp add: xfer_packet_def write_packet_def build_packet_eq Let_def next_eq backend_error_def)
    next
      case (Some r)
      with Inr have read: "read_response ?ok ?err [] (tr_reads (next_transfer p)) = Inr (Some r)" by simp
      from read_response_sound [OF this]
      have "rsp_cmd r = expected_response_cmd cmd (rsp_is_error r)"
        using expected_cmd_bits [of cmd True] expected_cmd_bits [of cmd False] assms(2)
        unfolding matches_def error_flag_ok_def by (elim conjE disjE) simp_all
      with read \<open>tr_write_error (next_transfer p) = None\<close> assms(1) show ?thesis
        by (simp add: xfer_packet_def write_packet_def build_packet_eq Let_def next_eq)
    qed
  qed
qed

lemma response_wf_response_of: "length d \<le> 255 \<Longrightarrow> response_wf (response_of a c d)"
  by (simp add: response_wf_def response_of_def Let_def)

theorem ch9329_transfer_finds_response_witness:
  "let other = response_of 0 0x82 [0]; r = response_of 0 0x81 [0x31, 1, 0, 0, 0, 0, 0, 0];
       stream = response_bytes other @ response_bytes r @ [0x57];
       reads = [ReadBytes (take 9 stream), ReadTimedOut, ReadBytes (drop 9 stream)]
   in xfer_packet 0 GET_INFO [] \<lparr>pt_script = [\<lparr>tr_write_error = None, tr_reads = reads\<rparr>], pt_written = []\<rparr> =
      Some (Inr r, \<lparr>pt_script = [], pt_written = [[0x57, 0xAB, 0, 1, 0, 3]]\<rparr>)"
proof -
  have pkt: "packet 0 GET_INFO [] = [0x57, 0xAB, 0, 1, 0, 3]"
    by (simp add: packet_def packet_body_def GET_INFO_def)
  have cmds: "expected_response_cmd GET_INFO False = 0x81" "expected_response_cmd GET_INFO True = 0xC1"
    by (simp_all add: expected_response_cmd_def GET_INFO_def RESPONSE_SUCCESS_MASK_def RESPONSE_ERROR_MASK_def)
  have cmd: "rsp_cmd (response_of a c d) = c" for a c d by (simp add: response_of_def Let_def)
  show ?thesis
    unfolding Let_def
    by (subst ch9329_transfer_finds_response [where later = "[]" and is_error = False
          and others = "[response_of 0 0x82 [0]]" and tail = "[0x57]"])
      (auto simp: MAX_DATA_LEN_def no_read_error_def response_wf_response_of cmds cmd pkt simp del: take_append drop_append)
qed

theorem ch9329_transfer_outcomes_witness:
  "\<exists>res p'. xfer_packet 0 RESET_CMD [] \<lparr>pt_script = [], pt_written = []\<rparr> = Some (res, p') \<and>
     (\<exists>e. res = Inl e \<and> he_code e = ''no_response'')"
  using ch9329_transfer_outcomes [of "[]" RESET_CMD 0 "\<lparr>pt_script = [], pt_written = []\<rparr>"]
  by (auto simp: MAX_DATA_LEN_def RESET_CMD_def next_transfer_def silent_transfer_def no_read_error_def
      xfer_packet_def write_packet_def build_packet_eq Let_def backend_error_def)

theorem ch9329_corruption_detected_witness:
  "response_parse ((packet 0 0x82 [0])[3 := 0x83]) = None"
  using ch9329_corruption_detected [where d = "[0]" and i = 3 and a = 0 and c = "0x82" and b = "0x83"]
  by (simp add: MAX_DATA_LEN_def packet_def packet_body_def)

theorem ch9329_packet_roundtrip_witness:
  "\<exists>r. try_extract_response ([1, 2] @ packet 0 0x81 [7] @ [9]) = Some (r, 9) \<and> rsp_data r = [7]"
  using ch9329_packet_roundtrip [where a = 0 and c = "0x81" and d = "[7]" and junk = "[1, 2]" and rest = "[9]"] by (auto simp: MAX_DATA_LEN_def)

end
