(* ===== verification/Ch9329_Backend.thy ===== *)
theory Ch9329_Backend
  imports Ch9329_Protocol
begin

text \<open>
  \<^verbatim>\<open>src/src/hid/ch9329.rs\<close>, backend part: the runtime state shared between the API and
  the worker thread, the worker (probe, transfer, reset sequence, reconnect), the command channel,
  and the operations of \<open>HidBackend\<close>.

  The worker's blocking receive is an event (a command, a timeout, a closed channel). The loops
  \<open>worker_loop\<close> and \<open>worker_reconnect_loop\<close> are one step function over a phase: a step is one
  iteration of the loop the worker is in, with all its writes to the runtime state, and an API call and a
  snapshot are one action each: what is stated here of the shared state is what holds between such actions. \<open>Ch9329_Races\<close> takes the same calls
  and the snapshot apart into their single accesses. Opening the serial port is a script of outcomes.
  A step is \<open>None\<close> when the worker thread panics.
\<close>

section \<open>Runtime state\<close>

record runtime =
  rt_initialized :: bool
  rt_online :: bool
  rt_last_error :: "(string \<times> string) option"
  rt_notified :: nat

definition runtime_new :: runtime where
  "runtime_new = \<lparr>rt_initialized = False, rt_online = False, rt_last_error = None, rt_notified = 0\<rparr>"

definition notify :: "runtime \<Rightarrow> runtime" where
  "notify r = r\<lparr>rt_notified := rt_notified r + 1\<rparr>"

definition clear_error :: "runtime \<Rightarrow> runtime" where
  "clear_error r =
     (if rt_last_error r \<noteq> None then notify (r\<lparr>rt_last_error := None\<rparr>) else r)"

definition set_online :: "runtime \<Rightarrow> runtime" where
  "set_online r =
     (let was_online = rt_online r;
          cleared_error = (rt_last_error r \<noteq> None);
          r = r\<lparr>rt_online := True, rt_last_error := None\<rparr>
      in if \<not> was_online \<or> cleared_error then notify r else r)"

definition set_error :: "string \<Rightarrow> string \<Rightarrow> runtime \<Rightarrow> runtime" where
  "set_error reason error_code r =
     (let was_online = rt_online r;
          changed = (rt_last_error r \<noteq> Some (reason, error_code));
          r = r\<lparr>rt_online := False, rt_last_error := Some (reason, error_code)\<rparr>
      in if was_online \<or> changed then notify r else r)"

definition set_initialized :: "bool \<Rightarrow> runtime \<Rightarrow> runtime" where
  "set_initialized initialized r =
     (let r' = r\<lparr>rt_initialized := initialized\<rparr>
      in if rt_initialized r \<noteq> initialized then notify r' else r')"

definition set_offline :: "runtime \<Rightarrow> runtime" where
  "set_offline r =
     (let r' = r\<lparr>rt_online := False\<rparr> in if rt_online r then notify r' else r')"

section \<open>Opening the port\<close>

datatype serial_error_kind = NoDevice | InvalidInput | SerialIo | SerialUnknown

definition serial_error_to_hid_error :: "serial_error_kind \<Rightarrow> string \<Rightarrow> string \<Rightarrow> hid_error" where
  "serial_error_to_hid_error kind e operation =
     backend_error (operation @ '': '' @ e)
       (case kind of
          NoDevice \<Rightarrow> ''port_not_found''
        | InvalidInput \<Rightarrow> ''invalid_config''
        | SerialIo \<Rightarrow> ''io_error''
        | _ \<Rightarrow> ''serial_error'')"

datatype open_result =
    PathMissing
  | OpenFails serial_error_kind string
  | Opened "transfer list"

definition open_port :: "string \<Rightarrow> open_result \<Rightarrow> hid_error + port" where
  "open_port port_path outcome =
     (case outcome of
        PathMissing \<Rightarrow>
          Inl (backend_error (''Serial port '' @ port_path @ '' not found'') ''port_not_found'')
      | OpenFails kind e \<Rightarrow> Inl (serial_error_to_hid_error kind e ''Failed to open serial port'')
      | Opened script \<Rightarrow> Inr \<lparr>pt_script = script, pt_written = []\<rparr>)"

text \<open>\<open>open_port(..).and_then(|port| query_chip_info_on_port(..))\<close>\<close>

definition open_and_query ::
  "string \<Rightarrow> u8 \<Rightarrow> open_result \<Rightarrow> (hid_error + (port \<times> chip_info)) option" where
  "open_and_query port_path address outcome =
     (case open_port port_path outcome of
        Inl e \<Rightarrow> Some (Inl e)
      | Inr p \<Rightarrow>
          (case query_chip_info_on_port address p of
             None \<Rightarrow> None
           | Some (Inl e, _) \<Rightarrow> Some (Inl e)
           | Some (Inr info, p') \<Rightarrow> Some (Inr (p', info))))"

section \<open>The worker\<close>

datatype worker_command = Packet u8 bytes | ResetState | Shutdown

datatype recv_event = Command worker_command | RecvTimeout | RecvDisconnected

datatype worker_phase = Running | Reconnecting | Stopped

text \<open>\<open>wk_opens\<close> are the outcomes of the coming attempts to open the port; past its end the
  device file does not exist.\<close>

record worker =
  wk_phase :: worker_phase
  wk_port :: port
  wk_opens :: "open_result list"
  wk_port_path :: string
  wk_address :: u8
  wk_chip_info :: "chip_info option"
  wk_led_status :: led_status
  wk_runtime :: runtime

definition with_runtime :: "(runtime \<Rightarrow> runtime) \<Rightarrow> worker \<Rightarrow> worker" where
  "with_runtime f w = w\<lparr>wk_runtime := f (wk_runtime w)\<rparr>"

definition next_open :: "worker \<Rightarrow> open_result" where
  "next_open w = (case wk_opens w of [] \<Rightarrow> PathMissing | outcome # _ \<Rightarrow> outcome)"

definition update_chip_info_cache :: "chip_info \<Rightarrow> worker \<Rightarrow> bool \<times> worker" where
  "update_chip_info_cache info w =
     (let next_led_status = \<lparr>led_num_lock = ci_num_lock info, led_caps_lock = ci_caps_lock info,
            led_scroll_lock = ci_scroll_lock info\<rparr>;
          changed = (wk_led_status w \<noteq> next_led_status)
      in (changed, w\<lparr>wk_chip_info := Some info, wk_led_status := next_led_status\<rparr>))"

text \<open>\<open>if update_chip_info_cache(..) { runtime.notify() } runtime.set_online()\<close>\<close>

definition chip_answered :: "chip_info \<Rightarrow> worker \<Rightarrow> worker" where
  "chip_answered info w =
     (case update_chip_info_cache info w of
        (changed, w') \<Rightarrow> with_runtime set_online (if changed then with_runtime notify w' else w'))"

definition record_hid_error :: "hid_error \<Rightarrow> worker \<Rightarrow> worker" where
  "record_hid_error e w = with_runtime (set_error (he_reason e) (he_code e)) w"

text \<open>The code after \<open>worker_loop\<close>'s loop.\<close>

definition worker_break :: "worker \<Rightarrow> worker" where
  "worker_break w = with_runtime (set_initialized False) (with_runtime set_offline (w\<lparr>wk_phase := Stopped\<rparr>))"

text \<open>A failed transfer: record the error, try to reset the chip, start reconnecting.\<close>

definition lose_port :: "hid_error \<Rightarrow> worker \<Rightarrow> worker option" where
  "lose_port e w =
     (let w' = record_hid_error e w in
      case try_best_effort_reset (wk_address w') (wk_port w') of
        None \<Rightarrow> None
      | Some p \<Rightarrow> Some (w'\<lparr>wk_port := p, wk_phase := Reconnecting\<rparr>))"

text \<open>The part of \<open>worker_loop\<close> before its loop: what is sent to \<open>init_tx\<close>, and the worker.\<close>

definition worker_start :: "worker \<Rightarrow> ((hid_error + chip_info) \<times> worker) option" where
  "worker_start w =
     (let w1 = with_runtime (set_initialized True) w;
          w2 = w1\<lparr>wk_opens := tl (wk_opens w1)\<rparr>
      in case open_and_query (wk_port_path w1) (wk_address w1) (next_open w1) of
           None \<Rightarrow> None
         | Some (Inr (p, info)) \<Rightarrow>
             Some (Inr info, chip_answered info (w2\<lparr>wk_port := p, wk_phase := Running\<rparr>))
         | Some (Inl e) \<Rightarrow>
             Some (Inl e, with_runtime (set_initialized False)
                            (record_hid_error e (w2\<lparr>wk_phase := Stopped\<rparr>))))"

definition reset_sequence :: "(u8 \<times> bytes) list" where
  "reset_sequence =
     [(SEND_KB_GENERAL_DATA, [0, 0, 0, 0, 0, 0, 0, 0]),
      (SEND_MS_ABS_DATA, [0x02, 0, 0, 0, 0, 0, 0]),
      (SEND_KB_MEDIA_DATA, [0x02, 0x00, 0x00, 0x00])]"

text \<open>The transfers of the sequence up to the first failing one.\<close>

fun run_sequence :: "u8 \<Rightarrow> (u8 \<times> bytes) list \<Rightarrow> port \<Rightarrow> (hid_error option \<times> port) option" where
  "run_sequence address [] p = Some (None, p)"
| "run_sequence address ((cmd, data) # rest) p =
     (case xfer_packet address cmd data p of
        None \<Rightarrow> None
      | Some (Inl e, p') \<Rightarrow> Some (Some e, p')
      | Some (Inr _, p') \<Rightarrow> run_sequence address rest p')"

definition running_step :: "recv_event \<Rightarrow> worker \<Rightarrow> worker option" where
  "running_step ev w =
     (case ev of
        Command (Packet cmd data) \<Rightarrow>
          (case xfer_packet (wk_address w) cmd data (wk_port w) of
             None \<Rightarrow> None
           | Some (Inl e, p) \<Rightarrow> lose_port e (w\<lparr>wk_port := p\<rparr>)
           | Some (Inr _, p) \<Rightarrow> Some (with_runtime set_online (w\<lparr>wk_port := p\<rparr>)))
      | Command ResetState \<Rightarrow>
          (case run_sequence (wk_address w) reset_sequence (wk_port w) of
             None \<Rightarrow> None
           | Some (Some e, p) \<Rightarrow> lose_port e (w\<lparr>wk_port := p\<rparr>)
           | Some (None, p) \<Rightarrow> Some (with_runtime set_online (w\<lparr>wk_port := p\<rparr>)))
      | Command Shutdown \<Rightarrow> Some (worker_break w)
      | RecvTimeout \<Rightarrow>
          (case query_chip_info_on_port (wk_address w) (wk_port w) of
             None \<Rightarrow> None
           | Some (Inr info, p) \<Rightarrow> Some (chip_answered info (w\<lparr>wk_port := p\<rparr>))
           | Some (Inl e, p) \<Rightarrow> lose_port e (w\<lparr>wk_port := p\<rparr>))
      | RecvDisconnected \<Rightarrow> Some (worker_break w))"

definition reconnect_step :: "recv_event \<Rightarrow> worker \<Rightarrow> worker option" where
  "reconnect_step ev w =
     (case ev of
        Command Shutdown \<Rightarrow> Some (worker_break w)
      | Command _ \<Rightarrow> Some w
      | RecvDisconnected \<Rightarrow> Some (worker_break w)
      | RecvTimeout \<Rightarrow>
          (let w' = w\<lparr>wk_opens := tl (wk_opens w)\<rparr> in
           case open_and_query (wk_port_path w) (wk_address w) (next_open w) of
             None \<Rightarrow> None
           | Some (Inr (p, info)) \<Rightarrow>
               Some (chip_answered info (w'\<lparr>wk_port := p, wk_phase := Running\<rparr>))
           | Some (Inl e) \<Rightarrow> Some (record_hid_error e w')))"

text \<open>One whole turn of the loop the worker is in; its writes to the runtime state are one action here.\<close>

definition worker_step :: "recv_event \<Rightarrow> worker \<Rightarrow> worker option" where
  "worker_step ev w =
     (case wk_phase w of
        Running \<Rightarrow> running_step ev w
      | Reconnecting \<Rightarrow> reconnect_step ev w
      | Stopped \<Rightarrow> Some w)"

fun run_worker :: "recv_event list \<Rightarrow> worker \<Rightarrow> worker option" where
  "run_worker [] w = Some w"
| "run_worker (ev # evs) w =
     (case worker_step ev w of None \<Rightarrow> None | Some w' \<Rightarrow> run_worker evs w')"

section \<open>The backend\<close>

datatype app_error = HidError hid_error | InternalError string

fun app_error_display :: "app_error \<Rightarrow> string" where
  "app_error_display (HidError e) =
     ''HID error [ch9329]: '' @ he_reason e @ '' (code: '' @ he_code e @ '')''"
| "app_error_display (InternalError s) = ''Internal error: '' @ s"

text \<open>\<open>bk_worker_tx\<close> is the sender, if any, with the commands the worker has not received yet;
  the channel is closed when the worker has stopped.\<close>

record backend =
  bk_baud_rate :: u32
  bk_worker_tx :: "worker_command list option"
  bk_worker_handle :: bool
  bk_keyboard_state :: keyboard_report
  bk_mouse_buttons :: u8
  bk_screen_width :: u32
  bk_screen_height :: u32
  bk_last_abs_x :: u16
  bk_last_abs_y :: u16
  bk_relative_mouse_active :: bool
  bk_worker :: worker

definition with_baud_rate :: "string \<Rightarrow> u32 \<Rightarrow> open_result list \<Rightarrow> backend" where
  "with_baud_rate port_path baud_rate opens =
     \<lparr>bk_baud_rate = baud_rate, bk_worker_tx = None, bk_worker_handle = False,
      bk_keyboard_state = keyboard_report_default, bk_mouse_buttons = 0,
      bk_screen_width = 1920, bk_screen_height = 1080, bk_last_abs_x = 0, bk_last_abs_y = 0,
      bk_relative_mouse_active = False,
      bk_worker = \<lparr>wk_phase = Stopped, wk_port = \<lparr>pt_script = [], pt_written = []\<rparr>,
        wk_opens = opens, wk_port_path = port_path, wk_address = DEFAULT_ADDR,
        wk_chip_info = None,
        wk_led_status = \<lparr>led_num_lock = False, led_caps_lock = False, led_scroll_lock = False\<rparr>,
        wk_runtime = runtime_new\<rparr>\<rparr>"

type_synonym 'a backend_op = "(backend, app_error, 'a) stm"

definition on_runtime :: "(runtime \<Rightarrow> runtime) \<Rightarrow> backend \<Rightarrow> backend" where
  "on_runtime f b = b\<lparr>bk_worker := with_runtime f (bk_worker b)\<rparr>"

definition record_error :: "string \<Rightarrow> string \<Rightarrow> backend \<Rightarrow> backend" where
  "record_error reason error_code b = on_runtime (set_error reason error_code) b"

definition enqueue_command :: "worker_command \<Rightarrow> unit backend_op" where
  "enqueue_command command b =
     (case bk_worker_tx b of
        None \<Rightarrow>
          (Inl (HidError (backend_error ''CH9329 worker is not running'' ''worker_stopped'')),
           record_error ''CH9329 worker is not running'' ''worker_stopped'' b)
      | Some queue \<Rightarrow>
          if wk_phase (bk_worker b) = Stopped then
            (Inl (HidError (backend_error ''CH9329 worker stopped'' ''worker_stopped'')),
             record_error ''CH9329 worker stopped'' ''worker_stopped'' b)
          else (Inr (), b\<lparr>bk_worker_tx := Some (queue @ [command])\<rparr>))"

definition send_packet :: "u8 \<Rightarrow> bytes \<Rightarrow> unit backend_op" where
  "send_packet cmd data = enqueue_command (Packet cmd data)"

definition send_keyboard_report :: "keyboard_report \<Rightarrow> unit backend_op" where
  "send_keyboard_report report = send_packet SEND_KB_GENERAL_DATA (keyboard_report_to_bytes report)"

definition send_media_key :: "bytes \<Rightarrow> unit backend_op" where
  "send_media_key data =
     (if length data < 2 \<or> length data > 4
      then throwE (InternalError ''Invalid media key data length'')
      else send_packet SEND_KB_MEDIA_DATA data)"

definition release_media_keys :: "unit backend_op" where
  "release_media_keys = send_media_key [0x02, 0x00, 0x00, 0x00]"

definition send_mouse_relative :: "u8 \<Rightarrow> u8 \<Rightarrow> u8 \<Rightarrow> u8 \<Rightarrow> unit backend_op" where
  "send_mouse_relative buttons dx dy wheel =
     send_packet SEND_MS_REL_DATA [0x01, buttons, dx, dy, wheel]"

definition send_mouse_absolute :: "u8 \<Rightarrow> u16 \<Rightarrow> u16 \<Rightarrow> u8 \<Rightarrow> unit backend_op" where
  "send_mouse_absolute buttons x y wheel =
     send_packet SEND_MS_ABS_DATA
       [0x02, buttons, ucast (x AND 0xFF), ucast (drop_bit 8 x), ucast (y AND 0xFF),
        ucast (drop_bit 8 y), wheel]"

definition send_keyboard :: "keyboard_event \<Rightarrow> unit backend_op" where
  "send_keyboard event b =
     (let usb_key = to_hid_usage (ke_key event);
          state = bk_keyboard_state b
      in if is_modifier (ke_key event) then
           (let state =
              (case modifier_bit (ke_key event) of
                 Some key_bit \<Rightarrow>
                   (case ke_type event of
                      KeyDown \<Rightarrow> state\<lparr>kr_modifiers := kr_modifiers state OR key_bit\<rparr>
                    | KeyUp \<Rightarrow> state\<lparr>kr_modifiers := kr_modifiers state AND NOT key_bit\<rparr>)
               | None \<Rightarrow> state)
            in send_keyboard_report state (b\<lparr>bk_keyboard_state := state\<rparr>))
         else
           (let state = state\<lparr>kr_modifiers := to_hid_byte (ke_modifiers event)\<rparr>;
                state = (case ke_type event of
                           KeyDown \<Rightarrow> snd (add_key usb_key state)
                         | KeyUp \<Rightarrow> remove_key usb_key state)
            in send_keyboard_report state (b\<lparr>bk_keyboard_state := state\<rparr>)))"

text \<open>\<open>event.x.clamp(-127, 127) as i8\<close> and
  \<open>((event.x.clamp(0, 32767) as u32) * CH9329_MOUSE_RESOLUTION / 32768) as u16\<close>\<close>

definition clamp_i32 :: "int \<Rightarrow> int \<Rightarrow> u32 \<Rightarrow> int" where
  "clamp_i32 lo hi x = (if sint x < lo then lo else if sint x > hi then hi else sint x)"

definition relative_delta :: "u32 \<Rightarrow> u8" where
  "relative_delta x = word_of_int (clamp_i32 (-127) 127 x)"

definition absolute_position :: "u32 \<Rightarrow> u16" where
  "absolute_position x =
     ucast ((word_of_int (clamp_i32 0 32767 x) * CH9329_MOUSE_RESOLUTION) div (32768 :: u32))"

text \<open>The report a button change or scroll sends, in the mode of the last movement.\<close>

definition send_mouse_state :: "u8 \<Rightarrow> u8 \<Rightarrow> unit backend_op" where
  "send_mouse_state buttons wheel b =
     (if bk_relative_mouse_active b then send_mouse_relative buttons 0 0 wheel b
      else send_mouse_absolute buttons (bk_last_abs_x b) (bk_last_abs_y b) wheel b)"

definition send_mouse :: "mouse_event \<Rightarrow> unit backend_op" where
  "send_mouse event b =
     (let buttons = bk_mouse_buttons b in
      case me_type event of
        MouseMove \<Rightarrow>
          send_mouse_relative buttons (relative_delta (me_x event)) (relative_delta (me_y event)) 0
            (b\<lparr>bk_relative_mouse_active := True\<rparr>)
      | MouseMoveAbs \<Rightarrow>
          (let x = absolute_position (me_x event); y = absolute_position (me_y event)
           in send_mouse_absolute buttons x y 0
                (b\<lparr>bk_relative_mouse_active := False, bk_last_abs_x := x, bk_last_abs_y := y\<rparr>))
      | MouseDown \<Rightarrow>
          (case me_button event of
             Some button \<Rightarrow>
               (let new_buttons = buttons OR to_hid_bit button
                in send_mouse_state new_buttons 0 (b\<lparr>bk_mouse_buttons := new_buttons\<rparr>))
           | None \<Rightarrow> (Inr (), b))
      | MouseUp \<Rightarrow>
          (case me_button event of
             Some button \<Rightarrow>
               (let new_buttons = buttons AND NOT (to_hid_bit button)
                in send_mouse_state new_buttons 0 (b\<lparr>bk_mouse_buttons := new_buttons\<rparr>))
           | None \<Rightarrow> (Inr (), b))
      | MouseScroll \<Rightarrow> send_mouse_state buttons (me_scroll event) b)"

definition reset_backend :: "unit backend_op" where
  "reset_backend =
     bindE (modifyE (\<lambda>b. b\<lparr>bk_keyboard_state := clear_report (bk_keyboard_state b)\<rparr>)) (\<lambda>_.
     bindE (getsE bk_keyboard_state) (\<lambda>report.
     bindE (send_keyboard_report report) (\<lambda>_.
     bindE (modifyE (\<lambda>b. b\<lparr>bk_mouse_buttons := 0, bk_last_abs_x := 0, bk_last_abs_y := 0,
                           bk_relative_mouse_active := False\<rparr>)) (\<lambda>_.
     bindE (send_mouse_absolute 0 0 0 0) (\<lambda>_.
       \<lambda>b. (Inr (), snd (release_media_keys b)))))))"

text \<open>Taking the sender out of its slot sends \<open>Shutdown\<close> after the queued commands; joining the
  thread waits until the worker has gone through them.\<close>

definition shutdown_backend :: "backend \<Rightarrow> ((app_error + unit) \<times> backend) option" where
  "shutdown_backend b0 =
     (let b1 = snd (enqueue_command ResetState b0);
          b2 = b1\<lparr>bk_worker_tx := None\<rparr>
      in case (case bk_worker_tx b1 of
                 None \<Rightarrow> Some (bk_worker b1)
               | Some queue \<Rightarrow> run_worker (map Command (queue @ [Shutdown])) (bk_worker b1)) of
           None \<Rightarrow> None
         | Some w \<Rightarrow>
             Some (Inr (),
               on_runtime clear_error (on_runtime (set_initialized False) (on_runtime set_offline
                 (b2\<lparr>bk_worker := w, bk_worker_handle := False\<rparr>)))))"

text \<open>How \<open>init\<close> fares with the thread: it cannot be spawned, the worker answers within
  \<open>INIT_WAIT_MS\<close>, or it answers too late and is told to shut down.\<close>

datatype init_outcome = SpawnFails string | InitAnswered | InitTimedOut

definition init_backend :: "init_outcome \<Rightarrow> backend \<Rightarrow> ((app_error + unit) \<times> backend) option" where
  "init_backend outcome b =
     (if bk_worker_handle b then Some (Inr (), b)
      else
        (case outcome of
           SpawnFails e \<Rightarrow> Some (Inl (InternalError (''Failed to spawn CH9329 worker: '' @ e)), b)
         | InitAnswered \<Rightarrow>
             (case worker_start (bk_worker b) of
                None \<Rightarrow> None
              | Some (Inr info, w) \<Rightarrow>
                  Some (Inr (), on_runtime set_online
                    (b\<lparr>bk_worker := w, bk_worker_tx := Some [], bk_worker_handle := True\<rparr>))
              | Some (Inl err, w) \<Rightarrow>
                  (let reason = ''CH9329 not responding on '' @ wk_port_path w @ '' @ ''
                         @ nat_to_string (unat (bk_baud_rate b)) @ '' baud: ''
                         @ app_error_display (HidError err)
                   in Some (Inl (InternalError reason),
                        record_error reason ''init_failed'' (b\<lparr>bk_worker := w\<rparr>))))
         | InitTimedOut \<Rightarrow>
             (case worker_start (bk_worker b) of
                None \<Rightarrow> None
              | Some (_, w) \<Rightarrow>
                  (case worker_step (Command Shutdown) w of
                     None \<Rightarrow> None
                   | Some w' \<Rightarrow>
                       Some (Inl (InternalError ''Timed out waiting for CH9329 initialization''),
                         record_error ''Timed out waiting for CH9329 worker init'' ''init_timeout''
                           (b\<lparr>bk_worker := w'\<rparr>))))))"

record runtime_snapshot =
  rs_initialized :: bool
  rs_online :: bool
  rs_supports_absolute_mouse :: bool
  rs_keyboard_leds_enabled :: bool
  rs_led_state :: led_status
  rs_screen_resolution :: "(u32 \<times> u32) option"
  rs_device :: "string option"
  rs_error :: "string option"
  rs_error_code :: "string option"

text \<open>\<open>compose\<close> and \<open>kana\<close> of the LED state are always off and left out.\<close>

text \<open>The snapshot that no write interrupts; the loads one by one are in \<open>Ch9329_Races\<close>.\<close>

definition runtime_snapshot_of :: "bool \<Rightarrow> backend \<Rightarrow> runtime_snapshot" where
  "runtime_snapshot_of port_exists b =
     (let r = wk_runtime (bk_worker b);
          initialized = rt_initialized r;
          online = (initialized \<and> rt_online r);
          missing = (initialized \<and> \<not> port_exists);
          error = (if missing
                   then Some (''Serial port '' @ wk_port_path (bk_worker b) @ '' not found'', ''port_not_found'')
                   else rt_last_error r)
      in \<lparr>rs_initialized = initialized, rs_online = (online \<and> \<not> missing),
          rs_supports_absolute_mouse = True, rs_keyboard_leds_enabled = True,
          rs_led_state = wk_led_status (bk_worker b),
          rs_screen_resolution = Some (bk_screen_width b, bk_screen_height b),
          rs_device = Some (wk_port_path (bk_worker b)),
          rs_error = map_option fst error, rs_error_code = map_option snd error\<rparr>)"

definition set_screen_resolution :: "u32 \<Rightarrow> u32 \<Rightarrow> backend \<Rightarrow> backend" where
  "set_screen_resolution width height b =
     on_runtime notify (b\<lparr>bk_screen_width := width, bk_screen_height := height\<rparr>)"

text \<open>The worker's turn: it receives the next command; with an empty queue its wait times out; a
  sender that is gone closes the channel.\<close>

definition worker_turn :: "backend \<Rightarrow> backend option" where
  "worker_turn b =
     (case bk_worker_tx b of
        None \<Rightarrow> map_option (\<lambda>w. b\<lparr>bk_worker := w\<rparr>) (worker_step RecvDisconnected (bk_worker b))
      | Some [] \<Rightarrow> map_option (\<lambda>w. b\<lparr>bk_worker := w\<rparr>) (worker_step RecvTimeout (bk_worker b))
      | Some (c # queue) \<Rightarrow>
          if wk_phase (bk_worker b) = Stopped then Some b
          else map_option (\<lambda>w. b\<lparr>bk_worker := w, bk_worker_tx := Some queue\<rparr>)
                 (worker_step (Command c) (bk_worker b)))"

section \<open>The worker's invariant\<close>

lemmas runtime_defs = notify_def clear_error_def set_online_def set_error_def set_initialized_def
  set_offline_def with_runtime_def Let_def

lemmas worker_defs = chip_answered_def update_chip_info_cache_def record_hid_error_def
  worker_break_def runtime_defs

definition led_of :: "chip_info \<Rightarrow> led_status" where
  "led_of info = \<lparr>led_num_lock = ci_num_lock info, led_caps_lock = ci_caps_lock info,
     led_scroll_lock = ci_scroll_lock info\<rparr>"

definition worker_ok :: "worker \<Rightarrow> bool" where
  "worker_ok w \<longleftrightarrow>
     (let r = wk_runtime w in
      (case wk_phase w of
         Running \<Rightarrow> rt_initialized r \<and> rt_online r \<and> rt_last_error r = None \<and> wk_chip_info w \<noteq> None
       | Reconnecting \<Rightarrow> rt_initialized r \<and> \<not> rt_online r \<and> rt_last_error r \<noteq> None
       | Stopped \<Rightarrow> \<not> rt_initialized r \<and> \<not> rt_online r)) \<and>
     (\<forall>info. wk_chip_info w = Some info \<longrightarrow> wk_led_status w = led_of info)"

fun command_ok :: "worker_command \<Rightarrow> bool" where
  "command_ok (Packet cmd data) = (length data \<le> MAX_DATA_LEN)"
| "command_ok _ = True"

fun recv_ok :: "recv_event \<Rightarrow> bool" where
  "recv_ok (Command c) = command_ok c"
| "recv_ok _ = True"

lemma write_packet_total: "length data \<le> MAX_DATA_LEN \<Longrightarrow> \<exists>x. write_packet a cmd data p = Some x"
  by (simp add: write_packet_def build_packet_eq)

lemma xfer_packet_total:
  "length data \<le> MAX_DATA_LEN \<Longrightarrow> \<exists>res p'. xfer_packet a cmd data p = Some (res, p')"
  by (auto simp: xfer_packet_def write_packet_def build_packet_eq Let_def split: option.split)

lemma query_total: "\<exists>res p'. query_chip_info_on_port a p = Some (res, p')"
proof -
  obtain res p' where "xfer_packet a GET_INFO [] p = Some (res, p')"
    using xfer_packet_total [of "[]" a GET_INFO p] by (auto simp: MAX_DATA_LEN_def)
  then show ?thesis
    by (cases res) (auto simp: query_chip_info_on_port_def split: option.split)
qed

lemma reset_total: "\<exists>p'. try_best_effort_reset a p = Some p'"
  using write_packet_total [of "[]" a RESET_CMD p] by (auto simp: try_best_effort_reset_def MAX_DATA_LEN_def)

lemma run_sequence_total:
  "\<forall>(c, d) \<in> set xs. length d \<le> MAX_DATA_LEN \<Longrightarrow> \<exists>e p'. run_sequence a xs p = Some (e, p')"
proof (induction xs arbitrary: p)
  case (Cons x xs)
  obtain c d where x: "x = (c, d)" by (cases x)
  then obtain res p' where "xfer_packet a c d p = Some (res, p')"
    using xfer_packet_total [of d a c p] Cons.prems by auto
  then show ?case using Cons x by (cases res) auto
qed simp

lemma reset_sequence_total: "\<exists>e p'. run_sequence a reset_sequence p = Some (e, p')"
  by (rule run_sequence_total) (simp add: reset_sequence_def MAX_DATA_LEN_def)

lemma open_and_query_cases:
  obtains (error) e where "open_and_query path a outcome = Some (Inl e)"
  | (opened) p info where "open_and_query path a outcome = Some (Inr (p, info))"
proof (cases "open_port path outcome")
  case (Inl e)
  then show thesis using error by (simp add: open_and_query_def)
next
  case (Inr p)
  obtain res p' where "query_chip_info_on_port a p = Some (res, p')" using query_total by blast
  then show thesis using Inr error opened by (cases res) (auto simp: open_and_query_def)
qed

lemma chip_answered_ok:
  "rt_initialized (wk_runtime w) \<Longrightarrow> wk_phase w = Running \<Longrightarrow> worker_ok (chip_answered info w)"
  by (simp add: worker_ok_def worker_defs led_of_def)

lemma lose_port_ok:
  assumes "worker_ok w" and "rt_initialized (wk_runtime w)"
  shows "\<exists>w'. lose_port e w = Some w' \<and> worker_ok w' \<and> wk_phase w' = Reconnecting"
proof -
  obtain p where "try_best_effort_reset (wk_address (record_hid_error e w)) (wk_port (record_hid_error e w)) = Some p"
    using reset_total by blast
  then show ?thesis using assms by (simp add: lose_port_def worker_ok_def worker_defs)
qed

lemma worker_break_ok: "worker_ok w \<Longrightarrow> worker_ok (worker_break w) \<and> wk_phase (worker_break w) = Stopped"
  by (simp add: worker_ok_def worker_defs)

lemma set_online_ok:
  "worker_ok w \<Longrightarrow> wk_phase w = Running \<Longrightarrow> worker_ok (with_runtime set_online w)"
  by (simp add: worker_ok_def worker_defs)

lemma worker_ok_port [simp]: "worker_ok (w\<lparr>wk_port := p\<rparr>) = worker_ok w"
  "worker_ok (w\<lparr>wk_opens := os\<rparr>) = worker_ok w"
  by (simp_all add: worker_ok_def Let_def split: worker_phase.split)

lemma worker_ok_Running: "worker_ok w \<Longrightarrow> wk_phase w = Running \<Longrightarrow> rt_initialized (wk_runtime w)"
  "worker_ok w \<Longrightarrow> wk_phase w = Reconnecting \<Longrightarrow> rt_initialized (wk_runtime w)"
  by (simp_all add: worker_ok_def Let_def)

definition stops :: "recv_event \<Rightarrow> bool" where
  "stops ev \<longleftrightarrow> ev = Command Shutdown \<or> ev = RecvDisconnected"

text \<open>One step: no panic, the invariant, and the phase stops exactly when told to.\<close>

lemma running_step_ok:
  assumes ok: "worker_ok w" and run: "wk_phase w = Running" and "recv_ok ev"
  shows "\<exists>w'. running_step ev w = Some w' \<and> worker_ok w' \<and> (wk_phase w' = Stopped \<longleftrightarrow> stops ev)"
proof -
  note init = worker_ok_Running(1) [OF ok run]
  have lose: "\<exists>w'. lose_port e (w\<lparr>wk_port := p\<rparr>) = Some w' \<and> worker_ok w' \<and> wk_phase w' \<noteq> Stopped" for e p
    using lose_port_ok [of "w\<lparr>wk_port := p\<rparr>" e] ok init by auto
  have online: "worker_ok (with_runtime set_online (w\<lparr>wk_port := p\<rparr>))"
    "wk_phase (with_runtime set_online (w\<lparr>wk_port := p\<rparr>)) = Running" for p
    using set_online_ok [of "w\<lparr>wk_port := p\<rparr>"] ok run by (simp_all add: with_runtime_def)
  have answered: "worker_ok (chip_answered info (w\<lparr>wk_port := p\<rparr>))"
    "wk_phase (chip_answered info (w\<lparr>wk_port := p\<rparr>)) = Running" for info p
    using chip_answered_ok [of "w\<lparr>wk_port := p\<rparr>" info] init run by (simp_all add: worker_defs)
  show ?thesis
  proof (cases ev)
    case (Command c)
    show ?thesis
    proof (cases c)
      case (Packet cmd data)
      then obtain res p where "xfer_packet (wk_address w) cmd data (wk_port w) = Some (res, p)"
        using xfer_packet_total [of data "wk_address w" cmd "wk_port w"] Command assms(3) by auto
      then show ?thesis using lose online Command Packet
        by (cases res) (auto simp: running_step_def stops_def)
    next
      case ResetState
      obtain res p where "run_sequence (wk_address w) reset_sequence (wk_port w) = Some (res, p)"
        using reset_sequence_total by blast
      then show ?thesis using lose online Command ResetState
        by (cases res) (auto simp: running_step_def stops_def)
    next
      case Shutdown
      then show ?thesis using Command worker_break_ok [OF ok] by (simp add: running_step_def stops_def)
    qed
  next
    case RecvTimeout
    obtain res p where "query_chip_info_on_port (wk_address w) (wk_port w) = Some (res, p)"
      using query_total by blast
    then show ?thesis using lose answered RecvTimeout
      by (cases res) (auto simp: running_step_def stops_def)
  next
    case RecvDisconnected
    then show ?thesis using worker_break_ok [OF ok] by (simp add: running_step_def stops_def)
  qed
qed

lemma reconnect_step_ok:
  assumes ok: "worker_ok w" and re: "wk_phase w = Reconnecting"
  shows "\<exists>w'. reconnect_step ev w = Some w' \<and> worker_ok w' \<and> (wk_phase w' = Stopped \<longleftrightarrow> stops ev)"
proof -
  note init = worker_ok_Running(2) [OF ok re]
  show ?thesis
  proof (cases ev)
    case (Command c)
    then show ?thesis using ok re worker_break_ok [OF ok]
      by (cases c) (simp_all add: reconnect_step_def stops_def)
  next
    case RecvTimeout
    let ?w = "w\<lparr>wk_opens := tl (wk_opens w)\<rparr>"
    show ?thesis
    proof (cases rule: open_and_query_cases [of "wk_port_path w" "wk_address w" "next_open w"])
      case (error e)
      have "worker_ok (record_hid_error e ?w) \<and> wk_phase (record_hid_error e ?w) = Reconnecting"
        using ok re by (simp add: worker_ok_def worker_defs)
      then show ?thesis using RecvTimeout error by (simp add: reconnect_step_def stops_def Let_def)
    next
      case (opened p info)
      let ?w' = "?w\<lparr>wk_port := p, wk_phase := Running\<rparr>"
      have "worker_ok (chip_answered info ?w')" "wk_phase (chip_answered info ?w') = Running"
        using chip_answered_ok [of ?w' info] init by (simp_all add: worker_defs)
      then show ?thesis using RecvTimeout opened by (simp add: reconnect_step_def stops_def Let_def)
    qed
  next
    case RecvDisconnected
    then show ?thesis using worker_break_ok [OF ok] by (simp add: reconnect_step_def stops_def)
  qed
qed

lemma worker_step_ok:
  assumes "worker_ok w" and "recv_ok ev"
  shows "\<exists>w'. worker_step ev w = Some w' \<and> worker_ok w' \<and>
    (wk_phase w' = Stopped \<longleftrightarrow> wk_phase w = Stopped \<or> stops ev)"
  using assms running_step_ok [of w ev] reconnect_step_ok [of w ev]
  by (cases "wk_phase w") (auto simp: worker_step_def)

lemma run_worker_ok:
  "worker_ok w \<Longrightarrow> \<forall>ev \<in> set evs. recv_ok ev \<Longrightarrow>
    \<exists>w'. run_worker evs w = Some w' \<and> worker_ok w' \<and>
      (wk_phase w' = Stopped \<longleftrightarrow> wk_phase w = Stopped \<or> (\<exists>ev \<in> set evs. stops ev))"
proof (induction evs arbitrary: w)
  case (Cons ev evs)
  from worker_step_ok [of w ev] Cons.prems obtain w' where w': "worker_step ev w = Some w'" "worker_ok w'"
    "wk_phase w' = Stopped \<longleftrightarrow> wk_phase w = Stopped \<or> stops ev" by auto
  with Cons.IH [of w'] Cons.prems show ?case by auto
qed simp

lemma worker_start_ok:
  assumes "worker_ok w"
  shows "\<exists>res w'. worker_start w = Some (res, w') \<and> worker_ok w' \<and>
    (case res of Inl e \<Rightarrow> wk_phase w' = Stopped | Inr info \<Rightarrow> wk_phase w' = Running)"
proof -
  let ?w1 = "with_runtime (set_initialized True) w"
  let ?w2 = "?w1\<lparr>wk_opens := tl (wk_opens ?w1)\<rparr>"
  show ?thesis
  proof (cases rule: open_and_query_cases [of "wk_port_path ?w1" "wk_address ?w1" "next_open ?w1"])
    case (error e)
    let ?w' = "with_runtime (set_initialized False) (record_hid_error e (?w2\<lparr>wk_phase := Stopped\<rparr>))"
    have "worker_ok ?w'" "wk_phase ?w' = Stopped" using assms by (simp_all add: worker_ok_def worker_defs)
    then show ?thesis using error by (simp add: worker_start_def Let_def)
  next
    case (opened p info)
    let ?w' = "?w2\<lparr>wk_port := p, wk_phase := Running\<rparr>"
    have "worker_ok (chip_answered info ?w')" "wk_phase (chip_answered info ?w') = Running"
      using chip_answered_ok [of ?w' info] by (simp_all add: worker_defs)
    then show ?thesis using opened by (simp add: worker_start_def Let_def)
  qed
qed

section \<open>Reachable backends\<close>

datatype api_event =
    ApiInit init_outcome
  | ApiKeyboard keyboard_event
  | ApiMouse mouse_event
  | ApiMedia bytes
  | ApiReset
  | ApiShutdown
  | ApiResolution u32 u32
  | WorkerTurn

fun backend_step :: "api_event \<Rightarrow> backend \<Rightarrow> backend option" where
  "backend_step (ApiInit outcome) b = map_option snd (init_backend outcome b)"
| "backend_step (ApiKeyboard ev) b = Some (snd (send_keyboard ev b))"
| "backend_step (ApiMouse ev) b = Some (snd (send_mouse ev b))"
| "backend_step (ApiMedia data) b = Some (snd (send_media_key data b))"
| "backend_step ApiReset b = Some (snd (reset_backend b))"
| "backend_step ApiShutdown b = map_option snd (shutdown_backend b)"
| "backend_step (ApiResolution x y) b = Some (set_screen_resolution x y b)"
| "backend_step WorkerTurn b = worker_turn b"

inductive reachable_backend :: "string \<Rightarrow> u32 \<Rightarrow> open_result list \<Rightarrow> backend \<Rightarrow> bool"
  for path baud opens where
  fresh: "reachable_backend path baud opens (with_baud_rate path baud opens)"
| step: "reachable_backend path baud opens b \<Longrightarrow> backend_step ev b = Some b' \<Longrightarrow>
    reachable_backend path baud opens b'"

inductive_cases reachable_stepE: "reachable_backend path baud opens b"

definition queue_ok :: "worker_command list \<Rightarrow> bool" where
  "queue_ok q \<longleftrightarrow> (\<forall>c \<in> set q. command_ok c \<and> c \<noteq> Shutdown)"

fun channel_ok :: "bool \<Rightarrow> worker_command list option \<Rightarrow> bool" where
  "channel_ok handle None = (\<not> handle)"
| "channel_ok handle (Some q) = (handle \<and> queue_ok q)"

definition backend_ok :: "backend \<Rightarrow> bool" where
  "backend_ok b \<longleftrightarrow>
     worker_ok (bk_worker b) \<and> wf_report (bk_keyboard_state b) \<and>
     bk_last_abs_x b < 4096 \<and> bk_last_abs_y b < 4096 \<and>
     (wk_phase (bk_worker b) = Stopped \<longleftrightarrow> \<not> bk_worker_handle b) \<and>
     channel_ok (bk_worker_handle b) (bk_worker_tx b)"

lemma worker_ok_stopped_error:
  "worker_ok w \<Longrightarrow> wk_phase w = Stopped \<Longrightarrow> worker_ok (with_runtime (set_error r c) w)"
  by (simp add: worker_ok_def worker_defs)

lemma worker_ok_notify [simp]: "worker_ok (with_runtime notify w) = worker_ok w"
  by (simp add: worker_ok_def worker_defs split: worker_phase.split)

lemma phase_with_runtime [simp]: "wk_phase (with_runtime f w) = wk_phase w"
  by (simp add: with_runtime_def)

lemma enqueue_command_ok:
  assumes "backend_ok b" and "command_ok c" and "c \<noteq> Shutdown"
  shows "backend_ok (snd (enqueue_command c b)) \<and>
    (case bk_worker_tx b of
       None \<Rightarrow> \<exists>e. fst (enqueue_command c b) = Inl (HidError e) \<and> he_code e = ''worker_stopped'' \<and>
         bk_worker_tx (snd (enqueue_command c b)) = None
     | Some q \<Rightarrow> enqueue_command c b = (Inr (), b\<lparr>bk_worker_tx := Some (q @ [c])\<rparr>))"
proof (cases "bk_worker_tx b")
  case None
  with assms(1) have "worker_ok (bk_worker b)" "wk_phase (bk_worker b) = Stopped"
    by (auto simp: backend_ok_def)
  then have "worker_ok (with_runtime (set_error r c) (bk_worker b))" for r c
    by (rule worker_ok_stopped_error)
  with None assms(1) \<open>wk_phase (bk_worker b) = Stopped\<close> show ?thesis
    by (simp add: enqueue_command_def record_error_def on_runtime_def backend_ok_def backend_error_def)
next
  case (Some q)
  with assms show ?thesis
    by (auto simp: enqueue_command_def backend_ok_def queue_ok_def)
qed

lemma send_packet_ok:
  "backend_ok b \<Longrightarrow> length data \<le> 64 \<Longrightarrow> backend_ok (snd (send_packet cmd data b))"
  using enqueue_command_ok [of b "Packet cmd data"] by (simp add: send_packet_def MAX_DATA_LEN_def)

lemma send_keyboard_report_ok: "backend_ok b \<Longrightarrow> backend_ok (snd (send_keyboard_report r b))"
  by (simp add: send_keyboard_report_def send_packet_ok keyboard_report_to_bytes_def)

lemma send_media_key_ok: "backend_ok b \<Longrightarrow> backend_ok (snd (send_media_key data b))"
  by (simp add: send_media_key_def send_packet_ok throwE_def)

lemma send_mouse_relative_ok: "backend_ok b \<Longrightarrow> backend_ok (snd (send_mouse_relative x y z w b))"
  by (simp add: send_mouse_relative_def send_packet_ok)

lemma send_mouse_absolute_ok: "backend_ok b \<Longrightarrow> backend_ok (snd (send_mouse_absolute x y z w b))"
  by (simp add: send_mouse_absolute_def send_packet_ok)

lemma send_mouse_state_ok: "backend_ok b \<Longrightarrow> backend_ok (snd (send_mouse_state x w b))"
  by (simp add: send_mouse_state_def send_mouse_absolute_ok send_mouse_relative_ok)

lemma clamp_range: "lo \<le> hi \<Longrightarrow> lo \<le> clamp_i32 lo hi x \<and> clamp_i32 lo hi x \<le> hi"
  by (simp add: clamp_i32_def)

lemma absolute_position_unat:
  "unat (absolute_position x) = nat (clamp_i32 0 32767 x) div 8"
proof -
  let ?c = "nat (clamp_i32 0 32767 x)"
  have c: "?c \<le> 32767" "clamp_i32 0 32767 x = int ?c" using clamp_range [of 0 32767 x] by auto
  have "unat (of_nat ?c :: u32) = ?c" using c(1) by (simp add: unat_of_nat)
  moreover have "unat (of_nat ?c * 4096 :: u32) = ?c * 4096"
    using c(1) by (simp add: unat_word_ariths(2) unat_of_nat)
  ultimately have "unat ((of_nat ?c * 4096) div (32768 :: u32)) = ?c * 4096 div 32768"
    by (simp add: unat_div)
  also have "\<dots> = ?c div 8" by simp
  finally have d: "unat ((of_nat ?c * 4096) div (32768 :: u32)) = ?c div 8" .
  have "word_of_int (clamp_i32 0 32767 x) = (of_nat ?c :: u32)"
    using clamp_range [of 0 32767 x] by (simp add: of_nat_nat)
  moreover have "?c div 8 < 65536" using c(1) by simp
  ultimately show ?thesis using d
    by (simp add: absolute_position_def CH9329_MOUSE_RESOLUTION_def unsigned_ucast_eq take_bit_eq_mod)
qed

lemma absolute_position_less: "absolute_position x < 4096"
proof -
  have "unat (absolute_position x) < 4096"
    using clamp_range [of 0 32767 x] unfolding absolute_position_unat
    by (intro less_mult_imp_div_less) linarith
  then show ?thesis by (simp add: word_less_nat_alt)
qed

lemma reset_backend_ok: "backend_ok b \<Longrightarrow> backend_ok (snd (reset_backend b))"
proof -
  assume b: "backend_ok b"
  let ?b1 = "b\<lparr>bk_keyboard_state := clear_report (bk_keyboard_state b)\<rparr>"
  let ?m = "\<lambda>b. b\<lparr>bk_mouse_buttons := 0, bk_last_abs_x := 0, bk_last_abs_y := 0,
                  bk_relative_mouse_active := False\<rparr>"
  have b1: "backend_ok ?b1" using b by (simp add: backend_ok_def wf_clear_report)
  have m: "backend_ok (?m b)" if "backend_ok b" for b using that by (simp add: backend_ok_def)
  obtain r2 b2 where s2: "send_keyboard_report (bk_keyboard_state ?b1) ?b1 = (r2, b2)"
    by (cases "send_keyboard_report (bk_keyboard_state ?b1) ?b1")
  then have b2: "backend_ok b2" using send_keyboard_report_ok [OF b1] by (metis snd_conv)
  show ?thesis
  proof (cases r2)
    case (Inl e)
    with s2 b2 show ?thesis by (simp add: reset_backend_def bindE_def modifyE_def getsE_def)
  next
    case (Inr u)
    obtain r3 b3 where s3: "send_mouse_absolute 0 0 0 0 (?m b2) = (r3, b3)"
      by (cases "send_mouse_absolute 0 0 0 0 (?m b2)")
    then have b3: "backend_ok b3" using send_mouse_absolute_ok [OF m [OF b2]] by (metis snd_conv)
    then have "backend_ok (snd (release_media_keys b3))"
      by (simp add: release_media_keys_def send_media_key_ok)
    with s2 s3 b3 Inr show ?thesis
      by (cases r3) (simp_all add: reset_backend_def bindE_def modifyE_def getsE_def)
  qed
qed

lemma send_keyboard_ok: "backend_ok b \<Longrightarrow> backend_ok (snd (send_keyboard ev b))"
proof -
  assume b: "backend_ok b"
  have wf: "backend_ok (b\<lparr>bk_keyboard_state := r\<rparr>)" if "wf_report r" for r
    using b that by (simp add: backend_ok_def)
  have mods: "wf_report (r\<lparr>kr_modifiers := m\<rparr>) = wf_report r" for r m by (simp add: wf_report_def)
  have r: "wf_report (bk_keyboard_state b)" using b by (simp add: backend_ok_def)
  show ?thesis
    by (auto simp: send_keyboard_def Let_def mods r add_key_spec remove_key_spec to_hid_usage_nonzero
        intro!: send_keyboard_report_ok wf b split: option.split key_event_type.split)
qed

lemma send_mouse_ok: "backend_ok b \<Longrightarrow> backend_ok (snd (send_mouse ev b))"
proof -
  assume b: "backend_ok b"
  have "backend_ok (b\<lparr>bk_mouse_buttons := x\<rparr>)" "backend_ok (b\<lparr>bk_relative_mouse_active := r\<rparr>)"
    "backend_ok (b\<lparr>bk_relative_mouse_active := r, bk_last_abs_x := absolute_position p,
       bk_last_abs_y := absolute_position q\<rparr>)" for x r p q
    using b absolute_position_less by (simp_all add: backend_ok_def)
  with b show ?thesis
    by (simp add: send_mouse_def Let_def send_mouse_state_ok send_mouse_relative_ok
        send_mouse_absolute_ok split: mouse_event_type.split option.split)
qed

lemma run_shutdown:
  assumes "worker_ok w" and "queue_ok q"
  shows "\<exists>w'. run_worker (map Command (q @ [Shutdown])) w = Some w' \<and> worker_ok w' \<and> wk_phase w' = Stopped"
proof -
  have "\<forall>ev \<in> set (map Command (q @ [Shutdown])). recv_ok ev"
    using assms(2) by (auto simp: queue_ok_def)
  from run_worker_ok [OF assms(1) this] show ?thesis by (auto simp: stops_def)
qed

lemma shutdown_backend_ok:
  assumes "backend_ok b"
  shows "\<exists>b'. shutdown_backend b = Some (Inr (), b') \<and> backend_ok b' \<and> bk_worker_tx b' = None \<and>
    rt_last_error (wk_runtime (bk_worker b')) = None"
proof -
  let ?b1 = "snd (enqueue_command ResetState b)"
  have b1: "backend_ok ?b1" using enqueue_command_ok [of b ResetState] assms by simp
  have "\<exists>w. (case bk_worker_tx ?b1 of None \<Rightarrow> Some (bk_worker ?b1)
      | Some queue \<Rightarrow> run_worker (map Command (queue @ [Shutdown])) (bk_worker ?b1)) = Some w \<and>
      worker_ok w \<and> wk_phase w = Stopped"
  proof (cases "bk_worker_tx ?b1")
    case None
    with b1 show ?thesis by (simp add: backend_ok_def)
  next
    case (Some q)
    with b1 run_shutdown [of "bk_worker ?b1" q] show ?thesis by (simp add: backend_ok_def)
  qed
  then obtain w where w: "(case bk_worker_tx ?b1 of None \<Rightarrow> Some (bk_worker ?b1)
      | Some queue \<Rightarrow> run_worker (map Command (queue @ [Shutdown])) (bk_worker ?b1)) = Some w"
      "worker_ok w" "wk_phase w = Stopped" by blast
  let ?b' = "on_runtime clear_error (on_runtime (set_initialized False) (on_runtime set_offline
                 (?b1\<lparr>bk_worker_tx := None, bk_worker := w, bk_worker_handle := False\<rparr>)))"
  have "backend_ok ?b'" using b1 w(2,3)
    by (simp add: backend_ok_def on_runtime_def worker_ok_def runtime_defs)
  moreover have "rt_last_error (wk_runtime (bk_worker ?b')) = None"
    by (cases "rt_last_error (wk_runtime w)") (simp_all add: on_runtime_def runtime_defs)
  ultimately show ?thesis using w(1) by (simp add: shutdown_backend_def Let_def on_runtime_def)
qed

lemma init_backend_ok:
  assumes "backend_ok b"
  shows "\<exists>res b'. init_backend outcome b = Some (res, b') \<and> backend_ok b' \<and>
    (res = Inr () \<longleftrightarrow> bk_worker_handle b')"
proof (cases "bk_worker_handle b")
  case True
  with assms show ?thesis by (simp add: init_backend_def)
next
  case False
  then have tx: "bk_worker_tx b = None" and ok: "worker_ok (bk_worker b)"
    using assms by (cases "bk_worker_tx b"; simp add: backend_ok_def)+
  obtain res w where w: "worker_start (bk_worker b) = Some (res, w)" "worker_ok w"
    "case res of Inl e \<Rightarrow> wk_phase w = Stopped | Inr info \<Rightarrow> wk_phase w = Running"
    using worker_start_ok [OF ok] by blast
  have stopped: "backend_ok (record_error r c (b\<lparr>bk_worker := w\<rparr>))"
    if "worker_ok w" "wk_phase w = Stopped" for r c w
    using assms that tx False worker_ok_stopped_error [OF that]
    by (simp add: backend_ok_def record_error_def on_runtime_def)
  have handle: "bk_worker_handle (record_error r c (b\<lparr>bk_worker := w\<rparr>)) = False" for r c w
    using False by (simp add: record_error_def on_runtime_def)
  show ?thesis
  proof (cases outcome)
    case (SpawnFails e)
    with assms False show ?thesis by (simp add: init_backend_def)
  next
    case InitAnswered
    show ?thesis
    proof (cases res)
      case (Inl e)
      with w InitAnswered False stopped handle show ?thesis by (simp add: init_backend_def Let_def)
    next
      case (Inr info)
      let ?b = "on_runtime set_online (b\<lparr>bk_worker := w, bk_worker_tx := Some [], bk_worker_handle := True\<rparr>)"
      have "backend_ok ?b" using assms w Inr set_online_ok [of w]
        by (simp add: backend_ok_def on_runtime_def queue_ok_def)
      with w Inr InitAnswered False show ?thesis by (simp add: init_backend_def on_runtime_def)
    qed
  next
    case InitTimedOut
    obtain w' where "worker_step (Command Shutdown) w = Some w'" "worker_ok w'" "wk_phase w' = Stopped"
      using worker_step_ok [OF w(2), of "Command Shutdown"] by (auto simp: stops_def)
    with w InitTimedOut False stopped handle show ?thesis by (simp add: init_backend_def Let_def)
  qed
qed

lemma worker_turn_ok:
  assumes "backend_ok b"
  shows "\<exists>b'. worker_turn b = Some b' \<and> backend_ok b'"
proof (cases "bk_worker_tx b")
  case None
  with assms have "wk_phase (bk_worker b) = Stopped" by (simp add: backend_ok_def)
  then have "worker_step ev (bk_worker b) = Some (bk_worker b)" for ev
    by (simp add: worker_step_def)
  with None assms show ?thesis by (simp add: worker_turn_def)
next
  case (Some q)
  with assms have q: "queue_ok q" and ok: "worker_ok (bk_worker b)" and run: "wk_phase (bk_worker b) \<noteq> Stopped"
    and h: "bk_worker_handle b" by (auto simp: backend_ok_def)
  have step: "\<exists>w'. worker_step ev (bk_worker b) = Some w' \<and> worker_ok w' \<and> wk_phase w' \<noteq> Stopped"
    if "recv_ok ev" "\<not> stops ev" for ev
    using worker_step_ok [OF ok that(1)] that(2) run by auto
  show ?thesis
  proof (cases q)
    case Nil
    from step [of RecvTimeout] show ?thesis using Nil Some assms h
      by (auto simp: worker_turn_def stops_def backend_ok_def)
  next
    case (Cons c q')
    with q step [of "Command c"] show ?thesis using Some assms h run
      by (auto simp: worker_turn_def stops_def backend_ok_def queue_ok_def)
  qed
qed

lemma backend_step_ok: "backend_ok b \<Longrightarrow> \<exists>b'. backend_step ev b = Some b' \<and> backend_ok b'"
proof (cases ev)
  case (ApiInit outcome)
  assume "backend_ok b"
  from init_backend_ok [OF this, of outcome] show ?thesis using ApiInit by auto
next
  case ApiShutdown
  assume "backend_ok b"
  from shutdown_backend_ok [OF this] show ?thesis using ApiShutdown by auto
next
  case (ApiResolution x y)
  assume "backend_ok b"
  then show ?thesis using ApiResolution
    by (simp add: set_screen_resolution_def on_runtime_def backend_ok_def)
qed (simp_all add: send_keyboard_ok send_mouse_ok send_media_key_ok reset_backend_ok worker_turn_ok)

lemma reachable_backend_ok: "reachable_backend path baud opens b \<Longrightarrow> backend_ok b"
proof (induction rule: reachable_backend.induct)
  case fresh
  show ?case
    by (simp add: backend_ok_def with_baud_rate_def worker_ok_def runtime_new_def wf_report_default)
next
  case (step b ev b')
  then show ?case using backend_step_ok [of b ev] by auto
qed

section \<open>Every visible change is announced\<close>

text \<open>What a subscriber can see of the worker, of the backend, and that a step changes it only
  together with a notification.\<close>

definition worker_view :: "worker \<Rightarrow> bool \<times> bool \<times> (string \<times> string) option \<times> led_status \<times> string" where
  "worker_view w = (rt_initialized (wk_runtime w), rt_online (wk_runtime w),
     rt_last_error (wk_runtime w), wk_led_status w, wk_port_path w)"

definition announces :: "worker \<Rightarrow> worker \<Rightarrow> bool" where
  "announces w w' \<longleftrightarrow> rt_notified (wk_runtime w) \<le> rt_notified (wk_runtime w') \<and>
     (worker_view w \<noteq> worker_view w' \<longrightarrow> rt_notified (wk_runtime w) < rt_notified (wk_runtime w'))"

definition backend_announces :: "backend \<Rightarrow> backend \<Rightarrow> bool" where
  "backend_announces b b' \<longleftrightarrow> announces (bk_worker b) (bk_worker b') \<and>
     ((bk_screen_width b, bk_screen_height b) \<noteq> (bk_screen_width b', bk_screen_height b') \<longrightarrow>
      rt_notified (wk_runtime (bk_worker b)) < rt_notified (wk_runtime (bk_worker b')))"

lemma announces_refl [simp]: "announces w w"
  by (simp add: announces_def)

lemma announces_trans [trans]: "announces w w' \<Longrightarrow> announces w' w'' \<Longrightarrow> announces w w''"
  by (auto simp: announces_def)

lemma announces_runtime [simp]:
  "announces w (with_runtime notify w)" "announces w (with_runtime clear_error w)"
  "announces w (with_runtime set_online w)" "announces w (with_runtime (set_error r c) w)"
  "announces w (with_runtime (set_initialized i) w)" "announces w (with_runtime set_offline w)"
  by (auto simp: announces_def worker_view_def runtime_defs)

lemma announces_other [simp]:
  "announces w (w'\<lparr>wk_port := p\<rparr>) = announces w w'"
  "announces w (w'\<lparr>wk_phase := ph\<rparr>) = announces w w'"
  "announces w (w'\<lparr>wk_opens := os\<rparr>) = announces w w'"
  by (simp_all add: announces_def worker_view_def)

lemma announces_from:
  "announces (w\<lparr>wk_port := p\<rparr>) w' \<Longrightarrow> announces w w'"
  "announces (w\<lparr>wk_phase := ph\<rparr>) w' \<Longrightarrow> announces w w'"
  "announces (w\<lparr>wk_opens := os\<rparr>) w' \<Longrightarrow> announces w w'"
  by (simp_all add: announces_def worker_view_def)

lemma announces_chip_answered: "announces w (chip_answered info w)"
  by (auto simp: announces_def worker_view_def worker_defs)

lemma announces_record_hid_error: "announces w (record_hid_error e w)"
  by (simp add: record_hid_error_def)

lemma announces_worker_break: "announces w (worker_break w)"
proof -
  have "announces w (with_runtime set_offline (w\<lparr>wk_phase := Stopped\<rparr>))"
    by (rule announces_from(2) [where ph = Stopped]) simp
  also have "announces \<dots> (worker_break w)" by (simp add: worker_break_def)
  finally show ?thesis .
qed

lemma announces_lose_port: "lose_port e w = Some w' \<Longrightarrow> announces w w'"
  by (auto simp: lose_port_def Let_def announces_record_hid_error split: option.splits)

lemma announces_chip_answered_port:
  "announces w (chip_answered info (w\<lparr>wk_port := p\<rparr>))"
  "announces w (chip_answered info (w\<lparr>wk_opens := os, wk_port := p, wk_phase := ph\<rparr>))"
  by (rule announces_trans [OF _ announces_chip_answered], simp)+

lemma announces_lose_port_port: "lose_port e (w\<lparr>wk_port := p\<rparr>) = Some w' \<Longrightarrow> announces w w'"
  by (rule announces_from(1) [where p = p]) (rule announces_lose_port)

lemma announces_set_online_port: "announces w (with_runtime set_online (w\<lparr>wk_port := p\<rparr>))"
  by (rule announces_from(1) [where p = p]) simp

lemma announces_record_opens: "announces w (record_hid_error e (w\<lparr>wk_opens := os\<rparr>))"
  by (rule announces_from(3) [where os = os]) (rule announces_record_hid_error)

lemmas announces_steps = announces_worker_break announces_chip_answered_port
  announces_lose_port_port announces_set_online_port announces_record_opens

lemma announces_running: "running_step ev w = Some w' \<Longrightarrow> announces w w'"
  by (auto simp: running_step_def announces_steps
      split: recv_event.splits worker_command.splits option.splits sum.splits prod.splits
      dest: announces_lose_port_port)

lemma announces_reconnect: "reconnect_step ev w = Some w' \<Longrightarrow> announces w w'"
  by (auto simp: reconnect_step_def announces_steps Let_def
      split: recv_event.splits worker_command.splits option.splits sum.splits prod.splits)

lemma announces_step: "worker_step ev w = Some w' \<Longrightarrow> announces w w'"
  by (auto simp: worker_step_def announces_running announces_reconnect split: worker_phase.splits)

lemma announces_run: "run_worker evs w = Some w' \<Longrightarrow> announces w w'"
  by (induction evs w rule: run_worker.induct)
    (auto split: option.splits dest: announces_step announces_trans)

lemma announces_start: "worker_start w = Some (res, w') \<Longrightarrow> announces w w'"
proof -
  assume start: "worker_start w = Some (res, w')"
  let ?w1 = "with_runtime (set_initialized True) w"
  have "announces w ?w1" by simp
  also have "announces ?w1 w'"
  proof (cases rule: open_and_query_cases [of "wk_port_path ?w1" "wk_address ?w1" "next_open ?w1"])
    case (error e)
    let ?w2 = "record_hid_error e (?w1\<lparr>wk_opens := tl (wk_opens ?w1), wk_phase := Stopped\<rparr>)"
    have "announces ?w1 ?w2"
      by (rule announces_trans [OF _ announces_record_hid_error]) simp
    also have "announces ?w2 (with_runtime (set_initialized False) ?w2)" by simp
    also have "with_runtime (set_initialized False) ?w2 = w'"
      using start error by (simp add: worker_start_def Let_def)
    finally show ?thesis .
  next
    case (opened p info)
    then show ?thesis using start by (auto simp: worker_start_def Let_def announces_chip_answered_port)
  qed
  finally show ?thesis .
qed

lemma backend_announces_refl [simp]: "backend_announces b b"
  by (simp add: backend_announces_def)

lemma backend_announces_trans [trans]:
  "backend_announces b b' \<Longrightarrow> backend_announces b' b'' \<Longrightarrow> backend_announces b b''"
  by (auto simp: backend_announces_def announces_def)

lemma runtime_snapshot_cong:
  "worker_view (bk_worker b) = worker_view (bk_worker b') \<Longrightarrow>
     bk_screen_width b = bk_screen_width b' \<Longrightarrow> bk_screen_height b = bk_screen_height b' \<Longrightarrow>
     runtime_snapshot_of pe b = runtime_snapshot_of pe b'"
  by (simp add: worker_view_def runtime_snapshot_of_def Let_def)

lemma backend_announces_snapshot:
  "backend_announces b b' \<Longrightarrow> runtime_snapshot_of pe b \<noteq> runtime_snapshot_of pe b' \<Longrightarrow>
     rt_notified (wk_runtime (bk_worker b)) < rt_notified (wk_runtime (bk_worker b'))"
  using runtime_snapshot_cong [of b b' pe] unfolding backend_announces_def announces_def by blast

lemma backend_announces_other [simp]:
  "backend_announces b (b'\<lparr>bk_worker_tx := tx\<rparr>) = backend_announces b b'"
  "backend_announces b (b'\<lparr>bk_worker_handle := h\<rparr>) = backend_announces b b'"
  "backend_announces b (b'\<lparr>bk_keyboard_state := k\<rparr>) = backend_announces b b'"
  "backend_announces b (b'\<lparr>bk_mouse_buttons := m\<rparr>) = backend_announces b b'"
  "backend_announces b (b'\<lparr>bk_last_abs_x := x\<rparr>) = backend_announces b b'"
  "backend_announces b (b'\<lparr>bk_last_abs_y := x\<rparr>) = backend_announces b b'"
  "backend_announces b (b'\<lparr>bk_relative_mouse_active := r\<rparr>) = backend_announces b b'"
  "backend_announces b (b\<lparr>bk_worker := w\<rparr>) = announces (bk_worker b) w"
  by (simp_all add: backend_announces_def)

lemma backend_announces_enqueue: "backend_announces b b' \<Longrightarrow> backend_announces b (snd (enqueue_command c b'))"
proof -
  have "backend_announces b' (snd (enqueue_command c b'))"
    by (simp add: enqueue_command_def record_error_def on_runtime_def split: option.split)
  then show "backend_announces b b' \<Longrightarrow> ?thesis" by (rule backend_announces_trans [rotated])
qed

lemma backend_announces_sends:
  assumes "backend_announces b b'"
  shows "backend_announces b (snd (send_packet c d b'))"
    and "backend_announces b (snd (send_media_key d b'))"
    and "backend_announces b (snd (release_media_keys b'))"
    and "backend_announces b (snd (send_keyboard_report r b'))"
    and "backend_announces b (snd (send_mouse_relative w x y z b'))"
    and "backend_announces b (snd (send_mouse_absolute w p q z b'))"
    and "backend_announces b (snd (send_mouse_state w z b'))"
  using assms backend_announces_enqueue
  by (simp_all add: send_packet_def send_media_key_def release_media_keys_def throwE_def
      send_keyboard_report_def send_mouse_relative_def send_mouse_absolute_def send_mouse_state_def)

lemma backend_announces_keyboard: "backend_announces b (snd (send_keyboard ev b))"
  by (simp add: send_keyboard_def Let_def backend_announces_sends)

lemma backend_announces_mouse: "backend_announces b (snd (send_mouse ev b))"
  by (simp add: send_mouse_def Let_def backend_announces_sends split: mouse_event_type.split option.split)

lemma backend_announces_reset: "backend_announces b (snd (reset_backend b))"
proof -
  let ?b1 = "b\<lparr>bk_keyboard_state := clear_report (bk_keyboard_state b)\<rparr>"
  let ?m = "\<lambda>b. b\<lparr>bk_mouse_buttons := 0, bk_last_abs_x := 0, bk_last_abs_y := 0,
                  bk_relative_mouse_active := False\<rparr>"
  obtain r2 b2 where s2: "send_keyboard_report (bk_keyboard_state ?b1) ?b1 = (r2, b2)"
    by (cases "send_keyboard_report (bk_keyboard_state ?b1) ?b1")
  then have b2: "backend_announces b b2" using backend_announces_sends(4) [of b ?b1]
    by (metis backend_announces_other(3) backend_announces_refl snd_conv)
  obtain r3 b3 where s3: "send_mouse_absolute 0 0 0 0 (?m b2) = (r3, b3)"
    by (cases "send_mouse_absolute 0 0 0 0 (?m b2)")
  have "backend_announces b (?m b2)" using b2 by simp
  then have b3: "backend_announces b b3" using backend_announces_sends(6) s3 by (metis snd_conv)
  show ?thesis using s2 s3 b2 b3 backend_announces_sends(3) [OF b3]
    by (cases r2; cases r3) (simp_all add: reset_backend_def bindE_def modifyE_def getsE_def)
qed

lemma backend_announces_on_runtime:
  "(\<And>w. announces w (with_runtime f w)) \<Longrightarrow> backend_announces b b' \<Longrightarrow> backend_announces b (on_runtime f b')"
  unfolding on_runtime_def by (rule backend_announces_trans, assumption) simp

lemma backend_announces_worker:
  "backend_announces b b' \<Longrightarrow> announces (bk_worker b') w \<Longrightarrow> backend_announces b (b'\<lparr>bk_worker := w\<rparr>)"
  by (rule backend_announces_trans, assumption) simp

lemma backend_announces_shutdown: "shutdown_backend b = Some (res, b') \<Longrightarrow> backend_announces b b'"
proof -
  assume shut: "shutdown_backend b = Some (res, b')"
  let ?b1 = "snd (enqueue_command ResetState b)"
  have b1: "backend_announces b ?b1" by (simp add: backend_announces_enqueue)
  obtain w where w: "(case bk_worker_tx ?b1 of None \<Rightarrow> Some (bk_worker ?b1)
      | Some queue \<Rightarrow> run_worker (map Command (queue @ [Shutdown])) (bk_worker ?b1)) = Some w"
    and b': "b' = on_runtime clear_error (on_runtime (set_initialized False) (on_runtime set_offline
                 (?b1\<lparr>bk_worker_tx := None, bk_worker := w, bk_worker_handle := False\<rparr>)))"
    using shut by (auto simp: shutdown_backend_def Let_def split: option.splits)
  have "announces (bk_worker ?b1) w"
    using w announces_run by (cases "bk_worker_tx ?b1") auto
  with b1 have "backend_announces b (?b1\<lparr>bk_worker_tx := None, bk_worker := w, bk_worker_handle := False\<rparr>)"
    using backend_announces_worker [of b "?b1\<lparr>bk_worker_tx := None\<rparr>" w] by simp
  then show ?thesis unfolding b'
    by (intro backend_announces_on_runtime) simp_all
qed

lemma backend_announces_init: "init_backend outcome b = Some (res, b') \<Longrightarrow> backend_announces b b'"
proof (cases "bk_worker_handle b")
  case False
  assume init: "init_backend outcome b = Some (res, b')"
  have step: "backend_announces b (b\<lparr>bk_worker := w\<rparr>)"
    "backend_announces b (b\<lparr>bk_worker := w, bk_worker_tx := tx, bk_worker_handle := h\<rparr>)"
    if "announces (bk_worker b) w" for w tx h
    using that by simp_all
  have late: "announces (bk_worker b) w'"
    if "worker_start (bk_worker b) = Some (r, w)" "worker_step ev w = Some w'" for r w ev w'
    using announces_start [OF that(1)] announces_step [OF that(2)] by (rule announces_trans)
  show ?thesis
    using init False
    by (auto simp: init_backend_def Let_def record_error_def
        intro!: backend_announces_on_runtime step dest: announces_start late
        split: init_outcome.splits option.splits sum.splits)
qed (simp add: init_backend_def)

section \<open>Properties\<close>

lemma backend_announces_step: "backend_step ev b = Some b' \<Longrightarrow> backend_announces b b'"
proof (cases ev)
  case (ApiInit outcome)
  assume "backend_step ev b = Some b'"
  with ApiInit show ?thesis by (auto dest: backend_announces_init)
next
  case ApiShutdown
  assume "backend_step ev b = Some b'"
  with ApiShutdown show ?thesis by (auto dest: backend_announces_shutdown)
next
  case (ApiResolution x y)
  assume "backend_step ev b = Some b'"
  with ApiResolution show ?thesis
    by (auto simp: set_screen_resolution_def on_runtime_def backend_announces_def announces_def
        worker_view_def runtime_defs)
next
  case WorkerTurn
  assume "backend_step ev b = Some b'"
  with WorkerTurn show ?thesis
    by (auto simp: worker_turn_def dest: announces_step split: option.splits list.splits if_splits)
qed (auto simp: backend_announces_keyboard backend_announces_mouse backend_announces_sends backend_announces_reset)

text \<open>Between its actions a reachable backend is coherent: after any sequence of whole API calls and worker turns no further operation
  panics, the status is initialized exactly while the worker is installed, online only when initialized and
  without an error, and initialized but offline only with an error. While calls overlap this need not be so: \<open>initialized\<close>
  and the handle of the worker are written one after the other, and the lemma \<open>online_with_error\<close> of \<open>Ch9329_Races\<close> is an overlap
  whose effect even outlasts it.\<close>

lemma ch9329_backend_coherent:
  assumes "reachable_backend path baud opens b"
  shows "backend_step ev b \<noteq> None \<and>
    (let s = runtime_snapshot_of port_exists b in
      rs_initialized s = bk_worker_handle b \<and>
      (rs_online s \<longrightarrow> rs_initialized s \<and> rs_error s = None \<and> rs_error_code s = None) \<and>
      (rs_initialized s \<and> \<not> rs_online s \<longrightarrow> rs_error s \<noteq> None \<and> rs_error_code s \<noteq> None))"
proof -
  have ok: "backend_ok b" using assms by (rule reachable_backend_ok)
  then have "backend_step ev b \<noteq> None" using backend_step_ok [of b ev] by auto
  moreover have "worker_ok (bk_worker b)" "wk_phase (bk_worker b) = Stopped \<longleftrightarrow> \<not> bk_worker_handle b"
    using ok by (simp_all add: backend_ok_def)
  ultimately show ?thesis
    by (cases "wk_phase (bk_worker b)")
      (auto simp: worker_ok_def runtime_snapshot_of_def Let_def)
qed

text \<open>C36: No lost wakeups. Whenever an operation or a worker step changes the runtime
  snapshot, subscribers were notified in it. Operations and worker steps are whole here, and the snapshot is one that no write interrupts; for their
  single accesses see \<open>Ch9329_Races\<close>.\<close>

theorem ch9329_no_lost_wakeup:
  assumes "backend_step ev b = Some b'"
    and "runtime_snapshot_of port_exists b \<noteq> runtime_snapshot_of port_exists b'"
  shows "rt_notified (wk_runtime (bk_worker b)) < rt_notified (wk_runtime (bk_worker b'))"
  using backend_announces_snapshot [OF backend_announces_step [OF assms(1)] assms(2)] .

theorem ch9329_no_lost_wakeup_witness:
  "rt_notified (wk_runtime (bk_worker (with_baud_rate ''/dev/ttyUSB0'' 9600 []))) <
   rt_notified (wk_runtime (bk_worker (set_screen_resolution 800 600 (with_baud_rate ''/dev/ttyUSB0'' 9600 []))))"
  by (rule ch9329_no_lost_wakeup [where ev = "ApiResolution 800 600" and port_exists = True])
    (simp_all add: runtime_snapshot_of_def with_baud_rate_def set_screen_resolution_def on_runtime_def runtime_defs)

text \<open>C38: Shutdown always completes. From every reachable state, whatever is queued and
  whether the worker is running, reconnecting or stopped, \<open>shutdown\<close> succeeds; afterwards the worker
  has stopped, the channel and the handle are gone, and the snapshot is neither initialized nor
  online and shows no error.\<close>

theorem ch9329_shutdown_stops:
  assumes "reachable_backend path baud opens b"
  shows "\<exists>b'. shutdown_backend b = Some (Inr (), b') \<and> wk_phase (bk_worker b') = Stopped \<and>
    bk_worker_tx b' = None \<and> \<not> bk_worker_handle b' \<and>
    (let s = runtime_snapshot_of port_exists b' in \<not> rs_initialized s \<and> \<not> rs_online s \<and> rs_error s = None)"
proof -
  obtain b' where b': "shutdown_backend b = Some (Inr (), b')" "backend_ok b'" "bk_worker_tx b' = None"
    "rt_last_error (wk_runtime (bk_worker b')) = None"
    using shutdown_backend_ok [OF reachable_backend_ok [OF assms]] by blast
  then have stopped: "\<not> bk_worker_handle b'" "wk_phase (bk_worker b') = Stopped"
    by (simp_all add: backend_ok_def)
  then have "\<not> rt_initialized (wk_runtime (bk_worker b'))"
    using b'(2) by (simp add: backend_ok_def worker_ok_def Let_def)
  with b' stopped show ?thesis by (simp add: runtime_snapshot_of_def Let_def)
qed

theorem ch9329_shutdown_stops_witness:
  "\<exists>b'. shutdown_backend (with_baud_rate ''/dev/ttyUSB0'' 9600 []) = Some (Inr (), b') \<and>
     bk_worker_tx b' = None"
  using ch9329_shutdown_stops [OF reachable_backend.fresh, of "''/dev/ttyUSB0''" 9600 "[]"] by blast

text \<open>A failed transfer takes the backend offline. The error is recorded with its
  reason and code, a reset command is written if the port still accepts writes, and the worker
  goes on to reconnect.\<close>

theorem ch9329_failed_transfer:
  assumes "wk_phase w = Running" and "xfer_packet (wk_address w) cmd data (wk_port w) = Some (Inl e, p)"
  shows "\<exists>w'. worker_step (Command (Packet cmd data)) w = Some w' \<and> wk_phase w' = Reconnecting \<and>
    \<not> rt_online (wk_runtime w') \<and> rt_last_error (wk_runtime w') = Some (he_reason e, he_code e) \<and>
    pt_written (wk_port w') = pt_written p @
      (if tr_write_error (next_transfer p) = None then [packet (wk_address w) RESET_CMD []] else [])"
proof -
  have "\<exists>p'. try_best_effort_reset (wk_address w) p = Some p' \<and> pt_written p' = pt_written p @
      (if tr_write_error (next_transfer p) = None then [packet (wk_address w) RESET_CMD []] else [])"
    by (simp add: try_best_effort_reset_def write_packet_def build_packet_eq MAX_DATA_LEN_def split: option.split)
  then show ?thesis using assms
    by (auto simp: worker_step_def running_step_def lose_port_def worker_defs)
qed

theorem ch9329_failed_transfer_witness:
  "let w = \<lparr>wk_phase = Running, wk_port = \<lparr>pt_script = [], pt_written = []\<rparr>, wk_opens = [],
       wk_port_path = ''/dev/ttyUSB0'', wk_address = 0, wk_chip_info = None,
       wk_led_status = \<lparr>led_num_lock = False, led_caps_lock = False, led_scroll_lock = False\<rparr>,
       wk_runtime = runtime_new\<rparr>
   in \<exists>w'. worker_step (Command (Packet SEND_MS_REL_DATA [1, 0, 0, 0, 0])) w = Some w' \<and> wk_phase w' = Reconnecting"
proof -
  have x: "xfer_packet 0 SEND_MS_REL_DATA [1, 0, 0, 0, 0] \<lparr>pt_script = [], pt_written = []\<rparr> =
    Some (Inl (backend_error (''No matching response from CH9329 for cmd 0x'' @ hex2 SEND_MS_REL_DATA) ''no_response''),
      \<lparr>pt_script = [], pt_written = [packet 0 SEND_MS_REL_DATA [1, 0, 0, 0, 0]]\<rparr>)"
    by (simp add: xfer_packet_def write_packet_def build_packet_eq MAX_DATA_LEN_def next_transfer_def
        silent_transfer_def Let_def)
  let ?w = "\<lparr>wk_phase = Running, wk_port = \<lparr>pt_script = [], pt_written = []\<rparr>, wk_opens = [],
       wk_port_path = ''/dev/ttyUSB0'', wk_address = 0, wk_chip_info = None,
       wk_led_status = \<lparr>led_num_lock = False, led_caps_lock = False, led_scroll_lock = False\<rparr>,
       wk_runtime = runtime_new\<rparr>"
  show ?thesis
    using ch9329_failed_transfer [of ?w SEND_MS_REL_DATA "[1, 0, 0, 0, 0]"] x by auto
qed

text \<open>Reconnecting recovers. If the port opens and answers the chip query (in any
  chunks), one timeout of the waiting worker brings it back: running, online, the error cleared,
  and the LED cache set to the chip's LED byte.\<close>

theorem ch9329_reconnect_recovers:
  assumes "wk_phase w = Reconnecting"
    and "next_open w = Opened (\<lparr>tr_write_error = None, tr_reads = reads\<rparr> # later)"
    and "no_read_error reads" and "concat (map read_bytes reads) = response_bytes r @ tail"
    and "response_wf r" and "rsp_cmd r = expected_response_cmd GET_INFO False"
    and "8 \<le> length (rsp_data r)"
  shows "\<exists>w'. worker_step RecvTimeout w = Some w' \<and> wk_phase w' = Running \<and>
    rt_online (wk_runtime w') \<and> rt_last_error (wk_runtime w') = None \<and>
    wk_led_status w' = led_status_from (rsp_data r ! 2) \<and> pt_script (wk_port w') = later"
proof -
  let ?p = "\<lparr>pt_script = \<lparr>tr_write_error = None, tr_reads = reads\<rparr> # later, pt_written = []\<rparr>"
  let ?p' = "\<lparr>pt_script = later, pt_written = [packet (wk_address w) GET_INFO []]\<rparr>"
  have "incoming (expected_response_cmd GET_INFO False) (expected_response_cmd GET_INFO True)
      ([] @ concat (map read_bytes reads)) r"
    unfolding incoming_def using assms(4-6) by (auto simp: matches_def intro!: exI [of _ "[]"] exI [of _ tail])
  then have "read_response (expected_response_cmd GET_INFO False) (expected_response_cmd GET_INFO True) [] reads = Inr (Some r)"
    using assms(3) by (rule read_response_incoming)
      (simp_all add: try_extract_response_def extract_from.simps)
  then have "xfer_packet (wk_address w) GET_INFO [] ?p = Some (Inr r, ?p')"
    by (simp add: xfer_packet_def write_packet_def build_packet_eq next_transfer_def Let_def MAX_DATA_LEN_def)
  moreover have "\<not> rsp_is_error r"
  proof -
    obtain a c d where "r = response_of a c d"
      using assms(5) unfolding response_wf_def by blast
    then have "rsp_is_error r \<longleftrightarrow> rsp_cmd r AND RESPONSE_ERROR_MASK = RESPONSE_ERROR_MASK"
      by (simp add: response_of_def Let_def)
    then show ?thesis using expected_cmd_bits [of GET_INFO False] assms(6) by (simp add: GET_INFO_def)
  qed
  moreover obtain info where info: "chip_info_from_response (rsp_data r) = Some info"
    and led: "led_of info = led_status_from (rsp_data r ! 2)"
    using assms(7) by (auto simp: chip_info_from_response_def Let_def led_of_def led_status_from_def)
  ultimately have "open_and_query (wk_port_path w) (wk_address w) (next_open w) = Some (Inr (?p', info))"
    using assms(2) by (simp add: open_and_query_def open_port_def query_chip_info_on_port_def)
  then show ?thesis using assms(1) led
    by (simp add: worker_step_def reconnect_step_def worker_defs led_of_def)
qed

text \<open>While it waits to reconnect, the worker drops every command except
  \<open>Shutdown\<close>, and each one starts its two-second wait again: however many commands arrive, as long
  as no wait between them times out, no attempt to open the port is made and nothing changes.\<close>

theorem ch9329_reconnect_starved:
  assumes "wk_phase w = Reconnecting" and "\<forall>c \<in> set commands. c \<noteq> Shutdown"
  shows "run_worker (map Command commands) w = Some w"
  using assms(2)
proof (induction commands)
  case (Cons c cs)
  then show ?case using assms(1)
    by (cases c) (simp_all add: worker_step_def reconnect_step_def)
qed simp

lemma modifier_bit_cases:
  assumes "is_modifier k"
  obtains kb where "modifier_bit k = Some kb" and "\<exists>n < 8. kb = 2 ^ n"
proof -
  obtain m where k: "k = Modifier m" using assms by (cases k) (auto simp: is_modifier_def)
  have "\<exists>kb n. modifier_bit k = Some kb \<and> n < 8 \<and> kb = 2 ^ n"
    unfolding k
    by (cases m)
      (simp_all add: modifier_bit_def, simp_all add: exI [of _ 0] exI [of _ 1] exI [of _ 2] exI [of _ 3] exI [of _ 4] exI [of _ 5] exI [of _ 6] exI [of _ 7])
  then show thesis using that by blast
qed

definition idle_worker :: "open_result list \<Rightarrow> worker" where
  "idle_worker opens = \<lparr>wk_phase = Reconnecting, wk_port = \<lparr>pt_script = [], pt_written = []\<rparr>,
     wk_opens = opens, wk_port_path = ''/dev/ttyUSB0'', wk_address = 0, wk_chip_info = None,
     wk_led_status = \<lparr>led_num_lock = False, led_caps_lock = False, led_scroll_lock = False\<rparr>,
     wk_runtime = \<lparr>rt_initialized = True, rt_online = False,
       rt_last_error = Some (''No matching response'', ''no_response''), rt_notified = 2\<rparr>\<rparr>"

theorem ch9329_reconnect_recovers_witness:
  "let r = response_of 0 0x81 [0x31, 1, 2, 0, 0, 0, 0, 0]
   in \<exists>w'. worker_step RecvTimeout (idle_worker
        [Opened [\<lparr>tr_write_error = None, tr_reads = [ReadBytes (response_bytes r)]\<rparr>]]) = Some w' \<and>
      rt_online (wk_runtime w') \<and> wk_led_status w' = led_status_from 2"
proof -
  define r where "r = response_of 0 0x81 [0x31, 1, 2, 0, 0, 0, 0, 0]"
  define w where "w = idle_worker [Opened [\<lparr>tr_write_error = None, tr_reads = [ReadBytes (response_bytes r)]\<rparr>]]"
  have r: "response_wf r" "rsp_cmd r = expected_response_cmd GET_INFO False" "rsp_data r ! 2 = 2"
    "length (rsp_data r) = 8"
    by (simp_all add: r_def response_wf_response_of)
      (simp_all add: response_of_def expected_response_cmd_def GET_INFO_def RESPONSE_SUCCESS_MASK_def Let_def)
  have "\<exists>w'. worker_step RecvTimeout w = Some w' \<and> wk_phase w' = Running \<and>
    rt_online (wk_runtime w') \<and> rt_last_error (wk_runtime w') = None \<and>
    wk_led_status w' = led_status_from (rsp_data r ! 2) \<and> pt_script (wk_port w') = []"
    by (rule ch9329_reconnect_recovers [where reads = "[ReadBytes (response_bytes r)]" and tail = "[]"])
      (simp_all add: w_def idle_worker_def next_open_def no_read_error_def r)
  then show ?thesis unfolding Let_def r_def [symmetric] w_def [symmetric] r(3) by blast
qed

theorem ch9329_reconnect_starved_witness:
  "run_worker (map Command [Packet SEND_MS_REL_DATA [1, 0, 5, 0, 0], ResetState]) (idle_worker []) =
     Some (idle_worker [])"
  by (rule ch9329_reconnect_starved) (simp_all add: idle_worker_def)

section \<open>Input events become packets\<close>

text \<open>C33: Keyboard events. With the worker installed, \<open>send_keyboard\<close> queues exactly one
  packet, the eight bytes of the new keyboard state. A modifier key sets or clears exactly its own
  bit and leaves the six slots alone; any other key takes the event's modifiers, and a press adds
  the key if a slot is free, a release removes every occurrence of it.\<close>

theorem ch9329_send_keyboard:
  assumes "wf_report (bk_keyboard_state b)" and "bk_worker_tx b = Some q"
    and "wk_phase (bk_worker b) \<noteq> Stopped"
  shows "let old = bk_keyboard_state b; k = to_hid_usage (ke_key ev);
       (res, b') = send_keyboard ev b; new = bk_keyboard_state b'
     in res = Inr () \<and> wf_report new \<and>
        bk_worker_tx b' = Some (q @ [Packet SEND_KB_GENERAL_DATA (keyboard_report_to_bytes new)]) \<and>
        (if is_modifier (ke_key ev)
         then kr_keys new = kr_keys old \<and>
           (\<forall>n. bit (kr_modifiers new) n = (if 2 ^ n = the (modifier_bit (ke_key ev)) \<and> n < 8
              then ke_type ev = KeyDown else bit (kr_modifiers old) n))
         else kr_modifiers new = to_hid_byte (ke_modifiers ev) \<and>
           pressed new = (case ke_type ev of
               KeyDown \<Rightarrow> (if size (pressed old) < 6 then add_mset k (pressed old) else pressed old)
             | KeyUp \<Rightarrow> filter_mset (\<lambda>x. x \<noteq> k) (pressed old)))"
proof -
  let ?r = "bk_keyboard_state b"
  have send: "send_keyboard_report r (b\<lparr>bk_keyboard_state := s\<rparr>) =
      (Inr (), b\<lparr>bk_keyboard_state := s,
        bk_worker_tx := Some (q @ [Packet SEND_KB_GENERAL_DATA (keyboard_report_to_bytes r)])\<rparr>)" for r s
    using assms(2,3) by (simp add: send_keyboard_report_def send_packet_def enqueue_command_def)
  have wf: "wf_report (?r\<lparr>kr_modifiers := m\<rparr>)" and held: "pressed (?r\<lparr>kr_modifiers := m\<rparr>) = pressed ?r" for m
    using assms(1) by (simp_all add: wf_report_def pressed_def)
  have lt: "bit x m \<Longrightarrow> m < 8" for x :: u8 and m using bit_imp_le_length [of x m] by simp
  show ?thesis
  proof (cases "is_modifier (ke_key ev)")
    case True
    then obtain kb where kb: "modifier_bit (ke_key ev) = Some kb" "\<exists>n < 8. kb = 2 ^ n"
      by (rule modifier_bit_cases)
    then obtain n where n: "kb = 2 ^ n" "n < 8" by blast
    have bits: "bit kb m \<longleftrightarrow> m = n" for m
      using n by (auto simp: bit_exp_iff possible_bit_def)
    have "2 ^ m = kb \<and> m < 8 \<longleftrightarrow> m = n" for m
    proof
      assume m: "2 ^ m = kb \<and> m < 8"
      have "m < 8 \<Longrightarrow> bit (2 ^ m :: u8) m" by (simp add: bit_exp_iff possible_bit_def)
      then show "m = n" using m bits by simp
    qed (use n in simp)
    with True kb bits n show ?thesis using wf
      by (cases "ke_type ev")
        (auto simp: send_keyboard_def Let_def send bit_or_iff bit_and_iff bit_not_iff possible_bit_def dest: lt)
  next
    case False
    note add = add_key_spec [OF wf to_hid_usage_nonzero, unfolded held]
    note rem = remove_key_spec [OF wf, unfolded held]
    have "kr_modifiers (snd (add_key k r)) = kr_modifiers r" "kr_modifiers (remove_key k r) = kr_modifiers r" for k r
      by (simp_all add: add_key_def remove_key_def Let_def split: prod.split)
    with False add rem held show ?thesis
      by (cases "ke_type ev") (simp_all add: send_keyboard_def Let_def send)
  qed
qed


definition online_backend :: backend where
  "online_backend = (with_baud_rate ''/dev/ttyUSB0'' 9600 [])
     \<lparr>bk_worker_tx := Some [], bk_worker_handle := True, bk_worker := idle_worker []\<rparr>"

lemma online_backend_simps [simp]:
  "bk_keyboard_state online_backend = keyboard_report_default"
  "bk_worker_tx online_backend = Some []" "wk_phase (bk_worker online_backend) \<noteq> Stopped"
  "bk_mouse_buttons online_backend = 0"
  by (simp_all add: online_backend_def with_baud_rate_def idle_worker_def)

theorem ch9329_send_keyboard_witness:
  "pressed (bk_keyboard_state (snd (send_keyboard (key_down (Letter KeyA) no_modifiers) online_backend))) = {#4#}"
  using ch9329_send_keyboard [of online_backend "[]" "key_down (Letter KeyA) no_modifiers"]
  by (simp add: wf_report_default key_down_def is_modifier_def Let_def split: prod.splits)

text \<open>Repeated presses of one key fill the report. A press does not check whether the
  key is already held: after six presses of one key (auto-repeat) the report holds only that key,
  in all six slots, and the press of any other key is lost.\<close>

theorem ch9329_key_repeat_fills_report:
  assumes "\<not> is_modifier j" and "\<not> is_modifier k" and "j \<noteq> k"
    and "bk_keyboard_state b = keyboard_report_default"
  shows "let b6 = ((\<lambda>b. snd (send_keyboard (key_down k m) b)) ^^ 6) b; b7 = snd (send_keyboard (key_down j m) b6)
    in set (kr_keys (bk_keyboard_state b7)) = {to_hid_usage k} \<and> to_hid_usage j \<notin> set (kr_keys (bk_keyboard_state b7))"
proof -
  have send: "bk_keyboard_state (snd (send_keyboard_report r b)) = bk_keyboard_state b" for r b
    by (simp add: send_keyboard_report_def send_packet_def enqueue_command_def record_error_def on_runtime_def split: option.split)
  have step: "bk_keyboard_state (snd (send_keyboard (key_down x m) b)) =
      snd (add_key (to_hid_usage x) ((bk_keyboard_state b)\<lparr>kr_modifiers := to_hid_byte m\<rparr>))" if "\<not> is_modifier x" for x b
    using that by (simp add: send_keyboard_def key_down_def Let_def send)
  have ne: "to_hid_usage k \<noteq> to_hid_usage j" using assms(3) from_hid_usage_iff by (metis option.inject)
  show ?thesis
    using assms(1,2,4) ne
    by (simp add: step Let_def numeral_eq_Suc add_key_def keyboard_report_default_def to_hid_usage_nonzero)
qed

theorem ch9329_key_repeat_fills_report_witness:
  "to_hid_usage (Letter KeyB) \<notin> set (kr_keys (bk_keyboard_state (snd (send_keyboard (key_down (Letter KeyB) no_modifiers)
     (((\<lambda>b. snd (send_keyboard (key_down (Letter KeyA) no_modifiers) b)) ^^ 6) online_backend)))))"
  using ch9329_key_repeat_fills_report [of "Letter KeyB" "Letter KeyA" online_backend no_modifiers]
  by (simp add: is_modifier_def Let_def)

definition mouse_packet_position :: "bytes \<Rightarrow> nat \<times> nat" where
  "mouse_packet_position d = (unat (d ! 2) + 256 * unat (d ! 3), unat (d ! 4) + 256 * unat (d ! 5))"

lemma u16_bytes: "unat (ucast (x AND 0xFF) :: u8) + 256 * unat (ucast (drop_bit 8 x) :: u8) = unat (x :: u16)"
proof -
  have "x AND 0xFF = take_bit 8 x" by (simp add: take_bit_eq_mask mask_eq_exp_minus_1)
  then have "unat (ucast (x AND 0xFF) :: u8) = unat x mod 256"
    by (simp add: unsigned_ucast_eq take_bit_eq_mod unat_mod)
  moreover have "unat (drop_bit 8 x) = unat x div 256" by (simp add: drop_bit_eq_div unat_div)
  moreover have "unat x div 256 < 256" using unsigned_less [of x, where 'a = nat] by (simp add: less_mult_imp_div_less)
  ultimately show ?thesis by (simp add: unsigned_ucast_eq take_bit_eq_mod)
qed

text \<open>Absolute pointer. A position is clamped to 0..32767 and scaled to 0..4095; the
  packet carries both coordinates in little-endian order with the current buttons; and a later
  scroll is sent at that same position.\<close>

theorem ch9329_absolute_pointer:
  assumes "bk_worker_tx b = Some q" and "wk_phase (bk_worker b) \<noteq> Stopped"
  shows "\<exists>b' d. send_mouse (move_abs x y) b = (Inr (), b') \<and>
      bk_worker_tx b' = Some (q @ [Packet SEND_MS_ABS_DATA d]) \<and> length d = 7 \<and> d ! 1 = bk_mouse_buttons b \<and>
      mouse_packet_position d = (nat (clamp_i32 0 32767 x) div 8, nat (clamp_i32 0 32767 y) div 8) \<and>
      \<not> bk_relative_mouse_active b' \<and>
      (\<exists>b'' d'. send_mouse (scroll_event w) b' = (Inr (), b'') \<and>
         bk_worker_tx b'' = Some (q @ [Packet SEND_MS_ABS_DATA d, Packet SEND_MS_ABS_DATA d']) \<and>
         mouse_packet_position d' = mouse_packet_position d \<and> d' ! 6 = w)"
proof -
  have pos: "mouse_packet_position [0x02, m, ucast (p AND 0xFF), ucast (drop_bit 8 p), ucast (q AND 0xFF),
     ucast (drop_bit 8 q), z] = (unat p, unat q)" for m z and p q :: u16
    using u16_bytes [of p] u16_bytes [of q] by (simp add: mouse_packet_position_def)
  show ?thesis using assms
    by (simp add: send_mouse_def move_abs_def scroll_event_def send_mouse_state_def send_mouse_absolute_def
        send_packet_def enqueue_command_def Let_def pos absolute_position_unat)
qed

theorem ch9329_absolute_pointer_witness:
  "\<exists>d. bk_worker_tx (snd (send_mouse (move_abs 32767 8) online_backend)) = Some [Packet SEND_MS_ABS_DATA d] \<and>
     mouse_packet_position d = (4095, 1)"
  using ch9329_absolute_pointer [of online_backend "[]" 32767 8 0]
  by (auto simp: clamp_i32_def)

text \<open>Relative pointer. Both deltas are clamped to -127..127 and arrive as signed bytes
  with the current buttons.\<close>

theorem ch9329_relative_pointer:
  assumes "bk_worker_tx b = Some q" and "wk_phase (bk_worker b) \<noteq> Stopped"
  shows "\<exists>b' d. send_mouse (move_rel x y) b = (Inr (), b') \<and>
      bk_worker_tx b' = Some (q @ [Packet SEND_MS_REL_DATA d]) \<and> length d = 5 \<and> d ! 1 = bk_mouse_buttons b \<and>
      sint (d ! 2) = clamp_i32 (-127) 127 x \<and> sint (d ! 3) = clamp_i32 (-127) 127 y \<and>
      bk_relative_mouse_active b'"
proof -
  have "sint (relative_delta x) = clamp_i32 (-127) 127 x" for x
    using clamp_range [of "-127" 127 x]
    by (simp add: relative_delta_def signed_of_int signed_take_bit_int_eq_self)
  then show ?thesis using assms
    by (simp add: send_mouse_def move_rel_def send_mouse_relative_def send_packet_def enqueue_command_def Let_def)
qed

theorem ch9329_relative_pointer_witness:
  "\<exists>d. bk_worker_tx (snd (send_mouse (move_rel 300 (-1)) online_backend)) = Some [Packet SEND_MS_REL_DATA d] \<and>
     sint (d ! 2) = 127"
  using ch9329_relative_pointer [of online_backend "[]" 300 "-1"]
  by (auto simp: clamp_i32_def)

end
