(* ===== verification/Ch9329_Races.thy ===== *)
theory Ch9329_Races
  imports Ch9329_Backend
begin

text \<open>
  \<^verbatim>\<open>src/src/hid/ch9329.rs\<close>, the runtime state at the grain of its single accesses. \<open>Ch9329_Backend\<close> takes a call of
  \<open>set_online\<close>, \<open>set_error\<close> and so on, and a \<open>runtime_snapshot\<close>, as one action. In the code they are not:
  \<open>initialized\<close> and \<open>online\<close> are atomics, the last error and the LEDs have a lock each, and the worker thread, the
  threads of the API and the task of the controller that reads the state (\<open>restart_runtime_worker\<close> in \<^verbatim>\<open>src/src/hid/mod.rs\<close>) touch them
  one after the other. Here any number of threads make such calls, and a reader waits on the
  \<open>watch\<close> channel and takes its snapshot, all interleaved access by access.
\<close>

section \<open>Accesses\<close>

record shared =
  sh_runtime :: runtime
  sh_leds :: led_status

datatype status_call = SetOnline | SetError string string | SetInitialized bool | SetOffline | ClearError | UpdateLeds led_status | Renotify

text \<open>An access to the shared state; \<open>Finish\<close> is the end of a call, with its \<open>notify\<close>.\<close>

datatype access = SwapInitialized bool | SwapOnline bool | TakeError | PutError string string | PutLeds led_status | MarkChanged | Finish

fun accesses :: "status_call \<Rightarrow> access list" where
  "accesses SetOnline = [SwapOnline True, TakeError, Finish]"
| "accesses (SetError reason error_code) = [SwapOnline False, PutError reason error_code, Finish]"
| "accesses (SetInitialized b) = [SwapInitialized b, Finish]"
| "accesses SetOffline = [SwapOnline False, Finish]"
| "accesses ClearError = [TakeError, Finish]"
| "accesses (UpdateLeds leds) = [PutLeds leds, Finish]"
| "accesses Renotify = [MarkChanged, Finish]"

text \<open>One access. The flag says whether the call has found something to change so far: \<open>was_online\<close>, \<open>cleared_error\<close>,
  \<open>changed\<close> of the code.\<close>

definition on_shared :: "(runtime \<Rightarrow> runtime) \<Rightarrow> shared \<Rightarrow> shared" where
  "on_shared f sh = sh\<lparr>sh_runtime := f (sh_runtime sh)\<rparr>"

fun access_step :: "access \<Rightarrow> bool \<times> shared \<Rightarrow> bool \<times> shared" where
  "access_step (SwapInitialized b) (changed, sh) =
     (changed \<or> rt_initialized (sh_runtime sh) \<noteq> b, on_shared (\<lambda>r. r\<lparr>rt_initialized := b\<rparr>) sh)"
| "access_step (SwapOnline b) (changed, sh) =
     (changed \<or> rt_online (sh_runtime sh) \<noteq> b, on_shared (\<lambda>r. r\<lparr>rt_online := b\<rparr>) sh)"
| "access_step TakeError (changed, sh) =
     (changed \<or> rt_last_error (sh_runtime sh) \<noteq> None, on_shared (\<lambda>r. r\<lparr>rt_last_error := None\<rparr>) sh)"
| "access_step (PutError reason error_code) (changed, sh) =
     (changed \<or> rt_last_error (sh_runtime sh) \<noteq> Some (reason, error_code),
      on_shared (\<lambda>r. r\<lparr>rt_last_error := Some (reason, error_code)\<rparr>) sh)"
| "access_step (PutLeds leds) (changed, sh) = (changed \<or> sh_leds sh \<noteq> leds, sh\<lparr>sh_leds := leds\<rparr>)"
| "access_step MarkChanged (changed, sh) = (True, sh)"
| "access_step Finish (changed, sh) = (False, if changed then on_shared notify sh else sh)"

lemma no_change:
  "rt_initialized r = b \<Longrightarrow> r\<lparr>rt_initialized := b\<rparr> = r"
  "rt_online r = b \<Longrightarrow> r\<lparr>rt_online := b\<rparr> = r"
  "\<forall>a b. rt_last_error r \<noteq> Some (a, b) \<Longrightarrow> r\<lparr>rt_last_error := None\<rparr> = r"
  "rt_last_error r = e \<Longrightarrow> r\<lparr>rt_last_error := e\<rparr> = r"
  "sh_leds sh = leds \<Longrightarrow> sh\<lparr>sh_leds := leds\<rparr> = sh"
  "sh_runtime sh = r \<Longrightarrow> sh\<lparr>sh_runtime := r\<rparr> = sh"
proof -
  show "rt_initialized r = b \<Longrightarrow> r\<lparr>rt_initialized := b\<rparr> = r" by (cases r) simp
  show "rt_online r = b \<Longrightarrow> r\<lparr>rt_online := b\<rparr> = r" by (cases r) simp
  show e: "rt_last_error r = e \<Longrightarrow> r\<lparr>rt_last_error := e\<rparr> = r" for e by (cases r) simp
  show "\<forall>a b. rt_last_error r \<noteq> Some (a, b) \<Longrightarrow> r\<lparr>rt_last_error := None\<rparr> = r" using e [of None] by (cases "rt_last_error r") auto
  show "sh_leds sh = leds \<Longrightarrow> sh\<lparr>sh_leds := leds\<rparr> = sh" by (cases sh) simp
  show "sh_runtime sh = r \<Longrightarrow> sh\<lparr>sh_runtime := r\<rparr> = sh" by (cases sh) simp
qed

text \<open>A call that nothing interrupts is the call of \<open>Ch9329_Backend\<close>.\<close>

definition call_alone :: "status_call \<Rightarrow> shared \<Rightarrow> shared" where
  "call_alone c sh = snd (fold access_step (accesses c) (False, sh))"

lemma calls_alone:
  "call_alone SetOnline sh = on_shared set_online sh"
  "call_alone (SetError reason error_code) sh = on_shared (set_error reason error_code) sh"
  "call_alone (SetInitialized b) sh = on_shared (set_initialized b) sh"
  "call_alone SetOffline sh = on_shared set_offline sh"
  "call_alone ClearError sh = on_shared clear_error sh"
  "call_alone Renotify sh = on_shared notify sh"
  by (auto simp: call_alone_def on_shared_def set_online_def set_error_def set_initialized_def set_offline_def clear_error_def
      notify_def Let_def no_change simp del: not_None_eq)

lemma leds_alone:
  "update_chip_info_cache info w = (changed, w') \<Longrightarrow>
     call_alone (UpdateLeds (wk_led_status w')) \<lparr>sh_runtime = wk_runtime w, sh_leds = wk_led_status w\<rparr> =
       \<lparr>sh_runtime = (if changed then notify (wk_runtime w) else wk_runtime w), sh_leds = wk_led_status w'\<rparr>"
  by (auto simp: call_alone_def update_chip_info_cache_def on_shared_def Let_def)

section \<open>The reader\<close>

text \<open>What \<open>runtime_snapshot\<close> makes of the values it loads, on a backend with the port path and the screen size given.\<close>

definition snapshot_from :: "bool \<Rightarrow> string \<Rightarrow> u32 \<times> u32 \<Rightarrow> bool \<Rightarrow> bool \<Rightarrow> (string \<times> string) option \<Rightarrow> led_status \<Rightarrow> runtime_snapshot" where
  "snapshot_from port_exists path screen initialized online err leds =
     (let missing = (initialized \<and> \<not> port_exists);
          err = (if missing then Some (''Serial port '' @ path @ '' not found'', ''port_not_found'') else err)
      in \<lparr>rs_initialized = initialized, rs_online = (online \<and> \<not> missing), rs_supports_absolute_mouse = True,
          rs_keyboard_leds_enabled = True, rs_led_state = leds, rs_screen_resolution = Some screen, rs_device = Some path,
          rs_error = map_option fst err, rs_error_code = map_option snd err\<rparr>)"

definition status_of :: "bool \<Rightarrow> string \<Rightarrow> u32 \<times> u32 \<Rightarrow> shared \<Rightarrow> runtime_snapshot" where
  "status_of port_exists path screen sh =
     snapshot_from port_exists path screen (rt_initialized (sh_runtime sh)) (rt_initialized (sh_runtime sh) \<and> rt_online (sh_runtime sh))
       (rt_last_error (sh_runtime sh)) (sh_leds sh)"

lemma runtime_snapshot_alone:
  "runtime_snapshot_of port_exists b =
     status_of port_exists (wk_port_path (bk_worker b)) (bk_screen_width b, bk_screen_height b)
       \<lparr>sh_runtime = wk_runtime (bk_worker b), sh_leds = wk_led_status (bk_worker b)\<rparr>"
  by (simp add: runtime_snapshot_of_def status_of_def snapshot_from_def Let_def)

text \<open>The task of the controller: it waits for a change, which marks the channel's version as seen, and then takes the snapshot load by
  load and shows it. \<open>online\<close> is loaded only if \<open>initialized\<close> was.\<close>

datatype reader_phase = Waits | Woken | GotInitialized bool | GotOnline bool bool | GotError bool bool "(string \<times> string) option"

record reader =
  rd_seen :: nat
  rd_phase :: reader_phase
  rd_shown :: runtime_snapshot

definition reader_step :: "bool \<Rightarrow> string \<Rightarrow> u32 \<times> u32 \<Rightarrow> shared \<Rightarrow> reader \<Rightarrow> reader" where
  "reader_step port_exists path screen sh r =
     (case rd_phase r of
        Waits \<Rightarrow>
          if rd_seen r < rt_notified (sh_runtime sh) then r\<lparr>rd_seen := rt_notified (sh_runtime sh), rd_phase := Woken\<rparr> else r
      | Woken \<Rightarrow> r\<lparr>rd_phase := GotInitialized (rt_initialized (sh_runtime sh))\<rparr>
      | GotInitialized i \<Rightarrow> r\<lparr>rd_phase := GotOnline i (i \<and> rt_online (sh_runtime sh))\<rparr>
      | GotOnline i on \<Rightarrow> r\<lparr>rd_phase := GotError i on (rt_last_error (sh_runtime sh))\<rparr>
      | GotError i on err \<Rightarrow> r\<lparr>rd_phase := Waits, rd_shown := snapshot_from port_exists path screen i on err (sh_leds sh)\<rparr>)"

definition reader_new :: "bool \<Rightarrow> string \<Rightarrow> u32 \<times> u32 \<Rightarrow> shared \<Rightarrow> shared \<Rightarrow> reader" where
  "reader_new port_exists path screen first sh =
     \<lparr>rd_seen = rt_notified (sh_runtime sh), rd_phase = Waits, rd_shown = status_of port_exists path screen first\<rparr>"

section \<open>All of them interleaved\<close>

text \<open>A thread: the accesses left of its call, and the call's flag. An idle thread may begin any call.\<close>

type_synonym thread = "access list \<times> bool"

record 'i race =
  ra_threads :: "'i \<Rightarrow> thread"
  ra_shared :: shared
  ra_reader :: reader

inductive race_step :: "bool \<Rightarrow> string \<Rightarrow> u32 \<times> u32 \<Rightarrow> 'i race \<Rightarrow> 'i race \<Rightarrow> bool" for port_exists path screen where
  begin_call: "ra_threads s i = ([], changed) \<Longrightarrow>
    race_step port_exists path screen s (s\<lparr>ra_threads := (ra_threads s)(i := (accesses c, False))\<rparr>)"
| access: "ra_threads s i = (a # as, changed) \<Longrightarrow> access_step a (changed, ra_shared s) = (changed', sh) \<Longrightarrow>
    race_step port_exists path screen s (s\<lparr>ra_threads := (ra_threads s)(i := (as, changed')), ra_shared := sh\<rparr>)"
| reads: "race_step port_exists path screen s (s\<lparr>ra_reader := reader_step port_exists path screen (ra_shared s) (ra_reader s)\<rparr>)"

inductive_cases race_stepE: "race_step port_exists path screen s s'"

text \<open>The start: no call is running; the controller has shown the status and subscribed, with no change in between.\<close>

definition race_new :: "bool \<Rightarrow> string \<Rightarrow> u32 \<times> u32 \<Rightarrow> shared \<Rightarrow> 'i race" where
  "race_new port_exists path screen sh =
     \<lparr>ra_threads = (\<lambda>_. ([], False)), ra_shared = sh, ra_reader = reader_new port_exists path screen sh sh\<rparr>"

definition race_reach :: "bool \<Rightarrow> string \<Rightarrow> u32 \<times> u32 \<Rightarrow> shared \<Rightarrow> 'i race \<Rightarrow> bool" where
  "race_reach port_exists path screen sh s = (race_step port_exists path screen)\<^sup>*\<^sup>* (race_new port_exists path screen sh) s"

definition at_rest :: "'i race \<Rightarrow> bool" where
  "at_rest s \<longleftrightarrow> (\<forall>i. fst (ra_threads s i) = [])"

section \<open>No wakeup is lost\<close>

text \<open>What a reader has loaded is still so.\<close>

definition loads_current :: "bool \<Rightarrow> string \<Rightarrow> u32 \<times> u32 \<Rightarrow> shared \<Rightarrow> reader \<Rightarrow> bool" where
  "loads_current port_exists path screen sh r =
     (let init = rt_initialized (sh_runtime sh); on = (init \<and> rt_online (sh_runtime sh)) in
      case rd_phase r of
        Waits \<Rightarrow> rd_shown r = status_of port_exists path screen sh
      | Woken \<Rightarrow> True
      | GotInitialized i \<Rightarrow> i = init
      | GotOnline i o' \<Rightarrow> i = init \<and> o' = on
      | GotError i o' err \<Rightarrow> i = init \<and> o' = on \<and> err = rt_last_error (sh_runtime sh))"

definition thread_ok :: "thread \<Rightarrow> bool" where
  "thread_ok t \<longleftrightarrow> (if fst t = [] then \<not> snd t else last (fst t) = Finish)"

text \<open>The invariant: a thread in a call still has its \<open>Finish\<close> before it; and either some call has its notification to make, or one is
  waiting for the reader, or what the reader has is current.\<close>

definition race_inv :: "bool \<Rightarrow> string \<Rightarrow> u32 \<times> u32 \<Rightarrow> 'i race \<Rightarrow> bool" where
  "race_inv port_exists path screen s \<longleftrightarrow>
     (\<forall>i. thread_ok (ra_threads s i)) \<and>
     rd_seen (ra_reader s) \<le> rt_notified (sh_runtime (ra_shared s)) \<and>
     ((\<exists>i. snd (ra_threads s i)) \<or> rd_seen (ra_reader s) < rt_notified (sh_runtime (ra_shared s)) \<or>
        loads_current port_exists path screen (ra_shared s) (ra_reader s))"

lemma accesses_end: "accesses c \<noteq> [] \<and> last (accesses c) = Finish"
  by (cases c) auto

text \<open>An access that changes something leaves the flag up, or was the notification.\<close>

lemma access_effect:
  assumes "access_step a (changed, sh) = (changed', sh')"
  shows "if a = Finish then \<not> changed' \<and> (if changed then rt_notified (sh_runtime sh) < rt_notified (sh_runtime sh') else sh' = sh)
    else changed' \<or> (\<not> changed \<and> sh' = sh)"
    and "rt_notified (sh_runtime sh) \<le> rt_notified (sh_runtime sh')"
    and "a \<noteq> Finish \<Longrightarrow> changed \<Longrightarrow> changed'"
proof -
  show "if a = Finish then \<not> changed' \<and> (if changed then rt_notified (sh_runtime sh) < rt_notified (sh_runtime sh') else sh' = sh)
      else changed' \<or> (\<not> changed \<and> sh' = sh)"
    using assms by (cases a) (auto simp: on_shared_def notify_def no_change simp del: not_None_eq)
  show "rt_notified (sh_runtime sh) \<le> rt_notified (sh_runtime sh')"
    using assms by (cases a) (auto simp: on_shared_def notify_def split: if_splits)
  show "a \<noteq> Finish \<Longrightarrow> changed \<Longrightarrow> changed'"
    using assms by (cases a) auto
qed

lemma reader_keeps:
  assumes "rd_seen r \<le> rt_notified (sh_runtime sh)"
    and "rd_seen r < rt_notified (sh_runtime sh) \<or> loads_current pe path screen sh r"
  shows "rd_seen (reader_step pe path screen sh r) < rt_notified (sh_runtime sh) \<or> loads_current pe path screen sh (reader_step pe path screen sh r)"
  using assms by (cases "rd_phase r") (auto simp: reader_step_def loads_current_def status_of_def Let_def)

lemma reader_seen: "rd_seen r \<le> rt_notified (sh_runtime sh) \<Longrightarrow> rd_seen (reader_step pe path screen sh r) \<le> rt_notified (sh_runtime sh)"
  by (cases "rd_phase r") (auto simp: reader_step_def)

lemma race_inv_step:
  assumes "race_step pe path screen s s'" and inv: "race_inv pe path screen s"
  shows "race_inv pe path screen s'"
proof -
  have ok: "thread_ok (ra_threads s i)" for i using inv by (simp add: race_inv_def)
  have seen: "rd_seen (ra_reader s) \<le> rt_notified (sh_runtime (ra_shared s))" using inv by (simp add: race_inv_def)
  have pend: "(\<exists>i. snd (ra_threads s i)) \<or> rd_seen (ra_reader s) < rt_notified (sh_runtime (ra_shared s)) \<or>
      loads_current pe path screen (ra_shared s) (ra_reader s)" using inv by (simp add: race_inv_def)
  from assms(1) show ?thesis
  proof (cases rule: race_step.cases)
    case (begin_call i changed c)
    have "\<not> changed" using ok [of i] begin_call(2) by (simp add: thread_ok_def)
    then have same: "snd (((ra_threads s)(i := (accesses c, False))) j) = snd (ra_threads s j)" for j using begin_call(2) by simp
    have "thread_ok (((ra_threads s)(i := (accesses c, False))) j)" for j using ok accesses_end [of c] by (simp add: thread_ok_def)
    then show ?thesis using seen pend same unfolding begin_call(1) race_inv_def by simp
  next
    case (access i a as changed changed' sh)
    note eff = access_effect [OF access(3)]
    have last: "last (a # as) = Finish" using ok [of i] access(2) by (simp add: thread_ok_def)
    have "thread_ok (as, changed')" using last eff(1) by (auto simp: thread_ok_def split: if_splits)
    then have ok': "thread_ok (((ra_threads s)(i := (as, changed'))) j)" for j using ok by simp
    have pend': "(\<exists>j. snd (((ra_threads s)(i := (as, changed'))) j)) \<or> rd_seen (ra_reader s) < rt_notified (sh_runtime sh) \<or>
        loads_current pe path screen sh (ra_reader s)"
    proof (cases "changed' \<or> (\<exists>j. j \<noteq> i \<and> snd (ra_threads s j))")
      case True
      then show ?thesis by (metis fun_upd_apply snd_conv)
    next
      case False
      then have flags: "(\<exists>j. snd (ra_threads s j)) = changed" using access(2) by (metis snd_conv)
      show ?thesis using eff(1) False pend seen unfolding flags by (auto split: if_splits)
    qed
    show ?thesis using ok' pend' seen eff(2) unfolding access(1) race_inv_def by auto
  next
    case reads
    show ?thesis using ok pend reader_keeps [OF seen, of pe path screen] reader_seen [OF seen, of pe path screen]
      unfolding reads race_inv_def by auto
  qed
qed

lemma race_inv_reach:
  assumes "race_reach pe path screen sh s"
  shows "race_inv pe path screen s"
  using assms unfolding race_reach_def
proof (induction rule: rtranclp_induct)
  case base
  then show ?case by (simp add: race_inv_def race_new_def reader_new_def loads_current_def thread_ok_def)
next
  case (step s s')
  then show ?case using race_inv_step by blast
qed

text \<open>The reader alone: at most four turns to the end of the snapshot it is taking, and five for another one.\<close>

definition shows_status :: "bool \<Rightarrow> string \<Rightarrow> u32 \<times> u32 \<Rightarrow> shared \<Rightarrow> reader \<Rightarrow> bool" where
  "shows_status pe path screen sh r \<longleftrightarrow>
     rd_phase r = Waits \<and> rd_seen r = rt_notified (sh_runtime sh) \<and> rd_shown r = status_of pe path screen sh"

lemma shows_status_stays: "shows_status pe path screen sh r \<Longrightarrow> shows_status pe path screen sh ((reader_step pe path screen sh ^^ n) r)"
  by (induction n) (simp_all add: shows_status_def reader_step_def)

lemma woken_settles:
  assumes "rd_phase r = Woken" and "rd_seen r = rt_notified (sh_runtime sh)"
  shows "shows_status pe path screen sh ((reader_step pe path screen sh ^^ 4) r)"
  using assms by (simp add: eval_nat_numeral shows_status_def reader_step_def status_of_def)

lemma waiting_settles:
  assumes "rd_phase r = Waits" and "rd_seen r \<le> rt_notified (sh_runtime sh)"
    and "rd_seen r < rt_notified (sh_runtime sh) \<or> loads_current pe path screen sh r" and "5 \<le> n"
  shows "shows_status pe path screen sh ((reader_step pe path screen sh ^^ n) r)"
proof (cases "rd_seen r < rt_notified (sh_runtime sh)")
  case True
  let ?r = "reader_step pe path screen sh r"
  have "rd_phase ?r = Woken" "rd_seen ?r = rt_notified (sh_runtime sh)" using assms(1) True by (simp_all add: reader_step_def)
  note stays = shows_status_stays [OF woken_settles [OF this, of pe path screen], of "n - 5"]
  have "(reader_step pe path screen sh ^^ (n - 5 + 4 + Suc 0)) r = (reader_step pe path screen sh ^^ (n - 5)) ((reader_step pe path screen sh ^^ 4) ?r)"
    by (simp only: funpow_add o_apply funpow.simps id_apply)
  moreover have "n - 5 + 4 + Suc 0 = n" using assms(4) by simp
  ultimately show ?thesis using stays by simp
next
  case False
  then have "shows_status pe path screen sh r" using assms(1-3) by (simp add: shows_status_def loads_current_def)
  then show ?thesis by (rule shows_status_stays)
qed

lemma reader_step_waits:
  "rd_phase (reader_step pe path screen sh r) =
     (case rd_phase r of Waits \<Rightarrow> if rd_seen r < rt_notified (sh_runtime sh) then Woken else Waits
      | Woken \<Rightarrow> GotInitialized (rt_initialized (sh_runtime sh))
      | GotInitialized i \<Rightarrow> GotOnline i (i \<and> rt_online (sh_runtime sh))
      | GotOnline i on \<Rightarrow> GotError i on (rt_last_error (sh_runtime sh)) | GotError i on err \<Rightarrow> Waits)"
  by (simp add: reader_step_def split: reader_phase.splits)

lemma reader_settles:
  assumes "rd_seen r \<le> rt_notified (sh_runtime sh)"
    and "rd_seen r < rt_notified (sh_runtime sh) \<or> loads_current pe path screen sh r"
  shows "shows_status pe path screen sh ((reader_step pe path screen sh ^^ 9) r)"
proof -
  let ?f = "reader_step pe path screen sh"
  define k :: nat where "k = (case rd_phase r of Waits \<Rightarrow> 0 | Woken \<Rightarrow> 4 | GotInitialized _ \<Rightarrow> 3 | GotOnline _ _ \<Rightarrow> 2 | GotError _ _ _ \<Rightarrow> 1)"
  have steps: "rd_seen ((?f ^^ m) r) \<le> rt_notified (sh_runtime sh) \<and>
      (rd_seen ((?f ^^ m) r) < rt_notified (sh_runtime sh) \<or> loads_current pe path screen sh ((?f ^^ m) r))" for m
    using assms by (induction m) (simp_all add: reader_keeps reader_seen)
  have "rd_phase ((?f ^^ k) r) = Waits"
    by (cases "rd_phase r") (simp_all add: k_def eval_nat_numeral reader_step_waits)
  moreover have "k \<le> 4" by (simp add: k_def split: reader_phase.split)
  ultimately have "shows_status pe path screen sh ((?f ^^ (9 - k)) ((?f ^^ k) r))" using steps [of k] by (intro waiting_settles) auto
  then show ?thesis using \<open>k \<le> 4\<close> by (simp flip: o_apply [of "?f ^^ (9 - k)" "?f ^^ k"] funpow_add)
qed

lemma status_shown:
  assumes "race_reach pe path screen sh s" and "at_rest s"
  shows "shows_status pe path screen (ra_shared s) ((reader_step pe path screen (ra_shared s) ^^ 9) (ra_reader s))"
proof -
  have inv: "race_inv pe path screen s" by (rule race_inv_reach [OF assms(1)])
  have "\<not> snd (ra_threads s i)" for i
  proof -
    have "thread_ok (ra_threads s i)" using inv by (simp add: race_inv_def)
    then show ?thesis using assms(2) by (simp add: thread_ok_def at_rest_def)
  qed
  then show ?thesis using inv reader_settles [of "ra_reader s" "ra_shared s" pe path screen] unfolding race_inv_def by blast
qed

text \<open>C14: No change of the status is lost, access by access. Any number of threads call \<open>set_online\<close>, \<open>set_error\<close>, \<open>set_initialized\<close>,
  \<open>set_offline\<close>, \<open>clear_error\<close>, update the LEDs or announce a change, their accesses interleaved in any way with each other and with the loads of
  the controller's snapshots, which may so mix values of different moments. Whenever all calls are over, nine turns of
  the reader later it waits and what the controller shows is the status: initialized, online, the error
  and the LEDs.\<close>

theorem ch9329_status_shown:
  assumes "race_reach port_exists path screen sh s" and "at_rest s"
  shows "shows_status port_exists path screen (ra_shared s) ((reader_step port_exists path screen (ra_shared s) ^^ 9) (ra_reader s))"
  using assms by (rule status_shown)

section \<open>Schedules\<close>

text \<open>Concrete interleavings.\<close>

datatype 'i turn = Begin 'i status_call | Next 'i | Read

fun race_turn :: "bool \<Rightarrow> string \<Rightarrow> u32 \<times> u32 \<Rightarrow> 'i turn \<Rightarrow> 'i race \<Rightarrow> 'i race" where
  "race_turn pe path screen (Begin i c) s =
     (if fst (ra_threads s i) = [] then s\<lparr>ra_threads := (ra_threads s)(i := (accesses c, False))\<rparr> else s)"
| "race_turn pe path screen (Next i) s =
     (case ra_threads s i of
        ([], _) \<Rightarrow> s
      | (a # as, changed) \<Rightarrow>
          (case access_step a (changed, ra_shared s) of
             (changed', sh) \<Rightarrow> s\<lparr>ra_threads := (ra_threads s)(i := (as, changed')), ra_shared := sh\<rparr>))"
| "race_turn pe path screen Read s = s\<lparr>ra_reader := reader_step pe path screen (ra_shared s) (ra_reader s)\<rparr>"

lemma race_turn_step: "(race_step pe path screen)\<^sup>*\<^sup>* s (race_turn pe path screen t s)"
proof (cases t)
  case (Begin i c)
  then show ?thesis using begin_call [of s i "snd (ra_threads s i)" pe path screen c]
    by (cases "ra_threads s i") auto
next
  case (Next i)
  obtain as ch where t: "ra_threads s i = (as, ch)" by fastforce
  show ?thesis
  proof (cases as)
    case (Cons a as')
    obtain ch' sh where "access_step a (ch, ra_shared s) = (ch', sh)" by fastforce
    then show ?thesis using access [of s i a as' ch ch' sh pe path screen] t Cons Next by auto
  qed (use t Next in simp)
next
  case Read
  then show ?thesis using reads [of pe path screen s] by auto
qed

lemma race_turns_reach: "race_reach pe path screen sh (fold (race_turn pe path screen) ts (race_new pe path screen sh))"
proof -
  have "(race_step pe path screen)\<^sup>*\<^sup>* s (fold (race_turn pe path screen) ts s)" for s :: "'a race"
  proof (induction ts arbitrary: s)
    case (Cons t ts)
    show ?case using rtranclp_trans [OF race_turn_step Cons.IH] by simp
  qed simp
  then show ?thesis by (simp add: race_reach_def)
qed

text \<open>The worker reports success while a caller reports an error: the error stays although the backend counts as online. Nothing
  is running any more; the next probe clears it.\<close>

lemma online_with_error:
  fixes sh path screen reason error_code
  defines "s \<equiv> fold (race_turn True path screen)
      [Begin (0 :: nat) SetOnline, Begin 1 (SetError reason error_code), Next 1, Next 0, Next 0, Next 1, Next 0, Next 1] (race_new True path screen sh)"
  shows "race_reach True path screen sh s \<and> at_rest s \<and> rt_online (sh_runtime (ra_shared s)) \<and>
    rt_last_error (sh_runtime (ra_shared s)) = Some (reason, error_code)"
proof -
  have "race_reach True path screen sh s" unfolding s_def by (rule race_turns_reach)
  moreover have "at_rest s \<and> rt_online (sh_runtime (ra_shared s)) \<and> rt_last_error (sh_runtime (ra_shared s)) = Some (reason, error_code)"
    by (simp add: s_def race_new_def at_rest_def on_shared_def notify_def)
  ultimately show ?thesis by blast
qed

text \<open>\<open>init\<close> and \<open>reload\<close> of the controller take a first snapshot and subscribe after it. A call that ends between the two is announced to
  nobody: the controller goes on showing the old status.\<close>

lemma change_before_subscribing:
  assumes "first = \<lparr>sh_runtime = runtime_new, sh_leds = leds\<rparr>" and "sh = call_alone (SetInitialized True) first"
  shows "rd_shown ((reader_step True path screen sh ^^ n) (reader_new True path screen first sh)) \<noteq> status_of True path screen sh"
proof -
  have "reader_step True path screen sh (reader_new True path screen first sh) = reader_new True path screen first sh"
    by (simp add: reader_step_def reader_new_def)
  then have same: "(reader_step True path screen sh ^^ n) (reader_new True path screen first sh) = reader_new True path screen first sh"
    by (induction n) simp_all
  show ?thesis unfolding same unfolding assms(2) calls_alone
    by (simp add: reader_new_def status_of_def snapshot_from_def assms(1) on_shared_def set_initialized_def runtime_new_def notify_def Let_def)
qed

definition leds_off :: led_status where
  "leds_off = \<lparr>led_num_lock = False, led_caps_lock = False, led_scroll_lock = False\<rparr>"

theorem ch9329_status_shown_witness:
  "\<exists>s :: nat race. race_reach True ''/dev/ttyUSB0'' (1920, 1080) \<lparr>sh_runtime = runtime_new, sh_leds = leds_off\<rparr> s \<and> rt_online (sh_runtime (ra_shared s)) \<and>
     shows_status True ''/dev/ttyUSB0'' (1920, 1080) (ra_shared s) ((reader_step True ''/dev/ttyUSB0'' (1920, 1080) (ra_shared s) ^^ 9) (ra_reader s))"
proof -
  let ?s = "fold (race_turn True ''/dev/ttyUSB0'' (1920, 1080))
      [Begin (0 :: nat) (SetInitialized True), Next 0, Begin 1 SetOnline, Next 1, Next 0, Read, Read, Next 1, Read, Next 1]
      (race_new True ''/dev/ttyUSB0'' (1920, 1080) \<lparr>sh_runtime = runtime_new, sh_leds = leds_off\<rparr>)"
  have reach: "race_reach True ''/dev/ttyUSB0'' (1920, 1080) \<lparr>sh_runtime = runtime_new, sh_leds = leds_off\<rparr> ?s" by (rule race_turns_reach)
  have "at_rest ?s" "rt_online (sh_runtime (ra_shared ?s))"
    by (simp_all add: race_new_def at_rest_def on_shared_def notify_def runtime_new_def)
  then show ?thesis using reach ch9329_status_shown [OF reach] by blast
qed

end
