(* ===== verification/Rust_String.thy ===== *)
theory Rust_String
  imports Kvm_Prelude
begin

text \<open>
  Rust strings and the operations of the standard library that the modelled code uses on them: the methods of
  \<open>str\<close> and \<open>char\<close>, parsing of numbers, UTF-8.
\<close>

section \<open>Characters and white space\<close>

text \<open>A Rust string is the list of its characters (Unicode scalar values).\<close>

type_synonym rstr = "nat list"

definition lit :: "string \<Rightarrow> rstr" where
  "lit s = map of_char s"

text \<open>\<open>str::len\<close>: the number of UTF-8 bytes.\<close>

definition utf8_width :: "nat \<Rightarrow> nat" where
  "utf8_width c = (if c < 0x80 then 1 else if c < 0x800 then 2 else if c < 0x10000 then 3 else 4)"

definition utf8_len :: "rstr \<Rightarrow> nat" where
  "utf8_len s = sum_list (map utf8_width s)"

text \<open>\<open>char::is_whitespace\<close> and \<open>str::trim\<close>.\<close>

definition is_whitespace :: "nat \<Rightarrow> bool" where
  "is_whitespace c \<longleftrightarrow> (9 \<le> c \<and> c \<le> 13) \<or> c = 32 \<or> c = 0x85 \<or> c = 0xA0 \<or> c = 0x1680 \<or>
     (0x2000 \<le> c \<and> c \<le> 0x200A) \<or> c = 0x2028 \<or> c = 0x2029 \<or> c = 0x202F \<or> c = 0x205F \<or> c = 0x3000"

definition trim :: "rstr \<Rightarrow> rstr" where
  "trim s = rev (dropWhile is_whitespace (rev (dropWhile is_whitespace s)))"

text \<open>\<open>str::parse::<u64>\<close>: an optional plus sign, then digits; \<open>None\<close> also on overflow.\<close>

definition parse_u64 :: "rstr \<Rightarrow> u64 option" where
  "parse_u64 s =
     (let ds = (case s of [] \<Rightarrow> [] | c # cs \<Rightarrow> if c = 43 \<and> cs \<noteq> [] then cs else s)
      in if ds = [] \<or> (\<exists>c \<in> set ds. c < 48 \<or> 57 < c) then None
         else
           let n = foldl (\<lambda>acc c. 10 * acc + (c - 48)) 0 ds
           in if n < 2 ^ 64 then Some (word_of_nat n) else None)"

section \<open>Searching and splitting\<close>

text \<open>\<open>split(char)\<close>\<close>

fun split_on :: "nat \<Rightarrow> rstr \<Rightarrow> rstr list" where
  "split_on d [] = [[]]"
| "split_on d (c # cs) =
     (if c = d then [] # split_on d cs
      else (case split_on d cs of [] \<Rightarrow> [[c]] | w # ws \<Rightarrow> (c # w) # ws))"

lemma split_on_none: "d \<notin> set s \<Longrightarrow> split_on d s = [s]"
  by (induction s) auto

lemma split_on_nonempty [simp]: "split_on d s \<noteq> []"
  by (induction s) (auto split: list.split)

text \<open>\<open>split_once(&str)\<close> for a pattern that is not empty, and \<open>contains\<close>.\<close>

fun split_once :: "rstr \<Rightarrow> rstr \<Rightarrow> (rstr \<times> rstr) option" where
  "split_once d [] = None"
| "split_once d (c # cs) =
     (if take (length d) (c # cs) = d then Some ([], drop (length d) (c # cs))
      else map_option (\<lambda>(a, b). (c # a, b)) (split_once d cs))"

definition str_contains :: "rstr \<Rightarrow> rstr \<Rightarrow> bool" where
  "str_contains s d \<longleftrightarrow> split_once d s \<noteq> None"

text \<open>\<open>trim_matches(char)\<close>\<close>

definition trim_char :: "nat \<Rightarrow> rstr \<Rightarrow> rstr" where
  "trim_char d s = rev (dropWhile (\<lambda>c. c = d) (rev (dropWhile (\<lambda>c. c = d) s)))"

definition to_ascii_lowercase :: "rstr \<Rightarrow> rstr" where
  "to_ascii_lowercase s = map (\<lambda>c. if 65 \<le> c \<and> c \<le> 90 then c + 32 else c) s"

text \<open>\<open>split_whitespace\<close>: the runs of other characters.\<close>

function split_whitespace :: "rstr \<Rightarrow> rstr list" where
  "split_whitespace s =
     (let t = dropWhile is_whitespace s in
      if t = [] then []
      else takeWhile (\<lambda>c. \<not> is_whitespace c) t # split_whitespace (dropWhile (\<lambda>c. \<not> is_whitespace c) t))"
  by auto
termination
proof (relation "measure length", goal_cases)
  case (2 s t)
  then have "t \<noteq> []" "\<not> is_whitespace (hd t)" "length t \<le> length s"
    using hd_dropWhile [of is_whitespace s] length_dropWhile_le [of is_whitespace s] by auto
  then show ?case
    using length_dropWhile_le [of "\<lambda>c. \<not> is_whitespace c" "tl t"] by (cases t) auto
qed simp

declare split_whitespace.simps [simp del]

text \<open>\<open>str::parse::<u8>\<close>\<close>

definition parse_u8 :: "rstr \<Rightarrow> u8 option" where
  "parse_u8 s =
     (let ds = (case s of [] \<Rightarrow> [] | c # cs \<Rightarrow> if c = 43 \<and> cs \<noteq> [] then cs else s)
      in if ds = [] \<or> (\<exists>c \<in> set ds. c < 48 \<or> 57 < c) then None
         else
           let n = foldl (\<lambda>acc c. 10 * acc + (c - 48)) 0 ds
           in if n < 256 then Some (word_of_nat n) else None)"

section \<open>UTF-8\<close>

definition is_scalar_value :: "nat \<Rightarrow> bool" where
  "is_scalar_value c \<longleftrightarrow> c < 0xD800 \<or> (0xE000 \<le> c \<and> c < 0x110000)"

definition utf8_encode1 :: "nat \<Rightarrow> bytes" where
  "utf8_encode1 c = map word_of_nat
     (if c < 0x80 then [c]
      else if c < 0x800 then [0xC0 + c div 64, 0x80 + c mod 64]
      else if c < 0x10000 then [0xE0 + c div 4096, 0x80 + c div 64 mod 64, 0x80 + c mod 64]
      else [0xF0 + c div 262144, 0x80 + c div 4096 mod 64, 0x80 + c div 64 mod 64, 0x80 + c mod 64])"

definition utf8_encode :: "rstr \<Rightarrow> bytes" where
  "utf8_encode s = concat (map utf8_encode1 s)"

text \<open>One step of decoding: a character and its width, or \<open>None\<close> and the number of bytes that are rejected
  together (the longest beginning of a character that is there). A byte that is missing counts as
  0, which no position but the first accepts.\<close>

definition utf8_step :: "bytes \<Rightarrow> nat option \<times> nat" where
  "utf8_step bs =
     (let at = (\<lambda>i. if i < length bs then unat (bs ! i) else 0);
          b0 = at 0; b1 = at 1; b2 = at 2; b3 = at 3;
          cont = (\<lambda>b. 0x80 \<le> b \<and> b \<le> 0xBF)
      in if b0 < 0x80 then (Some b0, 1)
         else if 0xC2 \<le> b0 \<and> b0 \<le> 0xDF then
           (if cont b1 then (Some ((b0 - 0xC0) * 64 + (b1 - 0x80)), 2) else (None, 1))
         else if 0xE0 \<le> b0 \<and> b0 \<le> 0xEF then
           (if \<not> (cont b1 \<and> (b0 = 0xE0 \<longrightarrow> 0xA0 \<le> b1) \<and> (b0 = 0xED \<longrightarrow> b1 \<le> 0x9F)) then (None, 1)
            else if \<not> cont b2 then (None, 2)
            else (Some ((b0 - 0xE0) * 4096 + (b1 - 0x80) * 64 + (b2 - 0x80)), 3))
         else if 0xF0 \<le> b0 \<and> b0 \<le> 0xF4 then
           (if \<not> (cont b1 \<and> (b0 = 0xF0 \<longrightarrow> 0x90 \<le> b1) \<and> (b0 = 0xF4 \<longrightarrow> b1 \<le> 0x8F)) then (None, 1)
            else if \<not> cont b2 then (None, 2)
            else if \<not> cont b3 then (None, 3)
            else (Some ((b0 - 0xF0) * 262144 + (b1 - 0x80) * 4096 + (b2 - 0x80) * 64 + (b3 - 0x80)), 4))
         else (None, 1))"

lemma utf8_step_pos: "0 < snd (utf8_step bs)"
  by (simp add: utf8_step_def Let_def)

lemma utf8_step_shrinks: "bs \<noteq> [] \<Longrightarrow> (c, n) = utf8_step bs \<Longrightarrow> (drop n bs, bs) \<in> measure length"
proof -
  assume "bs \<noteq> []" "(c, n) = utf8_step bs"
  then have "0 < n" by (metis snd_conv utf8_step_pos)
  with \<open>bs \<noteq> []\<close> show ?thesis by (cases bs) auto
qed

text \<open>\<open>String::from_utf8_lossy\<close> and \<open>String::from_utf8\<close>\<close>

function from_utf8_lossy :: "bytes \<Rightarrow> rstr" where
  "from_utf8_lossy bs =
     (if bs = [] then []
      else case utf8_step bs of (c, n) \<Rightarrow> (case c of Some c \<Rightarrow> c | None \<Rightarrow> 0xFFFD) # from_utf8_lossy (drop n bs))"
  by auto
termination
  by (relation "measure length") (rule wf_measure, erule utf8_step_shrinks, simp)

declare from_utf8_lossy.simps [simp del]

function from_utf8 :: "bytes \<Rightarrow> rstr option" where
  "from_utf8 bs =
     (if bs = [] then Some []
      else case utf8_step bs of
        (None, n) \<Rightarrow> None
      | (Some c, n) \<Rightarrow> map_option (\<lambda>s. c # s) (from_utf8 (drop n bs)))"
  by auto
termination
  by (relation "measure length") (rule wf_measure, erule utf8_step_shrinks, simp)

declare from_utf8.simps [simp del]

lemma unat_u8: "n < 256 \<Longrightarrow> unat (word_of_nat n :: u8) = n"
  by (simp add: unat_of_nat)

lemma utf8_step_encode1:
  assumes "is_scalar_value c"
  shows "utf8_step (utf8_encode1 c @ rest) = (Some c, length (utf8_encode1 c))"
proof -
  consider "c < 0x80" | "0x80 \<le> c" "c < 0x800" | "0x800 \<le> c" "c < 0x10000" | "0x10000 \<le> c" "c < 0x110000"
    using assms by (force simp: is_scalar_value_def)
  then show ?thesis
  proof cases
    case 1
    then show ?thesis by (simp add: utf8_encode1_def utf8_step_def Let_def unat_u8)
  next
    case 2
    define a where "a = c div 64"
    define d where "d = c mod 64"
    have c: "c = a * 64 + d" by (simp add: a_def d_def)
    have r: "a < 32" "2 \<le> a" "d < 64" using 2 by (auto simp: a_def d_def)
    have e: "utf8_encode1 c = map word_of_nat [0xC0 + a, 0x80 + d]" using 2 by (simp add: utf8_encode1_def a_def d_def)
    show ?thesis
      using r unat_u8 [of "0xC0 + a"] unat_u8 [of "0x80 + d"] c
      unfolding e utf8_step_def Let_def by auto
  next
    case 3
    define a where "a = c div 4096"
    define b where "b = c div 64 mod 64"
    define d where "d = c mod 64"
    have "c div 64 div 64 = a" by (simp add: a_def div_mult2_eq [symmetric])
    then have "c div 64 = a * 64 + b" unfolding b_def by (metis div_mult_mod_eq)
    moreover have "c = c div 64 * 64 + d" unfolding d_def by simp
    ultimately have c: "c = a * 4096 + b * 64 + d" by simp
    have r: "a < 16" "b < 64" "d < 64" using 3 by (auto simp: a_def b_def d_def)
    have "a = 0 \<longrightarrow> 32 \<le> b" using 3 r unfolding c by auto
    moreover have "a = 13 \<longrightarrow> b < 32" using assms r unfolding is_scalar_value_def c by auto
    moreover have e: "utf8_encode1 c = map word_of_nat [0xE0 + a, 0x80 + b, 0x80 + d]"
      using 3 by (simp add: utf8_encode1_def a_def b_def d_def)
    ultimately show ?thesis
      using r unat_u8 [of "0xE0 + a"] unat_u8 [of "0x80 + b"] unat_u8 [of "0x80 + d"] c
      unfolding e utf8_step_def Let_def by auto
  next
    case 4
    define a where "a = c div 262144"
    define b where "b = c div 4096 mod 64"
    define d where "d = c div 64 mod 64"
    define g where "g = c mod 64"
    have "c div 64 div 64 = c div 4096" "c div 4096 div 64 = a" by (simp_all add: a_def div_mult2_eq [symmetric])
    then have "c div 4096 = a * 64 + b" "c div 64 = c div 4096 * 64 + d" unfolding b_def d_def by (metis div_mult_mod_eq)+
    moreover have "c = c div 64 * 64 + g" unfolding g_def by simp
    ultimately have c: "c = a * 262144 + b * 4096 + d * 64 + g" by simp
    have r: "a < 5" "b < 64" "d < 64" "g < 64" using 4 by (auto simp: a_def b_def d_def g_def)
    have "a = 0 \<longrightarrow> 16 \<le> b" using 4 r unfolding c by auto
    moreover have "a = 4 \<longrightarrow> b < 16" using 4 r unfolding c by auto
    moreover have e: "utf8_encode1 c = map word_of_nat [0xF0 + a, 0x80 + b, 0x80 + d, 0x80 + g]"
      using 4 by (simp add: utf8_encode1_def a_def b_def d_def g_def)
    ultimately show ?thesis
      using r unat_u8 [of "0xF0 + a"] unat_u8 [of "0x80 + b"] unat_u8 [of "0x80 + d"] unat_u8 [of "0x80 + g"] c
      unfolding e utf8_step_def Let_def by auto
  qed
qed

lemma utf8_encode1_nonempty: "utf8_encode1 c \<noteq> []"
  by (simp add: utf8_encode1_def)

text \<open>Encoding and decoding.\<close>

lemma from_utf8_encode: "\<forall>c \<in> set s. is_scalar_value c \<Longrightarrow> from_utf8 (utf8_encode s) = Some s"
proof (induction s)
  case Nil
  then show ?case by (subst from_utf8.simps) (simp add: utf8_encode_def)
next
  case (Cons c s)
  have "utf8_encode (c # s) = utf8_encode1 c @ utf8_encode s" by (simp add: utf8_encode_def)
  then show ?case
    using Cons utf8_step_encode1 [of c "utf8_encode s"] utf8_encode1_nonempty [of c]
    by (subst from_utf8.simps) simp
qed

lemma from_utf8_lossy_encode: "\<forall>c \<in> set s. is_scalar_value c \<Longrightarrow> from_utf8_lossy (utf8_encode s) = s"
proof (induction s)
  case Nil
  then show ?case by (subst from_utf8_lossy.simps) (simp add: utf8_encode_def)
next
  case (Cons c s)
  have "utf8_encode (c # s) = utf8_encode1 c @ utf8_encode s" by (simp add: utf8_encode_def)
  then show ?case
    using Cons utf8_step_encode1 [of c "utf8_encode s"] utf8_encode1_nonempty [of c]
    by (subst from_utf8_lossy.simps) simp
qed

end
