(* ===== verification/Image_File.thy ===== *)
theory Image_File
  imports Rust_String
begin

text \<open>
  The byte store under the Ventoy image library: a file (or any \<open>Write + Seek\<close>) as its contents.
  \<open>seek(SeekFrom::Start(p))\<close> followed by \<open>write_all\<close> is \<open>write_at p\<close>: it overwrites and, past the
  end, extends the file, a gap reading as zeros. \<open>seek\<close> followed by \<open>read_exact\<close> is \<open>read_at\<close>,
  \<open>None\<close> (\<open>UnexpectedEof\<close>) when the file is too short. Other I/O failures are not modelled.
\<close>

definition write_at :: "nat \<Rightarrow> bytes \<Rightarrow> bytes \<Rightarrow> bytes" where
  "write_at p d f =
     (if d = [] then f
      else take p f @ replicate (p - length f) 0 @ d @ drop (p + length d) f)"

definition read_at :: "nat \<Rightarrow> nat \<Rightarrow> bytes \<Rightarrow> bytes option" where
  "read_at p n f = (if p + n \<le> length f then Some (slice p n f) else None)"

lemma write_at_Nil [simp]: "write_at p [] f = f"
  by (simp add: write_at_def)

lemma length_write_at:
  "length (write_at p d f) = (if d = [] then length f else max (length f) (p + length d))"
  by (auto simp: write_at_def)

lemma length_write_at_inside [simp]: "p + length d \<le> length f \<Longrightarrow> length (write_at p d f) = length f"
  by (simp add: length_write_at)

lemma write_at_inside: "p + length d \<le> length f \<Longrightarrow> write_at p d f = copy_at p d f"
  by (simp add: write_at_def copy_at_def)

lemma slice_write_at_same [simp]: "slice p (length d) (write_at p d f) = d"
  by (cases "d = []") (auto simp: slice_def write_at_def)

lemma slice_write_at_same' : "n = length d \<Longrightarrow> slice p n (write_at p d f) = d"
  by simp

lemma nth_write_at:
  assumes "i < length (write_at p d f)"
  shows "write_at p d f ! i =
    (if p \<le> i \<and> i < p + length d then d ! (i - p) else if i < length f then f ! i else 0)"
proof (cases "d = []")
  case True
  with assms show ?thesis by auto
next
  case False
  consider "i < p" "i < length f" | "i < p" "length f \<le> i" | "p \<le> i" "i < p + length d" | "p + length d \<le> i"
    by linarith
  moreover have m: "min (length f) p + (p - length f) = p" by (simp add: min_def)
  ultimately show ?thesis
  proof cases
    case 4
    with assms False have "i < length f" by (auto simp: length_write_at)
    moreover have "\<not> i - p < length d" using 4 by linarith
    ultimately show ?thesis using 4 False by (simp add: write_at_def nth_append)
  qed (use False m in \<open>auto simp: write_at_def nth_append\<close>)
qed

lemma slice_nth: "i < n \<Longrightarrow> p + n \<le> length xs \<Longrightarrow> slice p n xs ! i = xs ! (p + i)"
  by (simp add: slice_def)

lemma slice_eqI:
  "p + n \<le> length xs \<Longrightarrow> p + n \<le> length ys \<Longrightarrow> (\<And>i. p \<le> i \<Longrightarrow> i < p + n \<Longrightarrow> xs ! i = ys ! i) \<Longrightarrow>
     slice p n xs = slice p n ys"
  by (rule nth_equalityI) (simp_all add: slice_nth)

text \<open>A write leaves every range alone that it does not meet.\<close>

lemma slice_write_at_other:
  assumes "q + n \<le> length f" and "q + n \<le> p \<or> p + length d \<le> q"
  shows "slice q n (write_at p d f) = slice q n f"
proof -
  have len: "q + n \<le> length (write_at p d f)" using assms by (auto simp: length_write_at)
  show ?thesis
    using assms len by (intro slice_eqI) (auto simp: nth_write_at)
qed

lemma read_at_write_at_same: "read_at p (length d) (write_at p d f) = (if d = [] \<and> length f < p then None else Some d)"
  by (auto simp: read_at_def length_write_at)

lemma slice_slice: "i + m \<le> n \<Longrightarrow> slice i m (slice p n xs) = slice (p + i) m xs"
  by (simp add: slice_def take_drop add.commute min_def)

lemma slice_write_at_within:
  assumes "p \<le> q" and "q + n \<le> p + length d"
  shows "slice q n (write_at p d f) = slice (q - p) n d"
proof -
  have "slice (q - p) n (slice p (length d) (write_at p d f)) = slice (p + (q - p)) n (write_at p d f)"
    using assms by (intro slice_slice) simp
  then show ?thesis using assms by simp
qed

text \<open>Writing several byte strings one after the other is one write.\<close>

lemma write_at_append: "write_at (p + length d) e (write_at p d f) = write_at p (d @ e) f"
proof (cases "d = [] \<or> e = []")
  case False
  moreover have "p - length f + min p (length f) = p" by (simp add: min_def)
  moreover have "p + length d - (p - length f) - min p (length f) = length d"
    by (simp add: min_def)
  ultimately show ?thesis
    by (auto simp: write_at_def ac_simps)
qed auto


section \<open>Stores of cells\<close>

text \<open>
  The contract of a store with independently addressable cells: a write changes its own cell and no
  other. The FAT, the cluster heap and the allocation bitmap of a volume all provide it.
\<close>

locale cell_store =
  fixes get :: "'s \<Rightarrow> 'k \<Rightarrow> 'v"
    and put :: "'k \<Rightarrow> 'v \<Rightarrow> 's \<Rightarrow> 's"
    and inv :: "'s \<Rightarrow> bool"
    and cell :: "'s \<Rightarrow> 'k \<Rightarrow> bool"
    and fits :: "'s \<Rightarrow> 'v \<Rightarrow> bool"
  assumes put_inv: "inv s \<Longrightarrow> cell s k \<Longrightarrow> fits s v \<Longrightarrow> inv (put k v s)"
    and put_cell: "inv s \<Longrightarrow> cell s k \<Longrightarrow> fits s v \<Longrightarrow> cell (put k v s) k' = cell s k'"
    and put_fits: "inv s \<Longrightarrow> cell s k \<Longrightarrow> fits s v \<Longrightarrow> fits (put k v s) v' = fits s v'"
    and get_put: "inv s \<Longrightarrow> cell s k \<Longrightarrow> cell s k' \<Longrightarrow> fits s v \<Longrightarrow>
      get (put k v s) k' = (if k' = k then v else get s k')"
begin

definition puts :: "('k \<times> 'v) list \<Rightarrow> 's \<Rightarrow> 's" where
  "puts kvs s = fold (\<lambda>(k, v). put k v) kvs s"

lemma puts_Nil [simp]: "puts [] s = s"
  by (simp add: puts_def)

lemma puts_Cons [simp]: "puts ((k, v) # kvs) s = puts kvs (put k v s)"
  by (simp add: puts_def)

lemma puts_keep:
  "inv s \<Longrightarrow> \<forall>(k, v) \<in> set kvs. cell s k \<and> fits s v \<Longrightarrow>
     inv (puts kvs s) \<and> cell (puts kvs s) k' = cell s k' \<and> fits (puts kvs s) v' = fits s v'"
  by (induction kvs arbitrary: s) (auto simp: put_inv put_cell put_fits)

text \<open>Writing a list of cells with distinct keys.\<close>

lemma get_puts:
  assumes "inv s" and "\<forall>(k, v) \<in> set kvs. cell s k \<and> fits s v" and "distinct (map fst kvs)" and "cell s k'"
  shows "get (puts kvs s) k' = (case map_of kvs k' of Some v \<Rightarrow> v | None \<Rightarrow> get s k')"
  using assms
proof (induction kvs arbitrary: s)
  case (Cons kv kvs)
  obtain k v where kv: "kv = (k, v)" by (cases kv)
  have "inv (put k v s)" "\<forall>(j, u) \<in> set kvs. cell (put k v s) j \<and> fits (put k v s) u" "cell (put k v s) k'"
    using Cons.prems kv by (auto simp: put_inv put_cell put_fits)
  then have "get (puts kvs (put k v s)) k' =
      (case map_of kvs k' of Some v \<Rightarrow> v | None \<Rightarrow> get (put k v s) k')"
    using Cons.prems(3) by (intro Cons.IH) simp_all
  moreover have "map_of kvs k = None" using Cons.prems(3) kv by (simp add: map_of_eq_None_iff)
  ultimately show ?case using Cons.prems kv by (auto simp: get_put split: option.split)
qed simp

lemma get_puts_same:
  "inv s \<Longrightarrow> \<forall>(k, v) \<in> set kvs. cell s k \<and> fits s v \<Longrightarrow> distinct (map fst kvs) \<Longrightarrow> (k, v) \<in> set kvs \<Longrightarrow>
     get (puts kvs s) k = v"
  using get_puts [of s kvs k] by auto

lemma get_puts_other:
  "inv s \<Longrightarrow> \<forall>(k, v) \<in> set kvs. cell s k \<and> fits s v \<Longrightarrow> cell s k' \<Longrightarrow> k' \<notin> fst ` set kvs \<Longrightarrow>
     get (puts kvs s) k' = get s k'"
  by (induction kvs arbitrary: s) (auto simp: get_put put_inv put_cell put_fits)

end

section \<open>A seekable writer\<close>

record cursor =
  cur_data :: bytes
  cur_pos :: nat

definition seek_start :: "u64 \<Rightarrow> cursor \<Rightarrow> cursor" where
  "seek_start p c = c\<lparr>cur_pos := unat p\<rparr>"

definition write_all :: "bytes \<Rightarrow> cursor \<Rightarrow> cursor" where
  "write_all d c = c\<lparr>cur_data := write_at (cur_pos c) d (cur_data c), cur_pos := cur_pos c + length d\<rparr>"

lemma write_all_append: "write_all e (write_all d c) = write_all (d @ e) c"
  by (simp add: write_all_def write_at_append add.assoc)

lemma write_all_seek: "cur_data (write_all d (seek_start p c)) = write_at (unat p) d (cur_data c)"
  by (simp add: write_all_def seek_start_def)

section \<open>Errors of the image library\<close>

text \<open>\<open>VentoyError\<close>. An \<open>Io\<close> error is the end of the file, a failed read of a streaming reader (with its
  message) or a seek before the start. \<open>Panic\<close> stands for a panic (an index out of range), which ends the
  process; it is not an error value of the code.\<close>

datatype ventoy_error =
    UnexpectedEof
  | IoOther rstr
  | NegativeSeek
  | InvalidSize rstr
  | SizeParseError rstr
  | PartitionError rstr
  | FilesystemError rstr
  | ImageError rstr
  | FileNotFound rstr
  | ResourceNotFound rstr
  | Panic

text \<open>\<open>to_string\<close>\<close>

fun ventoy_error_display :: "ventoy_error \<Rightarrow> rstr" where
  "ventoy_error_display UnexpectedEof = lit ''IO error: failed to fill whole buffer''"
| "ventoy_error_display (IoOther msg) = lit ''IO error: '' @ msg"
| "ventoy_error_display NegativeSeek = lit ''IO error: Seek to negative position''"
| "ventoy_error_display (InvalidSize s) = lit ''Invalid image size: '' @ s @ lit ''. Minimum is 64MB''"
| "ventoy_error_display (SizeParseError s) = lit ''Failed to parse size string: '' @ s"
| "ventoy_error_display (PartitionError s) = lit ''Partition error: '' @ s"
| "ventoy_error_display (FilesystemError s) = lit ''Filesystem error: '' @ s"
| "ventoy_error_display (ImageError s) = lit ''Image not found or invalid: '' @ s"
| "ventoy_error_display (FileNotFound s) = lit ''File not found: '' @ s"
| "ventoy_error_display (ResourceNotFound s) = lit ''Resource not found: '' @ s"
| "ventoy_error_display Panic = []"

end
