(* ===== verification/Ventoy_Partition.thy ===== *)
theory Ventoy_Partition
  imports Image_File
begin

text \<open>
  \<^verbatim>\<open>src/libs/ventoy-img-rs/src/partition.rs\<close>: the layout of a Ventoy image (data partition
  from sector 2048, 32 MB EFI partition at the end), the MBR partition table that records it, and
  the parser for image sizes.
\<close>

definition SECTOR_SIZE :: u64 where "SECTOR_SIZE = 512"
definition DATA_PART_START_SECTOR :: u64 where "DATA_PART_START_SECTOR = 2048"
definition EFI_PART_SIZE_SECTORS :: u64 where "EFI_PART_SIZE_SECTORS = 65536"
definition MIN_IMAGE_SIZE :: u64 where "MIN_IMAGE_SIZE = 64 * 1024 * 1024"
definition MBR_TYPE_EXFAT :: u8 where "MBR_TYPE_EXFAT = 0x07"
definition MBR_TYPE_EFI :: u8 where "MBR_TYPE_EFI = 0xEF"

lemmas partition_consts = SECTOR_SIZE_def DATA_PART_START_SECTOR_def EFI_PART_SIZE_SECTORS_def
  MIN_IMAGE_SIZE_def MBR_TYPE_EXFAT_def MBR_TYPE_EFI_def

record partition_layout =
  total_sectors :: u64
  data_start_sector :: u64
  data_size_sectors :: u64
  efi_start_sector :: u64
  efi_size_sectors :: u64

definition calculate_layout :: "u64 \<Rightarrow> ventoy_error + partition_layout" where
  "calculate_layout total_size =
     (if total_size < MIN_IMAGE_SIZE then
        Inl (InvalidSize (lit (nat_to_string (unat (total_size div (1024 * 1024))))
               @ lit ''MB (minimum 64MB)''))
      else
        let total_sectors = total_size div SECTOR_SIZE;
            efi_start = ((total_sectors - EFI_PART_SIZE_SECTORS) div 8) * 8;
            data_size = efi_start - DATA_PART_START_SECTOR
        in Inr \<lparr>total_sectors = total_sectors, data_start_sector = DATA_PART_START_SECTOR,
             data_size_sectors = data_size, efi_start_sector = efi_start,
             efi_size_sectors = EFI_PART_SIZE_SECTORS\<rparr>)"

definition data_offset :: "partition_layout \<Rightarrow> u64" where
  "data_offset l = data_start_sector l * SECTOR_SIZE"

definition data_size :: "partition_layout \<Rightarrow> u64" where
  "data_size l = data_size_sectors l * SECTOR_SIZE"

definition efi_offset :: "partition_layout \<Rightarrow> u64" where
  "efi_offset l = efi_start_sector l * SECTOR_SIZE"

section \<open>The MBR\<close>

record mbr_entry =
  boot_indicator :: u8
  start_chs :: bytes
  partition_type :: u8
  end_chs :: bytes
  start_lba :: u32
  size_sectors :: u32

definition mbr_entry_new :: "bool \<Rightarrow> u8 \<Rightarrow> u64 \<Rightarrow> u64 \<Rightarrow> mbr_entry" where
  "mbr_entry_new bootable ptype start sectors =
     \<lparr>boot_indicator = (if bootable then 0x80 else 0x00), start_chs = [0xFE, 0xFF, 0xFF],
      partition_type = ptype, end_chs = [0xFE, 0xFF, 0xFF],
      start_lba = ucast start, size_sectors = ucast sectors\<rparr>"

definition mbr_entry_to_bytes :: "mbr_entry \<Rightarrow> bytes" where
  "mbr_entry_to_bytes e =
     (let b = replicate 16 0;
          b = b[0 := boot_indicator e];
          b = copy_at 1 (start_chs e) b;
          b = b[4 := partition_type e];
          b = copy_at 5 (end_chs e) b;
          b = copy_at 8 (to_le 4 (start_lba e)) b;
          b = copy_at 12 (to_le 4 (size_sectors e)) b
      in b)"

definition write_mbr_partition_table :: "partition_layout \<Rightarrow> cursor \<Rightarrow> cursor" where
  "write_mbr_partition_table layout c =
     (let part1 = mbr_entry_new True MBR_TYPE_EXFAT (data_start_sector layout) (data_size_sectors layout);
          part2 = mbr_entry_new False MBR_TYPE_EFI (efi_start_sector layout) (efi_size_sectors layout);
          c = seek_start 446 c;
          c = write_all (mbr_entry_to_bytes part1) c;
          c = write_all (mbr_entry_to_bytes part2) c;
          c = write_all (replicate 32 0) c;
          c = seek_start 510 c
      in write_all [0x55, 0xAA] c)"

section \<open>Sizes\<close>

definition parse_size :: "(rstr \<Rightarrow> rstr) \<Rightarrow> rstr \<Rightarrow> ventoy_error + u64" where
  "parse_size to_uppercase s =
     (let s = to_uppercase (trim s);
          (num_str, multiplier) =
            (if s \<noteq> [] \<and> last s = of_char CHR ''G'' then (butlast s, 1024 * 1024 * 1024 :: u64)
             else if s \<noteq> [] \<and> last s = of_char CHR ''M'' then (butlast s, 1024 * 1024)
             else if s \<noteq> [] \<and> last s = of_char CHR ''K'' then (butlast s, 1024)
             else (s, 1))
      in case parse_u64 num_str of
           None \<Rightarrow> Inl (SizeParseError s)
         | Some num \<Rightarrow> Inr (num * multiplier))"

section \<open>Properties\<close>

text \<open>The layout in natural numbers.\<close>

lemma calculate_layout_Inr:
  assumes "MIN_IMAGE_SIZE \<le> sz"
  obtains l where "calculate_layout sz = Inr l"
    and "unat (total_sectors l) = unat sz div 512" and "unat (data_start_sector l) = 2048"
    and "unat (efi_start_sector l) = (unat sz div 512 - 65536) div 8 * 8"
    and "unat (data_size_sectors l) = (unat sz div 512 - 65536) div 8 * 8 - 2048"
    and "unat (efi_size_sectors l) = 65536" and "131072 \<le> unat sz div 512"
proof -
  let ?t = "unat sz div 512"
  have sz: "64 * 1024 * 1024 \<le> unat sz" "unat sz < 2 ^ 64"
    using assms unsigned_less [of sz, where 'a = nat] by (simp_all add: MIN_IMAGE_SIZE_def word_le_nat_alt)
  then have t: "131072 \<le> ?t" "?t < 2 ^ 55" by (simp_all add: less_mult_imp_div_less)
  have sec: "unat (sz div 512) = ?t" by (simp add: unat_div)
  have sub: "unat (sz div 512 - 65536) = ?t - 65536"
    using t sec by (subst unat_sub) (simp_all add: word_le_nat_alt)
  have efi: "unat ((sz div 512 - 65536) div 8 * 8) = (?t - 65536) div 8 * 8"
    using t by (simp add: unat_word_ariths(2) unat_div sub)
  have "65536 \<le> (?t - 65536) div 8 * 8" using t by simp
  then have "unat ((sz div 512 - 65536) div 8 * 8 - 2048) = (?t - 65536) div 8 * 8 - 2048"
    using efi by (subst unat_sub) (simp_all add: word_le_nat_alt)
  note data = this
  define l where "l = \<lparr>total_sectors = sz div 512, data_start_sector = 2048,
    data_size_sectors = (sz div 512 - 65536) div 8 * 8 - 2048,
    efi_start_sector = (sz div 512 - 65536) div 8 * 8, efi_size_sectors = 65536\<rparr>"
  have "calculate_layout sz = Inr l"
    using assms by (simp add: calculate_layout_def Let_def partition_consts l_def)
  then show thesis
    by (rule that) (use t(1) sec efi data in \<open>simp_all add: l_def\<close>)
qed

lemma layout_facts:
  "case calculate_layout sz of
     Inl e \<Rightarrow> unat sz < 64 * 1024 * 1024
   | Inr l \<Rightarrow> 64 * 1024 * 1024 \<le> unat sz \<and>
       unat (data_start_sector l) = 2048 \<and>
       unat (data_start_sector l) + unat (data_size_sectors l) = unat (efi_start_sector l) \<and>
       unat (efi_start_sector l) mod 8 = 0 \<and>
       unat (efi_start_sector l) + unat (efi_size_sectors l) \<le> unat (total_sectors l) \<and>
       unat (total_sectors l) < unat (efi_start_sector l) + unat (efi_size_sectors l) + 8 \<and>
       unat (efi_size_sectors l) * 512 = 32 * 1024 * 1024 \<and>
       31 * 1024 * 1024 \<le> unat (data_size l) \<and>
       unat (data_offset l) + unat (data_size l) = unat (efi_offset l) \<and>
       unat (efi_offset l) + 32 * 1024 * 1024 \<le> unat sz"
proof (cases "sz < MIN_IMAGE_SIZE")
  case True
  then show ?thesis
    by (simp add: calculate_layout_def word_less_nat_alt MIN_IMAGE_SIZE_def)
next
  case False
  then have le: "MIN_IMAGE_SIZE \<le> sz" by simp
  then obtain l where l: "calculate_layout sz = Inr l"
    "unat (total_sectors l) = unat sz div 512" "unat (data_start_sector l) = 2048"
    "unat (efi_start_sector l) = (unat sz div 512 - 65536) div 8 * 8"
    "unat (data_size_sectors l) = (unat sz div 512 - 65536) div 8 * 8 - 2048"
    "unat (efi_size_sectors l) = 65536" "131072 \<le> unat sz div 512"
    by (rule calculate_layout_Inr)
  let ?t = "unat sz div 512"
  have sz: "64 * 1024 * 1024 \<le> unat sz" "unat sz < 2 ^ 64"
    using le unsigned_less [of sz, where 'a = nat] by (simp_all add: MIN_IMAGE_SIZE_def word_le_nat_alt)
  then have t: "?t < 2 ^ 55" by (simp add: less_mult_imp_div_less)
  define e where "e = (?t - 65536) div 8 * 8"
  have e: "e \<le> ?t - 65536" "?t - 65536 < e + 8" "65536 \<le> e" "e mod 8 = 0"
    using l(7) by (simp_all add: e_def)
  have mul: "unat (w * 512) = unat w * 512" if "unat w < 2 ^ 55" for w :: u64
    using that by (simp add: unat_word_ariths(2))
  have "e - 2048 < 2 ^ 55" "e < 2 ^ 55" using e t by linarith+
  then have "unat (data_offset l) = 2048 * 512" "unat (data_size l) = (e - 2048) * 512"
    "unat (efi_offset l) = e * 512"
    using l by (simp_all add: data_offset_def data_size_def efi_offset_def SECTOR_SIZE_def mul e_def [symmetric])
  moreover have "e + 65536 \<le> ?t" "?t < e + 65544" "31 * 1024 * 1024 \<le> (e - 2048) * 512"
    "2048 * 512 + (e - 2048) * 512 = e * 512"
    using e l(7) by linarith+
  moreover have "e * 512 + 32 * 1024 * 1024 \<le> unat sz"
    using \<open>e + 65536 \<le> ?t\<close> by linarith
  ultimately show ?thesis using l e(3,4) sz by (simp add: e_def [symmetric])
qed

text \<open>A size is refused exactly when it is below 64 MiB. Every accepted size gives a layout in
  which the data partition starts at 1 MiB, the EFI partition follows it without a gap at a multiple
  of 4 KiB, is 32 MiB long, and ends within the image with fewer than 8 sectors to spare; the byte
  offsets and sizes agree with the sectors and no computation wraps.\<close>

theorem partition_layout_fits:
  "case calculate_layout sz of
     Inl e \<Rightarrow> unat sz < 64 * 1024 * 1024
   | Inr l \<Rightarrow> 64 * 1024 * 1024 \<le> unat sz \<and>
       unat (data_start_sector l) = 2048 \<and>
       unat (data_start_sector l) + unat (data_size_sectors l) = unat (efi_start_sector l) \<and>
       unat (efi_start_sector l) mod 8 = 0 \<and>
       unat (efi_start_sector l) + unat (efi_size_sectors l) \<le> unat (total_sectors l) \<and>
       unat (total_sectors l) < unat (efi_start_sector l) + unat (efi_size_sectors l) + 8 \<and>
       unat (efi_size_sectors l) * 512 = 32 * 1024 * 1024 \<and>
       31 * 1024 * 1024 \<le> unat (data_size l) \<and>
       unat (data_offset l) + unat (data_size l) = unat (efi_offset l) \<and>
       unat (efi_offset l) + 32 * 1024 * 1024 \<le> unat sz"
  by (rule layout_facts)

definition mbr_partition :: "nat \<Rightarrow> bytes \<Rightarrow> mbr_entry" where
  "mbr_partition i d =
     (let o0 = 446 + 16 * i in
      \<lparr>boot_indicator = d ! o0, start_chs = slice (o0 + 1) 3 d, partition_type = d ! (o0 + 4),
       end_chs = slice (o0 + 5) 3 d, start_lba = from_le (slice (o0 + 8) 4 d),
       size_sectors = from_le (slice (o0 + 12) 4 d)\<rparr>)"

lemma list_3: "length xs = 3 \<Longrightarrow> \<exists>a b c. xs = [a, b, c]"
  by (auto simp: numeral_eq_Suc length_Suc_conv)

lemma replicate_16: "replicate 16 (0 :: u8) = [0, 0, 0, 0, 0, 0, 0, 0, 0, 0, 0, 0, 0, 0, 0, 0]"
  by (simp add: numeral_eq_Suc)

lemma mbr_entry_to_bytes_eq:
  assumes "length (start_chs e) = 3" and "length (end_chs e) = 3"
  shows "mbr_entry_to_bytes e = [boot_indicator e] @ start_chs e @ [partition_type e] @ end_chs e @
       to_le 4 (start_lba e) @ to_le 4 (size_sectors e)"
proof -
  obtain a b c x y z where "start_chs e = [a, b, c]" "end_chs e = [x, y, z]"
    using list_3 assms by blast
  then show ?thesis by (simp add: mbr_entry_to_bytes_def Let_def copy_at_def replicate_16)
qed

lemma mbr_table_facts:
  assumes "512 \<le> length (cur_data c)"
  shows "let d = cur_data (write_mbr_partition_table layout c) in
    length d = length (cur_data c) \<and>
    mbr_partition 0 d = mbr_entry_new True 0x07 (data_start_sector layout) (data_size_sectors layout) \<and>
    mbr_partition 1 d = mbr_entry_new False 0xEF (efi_start_sector layout) (efi_size_sectors layout) \<and>
    slice 478 32 d = replicate 32 0 \<and> slice 510 2 d = [0x55, 0xAA] \<and>
    take 446 d = take 446 (cur_data c) \<and> drop 512 d = drop 512 (cur_data c)"
proof -
  let ?e0 = "mbr_entry_new True 0x07 (data_start_sector layout) (data_size_sectors layout)"
  let ?e1 = "mbr_entry_new False 0xEF (efi_start_sector layout) (efi_size_sectors layout)"
  let ?t = "mbr_entry_to_bytes ?e0 @ mbr_entry_to_bytes ?e1 @ replicate 32 0 @ [0x55, 0xAA]"
  let ?d = "cur_data (write_mbr_partition_table layout c)"
  have chs: "length (start_chs (mbr_entry_new b t s n)) = 3" "length (end_chs (mbr_entry_new b t s n)) = 3" for b t s n
    by (simp_all add: mbr_entry_new_def)
  have len: "length (mbr_entry_to_bytes (mbr_entry_new b t s n)) = 16" for b t s n
    by (simp add: mbr_entry_to_bytes_eq chs)
  have d: "?d = write_at 446 ?t (cur_data c)"
    using write_at_append [of 446 "mbr_entry_to_bytes ?e0 @ mbr_entry_to_bytes ?e1 @ replicate 32 0" "[0x55, 0xAA]" "cur_data c"]
    by (simp add: write_mbr_partition_table_def Let_def write_all_append write_all_seek len MBR_TYPE_EXFAT_def MBR_TYPE_EFI_def)
  have tlen: "length ?t = 66" by (simp add: len)
  have sub: "slice (446 + i) n ?d = slice i n ?t" if "i + n \<le> 66" for i n
    unfolding d using slice_write_at_within [of 446 "446 + i" n ?t "cur_data c"] that tlen by simp
  have nth: "?d ! (446 + i) = ?t ! i" if "i < 66" for i
    unfolding d using that tlen assms by (simp add: nth_write_at length_write_at)
  have "mbr_partition 0 ?d = ?e0"
    using nth [of 0] nth [of 4] sub [of 1 3] sub [of 5 3] sub [of 8 4] sub [of 12 4]
    by (simp add: mbr_partition_def mbr_entry_to_bytes_eq chs slice_def nth_append mbr_entry_new_def)
  moreover have "mbr_partition 1 ?d = ?e1"
    using nth [of 16] nth [of 20] sub [of 17 3] sub [of 21 3] sub [of 24 4] sub [of 28 4]
    by (simp add: mbr_partition_def mbr_entry_to_bytes_eq chs slice_def nth_append mbr_entry_new_def)
  moreover have "slice 478 32 ?d = replicate 32 0" "slice 510 2 ?d = [0x55, 0xAA]"
    using sub [of 32 32] sub [of 64 2] by (simp_all add: slice_def len)
  moreover have "length ?d = length (cur_data c)" "take 446 ?d = take 446 (cur_data c)"
    "drop 512 ?d = drop 512 (cur_data c)"
    unfolding d using assms tlen by (simp_all add: write_at_inside copy_at_def)
  ultimately show ?thesis by (simp add: Let_def)
qed

lemma mbr_partition_cong: "i < 4 \<Longrightarrow> slice 446 66 d' = slice 446 66 d \<Longrightarrow> 512 \<le> length d \<Longrightarrow> 512 \<le> length d' \<Longrightarrow>
    mbr_partition i d' = mbr_partition i d"
proof -
  assume a: "i < 4" "slice 446 66 d' = slice 446 66 d" "512 \<le> length d" "512 \<le> length d'"
  have s: "slice p n d' = slice p n d" if "446 \<le> p" "p + n \<le> 512" for p n
    using slice_slice [of "p - 446" n 66 446 d'] slice_slice [of "p - 446" n 66 446 d] a(2) that by simp
  have "d' ! p = d ! p" if "446 \<le> p" "p < 512" for p
    using slice_nth [of 0 1 p d] slice_nth [of 0 1 p d'] s [of p 1] that a(3,4) by simp
  then show ?thesis using a(1) unfolding mbr_partition_def Let_def by (simp add: s)
qed

text \<open>Writing the partition table of a layout into an image of at least one sector and reading
  the entries back gives the two partitions of the layout (bootable exFAT data, then EFI), two empty
  entries and the boot signature; the boot code before the table and everything after the first
  sector is unchanged.\<close>

theorem mbr_table_roundtrip:
  assumes "512 \<le> length (cur_data c)"
  shows "let d = cur_data (write_mbr_partition_table layout c) in
    length d = length (cur_data c) \<and>
    mbr_partition 0 d = mbr_entry_new True 0x07 (data_start_sector layout) (data_size_sectors layout) \<and>
    mbr_partition 1 d = mbr_entry_new False 0xEF (efi_start_sector layout) (efi_size_sectors layout) \<and>
    slice 478 32 d = replicate 32 0 \<and> slice 510 2 d = [0x55, 0xAA] \<and>
    take 446 d = take 446 (cur_data c) \<and> drop 512 d = drop 512 (cur_data c)"
  by (rule mbr_table_facts [OF assms])

theorem mbr_table_roundtrip_witness:
  "mbr_partition 0 (cur_data (write_mbr_partition_table
      \<lparr>total_sectors = 131072, data_start_sector = 2048, data_size_sectors = 63488,
       efi_start_sector = 65536, efi_size_sectors = 65536\<rparr> \<lparr>cur_data = replicate 512 0, cur_pos = 0\<rparr>)) =
    mbr_entry_new True 0x07 2048 63488"
  using mbr_table_roundtrip [of "\<lparr>cur_data = replicate 512 0, cur_pos = 0\<rparr>"
      "\<lparr>total_sectors = 131072, data_start_sector = 2048, data_size_sectors = 63488,
       efi_start_sector = 65536, efi_size_sectors = 65536\<rparr>"]
  by (simp add: Let_def)

text \<open>Sizes.\<close>

definition decimal_value :: "rstr \<Rightarrow> nat" where
  "decimal_value ds = foldl (\<lambda>acc c. 10 * acc + (c - 48)) 0 ds"

definition is_digits :: "rstr \<Rightarrow> bool" where
  "is_digits ds \<longleftrightarrow> ds \<noteq> [] \<and> (\<forall>c \<in> set ds. 48 \<le> c \<and> c \<le> 57)"

lemma dropWhile_all: "\<forall>c \<in> set xs. P c \<Longrightarrow> dropWhile P (xs @ ys) = dropWhile P ys"
  by (induction xs) auto

lemma dropWhile_none: "ys \<noteq> [] \<Longrightarrow> \<not> P (hd ys) \<Longrightarrow> dropWhile P ys = ys"
  by (cases ys) auto

lemma trim_padded:
  assumes "\<forall>c \<in> set ws. is_whitespace c" and "\<forall>c \<in> set ws'. is_whitespace c"
    and "xs \<noteq> []" and "\<not> is_whitespace (hd xs)" and "\<not> is_whitespace (last xs)"
  shows "trim (ws @ xs @ ws') = xs"
proof -
  have "dropWhile is_whitespace (ws @ xs @ ws') = xs @ ws'"
    using assms by (subst dropWhile_all) (simp_all add: dropWhile_none)
  moreover have "dropWhile is_whitespace (rev ws' @ rev xs) = rev xs"
    using assms by (subst dropWhile_all) (simp_all add: dropWhile_none hd_rev)
  ultimately show ?thesis by (simp add: trim_def)
qed

lemma parse_u64_digits:
  "is_digits ds \<Longrightarrow> parse_u64 ds =
    (if decimal_value ds < 2 ^ 64 then Some (word_of_nat (decimal_value ds)) else None)"
  by (cases ds) (auto simp: parse_u64_def is_digits_def decimal_value_def Let_def)

text \<open>The effect of \<open>to_uppercase\<close> the parser relies on: digits and the unit letters.\<close>

definition uppercase_ascii :: "(rstr \<Rightarrow> rstr) \<Rightarrow> bool" where
  "uppercase_ascii up \<longleftrightarrow> (\<forall>s. (\<forall>c \<in> set s. c < 128) \<longrightarrow>
     up s = map (\<lambda>c. if 97 \<le> c \<and> c \<le> 122 then c - 32 else c) s)"

definition size_units :: "(rstr \<times> nat) set" where
  "size_units = {([71], 2 ^ 30), ([103], 2 ^ 30), ([77], 2 ^ 20), ([109], 2 ^ 20),
           ([75], 2 ^ 10), ([107], 2 ^ 10), ([], 1)}"

text \<open>A size string of decimal digits with an optional unit letter of either case, surrounded
  by white space, is the number times its unit. The product is taken modulo \<open>2^64\<close>: the
  parser does not notice an overflow.\<close>

theorem parse_size_units:
  assumes "uppercase_ascii up" and "is_digits ds" and "decimal_value ds < 2 ^ 64"
    and "(unit, factor) \<in> size_units"
    and "\<forall>c \<in> set ws. is_whitespace c" and "\<forall>c \<in> set ws'. is_whitespace c"
  shows "\<exists>n. parse_size up (ws @ ds @ unit @ ws') = Inr n \<and>
    unat n = decimal_value ds * factor mod 2 ^ 64"
proof -
  have ds: "ds \<noteq> []" "\<forall>c \<in> set ds. 48 \<le> c \<and> c \<le> 57" using assms(2) by (simp_all add: is_digits_def)
  have lastd: "48 \<le> last ds" "last ds \<le> 57" using ds by auto
  have nws: "\<not> is_whitespace c" if "48 \<le> c \<and> c \<le> 57 \<or> c \<in> {71, 103, 75, 107, 77, 109}" for c
    using that by (auto simp: is_whitespace_def)
  have hd: "\<not> is_whitespace (hd (ds @ unit))"
    using ds by (intro nws) (metis hd_append2 list.set_sel(1))
  have u: "unit = [] \<or> (\<exists>u \<in> {71, 103, 75, 107, 77, 109}. unit = [u])"
    using assms(4) by (auto simp: size_units_def)
  then have "48 \<le> last (ds @ unit) \<and> last (ds @ unit) \<le> 57 \<or> last (ds @ unit) \<in> {71, 103, 75, 107, 77, 109}"
    using lastd by (elim disjE bexE) simp_all
  then have last: "\<not> is_whitespace (last (ds @ unit))" by (rule nws)
  have "trim (ws @ (ds @ unit) @ ws') = ds @ unit"
    by (rule trim_padded) (use assms(5,6) ds hd last in auto)
  then have trim: "trim (ws @ ds @ unit @ ws') = ds @ unit" by simp
  have ascii: "\<forall>c \<in> set (ds @ unit). c < 128" using ds u by fastforce
  have "map (\<lambda>c. if 97 \<le> c \<and> c \<le> 122 then c - 32 else c) ds = ds"
    by (rule map_idI) (use ds in auto)
  moreover have "up (ds @ unit) = map (\<lambda>c. if 97 \<le> c \<and> c \<le> 122 then c - 32 else c) (ds @ unit)"
    using assms(1) ascii unfolding uppercase_ascii_def by blast
  ultimately have up: "up (ds @ unit) = ds @ map (\<lambda>c. if 97 \<le> c \<and> c \<le> 122 then c - 32 else c) unit"
    by simp
  have num: "parse_u64 ds = Some (word_of_nat (decimal_value ds))"
    using parse_u64_digits [OF assms(2)] assms(3) by simp
  have mul: "unat (word_of_nat (decimal_value ds) * word_of_nat k :: u64) = decimal_value ds * k mod 2 ^ 64" for k
    by (simp add: unat_of_nat flip: of_nat_mult)
  have ne: "last ds \<noteq> 71" "last ds \<noteq> 77" "last ds \<noteq> 75" using lastd by auto
  have "parse_size up (ws @ ds @ unit @ ws') = Inr (word_of_nat (decimal_value ds) * word_of_nat factor)"
    unfolding parse_size_def trim up Let_def
    using assms(4) unfolding size_units_def
    by (elim insertE emptyE Pair_inject) (simp_all add: num ne ds(1))
  with mul [of factor] show ?thesis by blast
qed

theorem parse_size_units_witness:
  "\<exists>n. parse_size (map (\<lambda>c. if 97 \<le> c \<and> c \<le> 122 then c - 32 else c)) (lit ''8G '') = Inr n \<and> unat n = 8 * 2 ^ 30"
  using parse_size_units [where up = "map (\<lambda>c. if 97 \<le> c \<and> c \<le> 122 then c - 32 else c)" and ds = "[56]"
      and unit = "[71]" and factor = "2 ^ 30" and ws = "[]" and ws' = "[32]"]
  by (simp add: uppercase_ascii_def is_digits_def decimal_value_def size_units_def is_whitespace_def lit_def)

text \<open>The overflow at work: a request for 17179869192 gigabytes is accepted as 8 GiB.\<close>

theorem parse_size_wraps:
  "parse_size (map (\<lambda>c. if 97 \<le> c \<and> c \<le> 122 then c - 32 else c)) (lit ''17179869192G'') = Inr (8 * 1024 * 1024 * 1024)"
proof -
  have "parse_u64 (map of_char ''17179869192'') = Some 17179869192"
    by (simp add: parse_u64_def Let_def)
  then show ?thesis
    by (simp add: parse_size_def trim_def is_whitespace_def lit_def Let_def)
qed

end
