(* ===== verification/Exfat_Unicode.thy ===== *)
theory Exfat_Unicode
  imports Image_File
begin

text \<open>
  \<^verbatim>\<open>src/libs/ventoy-img-rs/src/exfat/unicode.rs\<close>: the upcase mapping and table, the name
  hash, and the UTF-16 encodings of file names. \<open>encode_utf16\<close>, \<open>char::decode_utf16\<close> and
  \<open>String::from_utf16_lossy\<close> of the standard library are written out; \<open>str::to_lowercase\<close>
  (the Unicode tables) is a parameter of the comparison.
\<close>

section \<open>Upcase\<close>

definition latin_extended_pairs :: "(u16 \<times> u16) list" where
  "latin_extended_pairs =
    [(0x0101, 0x0100), (0x0103, 0x0102), (0x0105, 0x0104), (0x0107, 0x0106), (0x0109, 0x0108),
     (0x010B, 0x010A), (0x010D, 0x010C), (0x010F, 0x010E), (0x0111, 0x0110), (0x0113, 0x0112),
     (0x0115, 0x0114), (0x0117, 0x0116), (0x0119, 0x0118), (0x011B, 0x011A), (0x011D, 0x011C),
     (0x011F, 0x011E), (0x0121, 0x0120), (0x0123, 0x0122), (0x0125, 0x0124), (0x0127, 0x0126),
     (0x0129, 0x0128), (0x012B, 0x012A), (0x012D, 0x012C), (0x012F, 0x012E), (0x0131, 0x0049),
     (0x0133, 0x0132), (0x0135, 0x0134), (0x0137, 0x0136), (0x013A, 0x0139), (0x013C, 0x013B),
     (0x013E, 0x013D), (0x0140, 0x013F), (0x0142, 0x0141), (0x0144, 0x0143), (0x0146, 0x0145),
     (0x0148, 0x0147), (0x014B, 0x014A), (0x014D, 0x014C), (0x014F, 0x014E), (0x0151, 0x0150),
     (0x0153, 0x0152), (0x0155, 0x0154), (0x0157, 0x0156), (0x0159, 0x0158), (0x015B, 0x015A),
     (0x015D, 0x015C), (0x015F, 0x015E), (0x0161, 0x0160), (0x0163, 0x0162), (0x0165, 0x0164),
     (0x0167, 0x0166), (0x0169, 0x0168), (0x016B, 0x016A), (0x016D, 0x016C), (0x016F, 0x016E),
     (0x0171, 0x0170), (0x0173, 0x0172), (0x0175, 0x0174), (0x0177, 0x0176), (0x017A, 0x0179),
     (0x017C, 0x017B), (0x017E, 0x017D), (0x017F, 0x0053)]"

definition to_uppercase_simple :: "u16 \<Rightarrow> u16" where
  "to_uppercase_simple ch =
     (if 0x0061 \<le> ch \<and> ch \<le> 0x007A then ch - 32
      else if (0x00E0 \<le> ch \<and> ch \<le> 0x00F6) \<or> (0x00F8 \<le> ch \<and> ch \<le> 0x00FE) then ch - 32
      else case map_of latin_extended_pairs ch of
             Some upper \<Rightarrow> upper
           | None \<Rightarrow>
               if 0x03B1 \<le> ch \<and> ch \<le> 0x03C1 then ch - 32
               else if 0x03C3 \<le> ch \<and> ch \<le> 0x03C9 then ch - 32
               else if ch = 0x03C2 then 0x03A3
               else if 0x0430 \<le> ch \<and> ch \<le> 0x044F then ch - 32
               else if 0x0450 \<le> ch \<and> ch \<le> 0x045F then ch - 80
               else ch)"

definition generate_upcase_table :: bytes where
  "generate_upcase_table =
     concat (map (\<lambda>i. to_le 2 (to_uppercase_simple (word_of_nat i))) [0..<65536])"

section \<open>UTF-16\<close>

definition is_scalar :: "nat \<Rightarrow> bool" where
  "is_scalar c \<longleftrightarrow> c < 0x110000 \<and> \<not> (0xD800 \<le> c \<and> c < 0xE000)"

text \<open>The one or two code units of a character.\<close>

definition char_units :: "nat \<Rightarrow> u16 list" where
  "char_units c =
     (if c < 0x10000 then [word_of_nat c]
      else let d = c - 0x10000
           in [word_of_nat (0xD800 + d div 0x400), word_of_nat (0xDC00 + d mod 0x400)])"

definition encode_utf16 :: "rstr \<Rightarrow> u16 list" where
  "encode_utf16 s = concat (map char_units s)"

text \<open>\<open>char::decode_utf16\<close>; \<open>None\<close> is an unpaired surrogate.\<close>

fun decode_utf16 :: "u16 list \<Rightarrow> nat option list" where
  "decode_utf16 [] = []"
| "decode_utf16 (u # us) =
     (if unat u < 0xD800 \<or> 0xE000 \<le> unat u then Some (unat u) # decode_utf16 us
      else if 0xDC00 \<le> unat u then None # decode_utf16 us
      else (case us of
              [] \<Rightarrow> [None]
            | v # vs \<Rightarrow>
                if 0xDC00 \<le> unat v \<and> unat v < 0xE000
                then Some (0x10000 + (unat u - 0xD800) * 0x400 + (unat v - 0xDC00)) # decode_utf16 vs
                else None # decode_utf16 us))"

text \<open>\<open>filter_map(|r| r.ok())\<close> and \<open>from_utf16_lossy\<close>\<close>

definition decode_utf16_ok :: "u16 list \<Rightarrow> rstr" where
  "decode_utf16_ok us = List.map_filter (\<lambda>r. r) (decode_utf16 us)"

definition from_utf16_lossy :: "u16 list \<Rightarrow> rstr" where
  "from_utf16_lossy us = map (\<lambda>r. case r of Some c \<Rightarrow> c | None \<Rightarrow> 0xFFFD) (decode_utf16 us)"

definition rotate_right1 :: "u16 \<Rightarrow> u16" where
  "rotate_right1 w = drop_bit 1 w OR push_bit 15 w"

definition calculate_name_hash :: "rstr \<Rightarrow> u16" where
  "calculate_name_hash name =
     foldl (\<lambda>hash ch.
        let upper = to_uppercase_simple ch;
            bs = to_le 2 upper;
            hash = rotate_right1 hash + ucast (bs ! 0)
        in rotate_right1 hash + ucast (bs ! 1)) 0 (encode_utf16 name)"

definition names_equal_ignore_case :: "(rstr \<Rightarrow> rstr) \<Rightarrow> rstr \<Rightarrow> rstr \<Rightarrow> bool" where
  "names_equal_ignore_case to_lowercase name1 name2 \<longleftrightarrow> to_lowercase name1 = to_lowercase name2"

definition encode_utf16le :: "rstr \<Rightarrow> bytes" where
  "encode_utf16le s = concat (map (to_le 2) (encode_utf16 s))"

text \<open>\<open>chunks_exact(2)\<close>: the pairs of an even-length slice.\<close>

fun le_units :: "bytes \<Rightarrow> u16 list" where
  "le_units (a # b # bs) = from_le [a, b] # le_units bs"
| "le_units _ = []"

definition decode_utf16le :: "bytes \<Rightarrow> rstr" where
  "decode_utf16le bs =
     (if length bs mod 2 \<noteq> 0 then []
      else from_utf16_lossy (takeWhile (\<lambda>c. c \<noteq> 0) (le_units bs)))"

section \<open>Properties\<close>

lemma unat_u16_of_nat: "n < 65536 \<Longrightarrow> unat (word_of_nat n :: u16) = n"
  by (simp add: unat_of_nat)

lemma decode_char_units:
  "is_scalar c \<Longrightarrow> decode_utf16 (char_units c @ us) = Some c # decode_utf16 us"
proof (cases "c < 0x10000")
  case True
  assume "is_scalar c"
  with True show ?thesis by (auto simp: char_units_def is_scalar_def unat_u16_of_nat)
next
  case False
  assume "is_scalar c"
  define d where "d = c - 0x10000"
  have d: "d < 0x100000" "c = d + 0x10000" using \<open>is_scalar c\<close> False by (auto simp: d_def is_scalar_def)
  then have "d div 0x400 < 0x400" by (simp add: less_mult_imp_div_less)
  moreover have "d mod 0x400 < 0x400" by simp
  ultimately have hi: "unat (word_of_nat (0xD800 + d div 0x400) :: u16) = 0xD800 + d div 0x400"
      "0xD800 + d div 0x400 < 0xDC00"
    and lo: "unat (word_of_nat (0xDC00 + d mod 0x400) :: u16) = 0xDC00 + d mod 0x400" "0xDC00 + d mod 0x400 < 0xE000"
    by (simp_all add: unat_u16_of_nat del: of_nat_add)
  have "d div 0x400 * 0x400 + d mod 0x400 = d" by simp
  then show ?thesis using False d(2) hi lo
    by (simp add: char_units_def Let_def d_def [symmetric] del: of_nat_add)
qed

lemma decode_encode_utf16:
  "\<forall>c \<in> set s. is_scalar c \<Longrightarrow> decode_utf16 (encode_utf16 s) = map Some s"
  by (induction s) (simp_all add: encode_utf16_def decode_char_units)

lemma map_filter_Some: "List.map_filter (\<lambda>r. r) (map Some s) = s"
  by (induction s) (simp_all add: List.map_filter_simps)

lemma decode_utf16_ok_encode:
  "\<forall>c \<in> set s. is_scalar c \<Longrightarrow> decode_utf16_ok (encode_utf16 s) = s"
  by (simp add: decode_utf16_ok_def decode_encode_utf16 map_filter_Some)

lemma from_le_pair: "from_le [ucast w, ucast (drop_bit 8 w)] = (w :: u16)"
  using from_to_le16 [of w] by (simp add: to_le_Suc numeral_2_eq_2)

lemma le_units_encode: "le_units (concat (map (to_le 2) us)) = us"
  by (induction us) (simp_all add: to_le_Suc numeral_2_eq_2 from_le_pair del: from_le.simps)

lemma char_units_nonzero: "is_scalar c \<Longrightarrow> u \<in> set (char_units c) \<Longrightarrow> u = 0 \<Longrightarrow> c = 0"
  using decode_char_units [of c "[]"]
  by (auto simp: char_units_def Let_def split: if_splits)

lemma takeWhile_encode_utf16:
  "\<forall>c \<in> set s. is_scalar c \<Longrightarrow>
     takeWhile (\<lambda>u. u \<noteq> 0) (encode_utf16 s) = encode_utf16 (takeWhile (\<lambda>c. c \<noteq> 0) s)"
proof (induction s)
  case (Cons c s)
  show ?case
  proof (cases "c = 0")
    case True
    then show ?thesis by (simp add: encode_utf16_def char_units_def)
  next
    case False
    then have "\<forall>u \<in> set (char_units c). u \<noteq> 0" using char_units_nonzero [of c] Cons.prems by auto
    then have "takeWhile (\<lambda>u. u \<noteq> 0) (char_units c @ encode_utf16 s) =
        char_units c @ takeWhile (\<lambda>u. u \<noteq> 0) (encode_utf16 s)"
      by (intro takeWhile_append2) auto
    with False Cons show ?thesis by (simp add: encode_utf16_def)
  qed
qed (simp add: encode_utf16_def)

text \<open>File names survive the encoding: decoding the little-endian UTF-16 bytes of a string
  gives the string up to its first NUL, surrogate pairs included, and the encoding has two bytes for
  each code unit.\<close>

theorem utf16le_roundtrip:
  assumes "\<forall>c \<in> set s. is_scalar c"
  shows "decode_utf16le (encode_utf16le s) = takeWhile (\<lambda>c. c \<noteq> 0) s \<and>
    decode_utf16_ok (encode_utf16 s) = s \<and>
    length (encode_utf16le s) = 2 * length (encode_utf16 s)"
proof -
  have len: "length (encode_utf16le s) = 2 * length (encode_utf16 s)"
    by (simp add: encode_utf16le_def length_concat o_def sum_list_triv)
  have "\<forall>c \<in> set (takeWhile (\<lambda>c. c \<noteq> 0) s). is_scalar c" using assms by (meson set_takeWhileD)
  then have "from_utf16_lossy (encode_utf16 (takeWhile (\<lambda>c. c \<noteq> 0) s)) = takeWhile (\<lambda>c. c \<noteq> 0) s"
    by (simp add: from_utf16_lossy_def decode_encode_utf16 o_def)
  then show ?thesis
    using len assms by (simp add: decode_utf16le_def encode_utf16le_def le_units_encode
        takeWhile_encode_utf16 decode_utf16_ok_encode)
qed

theorem utf16le_roundtrip_witness:
  "decode_utf16le (encode_utf16le [0x54, 0x4E2D, 0x1F600]) = [0x54, 0x4E2D, 0x1F600]"
  using utf16le_roundtrip [of "[0x54, 0x4E2D, 0x1F600]"] by (simp add: is_scalar_def)

text \<open>The values of the table in natural numbers: no value is a key, and none is in a range.\<close>

lemma latin_values:
  "let ps = map (\<lambda>(k, v). (unat k, unat v)) latin_extended_pairs; ks = map fst ps in
    list_all (\<lambda>(k, v). v \<notin> set ks \<and> (0x41 \<le> v \<and> v < 0x61 \<or> 0x100 \<le> v \<and> v < 0x180)) ps"
  by (simp add: latin_extended_pairs_def)

lemma latin_value_fixed:
  assumes "map_of latin_extended_pairs ch = Some v"
  shows "to_uppercase_simple v = v"
proof -
  let ?ps = "map (\<lambda>(k, v). (unat k, unat v)) latin_extended_pairs"
  have "(ch, v) \<in> set latin_extended_pairs" using assms by (rule map_of_SomeD)
  then have "(unat ch, unat v) \<in> set ?ps" by force
  from bspec [OF latin_values [unfolded Let_def list_all_iff] this]
  have v: "unat v \<notin> set (map fst ?ps)"
    "0x41 \<le> unat v \<and> unat v < 0x61 \<or> 0x100 \<le> unat v \<and> unat v < 0x180"
    by simp_all
  have "v \<notin> fst ` set latin_extended_pairs"
    using v(1) by force
  then have "map_of latin_extended_pairs v = None" by (simp add: map_of_eq_None_iff)
  then show ?thesis using v(2)
    by (auto simp: to_uppercase_simple_def word_le_nat_alt)
qed

lemma latin_keys:
  "list_all (\<lambda>(k, v). 0x101 \<le> unat k \<and> unat k \<le> 0x17F) latin_extended_pairs"
  by (simp add: latin_extended_pairs_def)

lemma latin_outside:
  "unat ch < 0x101 \<or> 0x17F < unat ch \<Longrightarrow> map_of latin_extended_pairs ch = None"
  using latin_keys by (force simp: map_of_eq_None_iff list_all_iff)

text \<open>A case rule: what the mapping does to a code unit.\<close>

lemma upcase_cases:
  obtains (minus32) "unat (to_uppercase_simple ch) = unat ch - 32"
      "unat ch \<in> {0x61..0x7A} \<union> {0xE0..0xF6} \<union> {0xF8..0xFE} \<union> {0x3B1..0x3C1} \<union> {0x3C3..0x3C9} \<union> {0x430..0x44F}"
  | (minus80) "unat (to_uppercase_simple ch) = unat ch - 80" "unat ch \<in> {0x450..0x45F}"
  | (latin) "map_of latin_extended_pairs ch = Some (to_uppercase_simple ch)"
  | (sigma) "unat (to_uppercase_simple ch) = 0x3A3" "ch = 0x3C2"
  | (same) "to_uppercase_simple ch = ch"
proof -
  have sub: "k \<le> ch \<Longrightarrow> unat (ch - k) = unat ch - unat k" for k
    by (simp add: unat_sub)
  have le: "(k \<le> ch) = (unat k \<le> unat ch)" "(ch \<le> k) = (unat ch \<le> unat k)" for k
    by (simp_all add: word_le_nat_alt)
  note upper = to_uppercase_simple_def [of ch]
  show thesis
  proof (cases "unat ch \<in> {0x61..0x7A} \<union> {0xE0..0xF6} \<union> {0xF8..0xFE}")
    case True
    then have "to_uppercase_simple ch = ch - 32" by (auto simp: upper le)
    with True sub [of 32] show thesis by (intro minus32) (auto simp: le)
  next
    case False
    then have n: "\<not> (0x0061 \<le> ch \<and> ch \<le> 0x007A)"
      "\<not> ((0x00E0 \<le> ch \<and> ch \<le> 0x00F6) \<or> (0x00F8 \<le> ch \<and> ch \<le> 0x00FE))" by (auto simp: le)
    show thesis
    proof (cases "map_of latin_extended_pairs ch")
      case (Some u)
      then show thesis by (intro latin) (simp add: upper [unfolded if_not_P [OF n(1)] if_not_P [OF n(2)]])
    next
      case None
      consider "unat ch \<in> {0x3B1..0x3C1} \<union> {0x3C3..0x3C9} \<union> {0x430..0x44F}" | "ch = 0x3C2"
        | "unat ch \<in> {0x450..0x45F}" | "unat ch \<notin> {0x3B1..0x3C1} \<union> {0x3C3..0x3C9} \<union> {0x430..0x45F}" "ch \<noteq> 0x3C2"
        by fastforce
      then show thesis
      proof cases
        case 1
        then have "to_uppercase_simple ch = ch - 32" using None by (auto simp: upper [unfolded if_not_P [OF n(1)] if_not_P [OF n(2)]] le)
        with 1 sub [of 32] show thesis by (intro minus32) (auto simp: le)
      next
        case 2
        then have "to_uppercase_simple ch = 0x3A3" using None by (simp add: to_uppercase_simple_def)
        with 2 show thesis by (intro sigma) simp_all
      next
        case 3
        then have "to_uppercase_simple ch = ch - 80" using None by (auto simp: upper [unfolded if_not_P [OF n(1)] if_not_P [OF n(2)]] le)
        with 3 sub [of 80] show thesis by (intro minus80) (auto simp: le)
      next
        case 4
        then show thesis using None by (intro same) (auto simp: upper [unfolded if_not_P [OF n(1)] if_not_P [OF n(2)]] le)
      qed
    qed
  qed
qed

lemma upcase_fixed_point:
  "to_uppercase_simple (to_uppercase_simple ch) = to_uppercase_simple ch"
proof -
  have fixed: "to_uppercase_simple u = u" if "unat u \<in> {0x41..0x5A} \<union> {0xC0..0xD6} \<union> {0xD8..0xDE} \<union>
      {0x391..0x3A9} \<union> {0x400..0x42F}" for u
  proof -
    have "map_of latin_extended_pairs u = None"
      using that by (intro latin_outside) auto
    with that show ?thesis by (cases u rule: upcase_cases) auto
  qed
  show ?thesis
  proof (cases ch rule: upcase_cases)
    case minus32
    then show ?thesis by (intro fixed) auto
  next
    case minus80
    then show ?thesis by (intro fixed) auto
  next
    case latin
    then show ?thesis by (rule latin_value_fixed)
  next
    case sigma
    then show ?thesis by (intro fixed) auto
  next
    case same
    then show ?thesis by simp
  qed
qed

text \<open>Upper-casing a code unit twice is upper-casing it once, for all units. The letter U+00FF is
  left alone, although the range in the comment includes it.\<close>

theorem upcase_idempotent:
  "to_uppercase_simple (to_uppercase_simple ch) = to_uppercase_simple ch \<and>
   to_uppercase_simple 0xFF = 0xFF"
  using upcase_fixed_point by (simp add: to_uppercase_simple_def latin_outside)

text \<open>Two names that agree after upper-casing have the same hash, which is also the hash of
  the upper-cased name.\<close>

theorem name_hash_case_insensitive:
  assumes "map to_uppercase_simple (encode_utf16 s) = map to_uppercase_simple (encode_utf16 s')"
  shows "calculate_name_hash s = calculate_name_hash s' \<and>
    (\<forall>r. encode_utf16 r = map to_uppercase_simple (encode_utf16 s) \<longrightarrow> calculate_name_hash r = calculate_name_hash s)"
proof -
  define step where "step = (\<lambda>hash u. let bs = to_le 2 (u :: u16); hash = rotate_right1 hash + ucast (bs ! 0)
     in rotate_right1 hash + ucast (bs ! 1) :: u16)"
  have hash: "calculate_name_hash r = foldl step 0 (map to_uppercase_simple (encode_utf16 r))" for r
    by (simp add: calculate_name_hash_def foldl_map step_def Let_def)
  have "map to_uppercase_simple (map to_uppercase_simple us) = map to_uppercase_simple us" for us
    using upcase_fixed_point by simp
  then show ?thesis using assms by (simp add: hash del: map_map)
qed

theorem name_hash_case_insensitive_witness:
  "calculate_name_hash [0x54, 0x65] = calculate_name_hash [0x74, 0x45]"
  using name_hash_case_insensitive [of "[0x54, 0x65]" "[0x74, 0x45]"]
  by (simp add: encode_utf16_def char_units_def to_uppercase_simple_def latin_outside)

text \<open>The upcase table has 128 KiB and its entry for a code unit is the upper case of the unit.\<close>

theorem upcase_table_lookup:
  assumes "i < 65536"
  shows "length generate_upcase_table = 128 * 1024 \<and>
    from_le (slice (2 * i) 2 generate_upcase_table) = to_uppercase_simple (word_of_nat i)"
proof -
  have len: "length (concat (map (\<lambda>i. to_le 2 (f i :: u16)) xs)) = 2 * length xs" for f and xs :: "nat list"
    by (induction xs) simp_all
  have "slice (2 * i) 2 (concat (map (\<lambda>i. to_le 2 (f i :: u16)) [0..<n])) = to_le 2 (f i)" if "i < n" for f and n :: nat
  proof -
    have "[0..<n] = [0..<i] @ [i..<n]" using upt_add_eq_append [of 0 i "n - i"] that by simp
    also have "[i..<n] = i # [Suc i..<n]" using that by (rule upt_conv_Cons)
    finally have "[0..<n] = [0..<i] @ i # [Suc i..<n]" .
    then show ?thesis by (simp add: slice_def len del: upt_Suc)
  qed
  from this [OF assms, of "\<lambda>i. to_uppercase_simple (word_of_nat i)"] show ?thesis
    using len [of "\<lambda>i. to_uppercase_simple (word_of_nat i)" "[0..<65536]"]
    by (simp add: generate_upcase_table_def del: upt_Suc)
qed

theorem upcase_table_lookup_witness:
  "from_le (slice (2 * 97) 2 generate_upcase_table) = (65 :: u16)"
  using upcase_table_lookup [of 97] by (simp add: to_uppercase_simple_def)

end
