(* ===== verification/Exfat_Format.thy ===== *)
theory Exfat_Format
  imports Exfat_Unicode Ventoy_Partition
begin

text \<open>
  \<^verbatim>\<open>src/libs/ventoy-img-rs/src/exfat/format.rs\<close>: cluster sizes, the boot sector and its
  checksum, the first FAT entries, the allocation bitmap, the upcase table and the root directory
  of a new exFAT volume. The volume serial (the system clock) is a parameter.
\<close>

section \<open>Geometry\<close>

definition get_cluster_size :: "u64 \<Rightarrow> u32" where
  "get_cluster_size sectors =
     (let volume_size = sectors * 512
      in if volume_size < 256 * 1024 * 1024 then 4096
         else if volume_size < 8 * 1024 * 1024 * 1024 then 32768
         else 128 * 1024)"

definition trailing_zeros :: "u32 \<Rightarrow> nat" where
  "trailing_zeros w = length (takeWhile (\<lambda>i. \<not> bit w i) [0..<32])"

definition sectors_per_cluster_shift :: "u32 \<Rightarrow> u8" where
  "sectors_per_cluster_shift cluster_sz =
     (if cluster_sz = 4096 then 3 else if cluster_sz = 8192 then 4
      else if cluster_sz = 16384 then 5 else if cluster_sz = 32768 then 6
      else if cluster_sz = 65536 then 7 else if cluster_sz = 131072 then 8
      else if cluster_sz = 262144 then 9
      else let sectors = cluster_sz div 512
           in min (max (word_of_nat (trailing_zeros sectors)) 3) 9)"

record boot_sector =
  jump_boot :: bytes
  fs_name :: bytes
  boot_partition_offset :: u64
  volume_length :: u64
  boot_fat_offset :: u32
  boot_fat_length :: u32
  boot_cluster_heap_offset :: u32
  boot_cluster_count :: u32
  boot_first_cluster_of_root :: u32
  volume_serial_number :: u32
  fs_revision :: u16
  volume_flags :: u16
  bytes_per_sector_shift :: u8
  boot_spc_shift :: u8
  number_of_fats :: u8
  drive_select :: u8
  percent_in_use :: u8
  boot_signature :: u16

definition UPCASE_TABLE_SIZE :: u64 where "UPCASE_TABLE_SIZE = 128 * 1024"

text \<open>\<open>((UPCASE_TABLE_SIZE + cluster_size as u64 - 1) / cluster_size as u64) as u32\<close>\<close>

definition upcase_cluster_count :: "u32 \<Rightarrow> u32" where
  "upcase_cluster_count cluster_sz =
     ucast ((UPCASE_TABLE_SIZE + ucast cluster_sz - 1) div (ucast cluster_sz :: u64))"

definition boot_sector_new :: "u64 \<Rightarrow> u32 \<Rightarrow> u32 \<Rightarrow> boot_sector" where
  "boot_sector_new vol_len cluster_sz volume_serial =
     (let sector_size = 512 :: u32;
          sectors_per_cluster = cluster_sz div sector_size;
          spc_shift = sectors_per_cluster_shift cluster_sz;
          fat_offset = 24 :: u32;
          usable_sectors = ucast vol_len - fat_offset;
          cluster_count = (usable_sectors - 32) div sectors_per_cluster;
          fat_entries = cluster_count + 2;
          fat_length = max ((fat_entries * 4 + sector_size - 1) div sector_size) 1;
          cluster_heap_offset = fat_offset + fat_length;
          heap_sectors = ucast vol_len - cluster_heap_offset;
          cluster_count = heap_sectors div sectors_per_cluster;
          first_cluster_of_root = 3 + upcase_cluster_count cluster_sz
      in \<lparr>jump_boot = [0xEB, 0x76, 0x90],
          fs_name = [0x45, 0x58, 0x46, 0x41, 0x54, 0x20, 0x20, 0x20],
          boot_partition_offset = 0, volume_length = vol_len, boot_fat_offset = fat_offset,
          boot_fat_length = fat_length, boot_cluster_heap_offset = cluster_heap_offset,
          boot_cluster_count = cluster_count, boot_first_cluster_of_root = first_cluster_of_root,
          volume_serial_number = volume_serial, fs_revision = 0x0100, volume_flags = 0,
          bytes_per_sector_shift = 9, boot_spc_shift = spc_shift, number_of_fats = 1,
          drive_select = 0x80, percent_in_use = 0xFF, boot_signature = 0xAA55\<rparr>)"

definition boot_sector_to_bytes :: "boot_sector \<Rightarrow> bytes" where
  "boot_sector_to_bytes s =
     (let b = replicate 512 0;
          b = copy_at 0 (jump_boot s) b;
          b = copy_at 3 (fs_name s) b;
          b = copy_at 64 (to_le 8 (boot_partition_offset s)) b;
          b = copy_at 72 (to_le 8 (volume_length s)) b;
          b = copy_at 80 (to_le 4 (boot_fat_offset s)) b;
          b = copy_at 84 (to_le 4 (boot_fat_length s)) b;
          b = copy_at 88 (to_le 4 (boot_cluster_heap_offset s)) b;
          b = copy_at 92 (to_le 4 (boot_cluster_count s)) b;
          b = copy_at 96 (to_le 4 (boot_first_cluster_of_root s)) b;
          b = copy_at 100 (to_le 4 (volume_serial_number s)) b;
          b = copy_at 104 (to_le 2 (fs_revision s)) b;
          b = copy_at 106 (to_le 2 (volume_flags s)) b;
          b = b[108 := bytes_per_sector_shift s];
          b = b[109 := boot_spc_shift s];
          b = b[110 := number_of_fats s];
          b = b[111 := drive_select s];
          b = b[112 := percent_in_use s];
          b = copy_at 510 (to_le 2 (boot_signature s)) b
      in b)"

section \<open>Checksums\<close>

definition rotate_add32 :: "u32 \<Rightarrow> u8 \<Rightarrow> u32" where
  "rotate_add32 checksum byte =
     (if checksum AND 1 \<noteq> 0 then 0x80000000 OR drop_bit 1 checksum else drop_bit 1 checksum)
     + ucast byte"

text \<open>The loops over the sectors and their bytes; \<open>sector_idx\<close> and \<open>byte_idx\<close> count.\<close>

fun checksum_bytes :: "nat \<Rightarrow> nat \<Rightarrow> bytes \<Rightarrow> u32 \<Rightarrow> u32" where
  "checksum_bytes sector_idx byte_idx [] checksum = checksum"
| "checksum_bytes sector_idx byte_idx (byte # bs) checksum =
     (if sector_idx = 0 \<and> (byte_idx = 106 \<or> byte_idx = 107 \<or> byte_idx = 112)
      then checksum_bytes sector_idx (byte_idx + 1) bs checksum
      else checksum_bytes sector_idx (byte_idx + 1) bs (rotate_add32 checksum byte))"

fun checksum_sectors :: "nat \<Rightarrow> bytes list \<Rightarrow> u32 \<Rightarrow> u32" where
  "checksum_sectors sector_idx [] checksum = checksum"
| "checksum_sectors sector_idx (sector # sectors) checksum =
     checksum_sectors (sector_idx + 1) sectors (checksum_bytes sector_idx 0 sector checksum)"

definition calculate_boot_checksum :: "bytes list \<Rightarrow> u32" where
  "calculate_boot_checksum sectors = checksum_sectors 0 sectors 0"

definition calculate_upcase_checksum :: "bytes \<Rightarrow> u32" where
  "calculate_upcase_checksum data = foldl rotate_add32 0 data"

section \<open>Directory entries of a new volume\<close>

definition ENTRY_TYPE_VOLUME_LABEL :: u8 where "ENTRY_TYPE_VOLUME_LABEL = 0x83"
definition ENTRY_TYPE_BITMAP :: u8 where "ENTRY_TYPE_BITMAP = 0x81"
definition ENTRY_TYPE_UPCASE :: u8 where "ENTRY_TYPE_UPCASE = 0x82"

definition create_volume_label_entry :: "rstr \<Rightarrow> bytes" where
  "create_volume_label_entry label =
     (let entry = replicate 32 0;
          entry = entry[0 := ENTRY_TYPE_VOLUME_LABEL];
          label_chars = take 11 (encode_utf16 label);
          entry = entry[1 := word_of_nat (length label_chars)]
      in fold (\<lambda>(i, ch) entry. copy_at (2 + i * 2) (to_le 2 ch) entry) (enumerate 0 label_chars) entry)"

definition create_bitmap_entry :: "u32 \<Rightarrow> u64 \<Rightarrow> bytes" where
  "create_bitmap_entry start_cluster bytes_len =
     (let entry = replicate 32 0;
          entry = entry[0 := ENTRY_TYPE_BITMAP];
          entry = entry[1 := 0];
          entry = copy_at 20 (to_le 4 start_cluster) entry
      in copy_at 24 (to_le 8 bytes_len) entry)"

definition create_upcase_entry :: "u32 \<Rightarrow> u64 \<Rightarrow> u32 \<Rightarrow> bytes" where
  "create_upcase_entry start_cluster bytes_len checksum =
     (let entry = replicate 32 0;
          entry = entry[0 := ENTRY_TYPE_UPCASE];
          entry = copy_at 4 (to_le 4 checksum) entry;
          entry = copy_at 20 (to_le 4 start_cluster) entry
      in copy_at 24 (to_le 8 bytes_len) entry)"

section \<open>Formatting\<close>

text \<open>\<open>fat_entries\<close>: media type, reserved, bitmap, the chain of the upcase table, the root.\<close>

definition initial_fat :: "u32 \<Rightarrow> u32 list" where
  "initial_fat upcase_clusters =
     [0xFFFFFFF8, 0xFFFFFFFF, 0xFFFFFFFF]
     @ map (\<lambda>i. if word_of_nat i = upcase_clusters - 1 then 0xFFFFFFFF else 3 + word_of_nat i + 1)
         [0..<unat upcase_clusters]
     @ [0xFFFFFFFF]"

text \<open>\<open>if byte_idx < bitmap.len() { bitmap[byte_idx] |= 1 << bit_idx }\<close> for a cluster, as the
  formatter numbers the bits.\<close>

definition mark_cluster :: "u32 \<Rightarrow> bytes \<Rightarrow> bytes" where
  "mark_cluster cluster bitmap =
     (let byte_idx = unat (cluster div 8); bit_idx = unat (cluster mod 8)
      in if byte_idx < length bitmap
         then bitmap[byte_idx := bitmap ! byte_idx OR push_bit bit_idx 1] else bitmap)"

definition initial_bitmap :: "u32 \<Rightarrow> u32 \<Rightarrow> bytes" where
  "initial_bitmap cluster_sz upcase_clusters =
     (let bitmap = replicate (unat cluster_sz) 0;
          bitmap = bitmap[0 := bitmap ! 0 OR 0x04];
          bitmap = fold (\<lambda>i. mark_cluster (3 + word_of_nat i)) [0..<unat upcase_clusters] bitmap
      in mark_cluster (3 + upcase_clusters) bitmap)"

definition format_exfat :: "u32 \<Rightarrow> u64 \<Rightarrow> u64 \<Rightarrow> rstr \<Rightarrow> cursor \<Rightarrow> cursor" where
  "format_exfat serial part_offset part_size label c =
     (let volume_sectors = part_size div 512;
          cluster_sz = get_cluster_size volume_sectors;
          boot = boot_sector_new volume_sectors cluster_sz serial;
          boot_region = boot_sector_to_bytes boot # replicate 10 (replicate 512 0);
          checksum = calculate_boot_checksum boot_region;
          checksum_sector = concat (replicate 128 (to_le 4 checksum));
          c = seek_start part_offset c;
          c = fold write_all boot_region c;
          c = write_all checksum_sector c;
          c = fold write_all boot_region c;
          c = write_all checksum_sector c;
          fat_pos = part_offset + ucast (boot_fat_offset boot) * 512;
          c = seek_start fat_pos c;
          upcase_clusters = upcase_cluster_count cluster_sz;
          fat_entries = initial_fat upcase_clusters;
          c = fold (\<lambda>entry. write_all (to_le 4 entry)) fat_entries c;
          fat_remaining = ucast (boot_fat_length boot) * 512 - (word_of_nat (length fat_entries) * 4 :: u64);
          c = write_all (replicate (unat fat_remaining) 0) c;
          heap_offset = part_offset + ucast (boot_cluster_heap_offset boot) * 512;
          bitmap_size = (boot_cluster_count boot + 7) div 8;
          bitmap = initial_bitmap cluster_sz upcase_clusters;
          c = seek_start heap_offset c;
          c = write_all bitmap c;
          upcase_data = generate_upcase_table;
          upcase_checksum = calculate_upcase_checksum upcase_data;
          upcase_offset = heap_offset + ucast cluster_sz;
          c = seek_start upcase_offset c;
          c = write_all upcase_data c;
          upcase_total_size = ucast upcase_clusters * ucast cluster_sz :: u64;
          upcase_padding = upcase_total_size - word_of_nat (length upcase_data);
          c = (if upcase_padding > 0 then write_all (replicate (unat upcase_padding) 0) c else c);
          root_offset = heap_offset + (1 + ucast upcase_clusters) * ucast cluster_sz;
          c = seek_start root_offset c;
          c = write_all (create_volume_label_entry label) c;
          c = write_all (create_bitmap_entry 2 (ucast bitmap_size)) c;
          c = write_all (create_upcase_entry 3 (word_of_nat (length upcase_data)) upcase_checksum) c;
          root_padding = ucast cluster_sz - (32 * 3 :: u64)
      in write_all (replicate (unat root_padding) 0) c)"

section \<open>Geometry of a formatted volume\<close>

lemma geometry_nat:
  fixes n spc cc1 fl cc :: nat
  assumes "0 < spc" and cc1: "cc1 = (n - 56) div spc" and big: "3967 \<le> cc1"
    and fl: "fl = ((cc1 + 2) * 4 + 511) div 512" and cc: "cc = (n - (24 + fl)) div spc"
  shows "32 \<le> fl" and "cc \<le> cc1" and "4 * (cc + 2) \<le> 512 * fl" and "fl \<le> cc1"
    and "24 + fl + cc * spc \<le> n" and "n < 24 + fl + (cc + 1) * spc" and "24 + fl \<le> n"
proof -
  define r where "r = ((cc1 + 2) * 4 + 511) mod 512"
  have "fl * 512 + r = (cc1 + 2) * 4 + 511" unfolding fl r_def by (rule div_mult_mod_eq)
  then have "fl * 512 + r = 4 * cc1 + 519" by simp
  moreover have "r < 512" by (simp add: r_def)
  ultimately have fr: "fl * 512 \<le> 4 * cc1 + 519" "4 * cc1 + 8 \<le> fl * 512"
    "4 * cc1 + 519 < fl * 512 + 512" by linarith+
  show fl32: "32 \<le> fl" using big fr by linarith
  show "cc \<le> cc1" unfolding cc cc1 using fl32 by (intro div_le_mono) simp
  moreover have "4 * (cc1 + 2) \<le> 512 * fl" using fr by simp
  ultimately show "4 * (cc + 2) \<le> 512 * fl" by simp
  show "fl \<le> cc1" using big fr by linarith
  moreover have "cc1 * spc \<le> n - 56" unfolding cc1 by simp
  moreover have "cc1 \<le> cc1 * spc" using assms(1) by simp
  ultimately have le: "24 + fl \<le> n" using big by linarith
  then show "24 + fl \<le> n" .
  have "cc * spc \<le> n - (24 + fl)" unfolding cc by simp
  with le show "24 + fl + cc * spc \<le> n" by linarith
  have "n - (24 + fl) < (cc + 1) * spc" unfolding cc using assms(1)
    by (metis Suc_eq_plus1 dividend_less_div_times mult.commute mult_Suc)
  with le show "n < 24 + fl + (cc + 1) * spc" by linarith
qed

lemma fl_bound: "fl = ((cc1 + 2) * 4 + 511) div 512 \<Longrightarrow> fl * 512 \<le> 4 * cc1 + 519" for fl cc1 :: nat
  using div_times_less_eq_dividend [of "(cc1 + 2) * 4 + 511" 512] by simp

text \<open>The boot sector's fields in natural numbers, for a cluster of \<open>spc\<close> sectors.\<close>

lemma boot_sector_fields:
  fixes v :: u64
  assumes v: "unat v < 2 ^ 32" and spc: "unat cs = 512 * spc" "0 < spc" "spc \<le> 256"
    and cc1: "cc1 = (unat v - 56) div spc" "3967 \<le> cc1" "cc1 \<le> 2 ^ 24"
    and fl: "fl = ((cc1 + 2) * 4 + 511) div 512" and cc: "cc = (unat v - (24 + fl)) div spc"
  shows "unat (boot_fat_offset (boot_sector_new v cs serial)) = 24"
    and "unat (boot_fat_length (boot_sector_new v cs serial)) = fl"
    and "unat (boot_cluster_heap_offset (boot_sector_new v cs serial)) = 24 + fl"
    and "unat (boot_cluster_count (boot_sector_new v cs serial)) = cc"
proof -
  note g = geometry_nat [OF spc(2) cc1(1,2) fl cc]
  have v32: "unat (ucast v :: u32) = unat v" using v by (simp add: unsigned_ucast_eq take_bit_eq_mod)
  have s: "unat (cs div 512) = spc" using spc by (simp add: unat_div)
  have "56 \<le> unat v" using g(7) cc1(2) g(1) by linarith
  then have u1: "unat (ucast v - 24 - 32 :: u32) = unat v - 56"
    using v32 by (simp add: unat_sub word_le_nat_alt)
  then have c1: "unat ((ucast v - 24 - 32) div (cs div 512) :: u32) = cc1"
    using s cc1(1) by (simp add: unat_div)
  define w :: u32 where "w = (ucast v - 24 - 32) div (cs div 512)"
  have w: "unat w = cc1" using c1 by (simp add: w_def)
  define e where "e = w + 2"
  have e: "unat e = cc1 + 2" using w cc1(3) by (simp add: e_def unat_word_ariths(1))
  define m where "m = e * 4"
  have m: "unat m = (cc1 + 2) * 4" using e cc1(3) by (simp add: m_def unat_word_ariths(2))
  have "unat (m + 511) = (cc1 + 2) * 4 + 511" using m cc1(3) by (simp add: unat_word_ariths(1))
  then have "unat ((m + 511) div 512) = fl"
    unfolding fl by (simp add: unat_div)
  moreover have "(w + 2) * 4 + 512 - 1 = m + 511" by (simp add: m_def e_def)
  ultimately have f: "unat (((w + 2) * 4 + 512 - 1) div 512) = fl" by (simp only:)
  define l where "l = ((w + 2) * 4 + 512 - 1) div 512"
  have l: "unat l = fl" using f by (simp add: l_def)
  have h: "unat (24 + l) = 24 + fl" using l g(4) cc1(3) by (simp add: unat_word_ariths(1))
  have hs: "unat (ucast v - (24 + l) :: u32) = unat v - (24 + fl)"
    using h v32 g(7) by (simp add: unat_sub word_le_nat_alt)
  have c: "unat ((ucast v - (24 + l)) div (cs div 512) :: u32) = cc"
    using hs s cc by (simp add: unat_div)
  show "unat (boot_fat_offset (boot_sector_new v cs serial)) = 24"
    by (simp add: boot_sector_new_def Let_def)
  have m1: "max l 1 = l" using l g(1) by (simp add: max_def word_le_nat_alt)
  show "unat (boot_fat_length (boot_sector_new v cs serial)) = fl"
    "unat (boot_cluster_heap_offset (boot_sector_new v cs serial)) = 24 + fl"
    "unat (boot_cluster_count (boot_sector_new v cs serial)) = cc"
    unfolding boot_sector_new_def Let_def w_def [symmetric] l_def [symmetric] m1
    by (simp_all only: boot_sector.simps l h c)
qed

text \<open>The three cluster sizes the formatter chooses.\<close>

lemma cluster_size_cases:
  assumes "unat v < 2 ^ 32"
  obtains (small) "get_cluster_size v = 4096" "unat v < 524288"
  | (medium) "get_cluster_size v = 32768" "524288 \<le> unat v" "unat v < 16777216"
  | (large) "get_cluster_size v = 131072" "16777216 \<le> unat v"
proof -
  have "unat (v * 512) = unat v * 512" using assms by (simp add: unat_word_ariths(2))
  then show thesis
    using small medium large
    by (simp add: get_cluster_size_def Let_def word_less_nat_alt split: if_splits) linarith
qed

lemma upcase_cluster_counts:
  "unat (upcase_cluster_count 4096) = 32" "unat (upcase_cluster_count 32768) = 4"
  "unat (upcase_cluster_count 131072) = 1"
  by (simp_all add: upcase_cluster_count_def UPCASE_TABLE_SIZE_def)

lemma geometry_facts:
  assumes "63488 \<le> unat v" and "unat v < 2 ^ 32"
  shows "let b = boot_sector_new v (get_cluster_size v) serial;
       spc = 2 ^ unat (boot_spc_shift b); cc = unat (boot_cluster_count b);
       fl = unat (boot_fat_length b); heap = unat (boot_cluster_heap_offset b)
     in unat (get_cluster_size v) = 512 * spc \<and>
        unat (boot_fat_offset b) = 24 \<and> heap = 24 + fl \<and>
        4 * (cc + 2) \<le> 512 * fl \<and>
        heap + cc * spc \<le> unat v \<and> unat v < heap + (cc + 1) * spc \<and>
        unat (boot_first_cluster_of_root b) = 3 + 131072 div unat (get_cluster_size v) \<and>
        unat (boot_first_cluster_of_root b) < cc + 2"
proof -
  have root: "boot_first_cluster_of_root (boot_sector_new v cs serial) = 3 + upcase_cluster_count cs"
    and shift: "boot_spc_shift (boot_sector_new v cs serial) = sectors_per_cluster_shift cs" for cs
    by (simp_all add: boot_sector_new_def Let_def)
  note ucc = upcase_cluster_counts
  have ?thesis if spc: "unat (get_cluster_size v) = 512 * spc" "0 < spc" "spc \<le> 256"
      "spc = 2 ^ unat (sectors_per_cluster_shift (get_cluster_size v))"
    and cc1: "4100 \<le> (unat v - 56) div spc" "(unat v - 56) div spc \<le> 2 ^ 24"
    and up: "unat (3 + upcase_cluster_count (get_cluster_size v)) = 3 + 131072 div (512 * spc)"
      "131072 div (512 * spc) \<le> 32" for spc
  proof -
    define n where "n = unat v"
    define cc1 where "cc1 = (n - 56) div spc"
    define fl where "fl = ((cc1 + 2) * 4 + 511) div 512"
    define cc where "cc = (n - (24 + fl)) div spc"
    have c: "3967 \<le> cc1" "cc1 \<le> 2 ^ 24" "4100 \<le> cc1" using cc1 by (simp_all add: cc1_def n_def)
    note f = boot_sector_fields [OF assms(2) spc(1-3) cc1_def [unfolded n_def] c(1,2) fl_def cc_def [unfolded n_def], of serial]
    note g = geometry_nat [OF spc(2) cc1_def c(1) fl_def cc_def]
    have "35 < cc + 2"
    proof (rule ccontr)
      assume "\<not> 35 < cc + 2"
      then have "(cc + 1) * spc \<le> 35 * spc" by (intro mult_le_mono) simp_all
      moreover have "cc1 * spc \<le> n - 56" unfolding cc1_def by simp
      moreover have "cc1 * spc = (cc1 - 35) * spc + 35 * spc"
        using c(3) by (simp flip: add_mult_distrib)
      moreover have "cc1 - 35 \<le> (cc1 - 35) * spc" using spc(2) by simp
      moreover have "fl + 100 \<le> cc1" using fl_bound [OF fl_def] c(3) by linarith
      ultimately show False using g(6) c(3) by linarith
    qed
    then show ?thesis
      using f g spc up by (simp add: root shift Let_def n_def)
  qed
  note generic = this
  show ?thesis
    using cluster_size_cases [OF assms(2)]
  proof cases
    case 1
    then show ?thesis using assms by (intro generic [of 8]) (simp_all add: sectors_per_cluster_shift_def unat_word_ariths(1) ucc)
  next
    case 2
    then show ?thesis by (intro generic [of 64]) (simp_all add: sectors_per_cluster_shift_def unat_word_ariths(1) ucc)
  next
    case 3
    then show ?thesis using assms by (intro generic [of 256]) (simp_all add: sectors_per_cluster_shift_def unat_word_ariths(1) ucc)
  qed
qed

text \<open>Formatting any volume from the smallest data partition (31 MiB) up to 2 TiB: the shift in
  the boot sector describes the cluster size, the cluster heap follows the FAT, the FAT has an entry
  for every cluster, the clusters fit in the volume and fill it up to less than one cluster, and the
  root directory lies in the heap after the bitmap and the upcase table.\<close>

theorem exfat_geometry:
  assumes "63488 \<le> unat v" and "unat v < 2 ^ 32"
  shows "let b = boot_sector_new v (get_cluster_size v) serial;
       spc = 2 ^ unat (boot_spc_shift b); cc = unat (boot_cluster_count b);
       fl = unat (boot_fat_length b); heap = unat (boot_cluster_heap_offset b)
     in unat (get_cluster_size v) = 512 * spc \<and>
        unat (boot_fat_offset b) = 24 \<and> heap = 24 + fl \<and>
        4 * (cc + 2) \<le> 512 * fl \<and>
        heap + cc * spc \<le> unat v \<and> unat v < heap + (cc + 1) * spc \<and>
        unat (boot_first_cluster_of_root b) = 3 + 131072 div unat (get_cluster_size v) \<and>
        unat (boot_first_cluster_of_root b) < cc + 2"
  by (rule geometry_facts [OF assms])

theorem exfat_geometry_witness:
  "let b = boot_sector_new 63488 (get_cluster_size 63488) 0 in
     4 * (unat (boot_cluster_count b) + 2) \<le> 512 * unat (boot_fat_length b)"
  using exfat_geometry [of 63488 0] by (simp add: Let_def)

text \<open>The bitmap of a 200 MiB volume is one cluster and has fewer bits than the volume has
  clusters.\<close>

theorem bitmap_too_small:
  "get_cluster_size 409600 = 4096 \<and>
   8 * length (initial_bitmap (get_cluster_size 409600) (upcase_cluster_count (get_cluster_size 409600)))
     < unat (boot_cluster_count (boot_sector_new 409600 (get_cluster_size 409600) serial))"
proof -
  have len: "length (initial_bitmap cs u) = unat cs" for cs u
  proof -
    have mark: "length (mark_cluster c b) = length b" for c b by (simp add: mark_cluster_def Let_def)
    have "length (fold (\<lambda>i. mark_cluster (f i)) xs b) = length b" for f b and xs :: "nat list"
      by (induction xs arbitrary: b) (simp_all add: mark)
    then show ?thesis by (simp add: initial_bitmap_def Let_def mark)
  qed
  have cs: "get_cluster_size 409600 = 4096" by (simp add: get_cluster_size_def)
  have "unat (boot_cluster_count (boot_sector_new 409600 4096 serial)) = 51147"
    by (rule boot_sector_fields(4) [where spc = 8 and ?cc1.0 = 51193 and fl = 400]) simp_all
  then show ?thesis by (simp add: cs len)
qed

section \<open>Boot checksum\<close>

lemma checksum_bytes_skip:
  "k \<in> {106, 107, 112} \<Longrightarrow> i \<le> k \<Longrightarrow> checksum_bytes 0 i (bs[k - i := x]) c = checksum_bytes 0 i bs c"
proof (induction bs arbitrary: i c)
  case (Cons b bs)
  show ?case
  proof (cases "k = i")
    case True
    with Cons.prems(1) show ?thesis by auto
  next
    case False
    with Cons.prems have "k - i = Suc (k - (i + 1))" "i + 1 \<le> k" by auto
    with Cons show ?thesis by simp
  qed
qed simp

text \<open>The boot checksum does not depend on the volume flags and the percentage in use.\<close>

theorem boot_checksum_ignores_volatile_fields:
  "calculate_boot_checksum (s[106 := a, 107 := b, 112 := c] # rest) = calculate_boot_checksum (s # rest)"
  using checksum_bytes_skip [of 106 0 s a] checksum_bytes_skip [of 107 0 "s[106 := a]" b]
    checksum_bytes_skip [of 112 0 "s[106 := a, 107 := b]" c]
  by (simp add: calculate_boot_checksum_def)

end
