(* ===== verification/Exfat_Fat.thy ===== *)
theory Exfat_Fat
  imports Exfat_Format
begin

text \<open>
  \<^verbatim>\<open>src/libs/ventoy-img-rs/src/exfat/ops.rs\<close>, the lower half: opening a volume, cluster
  input and output, the FAT with its segment cache, cluster chains, the allocation bitmap with its
  cache, allocating, freeing and extending chains.

  A method of \<open>ExfatFs\<close> is a function from the file system state to a result and the state it
  leaves behind, also when it fails. Offsets are computed on words and wrap like the code's.
\<close>

section \<open>State\<close>

definition FAT_ENTRY_FREE :: u32 where "FAT_ENTRY_FREE = 0x00000000"
definition FAT_ENTRY_END_OF_CHAIN :: u32 where "FAT_ENTRY_END_OF_CHAIN = 0xFFFFFFFF"
definition FAT_CACHE_ENTRIES :: nat where "FAT_CACHE_ENTRIES = 8192"

record fat_cache =
  start_cluster :: u32
  entries :: "u32 list"

definition fat_cache_new :: fat_cache where
  "fat_cache_new = \<lparr>start_cluster = 0, entries = []\<rparr>"

definition cache_contains :: "fat_cache \<Rightarrow> u32 \<Rightarrow> bool" where
  "cache_contains c cluster =
     (if entries c = [] then False
      else cluster \<ge> start_cluster c \<and> cluster < start_cluster c + word_of_nat (length (entries c)))"

definition cache_get :: "fat_cache \<Rightarrow> u32 \<Rightarrow> u32 option" where
  "cache_get c cluster =
     (if cache_contains c cluster then Some (entries c ! unat (cluster - start_cluster c)) else None)"

definition cache_update :: "fat_cache \<Rightarrow> u32 \<Rightarrow> u32 \<Rightarrow> fat_cache" where
  "cache_update c cluster v =
     (if cache_contains c cluster
      then c\<lparr>entries := (entries c)[unat (cluster - start_cluster c) := v]\<rparr> else c)"

record exfat_fs =
  fs_file :: bytes
  partition_offset :: u64
  bytes_per_sector :: u32
  sectors_per_cluster :: u32
  cluster_size :: u32
  fat_offset :: u32
  fat_length :: u32
  cluster_heap_offset :: u32
  cluster_count :: u32
  first_cluster_of_root :: u32
  fat_cache :: fat_cache
  bitmap_cache :: "bytes option"
  bitmap_dirty :: bool

type_synonym 'a fs_op = "(exfat_fs, ventoy_error, 'a) stm"

definition fs_error :: "string \<Rightarrow> ventoy_error" where
  "fs_error msg = FilesystemError (lit msg)"

text \<open>\<open>1u32 << shift\<close> in a release build: the shift amount is taken modulo 32.\<close>

definition shl1 :: "u8 \<Rightarrow> u32" where
  "shl1 k = push_bit (unat k mod 32) 1"

definition open_fs :: "bytes \<Rightarrow> partition_layout \<Rightarrow> ventoy_error + exfat_fs" where
  "open_fs file layout =
     (let part_offset = data_offset layout in
      case read_at (unat part_offset) 512 file of
        None \<Rightarrow> Inl UnexpectedEof
      | Some boot \<Rightarrow>
          if slice 3 8 boot \<noteq> [0x45, 0x58, 0x46, 0x41, 0x54, 0x20, 0x20, 0x20]
          then Inl (fs_error ''Invalid exFAT signature'')
          else
            let bps = shl1 (boot ! 108); spc = shl1 (boot ! 109)
            in Inr \<lparr>fs_file = file, partition_offset = part_offset, bytes_per_sector = bps,
                 sectors_per_cluster = spc, cluster_size = bps * spc,
                 fat_offset = from_le (slice 80 4 boot), fat_length = from_le (slice 84 4 boot),
                 cluster_heap_offset = from_le (slice 88 4 boot),
                 cluster_count = from_le (slice 92 4 boot),
                 first_cluster_of_root = from_le (slice 96 4 boot),
                 fat_cache = fat_cache_new, bitmap_cache = None, bitmap_dirty = False\<rparr>)"

section \<open>Cluster input and output\<close>

definition cluster_to_offset :: "exfat_fs \<Rightarrow> u32 \<Rightarrow> u64" where
  "cluster_to_offset fs cluster =
     (let cluster_index = ucast (cluster - 2)
      in partition_offset fs + ucast (cluster_heap_offset fs) * ucast (bytes_per_sector fs)
         + cluster_index * ucast (cluster_size fs))"

text \<open>\<open>seek\<close> and \<open>read_exact\<close>, \<open>seek\<close> and \<open>write_all\<close>.\<close>

definition file_read :: "u64 \<Rightarrow> nat \<Rightarrow> bytes fs_op" where
  "file_read pos n fs =
     (case read_at (unat pos) n (fs_file fs) of
        None \<Rightarrow> (Inl UnexpectedEof, fs)
      | Some d \<Rightarrow> (Inr d, fs))"

definition file_write :: "u64 \<Rightarrow> bytes \<Rightarrow> unit fs_op" where
  "file_write pos d fs = (Inr (), fs\<lparr>fs_file := write_at (unat pos) d (fs_file fs)\<rparr>)"

definition read_cluster :: "u32 \<Rightarrow> bytes fs_op" where
  "read_cluster cluster fs =
     file_read (cluster_to_offset fs cluster) (unat (cluster_size fs)) fs"

definition write_cluster :: "u32 \<Rightarrow> bytes \<Rightarrow> unit fs_op" where
  "write_cluster cluster data fs =
     (if length data > unat (cluster_size fs) then (Inl (fs_error ''Data exceeds cluster size''), fs)
      else
        let offset = cluster_to_offset fs cluster;
            padding = replicate (unat (cluster_size fs) - length data) 0
        in file_write offset (data @ padding) fs)"

section \<open>The FAT\<close>

definition fat_entry_offset :: "exfat_fs \<Rightarrow> u32 \<Rightarrow> u64" where
  "fat_entry_offset fs cluster =
     partition_offset fs + ucast (fat_offset fs) * ucast (bytes_per_sector fs) + ucast cluster * 4"

fun le_words :: "bytes \<Rightarrow> u32 list" where
  "le_words (a # b # c # d # bs) = from_le [a, b, c, d] # le_words bs"
| "le_words _ = []"

definition load_fat_segment :: "u32 \<Rightarrow> unit fs_op" where
  "load_fat_segment first fs =
     (let max_cluster = cluster_count fs + 2;
          entries_to_read = min FAT_CACHE_ENTRIES (unat (max_cluster - first))
      in if entries_to_read = 0 then (Inr (), fs)
         else
           (case read_at (unat (fat_entry_offset fs first)) (entries_to_read * 4) (fs_file fs) of
              None \<Rightarrow> (Inl UnexpectedEof, fs)
            | Some buffer \<Rightarrow>
                (Inr (), fs\<lparr>fat_cache := \<lparr>start_cluster = first, entries = le_words buffer\<rparr>\<rparr>)))"

definition read_fat_entry :: "u32 \<Rightarrow> u32 fs_op" where
  "read_fat_entry cluster fs =
     (case cache_get (fat_cache fs) cluster of
        Some entry \<Rightarrow> (Inr entry, fs)
      | None \<Rightarrow>
          bindE (load_fat_segment cluster) (\<lambda>_ fs.
            case cache_get (fat_cache fs) cluster of
              Some entry \<Rightarrow> (Inr entry, fs)
            | None \<Rightarrow> (Inl (FilesystemError (lit ''Failed to cache FAT entry for cluster ''
                          @ lit (nat_to_string (unat cluster)))), fs)) fs)"

definition write_fat_entry :: "u32 \<Rightarrow> u32 \<Rightarrow> unit fs_op" where
  "write_fat_entry cluster v fs =
     bindE (file_write (fat_entry_offset fs cluster) (to_le 4 v)) (\<lambda>_.
       modifyE (\<lambda>fs. fs\<lparr>fat_cache := cache_update (fat_cache fs) cluster v\<rparr>)) fs"

text \<open>The \<open>while\<close> loop of \<open>read_cluster_chain\<close>. The chain grows by one cluster per turn and the
  loop fails when it is longer than \<open>cluster_count\<close>, so \<open>cluster_count + 1\<close> turns are enough: the
  first equation is never reached.\<close>

fun chain_loop :: "nat \<Rightarrow> u32 \<Rightarrow> u32 list \<Rightarrow> u32 list fs_op" where
  "chain_loop 0 current chain = throwE Panic"
| "chain_loop (Suc fuel) current chain =
     (if 2 \<le> current \<and> current < 0xFFFFFFF8 then
        (\<lambda>fs. bindE (read_fat_entry current) (\<lambda>next.
           if length (chain @ [current]) > unat (cluster_count fs)
           then throwE (fs_error ''FAT chain too long, possible corruption'')
           else chain_loop fuel next (chain @ [current])) fs)
      else returnE chain)"

definition read_cluster_chain :: "u32 \<Rightarrow> u32 list fs_op" where
  "read_cluster_chain first_cluster fs =
     chain_loop (unat (cluster_count fs) + 2) first_cluster [] fs"

section \<open>The allocation bitmap\<close>

definition read_bitmap :: "bytes fs_op" where
  "read_bitmap fs =
     (case bitmap_cache fs of
        Some bitmap \<Rightarrow> (Inr bitmap, fs)
      | None \<Rightarrow>
          bindE (read_cluster 2) (\<lambda>bitmap.
          bindE (modifyE (\<lambda>fs. fs\<lparr>bitmap_cache := Some bitmap\<rparr>)) (\<lambda>_. returnE bitmap)) fs)"

text \<open>\<open>get_bitmap_mut\<close> followed by an update of the cached bitmap in place.\<close>

definition update_bitmap :: "(bytes \<Rightarrow> bytes) \<Rightarrow> unit fs_op" where
  "update_bitmap f =
     bindE read_bitmap (\<lambda>bitmap. modifyE (\<lambda>fs. fs\<lparr>bitmap_cache := Some (f bitmap)\<rparr>))"

definition write_bitmap :: "bytes \<Rightarrow> unit fs_op" where
  "write_bitmap bitmap =
     bindE (write_cluster 2 bitmap) (\<lambda>_.
       modifyE (\<lambda>fs. fs\<lparr>bitmap_cache := Some bitmap, bitmap_dirty := False\<rparr>))"

text \<open>\<open>take()\<close> empties the cache; when the write fails it stays empty.\<close>

definition flush_bitmap_now :: "unit fs_op" where
  "flush_bitmap_now fs =
     (case bitmap_cache fs of
        None \<Rightarrow> (Inr (), fs)
      | Some bitmap \<Rightarrow>
          bindE (write_cluster 2 bitmap) (\<lambda>_. modifyE (\<lambda>fs. fs\<lparr>bitmap_cache := Some bitmap\<rparr>))
            (fs\<lparr>bitmap_cache := None\<rparr>))"

definition flush_bitmap :: "unit fs_op" where
  "flush_bitmap fs =
     (if bitmap_dirty fs then
        (case bitmap_cache fs of
           None \<Rightarrow> (Inr (), fs)
         | Some bitmap \<Rightarrow>
             bindE (write_cluster 2 bitmap) (\<lambda>_.
               modifyE (\<lambda>fs. fs\<lparr>bitmap_cache := Some bitmap, bitmap_dirty := False\<rparr>))
               (fs\<lparr>bitmap_cache := None\<rparr>))
      else (Inr (), fs))"

definition is_cluster_allocated :: "bytes \<Rightarrow> u32 \<Rightarrow> bool" where
  "is_cluster_allocated bitmap cluster =
     (let index = unat (cluster - 2); byte_index = index div 8; bit_index = index mod 8
      in if byte_index \<ge> length bitmap then False
         else bitmap ! byte_index AND push_bit bit_index 1 \<noteq> 0)"

definition set_cluster_allocated :: "u32 \<Rightarrow> bool \<Rightarrow> bytes \<Rightarrow> bytes" where
  "set_cluster_allocated cluster allocated bitmap =
     (let index = unat (cluster - 2); byte_index = index div 8; bit_index = index mod 8
      in if byte_index < length bitmap then
           bitmap[byte_index :=
             (if allocated then bitmap ! byte_index OR push_bit bit_index 1
              else bitmap ! byte_index AND NOT (push_bit bit_index 1))]
         else bitmap)"

section \<open>Allocation\<close>

text \<open>The candidates of \<open>start_cluster..self.cluster_count + 2\<close>, in order. The loop stops after the
  first free cluster that makes the count reach \<open>count\<close>, so it takes one even for a count of 0.\<close>

definition cluster_range :: "u32 \<Rightarrow> u32 \<Rightarrow> u32 list" where
  "cluster_range first end = map word_of_nat [unat first..<unat end]"

definition find_free_clusters :: "nat \<Rightarrow> u32 list fs_op" where
  "find_free_clusters n =
     bindE read_bitmap (\<lambda>bitmap fs.
       let candidates = cluster_range (first_cluster_of_root fs + 1) (cluster_count fs + 2);
           free_clusters = take (max n 1) (filter (\<lambda>c. \<not> is_cluster_allocated bitmap c) candidates)
       in if length free_clusters < n then
            (Inl (FilesystemError (lit ''Not enough free space: need '' @ lit (nat_to_string n)
               @ lit '' clusters, found '' @ lit (nat_to_string (length free_clusters)))), fs)
          else (Inr free_clusters, fs))"

text \<open>Each cluster points to the next, the last one to the end of the chain.\<close>

fun link_chain :: "u32 list \<Rightarrow> unit fs_op" where
  "link_chain [] = returnE ()"
| "link_chain [c] = write_fat_entry c FAT_ENTRY_END_OF_CHAIN"
| "link_chain (c # d # cs) = bindE (write_fat_entry c d) (\<lambda>_. link_chain (d # cs))"

definition allocate_clusters :: "nat \<Rightarrow> u32 fs_op" where
  "allocate_clusters n =
     (if n = 0 then throwE (fs_error ''Cannot allocate 0 clusters'')
      else
        bindE (find_free_clusters n) (\<lambda>clusters.
        bindE (update_bitmap (fold (\<lambda>c. set_cluster_allocated c True) clusters)) (\<lambda>_.
        bindE flush_bitmap_now (\<lambda>_.
        bindE (link_chain clusters) (\<lambda>_. returnE (hd clusters))))))"

definition free_cluster_chain :: "u32 \<Rightarrow> unit fs_op" where
  "free_cluster_chain first_cluster =
     bindE (read_cluster_chain first_cluster) (\<lambda>chain.
     bindE (update_bitmap (fold (\<lambda>c. set_cluster_allocated c False) chain)) (\<lambda>_.
     bindE flush_bitmap_now (\<lambda>_.
       forE chain (\<lambda>c. write_fat_entry c FAT_ENTRY_FREE))))"

definition extend_cluster_chain :: "u32 \<Rightarrow> u32 fs_op" where
  "extend_cluster_chain first_cluster =
     bindE (read_cluster_chain first_cluster) (\<lambda>chain.
       if chain = [] then throwE (fs_error ''Empty cluster chain'')
       else
         bindE (allocate_clusters 1) (\<lambda>new_cluster.
         bindE (write_fat_entry (last chain) new_cluster) (\<lambda>_.
         bindE (getsE cluster_size) (\<lambda>cluster_sz.
         bindE (write_cluster new_cluster (replicate (unat cluster_sz) 0)) (\<lambda>_.
           returnE new_cluster)))))"

end
