(* ===== verification/Exfat_Volume.thy ===== *)
theory Exfat_Volume
  imports Exfat_Fat
begin

text \<open>
  What a volume is, above the byte offsets and the caches of \<open>ExfatFs\<close>: the cluster size and
  count, the FAT as a function from clusters to entries and the heap as a function from clusters to
  their contents. \<open>vol\<close> abstracts a file system state to its volume and \<open>fs_ok\<close> is the
  invariant: the geometry fits in the file and both caches agree with it. Every operation of
  \<^verbatim>\<open>Exfat_Fat\<close> is shown to refine its effect on volumes (\<open>yields\<close>).
\<close>

section \<open>Positions\<close>

definition fat_base :: "exfat_fs \<Rightarrow> nat" where
  "fat_base fs = unat (partition_offset fs) + unat (fat_offset fs) * unat (bytes_per_sector fs)"

definition heap_base :: "exfat_fs \<Rightarrow> nat" where
  "heap_base fs = unat (partition_offset fs) + unat (cluster_heap_offset fs) * unat (bytes_per_sector fs)"

definition fat_pos :: "exfat_fs \<Rightarrow> u32 \<Rightarrow> nat" where
  "fat_pos fs c = fat_base fs + 4 * unat c"

definition cluster_pos :: "exfat_fs \<Rightarrow> u32 \<Rightarrow> nat" where
  "cluster_pos fs c = heap_base fs + (unat c - 2) * unat (cluster_size fs)"

definition fat_at :: "exfat_fs \<Rightarrow> u32 \<Rightarrow> u32" where
  "fat_at fs c = from_le (slice (fat_pos fs c) 4 (fs_file fs))"

definition cluster_at :: "exfat_fs \<Rightarrow> u32 \<Rightarrow> bytes" where
  "cluster_at fs c = slice (cluster_pos fs c) (unat (cluster_size fs)) (fs_file fs)"

text \<open>The geometry: FAT, then heap, then the end of the file, in this order and without overlap.\<close>

definition geometry_ok :: "exfat_fs \<Rightarrow> bool" where
  "geometry_ok fs \<longleftrightarrow> 0 < unat (cluster_size fs) \<and> 1 \<le> unat (cluster_count fs) \<and>
     unat (cluster_count fs) + 2 < 0xFFFFFFF8 \<and>
     fat_base fs + 4 * (unat (cluster_count fs) + 2) \<le> heap_base fs \<and>
     heap_base fs + unat (cluster_count fs) * unat (cluster_size fs) \<le> length (fs_file fs) \<and>
     length (fs_file fs) < 2 ^ 64 \<and>
     2 < unat (first_cluster_of_root fs) \<and>
     unat (first_cluster_of_root fs) < unat (cluster_count fs) + 2"

definition fat_cache_ok :: "exfat_fs \<Rightarrow> bool" where
  "fat_cache_ok fs \<longleftrightarrow>
     (let k = fat_cache fs in entries k \<noteq> [] \<longrightarrow>
        unat (start_cluster k) + length (entries k) \<le> unat (cluster_count fs) + 2 \<and>
        (\<forall>i < length (entries k). entries k ! i = fat_at fs (start_cluster k + word_of_nat i)))"

definition bitmap_cache_ok :: "exfat_fs \<Rightarrow> bool" where
  "bitmap_cache_ok fs \<longleftrightarrow> bitmap_cache fs = None \<or> bitmap_cache fs = Some (cluster_at fs 2)"

definition fs_ok :: "exfat_fs \<Rightarrow> bool" where
  "fs_ok fs \<longleftrightarrow> geometry_ok fs \<and> fat_cache_ok fs \<and> bitmap_cache_ok fs"

section \<open>Volumes\<close>

record volume =
  v_cluster_size :: nat
  v_count :: nat
  v_root :: u32
  v_fat :: "u32 \<Rightarrow> u32"
  v_data :: "u32 \<Rightarrow> bytes"
  v_boot :: "exfat_fs \<times> nat"

text \<open>What an operation never changes: the fields read from the boot sector, the file up to the FAT and its
  length.\<close>

definition boot_part :: "exfat_fs \<Rightarrow> exfat_fs \<times> nat" where
  "boot_part fs = (fs\<lparr>fs_file := take (fat_base fs) (fs_file fs), fat_cache := fat_cache_new, bitmap_cache := None,
     bitmap_dirty := False\<rparr>, length (fs_file fs))"

definition in_fat :: "nat \<Rightarrow> u32 \<Rightarrow> bool" where
  "in_fat n c \<longleftrightarrow> unat c < n + 2"

definition in_heap :: "nat \<Rightarrow> u32 \<Rightarrow> bool" where
  "in_heap n c \<longleftrightarrow> 2 \<le> unat c \<and> unat c < n + 2"

definition vol :: "exfat_fs \<Rightarrow> volume" where
  "vol fs = (let n = unat (cluster_count fs) in
     \<lparr>v_cluster_size = unat (cluster_size fs), v_count = n, v_root = first_cluster_of_root fs,
      v_fat = (\<lambda>c. if in_fat n c then fat_at fs c else 0),
      v_data = (\<lambda>c. if in_heap n c then cluster_at fs c else []), v_boot = boot_part fs\<rparr>)"

lemma vol_fields [simp]:
  "v_cluster_size (vol fs) = unat (cluster_size fs)" "v_count (vol fs) = unat (cluster_count fs)"
  "v_root (vol fs) = first_cluster_of_root fs" "v_boot (vol fs) = boot_part fs"
  by (simp_all add: vol_def Let_def)

lemma v_fat_vol [simp]: "in_fat (unat (cluster_count fs)) c \<Longrightarrow> v_fat (vol fs) c = fat_at fs c"
  by (simp add: vol_def Let_def)

lemma v_data_vol [simp]: "in_heap (unat (cluster_count fs)) c \<Longrightarrow> v_data (vol fs) c = cluster_at fs c"
  by (simp add: vol_def Let_def)

lemma in_heap_in_fat: "in_heap n c \<Longrightarrow> in_fat n c"
  by (simp add: in_heap_def in_fat_def)

text \<open>Running an operation from a good state: the result, and the volume it leaves in a good state.\<close>

definition yields :: "'a fs_op \<Rightarrow> exfat_fs \<Rightarrow> ventoy_error + 'a \<Rightarrow> volume \<Rightarrow> bool" where
  "yields f fs r v \<longleftrightarrow> (\<exists>fs'. f fs = (r, fs') \<and> fs_ok fs' \<and> vol fs' = v)"

lemma yieldsI: "f fs = (r, fs') \<Longrightarrow> fs_ok fs' \<Longrightarrow> vol fs' = v \<Longrightarrow> yields f fs r v"
  by (auto simp: yields_def)

lemma yieldsE:
  assumes "yields f fs r v"
  obtains fs' where "f fs = (r, fs')" and "fs_ok fs'" and "vol fs' = v"
  using assms by (auto simp: yields_def)

lemma yields_bind:
  assumes "yields m fs (Inr a) v"
    and "\<And>fs'. fs_ok fs' \<Longrightarrow> vol fs' = v \<Longrightarrow> yields (f a) fs' r v'"
  shows "yields (bindE m f) fs r v'"
  using assms by (auto simp: yields_def)

lemma yields_bind_error: "yields m fs (Inl e) v \<Longrightarrow> yields (bindE m f) fs (Inl e) v"
  by (auto simp: yields_def)

lemma yields_return [simp]: "fs_ok fs \<Longrightarrow> yields (returnE a) fs r v \<longleftrightarrow> r = Inr a \<and> v = vol fs"
  by (auto simp: yields_def)

lemma yields_throw [simp]: "fs_ok fs \<Longrightarrow> yields (throwE e) fs r v \<longleftrightarrow> r = Inl e \<and> v = vol fs"
  by (auto simp: yields_def)

lemma yields_gets [simp]: "fs_ok fs \<Longrightarrow> yields (getsE f) fs r v \<longleftrightarrow> r = Inr (f fs) \<and> v = vol fs"
  by (auto simp: yields_def)

section \<open>Offsets\<close>

lemma unat_add64: "unat (a :: u64) + unat b < 2 ^ 64 \<Longrightarrow> unat (a + b) = unat a + unat b"
  by (simp add: unat_word_ariths(1))

lemma unat_mult64: "unat (a :: u64) * unat b < 2 ^ 64 \<Longrightarrow> unat (a * b) = unat a * unat b"
  by (simp add: unat_word_ariths(2))

lemma unat_ucast64 [simp]: "unat (ucast (w :: u32) :: u64) = unat w"
  using unsigned_less [of w, where 'a = nat] by (simp add: unsigned_ucast_eq take_bit_eq_mod)

lemma unat_sub2: "2 \<le> unat (c :: u32) \<Longrightarrow> unat (c - 2) = unat c - 2"
  by (simp add: unat_sub word_le_nat_alt)

lemma unat_base64:
  assumes "unat (p :: u64) + unat (o' :: u32) * unat (b :: u32) + k < 2 ^ 64" and "unat w = k"
  shows "unat (p + ucast o' * ucast b + w) = unat p + unat o' * unat b + k"
proof -
  have "unat (ucast o' * ucast b :: u64) = unat o' * unat b"
    using assms(1) by (subst unat_mult64) simp_all
  then show ?thesis using assms by (simp add: unat_add64)
qed

lemma geometry_bounds:
  assumes "geometry_ok fs" and "in_heap (unat (cluster_count fs)) c"
  shows "heap_base fs \<le> cluster_pos fs c"
    and "cluster_pos fs c + unat (cluster_size fs) \<le> length (fs_file fs)"
proof -
  show "heap_base fs \<le> cluster_pos fs c" by (simp add: cluster_pos_def)
  have "(unat c - 2 + 1) * unat (cluster_size fs) \<le> unat (cluster_count fs) * unat (cluster_size fs)"
    using assms(2) by (intro mult_le_mono1) (auto simp: in_heap_def)
  then show "cluster_pos fs c + unat (cluster_size fs) \<le> length (fs_file fs)"
    using assms(1) by (simp add: geometry_ok_def cluster_pos_def)
qed

lemma fat_bounds:
  assumes "geometry_ok fs" and "in_fat (unat (cluster_count fs)) c"
  shows "fat_pos fs c + 4 \<le> heap_base fs" and "fat_pos fs c + 4 \<le> length (fs_file fs)"
  using assms by (auto simp: geometry_ok_def in_fat_def fat_pos_def)

lemma unat_cluster_offset:
  assumes "geometry_ok fs" and "in_heap (unat (cluster_count fs)) c"
  shows "unat (cluster_to_offset fs c) = cluster_pos fs c"
proof -
  have b: "cluster_pos fs c < 2 ^ 64"
    using geometry_bounds [OF assms] assms(1) by (simp add: geometry_ok_def)
  have "unat (c - 2) * unat (cluster_size fs) < 2 ^ 64"
    using b assms(2) by (simp add: cluster_pos_def unat_sub2 in_heap_def)
  then have "unat (ucast (c - 2) * ucast (cluster_size fs) :: u64) = (unat c - 2) * unat (cluster_size fs)"
    using assms(2) by (subst unat_mult64) (simp_all add: unat_sub2 in_heap_def)
  then show ?thesis
    using b by (simp add: cluster_to_offset_def Let_def unat_base64 cluster_pos_def heap_base_def)
qed

lemma unat_fat_offset:
  assumes "geometry_ok fs" and "in_fat (unat (cluster_count fs)) c"
  shows "unat (fat_entry_offset fs c) = fat_pos fs c"
proof -
  have b: "fat_pos fs c < 2 ^ 64"
    using fat_bounds [OF assms] assms(1) by (simp add: geometry_ok_def)
  then have "4 * unat c < 2 ^ 64" by (simp add: fat_pos_def)
  then have "unat (ucast c * 4 :: u64) = 4 * unat c"
    by (subst unat_mult64) (simp_all add: mult.commute)
  then show ?thesis
    using b by (simp add: fat_entry_offset_def unat_base64 fat_pos_def fat_base_def)
qed

section \<open>Writes\<close>

named_theorems shape_simps
  \<open>positions and geometry do not depend on the caches, and on the file only through its length\<close>

lemma pos_updates [simp, shape_simps]:
  "fat_pos (fs_file_update f fs) = fat_pos fs" "cluster_pos (fs_file_update f fs) = cluster_pos fs"
  "fat_pos (fat_cache_update g fs) = fat_pos fs" "cluster_pos (fat_cache_update g fs) = cluster_pos fs"
  "fat_pos (bitmap_cache_update h fs) = fat_pos fs" "cluster_pos (bitmap_cache_update h fs) = cluster_pos fs"
  "fat_pos (bitmap_dirty_update d fs) = fat_pos fs" "cluster_pos (bitmap_dirty_update d fs) = cluster_pos fs"
  by (simp_all add: fun_eq_iff fat_pos_def cluster_pos_def fat_base_def heap_base_def)

lemma at_updates [simp, shape_simps]:
  "fat_at (fat_cache_update g fs) = fat_at fs" "cluster_at (fat_cache_update g fs) = cluster_at fs"
  "fat_at (bitmap_cache_update h fs) = fat_at fs" "cluster_at (bitmap_cache_update h fs) = cluster_at fs"
  "fat_at (bitmap_dirty_update d fs) = fat_at fs" "cluster_at (bitmap_dirty_update d fs) = cluster_at fs"
  by (simp_all add: fun_eq_iff fat_at_def cluster_at_def)

lemma geometry_updates [simp, shape_simps]:
  "geometry_ok (fat_cache_update g fs) = geometry_ok fs"
  "geometry_ok (bitmap_cache_update h fs) = geometry_ok fs"
  "geometry_ok (bitmap_dirty_update d fs) = geometry_ok fs"
  "length f = length (fs_file fs) \<Longrightarrow> geometry_ok (fs\<lparr>fs_file := f\<rparr>) = geometry_ok fs"
  by (simp_all add: geometry_ok_def fat_base_def heap_base_def)

lemma cache_ok_updates [simp, shape_simps]:
  "fat_cache_ok (bitmap_cache_update h fs) = fat_cache_ok fs"
  "fat_cache_ok (bitmap_dirty_update d fs) = fat_cache_ok fs"
  "bitmap_cache_ok (fat_cache_update g fs) = bitmap_cache_ok fs"
  "bitmap_cache_ok (bitmap_dirty_update d fs) = bitmap_cache_ok fs"
  by (simp_all add: fat_cache_ok_def bitmap_cache_ok_def)

lemma boot_part_updates [simp, shape_simps]:
  "boot_part (fat_cache_update g fs) = boot_part fs" "boot_part (bitmap_cache_update h fs) = boot_part fs"
  "boot_part (bitmap_dirty_update d fs) = boot_part fs"
  by (simp_all add: boot_part_def fat_base_def)

lemma boot_part_write:
  assumes "fat_base fs \<le> p" and "p + length d \<le> length (fs_file fs)"
  shows "boot_part (fs\<lparr>fs_file := write_at p d (fs_file fs)\<rparr>) = boot_part fs"
proof -
  have "take (fat_base fs) (write_at p d (fs_file fs)) = take (fat_base fs) (fs_file fs)"
    using assms by (simp add: write_at_inside copy_at_def min_def)
  then show ?thesis using assms(2) by (simp add: boot_part_def fat_base_def)
qed

lemma vol_updates [simp, shape_simps]:
  "vol (fat_cache_update g fs) = vol fs" "vol (bitmap_cache_update h fs) = vol fs"
  "vol (bitmap_dirty_update d fs) = vol fs"
  by (simp_all add: vol_def Let_def cong: if_cong)

lemma unat_plus_of_nat: "unat (w + word_of_nat i :: u32) = (unat w + i) mod 2 ^ 32"
  by (simp add: unat_word_ariths(1) unat_of_nat mod_add_right_eq)

lemma cluster_pos_disjoint:
  assumes "in_heap n c" and "in_heap n c'" and "c \<noteq> c'"
  shows "cluster_pos fs c + unat (cluster_size fs) \<le> cluster_pos fs c' \<or>
    cluster_pos fs c' + unat (cluster_size fs) \<le> cluster_pos fs c"
proof -
  have step: "(a + 1) * k \<le> b * k" if "a < b" for a b k :: nat
    using that by (intro mult_le_mono1) simp
  have "unat c - 2 < unat c' - 2 \<or> unat c' - 2 < unat c - 2"
    using assms by (auto simp: in_heap_def word_unat_eq_iff)
  then show ?thesis
    using step [of "unat c - 2" "unat c' - 2" "unat (cluster_size fs)"]
      step [of "unat c' - 2" "unat c - 2" "unat (cluster_size fs)"]
    by (auto simp: cluster_pos_def)
qed

lemma length_write_cluster:
  assumes "geometry_ok fs" and "in_heap (unat (cluster_count fs)) c" and "length d = unat (cluster_size fs)"
  shows "length (write_at (cluster_pos fs c) d (fs_file fs)) = length (fs_file fs)"
  using geometry_bounds [OF assms(1,2)] assms(3) by simp

lemma cluster_at_write_cluster:
  assumes "geometry_ok fs" and "in_heap (unat (cluster_count fs)) c" and "length d = unat (cluster_size fs)"
    and "in_heap (unat (cluster_count fs)) c'"
  shows "cluster_at (fs\<lparr>fs_file := write_at (cluster_pos fs c) d (fs_file fs)\<rparr>) c' =
    (if c' = c then d else cluster_at fs c')"
  using slice_write_at_same [of "cluster_pos fs c" d "fs_file fs"]
    slice_write_at_other [of "cluster_pos fs c'" _ "fs_file fs" "cluster_pos fs c" d]
    geometry_bounds [OF assms(1,4)] cluster_pos_disjoint [OF assms(4,2), of fs] assms(3)
  by (auto simp: cluster_at_def)

lemma fat_at_write_cluster:
  assumes "geometry_ok fs" and "in_heap (unat (cluster_count fs)) c" and "in_fat (unat (cluster_count fs)) c'"
  shows "fat_at (fs\<lparr>fs_file := write_at (cluster_pos fs c) d (fs_file fs)\<rparr>) c' = fat_at fs c'"
  using fat_bounds [OF assms(1,3)] geometry_bounds [OF assms(1,2)]
  by (simp add: fat_at_def slice_write_at_other)

lemma fat_at_write_fat:
  assumes "geometry_ok fs" and "in_fat (unat (cluster_count fs)) c" and "in_fat (unat (cluster_count fs)) c'"
  shows "fat_at (fs\<lparr>fs_file := write_at (fat_pos fs c) (to_le 4 v) (fs_file fs)\<rparr>) c' =
    (if c' = c then v else fat_at fs c')"
proof (cases "c' = c")
  case False
  then have "fat_pos fs c' + 4 \<le> fat_pos fs c \<or> fat_pos fs c + 4 \<le> fat_pos fs c'"
    by (auto simp: fat_pos_def word_unat_eq_iff)
  then show ?thesis
    using fat_bounds [OF assms(1,3)] False by (simp add: fat_at_def slice_write_at_other)
qed (simp add: fat_at_def slice_write_at_same')

lemma cluster_at_write_fat:
  assumes "geometry_ok fs" and "in_fat (unat (cluster_count fs)) c" and "in_heap (unat (cluster_count fs)) c'"
  shows "cluster_at (fs\<lparr>fs_file := write_at (fat_pos fs c) (to_le 4 v) (fs_file fs)\<rparr>) c' = cluster_at fs c'"
  using fat_bounds [OF assms(1,2)] geometry_bounds [OF assms(1,3)]
  by (simp add: cluster_at_def slice_write_at_other)

lemma length_write_fat:
  assumes "geometry_ok fs" and "in_fat (unat (cluster_count fs)) c"
  shows "length (write_at (fat_pos fs c) (to_le 4 (v :: u32)) (fs_file fs)) = length (fs_file fs)"
  using fat_bounds [OF assms] by simp

section \<open>Clusters\<close>

lemma two_in_heap: "geometry_ok fs \<Longrightarrow> in_heap (unat (cluster_count fs)) 2"
  by (simp add: geometry_ok_def in_heap_def)

lemma root_in_heap: "geometry_ok fs \<Longrightarrow> in_heap (unat (cluster_count fs)) (first_cluster_of_root fs)"
  by (simp add: geometry_ok_def in_heap_def)

lemma length_cluster_at:
  "geometry_ok fs \<Longrightarrow> in_heap (unat (cluster_count fs)) c \<Longrightarrow> length (cluster_at fs c) = unat (cluster_size fs)"
  using geometry_bounds by (simp add: cluster_at_def)

lemma read_cluster_ok:
  "fs_ok fs \<Longrightarrow> in_heap (unat (cluster_count fs)) c \<Longrightarrow> read_cluster c fs = (Inr (cluster_at fs c), fs)"
  using geometry_bounds
  by (simp add: read_cluster_def file_read_def unat_cluster_offset read_at_def cluster_at_def fs_ok_def)

lemma fat_cache_ok_cong:
  assumes "fat_cache fs' = fat_cache fs" and "cluster_count fs' = cluster_count fs"
    and "\<And>c. in_fat (unat (cluster_count fs)) c \<Longrightarrow> fat_at fs' c = fat_at fs c"
    and "fat_cache_ok fs" and "geometry_ok fs"
  shows "fat_cache_ok fs'"
proof -
  let ?k = "fat_cache fs"
  have "in_fat (unat (cluster_count fs)) (start_cluster ?k + word_of_nat i)"
    if "entries ?k \<noteq> []" "i < length (entries ?k)" for i
  proof -
    have "unat (start_cluster ?k) + i < unat (cluster_count fs) + 2"
      using assms(4) that by (auto simp: fat_cache_ok_def Let_def)
    moreover have "unat (start_cluster ?k + word_of_nat i) \<le> unat (start_cluster ?k) + i"
      by (simp add: unat_plus_of_nat)
    ultimately show ?thesis by (simp add: in_fat_def)
  qed
  then show ?thesis using assms by (simp add: fat_cache_ok_def Let_def)
qed

lemma write_cluster_ok:
  assumes "fs_ok fs" and "in_heap (unat (cluster_count fs)) c" and "length d \<le> unat (cluster_size fs)"
    and "c = 2 \<Longrightarrow> bitmap_cache fs = None \<or> bitmap_cache fs = Some (d @ replicate (unat (cluster_size fs) - length d) 0)"
  shows "yields (write_cluster c d) fs (Inr ())
    (vol fs\<lparr>v_data := (v_data (vol fs))(c := d @ replicate (unat (cluster_size fs) - length d) 0)\<rparr>)"
proof -
  let ?d = "d @ replicate (unat (cluster_size fs) - length d) 0"
  let ?fs = "fs\<lparr>fs_file := write_at (cluster_pos fs c) ?d (fs_file fs)\<rparr>"
  have geo: "geometry_ok fs" using assms(1) by (simp add: fs_ok_def)
  have len: "length ?d = unat (cluster_size fs)" using assms(3) by simp
  have "write_cluster c d fs = (Inr (), ?fs)"
    using assms(2,3) geo by (simp add: write_cluster_def file_write_def unat_cluster_offset)
  moreover have "geometry_ok ?fs" using geo length_write_cluster [OF geo assms(2) len] by simp
  moreover have "fat_cache_ok ?fs"
    by (rule fat_cache_ok_cong [of _ fs]) (use assms(1,2) geo in \<open>simp_all add: fs_ok_def fat_at_write_cluster\<close>)
  moreover have "bitmap_cache_ok ?fs"
    using assms(1,4) cluster_at_write_cluster [OF geo assms(2) len two_in_heap [OF geo]]
    by (auto simp: bitmap_cache_ok_def fs_ok_def)
  moreover have "boot_part ?fs = boot_part fs"
    using geometry_bounds [OF geo assms(2)] geo len by (intro boot_part_write) (simp_all add: geometry_ok_def)
  then have "vol ?fs = vol fs\<lparr>v_data := (v_data (vol fs))(c := ?d)\<rparr>"
    using geo assms(2) len
    by (simp add: vol_def Let_def fat_at_write_cluster cluster_at_write_cluster cong: if_cong)
       (auto simp: fun_eq_iff cluster_at_write_cluster)
  ultimately show ?thesis by (auto simp: yields_def fs_ok_def)
qed

section \<open>FAT entries\<close>

lemma le_words_take: "le_words bs = (if length bs < 4 then [] else from_le (take 4 bs) # le_words (drop 4 bs))"
  by (cases bs rule: le_words.cases) (auto simp: numeral_eq_Suc)

lemma length_le_words: "length (le_words bs) = length bs div 4"
proof (induction bs rule: length_induct)
  case (1 bs)
  then show ?case by (subst le_words_take) (auto simp: le_div_geq)
qed

lemma nth_le_words: "i < length bs div 4 \<Longrightarrow> le_words bs ! i = from_le (slice (4 * i) 4 bs)"
proof (induction bs arbitrary: i rule: length_induct)
  case (1 bs)
  then have "4 \<le> length bs" by (metis div_less le_less_linear less_nat_zero_code)
  with 1 show ?case
    by (subst le_words_take) (auto simp: nth_Cons slice_def add.commute split: nat.split)
qed

lemma cache_contains_iff:
  assumes "fat_cache_ok fs" and "geometry_ok fs"
  shows "cache_contains (fat_cache fs) c \<longleftrightarrow>
    unat (start_cluster (fat_cache fs)) \<le> unat c \<and>
    unat c < unat (start_cluster (fat_cache fs)) + length (entries (fat_cache fs))"
proof (cases "entries (fat_cache fs) = []")
  case False
  then have "unat (start_cluster (fat_cache fs)) + length (entries (fat_cache fs)) < 2 ^ 32"
    using assms by (simp add: fat_cache_ok_def geometry_ok_def Let_def)
  then show ?thesis
    using False by (simp add: cache_contains_def word_le_nat_alt word_less_nat_alt unat_plus_of_nat)
qed (simp add: cache_contains_def)

lemma cache_index:
  assumes "unat s \<le> unat c" shows "unat (c - s :: u32) = unat c - unat s"
    and "s + word_of_nat (unat c - unat s) = c"
  using assms unsigned_less [of c, where 'a = nat]
  by (simp_all add: unat_sub word_le_nat_alt word_unat_eq_iff unat_plus_of_nat)

lemma cache_get_ok:
  assumes "fat_cache_ok fs" and "geometry_ok fs" and "cache_get (fat_cache fs) c = Some v"
  shows "v = fat_at fs c"
proof -
  have c: "cache_contains (fat_cache fs) c" "v = entries (fat_cache fs) ! unat (c - start_cluster (fat_cache fs))"
    using assms(3) by (auto simp: cache_get_def split: if_splits)
  then have b: "unat (start_cluster (fat_cache fs)) \<le> unat c"
    "unat c - unat (start_cluster (fat_cache fs)) < length (entries (fat_cache fs))"
    using cache_contains_iff [OF assms(1,2)] by auto
  moreover have "entries (fat_cache fs) \<noteq> []" using b(2) by auto
  ultimately show ?thesis using assms(1) c(2) by (simp add: fat_cache_ok_def Let_def cache_index)
qed

lemma load_fat_segment_ok:
  assumes "fs_ok fs" and "in_fat (unat (cluster_count fs)) c"
  obtains fs' where "load_fat_segment c fs = (Inr (), fs')" and "fs_ok fs'" and "vol fs' = vol fs"
    and "cache_get (fat_cache fs') c = Some (fat_at fs c)"
proof -
  let ?n = "unat (cluster_count fs)"
  have geo: "geometry_ok fs" using assms(1) by (simp add: fs_ok_def)
  have max: "unat (cluster_count fs + 2) = ?n + 2"
    using geo by (simp add: geometry_ok_def unat_word_ariths(1))
  have c: "unat c < ?n + 2" using assms(2) by (simp add: in_fat_def)
  define k where "k = min 8192 (?n + 2 - unat c)"
  have k: "0 < k" "unat c + k \<le> ?n + 2" using c by (auto simp: k_def)
  have "unat (cluster_count fs + 2 - c) = ?n + 2 - unat c"
    using max c by (simp add: cache_index(1))
  then have kk: "min FAT_CACHE_ENTRIES (unat (cluster_count fs + 2 - c)) = k"
    by (simp add: k_def FAT_CACHE_ENTRIES_def)
  have pos: "fat_pos fs c + k * 4 \<le> length (fs_file fs)"
    using k geo by (simp add: fat_pos_def geometry_ok_def)
  let ?buf = "slice (fat_pos fs c) (k * 4) (fs_file fs)"
  let ?fs = "fs\<lparr>fat_cache := \<lparr>start_cluster = c, entries = le_words ?buf\<rparr>\<rparr>"
  have len: "length (le_words ?buf) = k" using pos by (simp add: length_le_words)
  have nth: "le_words ?buf ! i = fat_at fs (c + word_of_nat i)" if "i < k" for i
  proof -
    have "unat c + i < 2 ^ 32" using that k(2) geo by (simp add: geometry_ok_def)
    then have "unat (c + word_of_nat i) = unat c + i" by (simp add: unat_plus_of_nat)
    moreover have "slice (4 * i) 4 ?buf = slice (fat_pos fs c + 4 * i) 4 (fs_file fs)"
      using that by (intro slice_slice) simp
    moreover have "i < length ?buf div 4" using that pos by simp
    ultimately show ?thesis by (simp add: nth_le_words fat_at_def fat_pos_def add.assoc)
  qed
  have "load_fat_segment c fs = (Inr (), ?fs)"
    using k(1) pos geo assms(2)
    by (simp add: load_fat_segment_def Let_def kk unat_fat_offset read_at_def)
  moreover have "fat_cache_ok ?fs" using k(2) len nth by (simp add: fat_cache_ok_def Let_def)
  moreover from this have "fs_ok ?fs" using assms(1) by (simp add: fs_ok_def)
  moreover have "cache_get (fat_cache ?fs) c = Some (fat_at fs c)"
  proof -
    have "cache_contains (fat_cache ?fs) c"
      using cache_contains_iff [OF \<open>fat_cache_ok ?fs\<close>] geo k(1) len by simp
    then show ?thesis using nth [OF k(1)] by (simp add: cache_get_def)
  qed
  ultimately show thesis using that by simp
qed

lemma read_fat_entry_ok:
  assumes "fs_ok fs" and "in_fat (unat (cluster_count fs)) c"
  shows "yields (read_fat_entry c) fs (Inr (fat_at fs c)) (vol fs)"
proof (cases "cache_get (fat_cache fs) c")
  case None
  obtain fs' where "load_fat_segment c fs = (Inr (), fs')" "fs_ok fs'" "vol fs' = vol fs"
    "cache_get (fat_cache fs') c = Some (fat_at fs c)" using load_fat_segment_ok [OF assms] .
  then show ?thesis using None by (simp add: read_fat_entry_def yields_def)
next
  case (Some v)
  then show ?thesis
    using assms(1) cache_get_ok [of fs c v] by (simp add: read_fat_entry_def yields_def fs_ok_def)
qed

lemma fat_cache_update_ok:
  assumes "fat_cache_ok fs" and "geometry_ok fs"
    and "\<And>c'. in_fat (unat (cluster_count fs)) c' \<Longrightarrow>
      fat_at (fs\<lparr>fs_file := f, fat_cache := cache_update (fat_cache fs) c v\<rparr>) c' = (if c' = c then v else fat_at fs c')"
  shows "fat_cache_ok (fs\<lparr>fs_file := f, fat_cache := cache_update (fat_cache fs) c v\<rparr>)"
proof (cases "entries (fat_cache fs) = []")
  case False
  let ?k = "fat_cache fs" and ?k' = "cache_update (fat_cache fs) c v"
  let ?s = "unat (start_cluster ?k)" and ?l = "length (entries ?k)"
  have b: "?s + ?l \<le> unat (cluster_count fs) + 2" and n: "unat (cluster_count fs) + 2 < 2 ^ 32"
    and e: "\<And>i. i < ?l \<Longrightarrow> entries ?k ! i = fat_at fs (start_cluster ?k + word_of_nat i)"
    using assms(1,2) False by (simp_all add: fat_cache_ok_def geometry_ok_def Let_def)
  have u: "unat (start_cluster ?k + word_of_nat i) = ?s + i" if "i < ?l" for i
    using that b n by (simp add: unat_plus_of_nat)
  have k': "start_cluster ?k' = start_cluster ?k" "length (entries ?k') = ?l"
    by (simp_all add: cache_update_def)
  have "entries ?k' ! i = (if start_cluster ?k + word_of_nat i = c then v else entries ?k ! i)" if "i < ?l" for i
    using u [OF that] that cache_contains_iff [OF assms(1,2), of c]
    by (auto simp: cache_update_def nth_list_update cache_index word_unat_eq_iff)
  then show ?thesis using b e u k' n assms(3)
    by (auto simp: fat_cache_ok_def Let_def in_fat_def)
qed (simp add: fat_cache_ok_def cache_update_def cache_contains_def)

lemma write_fat_entry_ok:
  assumes "fs_ok fs" and "in_fat (unat (cluster_count fs)) c"
  shows "yields (write_fat_entry c v) fs (Inr ()) (vol fs\<lparr>v_fat := (v_fat (vol fs))(c := v)\<rparr>)"
proof -
  let ?f = "write_at (fat_pos fs c) (to_le 4 v) (fs_file fs)"
  let ?fs = "fs\<lparr>fs_file := ?f, fat_cache := cache_update (fat_cache fs) c v\<rparr>"
  have ok: "geometry_ok fs" "fat_cache_ok fs" "bitmap_cache_ok fs" using assms(1) by (simp_all add: fs_ok_def)
  have at: "fat_at ?fs c' = (if c' = c then v else fat_at fs c')" if "in_fat (unat (cluster_count fs)) c'" for c'
    using fat_at_write_fat [OF ok(1) assms(2) that] by simp
  have cl: "cluster_at ?fs c' = cluster_at fs c'" if "in_heap (unat (cluster_count fs)) c'" for c'
    using cluster_at_write_fat [OF ok(1) assms(2) that] by simp
  have "write_fat_entry c v fs = (Inr (), ?fs)"
    using assms(2) ok(1) by (simp add: write_fat_entry_def file_write_def unat_fat_offset)
  moreover have "geometry_ok ?fs" using ok(1) length_write_fat [OF ok(1) assms(2)] by simp
  moreover have "fat_cache_ok ?fs" using fat_cache_update_ok [OF ok(2,1) at] by simp
  moreover have "bitmap_cache_ok ?fs" using ok cl [OF two_in_heap [OF ok(1)]] by (simp add: bitmap_cache_ok_def)
  moreover have "boot_part ?fs = boot_part fs"
    using fat_bounds [OF ok(1) assms(2)] boot_part_write [of fs "fat_pos fs c" "to_le 4 v"] by (simp add: fat_pos_def)
  then have "vol ?fs = vol fs\<lparr>v_fat := (v_fat (vol fs))(c := v)\<rparr>"
    using assms(2) by (auto simp: vol_def Let_def fun_eq_iff fat_at_write_fat [OF ok(1)] cluster_at_write_fat [OF ok(1)])
  ultimately show ?thesis by (auto simp: yields_def fs_ok_def)
qed

interpretation fat_cells: cell_store "\<lambda>fs. v_fat (vol fs)" "\<lambda>c v fs. snd (write_fat_entry c v fs)" fs_ok
    "\<lambda>fs. in_fat (v_count (vol fs))" "\<lambda>_ _. True"
proof unfold_locales
  fix fs c v c' assume ok: "fs_ok fs" "in_fat (v_count (vol fs)) c"
  then obtain fs' where "write_fat_entry c v fs = (Inr (), fs')" "fs_ok fs'"
    "vol fs' = vol fs\<lparr>v_fat := (v_fat (vol fs))(c := v)\<rparr>"
    using write_fat_entry_ok [of fs c v] by (auto elim: yieldsE)
  then show "fs_ok (snd (write_fat_entry c v fs))"
    and "in_fat (v_count (vol (snd (write_fat_entry c v fs)))) c' = in_fat (v_count (vol fs)) c'"
    and "v_fat (vol (snd (write_fat_entry c v fs))) c' = (if c' = c then v else v_fat (vol fs) c')"
    by simp_all
qed simp

section \<open>Cluster chains\<close>

fun chain_from :: "(u32 \<Rightarrow> u32) \<Rightarrow> u32 \<Rightarrow> u32 list \<Rightarrow> bool" where
  "chain_from f c [] \<longleftrightarrow> \<not> (2 \<le> c \<and> c < 0xFFFFFFF8)"
| "chain_from f c (x # xs) \<longleftrightarrow> c = x \<and> 2 \<le> c \<and> c < 0xFFFFFFF8 \<and> chain_from f (f c) xs"

lemma chain_from_unique: "chain_from f c xs \<Longrightarrow> chain_from f c ys \<Longrightarrow> xs = ys"
proof (induction xs arbitrary: c ys)
  case Nil
  then show ?case by (cases ys) auto
next
  case (Cons x xs)
  then show ?case by (cases ys) auto
qed

lemma chain_from_suffix: "chain_from f c (xs @ y # ys) \<Longrightarrow> chain_from f y (y # ys)"
  by (induction xs arbitrary: c) auto

lemma chain_from_distinct: "chain_from f c xs \<Longrightarrow> distinct xs"
proof (rule ccontr)
  assume c: "chain_from f c xs" and "\<not> distinct xs"
  then obtain as x bs cs where "xs = as @ x # bs @ x # cs"
    by (metis append_Cons not_distinct_decomp append_assoc append_Nil)
  then have "chain_from f x (x # bs @ x # cs)" "chain_from f x (x # cs)"
    using c chain_from_suffix [of f c as x] chain_from_suffix [of f c "as @ x # bs" x cs] by simp_all
  from chain_from_unique [OF this] show False by simp
qed

lemma chain_from_cong:
  "chain_from f c xs \<Longrightarrow> (\<And>x. x \<in> set xs \<Longrightarrow> g x = f x) \<Longrightarrow> chain_from g c xs"
  by (induction xs arbitrary: c) auto

lemma card_heap: "card {c. in_heap n c} \<le> n"
proof -
  have "{c. in_heap n c} \<subseteq> word_of_nat ` {2..<n + 2}"
    by (auto simp: in_heap_def intro!: image_eqI [of _ _ "unat _"])
  then have "card {c. in_heap n c} \<le> card (word_of_nat ` {2..<n + 2} :: u32 set)"
    by (intro card_mono) auto
  also have "\<dots> \<le> n" using card_image_le [of "{2..<n + 2}" "word_of_nat :: nat \<Rightarrow> u32"] by simp
  finally show ?thesis .
qed

lemma length_heap_distinct: "distinct cs \<Longrightarrow> \<forall>c \<in> set cs. in_heap n c \<Longrightarrow> length cs \<le> n"
  by (metis card_heap card_mono distinct_card finite_code le_trans mem_Collect_eq subsetI)

lemma yields_cong: "f fs = g fs \<Longrightarrow> yields f fs = yields g fs"
  by (simp add: yields_def fun_eq_iff)

text \<open>One turn of the loop.\<close>

lemma chain_loop_step:
  assumes "fs_ok fs" and "2 \<le> c" and "c < 0xFFFFFFF8" and "in_heap (v_count (vol fs)) c"
    and "\<And>fs'. fs_ok fs' \<Longrightarrow> vol fs' = vol fs \<Longrightarrow>
      yields (if v_count (vol fs) < length (chain @ [c])
        then throwE (fs_error ''FAT chain too long, possible corruption'')
        else chain_loop k (v_fat (vol fs) c) (chain @ [c])) fs' r v"
  shows "yields (chain_loop (Suc k) c chain) fs r v"
proof -
  have "in_fat (unat (cluster_count fs)) c" using assms(4) in_heap_in_fat by simp
  then have r: "yields (read_fat_entry c) fs (Inr (v_fat (vol fs) c)) (vol fs)"
    using read_fat_entry_ok [OF assms(1)] by simp
  define f where "f = (\<lambda>next. if v_count (vol fs) < length (chain @ [c])
        then throwE (fs_error ''FAT chain too long, possible corruption'')
        else chain_loop k next (chain @ [c]))"
  have "yields (bindE (read_fat_entry c) f) fs r v"
    using r by (rule yields_bind) (use assms(5) in \<open>simp add: f_def\<close>)
  moreover have "chain_loop (Suc k) c chain fs = bindE (read_fat_entry c) f fs"
    using assms(2,3) by (simp add: f_def)
  ultimately show ?thesis by (simp add: yields_def)
qed

lemma chain_loop_ok:
  assumes "fs_ok fs" and "chain_from (v_fat (vol fs)) c cs" and "\<forall>c \<in> set cs. in_heap (v_count (vol fs)) c"
    and "length chain + length cs \<le> v_count (vol fs)" and "length cs < fuel"
  shows "yields (chain_loop fuel c chain) fs (Inr (chain @ cs)) (vol fs)"
  using assms
proof (induction cs arbitrary: fs c chain fuel)
  case Nil
  then show ?case by (cases fuel) auto
next
  case (Cons x cs)
  obtain k where k: "fuel = Suc k" "length cs < k" using Cons.prems(5) by (cases fuel) auto
  have x: "c = x" "2 \<le> c" "c < 0xFFFFFFF8" "chain_from (v_fat (vol fs)) (v_fat (vol fs) c) cs"
    and heap: "in_heap (v_count (vol fs)) c" using Cons.prems(2,3) by auto
  have IH: "yields (chain_loop k (v_fat (vol fs) c) (chain @ [c])) fs' (Inr ((chain @ [c]) @ cs)) (vol fs')"
    if "fs_ok fs'" "vol fs' = vol fs" for fs'
    using Cons.prems k x that by (intro Cons.IH) auto
  have "yields (chain_loop (Suc k) c chain) fs (Inr ((chain @ [c]) @ cs)) (vol fs)"
    using Cons.prems(1) x(2,3) heap
  proof (rule chain_loop_step)
    fix fs' assume "fs_ok fs'" "vol fs' = vol fs"
    with IH [of fs'] Cons.prems(4) show "yields (if v_count (vol fs) < length (chain @ [c])
        then throwE (fs_error ''FAT chain too long, possible corruption'')
        else chain_loop k (v_fat (vol fs) c) (chain @ [c])) fs' (Inr ((chain @ [c]) @ cs)) (vol fs)" by simp
  qed
  then show ?case using x(1) k(1) by simp
qed

lemma read_cluster_chain_ok:
  assumes "fs_ok fs" and "chain_from (v_fat (vol fs)) c cs" and "\<forall>c \<in> set cs. in_heap (v_count (vol fs)) c"
  shows "yields (read_cluster_chain c) fs (Inr cs) (vol fs)"
proof -
  have "length cs \<le> v_count (vol fs)"
    using chain_from_distinct [OF assms(2)] assms(3) by (rule length_heap_distinct)
  then show ?thesis
    using chain_loop_ok [OF assms, of "[]" "unat (cluster_count fs) + 2"] by (simp add: read_cluster_chain_def yields_def)
qed

text \<open>A FAT whose chains stay in the heap.\<close>

definition fat_closed :: "volume \<Rightarrow> bool" where
  "fat_closed v \<longleftrightarrow> (\<forall>c. in_heap (v_count v) c \<longrightarrow>
     (let n = v_fat v c in in_heap (v_count v) n \<or> n < 2 \<or> 0xFFFFFFF8 \<le> n))"

lemma chain_from_in_heap:
  "fat_closed v \<Longrightarrow> in_heap (v_count v) c \<or> c < 2 \<or> 0xFFFFFFF8 \<le> c \<Longrightarrow> chain_from (v_fat v) c cs \<Longrightarrow>
     \<forall>x \<in> set cs. in_heap (v_count v) x"
proof (induction cs arbitrary: c)
  case (Cons x cs)
  then have x: "c = x" "in_heap (v_count v) c" "chain_from (v_fat v) (v_fat v c) cs" by auto
  then have "in_heap (v_count v) (v_fat v c) \<or> v_fat v c < 2 \<or> 0xFFFFFFF8 \<le> v_fat v c"
    using Cons.prems(1) by (simp add: fat_closed_def Let_def)
  then show ?case using Cons.IH x Cons.prems(1) by auto
qed simp

lemma heap_below: "geometry_ok fs \<Longrightarrow> in_heap (v_count (vol fs)) c \<Longrightarrow> 2 \<le> c \<and> c < 0xFFFFFFF8"
  by (simp add: geometry_ok_def in_heap_def word_le_nat_alt word_less_nat_alt)

lemma chain_loop_too_long:
  assumes "fs_ok fs" and "fat_closed (vol fs)" and "in_heap (v_count (vol fs)) c \<or> c < 2 \<or> 0xFFFFFFF8 \<le> c"
    and "length chain \<le> v_count (vol fs)" and "v_count (vol fs) + 1 < fuel + length chain"
    and "\<And>cs. chain_from (v_fat (vol fs)) c cs \<Longrightarrow> v_count (vol fs) < length chain + length cs"
  shows "yields (chain_loop fuel c chain) fs (Inl (fs_error ''FAT chain too long, possible corruption'')) (vol fs)"
  using assms
proof (induction fuel arbitrary: fs c chain)
  case (Suc k)
  have heap: "in_heap (v_count (vol fs)) c"
  proof (rule ccontr)
    assume "\<not> in_heap (v_count (vol fs)) c"
    then have "chain_from (v_fat (vol fs)) c []" using Suc.prems(3) by auto
    from Suc.prems(6) [OF this] Suc.prems(4) show False by simp
  qed
  have c: "2 \<le> c" "c < 0xFFFFFFF8" using heap_below heap Suc.prems(1) by (auto simp: fs_ok_def)
  have next_ok: "in_heap (v_count (vol fs)) (v_fat (vol fs) c) \<or> v_fat (vol fs) c < 2 \<or> 0xFFFFFFF8 \<le> v_fat (vol fs) c"
    using Suc.prems(2) heap by (simp add: fat_closed_def Let_def)
  show ?case
  proof (rule chain_loop_step [OF Suc.prems(1) c heap])
    fix fs' assume fs': "fs_ok fs'" "vol fs' = vol fs"
    have "v_count (vol fs) < length (chain @ [c]) + length cs" if "chain_from (v_fat (vol fs)) (v_fat (vol fs) c) cs" for cs
      using Suc.prems(6) [of "c # cs"] c that by simp
    then have "yields (chain_loop k (v_fat (vol fs) c) (chain @ [c])) fs'
        (Inl (fs_error ''FAT chain too long, possible corruption'')) (vol fs')"
      if "\<not> v_count (vol fs) < length (chain @ [c])"
      using Suc.prems(2,5) fs' next_ok that by (intro Suc.IH) auto
    then show "yields (if v_count (vol fs) < length (chain @ [c])
        then throwE (fs_error ''FAT chain too long, possible corruption'')
        else chain_loop k (v_fat (vol fs) c) (chain @ [c])) fs'
      (Inl (fs_error ''FAT chain too long, possible corruption'')) (vol fs)"
      using fs' by simp
  qed
qed simp

lemma read_cluster_chain_cyclic:
  assumes "fs_ok fs" and "fat_closed (vol fs)" and "in_heap (v_count (vol fs)) c"
    and "\<nexists>cs. chain_from (v_fat (vol fs)) c cs"
  shows "yields (read_cluster_chain c) fs (Inl (fs_error ''FAT chain too long, possible corruption'')) (vol fs)"
  using chain_loop_too_long [OF assms(1,2), of c "[]" "unat (cluster_count fs) + 2"] assms(3,4)
  by (auto simp: read_cluster_chain_def yields_def)

section \<open>The bitmap\<close>

text \<open>The clusters a bitmap of a length keeps track of.\<close>

definition tracked :: "bytes \<Rightarrow> u32 \<Rightarrow> bool" where
  "tracked b c \<longleftrightarrow> 2 \<le> unat c \<and> (unat c - 2) div 8 < length b"

lemma length_set_cluster_allocated [simp]: "length (set_cluster_allocated c a b) = length b"
  by (simp add: set_cluster_allocated_def Let_def)

lemma is_cluster_allocated_iff:
  "2 \<le> unat c \<Longrightarrow> is_cluster_allocated b c \<longleftrightarrow> tracked b c \<and> bit (b ! ((unat c - 2) div 8)) ((unat c - 2) mod 8)"
  by (auto simp: is_cluster_allocated_def tracked_def Let_def and_exp_eq_0_iff_not_bit unat_sub2)

lemma bit_set_clear:
  "j < 8 \<Longrightarrow> bit (w OR 2 ^ k :: u8) j \<longleftrightarrow> bit w j \<or> j = k"
  "j < 8 \<Longrightarrow> bit (w AND NOT (2 ^ k) :: u8) j \<longleftrightarrow> bit w j \<and> j \<noteq> k"
  by (auto simp: bit_or_iff bit_and_iff bit_not_iff bit_exp_iff)

lemma is_allocated_set_allocated:
  assumes "tracked b c" and "tracked b c'"
  shows "is_cluster_allocated (set_cluster_allocated c a b) c' = (if c' = c then a else is_cluster_allocated b c')"
proof -
  define i q where "i = (unat c - 2) div 8" and "q = (unat c - 2) mod 8"
  define j p where "j = (unat c' - 2) div 8" and "p = (unat c' - 2) mod 8"
  have two: "2 \<le> unat c" "2 \<le> unat c'" "i < length b" "j < length b"
    using assms by (simp_all add: tracked_def i_def j_def)
  have e: "unat c - 2 = i * 8 + q" "unat c' - 2 = j * 8 + p" by (simp_all add: i_def q_def j_def p_def)
  have "c' = c" if "j = i \<and> p = q"
  proof -
    from that e have "unat c - 2 = unat c' - 2" by simp
    then show ?thesis using two by (simp add: word_unat_eq_iff)
  qed
  then have eq: "c' = c \<longleftrightarrow> j = i \<and> p = q" by (auto simp: i_def q_def j_def p_def)
  have p: "p < 8" by (simp add: p_def)
  have is_all: "is_cluster_allocated b' c' \<longleftrightarrow> bit (b' ! j) p" if "length b' = length b" for b'
    using two that by (simp add: is_cluster_allocated_iff tracked_def j_def p_def)
  have set_eq: "set_cluster_allocated c a b = b[i := (if a then b ! i OR 2 ^ q else b ! i AND NOT (2 ^ q))]"
    using two by (simp add: set_cluster_allocated_def Let_def unat_sub2 i_def q_def)
  have "is_cluster_allocated (set_cluster_allocated c a b) c' \<longleftrightarrow> bit (set_cluster_allocated c a b ! j) p"
    by (rule is_all) simp
  then show ?thesis
    unfolding set_eq is_all [OF refl] eq using two p by (cases "j = i"; cases a) (simp_all add: bit_set_clear)
qed

interpretation bits: cell_store is_cluster_allocated set_cluster_allocated "\<lambda>_. True" tracked "\<lambda>_ _. True"
  by unfold_locales (simp_all add: is_allocated_set_allocated, simp_all add: tracked_def)

lemma untracked_free: "2 \<le> unat c \<Longrightarrow> \<not> tracked b c \<Longrightarrow> \<not> is_cluster_allocated b c"
  by (simp add: is_cluster_allocated_iff)

lemma untracked_unchanged: "2 \<le> unat c \<Longrightarrow> \<not> tracked b c \<Longrightarrow> set_cluster_allocated c a b = b"
  by (simp add: set_cluster_allocated_def tracked_def Let_def unat_sub2)

lemma read_bitmap_ok:
  assumes "fs_ok fs"
  shows "yields read_bitmap fs (Inr (v_data (vol fs) 2)) (vol fs)"
    and "\<exists>fs'. read_bitmap fs = (Inr (v_data (vol fs) 2), fs') \<and> fs_ok fs' \<and> vol fs' = vol fs \<and>
      bitmap_cache fs' = Some (v_data (vol fs) 2)"
proof -
  have geo: "geometry_ok fs" using assms by (simp add: fs_ok_def)
  have d: "v_data (vol fs) 2 = cluster_at fs 2" using two_in_heap [OF geo] by simp
  have "bitmap_cache fs = None \<or> bitmap_cache fs = Some (cluster_at fs 2)"
    using assms by (simp add: fs_ok_def bitmap_cache_ok_def)
  then show *: "\<exists>fs'. read_bitmap fs = (Inr (v_data (vol fs) 2), fs') \<and> fs_ok fs' \<and> vol fs' = vol fs \<and>
      bitmap_cache fs' = Some (v_data (vol fs) 2)"
  proof
    assume none: "bitmap_cache fs = None"
    let ?fs = "fs\<lparr>bitmap_cache := Some (cluster_at fs 2)\<rparr>"
    have "read_bitmap fs = (Inr (cluster_at fs 2), ?fs)"
      using none read_cluster_ok [OF assms two_in_heap [OF geo]] by (simp add: read_bitmap_def bindE_def modifyE_def)
    moreover have "fs_ok ?fs" using assms by (simp add: fs_ok_def bitmap_cache_ok_def)
    ultimately show ?thesis using d by auto
  next
    assume "bitmap_cache fs = Some (cluster_at fs 2)"
    then show ?thesis using d assms by (auto simp: read_bitmap_def)
  qed
  then show "yields read_bitmap fs (Inr (v_data (vol fs) 2)) (vol fs)"
    by (auto simp: yields_def)
qed

text \<open>Updating the cached bitmap and writing it back.\<close>

lemma update_flush_bitmap_ok:
  assumes "fs_ok fs" and len: "\<And>b. length (f b) = length b"
  shows "yields (bindE (update_bitmap f) (\<lambda>_. flush_bitmap_now)) fs (Inr ())
    (vol fs\<lparr>v_data := (v_data (vol fs))(2 := f (v_data (vol fs) 2))\<rparr>)"
proof -
  let ?b = "f (v_data (vol fs) 2)"
  obtain fs1 where r: "read_bitmap fs = (Inr (v_data (vol fs) 2), fs1)" "fs_ok fs1" "vol fs1 = vol fs"
    using read_bitmap_ok(2) [OF assms(1)] by auto
  let ?fs2 = "fs1\<lparr>bitmap_cache := None\<rparr>"
  have geo: "geometry_ok ?fs2" "geometry_ok fs" using r(2) assms(1) by (simp_all add: fs_ok_def)
  have "length (v_data (vol fs) 2) = unat (cluster_size fs)"
    using length_cluster_at [OF geo(2)] two_in_heap [OF geo(2)] by simp
  moreover have "unat (cluster_size fs1) = unat (cluster_size fs)" using r(3) by (metis vol_fields(1))
  ultimately have lb: "length ?b = unat (cluster_size ?fs2)" using len by simp
  have "yields (write_cluster 2 ?b) ?fs2 (Inr ())
      (vol ?fs2\<lparr>v_data := (v_data (vol ?fs2))(2 := ?b @ replicate (unat (cluster_size ?fs2) - length ?b) 0)\<rparr>)"
    using r(2) two_in_heap [OF geo(1)] lb
    by (intro write_cluster_ok) (simp_all add: fs_ok_def bitmap_cache_ok_def)
  then obtain fs3 where w: "write_cluster 2 ?b ?fs2 = (Inr (), fs3)" "fs_ok fs3"
      "vol fs3 = vol fs\<lparr>v_data := (v_data (vol fs))(2 := ?b)\<rparr>"
    using r(3) lb by (auto simp: yields_def)
  let ?fs4 = "fs3\<lparr>bitmap_cache := Some ?b\<rparr>"
  have "in_heap (unat (cluster_count fs3)) 2" using w(2) by (simp add: fs_ok_def two_in_heap)
  then have "cluster_at fs3 2 = ?b" using w(3) v_data_vol [of fs3 2] by simp
  then have "fs_ok ?fs4" using w(2) by (simp add: fs_ok_def bitmap_cache_ok_def)
  moreover have "bindE (update_bitmap f) (\<lambda>_. flush_bitmap_now) fs = (Inr (), ?fs4)"
    using r(1) w(1) by (simp add: update_bitmap_def flush_bitmap_now_def bindE_def modifyE_def)
  ultimately show ?thesis using w(3) by (simp add: yields_def)
qed

section \<open>Allocation\<close>

text \<open>The clusters the allocator hands out, in order.\<close>

definition free_list :: "volume \<Rightarrow> u32 list" where
  "free_list v = filter (\<lambda>c. \<not> is_cluster_allocated (v_data v 2) c)
     (map word_of_nat [Suc (unat (v_root v))..<v_count v + 2])"

definition mark :: "bool \<Rightarrow> u32 list \<Rightarrow> bytes \<Rightarrow> bytes" where
  "mark a cs b = fold (\<lambda>c. set_cluster_allocated c a) cs b"

lemma length_mark [simp]: "length (mark a cs b) = length b"
  by (induction cs arbitrary: b) (simp_all add: mark_def)

fun linked :: "u32 list \<Rightarrow> (u32 \<Rightarrow> u32) \<Rightarrow> u32 \<Rightarrow> u32" where
  "linked [] f = f"
| "linked [c] f = f(c := FAT_ENTRY_END_OF_CHAIN)"
| "linked (c # d # cs) f = linked (d # cs) (f(c := d))"

lemma linked_other: "c \<notin> set cs \<Longrightarrow> linked cs f c = f c"
  by (induction cs f rule: linked.induct) auto

lemma linked_in_set: "distinct cs \<Longrightarrow> x \<in> set cs \<Longrightarrow> linked cs f x \<in> set cs \<or> linked cs f x = FAT_ENTRY_END_OF_CHAIN"
  by (induction cs f rule: linked.induct) (auto simp: linked_other)

lemma linked_chain:
  assumes "cs \<noteq> []" and "distinct cs" and "\<forall>c \<in> set cs. 2 \<le> c \<and> c < 0xFFFFFFF8"
  shows "chain_from (linked cs f) (hd cs) cs"
  using assms
proof (induction cs f rule: linked.induct)
  case (3 c d cs f)
  define g where "g = linked (d # cs) (f(c := d))"
  have "chain_from g (hd (d # cs)) (d # cs)" unfolding g_def by (rule 3(1)) (use 3(3,4) in auto)
  moreover have "g c = d" using 3(3) by (simp add: g_def linked_other)
  moreover have "linked (c # d # cs) f = g" by (simp only: g_def linked.simps)
  ultimately show ?case using 3(4) by (simp only: list.sel chain_from.simps) simp
qed (simp_all add: FAT_ENTRY_END_OF_CHAIN_def)

definition allocated_volume :: "u32 list \<Rightarrow> volume \<Rightarrow> volume" where
  "allocated_volume cs v = v\<lparr>v_data := (v_data v)(2 := mark True cs (v_data v 2)), v_fat := linked cs (v_fat v)\<rparr>"

lemma free_list_props:
  assumes "v_count v + 2 < 2 ^ 32"
  shows "distinct (free_list v)" and "c \<in> set (free_list v) \<Longrightarrow> in_heap (v_count v) c \<or> unat (v_root v) < 1"
    and "c \<in> set (free_list v) \<Longrightarrow> unat (v_root v) < unat c"
    and "c \<in> set (free_list v) \<Longrightarrow> \<not> is_cluster_allocated (v_data v 2) c"
proof -
  have u: "unat (word_of_nat n :: u32) = n" if "n < v_count v + 2" for n
    using that assms by (simp add: unat_of_nat)
  have "inj_on (word_of_nat :: nat \<Rightarrow> u32) {Suc (unat (v_root v))..<v_count v + 2}"
    by (rule inj_onI) (metis atLeastLessThan_iff u)
  then have "distinct (map (word_of_nat :: nat \<Rightarrow> u32) [Suc (unat (v_root v))..<v_count v + 2])"
    by (simp only: distinct_map distinct_upt set_upt simp_thms)
  then show "distinct (free_list v)" by (simp only: free_list_def distinct_filter)
  have s: "\<exists>n. c = word_of_nat n \<and> unat c = n \<and> Suc (unat (v_root v)) \<le> n \<and> n < v_count v + 2 \<and>
      \<not> is_cluster_allocated (v_data v 2) c" if "c \<in> set (free_list v)"
    using that u by (auto simp: free_list_def simp del: upt_Suc)
  show "in_heap (v_count v) c \<or> unat (v_root v) < 1" "unat (v_root v) < unat c"
    "\<not> is_cluster_allocated (v_data v 2) c" if "c \<in> set (free_list v)"
    using s [OF that] by (auto simp: in_heap_def)
qed

lemma find_free_clusters_ok:
  assumes "fs_ok fs" and "0 < n"
  shows "yields (find_free_clusters n) fs
    (if n \<le> length (free_list (vol fs)) then Inr (take n (free_list (vol fs)))
     else Inl (FilesystemError (lit ''Not enough free space: need '' @ lit (nat_to_string n)
               @ lit '' clusters, found '' @ lit (nat_to_string (length (free_list (vol fs)))))))
    (vol fs)"
proof -
  have cand: "cluster_range (first_cluster_of_root fs' + 1) (cluster_count fs' + 2) =
      map word_of_nat [Suc (unat (first_cluster_of_root fs'))..<unat (cluster_count fs') + 2]" if "fs_ok fs'" for fs'
  proof -
    have "unat (first_cluster_of_root fs' + 1) = Suc (unat (first_cluster_of_root fs'))"
      "unat (cluster_count fs' + 2) = unat (cluster_count fs') + 2"
      using that by (simp_all add: fs_ok_def geometry_ok_def unat_word_ariths(1))
    then show ?thesis by (simp add: cluster_range_def)
  qed
  have eq: "filter (\<lambda>c. \<not> is_cluster_allocated (v_data (vol fs) 2) c)
      (cluster_range (first_cluster_of_root fs' + 1) (cluster_count fs' + 2)) = free_list (vol fs)"
    if "fs_ok fs'" "vol fs' = vol fs" for fs'
    using cand [OF that(1)] that(2) by (metis free_list_def vol_fields(2,3))
  have n: "max n (Suc 0) = n" using assms(2) by simp
  show ?thesis
    unfolding find_free_clusters_def
    by (rule yields_bind [OF read_bitmap_ok(1) [OF assms(1)]]) (auto simp: yields_def Let_def eq n)
qed

lemma free_list_ok:
  assumes "fs_ok fs"
  shows "distinct (free_list (vol fs))"
    and "c \<in> set (free_list (vol fs)) \<Longrightarrow> in_heap (v_count (vol fs)) c \<and> 2 < unat c \<and>
      unat (v_root (vol fs)) < unat c \<and> \<not> is_cluster_allocated (v_data (vol fs) 2) c"
  using free_list_props [of "vol fs"] assms by (fastforce simp: fs_ok_def geometry_ok_def)+

lemma linked_upd: "linked [c] f = f(c := FAT_ENTRY_END_OF_CHAIN)" "linked (c # d # cs) f = linked (d # cs) (f(c := d))"
  by (simp_all only: linked.simps fun_upd_def)

lemma link_chain_ok:
  assumes "fs_ok fs" and "\<forall>c \<in> set cs. in_heap (v_count (vol fs)) c"
  shows "yields (link_chain cs) fs (Inr ()) (vol fs\<lparr>v_fat := linked cs (v_fat (vol fs))\<rparr>)"
  using assms
proof (induction cs arbitrary: fs rule: link_chain.induct)
  case (2 c)
  then have "in_fat (unat (cluster_count fs)) c" using in_heap_in_fat by simp
  then show ?case unfolding link_chain.simps linked_upd by (rule write_fat_entry_ok [OF 2(1)])
next
  case (3 c d cs)
  have c: "in_fat (unat (cluster_count fs)) c" using 3(3) in_heap_in_fat by simp
  show ?case
    unfolding link_chain.simps
  proof (rule yields_bind [OF write_fat_entry_ok [OF 3(2) c]])
    fix fs' assume fs': "fs_ok fs'" "vol fs' = vol fs\<lparr>v_fat := (v_fat (vol fs))(c := d)\<rparr>"
    have "\<forall>x \<in> set (d # cs). in_heap (v_count (vol fs')) x" using 3(3) fs'(2) by simp
    from 3(1) [OF fs'(1) this]
    show "yields (link_chain (d # cs)) fs' (Inr ()) (vol fs\<lparr>v_fat := linked (c # d # cs) (v_fat (vol fs))\<rparr>)"
      using fs'(2) by (simp del: linked.simps fun_upd_apply add: linked_upd)
  qed
qed simp

lemma update_flush_then:
  assumes "fs_ok fs" and "\<And>b. length (f b) = length b"
    and "\<And>fs'. fs_ok fs' \<Longrightarrow> vol fs' = vol fs\<lparr>v_data := (v_data (vol fs))(2 := f (v_data (vol fs) 2))\<rparr> \<Longrightarrow>
      yields g fs' r v"
  shows "yields (bindE (update_bitmap f) (\<lambda>_. bindE flush_bitmap_now (\<lambda>_. g))) fs r v"
  using yields_bind [OF update_flush_bitmap_ok [OF assms(1,2)], where f = "\<lambda>_. g"] assms(3)
  by (simp add: bindE_assoc)

lemma allocate_clusters_ok:
  assumes "fs_ok fs" and "0 < n" and "n \<le> length (free_list (vol fs))"
  shows "yields (allocate_clusters n) fs (Inr (hd (take n (free_list (vol fs)))))
    (allocated_volume (take n (free_list (vol fs))) (vol fs))"
proof -
  let ?cs = "take n (free_list (vol fs))"
  have find: "yields (find_free_clusters n) fs (Inr ?cs) (vol fs)"
    using find_free_clusters_ok [OF assms(1,2)] assms(3) by simp
  have heap: "\<forall>c \<in> set ?cs. in_heap (v_count (vol fs)) c"
    using free_list_ok(2) [OF assms(1)] by (meson in_set_takeD)
  have rest: "yields (bindE (update_bitmap (fold (\<lambda>c. set_cluster_allocated c True) ?cs)) (\<lambda>_.
        bindE flush_bitmap_now (\<lambda>_. bindE (link_chain ?cs) (\<lambda>_. returnE (hd ?cs))))) fs'
      (Inr (hd ?cs)) (allocated_volume ?cs (vol fs))" if fs': "fs_ok fs'" "vol fs' = vol fs" for fs'
  proof (rule update_flush_then [OF fs'(1)])
    fix fs2 assume fs2: "fs_ok fs2" "vol fs2 = vol fs'\<lparr>v_data :=
      (v_data (vol fs'))(2 := fold (\<lambda>c. set_cluster_allocated c True) ?cs (v_data (vol fs') 2))\<rparr>"
    have "\<forall>c \<in> set ?cs. in_heap (v_count (vol fs2)) c" using heap fs' fs2(2) by simp
    from link_chain_ok [OF fs2(1) this]
    show "yields (bindE (link_chain ?cs) (\<lambda>_. returnE (hd ?cs))) fs2 (Inr (hd ?cs)) (allocated_volume ?cs (vol fs))"
      by (rule yields_bind) (simp add: fs2(2) fs'(2) allocated_volume_def mark_def)
  qed (simp add: mark_def [symmetric])
  show ?thesis
    unfolding allocate_clusters_def using assms(2)
    by (simp only: less_not_refl2 if_False) (rule yields_bind [OF find], rule rest)
qed

lemma allocate_clusters_full:
  assumes "fs_ok fs" and "0 < n" and "length (free_list (vol fs)) < n"
  shows "yields (allocate_clusters n) fs
    (Inl (FilesystemError (lit ''Not enough free space: need '' @ lit (nat_to_string n)
               @ lit '' clusters, found '' @ lit (nat_to_string (length (free_list (vol fs))))))) (vol fs)"
proof -
  have "yields (find_free_clusters n) fs
    (Inl (FilesystemError (lit ''Not enough free space: need '' @ lit (nat_to_string n)
               @ lit '' clusters, found '' @ lit (nat_to_string (length (free_list (vol fs))))))) (vol fs)"
    using find_free_clusters_ok [OF assms(1,2)] assms(3) by simp
  from yields_bind_error [OF this] show ?thesis using assms(2) by (simp add: allocate_clusters_def)
qed

definition cleared :: "u32 list \<Rightarrow> (u32 \<Rightarrow> u32) \<Rightarrow> u32 \<Rightarrow> u32" where
  "cleared cs f c = (if c \<in> set cs then FAT_ENTRY_FREE else f c)"

lemma cleared_simps [simp]: "cleared [] f = f" "cleared cs (f(c := FAT_ENTRY_FREE)) = cleared (c # cs) f"
  by (auto simp: cleared_def fun_eq_iff)

lemma clear_fat_ok:
  assumes "fs_ok fs" and "\<forall>c \<in> set cs. in_heap (v_count (vol fs)) c"
  shows "yields (forE cs (\<lambda>c. write_fat_entry c FAT_ENTRY_FREE)) fs (Inr ())
    (vol fs\<lparr>v_fat := cleared cs (v_fat (vol fs))\<rparr>)"
  using assms
proof (induction cs arbitrary: fs)
  case (Cons c cs)
  have c: "in_fat (unat (cluster_count fs)) c" using Cons.prems(2) in_heap_in_fat by simp
  show ?case
    unfolding forE.simps
  proof (rule yields_bind [OF write_fat_entry_ok [OF Cons.prems(1) c]])
    fix fs' assume fs': "fs_ok fs'" "vol fs' = vol fs\<lparr>v_fat := (v_fat (vol fs))(c := FAT_ENTRY_FREE)\<rparr>"
    have "\<forall>x \<in> set cs. in_heap (v_count (vol fs')) x" using Cons.prems(2) fs'(2) by simp
    then show "yields (forE cs (\<lambda>c. write_fat_entry c FAT_ENTRY_FREE)) fs' (Inr ())
      (vol fs\<lparr>v_fat := cleared (c # cs) (v_fat (vol fs))\<rparr>)"
      using Cons.IH [OF fs'(1)] fs'(2) by (simp del: fun_upd_apply)
  qed
qed simp

definition freed_volume :: "u32 list \<Rightarrow> volume \<Rightarrow> volume" where
  "freed_volume cs v = v\<lparr>v_data := (v_data v)(2 := mark False cs (v_data v 2)),
     v_fat := cleared cs (v_fat v)\<rparr>"

lemma free_cluster_chain_ok:
  assumes "fs_ok fs" and "chain_from (v_fat (vol fs)) c cs" and "\<forall>c \<in> set cs. in_heap (v_count (vol fs)) c"
  shows "yields (free_cluster_chain c) fs (Inr ()) (freed_volume cs (vol fs))"
  unfolding free_cluster_chain_def
proof (rule yields_bind [OF read_cluster_chain_ok [OF assms]])
  fix fs' assume fs': "fs_ok fs'" "vol fs' = vol fs"
  show "yields (bindE (update_bitmap (fold (\<lambda>c. set_cluster_allocated c False) cs)) (\<lambda>_.
     bindE flush_bitmap_now (\<lambda>_. forE cs (\<lambda>c. write_fat_entry c FAT_ENTRY_FREE)))) fs' (Inr ()) (freed_volume cs (vol fs))"
  proof (rule update_flush_then [OF fs'(1)])
    fix fs2 assume fs2: "fs_ok fs2" "vol fs2 = vol fs'\<lparr>v_data :=
      (v_data (vol fs'))(2 := fold (\<lambda>c. set_cluster_allocated c False) cs (v_data (vol fs') 2))\<rparr>"
    have "\<forall>c \<in> set cs. in_heap (v_count (vol fs2)) c" using assms(3) fs' fs2(2) by simp
    from clear_fat_ok [OF fs2(1) this]
    show "yields (forE cs (\<lambda>c. write_fat_entry c FAT_ENTRY_FREE)) fs2 (Inr ()) (freed_volume cs (vol fs))"
      by (simp add: fs2(2) fs'(2) freed_volume_def mark_def)
  qed (simp add: mark_def [symmetric])
qed

section \<open>What allocating and freeing do\<close>

lemma is_allocated_mark:
  "tracked b c \<Longrightarrow> \<forall>x \<in> set cs. 2 \<le> unat x \<Longrightarrow>
     is_cluster_allocated (mark a cs b) c \<longleftrightarrow> (if c \<in> set cs then a else is_cluster_allocated b c)"
proof (induction cs arbitrary: b)
  case (Cons x cs)
  have t: "tracked (set_cluster_allocated x a b) c" using Cons.prems by (simp add: tracked_def)
  have "is_cluster_allocated (set_cluster_allocated x a b) c \<longleftrightarrow> (if c = x then a else is_cluster_allocated b c)"
    using Cons.prems is_allocated_set_allocated [of b x c a]
    by (cases "tracked b x") (auto simp: untracked_unchanged)
  moreover have "is_cluster_allocated (mark a (x # cs) b) c = is_cluster_allocated (mark a cs (set_cluster_allocated x a b)) c"
    by (simp add: mark_def)
  ultimately show ?case using Cons.IH [OF t] Cons.prems by auto
qed (simp add: mark_def)

lemma byte_commute:
  "p \<noteq> q \<Longrightarrow> (w OR 2 ^ p :: u8) AND NOT (2 ^ q) = (w AND NOT (2 ^ q)) OR 2 ^ p"
  "(w OR 2 ^ p :: u8) OR 2 ^ q = (w OR 2 ^ q) OR 2 ^ p"
  "((w :: u8) AND NOT (2 ^ p)) AND NOT (2 ^ q) = (w AND NOT (2 ^ q)) AND NOT (2 ^ p)"
  by (rule bit_word_eqI; auto simp: bit_simps)+

lemma set_cluster_allocated_commute:
  assumes "c \<noteq> d" and "2 \<le> unat c" and "2 \<le> unat d"
  shows "set_cluster_allocated c a (set_cluster_allocated d a' b) = set_cluster_allocated d a' (set_cluster_allocated c a b)"
proof -
  have "unat c - 2 \<noteq> unat d - 2" using assms by (auto simp: word_unat_eq_iff)
  then have "(unat c - 2) div 8 \<noteq> (unat d - 2) div 8 \<or> (unat c - 2) mod 8 \<noteq> (unat d - 2) mod 8"
    by (metis div_mult_mod_eq)
  then show ?thesis
    using assms(2,3)
    by (cases a; cases a')
       (auto simp: set_cluster_allocated_def Let_def unat_sub2 nth_list_update list_update_swap byte_commute)
qed

lemma set_then_clear:
  assumes "2 \<le> unat c" and "\<not> is_cluster_allocated b c"
  shows "set_cluster_allocated c False (set_cluster_allocated c True b) = b"
proof (cases "tracked b c")
  case True
  let ?i = "(unat c - 2) div 8" and ?k = "(unat c - 2) mod 8"
  have "\<not> bit (b ! ?i) ?k" using assms True by (simp add: is_cluster_allocated_iff)
  then have "(b ! ?i OR 2 ^ ?k) AND NOT (2 ^ ?k) = b ! ?i"
    by (intro bit_word_eqI) (auto simp: bit_simps)
  then show ?thesis
    using assms(1) True by (simp add: set_cluster_allocated_def tracked_def Let_def unat_sub2)
qed (simp add: assms untracked_unchanged)

lemma mark_commute:
  "2 \<le> unat c \<Longrightarrow> c \<notin> set cs \<Longrightarrow> \<forall>x \<in> set cs. 2 \<le> unat x \<Longrightarrow>
     set_cluster_allocated c a (mark a' cs b) = mark a' cs (set_cluster_allocated c a b)"
  by (induction cs arbitrary: b) (auto simp: mark_def set_cluster_allocated_commute)

lemma mark_then_clear:
  assumes "distinct cs" and "\<forall>c \<in> set cs. 2 \<le> unat c \<and> \<not> is_cluster_allocated b c"
  shows "mark False cs (mark True cs b) = b"
  using assms
proof (induction cs)
  case (Cons c cs)
  have c: "2 \<le> unat c" "c \<notin> set cs" "\<forall>x \<in> set cs. 2 \<le> unat x" "\<not> is_cluster_allocated b c"
    using Cons.prems by auto
  have "mark False (c # cs) (mark True (c # cs) b) =
      mark False cs (mark True cs (set_cluster_allocated c False (set_cluster_allocated c True b)))"
    using mark_commute [OF c(1-3), of False True "set_cluster_allocated c True b"] by (simp add: mark_def)
  also have "\<dots> = mark False cs (mark True cs b)" using c by (simp add: set_then_clear)
  finally show ?case using Cons by simp
qed (simp add: mark_def)

text \<open>The clusters of an allocation.\<close>

lemma allocation_ok:
  assumes "fs_ok fs" and "0 < n" and "n \<le> length (free_list (vol fs))"
  shows "length (take n (free_list (vol fs))) = n" and "distinct (take n (free_list (vol fs)))"
    and "c \<in> set (take n (free_list (vol fs))) \<Longrightarrow> in_heap (v_count (vol fs)) c \<and> 2 < unat c \<and>
      unat (v_root (vol fs)) < unat c \<and> \<not> is_cluster_allocated (v_data (vol fs) 2) c"
    and "chain_from (linked (take n (free_list (vol fs))) f) (hd (take n (free_list (vol fs)))) (take n (free_list (vol fs)))"
proof -
  let ?cs = "take n (free_list (vol fs))"
  show "length ?cs = n" "distinct ?cs" using assms(3) free_list_ok(1) [OF assms(1)] by simp_all
  show heap: "in_heap (v_count (vol fs)) c \<and> 2 < unat c \<and> unat (v_root (vol fs)) < unat c \<and>
      \<not> is_cluster_allocated (v_data (vol fs) 2) c" if "c \<in> set ?cs" for c
    using free_list_ok(2) [OF assms(1)] that by (meson in_set_takeD)
  have "\<forall>c \<in> set ?cs. 2 \<le> c \<and> c < 0xFFFFFFF8"
    using heap heap_below [of fs] assms(1) unfolding fs_ok_def by blast
  moreover have "?cs \<noteq> []" using assms(2,3) by auto
  ultimately show "chain_from (linked ?cs f) (hd ?cs) ?cs"
    using \<open>distinct ?cs\<close> by (intro linked_chain)
qed

lemma allocated_volume_fields [simp]:
  "v_count (allocated_volume cs v) = v_count v" "v_cluster_size (allocated_volume cs v) = v_cluster_size v"
  "v_root (allocated_volume cs v) = v_root v" "v_boot (allocated_volume cs v) = v_boot v" "v_fat (allocated_volume cs v) = linked cs (v_fat v)"
  "c \<noteq> 2 \<Longrightarrow> v_data (allocated_volume cs v) c = v_data v c"
  "v_data (allocated_volume cs v) 2 = mark True cs (v_data v 2)"
  by (simp_all add: allocated_volume_def)

text \<open>A small volume for the examples: ten clusters of one byte, the root at cluster 3.\<close>

definition tiny :: "u8 \<Rightarrow> exfat_fs" where
  "tiny bitmap = \<lparr>fs_file = replicate 48 0 @ bitmap # replicate 9 0, partition_offset = 0, bytes_per_sector = 1,
     sectors_per_cluster = 1, cluster_size = 1, fat_offset = 0, fat_length = 48, cluster_heap_offset = 48,
     cluster_count = 10, first_cluster_of_root = 3, fat_cache = fat_cache_new, bitmap_cache = None, bitmap_dirty = False\<rparr>"

lemma tiny_ok: "fs_ok (tiny b)"
  by (simp add: fs_ok_def geometry_ok_def fat_cache_ok_def bitmap_cache_ok_def tiny_def fat_base_def heap_base_def
      fat_cache_new_def Let_def)

lemma tiny_bitmap: "v_data (vol (tiny b)) 2 = [b]"
  by (simp add: vol_def tiny_def in_heap_def cluster_at_def cluster_pos_def heap_base_def slice_def Let_def)

lemma tiny_free_list: "free_list (vol (tiny b)) = filter (\<lambda>c. \<not> is_cluster_allocated [b] c) [4, 5, 6, 7, 8, 9, 10, 11]"
proof -
  have "map word_of_nat [Suc (unat (v_root (vol (tiny b))))..<v_count (vol (tiny b)) + 2] = [4, 5, 6, 7, 8, 9, 10, 11 :: u32]"
    by (simp add: tiny_def upt_rec)
  then show ?thesis by (simp only: free_list_def tiny_bitmap)
qed

text \<open>C12: Allocating clusters, on any well-formed volume. If enough clusters are free, the call succeeds: it
  takes the first \<open>n\<close> free clusters, which are distinct clusters of the heap not in use before; reading
  the chain from the returned cluster gives exactly these clusters; the FAT entries of all others,
  the contents of every cluster except the bitmap, and the caches' agreement with the disk are
  preserved; and of the clusters that the bitmap has bits for (\<open>tracked\<close>), it then marks exactly the new ones and those marked
  before. A new cluster beyond these bits is linked into the chain but not marked, and the next call takes it again
  (\<open>untracked_cluster_allocated_twice\<close>). Otherwise the call fails and the volume is unchanged.\<close>

theorem allocate_clusters_chain:
  assumes "fs_ok fs" and "0 < n"
  shows "let cs = take n (free_list (vol fs)); v = vol fs in
    if n \<le> length (free_list v) then
      \<exists>fs'. allocate_clusters n fs = (Inr (hd cs), fs') \<and> fs_ok fs' \<and>
        length cs = n \<and> distinct cs \<and>
        (\<forall>c \<in> set cs. in_heap (v_count v) c \<and> \<not> is_cluster_allocated (v_data v 2) c) \<and>
        fst (read_cluster_chain (hd cs) fs') = Inr cs \<and>
        (\<forall>c. c \<notin> set cs \<longrightarrow> v_fat (vol fs') c = v_fat v c) \<and>
        (\<forall>c. c \<noteq> 2 \<longrightarrow> v_data (vol fs') c = v_data v c) \<and>
        (\<forall>c. tracked (v_data v 2) c \<longrightarrow>
          is_cluster_allocated (v_data (vol fs') 2) c = (c \<in> set cs \<or> is_cluster_allocated (v_data v 2) c))
    else \<exists>e fs'. allocate_clusters n fs = (Inl (FilesystemError e), fs') \<and> fs_ok fs' \<and> vol fs' = v"
proof (cases "n \<le> length (free_list (vol fs))")
  case True
  let ?cs = "take n (free_list (vol fs))"
  note al = allocation_ok [OF assms True]
  obtain fs' where fs': "allocate_clusters n fs = (Inr (hd ?cs), fs')" "fs_ok fs'"
    "vol fs' = allocated_volume ?cs (vol fs)"
    using allocate_clusters_ok [OF assms True] by (rule yieldsE)
  have "yields (read_cluster_chain (hd ?cs)) fs' (Inr ?cs) (vol fs')"
    using al fs' by (intro read_cluster_chain_ok) auto
  then have "fst (read_cluster_chain (hd ?cs) fs') = Inr ?cs" by (auto simp: yields_def)
  moreover have "\<forall>c \<in> set ?cs. 2 \<le> unat c" using al(3) by (meson less_imp_le)
  ultimately show ?thesis
    using True fs' al(1-3) by (auto simp: Let_def linked_other is_allocated_mark)
next
  case False
  then show ?thesis
    using allocate_clusters_full [OF assms] by (auto simp: yields_def)
qed

theorem allocate_clusters_chain_witness:
  "\<exists>fs'. allocate_clusters 2 (tiny 3) = (Inr 4, fs') \<and> fst (read_cluster_chain 4 fs') = Inr [4, 5]"
proof -
  have "free_list (vol (tiny 3)) = [4, 5, 6, 7, 8, 9, 10, 11]"
    by (simp add: tiny_free_list is_cluster_allocated_def)
  then show ?thesis using allocate_clusters_chain [OF tiny_ok, of 2 3] by (auto simp: Let_def)
qed

text \<open>C37: Freeing what was just allocated restores the volume: every cluster, the bitmap included, holds
  the same bytes as before, and the FAT differs at most in the entries of the freed clusters, which
  are now 0.\<close>

theorem free_undoes_allocate:
  assumes "fs_ok fs" and "0 < n" and "n \<le> length (free_list (vol fs))"
  shows "\<exists>c fs1 fs2. allocate_clusters n fs = (Inr c, fs1) \<and> free_cluster_chain c fs1 = (Inr (), fs2) \<and> fs_ok fs2 \<and>
    v_data (vol fs2) = v_data (vol fs) \<and>
    v_fat (vol fs2) = cleared (take n (free_list (vol fs))) (v_fat (vol fs))"
proof -
  let ?cs = "take n (free_list (vol fs))"
  note al = allocation_ok [OF assms]
  obtain fs1 where fs1: "allocate_clusters n fs = (Inr (hd ?cs), fs1)" "fs_ok fs1"
    "vol fs1 = allocated_volume ?cs (vol fs)"
    using allocate_clusters_ok [OF assms] by (rule yieldsE)
  have "yields (free_cluster_chain (hd ?cs)) fs1 (Inr ()) (freed_volume ?cs (vol fs1))"
    using al fs1 by (intro free_cluster_chain_ok) auto
  then obtain fs2 where fs2: "free_cluster_chain (hd ?cs) fs1 = (Inr (), fs2)" "fs_ok fs2"
    "vol fs2 = freed_volume ?cs (allocated_volume ?cs (vol fs))" using fs1(3) by (auto simp: yields_def)
  have "mark False ?cs (mark True ?cs (v_data (vol fs) 2)) = v_data (vol fs) 2"
    using al(2) al(3) by (intro mark_then_clear) (auto dest: less_imp_le)
  then have "v_data (vol fs2) = v_data (vol fs)" using fs2(3) by (auto simp: freed_volume_def fun_eq_iff)
  moreover have "v_fat (vol fs2) = cleared ?cs (v_fat (vol fs))"
    using fs2(3) by (auto simp: freed_volume_def cleared_def linked_other fun_eq_iff)
  ultimately show ?thesis using fs1(1) fs2(1,2) by blast
qed

theorem free_undoes_allocate_witness:
  "\<exists>c fs1 fs2. allocate_clusters 2 (tiny 3) = (Inr c, fs1) \<and> free_cluster_chain c fs1 = (Inr (), fs2) \<and>
     v_data (vol fs2) = v_data (vol (tiny 3))"
  using free_undoes_allocate [OF tiny_ok, of 2 3] by (auto simp: tiny_free_list is_cluster_allocated_def)

text \<open>Reading a cluster chain always returns. On a volume whose FAT stays in the heap, from any cluster
  of the heap: either the FAT leads to the end of a chain, which then consists of distinct clusters
  and is the result, or it runs in a circle and the result is the error for a chain that is too long.
  The fuel of the model's loop is never used up.\<close>

theorem read_cluster_chain_total:
  assumes "fs_ok fs" and "fat_closed (vol fs)" and "in_heap (v_count (vol fs)) c"
  shows "(\<exists>cs. chain_from (v_fat (vol fs)) c cs \<and> distinct cs \<and> fst (read_cluster_chain c fs) = Inr cs) \<or>
    (\<nexists>cs. chain_from (v_fat (vol fs)) c cs) \<and>
      fst (read_cluster_chain c fs) = Inl (fs_error ''FAT chain too long, possible corruption'')"
proof (cases "\<exists>cs. chain_from (v_fat (vol fs)) c cs")
  case True
  then obtain cs where cs: "chain_from (v_fat (vol fs)) c cs" by blast
  from assms(2,3) cs have "\<forall>x \<in> set cs. in_heap (v_count (vol fs)) x" by (intro chain_from_in_heap) auto
  from read_cluster_chain_ok [OF assms(1) cs this] cs show ?thesis
    using chain_from_distinct [OF cs] by (auto simp: yields_def)
next
  case False
  from read_cluster_chain_cyclic [OF assms this] False show ?thesis by (auto simp: yields_def)
qed

theorem read_cluster_chain_total_witness:
  "fst (read_cluster_chain 4 (snd (write_fat_entry 4 4 (tiny 3)))) = Inl (fs_error ''FAT chain too long, possible corruption'')"
proof -
  let ?fs = "snd (write_fat_entry 4 4 (tiny 3))"
  have heap: "in_heap (v_count (vol (tiny 3))) 4" by (simp add: tiny_def in_heap_def)
  have "v_fat (vol (tiny 3)) c = 0" for c
  proof (cases "in_fat 10 c")
    case True
    have zeros: "slice k 4 (replicate m (0 :: u8) @ xs) = [0, 0, 0, 0]" if "k + 4 \<le> m" for k m xs
      using that by (simp add: slice_def numeral_eq_Suc)
    have "slice (4 * unat c) 4 (replicate 48 (0 :: u8) @ 3 # replicate 9 0) = [0, 0, 0, 0]"
      using True by (intro zeros) (simp add: in_fat_def)
    then show ?thesis using True
      by (simp add: vol_def Let_def tiny_def fat_at_def fat_pos_def fat_base_def del: replicate.simps)
  qed (simp add: vol_def Let_def tiny_def)
  moreover obtain fs' where fs': "write_fat_entry 4 4 (tiny 3) = (Inr (), fs')" "fs_ok fs'"
      "vol fs' = vol (tiny 3)\<lparr>v_fat := (v_fat (vol (tiny 3)))(4 := 4)\<rparr>"
    using write_fat_entry_ok [OF tiny_ok, of 3 4 4] in_heap_in_fat heap by (auto elim: yieldsE)
  ultimately have f: "v_fat (vol fs') = (\<lambda>c. if c = 4 then 4 else 0)" "v_count (vol fs') = 10"
    by (auto simp: tiny_def)
  have "\<not> chain_from (v_fat (vol fs')) 4 cs" for cs by (induction cs) (auto simp: f)
  moreover have "fat_closed (vol fs')" using f heap by (auto simp: fat_closed_def Let_def in_heap_def)
  moreover have "in_heap (v_count (vol fs')) 4" using f by (simp add: in_heap_def)
  ultimately show ?thesis using read_cluster_chain_total [OF fs'(2), of 4] fs'(1) by auto
qed

text \<open>The bitmap has one cluster whatever the size of the volume. Once the clusters it keeps
  track of are in use, the allocator hands out the same untracked cluster again and again: two files
  written one after the other share it.\<close>

theorem untracked_cluster_allocated_twice:
  assumes "fs_ok fs" and "free_list (vol fs) = c # cs" and "\<not> tracked (v_data (vol fs) 2) c"
  shows "\<exists>fs1 fs2. allocate_clusters 1 fs = (Inr c, fs1) \<and> allocate_clusters 1 fs1 = (Inr c, fs2)"
proof -
  have one: "(0 :: nat) < 1" "1 \<le> length (free_list (vol fs))" using assms(2) by simp_all
  obtain fs1 where fs1: "allocate_clusters 1 fs = (Inr c, fs1)" "fs_ok fs1" "vol fs1 = allocated_volume [c] (vol fs)"
    using allocate_clusters_ok [OF assms(1) one] assms(2) by (auto elim: yieldsE)
  have "2 \<le> unat c" using free_list_ok(2) [OF assms(1), of c] assms(2) by simp
  then have "mark True [c] (v_data (vol fs) 2) = v_data (vol fs) 2"
    using assms(3) by (simp add: mark_def untracked_unchanged)
  then have same: "free_list (vol fs1) = c # cs" using fs1(3) assms(2) by (simp add: free_list_def)
  then have "1 \<le> length (free_list (vol fs1))" by simp
  from allocate_clusters_ok [OF fs1(2) one(1) this] same
  obtain fs2 where "allocate_clusters 1 fs1 = (Inr c, fs2)" by (auto elim: yieldsE)
  with fs1(1) show ?thesis by blast
qed

theorem untracked_cluster_allocated_twice_witness:
  "\<exists>fs1 fs2. allocate_clusters 1 (tiny 255) = (Inr 10, fs1) \<and> allocate_clusters 1 fs1 = (Inr 10, fs2)"
proof -
  have "free_list (vol (tiny 255)) = [10, 11]"
    by (simp add: tiny_free_list is_cluster_allocated_def)
  then show ?thesis
    using untracked_cluster_allocated_twice [OF tiny_ok, of 255 10 "[11]"] by (simp add: tiny_bitmap tracked_def)
qed

section \<open>Extending a chain\<close>

lemma chain_from_Cons: "chain_from f c (x # xs) \<Longrightarrow> c = x \<and> 2 \<le> x \<and> x < 0xFFFFFFF8 \<and> chain_from f (f x) xs"
  by auto

lemma chain_from_snoc:
  "chain_from f c cs \<Longrightarrow> cs \<noteq> [] \<Longrightarrow> distinct (cs @ [x]) \<Longrightarrow> 2 \<le> x \<Longrightarrow> x < 0xFFFFFFF8 \<Longrightarrow>
     chain_from (f(x := FAT_ENTRY_END_OF_CHAIN, last cs := x)) c (cs @ [x])"
proof (induction cs arbitrary: c)
  case (Cons y cs)
  show ?case
  proof (cases cs)
    case Nil
    then show ?thesis using Cons.prems by (auto simp: FAT_ENTRY_END_OF_CHAIN_def)
  next
    case (Cons z zs)
    have d: "c = y" "2 \<le> y" "y < 0xFFFFFFF8" "chain_from f (f y) cs"
      using chain_from_Cons [OF Cons.prems(1)] by blast+
    then have "f y = z" unfolding Cons chain_from.simps by (elim conjE)
    define g where "g = f(x := FAT_ENTRY_END_OF_CHAIN, last cs := x)"
    have "chain_from g (f y) (cs @ [x])"
      unfolding g_def by (rule Cons.IH [OF d(4)]) (use Cons.prems Cons in simp_all)
    moreover have "g y = f y" using Cons.prems(3) Cons by (auto simp: g_def)
    ultimately have "chain_from g c ((y # cs) @ [x])" using d(1-3) by simp
    then show ?thesis using Cons by (simp only: g_def last.simps list.distinct if_False)
  qed
qed simp

definition extended_volume :: "u32 \<Rightarrow> u32 \<Rightarrow> volume \<Rightarrow> volume" where
  "extended_volume l x v = v\<lparr>v_fat := (v_fat v)(x := FAT_ENTRY_END_OF_CHAIN, l := x),
     v_data := (v_data v)(2 := mark True [x] (v_data v 2), x := replicate (v_cluster_size v) 0)\<rparr>"

lemma extend_cluster_chain_ok:
  assumes "fs_ok fs" and "chain_from (v_fat (vol fs)) c cs" and "\<forall>c \<in> set cs. in_heap (v_count (vol fs)) c"
    and "cs \<noteq> []" and "free_list (vol fs) = x # xs"
  shows "yields (extend_cluster_chain c) fs (Inr x) (extended_volume (last cs) x (vol fs))"
proof -
  have x: "in_heap (v_count (vol fs)) x" "2 < unat x"
    using free_list_ok(2) [OF assms(1), of x] assms(5) by simp_all
  have alloc: "yields (allocate_clusters 1) fs' (Inr x) (allocated_volume [x] (vol fs))"
    if "fs_ok fs'" "vol fs' = vol fs" for fs'
    using allocate_clusters_ok [OF that(1), of 1] that(2) assms(5) by simp
  have step3: "yields (bindE (getsE cluster_size) (\<lambda>cluster_sz.
      bindE (write_cluster x (replicate (unat cluster_sz) 0)) (\<lambda>_. returnE x))) fs' (Inr x)
      (extended_volume (last cs) x (vol fs))"
    if "fs_ok fs'" "vol fs' = allocated_volume [x] (vol fs)\<lparr>v_fat := (linked [x] (v_fat (vol fs)))(last cs := x)\<rparr>" for fs'
  proof -
    let ?z = "replicate (unat (cluster_size fs')) (0 :: u8)"
    have sz: "unat (cluster_size fs') = v_cluster_size (vol fs)" "unat (cluster_count fs') = v_count (vol fs)"
      using that(2) vol_fields(1,2) [of fs'] by simp_all
    have "x \<noteq> 2" using x(2) by auto
    have "yields (write_cluster x ?z) fs' (Inr ()) (vol fs'\<lparr>v_data := (v_data (vol fs'))(x := ?z)\<rparr>)"
      using write_cluster_ok [OF that(1), of x ?z] x(1) \<open>x \<noteq> 2\<close> sz by simp
    then have "yields (bindE (write_cluster x ?z) (\<lambda>_. returnE x)) fs' (Inr x) (vol fs'\<lparr>v_data := (v_data (vol fs'))(x := ?z)\<rparr>)"
      by (rule yields_bind) simp
    moreover have "vol fs'\<lparr>v_data := (v_data (vol fs'))(x := ?z)\<rparr> = extended_volume (last cs) x (vol fs)"
      using that(2) sz \<open>x \<noteq> 2\<close> by (simp add: extended_volume_def allocated_volume_def fun_upd_def)
    ultimately show ?thesis by (simp add: yields_def bindE_def getsE_def)
  qed
  have step2: "yields (bindE (write_fat_entry (last cs) x) (\<lambda>_. bindE (getsE cluster_size) (\<lambda>cluster_sz.
      bindE (write_cluster x (replicate (unat cluster_sz) 0)) (\<lambda>_. returnE x)))) fs' (Inr x)
      (extended_volume (last cs) x (vol fs))"
    if "fs_ok fs'" "vol fs' = allocated_volume [x] (vol fs)" for fs'
  proof -
    have "in_heap (v_count (vol fs')) (last cs)" using that(2) assms(3,4) by simp
    then have w: "yields (write_fat_entry (last cs) x) fs' (Inr ()) (vol fs'\<lparr>v_fat := (v_fat (vol fs'))(last cs := x)\<rparr>)"
      using write_fat_entry_ok [OF that(1)] in_heap_in_fat by simp
    show ?thesis
      by (rule yields_bind [OF w]) (rule step3, assumption, simp add: that(2))
  qed
  show ?thesis
    unfolding extend_cluster_chain_def
  proof (rule yields_bind [OF read_cluster_chain_ok [OF assms(1-3)]])
    fix fs' assume fs': "fs_ok fs'" "vol fs' = vol fs"
    show "yields (if cs = [] then throwE (fs_error ''Empty cluster chain'')
       else bindE (allocate_clusters 1) (\<lambda>new_cluster. bindE (write_fat_entry (last cs) new_cluster) (\<lambda>_.
         bindE (getsE cluster_size) (\<lambda>cluster_sz.
         bindE (write_cluster new_cluster (replicate (unat cluster_sz) 0)) (\<lambda>_. returnE new_cluster))))) fs' (Inr x)
      (extended_volume (last cs) x (vol fs))"
      using assms(4) by (simp only: if_False) (rule yields_bind [OF alloc [OF fs']], rule step2)
  qed
qed

lemma extend_cluster_chain_full:
  assumes "fs_ok fs" and "chain_from (v_fat (vol fs)) c cs" and "\<forall>c \<in> set cs. in_heap (v_count (vol fs)) c"
    and "cs \<noteq> []" and "free_list (vol fs) = []"
  shows "\<exists>e. yields (extend_cluster_chain c) fs (Inl (FilesystemError e)) (vol fs)"
proof -
  let ?e = "lit ''Not enough free space: need '' @ lit (nat_to_string 1) @ lit '' clusters, found '' @ lit (nat_to_string 0)"
  have e: "yields (allocate_clusters 1) fs' (Inl (FilesystemError ?e)) (vol fs)"
    if "fs_ok fs'" "vol fs' = vol fs" for fs'
    using allocate_clusters_full [OF that(1), of 1] that(2) assms(5) by simp
  have "yields (extend_cluster_chain c) fs (Inl (FilesystemError ?e)) (vol fs)"
    unfolding extend_cluster_chain_def using assms(4)
    by (intro yields_bind [OF read_cluster_chain_ok [OF assms(1-3)]]) (use e in \<open>auto intro: yields_bind_error simp del: One_nat_def\<close>)
  then show ?thesis by blast
qed

end
