(* ===== verification/Exfat_Dir.thy ===== *)
theory Exfat_Dir
  imports Exfat_Volume
begin

text \<open>
  \<^verbatim>\<open>src/libs/ventoy-img-rs/src/exfat/ops.rs\<close>, directories: the entry set of a file, searching a
  directory, finding and making room for new entries, creating, deleting and listing entries,
  creating directories and resolving paths.

  \<open>lower\<close> is \<open>str::to_lowercase\<close> (the Unicode tables of the standard library) and \<open>now\<close> the
  system clock in seconds; both are arguments of the operations that use them. Indexing a cluster
  out of range is a \<open>Panic\<close>.
\<close>

section \<open>Entries\<close>

definition ENTRY_TYPE_END :: u8 where "ENTRY_TYPE_END = 0x00"
definition ENTRY_TYPE_FILE :: u8 where "ENTRY_TYPE_FILE = 0x85"
definition ENTRY_TYPE_STREAM :: u8 where "ENTRY_TYPE_STREAM = 0xC0"
definition ENTRY_TYPE_FILE_NAME :: u8 where "ENTRY_TYPE_FILE_NAME = 0xC1"
definition ENTRY_TYPE_DELETED_FILE :: u8 where "ENTRY_TYPE_DELETED_FILE = 0x05"
definition ENTRY_TYPE_DELETED_STREAM :: u8 where "ENTRY_TYPE_DELETED_STREAM = 0x40"
definition ENTRY_TYPE_DELETED_NAME :: u8 where "ENTRY_TYPE_DELETED_NAME = 0x41"
definition ATTR_DIRECTORY :: u16 where "ATTR_DIRECTORY = 0x10"
definition ATTR_ARCHIVE :: u16 where "ATTR_ARCHIVE = 0x20"

lemmas entry_types = ENTRY_TYPE_END_def ENTRY_TYPE_FILE_def ENTRY_TYPE_STREAM_def ENTRY_TYPE_FILE_NAME_def
  ENTRY_TYPE_DELETED_FILE_def ENTRY_TYPE_DELETED_STREAM_def ENTRY_TYPE_DELETED_NAME_def

record file_info =
  fi_name :: rstr
  fi_size :: u64
  fi_is_directory :: bool
  fi_path :: rstr

record file_entry_location =
  directory_cluster :: u32
  entry_offset :: u32
  loc_first_cluster :: u32
  data_length :: u64
  secondary_count :: u8
  is_directory :: bool

record resolved_path =
  parent_cluster :: u32
  rp_name :: rstr
  rp_location :: "file_entry_location option"

definition calculate_entry_set_checksum :: "bytes list \<Rightarrow> u16" where
  "calculate_entry_set_checksum es =
     foldl (\<lambda>checksum (entry_idx, entry).
       foldl (\<lambda>checksum (byte_idx, byte).
         if entry_idx = 0 \<and> (byte_idx = 2 \<or> byte_idx = 3) then checksum
         else rotate_right1 checksum + ucast byte) checksum (enumerate 0 entry))
       0 (enumerate (0 :: nat) es)"

text \<open>The three time stamps of a new entry, all the same.\<close>

definition entry_timestamp :: "u32 \<Rightarrow> u32" where
  "entry_timestamp now =
     (let dos_time = ((now div 2) AND 0x1F) OR push_bit 5 ((now div 60) AND 0x3F) OR push_bit 11 ((now div 3600) AND 0x1F);
          dos_date = 1 OR push_bit 5 1 OR push_bit 9 45
      in dos_date OR push_bit 16 dos_time)"

definition file_entry :: "u32 \<Rightarrow> nat \<Rightarrow> bool \<Rightarrow> bytes" where
  "file_entry now sec_count is_dir =
     (let e = replicate 32 0;
          e = e[0 := ENTRY_TYPE_FILE];
          e = e[1 := word_of_nat sec_count];
          e = copy_at 4 (to_le 2 (if is_dir then ATTR_DIRECTORY else ATTR_ARCHIVE)) e;
          e = copy_at 8 (to_le 4 (entry_timestamp now)) e;
          e = copy_at 12 (to_le 4 (entry_timestamp now)) e
      in copy_at 16 (to_le 4 (entry_timestamp now)) e)"

definition stream_entry :: "rstr \<Rightarrow> u32 \<Rightarrow> u64 \<Rightarrow> bytes" where
  "stream_entry name first_cluster sz =
     (let e = replicate 32 0;
          e = e[0 := ENTRY_TYPE_STREAM];
          e = e[1 := 0x03];
          e = (if 0 < sz then e[1 := 0x01] else e);
          e = e[3 := word_of_nat (length (encode_utf16 name))];
          e = copy_at 4 (to_le 2 (calculate_name_hash name)) e;
          e = copy_at 8 (to_le 8 sz) e;
          e = copy_at 20 (to_le 4 first_cluster) e
      in copy_at 24 (to_le 8 sz) e)"

definition name_entry :: "u16 list \<Rightarrow> bytes" where
  "name_entry units =
     (let e = replicate 32 0;
          e = e[0 := ENTRY_TYPE_FILE_NAME];
          e = e[1 := 0]
      in fold (\<lambda>(i, u) e. copy_at (2 + i * 2) (to_le 2 u) e) (enumerate 0 units) e)"

definition create_file_entries :: "u32 \<Rightarrow> rstr \<Rightarrow> u32 \<Rightarrow> u64 \<Rightarrow> bool \<Rightarrow> bytes list" where
  "create_file_entries now name first_cluster sz is_dir =
     (let name_utf16 = encode_utf16 name;
          name_entries_needed = (length name_utf16 + 14) div 15;
          sec_count = 1 + name_entries_needed;
          es = [file_entry now sec_count is_dir, stream_entry name first_cluster sz]
            @ map (\<lambda>k. name_entry (take 15 (drop (15 * k) name_utf16))) [0..<name_entries_needed];
          checksum = calculate_entry_set_checksum es
      in es[0 := copy_at 2 (to_le 2 checksum) (es ! 0)])"

section \<open>Reading an entry set\<close>

definition entry_name_part :: "bytes \<Rightarrow> nat \<Rightarrow> rstr" where
  "entry_name_part data off =
     decode_utf16_ok (takeWhile (\<lambda>c. c \<noteq> 0)
       (map (\<lambda>k. from_le [data ! (off + 2 + 2 * k), data ! (off + 2 + 2 * k + 1)]) [0..<15]))"

text \<open>The loop over the secondary entries; it stops at the first one that leaves the cluster.\<close>

definition parse_secondary :: "bytes \<Rightarrow> rstr \<times> u32 \<times> u64 \<Rightarrow> nat \<Rightarrow> rstr \<times> u32 \<times> u64" where
  "parse_secondary data acc off =
     (case acc of (name, first_cluster, len) \<Rightarrow>
        if data ! off = ENTRY_TYPE_STREAM
        then (name, from_le (slice (off + 20) 4 data), from_le (slice (off + 24) 8 data))
        else if data ! off = ENTRY_TYPE_FILE_NAME then (name @ entry_name_part data off, first_cluster, len)
        else acc)"

definition parse_secondaries :: "bytes \<Rightarrow> nat \<Rightarrow> nat \<Rightarrow> rstr \<times> u32 \<times> u64" where
  "parse_secondaries data i sec_count =
     foldl (parse_secondary data) ([], 0, 0)
       (takeWhile (\<lambda>off. off + 32 \<le> length data) (map (\<lambda>j. i + j * 32) [1..<Suc sec_count]))"

definition parse_is_directory :: "bytes \<Rightarrow> nat \<Rightarrow> bool" where
  "parse_is_directory data i \<longleftrightarrow> (from_le (slice (i + 4) 2 data) :: u16) AND ATTR_DIRECTORY \<noteq> 0"

section \<open>Searching\<close>

datatype scan = ScanFound file_entry_location | ScanEnd | ScanNext | ScanPanic

function find_in_cluster :: "(rstr \<Rightarrow> rstr) \<Rightarrow> rstr \<Rightarrow> u32 \<Rightarrow> bytes \<Rightarrow> nat \<Rightarrow> scan" where
  "find_in_cluster lower target cluster data i =
     (if length data \<le> i then ScanNext
      else if data ! i = ENTRY_TYPE_END then ScanEnd
      else if data ! i = ENTRY_TYPE_FILE then
        if length data < i + 6 then ScanPanic
        else
          let sec_count = unat (data ! (i + 1));
              (name, first, len) = parse_secondaries data i sec_count
          in if lower name = target then
               ScanFound \<lparr>directory_cluster = cluster, entry_offset = word_of_nat i, loc_first_cluster = first,
                 data_length = len, secondary_count = word_of_nat sec_count, is_directory = parse_is_directory data i\<rparr>
             else find_in_cluster lower target cluster data (i + (1 + sec_count) * 32)
      else find_in_cluster lower target cluster data (i + 32))"
  by auto
termination by (relation "measure (\<lambda>(lower, target, cluster, data, i). length data - i)") auto

declare find_in_cluster.simps [simp del]

fun find_in_clusters :: "(rstr \<Rightarrow> rstr) \<Rightarrow> rstr \<Rightarrow> u32 list \<Rightarrow> file_entry_location option fs_op" where
  "find_in_clusters lower target [] = returnE None"
| "find_in_clusters lower target (cluster # clusters) =
     bindE (read_cluster cluster) (\<lambda>data.
       case find_in_cluster lower target cluster data 0 of
         ScanFound loc \<Rightarrow> returnE (Some loc)
       | ScanEnd \<Rightarrow> returnE None
       | ScanNext \<Rightarrow> find_in_clusters lower target clusters
       | ScanPanic \<Rightarrow> throwE Panic)"

definition find_entry_in_directory :: "(rstr \<Rightarrow> rstr) \<Rightarrow> u32 \<Rightarrow> rstr \<Rightarrow> file_entry_location option fs_op" where
  "find_entry_in_directory lower dir_cluster name =
     bindE (read_cluster_chain dir_cluster) (find_in_clusters lower (lower name))"

definition find_file_entry :: "(rstr \<Rightarrow> rstr) \<Rightarrow> rstr \<Rightarrow> file_entry_location option fs_op" where
  "find_file_entry lower name =
     bindE (getsE first_cluster_of_root) (\<lambda>root. find_entry_in_directory lower root name)"

section \<open>Room for new entries\<close>

definition slot_is_free :: "u8 \<Rightarrow> bool" where
  "slot_is_free t \<longleftrightarrow> t = ENTRY_TYPE_END \<or> t = 0x00 \<or> t = ENTRY_TYPE_DELETED_FILE \<or>
     t = ENTRY_TYPE_DELETED_STREAM \<or> t = ENTRY_TYPE_DELETED_NAME"

datatype slot = SlotFound nat | SlotNone | SlotPanic

function free_slot_loop :: "bytes \<Rightarrow> nat \<Rightarrow> nat \<Rightarrow> nat \<Rightarrow> nat \<Rightarrow> slot" where
  "free_slot_loop data entries_needed i consecutive_free slot_start =
     (if length data \<le> i then
        if consecutive_free \<ge> entries_needed then SlotFound slot_start else SlotNone
      else if slot_is_free (data ! i) then
        let slot_start = (if consecutive_free = 0 then i else slot_start)
        in if consecutive_free + 1 \<ge> entries_needed then SlotFound slot_start
           else free_slot_loop data entries_needed (i + 32) (consecutive_free + 1) slot_start
      else if data ! i = ENTRY_TYPE_FILE then
        if length data \<le> i + 1 then SlotPanic
        else free_slot_loop data entries_needed (i + (1 + unat (data ! (i + 1))) * 32) 0 slot_start
      else free_slot_loop data entries_needed (i + 32) 0 slot_start)"
  by auto
termination by (relation "measure (\<lambda>(data, entries_needed, i, consecutive_free, slot_start). length data - i)") auto

declare free_slot_loop.simps [simp del]

fun find_slot_in_clusters :: "nat \<Rightarrow> u32 list \<Rightarrow> (u32 \<times> u32) option fs_op" where
  "find_slot_in_clusters entries_needed [] = returnE None"
| "find_slot_in_clusters entries_needed (cluster # clusters) =
     bindE (read_cluster cluster) (\<lambda>data.
       case free_slot_loop data entries_needed 0 0 0 of
         SlotFound s \<Rightarrow> returnE (Some (cluster, word_of_nat s))
       | SlotNone \<Rightarrow> find_slot_in_clusters entries_needed clusters
       | SlotPanic \<Rightarrow> throwE Panic)"

text \<open>End markers become invalid entries, which the searches skip.\<close>

definition clear_end_markers :: "bytes \<Rightarrow> bytes" where
  "clear_end_markers data =
     map (\<lambda>(i, b). if i mod 32 = 0 \<and> b = ENTRY_TYPE_END then 0xFF else b) (enumerate 0 data)"

definition extend_directory :: "u32 \<Rightarrow> (u32 \<times> u32) fs_op" where
  "extend_directory dir_cluster =
     bindE (extend_cluster_chain dir_cluster) (\<lambda>new_cluster.
     bindE (read_cluster_chain dir_cluster) (\<lambda>dir_clusters_before.
       if dir_clusters_before = [] then throwE Panic
       else
         bindE (forE (butlast dir_clusters_before) (\<lambda>cluster.
           bindE (read_cluster cluster) (\<lambda>data. write_cluster cluster (clear_end_markers data)))) (\<lambda>_.
         returnE (new_cluster, 0))))"

definition find_free_slot_in_directory :: "u32 \<Rightarrow> nat \<Rightarrow> (u32 \<times> u32) fs_op" where
  "find_free_slot_in_directory dir_cluster entries_needed =
     bindE (read_cluster_chain dir_cluster) (\<lambda>dir_clusters.
     bindE (find_slot_in_clusters entries_needed dir_clusters) (\<lambda>found.
       case found of
         Some slot \<Rightarrow> returnE slot
       | None \<Rightarrow> extend_directory dir_cluster))"

definition find_free_directory_slot :: "nat \<Rightarrow> u32 fs_op" where
  "find_free_directory_slot entries_needed =
     bindE (getsE first_cluster_of_root) (\<lambda>root.
     bindE (find_free_slot_in_directory root entries_needed) (\<lambda>(_, offset). returnE offset))"

section \<open>Creating and deleting entries\<close>

text \<open>Copying the entries into the cluster; a slot that leaves the cluster panics.\<close>

definition put_entries :: "nat \<Rightarrow> bytes list \<Rightarrow> bytes \<Rightarrow> bytes option" where
  "put_entries slot_offset es data =
     (if slot_offset + 32 * length es \<le> length data
      then Some (fold (\<lambda>(i, e) data. copy_at (slot_offset + i * 32) e data) (enumerate 0 es) data) else None)"

definition create_entry_in_directory :: "u32 \<Rightarrow> u32 \<Rightarrow> rstr \<Rightarrow> u32 \<Rightarrow> u64 \<Rightarrow> bool \<Rightarrow> unit fs_op" where
  "create_entry_in_directory now dir_cluster name first_cluster sz is_dir =
     (let es = create_file_entries now name first_cluster sz is_dir in
      bindE (find_free_slot_in_directory dir_cluster (length es)) (\<lambda>(slot_cluster, slot_offset).
      bindE (read_cluster slot_cluster) (\<lambda>data.
        case put_entries (unat slot_offset) es data of
          None \<Rightarrow> throwE Panic
        | Some data \<Rightarrow> write_cluster slot_cluster data)))"

definition create_file_entry :: "u32 \<Rightarrow> rstr \<Rightarrow> u32 \<Rightarrow> u64 \<Rightarrow> unit fs_op" where
  "create_file_entry now name first_cluster sz =
     bindE (getsE first_cluster_of_root) (\<lambda>root. create_entry_in_directory now root name first_cluster sz False)"

text \<open>The error for an entry that exists already.\<close>

definition quoted :: "rstr \<Rightarrow> rstr" where
  "quoted name = lit [CHR 0x27] @ name @ lit [CHR 0x27]"

definition create_directory_in :: "(rstr \<Rightarrow> rstr) \<Rightarrow> u32 \<Rightarrow> u32 \<Rightarrow> rstr \<Rightarrow> u32 fs_op" where
  "create_directory_in lower now parent name =
     (if name = [] \<or> utf8_len name > 255 then throwE (fs_error ''Invalid directory name length'')
      else
        bindE (find_entry_in_directory lower parent name) (\<lambda>existing.
          if existing \<noteq> None
          then throwE (FilesystemError (lit ''Entry '' @ quoted name @ lit '' already exists''))
          else
            bindE (allocate_clusters 1) (\<lambda>dir_cluster.
            bindE (getsE cluster_size) (\<lambda>cluster_sz.
            bindE (write_cluster dir_cluster (replicate (unat cluster_sz) 0)) (\<lambda>_.
            bindE (create_entry_in_directory now parent name dir_cluster 0 True) (\<lambda>_.
              returnE dir_cluster))))))"

definition deleted_type :: "u8 \<Rightarrow> u8" where
  "deleted_type t =
     (if t = ENTRY_TYPE_STREAM then ENTRY_TYPE_DELETED_STREAM
      else if t = ENTRY_TYPE_FILE_NAME then ENTRY_TYPE_DELETED_NAME
      else t AND 0x7F)"

definition mark_deleted :: "nat \<Rightarrow> nat \<Rightarrow> bytes \<Rightarrow> bytes" where
  "mark_deleted off sec_count data =
     fold (\<lambda>i data. let o' = off + i * 32 in if o' < length data then data[o' := deleted_type (data ! o')] else data)
       [1..<Suc sec_count] (data[off := ENTRY_TYPE_DELETED_FILE])"

definition delete_file_entry :: "file_entry_location \<Rightarrow> unit fs_op" where
  "delete_file_entry loc =
     bindE (read_cluster (directory_cluster loc)) (\<lambda>data.
       if length data \<le> unat (entry_offset loc) then throwE Panic
       else write_cluster (directory_cluster loc)
         (mark_deleted (unat (entry_offset loc)) (unat (secondary_count loc)) data))"

section \<open>Listing\<close>

datatype listing = Listing "file_info list" bool | ListPanic

text \<open>One cluster: the files, and whether an end marker stops the listing (in the first cluster only).\<close>

function list_cluster :: "rstr \<Rightarrow> bool \<Rightarrow> bytes \<Rightarrow> nat \<Rightarrow> file_info list \<Rightarrow> listing" where
  "list_cluster current_path first data i files =
     (if length data \<le> i then Listing files False
      else if data ! i = ENTRY_TYPE_END \<and> first then Listing files True
      else if data ! i = ENTRY_TYPE_FILE then
        if length data < i + 6 then ListPanic
        else
          let sec_count = unat (data ! (i + 1));
              (name, _, len) = parse_secondaries data i sec_count;
              path = (if current_path = [] then name else current_path @ lit ''/'' @ name);
              files = (if name = [] then files
                else files @ [\<lparr>fi_name = name, fi_size = len, fi_is_directory = parse_is_directory data i, fi_path = path\<rparr>])
          in list_cluster current_path first data (i + (1 + sec_count) * 32) files
      else list_cluster current_path first data (i + 32) files)"
  by auto
termination by (relation "measure (\<lambda>(current_path, first, data, i, files). length data - i)") auto

declare list_cluster.simps [simp del]

fun list_clusters :: "rstr \<Rightarrow> bool \<Rightarrow> u32 list \<Rightarrow> file_info list \<Rightarrow> file_info list fs_op" where
  "list_clusters current_path first [] files = returnE files"
| "list_clusters current_path first (cluster # clusters) files =
     bindE (read_cluster cluster) (\<lambda>data.
       case list_cluster current_path first data 0 files of
         ListPanic \<Rightarrow> throwE Panic
       | Listing files True \<Rightarrow> returnE files
       | Listing files False \<Rightarrow> list_clusters current_path False clusters files)"

definition list_files_in_directory :: "u32 \<Rightarrow> rstr \<Rightarrow> file_info list fs_op" where
  "list_files_in_directory dir_cluster current_path =
     bindE (read_cluster_chain dir_cluster) (\<lambda>clusters. list_clusters current_path True clusters [])"

definition list_files :: "file_info list fs_op" where
  "list_files = bindE (getsE first_cluster_of_root) (\<lambda>root. list_files_in_directory root [])"

section \<open>Paths\<close>

definition trim_slashes :: "rstr \<Rightarrow> rstr" where
  "trim_slashes s = rev (dropWhile (\<lambda>c. c = 47) (rev (dropWhile (\<lambda>c. c = 47) s)))"

definition parse_path :: "rstr \<Rightarrow> rstr list" where
  "parse_path path = filter (\<lambda>s. s \<noteq> []) (split_on 47 (trim_slashes path))"

fun join_slash :: "rstr list \<Rightarrow> rstr" where
  "join_slash [] = []"
| "join_slash [w] = w"
| "join_slash (w # ws) = w @ lit ''/'' @ join_slash ws"

text \<open>The loop over all components but the last; \<open>walked\<close> are the components before.\<close>

fun walk_components :: "(rstr \<Rightarrow> rstr) \<Rightarrow> u32 \<Rightarrow> bool \<Rightarrow> rstr list \<Rightarrow> rstr list \<Rightarrow> u32 \<Rightarrow> u32 fs_op" where
  "walk_components lower now create_parents walked [] current = returnE current"
| "walk_components lower now create_parents walked (component # rest) current =
     bindE (find_entry_in_directory lower current component) (\<lambda>found.
       case found of
         Some entry \<Rightarrow>
           if \<not> is_directory entry
           then throwE (FilesystemError (quoted component @ lit '' is not a directory''))
           else walk_components lower now create_parents (walked @ [component]) rest (loc_first_cluster entry)
       | None \<Rightarrow>
           if create_parents then
             bindE (create_directory_in lower now current component) (\<lambda>new_cluster.
               walk_components lower now create_parents (walked @ [component]) rest new_cluster)
           else throwE (FilesystemError (lit ''Directory '' @ quoted (join_slash (walked @ [component])) @ lit '' not found'')))"

definition resolve_path :: "(rstr \<Rightarrow> rstr) \<Rightarrow> u32 \<Rightarrow> rstr \<Rightarrow> bool \<Rightarrow> resolved_path fs_op" where
  "resolve_path lower now path create_parents =
     (let components = parse_path path in
      if components = [] then throwE (fs_error ''Empty path'')
      else
        bindE (getsE first_cluster_of_root) (\<lambda>root.
        bindE (walk_components lower now create_parents [] (butlast components) root) (\<lambda>current.
        bindE (find_entry_in_directory lower current (last components)) (\<lambda>location.
          returnE \<lparr>parent_cluster = current, rp_name = last components, rp_location = location\<rparr>))))"

definition list_files_at :: "(rstr \<Rightarrow> rstr) \<Rightarrow> u32 \<Rightarrow> rstr \<Rightarrow> file_info list fs_op" where
  "list_files_at lower now path =
     (if path = [] \<or> path = lit ''/'' then list_files
      else
        bindE (resolve_path lower now path False) (\<lambda>resolved.
          case rp_location resolved of
            Some loc \<Rightarrow>
              if is_directory loc then list_files_in_directory (loc_first_cluster loc) (trim_slashes path)
              else throwE (FilesystemError (quoted path @ lit '' is not a directory''))
          | None \<Rightarrow> throwE (FilesystemError (lit ''Directory '' @ quoted path @ lit '' not found''))))"

definition create_directory :: "(rstr \<Rightarrow> rstr) \<Rightarrow> u32 \<Rightarrow> rstr \<Rightarrow> bool \<Rightarrow> unit fs_op" where
  "create_directory lower now path create_parents =
     bindE (resolve_path lower now path create_parents) (\<lambda>resolved.
       if rp_location resolved \<noteq> None then throwE (FilesystemError (quoted path @ lit '' already exists''))
       else bindE (create_directory_in lower now (parent_cluster resolved) (rp_name resolved)) (\<lambda>_. returnE ()))"

section \<open>Directories as lists of entry sets\<close>

text \<open>The contents of a directory cluster: single entries (unused, deleted, foreign) and the entry sets of
  files, which a search passes as one item.\<close>

datatype dir_item = Entry bytes | FileSet "bytes list"

fun item_bytes :: "dir_item \<Rightarrow> bytes" where
  "item_bytes (Entry e) = e"
| "item_bytes (FileSet es) = concat es"

fun item_ok :: "dir_item \<Rightarrow> bool" where
  "item_ok (Entry e) \<longleftrightarrow> length e = 32 \<and> e ! 0 \<noteq> ENTRY_TYPE_FILE"
| "item_ok (FileSet es) \<longleftrightarrow> es \<noteq> [] \<and> (\<forall>e \<in> set es. length e = 32 \<and> e ! 0 \<noteq> ENTRY_TYPE_END \<and> e ! 0 \<noteq> 0x80) \<and>
     hd es ! 0 = ENTRY_TYPE_FILE \<and> unat (hd es ! 1) = length es - 1"

definition dir_bytes :: "dir_item list \<Rightarrow> bytes" where
  "dir_bytes items = concat (map item_bytes items)"

lemma dir_bytes_simps [simp]:
  "dir_bytes [] = []" "dir_bytes (x # xs) = item_bytes x @ dir_bytes xs"
  "dir_bytes (xs @ ys) = dir_bytes xs @ dir_bytes ys"
  by (simp_all add: dir_bytes_def)

lemma length_concat32: "\<forall>e \<in> set es. length e = 32 \<Longrightarrow> length (concat es) = 32 * length es"
  by (induction es) auto

lemma concat_cut: "j < length es \<Longrightarrow> concat es = concat (take j es) @ es ! j @ concat (drop (Suc j) es)"
  by (metis concat.simps(2) concat_append id_take_nth_drop)

section \<open>Reading entries does not depend on their position\<close>

lemma slice_middle: "a + n \<le> length c \<Longrightarrow> slice (length p + a) n (p @ c @ q) = slice a n c"
  by (simp add: slice_def)

lemma nth_middle: "a < length c \<Longrightarrow> (p @ c @ q) ! (length p + a) = c ! a"
  by (simp add: nth_append)

lemma entry_name_part_middle:
  assumes "off + 32 \<le> length c"
  shows "entry_name_part (p @ c @ q) (length p + off) = entry_name_part c off"
proof -
  have "(p @ c @ q) ! (length p + off + 2 + 2 * k) = c ! (off + 2 + 2 * k)"
    "(p @ c @ q) ! (length p + off + 2 + 2 * k + 1) = c ! (off + 2 + 2 * k + 1)" if "k < 15" for k
    using nth_middle [of "off + 2 + 2 * k" c p q] nth_middle [of "off + 2 + 2 * k + 1" c p q] that assms
    by (simp_all add: add.assoc)
  then show ?thesis
    unfolding entry_name_part_def by (intro arg_cong [of _ _ decode_utf16_ok] arg_cong [of _ _ "takeWhile _"] map_cong) auto
qed

lemma parse_secondary_middle:
  assumes "off + 32 \<le> length c"
  shows "parse_secondary (p @ c @ q) acc (length p + off) = parse_secondary c acc off"
proof -
  have "(p @ c @ q) ! (length p + off) = c ! off" using assms by (intro nth_middle) simp
  then show ?thesis
    using assms unfolding parse_secondary_def by (simp only: entry_name_part_middle slice_middle add.assoc add_le_mono order_refl)
qed

definition parsed_set :: "bytes list \<Rightarrow> rstr \<times> u32 \<times> u64" where
  "parsed_set es = foldl (\<lambda>acc e. parse_secondary e acc 0) ([], 0, 0) (tl es)"

lemma parse_secondaries_set:
  assumes "\<forall>e \<in> set es. length e = 32" and "es \<noteq> []"
  shows "parse_secondaries (p @ concat es @ q) (length p) (length es - 1) = parsed_set es"
proof -
  let ?n = "length es"
  have len: "length (concat es) = 32 * ?n" using assms(1) by (rule length_concat32)
  have nonempty: "0 < ?n" using assms(2) by simp
  have idx: "[1..<Suc (?n - 1)] = map Suc [0..<?n - 1]" by (simp add: map_Suc_upt)
  have all: "takeWhile (\<lambda>off. off + 32 \<le> length (p @ concat es @ q)) (map (\<lambda>j. length p + j * 32) [1..<Suc (?n - 1)])
      = map (\<lambda>j. length p + j * 32) [1..<Suc (?n - 1)]"
    using len nonempty by (subst takeWhile_eq_all_conv) auto
  have step: "parse_secondary (p @ concat es @ q) acc (length p + j * 32) = parse_secondary (es ! j) acc 0" if "j < ?n" for acc j
  proof -
    let ?p = "p @ concat (take j es)" and ?q = "concat (drop (Suc j) es) @ q"
    have "p @ concat es @ q = ?p @ es ! j @ ?q" using concat_cut [OF that] by (metis append.assoc)
    moreover have "\<forall>e \<in> set (take j es). length e = 32" using assms(1) by (meson in_set_takeD)
    then have "length ?p = length p + j * 32"
      using length_concat32 [of "take j es"] that by (simp add: mult.commute)
    moreover note this
    moreover have "length (es ! j) = 32" using assms(1) that by simp
    ultimately show ?thesis using parse_secondary_middle [of 0 "es ! j" ?p ?q acc] by simp
  qed
  have fold: "foldl (\<lambda>acc j. parse_secondary (p @ concat es @ q) acc (length p + j * 32)) acc js =
      foldl (\<lambda>acc j. parse_secondary (es ! j) acc 0) acc js" if "\<forall>j \<in> set js. j < ?n" for js acc
    using that by (induction js arbitrary: acc) (simp_all add: step)
  have "tl es = map (\<lambda>j. es ! Suc j) [0..<?n - 1]"
    by (rule nth_equalityI) (simp_all add: nth_tl)
  then have "parsed_set es = foldl (\<lambda>acc j. parse_secondary (es ! j) acc 0) ([], 0, 0) [1..<Suc (?n - 1)]"
    unfolding parsed_set_def idx by (simp add: foldl_map)
  moreover have "\<forall>j \<in> set [1..<Suc (?n - 1)]. j < ?n" using nonempty by auto
  ultimately show ?thesis
    unfolding parse_secondaries_def all foldl_map by (simp only: fold)
qed

lemma parse_is_directory_set:
  "\<forall>e \<in> set es. length e = 32 \<Longrightarrow> es \<noteq> [] \<Longrightarrow>
     parse_is_directory (p @ concat es @ q) (length p) = parse_is_directory (hd es) 0"
  using slice_middle [of 4 2 "hd es" p "concat (tl es) @ q"] by (cases es) (simp_all add: parse_is_directory_def add.commute)

section \<open>Searching a list of items\<close>

fun find_items :: "(rstr \<Rightarrow> rstr) \<Rightarrow> rstr \<Rightarrow> u32 \<Rightarrow> nat \<Rightarrow> dir_item list \<Rightarrow> scan" where
  "find_items lower target cluster off [] = ScanNext"
| "find_items lower target cluster off (Entry e # items) =
     (if e ! 0 = ENTRY_TYPE_END then ScanEnd else find_items lower target cluster (off + 32) items)"
| "find_items lower target cluster off (FileSet es # items) =
     (case parsed_set es of (name, first, len) \<Rightarrow>
        if lower name = target then
          ScanFound \<lparr>directory_cluster = cluster, entry_offset = word_of_nat off, loc_first_cluster = first,
            data_length = len, secondary_count = word_of_nat (length es - 1), is_directory = parse_is_directory (hd es) 0\<rparr>
        else find_items lower target cluster (off + 32 * length es) items)"

lemma find_in_cluster_items:
  "\<forall>x \<in> set items. item_ok x \<Longrightarrow>
     find_in_cluster lower target cluster (p @ dir_bytes items) (length p) = find_items lower target cluster (length p) items"
proof (induction items arbitrary: p)
  case Nil
  then show ?case by (subst find_in_cluster.simps) simp
next
  case (Cons x items)
  show ?case
  proof (cases x)
    case (Entry e)
    with Cons.prems have e: "length e = 32" "e ! 0 \<noteq> ENTRY_TYPE_FILE" by simp_all
    have "(p @ e @ dir_bytes items) ! length p = e ! 0" using nth_middle [of 0 e p "dir_bytes items"] e(1) by simp
    moreover have "find_in_cluster lower target cluster ((p @ e) @ dir_bytes items) (length (p @ e)) =
        find_items lower target cluster (length (p @ e)) items"
      using Cons.prems by (intro Cons.IH) simp
    ultimately show ?thesis using e Entry by (subst find_in_cluster.simps) simp
  next
    case (FileSet es)
    with Cons.prems have es: "es \<noteq> []" "\<forall>e \<in> set es. length e = 32" "hd es ! 0 = ENTRY_TYPE_FILE"
      "unat (hd es ! 1) = length es - 1" by simp_all
    let ?d = "p @ concat es @ dir_bytes items"
    have len: "length (concat es) = 32 * length es" using es(2) by (rule length_concat32)
    have ne: "0 < length es" using es(1) by simp
    have hd_es: "concat es = hd es @ concat (tl es)" using es(1) by (cases es) simp_all
    have nth: "?d ! (length p + k) = hd es ! k" if "k < 32" for k
      using nth_middle [of k "hd es" p "concat (tl es) @ dir_bytes items"] hd_es es that by simp
    have "find_in_cluster lower target cluster ((p @ concat es) @ dir_bytes items) (length (p @ concat es)) =
        find_items lower target cluster (length (p @ concat es)) items"
      using Cons.prems by (intro Cons.IH) simp
    moreover have "(1 + unat (?d ! (length p + 1))) * 32 = 32 * length es"
      using nth [of 1] es(4) ne by simp
    moreover have "word_of_nat (unat (hd es ! 1)) = hd es ! 1" by simp
    ultimately show ?thesis
      using FileSet len ne nth [of 0] nth [of 1] es parse_secondaries_set [OF es(2,1), of p "dir_bytes items"]
        parse_is_directory_set [OF es(2,1), of p "dir_bytes items"]
      by (subst find_in_cluster.simps) (auto simp: entry_types Let_def mult.commute [of _ 32] split: prod.split)
  qed
qed

section \<open>The entry set of a new file\<close>

lemma name_entry_eq:
  "length us \<le> 15 \<Longrightarrow>
     name_entry us = [ENTRY_TYPE_FILE_NAME, 0] @ concat (map (to_le 2) (us @ replicate (15 - length us) 0))"
proof (induction us rule: rev_induct)
  case Nil
  have "concat (map (to_le 2) (replicate 15 (0 :: u16))) = replicate 30 0"
    by (simp add: to_le_def numeral_eq_Suc)
  then show ?case by (simp add: name_entry_def Let_def numeral_eq_Suc)
next
  case (snoc u us)
  let ?n = "length us"
  have n: "15 - ?n = Suc (15 - Suc ?n)" using snoc.prems by simp
  have len: "length (concat (map (to_le 2) (ws :: u16 list))) = 2 * length ws" for ws
    by (induction ws) simp_all
  have "name_entry (us @ [u]) = copy_at (2 + ?n * 2) (to_le 2 u) (name_entry us)"
    by (simp add: name_entry_def Let_def enumerate_append_eq)
  also have "\<dots> = [ENTRY_TYPE_FILE_NAME, 0] @ concat (map (to_le 2) us) @ to_le 2 u @ concat (map (to_le 2) (replicate (15 - Suc ?n) (0 :: u16)))"
    using snoc n by (simp add: copy_at_def len mult.commute)
  finally show ?case using snoc.prems by simp
qed

lemma nth_pairs:
  "k < length us \<Longrightarrow> concat (map (to_le 2) us) ! (2 * k) = to_le 2 (us ! k :: u16) ! 0 \<and>
     concat (map (to_le 2) us) ! Suc (2 * k) = to_le 2 (us ! k) ! 1"
proof (induction us arbitrary: k)
  case (Cons u us)
  show ?case
  proof (cases k)
    case (Suc j)
    with Cons show ?thesis by (simp add: nth_append)
  qed (simp add: nth_append)
qed simp

lemma to_le2: "to_le 2 (u :: u16) = [to_le 2 u ! 0, to_le 2 u ! 1]"
  by (rule nth_equalityI) (auto simp: less_2_cases_iff)

lemma takeWhile_zeros: "takeWhile (\<lambda>c. c \<noteq> 0) (us @ replicate n 0) = takeWhile (\<lambda>c. c \<noteq> 0) us"
  by (induction us) (auto simp: takeWhile_replicate)

lemma entry_name_part_name_entry:
  assumes "length us \<le> 15"
  shows "entry_name_part (name_entry us) 0 = decode_utf16_ok (takeWhile (\<lambda>c. c \<noteq> 0) us)"
proof -
  let ?ws = "us @ replicate (15 - length us) 0"
  have len: "length ?ws = 15" using assms by simp
  have "from_le [name_entry us ! (2 + 2 * k), name_entry us ! (2 + 2 * k + 1)] = ?ws ! k" if "k < 15" for k
  proof -
    have "k < length ?ws" using that len by simp
    from nth_pairs [OF this] have "name_entry us ! (2 + 2 * k) = to_le 2 (?ws ! k) ! 0"
      "name_entry us ! (2 + 2 * k + 1) = to_le 2 (?ws ! k) ! 1"
      by (simp_all only: name_entry_eq [OF assms]) simp_all
    then show ?thesis using from_to_le16 [of "?ws ! k"] to_le2 [of "?ws ! k"] by simp
  qed
  then have "map (\<lambda>k. from_le [name_entry us ! (0 + 2 + 2 * k), name_entry us ! (0 + 2 + 2 * k + 1)]) [0..<15] = ?ws"
    using len by (intro nth_equalityI) simp_all
  moreover have "takeWhile (\<lambda>c. c \<noteq> 0) ?ws = takeWhile (\<lambda>c. c \<noteq> 0) us"
    by (rule takeWhile_zeros)
  ultimately show ?thesis unfolding entry_name_part_def by simp
qed

lemma file_entry_facts [simp]:
  "length (file_entry now n d) = 32" "file_entry now n d ! 0 = ENTRY_TYPE_FILE" "file_entry now n d ! Suc 0 = word_of_nat n"
  "parse_is_directory (file_entry now n d) 0 = d"
proof -
  show "length (file_entry now n d) = 32" "file_entry now n d ! 0 = ENTRY_TYPE_FILE" "file_entry now n d ! Suc 0 = word_of_nat n"
    by (simp_all add: file_entry_def Let_def nth_copy_at)
  have "slice 4 2 (file_entry now n d) = to_le 2 (if d then ATTR_DIRECTORY else ATTR_ARCHIVE)"
    by (simp add: file_entry_def Let_def slice_copy_at_before slice_copy_at_same [where src = "to_le 2 w" for w :: u16, simplified])
  then show "parse_is_directory (file_entry now n d) 0 = d"
    by (simp add: parse_is_directory_def ATTR_DIRECTORY_def ATTR_ARCHIVE_def)
qed

lemma stream_entry_facts [simp]:
  "length (stream_entry name first sz) = 32" "stream_entry name first sz ! 0 = ENTRY_TYPE_STREAM"
  "slice 20 4 (stream_entry name first sz) = to_le 4 first" "slice 24 8 (stream_entry name first sz) = to_le 8 sz"
proof -
  show "length (stream_entry name first sz) = 32" "stream_entry name first sz ! 0 = ENTRY_TYPE_STREAM"
    by (simp_all add: stream_entry_def Let_def nth_copy_at)
  show "slice 20 4 (stream_entry name first sz) = to_le 4 first"
    by (simp add: stream_entry_def Let_def slice_copy_at_before slice_copy_at_same [where src = "to_le 4 w" for w :: u32, simplified])
  show "slice 24 8 (stream_entry name first sz) = to_le 8 sz"
    by (simp add: stream_entry_def Let_def slice_copy_at_same [where src = "to_le 8 w" for w :: u64, simplified])
qed

lemma name_entry_facts [simp]:
  "length us \<le> 15 \<Longrightarrow> length (name_entry us) = 32"
  "length us \<le> 15 \<Longrightarrow> name_entry us ! 0 = ENTRY_TYPE_FILE_NAME"
proof -
  have "length (concat (map (to_le 2) (ws :: u16 list))) = 2 * length ws" for ws
    by (induction ws) simp_all
  then show "length us \<le> 15 \<Longrightarrow> length (name_entry us) = 32"
    by (simp only: name_entry_eq length_append) simp
  show "length us \<le> 15 \<Longrightarrow> name_entry us ! 0 = ENTRY_TYPE_FILE_NAME"
    by (simp only: name_entry_eq) simp
qed

text \<open>The name a search finds: the name is cut into pieces of 15 code units, and each is decoded on its own.\<close>

definition name_pieces :: "u16 list \<Rightarrow> u16 list list" where
  "name_pieces us = map (\<lambda>k. take 15 (drop (15 * k) us)) [0..<(length us + 14) div 15]"

definition stored_name :: "rstr \<Rightarrow> rstr" where
  "stored_name name = concat (map (\<lambda>us. decode_utf16_ok (takeWhile (\<lambda>c. c \<noteq> 0) us)) (name_pieces (encode_utf16 name)))"

lemma create_file_entries_eq:
  fixes name now first sz d
  defines "es0 \<equiv> file_entry now (1 + length (name_pieces (encode_utf16 name))) d
       # stream_entry name first sz # map name_entry (name_pieces (encode_utf16 name))"
  shows "create_file_entries now name first sz d = es0[0 := copy_at 2 (to_le 2 (calculate_entry_set_checksum es0)) (es0 ! 0)]"
  by (simp add: create_file_entries_def name_pieces_def Let_def o_def es0_def)

text \<open>The checksum does not depend on the two bytes it is stored in.\<close>

lemma checksum_skips:
  fixes f :: "u16 \<Rightarrow> nat \<times> u8 \<Rightarrow> u16"
  assumes "\<And>c b. f c (2, b) = c" and "\<And>c b. f c (3, b) = c" and "length e = 32" and "length w = 2"
  shows "foldl f c (enumerate 0 (copy_at 2 w e)) = foldl f c (enumerate 0 e)"
proof -
  have e: "e = take 2 e @ [e ! 2, e ! 3] @ drop 4 e"
    using assms(3) by (simp add: numeral_eq_Suc Cons_nth_drop_Suc id_take_nth_drop [symmetric])
  obtain x y where w: "w = [x, y]" using assms(4) by (auto simp: numeral_eq_Suc length_Suc_conv)
  have "foldl f c (enumerate 0 (take 2 e @ [a, b] @ drop 4 e)) = foldl f (foldl f c (enumerate 0 (take 2 e))) (enumerate 4 (drop 4 e))" for a b c
    using assms by (simp add: enumerate_append_eq numeral_eq_Suc)
  from this [of c x y] this [of c "e ! 2" "e ! 3"] show ?thesis
    using e w by (simp add: copy_at_def)
qed

lemma stored_checksum:
  assumes "length e = 32"
  shows "calculate_entry_set_checksum (copy_at 2 (to_le 2 ck) e # es) = calculate_entry_set_checksum (e # es)"
proof -
  have "foldl (\<lambda>checksum (byte_idx, byte). if (0 :: nat) = 0 \<and> (byte_idx = 2 \<or> byte_idx = 3) then checksum
         else rotate_right1 checksum + ucast byte) 0 (enumerate 0 (copy_at 2 (to_le 2 ck) e)) =
    foldl (\<lambda>checksum (byte_idx, byte). if (0 :: nat) = 0 \<and> (byte_idx = 2 \<or> byte_idx = 3) then checksum
         else rotate_right1 checksum + ucast byte) 0 (enumerate 0 e)"
    by (rule checksum_skips) (simp_all add: assms)
  then show ?thesis by (simp add: calculate_entry_set_checksum_def)
qed

lemma name_pieces_short: "us \<in> set (name_pieces ws) \<Longrightarrow> length us \<le> 15"
  by (auto simp: name_pieces_def)

lemma parsed_names:
  "foldl (\<lambda>acc e. parse_secondary e acc 0) (s, first, sz) (map name_entry (filter (\<lambda>us. length us \<le> 15) pieces)) =
     (s @ concat (map (\<lambda>us. decode_utf16_ok (takeWhile (\<lambda>c. c \<noteq> 0) us)) (filter (\<lambda>us. length us \<le> 15) pieces)), first, sz)"
  by (induction pieces arbitrary: s) (simp_all add: parse_secondary_def entry_types entry_name_part_name_entry)

lemma create_file_entries_facts:
  fixes name first sz d now
  defines "es \<equiv> create_file_entries now name first sz d"
  assumes "length (encode_utf16 name) \<le> 255"
  shows "item_ok (FileSet es)" and "parsed_set es = (stored_name name, first, sz)"
    and "parse_is_directory (hd es) 0 = d" and "length es = 2 + (length (encode_utf16 name) + 14) div 15"
    and "from_le (slice 2 2 (hd es)) = calculate_entry_set_checksum es"
proof -
  let ?ps = "name_pieces (encode_utf16 name)"
  define ck where "ck = calculate_entry_set_checksum (file_entry now (1 + length ?ps) d # stream_entry name first sz # map name_entry ?ps)"
  have es: "es = copy_at 2 (to_le 2 ck) (file_entry now (1 + length ?ps) d) # stream_entry name first sz # map name_entry ?ps"
    by (simp add: es_def create_file_entries_eq ck_def)
  have n: "length ?ps = (length (encode_utf16 name) + 14) div 15" by (simp add: name_pieces_def)
  then show "length es = 2 + (length (encode_utf16 name) + 14) div 15" using es by simp
  have "length ?ps \<le> 17" using n assms(2) by simp
  then have "unat (word_of_nat (1 + length ?ps) :: u8) = 1 + length ?ps" by (subst unat_of_nat) simp
  then show "item_ok (FileSet es)"
    using es name_pieces_short by (auto simp: nth_copy_at entry_types)
  show "from_le (slice 2 2 (hd es)) = calculate_entry_set_checksum es"
    using slice_copy_at_same [of 2 "to_le 2 ck"] by (simp add: es stored_checksum) (simp add: ck_def)
  have all: "filter (\<lambda>us. length us \<le> 15) ?ps = ?ps" using name_pieces_short by (simp add: filter_id_conv)
  have "parse_secondary (stream_entry name first sz) ([], 0, 0) 0 = ([], first, sz)"
    by (simp add: parse_secondary_def)
  then show "parsed_set es = (stored_name name, first, sz)"
    using parsed_names [of "[]" first sz ?ps] es by (simp add: parsed_set_def all stored_name_def)
  have "slice 4 2 (copy_at 2 (to_le 2 ck) (file_entry now (1 + length ?ps) d)) = slice 4 2 (file_entry now (1 + length ?ps) d)"
    by (simp add: slice_copy_at_after)
  then show "parse_is_directory (hd es) 0 = d"
    using es file_entry_facts(4) [of now "1 + length ?ps" d] by (simp add: parse_is_directory_def)
qed

section \<open>Room in a list of items\<close>

definition free_entry :: "bytes \<Rightarrow> bool" where
  "free_entry e \<longleftrightarrow> length e = 32 \<and> slot_is_free (e ! 0)"

lemma free_entry_ok: "free_entry e \<Longrightarrow> item_ok (Entry e)"
  by (auto simp: free_entry_def slot_is_free_def entry_types)

lemma length_free_entries: "\<forall>e \<in> set fs. free_entry e \<Longrightarrow> length (dir_bytes (map Entry fs)) = 32 * length fs"
  by (induction fs) (auto simp: free_entry_def)

lemma length_item_bytes: "item_ok x \<Longrightarrow> 32 \<le> length (item_bytes x)"
  by (cases x) (auto simp: length_concat32 Suc_le_eq)

lemma item_first_byte: "item_ok x \<Longrightarrow> (p @ item_bytes x @ q) ! length p = item_bytes x ! 0"
proof -
  assume "item_ok x"
  then have "0 < length (item_bytes x)" using length_item_bytes [of x] by linarith
  from nth_middle [OF this] show "(p @ item_bytes x @ q) ! length p = item_bytes x ! 0" by (metis add_0_right)
qed

lemma file_not_free: "\<not> slot_is_free ENTRY_TYPE_FILE"
  by (simp add: slot_is_free_def entry_types)

lemma free_slot_loop_file:
  "i + 1 < length d \<Longrightarrow> d ! i = ENTRY_TYPE_FILE \<Longrightarrow>
     free_slot_loop d n i k s = free_slot_loop d n (i + (1 + unat (d ! (i + 1))) * 32) 0 s"
  by (subst free_slot_loop.simps) (simp add: file_not_free)

lemma free_slot_loop_skip:
  "i < length d \<Longrightarrow> \<not> slot_is_free (d ! i) \<Longrightarrow> d ! i \<noteq> ENTRY_TYPE_FILE \<Longrightarrow>
     free_slot_loop d n i k s = free_slot_loop d n (i + 32) 0 s"
  by (subst free_slot_loop.simps) simp

lemma free_slot_loop_free:
  "i < length d \<Longrightarrow> slot_is_free (d ! i) \<Longrightarrow>
     free_slot_loop d n i k s =
       (if k + 1 \<ge> n then SlotFound (if k = 0 then i else s)
        else free_slot_loop d n (i + 32) (k + 1) (if k = 0 then i else s))"
  by (subst free_slot_loop.simps) (simp add: Let_def)

fun item_free :: "dir_item \<Rightarrow> bool" where
  "item_free (Entry e) \<longleftrightarrow> slot_is_free (e ! 0)"
| "item_free (FileSet es) \<longleftrightarrow> False"

definition slot_fits :: "dir_item list \<Rightarrow> nat \<Rightarrow> slot \<Rightarrow> bool" where
  "slot_fits items n r \<longleftrightarrow> (case r of
      SlotFound s \<Rightarrow> \<exists>as fs bs. items = as @ map Entry fs @ bs \<and> length fs = n \<and>
        (\<forall>e \<in> set fs. free_entry e) \<and> s = length (dir_bytes as) \<and> (as = [] \<or> \<not> item_free (last as))
    | SlotNone \<Rightarrow> True | SlotPanic \<Rightarrow> False)"

text \<open>The loop looks for a run of unused entries; \<open>fs\<close> is the run it is in.\<close>

lemma free_slot_loop_items:
  assumes "\<forall>x \<in> set items. item_ok x" and "\<forall>e \<in> set fs. free_entry e" and "length fs < n"
    and "fs \<noteq> [] \<Longrightarrow> s = length (dir_bytes as)" and "as = [] \<or> \<not> item_free (last as)"
  shows "slot_fits (as @ map Entry fs @ items) n
    (free_slot_loop (dir_bytes (as @ map Entry fs @ items)) n (length (dir_bytes (as @ map Entry fs))) (length fs) s)"
  using assms
proof (induction items arbitrary: as fs s)
  case Nil
  then show ?case by (subst free_slot_loop.simps) (simp add: slot_fits_def)
next
  case (Cons x items)
  let ?p = "dir_bytes (as @ map Entry fs)"
  let ?d = "dir_bytes (as @ map Entry fs @ x # items)"
  have d: "?d = ?p @ item_bytes x @ dir_bytes items" by simp
  have x: "item_ok x" "?d ! length ?p = item_bytes x ! 0" "length ?p < length ?d"
    using Cons.prems(1) item_first_byte [of x ?p "dir_bytes items"] length_item_bytes [of x] unfolding d by auto
  have skip: ?case if "\<not> item_free x"
    "free_slot_loop ?d n (length ?p) (length fs) s = free_slot_loop ?d n (length (dir_bytes ((as @ map Entry fs @ [x]) @ map Entry []))) 0 s"
    using Cons.IH [of "[]" s "as @ map Entry fs @ [x]"] Cons.prems(1,3) that by (simp del: dir_bytes_simps)
  show ?case
  proof (cases x)
    case (FileSet es)
    with x(1) have es: "es \<noteq> []" "\<forall>e \<in> set es. length e = 32" "hd es ! 0 = ENTRY_TYPE_FILE" "unat (hd es ! 1) = length es - 1"
      by simp_all
    have hd_es: "concat es = hd es @ concat (tl es)" using es(1) by (cases es) simp_all
    have b1: "?d ! (length ?p + 1) = hd es ! 1"
      using nth_middle [of 1 "hd es" ?p "concat (tl es) @ dir_bytes items"] es hd_es FileSet by simp
    have b0: "item_bytes x ! 0 = ENTRY_TYPE_FILE" using FileSet es hd_es by (simp add: nth_append)
    have len: "length (concat es) = 32 * length es" "0 < length es" using es(1,2) by (simp_all add: length_concat32)
    have "32 \<le> length (concat es)" using len by linarith
    then have "length ?p + 1 < length ?d" using FileSet by simp
    moreover have "(1 + unat (?d ! (length ?p + 1))) * 32 = 32 * length es" using b1 es(4) len(2) by simp
    ultimately have "free_slot_loop ?d n (length ?p) (length fs) s = free_slot_loop ?d n (length ?p + 32 * length es) 0 s"
      using free_slot_loop_file [of "length ?p" ?d n "length fs" s] x(2) b0 by (simp only:)
    moreover have "length (dir_bytes ((as @ map Entry fs @ [x]) @ map Entry [])) = length ?p + 32 * length es"
      using FileSet len(1) by simp
    ultimately show ?thesis
      using FileSet by (intro skip) (simp_all add: add.assoc)
  next
    case (Entry e)
    with x(1) have e: "length e = 32" "e ! 0 \<noteq> ENTRY_TYPE_FILE" by simp_all
    have b0: "?d ! length ?p = e ! 0" using x(2) Entry by simp
    show ?thesis
    proof (cases "slot_is_free (e ! 0)")
      case False
      have "free_slot_loop ?d n (length ?p) (length fs) s = free_slot_loop ?d n (length ?p + 32) 0 s"
        using x(3) b0 e(2) False by (intro free_slot_loop_skip) (simp_all only: simp_thms)
      then show ?thesis using False Entry e by (intro skip) (simp_all add: add.assoc)
    next
      case True
      then have fe: "\<forall>e \<in> set (fs @ [e]). free_entry e" using Cons.prems(2) e by (auto simp: free_entry_def)
      define s' where "s' = (if length fs = 0 then length ?p else s)"
      have s': "s' = length (dir_bytes as)" using Cons.prems(4) by (auto simp: s'_def)
      have step: "free_slot_loop ?d n (length ?p) (length fs) s =
          (if length fs + 1 \<ge> n then SlotFound s' else free_slot_loop ?d n (length ?p + 32) (length fs + 1) s')"
        unfolding s'_def using x(3) b0 True by (intro free_slot_loop_free) (simp_all only:)
      show ?thesis
      proof (cases "length fs + 1 \<ge> n")
        case True
        then have "length (fs @ [e]) = n" "as @ map Entry fs @ x # items = as @ map Entry (fs @ [e]) @ items"
          using Cons.prems(3) Entry by simp_all
        then have "slot_fits (as @ map Entry fs @ x # items) n (SlotFound s')"
          unfolding slot_fits_def slot.case using fe s' Cons.prems(5) by blast
        then show ?thesis using True unfolding step by (simp only: if_True)
      next
        case False
        have IH: "slot_fits (as @ map Entry (fs @ [e]) @ items) n (free_slot_loop (dir_bytes (as @ map Entry (fs @ [e]) @ items)) n
            (length (dir_bytes (as @ map Entry (fs @ [e])))) (length (fs @ [e])) s')"
          using Cons.prems(1,5) fe s' False by (intro Cons.IH) simp_all
        have eq: "as @ map Entry (fs @ [e]) @ items = as @ map Entry fs @ x # items"
          "length (dir_bytes (as @ map Entry (fs @ [e]))) = length ?p + 32" "length (fs @ [e]) = length fs + 1"
          using Entry e by simp_all
        show ?thesis using IH unfolding eq step using False by (simp only: if_False)
      qed
    qed
  qed
qed


lemma free_slot_loop_fits:
  "\<forall>x \<in> set items. item_ok x \<Longrightarrow> 0 < n \<Longrightarrow> slot_fits items n (free_slot_loop (dir_bytes items) n 0 0 0)"
  using free_slot_loop_items [of items "[]" n 0 "[]"] by simp

section \<open>Changing a list of items\<close>

lemma copy_at_append:
  "off + length a + length b \<le> length d \<Longrightarrow> copy_at (off + length a) b (copy_at off a d) = copy_at off (a @ b) d"
  by (cases a) (auto simp: copy_at_def min_def ac_simps)

lemma fold_copy_at:
  "\<forall>e \<in> set es. length e = 32 \<Longrightarrow> off + k * 32 + 32 * length es \<le> length d \<Longrightarrow>
     fold (\<lambda>(i, e) d. copy_at (off + i * 32) e d) (enumerate k es) d = copy_at (off + k * 32) (concat es) d"
proof (induction es arbitrary: k d)
  case Nil
  then show ?case by (simp add: copy_at_def)
next
  case (Cons e es)
  have len: "length (concat es) = 32 * length es" using Cons.prems(1) by (intro length_concat32) simp
  have "fold (\<lambda>(i, e) d. copy_at (off + i * 32) e d) (enumerate (Suc k) es) (copy_at (off + k * 32) e d) =
      copy_at (off + Suc k * 32) (concat es) (copy_at (off + k * 32) e d)"
    using Cons.prems by (intro Cons.IH) simp_all
  also have "\<dots> = copy_at (off + k * 32) (e @ concat es) d"
    using Cons.prems len copy_at_append [of "off + k * 32" e "concat es" d] by (simp add: add.commute add.left_commute)
  finally show ?case by simp
qed

lemma copy_at_middle: "length c = length x \<Longrightarrow> copy_at (length p) c (p @ x @ q) = p @ c @ q"
  by (simp add: copy_at_def)

lemma put_entries_items:
  assumes "\<forall>e \<in> set es. length e = 32" and "\<forall>e \<in> set fs. free_entry e" and "length es = length fs"
  shows "put_entries (length (dir_bytes as)) es (dir_bytes (as @ map Entry fs @ bs)) = Some (dir_bytes (as @ FileSet es # bs))"
  using fold_copy_at [OF assms(1), of "length (dir_bytes as)" 0] length_concat32 [OF assms(1)]
    length_free_entries [OF assms(2)] assms(3) copy_at_middle [of "concat es" "dir_bytes (map Entry fs)"]
  by (simp add: put_entries_def)

fun clear_item :: "dir_item \<Rightarrow> dir_item" where
  "clear_item (Entry e) = Entry (if e ! 0 = ENTRY_TYPE_END then e[0 := 0xFF] else e)"
| "clear_item (FileSet es) = FileSet es"

definition clear_byte :: "nat \<times> u8 \<Rightarrow> u8" where
  "clear_byte ib = (case ib of (i, b) \<Rightarrow> if i mod 32 = 0 \<and> b = ENTRY_TYPE_END then 0xFF else b)"

lemma clear_entry:
  assumes "length e = 32" and "k mod 32 = 0"
  shows "map clear_byte (enumerate k e) = (if e ! 0 = ENTRY_TYPE_END then e[0 := 0xFF] else e)"
proof (rule nth_equalityI)
  fix i assume "i < length (map clear_byte (enumerate k e))"
  then have i: "i < 32" using assms(1) by simp
  then have "(k + i) mod 32 = i" using assms(2) by (simp add: mod_add_left_eq [symmetric])
  then show "map clear_byte (enumerate k e) ! i = (if e ! 0 = ENTRY_TYPE_END then e[0 := 0xFF] else e) ! i"
    using i assms(1) by (auto simp: clear_byte_def nth_enumerate_eq nth_list_update entry_types)
qed simp

lemma clear_entries:
  "\<forall>e \<in> set es. length e = 32 \<and> e ! 0 \<noteq> ENTRY_TYPE_END \<Longrightarrow> k mod 32 = 0 \<Longrightarrow>
     map clear_byte (enumerate k (concat es)) = concat es"
proof (induction es arbitrary: k)
  case (Cons e es)
  have "(k + 32) mod 32 = 0" using Cons.prems(2) by simp
  then show ?case using Cons by (simp add: enumerate_append_eq clear_entry)
qed simp

lemma clear_items:
  "\<forall>x \<in> set items. item_ok x \<Longrightarrow> k mod 32 = 0 \<Longrightarrow>
     map clear_byte (enumerate k (dir_bytes items)) = dir_bytes (map clear_item items)"
proof (induction items arbitrary: k)
  case (Cons x items)
  have "length (item_bytes x) mod 32 = 0" using Cons.prems(1) by (cases x) (simp_all add: length_concat32)
  then have "(k + length (item_bytes x)) mod 32 = 0" using Cons.prems(2) by (metis add.left_neutral mod_add_eq mod_0)
  then have "map clear_byte (enumerate (k + length (item_bytes x)) (dir_bytes items)) = dir_bytes (map clear_item items)"
    using Cons.prems(1) by (intro Cons.IH) simp_all
  moreover have "map clear_byte (enumerate k (item_bytes x)) = item_bytes (clear_item x)"
    using Cons.prems by (cases x) (simp_all add: clear_entry clear_entries)
  ultimately show ?case by (simp add: enumerate_append_eq)
qed simp

lemma clear_end_markers_items:
  "\<forall>x \<in> set items. item_ok x \<Longrightarrow> clear_end_markers (dir_bytes items) = dir_bytes (map clear_item items)"
  using clear_items [of items 0] by (simp add: clear_end_markers_def clear_byte_def [abs_def])

lemma clear_item_ok: "item_ok x \<Longrightarrow> item_ok (clear_item x)"
  by (cases x) (auto simp: entry_types)

lemma length_clear_items: "length (dir_bytes (map clear_item items)) = length (dir_bytes items)"
proof (induction items)
  case (Cons x items)
  then show ?case by (cases x) simp_all
qed simp

end
