(* ===== verification/Exfat_Dir_Spec.thy ===== *)
theory Exfat_Dir_Spec
  imports Exfat_Dir
begin

text \<open>
  Directories above the bytes: a directory is the chain of its clusters, each a list of items
  (\<open>dir_view\<close>), and its files are the entry sets in it, with their positions (\<open>dir_sets\<close>).
  Searching is finding in this list, creating an entry inserts into it, deleting an entry removes
  from it. End markers occur only at the end of the last cluster (\<open>ends_ok\<close>), an invariant of all
  operations.
\<close>

section \<open>The view of a directory\<close>

type_synonym dir_clusters = "(u32 \<times> dir_item list) list"

fun is_end :: "dir_item \<Rightarrow> bool" where
  "is_end (Entry e) \<longleftrightarrow> e ! 0 = ENTRY_TYPE_END"
| "is_end (FileSet es) \<longleftrightarrow> False"

fun tail_ends :: "dir_item list \<Rightarrow> bool" where
  "tail_ends [] \<longleftrightarrow> True"
| "tail_ends (x # xs) \<longleftrightarrow> (if is_end x then \<forall>y \<in> set xs. is_end y else tail_ends xs)"

fun ends_ok :: "dir_clusters \<Rightarrow> bool" where
  "ends_ok [] \<longleftrightarrow> True"
| "ends_ok [(c, items)] \<longleftrightarrow> tail_ends items"
| "ends_ok ((c, items) # d # ds) \<longleftrightarrow> (\<forall>x \<in> set items. \<not> is_end x) \<and> ends_ok (d # ds)"

definition clusters_ok :: "volume \<Rightarrow> dir_clusters \<Rightarrow> bool" where
  "clusters_ok v css \<longleftrightarrow> (\<forall>(c, items) \<in> set css.
     in_heap (v_count v) c \<and> c \<noteq> 2 \<and> v_data v c = dir_bytes items \<and> (\<forall>x \<in> set items. item_ok x))"

definition dir_view :: "volume \<Rightarrow> u32 \<Rightarrow> dir_clusters \<Rightarrow> bool" where
  "dir_view v dir css \<longleftrightarrow> css \<noteq> [] \<and> chain_from (v_fat v) dir (map fst css) \<and> ends_ok css \<and> clusters_ok v css"

lemma clusters_ok_simps [simp]:
  "clusters_ok v []"
  "clusters_ok v ((c, items) # css) \<longleftrightarrow>
     in_heap (v_count v) c \<and> c \<noteq> 2 \<and> v_data v c = dir_bytes items \<and> (\<forall>x \<in> set items. item_ok x) \<and> clusters_ok v css"
  "clusters_ok v (xs @ ys) \<longleftrightarrow> clusters_ok v xs \<and> clusters_ok v ys"
  by (auto simp: clusters_ok_def)

lemma clusters_ok_cong:
  "clusters_ok v css \<Longrightarrow> v_count v' = v_count v \<Longrightarrow> (\<And>c. c \<in> fst ` set css \<Longrightarrow> v_data v' c = v_data v c) \<Longrightarrow> clusters_ok v' css"
  by (induction css) auto

lemma clusters_ok_update:
  "clusters_ok v css \<Longrightarrow> c \<notin> fst ` set css \<Longrightarrow> clusters_ok (v\<lparr>v_data := (v_data v)(c := d)\<rparr>) css"
  by (rule clusters_ok_cong) auto

text \<open>The entry sets with the cluster and the offset they start at.\<close>

fun item_sets :: "u32 \<Rightarrow> nat \<Rightarrow> dir_item list \<Rightarrow> (u32 \<times> nat \<times> bytes list) list" where
  "item_sets c off [] = []"
| "item_sets c off (Entry e # items) = item_sets c (off + length e) items"
| "item_sets c off (FileSet es # items) = (c, off, es) # item_sets c (off + length (concat es)) items"

definition dir_sets :: "dir_clusters \<Rightarrow> (u32 \<times> nat \<times> bytes list) list" where
  "dir_sets css = concat (map (\<lambda>(c, items). item_sets c 0 items) css)"

definition set_name :: "bytes list \<Rightarrow> rstr" where
  "set_name es = fst (parsed_set es)"

definition location :: "u32 \<times> nat \<times> bytes list \<Rightarrow> file_entry_location" where
  "location s = (case s of (c, off, es) \<Rightarrow> case parsed_set es of (name, first, len) \<Rightarrow>
     \<lparr>directory_cluster = c, entry_offset = word_of_nat off, loc_first_cluster = first, data_length = len,
      secondary_count = word_of_nat (length es - 1), is_directory = parse_is_directory (hd es) 0\<rparr>)"

definition lookup :: "(rstr \<Rightarrow> rstr) \<Rightarrow> rstr \<Rightarrow> (u32 \<times> nat \<times> bytes list) list \<Rightarrow> file_entry_location option" where
  "lookup lower target sets = map_option location (List.find (\<lambda>(c, off, es). lower (set_name es) = target) sets)"

lemma item_sets_append: "item_sets c off (xs @ ys) = item_sets c off xs @ item_sets c (off + length (dir_bytes xs)) ys"
  by (induction c off xs rule: item_sets.induct) (simp_all add: add.assoc)

lemma item_sets_entries: "item_sets c off (map Entry fs) = []"
  by (induction fs arbitrary: off) simp_all

lemma item_sets_ends: "\<forall>x \<in> set items. is_end x \<Longrightarrow> item_sets c off items = []"
proof (induction items arbitrary: off)
  case (Cons x items)
  then show ?case by (cases x) simp_all
qed simp

lemma dir_sets_simps [simp]:
  "dir_sets [] = []" "dir_sets ((c, items) # css) = item_sets c 0 items @ dir_sets css"
  "dir_sets (xs @ ys) = dir_sets xs @ dir_sets ys"
  by (simp_all add: dir_sets_def)

lemma find_append: "List.find P (xs @ ys) = (case List.find P xs of None \<Rightarrow> List.find P ys | Some x \<Rightarrow> Some x)"
  by (induction xs) auto

lemma lookup_append:
  "lookup lower t (xs @ ys) = (case lookup lower t xs of None \<Rightarrow> lookup lower t ys | Some l \<Rightarrow> Some l)"
  by (simp add: lookup_def find_append split: option.split)

lemma lookup_simps [simp]:
  "lookup lower t [] = None"
  "lookup lower t ((c, off, es) # sets) = (if lower (set_name es) = t then Some (location (c, off, es)) else lookup lower t sets)"
  by (simp_all add: lookup_def)

section \<open>Searching\<close>

lemma find_items_lookup:
  assumes "\<forall>x \<in> set items. item_ok x" and "tail_ends items"
  shows "find_items lower t c off items = (case lookup lower t (item_sets c off items) of
      Some l \<Rightarrow> ScanFound l | None \<Rightarrow> if \<exists>x \<in> set items. is_end x then ScanEnd else ScanNext)"
  using assms
proof (induction items arbitrary: off)
  case (Cons x items)
  show ?case
  proof (cases x)
    case (Entry e)
    show ?thesis
    proof (cases "is_end x")
      case True
      then have "item_sets c (off + length e) items = []" using Cons.prems(2) by (intro item_sets_ends) simp
      then show ?thesis using True Entry by simp
    next
      case False
      then have "tail_ends items" using Cons.prems(2) by simp
      with Cons.IH [of "off + 32"] Cons.prems(1) False Entry show ?thesis by (simp split: option.split)
    qed
  next
    case (FileSet es)
    then have len: "length (concat es) = 32 * length es" using Cons.prems(1) by (intro length_concat32) simp
    have "tail_ends items" using Cons.prems(2) FileSet by simp
    with Cons.IH [of "off + 32 * length es"] Cons.prems(1) FileSet len show ?thesis
      by (auto simp: set_name_def location_def split: option.split prod.split)
  qed
qed simp

lemma no_end_tail_ends: "\<forall>x \<in> set items. \<not> is_end x \<Longrightarrow> tail_ends items"
  by (induction items) auto

lemma read_cluster_vol:
  "fs_ok fs \<Longrightarrow> in_heap (v_count (vol fs)) c \<Longrightarrow> v_data (vol fs) c = d \<Longrightarrow> read_cluster c fs = (Inr d, fs)"
  by (simp add: read_cluster_ok)

lemma find_in_clusters_lookup:
  assumes "fs_ok fs" and "ends_ok css" and "clusters_ok (vol fs) css"
  shows "yields (find_in_clusters lower t (map fst css)) fs (Inr (lookup lower t (dir_sets css))) (vol fs)"
  using assms(2,3)
proof (induction css rule: ends_ok.induct)
  case 1
  then show ?case using assms(1) by simp
next
  case (2 c items)
  have r: "read_cluster c fs = (Inr (dir_bytes items), fs)"
    by (rule read_cluster_vol [OF assms(1)]) (use 2(2) in auto)
  have "find_in_cluster lower t c (dir_bytes items) 0 = find_items lower t c 0 items"
    using 2(2) find_in_cluster_items [of items lower t c "[]"] by simp
  then show ?case
    using r assms(1) 2 find_items_lookup [of items lower t c 0]
    by (simp add: yields_def bindE_def returnE_def split: option.split)
next
  case (3 c items d ds)
  have r: "read_cluster c fs = (Inr (dir_bytes items), fs)"
    by (rule read_cluster_vol [OF assms(1)]) (use 3(3) in auto)
  have "find_in_cluster lower t c (dir_bytes items) 0 = find_items lower t c 0 items"
    using 3(3) find_in_cluster_items [of items lower t c "[]"] by simp
  moreover have "tail_ends items" "\<not> (\<exists>x \<in> set items. is_end x)" using 3(2) no_end_tail_ends by auto
  ultimately have f: "find_in_cluster lower t c (dir_bytes items) 0 =
      (case lookup lower t (item_sets c 0 items) of Some l \<Rightarrow> ScanFound l | None \<Rightarrow> ScanNext)"
    using 3(3) find_items_lookup [of items lower t c 0] by simp
  have IH: "yields (find_in_clusters lower t (map fst (d # ds))) fs (Inr (lookup lower t (dir_sets (d # ds)))) (vol fs)"
    using 3(2,3) by (intro 3(1)) auto
  show ?case
  proof (cases "lookup lower t (item_sets c 0 items)")
    case None
    then show ?thesis
      using r f IH by (simp add: yields_def bindE_def lookup_append del: lookup_simps)
  next
    case (Some l)
    then show ?thesis
      using r f assms(1) by (simp add: yields_def bindE_def lookup_append returnE_def)
  qed
qed

lemma dir_view_chain:
  "dir_view v dir css \<Longrightarrow> \<forall>c \<in> set (map fst css). in_heap (v_count v) c"
  by (auto simp: dir_view_def clusters_ok_def)

lemma find_entry_ok:
  assumes "fs_ok fs" and "dir_view (vol fs) dir css"
  shows "yields (find_entry_in_directory lower dir name) fs (Inr (lookup lower (lower name) (dir_sets css))) (vol fs)"
  unfolding find_entry_in_directory_def
proof (rule yields_bind [OF read_cluster_chain_ok [OF assms(1) _ dir_view_chain [OF assms(2)]]])
  show "chain_from (v_fat (vol fs)) dir (map fst css)" using assms(2) by (simp add: dir_view_def)
  fix fs' assume fs': "fs_ok fs'" "vol fs' = vol fs"
  have "ends_ok css" "clusters_ok (vol fs') css" using assms(2) fs'(2) by (simp_all add: dir_view_def)
  then show "yields (find_in_clusters lower (lower name) (map fst css)) fs' (Inr (lookup lower (lower name) (dir_sets css))) (vol fs)"
    using find_in_clusters_lookup [OF fs'(1), of css lower "lower name"] unfolding fs'(2) by blast
qed

section \<open>Finding room\<close>

definition slot_in :: "dir_clusters \<Rightarrow> nat \<Rightarrow> u32 \<Rightarrow> u32 \<Rightarrow> bool" where
  "slot_in css n c s \<longleftrightarrow> (\<exists>l as es bs r. css = l @ (c, as @ map Entry es @ bs) # r \<and> length es = n \<and>
     (\<forall>e \<in> set es. free_entry e) \<and> unat s = length (dir_bytes as) \<and> (as = [] \<or> \<not> item_free (last as)))"

lemma slot_in_Cons: "slot_in css n c s \<Longrightarrow> slot_in (d # css) n c s"
  unfolding slot_in_def by (metis append_Cons)

lemma find_slot_ok:
  assumes "fs_ok fs" and "0 < n"
    and "clusters_ok (vol fs) css"
  shows "\<exists>r. yields (find_slot_in_clusters n (map fst css)) fs (Inr r) (vol fs) \<and>
    (case r of None \<Rightarrow> True | Some (c, s) \<Rightarrow> slot_in css n c s)"
  using assms(3)
proof (induction css)
  case Nil
  then show ?case using assms(1) by simp
next
  case (Cons d css)
  obtain c items where d: "d = (c, items)" by (cases d)
  have heap: "in_heap (v_count (vol fs)) c" and data: "v_data (vol fs) c = dir_bytes items"
    and ok: "\<forall>x \<in> set items. item_ok x" using Cons.prems d by auto
  have r: "read_cluster c fs = (Inr (dir_bytes items), fs)" by (rule read_cluster_vol [OF assms(1) heap data])
  have len: "length (dir_bytes items) < 2 ^ 32"
    using length_cluster_at [of fs c] heap data assms(1) unsigned_less [of "cluster_size fs", where 'a = nat]
    by (simp add: fs_ok_def)
  have fits: "slot_fits items n (free_slot_loop (dir_bytes items) n 0 0 0)"
    using ok assms(2) by (rule free_slot_loop_fits)
  obtain q where IH: "yields (find_slot_in_clusters n (map fst css)) fs (Inr q) (vol fs)"
    "case q of None \<Rightarrow> True | Some (c, s) \<Rightarrow> slot_in css n c s" using Cons.IH Cons.prems unfolding d clusters_ok_simps by blast
  show ?case
  proof (cases "free_slot_loop (dir_bytes items) n 0 0 0")
    case (SlotFound s)
    with fits obtain as es bs where i: "items = as @ map Entry es @ bs" "length es = n" "\<forall>e \<in> set es. free_entry e"
      "s = length (dir_bytes as)" "as = [] \<or> \<not> item_free (last as)" by (auto simp: slot_fits_def)
    have "unat (word_of_nat s :: u32) = s" using len i(1,4) by (simp add: unat_of_nat)
    then have "slot_in (d # css) n c (word_of_nat s)"
      unfolding slot_in_def using i d by (metis append_Nil)
    moreover have "yields (find_slot_in_clusters n (map fst (d # css))) fs (Inr (Some (c, word_of_nat s))) (vol fs)"
      using r SlotFound d assms(1) by (simp add: yields_def bindE_def returnE_def)
    ultimately show ?thesis by (intro exI [of _ "Some (c, word_of_nat s)"]) simp
  next
    case SlotNone
    then have "yields (find_slot_in_clusters n (map fst (d # css))) fs (Inr q) (vol fs)"
      using r IH(1) d by (simp add: yields_def bindE_def)
    moreover have "case q of None \<Rightarrow> True | Some (c, s) \<Rightarrow> slot_in (d # css) n c s"
      using IH(2) slot_in_Cons [of css n _ _ d] by (auto split: option.splits)
    ultimately show ?thesis by blast
  next
    case SlotPanic
    with fits show ?thesis by (simp add: slot_fits_def)
  qed
qed

section \<open>Updating a view\<close>

lemma is_end_free: "is_end x \<Longrightarrow> item_free x"
  by (cases x) (simp_all add: slot_is_free_def)

lemma tail_ends_append_no_end: "\<forall>x \<in> set xs. \<not> is_end x \<Longrightarrow> tail_ends (xs @ ys) = tail_ends ys"
  by (induction xs) auto

lemma tail_ends_append2: "tail_ends (xs @ ys) \<Longrightarrow> tail_ends ys"
proof (induction xs)
  case (Cons x xs)
  have "\<forall>y \<in> set ys. is_end y \<Longrightarrow> tail_ends ys" by (induction ys) auto
  with Cons show ?case by (auto split: if_splits)
qed simp

lemma tail_ends_prefix:
  assumes "tail_ends (xs @ ys)" and "xs = [] \<or> \<not> item_free (last xs)"
  shows "\<forall>x \<in> set xs. \<not> is_end x"
proof (rule ccontr)
  assume "\<not> (\<forall>x \<in> set xs. \<not> is_end x)"
  then obtain a x b where xs: "xs = a @ x # b" "is_end x" by (metis split_list)
  have "tail_ends (x # b @ ys)" using assms(1) xs(1) tail_ends_append2 [of a "x # b @ ys"] by simp
  then have "\<forall>y \<in> set (x # b). is_end y" using xs(2) by auto
  then have "is_end (last (x # b))" by (metis last_in_set list.distinct(1))
  moreover have "last xs = last (x # b)" using xs(1) by simp
  ultimately show False using assms(2) xs(1) is_end_free by (metis append_is_Nil_conv list.distinct(1))
qed

lemma ends_ok_replace:
  assumes "ends_ok (l @ (c, as @ map Entry es @ bs) # r)" and "as = [] \<or> \<not> item_free (last as)"
    and "\<not> is_end y"
  shows "ends_ok (l @ (c, as @ y # bs) # r)"
  using assms(1)
proof (induction l)
  case Nil
  show ?case
  proof (cases r)
    case Nil
    with \<open>ends_ok ([] @ _)\<close> have t: "tail_ends (as @ map Entry es @ bs)" by simp
    then have "\<forall>x \<in> set as. \<not> is_end x" using assms(2) by (rule tail_ends_prefix)
    moreover have "tail_ends bs" using tail_ends_append2 [of "as @ map Entry es" bs] t by simp
    ultimately show ?thesis using Nil assms(3) by (simp add: tail_ends_append_no_end)
  next
    case (Cons d ds)
    then show ?thesis using \<open>ends_ok ([] @ _)\<close> assms(3) by auto
  qed
next
  case (Cons d l)
  obtain c' i where d: "d = (c', i)" by (cases d)
  show ?case
  proof (cases l)
    case Nil
    then show ?thesis using Cons d by simp
  next
    case (Cons e ls)
    then show ?thesis using Cons.IH Cons.prems d by simp
  qed
qed

lemma dir_view_update:
  assumes "dir_view v dir (l @ (c, old) # r)" and "\<forall>x \<in> set new. item_ok x" and "ends_ok (l @ (c, new) # r)"
  shows "dir_view (v\<lparr>v_data := (v_data v)(c := dir_bytes new)\<rparr>) dir (l @ (c, new) # r)"
proof -
  have "distinct (map fst (l @ (c, old) # r))"
    using assms(1) chain_from_distinct unfolding dir_view_def by blast
  then have "c \<notin> fst ` set l" "c \<notin> fst ` set r" by auto
  then show ?thesis using assms by (auto simp: dir_view_def clusters_ok_update)
qed

text \<open>One more entry set, somewhere; offsets are those of a cluster.\<close>

definition entry_added :: "dir_clusters \<Rightarrow> dir_clusters \<Rightarrow> bytes list \<Rightarrow> bool" where
  "entry_added css css' es \<longleftrightarrow> (\<exists>xs ys c off. dir_sets css = xs @ ys \<and> dir_sets css' = xs @ (c, off, es) # ys \<and>
     c \<in> set (map fst css'))"

lemma entry_addedI:
  "dir_sets css = xs @ ys \<Longrightarrow> dir_sets css' = xs @ (c, off, es) # ys \<Longrightarrow> c \<in> set (map fst css') \<Longrightarrow> entry_added css css' es"
  unfolding entry_added_def by blast

lemma put_slot_ok:
  assumes "fs_ok fs" and "dir_view (vol fs) dir css" and "slot_in css (length es) c s" and "item_ok (FileSet es)"
  shows "\<exists>css' d. yields (bindE (read_cluster c) (\<lambda>data. case put_entries (unat s) es data of
        None \<Rightarrow> throwE Panic | Some data \<Rightarrow> write_cluster c data)) fs (Inr ())
      (vol fs\<lparr>v_data := (v_data (vol fs))(c := d)\<rparr>) \<and>
    dir_view (vol fs\<lparr>v_data := (v_data (vol fs))(c := d)\<rparr>) dir css' \<and> entry_added css css' es \<and>
    map fst css' = map fst css \<and> c \<in> set (map fst css)"
proof -
  obtain l as es' bs r where css: "css = l @ (c, as @ map Entry es' @ bs) # r" "length es' = length es"
    "\<forall>e \<in> set es'. free_entry e" "unat s = length (dir_bytes as)" "as = [] \<or> \<not> item_free (last as)"
    using assms(3) unfolding slot_in_def by blast
  let ?old = "as @ map Entry es' @ bs" and ?new = "as @ FileSet es # bs"
  let ?d = "dir_bytes ?new"
  have view: "in_heap (v_count (vol fs)) c" "c \<noteq> 2" "v_data (vol fs) c = dir_bytes ?old" "\<forall>x \<in> set ?old. item_ok x"
    "ends_ok css" using assms(2) unfolding dir_view_def css(1) by auto
  have es32: "\<forall>e \<in> set es. length e = 32" using assms(4) by simp
  have len: "length ?d = unat (cluster_size fs)"
    using length_cluster_at [of fs c] view(1,3) assms(1) css(2,3) length_free_entries [of es'] length_concat32 [OF es32]
    by (simp add: fs_ok_def)
  have put: "put_entries (unat s) es (dir_bytes ?old) = Some ?d"
    unfolding css(4) using es32 css(2,3) by (intro put_entries_items) simp_all
  have "yields (write_cluster c ?d) fs (Inr ()) (vol fs\<lparr>v_data := (v_data (vol fs))(c := ?d)\<rparr>)"
    using write_cluster_ok [OF assms(1), of c ?d] view(1,2) len by simp
  then have y: "yields (bindE (read_cluster c) (\<lambda>data. case put_entries (unat s) es data of
        None \<Rightarrow> throwE Panic | Some data \<Rightarrow> write_cluster c data)) fs (Inr ()) (vol fs\<lparr>v_data := (v_data (vol fs))(c := ?d)\<rparr>)"
    using read_cluster_vol [OF assms(1) view(1,3)] put by (simp only: yields_def bindE_def prod.case sum.case option.case)
  have "dir_view (vol fs\<lparr>v_data := (v_data (vol fs))(c := ?d)\<rparr>) dir (l @ (c, ?new) # r)"
    using assms(2) view(4,5) assms(4) css(1,5) by (intro dir_view_update ends_ok_replace) auto
  moreover have "entry_added css (l @ (c, ?new) # r) es"
  proof -
    have "dir_sets css = (dir_sets l @ item_sets c 0 as) @ item_sets c (length (dir_bytes (as @ map Entry es'))) bs @ dir_sets r"
      using css(1) by (simp add: item_sets_append item_sets_entries)
    moreover have "dir_sets (l @ (c, ?new) # r) = (dir_sets l @ item_sets c 0 as) @ (c, length (dir_bytes as), es) #
        item_sets c (length (dir_bytes (as @ map Entry es'))) bs @ dir_sets r"
      using css(2,3) length_free_entries [of es'] length_concat32 [OF es32] by (simp add: item_sets_append)
    ultimately show ?thesis by (rule entry_addedI) simp
  qed
  ultimately show ?thesis using y css(1)
    by (intro exI [of _ "l @ (c, ?new) # r"] exI [of _ ?d]) simp
qed

section \<open>Extending a directory\<close>

lemma clear_loop_ok:
  assumes "fs_ok fs" and "distinct (map fst css)"
    and "clusters_ok (vol fs) css"
  shows "yields (forE (map fst css) (\<lambda>c. bindE (read_cluster c) (\<lambda>d. write_cluster c (clear_end_markers d)))) fs (Inr ())
    (vol fs\<lparr>v_data := (\<lambda>c. case map_of css c of Some items \<Rightarrow> dir_bytes (map clear_item items) | None \<Rightarrow> v_data (vol fs) c)\<rparr>)"
  using assms
proof (induction css arbitrary: fs)
  case (Cons p css)
  obtain c items where p: "p = (c, items)" by (cases p)
  have heap: "in_heap (v_count (vol fs)) c" "c \<noteq> 2" and data: "v_data (vol fs) c = dir_bytes items"
    and ok: "\<forall>x \<in> set items. item_ok x" using Cons.prems p by auto
  let ?d = "dir_bytes (map clear_item items)"
  have len: "length ?d = unat (cluster_size fs)"
    using length_cluster_at [of fs c] heap data Cons.prems(1) by (simp add: fs_ok_def length_clear_items)
  have "yields (write_cluster c ?d) fs (Inr ()) (vol fs\<lparr>v_data := (v_data (vol fs))(c := ?d)\<rparr>)"
    using write_cluster_ok [OF Cons.prems(1), of c ?d] heap len by simp
  then have w: "yields (bindE (read_cluster c) (\<lambda>d. write_cluster c (clear_end_markers d))) fs (Inr ())
      (vol fs\<lparr>v_data := (v_data (vol fs))(c := ?d)\<rparr>)"
    using read_cluster_vol [OF Cons.prems(1) heap(1) data] clear_end_markers_items [OF ok]
    by (simp only: yields_def bindE_def prod.case sum.case)
  show ?case
    unfolding list.map forE.simps p fst_conv
  proof (rule yields_bind [OF w])
    fix fs' assume fs': "fs_ok fs'" "vol fs' = vol fs\<lparr>v_data := (v_data (vol fs))(c := ?d)\<rparr>"
    have notin: "c \<notin> fst ` set css" using Cons.prems(2) p by auto
    have "clusters_ok (vol fs') css"
      unfolding fs'(2) using Cons.prems(3) notin p by (simp add: clusters_ok_update)
    then have IH: "yields (forE (map fst css) (\<lambda>c. bindE (read_cluster c) (\<lambda>d. write_cluster c (clear_end_markers d)))) fs' (Inr ())
      (vol fs'\<lparr>v_data := (\<lambda>c. case map_of css c of Some items \<Rightarrow> dir_bytes (map clear_item items) | None \<Rightarrow> v_data (vol fs') c)\<rparr>)"
      using Cons.prems(2) fs'(1) by (intro Cons.IH) auto
    have "map_of css c = None" using notin by (simp add: map_of_eq_None_iff)
    then have "vol fs'\<lparr>v_data := (\<lambda>c. case map_of css c of Some items \<Rightarrow> dir_bytes (map clear_item items) | None \<Rightarrow> v_data (vol fs') c)\<rparr> =
      vol fs\<lparr>v_data := (\<lambda>x. case map_of ((c, items) # css) x of Some items \<Rightarrow> dir_bytes (map clear_item items) | None \<Rightarrow> v_data (vol fs) x)\<rparr>"
      unfolding fs'(2) by (auto simp: fun_eq_iff split: option.split)
    with IH show "yields (forE (map fst css) (\<lambda>c. bindE (read_cluster c) (\<lambda>d. write_cluster c (clear_end_markers d)))) fs' (Inr ())
      (vol fs\<lparr>v_data := (\<lambda>x. case map_of ((c, items) # css) x of Some items \<Rightarrow> dir_bytes (map clear_item items) | None \<Rightarrow> v_data (vol fs) x)\<rparr>)"
      by simp
  qed
qed simp

definition empty_cluster :: "nat \<Rightarrow> dir_item list" where
  "empty_cluster sz = map Entry (replicate (sz div 32) (replicate 32 0))"

lemma empty_cluster_bytes: "sz mod 32 = 0 \<Longrightarrow> dir_bytes (empty_cluster sz) = replicate sz 0"
proof -
  have "dir_bytes (map Entry (replicate k (replicate 32 0))) = replicate (32 * k) 0" for k
    by (induction k) (simp_all flip: replicate_add)
  then show "sz mod 32 = 0 \<Longrightarrow> ?thesis" using div_mult_mod_eq [of sz 32] by (simp add: empty_cluster_def mult.commute)
qed

lemma empty_cluster_items: "x \<in> set (empty_cluster sz) \<Longrightarrow> item_ok x \<and> is_end x"
  by (auto simp: empty_cluster_def entry_types)

lemma tail_ends_all: "\<forall>x \<in> set xs. is_end x \<Longrightarrow> tail_ends xs"
  by (cases xs) auto

lemma clear_item_no_end: "item_ok x \<Longrightarrow> \<not> is_end (clear_item x)"
  by (cases x) (auto simp: entry_types)

lemma ends_ok_snoc: "\<forall>(c, items) \<in> set css. \<forall>x \<in> set items. \<not> is_end x \<Longrightarrow> tail_ends items' \<Longrightarrow> ends_ok (css @ [(c', items')])"
proof (induction css)
  case (Cons d css)
  then show ?case by (cases css; cases d) auto
qed simp

lemma item_sets_clear: "\<forall>x \<in> set items. item_ok x \<Longrightarrow> item_sets c off (map clear_item items) = item_sets c off items"
proof (induction items arbitrary: off)
  case (Cons x items)
  then show ?case by (cases x) auto
qed simp

definition cleared_clusters :: "dir_clusters \<Rightarrow> dir_clusters" where
  "cleared_clusters css = map (\<lambda>(c, items). (c, map clear_item items)) css"

lemma cleared_clusters_facts:
  "map fst (cleared_clusters css) = map fst css"
  "clusters_ok v css \<Longrightarrow> dir_sets (cleared_clusters css) = dir_sets css"
  "clusters_ok v css \<Longrightarrow> \<forall>(c, items) \<in> set (cleared_clusters css). \<forall>x \<in> set items. \<not> is_end x"
proof -
  show "map fst (cleared_clusters css) = map fst css" by (induction css) (auto simp: cleared_clusters_def)
  show "clusters_ok v css \<Longrightarrow> dir_sets (cleared_clusters css) = dir_sets css"
    by (induction css) (auto simp: cleared_clusters_def item_sets_clear)
  show "clusters_ok v css \<Longrightarrow> \<forall>(c, items) \<in> set (cleared_clusters css). \<forall>x \<in> set items. \<not> is_end x"
    by (fastforce simp: cleared_clusters_def clusters_ok_def clear_item_no_end)
qed

definition cleared_data :: "dir_clusters \<Rightarrow> (u32 \<Rightarrow> bytes) \<Rightarrow> u32 \<Rightarrow> bytes" where
  "cleared_data css f c = (case map_of css c of Some items \<Rightarrow> dir_bytes (map clear_item items) | None \<Rightarrow> f c)"

lemma cleared_data_other: "c \<notin> set (map fst css) \<Longrightarrow> cleared_data css f c = f c"
  by (force simp: cleared_data_def dest: map_of_SomeD split: option.split)

lemma clusters_ok_cleared:
  assumes "clusters_ok v css" and "distinct (map fst css)" and "v_count v' = v_count v"
    and "\<And>c. c \<in> set (map fst css) \<Longrightarrow> v_data v' c = cleared_data css f c"
  shows "clusters_ok v' (cleared_clusters css)"
proof -
  have "in_heap (v_count v') c \<and> c \<noteq> 2 \<and> v_data v' c = dir_bytes (map clear_item items) \<and> (\<forall>x \<in> set (map clear_item items). item_ok x)"
    if "(c, items) \<in> set css" for c items
  proof -
    have "c \<in> set (map fst css)" using that by force
    moreover have "map_of css c = Some items" using assms(2) that by simp
    ultimately show ?thesis using assms that by (auto simp: clusters_ok_def cleared_data_def clear_item_ok)
  qed
  then show ?thesis by (auto simp: clusters_ok_def cleared_clusters_def)
qed

lemma extend_directory_ok:
  assumes "fs_ok fs" and view: "dir_view (vol fs) dir css" and free: "free_list (vol fs) = x # xs"
    and "x \<notin> set (map fst css)" and sz: "v_cluster_size (vol fs) mod 32 = 0"
  defines "v' \<equiv> vol fs\<lparr>v_fat := (v_fat (vol fs))(x := FAT_ENTRY_END_OF_CHAIN, last (map fst css) := x),
      v_data := cleared_data css ((v_data (vol fs))(2 := mark True [x] (v_data (vol fs) 2), x := replicate (v_cluster_size (vol fs)) 0))\<rparr>"
    and "css' \<equiv> cleared_clusters css @ [(x, empty_cluster (v_cluster_size (vol fs)))]"
  shows "yields (extend_directory dir) fs (Inr (x, 0)) v'" and "dir_view v' dir css'"
proof -
  let ?v = "vol fs" and ?cs = "map fst css"
  have chain: "chain_from (v_fat ?v) dir ?cs" "css \<noteq> []" "clusters_ok ?v css" "?cs \<noteq> []"
    using view by (simp_all add: dir_view_def)
  have x: "in_heap (v_count ?v) x" "2 < unat x" using free_list_ok(2) [OF assms(1), of x] free by simp_all
  have "x \<noteq> 2" using x(2) by auto
  have dist: "distinct (?cs @ [x])" using chain_from_distinct [OF chain(1)] assms(4) by simp
  have below: "2 \<le> x" "x < 0xFFFFFFF8" using heap_below [of fs x] x assms(1) by (simp_all add: fs_ok_def)
  have chain': "chain_from ((v_fat ?v)(x := FAT_ENTRY_END_OF_CHAIN, last ?cs := x)) dir (?cs @ [x])"
    using chain_from_snoc [OF chain(1,4) dist below] .
  have ext: "yields (extend_cluster_chain dir) fs (Inr x) (extended_volume (last ?cs) x ?v)"
    using extend_cluster_chain_ok [OF assms(1) chain(1) dir_view_chain [OF view] chain(4) free] .
  have ev: "v_count (extended_volume (last ?cs) x ?v) = v_count ?v"
    "v_fat (extended_volume (last ?cs) x ?v) = (v_fat ?v)(x := FAT_ENTRY_END_OF_CHAIN, last ?cs := x)"
    "v_data (extended_volume (last ?cs) x ?v) = (v_data ?v)(2 := mark True [x] (v_data ?v 2), x := replicate (v_cluster_size ?v) 0)"
    by (simp_all add: extended_volume_def)
  have ok1: "clusters_ok (extended_volume (last ?cs) x ?v) css"
    using chain(3)
  proof (rule clusters_ok_cong)
    fix c assume "c \<in> fst ` set css"
    moreover from this have "c \<noteq> 2" using chain(3) by (auto simp: clusters_ok_def)
    ultimately show "v_data (extended_volume (last ?cs) x ?v) c = v_data ?v c" using assms(4) ev(3) by auto
  qed (rule ev(1))
  have loop: "yields (forE ?cs (\<lambda>c. bindE (read_cluster c) (\<lambda>d. write_cluster c (clear_end_markers d)))) fs' (Inr ()) v'"
    if "fs_ok fs'" "vol fs' = extended_volume (last ?cs) x ?v" for fs'
  proof -
    have "distinct ?cs" using dist by simp
    moreover have "clusters_ok (vol fs') css" unfolding that(2) by (rule ok1)
    ultimately have "yields (forE ?cs (\<lambda>c. bindE (read_cluster c) (\<lambda>d. write_cluster c (clear_end_markers d)))) fs' (Inr ())
        (vol fs'\<lparr>v_data := cleared_data css (v_data (vol fs'))\<rparr>)"
      using clear_loop_ok [OF that(1), of css] by (simp add: cleared_data_def [abs_def])
    moreover have "vol fs'\<lparr>v_data := cleared_data css (v_data (vol fs'))\<rparr> = v'"
      unfolding that(2) v'_def by (simp add: extended_volume_def)
    ultimately show ?thesis by simp
  qed
  show "yields (extend_directory dir) fs (Inr (x, 0)) v'"
    unfolding extend_directory_def
  proof (rule yields_bind [OF ext])
    fix fs1 assume fs1: "fs_ok fs1" "vol fs1 = extended_volume (last ?cs) x ?v"
    have "chain_from (v_fat (vol fs1)) dir (?cs @ [x])" unfolding fs1(2) ev(2) by (rule chain')
    moreover have "\<forall>c \<in> set (?cs @ [x]). in_heap (v_count (vol fs1)) c"
      unfolding fs1(2) ev(1) using dir_view_chain [OF view] x(1) by simp
    ultimately have r: "yields (read_cluster_chain dir) fs1 (Inr (?cs @ [x])) (vol fs1)"
      by (rule read_cluster_chain_ok [OF fs1(1)])
    show "yields (bindE (read_cluster_chain dir) (\<lambda>dir_clusters_before.
       if dir_clusters_before = [] then throwE Panic
       else bindE (forE (butlast dir_clusters_before) (\<lambda>cluster.
           bindE (read_cluster cluster) (\<lambda>data. write_cluster cluster (clear_end_markers data)))) (\<lambda>_.
         returnE (x, 0)))) fs1 (Inr (x, 0)) v'"
    proof (rule yields_bind [OF r])
      fix fs2 assume fs2: "fs_ok fs2" "vol fs2 = vol fs1"
      have "vol fs2 = extended_volume (last ?cs) x ?v" using fs2(2) fs1(2) by simp
      from loop [OF fs2(1) this]
      have "yields (bindE (forE ?cs (\<lambda>cluster.
           bindE (read_cluster cluster) (\<lambda>data. write_cluster cluster (clear_end_markers data)))) (\<lambda>_.
         returnE (x, 0))) fs2 (Inr (x, 0)) v'" by (rule yields_bind) simp
      then show "yields (if ?cs @ [x] = [] then throwE Panic
       else bindE (forE (butlast (?cs @ [x])) (\<lambda>cluster.
           bindE (read_cluster cluster) (\<lambda>data. write_cluster cluster (clear_end_markers data)))) (\<lambda>_.
         returnE (x, 0))) fs2 (Inr (x, 0)) v'" by simp
    qed
  qed
  show "dir_view v' dir css'"
  proof -
    have f: "v_count v' = v_count ?v" "v_fat v' = (v_fat ?v)(x := FAT_ENTRY_END_OF_CHAIN, last ?cs := x)"
      "v_data v' = cleared_data css ((v_data ?v)(2 := mark True [x] (v_data ?v 2), x := replicate (v_cluster_size ?v) 0))"
      by (simp_all add: v'_def)
    have "clusters_ok v' (cleared_clusters css)"
      by (rule clusters_ok_cleared [OF chain(3) _ f(1)]) (use dist f(3) in simp_all)
    moreover have "v_data v' x = dir_bytes (empty_cluster (v_cluster_size ?v))"
      using f(3) assms(4) sz by (simp add: cleared_data_other empty_cluster_bytes)
    ultimately have "clusters_ok v' css'"
      unfolding css'_def using x(1) \<open>x \<noteq> 2\<close> f(1) empty_cluster_items by simp
    moreover have "ends_ok css'"
      unfolding css'_def using cleared_clusters_facts(3) [OF chain(3)] empty_cluster_items
      by (intro ends_ok_snoc tail_ends_all) auto
    moreover have "map fst css' = ?cs @ [x]" by (simp add: css'_def cleared_clusters_facts(1))
    ultimately show ?thesis unfolding dir_view_def using chain' f(2) css'_def by simp
  qed
qed

section \<open>Creating an entry\<close>

text \<open>What else changes: nothing outside the directory, and at most one cluster is added to it.\<close>

definition dir_frame :: "volume \<Rightarrow> volume \<Rightarrow> dir_clusters \<Rightarrow> dir_clusters \<Rightarrow> bool" where
  "dir_frame v v' css css' \<longleftrightarrow>
     v_count v' = v_count v \<and> v_root v' = v_root v \<and> v_cluster_size v' = v_cluster_size v \<and> v_boot v' = v_boot v \<and>
     (map fst css' = map fst css \<and> v_data v' 2 = v_data v 2 \<or>
      (\<exists>x xs. free_list v = x # xs \<and> map fst css' = map fst css @ [x] \<and> v_data v' 2 = mark True [x] (v_data v 2))) \<and>
     (\<forall>c. c \<noteq> 2 \<and> c \<notin> set (map fst css') \<longrightarrow> v_data v' c = v_data v c \<and> v_fat v' c = v_fat v c)"

lemma item_sets_empty: "item_sets c off (empty_cluster sz) = []"
  unfolding empty_cluster_def by (rule item_sets_entries)

lemma slot_in_empty:
  assumes "sz mod 32 = 0" and "32 * n \<le> sz"
  shows "slot_in (css @ [(x, empty_cluster sz)]) n x 0"
proof -
  have "n \<le> sz div 32" using assms by linarith
  then have "empty_cluster sz = [] @ map Entry (replicate n (replicate 32 0)) @ map Entry (replicate (sz div 32 - n) (replicate 32 0))"
    by (simp add: empty_cluster_def flip: map_append replicate_add)
  moreover have "\<forall>e \<in> set (replicate n (replicate 32 (0 :: u8))). free_entry e"
    by (simp add: free_entry_def slot_is_free_def)
  ultimately show ?thesis unfolding slot_in_def
    by (intro exI [of _ css] exI [of _ "[]"] exI [of _ "replicate n (replicate 32 0)"]
        exI [of _ "map Entry (replicate (sz div 32 - n) (replicate 32 0))"]) simp
qed

lemma find_free_slot_ok:
  assumes "fs_ok fs" and view: "dir_view (vol fs) dir css" and "0 < n"
    and free: "set (free_list (vol fs)) \<inter> set (map fst css) = {}"
    and sz: "v_cluster_size (vol fs) mod 32 = 0" "32 * n \<le> v_cluster_size (vol fs)"
  shows "(\<exists>c s v' css'. yields (find_free_slot_in_directory dir n) fs (Inr (c, s)) v' \<and> dir_view v' dir css' \<and>
      slot_in css' n c s \<and> dir_sets css' = dir_sets css \<and> dir_frame (vol fs) v' css css') \<or>
    (free_list (vol fs) = [] \<and> (\<exists>e. yields (find_free_slot_in_directory dir n) fs (Inl (FilesystemError e)) (vol fs)))"
proof -
  let ?v = "vol fs"
  have chain: "chain_from (v_fat ?v) dir (map fst css)" "clusters_ok ?v css" "css \<noteq> []"
    using view by (simp_all add: dir_view_def)
  have rd: "yields (read_cluster_chain dir) fs (Inr (map fst css)) ?v"
    using read_cluster_chain_ok [OF assms(1) chain(1) dir_view_chain [OF view]] .
  obtain r where r: "yields (find_slot_in_clusters n (map fst css)) fs (Inr r) ?v"
    "case r of None \<Rightarrow> True | Some (c, s) \<Rightarrow> slot_in css n c s"
    using find_slot_ok [OF assms(1,3) chain(2)] by blast
  have r': "\<exists>q. yields (find_slot_in_clusters n (map fst css)) fs' (Inr q) ?v \<and>
      (case q of None \<Rightarrow> True | Some (c, s) \<Rightarrow> slot_in css n c s)" if "fs_ok fs'" "vol fs' = ?v" for fs'
    using find_slot_ok [OF that(1) assms(3), of css] chain(2) unfolding that(2) by blast
  obtain fs1 where fs1: "read_cluster_chain dir fs = (Inr (map fst css), fs1)" "fs_ok fs1" "vol fs1 = ?v"
    using rd by (rule yieldsE)
  obtain q where q: "yields (find_slot_in_clusters n (map fst css)) fs1 (Inr q) ?v"
    "case q of None \<Rightarrow> True | Some (c, s) \<Rightarrow> slot_in css n c s" using r' [OF fs1(2,3)] by blast
  obtain fs2 where fs2: "find_slot_in_clusters n (map fst css) fs1 = (Inr q, fs2)" "fs_ok fs2" "vol fs2 = ?v"
    using q(1) by (rule yieldsE)
  have run: "find_free_slot_in_directory dir n fs = (case q of Some slot \<Rightarrow> returnE slot | None \<Rightarrow> extend_directory dir) fs2"
    using fs1(1) fs2(1) by (simp add: find_free_slot_in_directory_def bindE_def)
  show ?thesis
  proof (cases q)
    case (Some p)
    obtain c s where p: "p = (c, s)" by (cases p)
    have "yields (find_free_slot_in_directory dir n) fs (Inr (c, s)) ?v"
      using run Some p fs2 by (simp add: yields_def returnE_def)
    moreover have "slot_in css n c s" using q(2) Some p by simp
    moreover have "dir_frame ?v ?v css css" by (simp add: dir_frame_def)
    ultimately show ?thesis using view by blast
  next
    case None
    then have run': "find_free_slot_in_directory dir n fs = extend_directory dir fs2" using run by simp
    have yields': "yields (find_free_slot_in_directory dir n) fs r v" if "yields (extend_directory dir) fs2 r v" for r v
      using that run' by (simp add: yields_def)
    show ?thesis
    proof (cases "free_list ?v")
      case Nil
      have "free_list (vol fs2) = []" "chain_from (v_fat (vol fs2)) dir (map fst css)"
        "\<forall>c \<in> set (map fst css). in_heap (v_count (vol fs2)) c" "map fst css \<noteq> []"
        unfolding fs2(3) using Nil chain dir_view_chain [OF view] by simp_all
      from extend_cluster_chain_full [OF fs2(2) this(2,3,4,1)]
      obtain e where "yields (extend_cluster_chain dir) fs2 (Inl (FilesystemError e)) (vol fs2)" by blast
      then have "yields (extend_directory dir) fs2 (Inl (FilesystemError e)) ?v"
        unfolding extend_directory_def fs2(3) [symmetric] by (rule yields_bind_error)
      then show ?thesis using yields' Nil by blast
    next
      case (Cons x xs)
      have notin: "x \<notin> set (map fst css)" using free Cons by auto
      define v1 where "v1 = vol fs2\<lparr>v_fat := (v_fat (vol fs2))(x := FAT_ENTRY_END_OF_CHAIN, last (map fst css) := x),
        v_data := cleared_data css ((v_data (vol fs2))(2 := mark True [x] (v_data (vol fs2) 2), x := replicate (v_cluster_size (vol fs2)) 0))\<rparr>"
      define css1 where "css1 = cleared_clusters css @ [(x, empty_cluster (v_cluster_size (vol fs2)))]"
      have "dir_view (vol fs2) dir css" "free_list (vol fs2) = x # xs" "v_cluster_size (vol fs2) mod 32 = 0"
        unfolding fs2(3) using view Cons sz by simp_all
      from extend_directory_ok [OF fs2(2) this(1,2) notin this(3)]
      have ext: "yields (extend_directory dir) fs2 (Inr (x, 0)) v1" "dir_view v1 dir css1"
        by (simp_all only: v1_def css1_def)
      have "slot_in css1 n x 0" unfolding css1_def fs2(3) using sz by (rule slot_in_empty)
      moreover have "dir_sets css1 = dir_sets css"
        using cleared_clusters_facts(2) [OF chain(2)] by (simp add: css1_def item_sets_empty)
      moreover have "dir_frame ?v v1 css css1"
      proof -
        have fst1: "map fst css1 = map fst css @ [x]" by (simp add: css1_def cleared_clusters_facts(1))
        have two: "2 \<notin> set (map fst css)" "x \<noteq> 2"
          using chain(2) free_list_ok(2) [OF assms(1), of x] Cons by (auto simp: clusters_ok_def)
        have "last (map fst css) \<in> set (map fst css)" using chain(3) by (intro last_in_set) simp
        then show ?thesis
          unfolding dir_frame_def v1_def fs2(3) using fst1 two Cons
          by (auto simp: cleared_data_other simp del: set_map)
      qed
      ultimately show ?thesis using ext yields' by blast
    qed
  qed
qed

lemma create_entry_ok:
  assumes "fs_ok fs" and view: "dir_view (vol fs) dir css" and len: "length (encode_utf16 name) \<le> 255"
    and free: "set (free_list (vol fs)) \<inter> set (map fst css) = {}"
    and sz: "v_cluster_size (vol fs) mod 32 = 0" "1024 \<le> v_cluster_size (vol fs)"
  shows "(\<exists>v' css'. yields (create_entry_in_directory now dir name first sz d) fs (Inr ()) v' \<and> dir_view v' dir css' \<and>
      entry_added css css' (create_file_entries now name first sz d) \<and> dir_frame (vol fs) v' css css') \<or>
    (free_list (vol fs) = [] \<and>
      (\<exists>e. yields (create_entry_in_directory now dir name first sz d) fs (Inl (FilesystemError e)) (vol fs)))"
proof -
  let ?es = "create_file_entries now name first sz d"
  note facts = create_file_entries_facts [OF len, of now first sz d]
  have n: "0 < length ?es" "32 * length ?es \<le> v_cluster_size (vol fs)" using facts(4) len sz(2) by simp_all
  have eq: "create_entry_in_directory now dir name first sz d =
      bindE (find_free_slot_in_directory dir (length ?es)) (\<lambda>(c, s). bindE (read_cluster c) (\<lambda>data.
        case put_entries (unat s) ?es data of None \<Rightarrow> throwE Panic | Some data \<Rightarrow> write_cluster c data))"
    by (simp add: create_entry_in_directory_def Let_def)
  from find_free_slot_ok [OF assms(1) view n(1) free sz(1) n(2)] show ?thesis
  proof (elim disjE exE conjE)
    fix c s v1 css1
    assume y: "yields (find_free_slot_in_directory dir (length ?es)) fs (Inr (c, s)) v1" and v1: "dir_view v1 dir css1"
      and slot: "slot_in css1 (length ?es) c s" and sets: "dir_sets css1 = dir_sets css" and frame: "dir_frame (vol fs) v1 css css1"
    obtain fs1 where fs1: "find_free_slot_in_directory dir (length ?es) fs = (Inr (c, s), fs1)" "fs_ok fs1" "vol fs1 = v1"
      using y by (rule yieldsE)
    have "dir_view (vol fs1) dir css1" unfolding fs1(3) by (rule v1)
    from put_slot_ok [OF fs1(2) this slot facts(1)]
    obtain css' dd where put: "yields (bindE (read_cluster c) (\<lambda>data. case put_entries (unat s) ?es data of
        None \<Rightarrow> throwE Panic | Some data \<Rightarrow> write_cluster c data)) fs1 (Inr ()) (v1\<lparr>v_data := (v_data v1)(c := dd)\<rparr>)"
      and view': "dir_view (v1\<lparr>v_data := (v_data v1)(c := dd)\<rparr>) dir css'" and added: "entry_added css1 css' ?es"
      and fst': "map fst css' = map fst css1" and c: "c \<in> set (map fst css1)"
      unfolding fs1(3) by blast
    have "yields (create_entry_in_directory now dir name first sz d) fs (Inr ()) (v1\<lparr>v_data := (v_data v1)(c := dd)\<rparr>)"
      using fs1(1) put by (simp add: eq yields_def bindE_def)
    moreover have "entry_added css css' ?es" using added sets by (simp add: entry_added_def)
    moreover have "dir_frame (vol fs) (v1\<lparr>v_data := (v_data v1)(c := dd)\<rparr>) css css'"
    proof -
      have "2 \<noteq> c" using v1 c by (auto simp: dir_view_def clusters_ok_def)
      then show ?thesis using frame c unfolding dir_frame_def fst' by auto
    qed
    ultimately show ?thesis using view' by blast
  next
    fix e assume "free_list (vol fs) = []"
      "yields (find_free_slot_in_directory dir (length ?es)) fs (Inl (FilesystemError e)) (vol fs)"
    then show ?thesis unfolding eq using yields_bind_error by blast
  qed
qed

section \<open>Deleting an entry\<close>

definition deleted_entries :: "bytes list \<Rightarrow> bytes list" where
  "deleted_entries es = (hd es)[0 := ENTRY_TYPE_DELETED_FILE] # map (\<lambda>e. e[0 := deleted_type (e ! 0)]) (tl es)"

definition delete_step :: "nat \<Rightarrow> bytes \<Rightarrow> bytes" where
  "delete_step o' data = (if o' < length data then data[o' := deleted_type (data ! o')] else data)"

lemma delete_step_middle:
  "length e = 32 \<Longrightarrow> delete_step (length p) (p @ e @ q) = p @ e[0 := deleted_type (e ! 0)] @ q"
  using nth_middle [of 0 e p q] by (auto simp: delete_step_def list_update_append)

lemma fold_delete:
  "\<forall>e \<in> set es. length e = 32 \<Longrightarrow>
     fold (\<lambda>j. delete_step (length p + 32 * j)) [0..<length es] (p @ concat es @ q) =
       p @ concat (map (\<lambda>e. e[0 := deleted_type (e ! 0)]) es) @ q"
proof (induction es arbitrary: p)
  case (Cons e es)
  let ?e = "e[0 := deleted_type (e ! 0)]"
  have upt: "[0..<length (e # es)] = 0 # map Suc [0..<length es]" by (simp only: map_Suc_upt upt_conv_Cons length_Cons)
  have len: "length p + 32 * Suc j = length (p @ ?e) + 32 * j" for j using Cons.prems by simp
  have "fold (\<lambda>j. delete_step (length p + 32 * j)) [0..<length (e # es)] (p @ concat (e # es) @ q) =
      fold (\<lambda>j. delete_step (length (p @ ?e) + 32 * j)) [0..<length es] (delete_step (length p) (p @ e @ concat es @ q))"
    unfolding upt by (simp only: fold_Cons fold_map o_def len) simp
  also have "\<dots> = fold (\<lambda>j. delete_step (length (p @ ?e) + 32 * j)) [0..<length es] ((p @ ?e) @ concat es @ q)"
    using Cons.prems by (simp add: delete_step_middle)
  also have "\<dots> = (p @ ?e) @ concat (map (\<lambda>e. e[0 := deleted_type (e ! 0)]) es) @ q"
    using Cons.prems by (intro Cons.IH) simp
  finally show ?case by simp
qed simp

lemma mark_deleted_items:
  assumes "item_ok (FileSet es)"
  shows "mark_deleted (length p) (length es - 1) (p @ concat es @ q) = p @ concat (deleted_entries es) @ q"
proof -
  obtain e fs where es: "es = e # fs" using assms by (cases es) auto
  let ?e = "e[0 := ENTRY_TYPE_DELETED_FILE]"
  have ok: "length e = 32" "\<forall>e \<in> set fs. length e = 32" using assms es by auto
  have len: "length p + Suc j * 32 = length (p @ ?e) + 32 * j" for j using ok by simp
  have first: "(p @ concat es @ q)[length p := ENTRY_TYPE_DELETED_FILE] = (p @ ?e) @ concat fs @ q"
    using es ok(1) by (simp add: list_update_append)
  have "mark_deleted (length p) (length es - 1) (p @ concat es @ q) =
      fold (\<lambda>i. delete_step (length p + i * 32)) [1..<Suc (length fs)] ((p @ ?e) @ concat fs @ q)"
    using es first by (simp add: mark_deleted_def delete_step_def [abs_def] Let_def)
  also have "[1..<Suc (length fs)] = map Suc [0..<length fs]" by (simp only: map_Suc_upt One_nat_def)
  also have "fold (\<lambda>i. delete_step (length p + i * 32)) (map Suc [0..<length fs]) ((p @ ?e) @ concat fs @ q) =
      fold (\<lambda>j. delete_step (length (p @ ?e) + 32 * j)) [0..<length fs] ((p @ ?e) @ concat fs @ q)"
    by (simp only: fold_map o_def len)
  also have "\<dots> = (p @ ?e) @ concat (map (\<lambda>e. e[0 := deleted_type (e ! 0)]) fs) @ q"
    using ok(2) by (rule fold_delete)
  finally show ?thesis using es by (simp add: deleted_entries_def)
qed

lemma deleted_type_ok:
  assumes "t \<noteq> ENTRY_TYPE_END" and "t \<noteq> 0x80"
  shows "deleted_type t \<noteq> ENTRY_TYPE_FILE" and "deleted_type t \<noteq> ENTRY_TYPE_END"
proof -
  have "t AND 0x7F = take_bit 7 t" by (simp add: take_bit_eq_mask mask_numeral)
  then have u: "unat (t AND 0x7F) = unat t mod 128"
    using unsigned_take_bit_eq [of 7 t] by (simp add: take_bit_eq_mod)
  then have "unat (t AND 0x7F) < 128" by simp
  then have "t AND 0x7F \<noteq> 0x85" by auto
  then show "deleted_type t \<noteq> ENTRY_TYPE_FILE" by (simp add: deleted_type_def entry_types)
  have "unat t \<noteq> 0" "unat t \<noteq> 128" using assms by (auto simp: entry_types word_unat_eq_iff)
  moreover have "unat t < 256" using unsigned_less [of t, where 'a = nat] by simp
  ultimately have "unat t mod 128 \<noteq> 0" by presburger
  then have "t AND 0x7F \<noteq> 0" using u by (metis unsigned_0)
  then show "deleted_type t \<noteq> ENTRY_TYPE_END" by (simp add: deleted_type_def entry_types)
qed


lemma item_sets_split:
  "(c', o', es) \<in> set (item_sets c off items) \<Longrightarrow>
     c' = c \<and> (\<exists>as bs. items = as @ FileSet es # bs \<and> o' = off + length (dir_bytes as))"
proof (induction c off items rule: item_sets.induct)
  case (2 c off e items)
  then obtain as bs where "c' = c" "items = as @ FileSet es # bs" "o' = off + length e + length (dir_bytes as)" by auto
  then have "c' = c" "Entry e # items = (Entry e # as) @ FileSet es # bs" "o' = off + length (dir_bytes (Entry e # as))" by simp_all
  then show ?case by blast
next
  case (3 c off ds items)
  show ?case
  proof (cases "(c', o', es) = (c, off, ds)")
    case True
    then have "FileSet ds # items = [] @ FileSet es # items" "o' = off + length (dir_bytes [])" by simp_all
    with True show ?thesis by blast
  next
    case False
    with 3 obtain as bs where "c' = c" "items = as @ FileSet es # bs" "o' = off + length (concat ds) + length (dir_bytes as)" by auto
    then have "c' = c" "FileSet ds # items = (FileSet ds # as) @ FileSet es # bs" "o' = off + length (dir_bytes (FileSet ds # as))"
      by simp_all
    then show ?thesis by blast
  qed
qed simp

lemma dir_sets_split:
  assumes "(c, off, es) \<in> set (dir_sets css)"
  obtains l as bs r where "css = l @ (c, as @ FileSet es # bs) # r" and "off = length (dir_bytes as)"
proof -
  obtain d items where d: "(d, items) \<in> set css" "(c, off, es) \<in> set (item_sets d 0 items)"
    using assms by (auto simp: dir_sets_def)
  from item_sets_split [OF d(2)] obtain as bs where "c = d" "items = as @ FileSet es # bs" "off = length (dir_bytes as)" by auto
  moreover obtain l r where "css = l @ (d, items) # r" using d(1) by (metis split_list)
  ultimately show thesis using that by blast
qed

lemma tail_ends_before: "tail_ends (xs @ y # ys) \<Longrightarrow> \<not> is_end y \<Longrightarrow> \<forall>x \<in> set xs. \<not> is_end x"
proof (induction xs)
  case (Cons x xs)
  then show ?case by (cases "is_end x") simp_all
qed simp

lemma ends_ok_delete:
  assumes "ends_ok (l @ (c, as @ FileSet es # bs) # r)" and "\<forall>x \<in> set ds. \<not> is_end x"
  shows "ends_ok (l @ (c, as @ ds @ bs) # r)"
  using assms(1)
proof (induction l)
  case Nil
  show ?case
  proof (cases r)
    case Nil
    with \<open>ends_ok ([] @ _)\<close> have t: "tail_ends (as @ FileSet es # bs)" by simp
    then have "\<forall>x \<in> set (as @ ds). \<not> is_end x" using tail_ends_before [OF t] assms(2) by auto
    moreover have "tail_ends bs" using tail_ends_append2 [of "as @ [FileSet es]" bs] t by simp
    ultimately have "tail_ends ((as @ ds) @ bs)" by (simp only: tail_ends_append_no_end)
    then show ?thesis using Nil by simp
  next
    case (Cons d ds)
    then show ?thesis using \<open>ends_ok ([] @ _)\<close> assms(2) by auto
  qed
next
  case (Cons d l)
  then show ?case by (cases l; cases d) auto
qed

lemma deleted_entries_items:
  assumes "item_ok (FileSet es)" and "x \<in> set (map Entry (deleted_entries es))"
  shows "item_ok x \<and> \<not> is_end x"
proof -
  obtain e fs where es: "es = e # fs" using assms(1) by (cases es) auto
  have f: "length e' = 32" "e' ! 0 \<noteq> ENTRY_TYPE_END" "e' ! 0 \<noteq> 0x80" if "e' \<in> set es" for e'
    using that assms(1) by auto
  consider "x = Entry (e[0 := ENTRY_TYPE_DELETED_FILE])" | e' where "e' \<in> set fs" "x = Entry (e'[0 := deleted_type (e' ! 0)])"
    using assms(2) es by (auto simp: deleted_entries_def)
  then show ?thesis
  proof cases
    case 1
    then show ?thesis using f(1) [of e] es by (simp add: entry_types)
  next
    case 2
    then show ?thesis using f [of e'] es deleted_type_ok [of "e' ! 0"] by simp
  qed
qed

lemma delete_entry_ok:
  assumes "fs_ok fs" and view: "dir_view (vol fs) dir css" and s: "(c, off, es) \<in> set (dir_sets css)"
  shows "\<exists>css' d xs ys. yields (delete_file_entry (location (c, off, es))) fs (Inr ()) (vol fs\<lparr>v_data := (v_data (vol fs))(c := d)\<rparr>) \<and>
    dir_view (vol fs\<lparr>v_data := (v_data (vol fs))(c := d)\<rparr>) dir css' \<and> map fst css' = map fst css \<and> c \<in> set (map fst css) \<and>
    dir_sets css = xs @ (c, off, es) # ys \<and> dir_sets css' = xs @ ys"
proof -
  obtain l as bs r where css: "css = l @ (c, as @ FileSet es # bs) # r" "off = length (dir_bytes as)"
    using dir_sets_split [OF s] .
  let ?old = "as @ FileSet es # bs" and ?new = "as @ map Entry (deleted_entries es) @ bs"
  let ?d = "dir_bytes ?new"
  have v: "in_heap (v_count (vol fs)) c" "c \<noteq> 2" "v_data (vol fs) c = dir_bytes ?old" "\<forall>x \<in> set ?old. item_ok x"
    "ends_ok css" using view unfolding dir_view_def css(1) by auto
  have es: "item_ok (FileSet es)" using v(4) by simp
  have del: "\<forall>x \<in> set (map Entry (deleted_entries es)). item_ok x \<and> \<not> is_end x" using deleted_entries_items [OF es] by blast
  have bytes: "dir_bytes (map Entry ds) = concat ds" for ds by (induction ds) simp_all
  have len_old: "length (dir_bytes ?old) = unat (cluster_size fs)"
    using length_cluster_at [of fs c] v(1,3) assms(1) by (simp add: fs_ok_def)
  have es32: "\<forall>e \<in> set es. length e = 32" "es \<noteq> []" using es by simp_all
  have len_es: "length (concat es) = 32 * length es" "0 < length es" using length_concat32 [OF es32(1)] es32(2) by simp_all
  have "\<forall>e \<in> set (deleted_entries es). length e = 32" using del by auto
  then have len_del: "length (concat (deleted_entries es)) = 32 * length es"
    using length_concat32 [of "deleted_entries es"] len_es(2) Suc_diff_1 [OF len_es(2)]
    by (simp only: deleted_entries_def length_Cons length_map length_tl)
  have len: "length ?d = unat (cluster_size fs)" using len_old len_es len_del by (simp add: bytes)
  have "length (dir_bytes as) + 32 * length es \<le> unat (cluster_size fs)" using len_old len_es(1) by simp
  then have off: "off < unat (cluster_size fs)" using len_es(2) css(2) by linarith
  then have uoff: "unat (word_of_nat off :: u32) = off"
    using unsigned_less [of "cluster_size fs", where 'a = nat] by (simp add: unat_of_nat)
  have "length es - 1 < 256" using es unsigned_less [of "hd es ! 1", where 'a = nat] by simp
  then have cnt: "unat (word_of_nat (length es - 1) :: u8) = length es - 1" by (simp add: unat_of_nat)
  have loc: "directory_cluster (location (c, off, es)) = c" "unat (entry_offset (location (c, off, es))) = off"
    "unat (secondary_count (location (c, off, es))) = length es - 1"
    using uoff cnt by (simp_all add: location_def split: prod.split)
  have mark: "mark_deleted off (length es - 1) (dir_bytes ?old) = ?d"
    using mark_deleted_items [OF es, of "dir_bytes as" "dir_bytes bs"] by (simp add: css(2) bytes)
  have "yields (write_cluster c ?d) fs (Inr ()) (vol fs\<lparr>v_data := (v_data (vol fs))(c := ?d)\<rparr>)"
    using write_cluster_ok [OF assms(1), of c ?d] v(1,2) len by simp
  then have y: "yields (delete_file_entry (location (c, off, es))) fs (Inr ()) (vol fs\<lparr>v_data := (v_data (vol fs))(c := ?d)\<rparr>)"
    using read_cluster_vol [OF assms(1) v(1,3)] off mark loc len_old
    by (simp add: delete_file_entry_def yields_def bindE_def not_le [symmetric] del: dir_bytes_simps)
  have "dir_view (vol fs\<lparr>v_data := (v_data (vol fs))(c := ?d)\<rparr>) dir (l @ (c, ?new) # r)"
    using view v(4,5) del css(1) by (intro dir_view_update ends_ok_delete) auto
  moreover have "dir_sets css = (dir_sets l @ item_sets c 0 as) @ (c, off, es) #
      item_sets c (length (dir_bytes as) + 32 * length es) bs @ dir_sets r"
    using css len_es by (simp add: item_sets_append)
  moreover have "dir_sets (l @ (c, ?new) # r) = (dir_sets l @ item_sets c 0 as) @
      item_sets c (length (dir_bytes as) + 32 * length es) bs @ dir_sets r"
    using len_del by (simp add: item_sets_append item_sets_entries bytes)
  ultimately show ?thesis using y css(1)
    by (intro exI [of _ "l @ (c, ?new) # r"] exI [of _ ?d] exI [of _ "dir_sets l @ item_sets c 0 as"]
        exI [of _ "item_sets c (length (dir_bytes as) + 32 * length es) bs @ dir_sets r"] conjI) simp_all
qed

section \<open>A small volume for the examples\<close>

text \<open>Ten clusters of 1024 bytes; cluster 2 is the bitmap, cluster 3 the empty root directory.\<close>

definition zeros :: "nat \<Rightarrow> bytes" where
  "zeros n = replicate n 0"

lemma length_zeros [simp]: "length (zeros n) = n"
  by (simp add: zeros_def)

lemma slice_zeros: "p + k \<le> n \<Longrightarrow> slice p k (zeros n) = zeros k"
  by (simp add: slice_def zeros_def)

lemma slice_append: "length a \<le> p \<Longrightarrow> slice p k (a @ b) = slice (p - length a) k b"
  by (simp add: slice_def)

definition small_fat :: bytes where
  "small_fat = concat (map (to_le 4) ([0xFFFFFFF8, 0xFFFFFFFF, 0xFFFFFFFF, 0xFFFFFFFF] @ replicate 8 (0 :: u32)))"

definition small :: exfat_fs where
  "small = \<lparr>fs_file = small_fat @ 3 # zeros 10239, partition_offset = 0, bytes_per_sector = 1,
     sectors_per_cluster = 1024, cluster_size = 1024, fat_offset = 0, fat_length = 48, cluster_heap_offset = 48,
     cluster_count = 10, first_cluster_of_root = 3, fat_cache = fat_cache_new, bitmap_cache = None, bitmap_dirty = False\<rparr>"

lemma length_concat_le4: "length (concat (map (to_le 4) ws)) = 4 * length ws"
  by (induction ws) simp_all

lemma length_small_fat: "length small_fat = 48"
  unfolding small_fat_def length_concat_le4 by simp

lemma small_ok: "fs_ok small"
  by (simp add: fs_ok_def geometry_ok_def fat_cache_ok_def bitmap_cache_ok_def small_def fat_base_def heap_base_def
      fat_cache_new_def Let_def length_small_fat)

lemma small_fields: "unat (cluster_size small) = 1024" "unat (cluster_count small) = 10" "first_cluster_of_root small = 3"
  by (simp_all add: small_def)

lemma small_fat_at: "fat_at small 3 = 0xFFFFFFFF"
proof -
  have "slice 12 4 (small_fat @ 3 # zeros 10239) = to_le 4 (0xFFFFFFFF :: u32)"
    by (simp add: slice_def small_fat_def)
  then show ?thesis by (simp add: fat_at_def fat_pos_def fat_base_def small_def)
qed

lemma small_cluster: "v_data (vol small) 2 = 3 # zeros 1023" "c \<in> {3, 4, 5, 6, 7, 8, 9, 10, 11} \<Longrightarrow> v_data (vol small) c = zeros 1024"
proof -
  have "slice 48 1024 (small_fat @ 3 # zeros 10239) = 3 # zeros 1023"
    by (simp add: slice_def zeros_def length_small_fat)
  then show "v_data (vol small) 2 = 3 # zeros 1023"
    by (simp add: vol_def in_heap_def cluster_at_def cluster_pos_def heap_base_def small_def Let_def)
  show "v_data (vol small) c = zeros 1024" if c: "c \<in> {3, 4, 5, 6, 7, 8, 9, 10, 11}"
  proof -
    have "3 \<le> unat c" "unat c \<le> 11" using c by auto
    then have "slice (48 + (unat c - 2) * 1024) 1024 (small_fat @ 3 # zeros 10239) = zeros 1024"
      using slice_append [of "small_fat @ [3]" "48 + (unat c - 2) * 1024" 1024 "zeros 10239"]
      by (simp add: length_small_fat slice_zeros)
    then show ?thesis using \<open>3 \<le> unat c\<close> \<open>unat c \<le> 11\<close>
      by (simp add: vol_def in_heap_def cluster_at_def cluster_pos_def heap_base_def small_def Let_def)
  qed
qed

lemma small_free_list: "free_list (vol small) = [4, 5, 6, 7, 8, 9, 10, 11]"
proof -
  have "map word_of_nat [Suc (unat (v_root (vol small)))..<v_count (vol small) + 2] = [4, 5, 6, 7, 8, 9, 10, 11 :: u32]"
    by (simp add: small_fields upt_rec)
  then show ?thesis
    by (simp only: free_list_def small_cluster) (simp add: is_cluster_allocated_def nth_Cons zeros_def)
qed

lemma small_root: "dir_view (vol small) 3 [(3, empty_cluster 1024)]"
proof -
  have heap: "in_heap (unat (cluster_count small)) 3" by (simp add: in_heap_def small_fields)
  then have "v_fat (vol small) 3 = 0xFFFFFFFF" using small_fat_at in_heap_in_fat by simp
  then have "chain_from (v_fat (vol small)) 3 [3]" by simp
  moreover have "v_data (vol small) 3 = dir_bytes (empty_cluster 1024)"
  proof -
    have "v_data (vol small) 3 = zeros 1024" by (rule small_cluster(2)) simp
    moreover have "dir_bytes (empty_cluster 1024) = zeros 1024" unfolding zeros_def by (rule empty_cluster_bytes) simp
    ultimately show ?thesis by (simp only:)
  qed
  ultimately show ?thesis using heap empty_cluster_items
    by (simp add: dir_view_def tail_ends_all del: v_data_vol v_fat_vol)
qed

section \<open>Names\<close>

lemma take_drop_pieces: "concat (map (\<lambda>k. take 15 (drop (15 * k) us)) [0..<n]) = take (15 * n) us"
proof (induction n)
  case (Suc n)
  have "take (15 * Suc n) us = take (15 * n) us @ take 15 (drop (15 * n) us)"
    using take_add [of "15 * n" 15 us] by (simp add: add.commute)
  then show ?case using Suc by simp
qed simp

definition bmp_name :: "rstr \<Rightarrow> bool" where
  "bmp_name name \<longleftrightarrow> (\<forall>c \<in> set name. c \<noteq> 0 \<and> c < 0x10000 \<and> is_scalar c)"

lemma encode_bmp: "bmp_name name \<Longrightarrow> encode_utf16 name = map word_of_nat name"
  by (induction name) (auto simp: bmp_name_def encode_utf16_def char_units_def)

lemma decode_bmp:
  assumes "bmp_name s"
  shows "decode_utf16_ok (takeWhile (\<lambda>u. u \<noteq> 0) (map word_of_nat s)) = s"
proof -
  have sc: "\<forall>c \<in> set s. is_scalar c \<and> c \<noteq> 0" using assms by (simp add: bmp_name_def)
  have "takeWhile (\<lambda>u. u \<noteq> 0) (encode_utf16 s) = encode_utf16 s"
    using sc char_units_nonzero by (auto simp: takeWhile_eq_all_conv encode_utf16_def)
  then have "takeWhile (\<lambda>u. u \<noteq> 0) (map word_of_nat s) = encode_utf16 s" unfolding encode_bmp [OF assms] .
  then show ?thesis using sc decode_utf16_ok_encode [of s] by simp
qed

lemma stored_name_bmp:
  assumes "bmp_name name"
  shows "stored_name name = name"
proof -
  let ?n = "(length name + 14) div 15"
  have piece: "decode_utf16_ok (takeWhile (\<lambda>u. u \<noteq> 0) (take 15 (drop (15 * k) (map word_of_nat name)))) = take 15 (drop (15 * k) name)" for k
  proof -
    have "bmp_name (take 15 (drop (15 * k) name))"
      using assms unfolding bmp_name_def by (meson in_set_dropD in_set_takeD)
    from decode_bmp [OF this] show ?thesis by (simp add: take_map drop_map)
  qed
  have "length name \<le> 15 * ?n" by presburger
  then show ?thesis
    by (simp add: stored_name_def name_pieces_def encode_bmp [OF assms] o_def piece take_drop_pieces)
qed

lemma replicate_14: "replicate 14 x = [x, x, x, x, x, x, x, x, x, x, x, x, x, x]"
  by (simp add: numeral_eq_Suc)

text \<open>The name a new entry set carries. Names of characters of the basic plane without NUL are read back
  unchanged. But each name entry is decoded on its own, so a character that needs two code units and
  starts at the fifteenth is dropped: fourteen letters and an emoji are found as the fourteen letters.\<close>

theorem stored_names:
  "(bmp_name name \<longrightarrow> length name \<le> 255 \<longrightarrow> parsed_set (create_file_entries now name first sz d) = (name, first, sz)) \<and>
   parsed_set (create_file_entries now (replicate 14 97 @ [0x1F600]) first sz d) = (replicate 14 97, first, sz)"
proof (intro conjI impI)
  assume b: "bmp_name name" and "length name \<le> 255"
  then have "length (encode_utf16 name) \<le> 255" by (simp add: encode_bmp)
  from create_file_entries_facts(2) [OF this] show "parsed_set (create_file_entries now name first sz d) = (name, first, sz)"
    using stored_name_bmp [OF b] by simp
next
  let ?name = "replicate 14 97 @ [0x1F600] :: rstr"
  have enc: "encode_utf16 ?name = replicate 14 97 @ [0xD83D, 0xDE00]"
    by (simp add: encode_utf16_def char_units_def)
  have "name_pieces (encode_utf16 ?name) = [replicate 14 97 @ [0xD83D], [0xDE00]]"
    unfolding enc by (simp add: name_pieces_def upt_rec)
  then have "stored_name ?name = replicate 14 97"
    unfolding stored_name_def by (simp add: decode_utf16_ok_def List.map_filter_simps replicate_14)
  moreover have "length (encode_utf16 ?name) \<le> 255" unfolding enc by simp
  ultimately show "parsed_set (create_file_entries now ?name first sz d) = (replicate 14 97, first, sz)"
    using create_file_entries_facts(2) by metis
qed

theorem stored_names_witness:
  "parsed_set (create_file_entries 0 [0x76, 0xE9] 5 10 False) = ([0x76, 0xE9], 5, 10)"
  using stored_names [of "[0x76, 0xE9]" 0 5 10 False] by (simp add: bmp_name_def is_scalar_def)

section \<open>Directories as lists\<close>

text \<open>C6: The directory operations refine operations on the list of a directory's entry sets, on any directory
  of a good volume. Finding a name is finding the first set of that name, and changes nothing.
  Deleting a set removes it from the list and keeps all others where they are. Creating an entry
  inserts the set of the new file somewhere in the list, again without moving any other; when the
  directory is full it grows by one cluster, and only if there is none does creating fail, with the volume
  unchanged. The directory stays well formed and no cluster or FAT entry outside it and the bitmap changes.\<close>

theorem directory_operations_refine:
  assumes "fs_ok fs" and "dir_view (vol fs) dir css"
  shows "yields (find_entry_in_directory lower dir name) fs (Inr (lookup lower (lower name) (dir_sets css))) (vol fs) \<and>
    (s \<in> set (dir_sets css) \<longrightarrow> (\<exists>v' css' xs ys. yields (delete_file_entry (location s)) fs (Inr ()) v' \<and> dir_view v' dir css' \<and>
      dir_sets css = xs @ s # ys \<and> dir_sets css' = xs @ ys \<and> dir_frame (vol fs) v' css css')) \<and>
    (length (encode_utf16 name) \<le> 255 \<and> set (free_list (vol fs)) \<inter> set (map fst css) = {} \<and>
     v_cluster_size (vol fs) mod 32 = 0 \<and> 1024 \<le> v_cluster_size (vol fs) \<longrightarrow>
      (\<exists>v' css' xs ys c off. yields (create_entry_in_directory now dir name first sz d) fs (Inr ()) v' \<and> dir_view v' dir css' \<and>
        dir_sets css = xs @ ys \<and> dir_sets css' = xs @ (c, off, create_file_entries now name first sz d) # ys \<and>
        dir_frame (vol fs) v' css css') \<or>
      (free_list (vol fs) = [] \<and>
        (\<exists>e. yields (create_entry_in_directory now dir name first sz d) fs (Inl (FilesystemError e)) (vol fs))))"
proof (intro conjI impI)
  show "yields (find_entry_in_directory lower dir name) fs (Inr (lookup lower (lower name) (dir_sets css))) (vol fs)"
    using assms by (rule find_entry_ok)
next
  assume s: "s \<in> set (dir_sets css)"
  obtain c off es where ces: "s = (c, off, es)" by (cases s)
  from delete_entry_ok [OF assms s [unfolded ces]] obtain css' d xs ys where
    d: "yields (delete_file_entry (location s)) fs (Inr ()) (vol fs\<lparr>v_data := (v_data (vol fs))(c := d)\<rparr>)"
      "dir_view (vol fs\<lparr>v_data := (v_data (vol fs))(c := d)\<rparr>) dir css'" "map fst css' = map fst css" "c \<in> set (map fst css)"
      "dir_sets css = xs @ s # ys" "dir_sets css' = xs @ ys" unfolding ces by blast
  have "c \<noteq> 2" using assms(2) d(4) by (auto simp: dir_view_def clusters_ok_def)
  then have "dir_frame (vol fs) (vol fs\<lparr>v_data := (v_data (vol fs))(c := d)\<rparr>) css css'"
    using d(3,4) unfolding dir_frame_def by auto
  with d show "\<exists>v' css' xs ys. yields (delete_file_entry (location s)) fs (Inr ()) v' \<and> dir_view v' dir css' \<and>
      dir_sets css = xs @ s # ys \<and> dir_sets css' = xs @ ys \<and> dir_frame (vol fs) v' css css'" by blast
next
  assume c: "length (encode_utf16 name) \<le> 255 \<and> set (free_list (vol fs)) \<inter> set (map fst css) = {} \<and>
     v_cluster_size (vol fs) mod 32 = 0 \<and> 1024 \<le> v_cluster_size (vol fs)"
  from create_entry_ok [OF assms, of name now first sz d] c
  show "(\<exists>v' css' xs ys c off. yields (create_entry_in_directory now dir name first sz d) fs (Inr ()) v' \<and> dir_view v' dir css' \<and>
        dir_sets css = xs @ ys \<and> dir_sets css' = xs @ (c, off, create_file_entries now name first sz d) # ys \<and>
        dir_frame (vol fs) v' css css') \<or>
      (free_list (vol fs) = [] \<and>
        (\<exists>e. yields (create_entry_in_directory now dir name first sz d) fs (Inl (FilesystemError e)) (vol fs)))"
    unfolding entry_added_def by (elim disjE conjE exE impE; blast)
qed

theorem directory_operations_refine_witness:
  "\<exists>v' css' c off. yields (create_entry_in_directory 0 3 [65] 0 0 False) small (Inr ()) v' \<and> dir_view v' 3 css' \<and>
     dir_sets css' = [(c, off, create_file_entries 0 [65] 0 0 False)]"
proof -
  have d: "dir_view (vol small) 3 [(3, empty_cluster 1024)]" by (rule small_root)
  have sets: "dir_sets [(3, empty_cluster 1024)] = []" by (simp add: item_sets_empty)
  have "length (encode_utf16 [65]) \<le> 255 \<and> set (free_list (vol small)) \<inter> set (map fst [(3, empty_cluster 1024)]) = {} \<and>
     v_cluster_size (vol small) mod 32 = 0 \<and> 1024 \<le> v_cluster_size (vol small)"
    by (simp add: encode_utf16_def char_units_def small_free_list small_fields)
  with directory_operations_refine [OF small_ok d, where name = "[65]" and now = 0 and first = 0 and sz = 0 and d = False]
  show ?thesis unfolding sets small_free_list by fastforce
qed

end
