(* ===== verification/Exfat_Ops.thy ===== *)
theory Exfat_Ops
  imports Exfat_Dir_Spec
begin

text \<open>
  \<^verbatim>\<open>src/libs/ventoy-img-rs/src/exfat/ops.rs\<close>, the upper half: the public file operations of
  \<open>ExfatFs\<close>, the streaming writer \<open>ExfatFileWriter\<close>, the streaming reader \<open>ExfatFileReader\<close> and
  the copies between a volume and a \<open>Read\<close> or \<open>Write\<close>.

  A \<open>Read\<close> is the list of the chunks its calls return, a \<open>Write\<close> the bytes written to it; neither
  fails. The loops that are not bounded by a list take fuel; running out is \<open>Panic\<close>.
\<close>

section \<open>Files\<close>

text \<open>\<open>(n + cluster_size - 1) / cluster_size\<close>, 0 for an empty file.\<close>

definition clusters_for :: "nat \<Rightarrow> nat \<Rightarrow> nat" where
  "clusters_for cs n = (if n = 0 then 0 else (n + cs - 1) div cs)"

text \<open>The loop over the chain: each cluster takes the next piece of the data.\<close>

fun write_chunks :: "u32 list \<Rightarrow> bytes \<Rightarrow> unit fs_op" where
  "write_chunks [] data = returnE ()"
| "write_chunks (cluster # clusters) data =
     bindE (getsE (\<lambda>fs. unat (cluster_size fs))) (\<lambda>cs.
     bindE (write_cluster cluster (take (min (length data) cs) data)) (\<lambda>_.
       write_chunks clusters (drop (min (length data) cs) data)))"

definition write_file_data_and_entry :: "u32 \<Rightarrow> u32 \<Rightarrow> rstr \<Rightarrow> bytes \<Rightarrow> unit fs_op" where
  "write_file_data_and_entry now dir_cluster name data =
     bindE (getsE (\<lambda>fs. unat (cluster_size fs))) (\<lambda>cs.
     if data \<noteq> [] \<and> cs = 0 then throwE Panic
     else
       let clusters_needed = clusters_for cs (length data) in
       bindE (if clusters_needed > 0 then
           bindE (allocate_clusters clusters_needed) (\<lambda>first.
           bindE (read_cluster_chain first) (\<lambda>chain.
           bindE (write_chunks chain data) (\<lambda>_. returnE first)))
         else returnE 0) (\<lambda>first_cluster.
       create_entry_in_directory now dir_cluster name first_cluster (word_of_nat (length data)) False))"

definition invalid_name :: "rstr \<Rightarrow> bool" where
  "invalid_name name \<longleftrightarrow> name = [] \<or> utf8_len name > 255"

definition already_exists :: "rstr \<Rightarrow> ventoy_error" where
  "already_exists name = FilesystemError (lit ''File '' @ quoted name @ lit '' already exists'')"

definition file_not_found :: "rstr \<Rightarrow> ventoy_error" where
  "file_not_found name = FilesystemError (lit ''File '' @ quoted name @ lit '' not found'')"

definition is_a_directory :: "rstr \<Rightarrow> ventoy_error" where
  "is_a_directory path = FilesystemError (quoted path @ lit '' is a directory'')"

definition write_file :: "(rstr \<Rightarrow> rstr) \<Rightarrow> u32 \<Rightarrow> rstr \<Rightarrow> bytes \<Rightarrow> unit fs_op" where
  "write_file lower now name data =
     (if invalid_name name then throwE (fs_error ''Invalid filename length'')
      else
        bindE (find_file_entry lower name) (\<lambda>existing.
          if existing \<noteq> None then throwE (already_exists name)
          else
            bindE (getsE first_cluster_of_root) (\<lambda>root. write_file_data_and_entry now root name data)))"

text \<open>Freeing the clusters of a file and deleting its entry.\<close>

definition remove_file :: "file_entry_location \<Rightarrow> unit fs_op" where
  "remove_file loc =
     bindE (if loc_first_cluster loc \<ge> 2 then free_cluster_chain (loc_first_cluster loc) else returnE ()) (\<lambda>_.
       delete_file_entry loc)"

definition delete_file :: "(rstr \<Rightarrow> rstr) \<Rightarrow> rstr \<Rightarrow> unit fs_op" where
  "delete_file lower name =
     bindE (find_file_entry lower name) (\<lambda>found.
       case found of None \<Rightarrow> throwE (file_not_found name) | Some loc \<Rightarrow> remove_file loc)"

definition write_file_overwrite :: "(rstr \<Rightarrow> rstr) \<Rightarrow> u32 \<Rightarrow> rstr \<Rightarrow> bytes \<Rightarrow> bool \<Rightarrow> unit fs_op" where
  "write_file_overwrite lower now name data overwrite =
     (if invalid_name name then throwE (fs_error ''Invalid filename length'')
      else
        bindE (find_file_entry lower name) (\<lambda>existing.
        bindE (if existing \<noteq> None then
                 if overwrite then delete_file lower name else throwE (already_exists name)
               else returnE ()) (\<lambda>_.
        bindE (getsE first_cluster_of_root) (\<lambda>root. write_file_data_and_entry now root name data))))"

text \<open>An existing entry at a path: a directory is an error, a file is removed or is an error.\<close>

definition replace_existing :: "rstr \<Rightarrow> bool \<Rightarrow> file_entry_location option \<Rightarrow> unit fs_op" where
  "replace_existing path overwrite existing =
     (case existing of
        None \<Rightarrow> returnE ()
      | Some loc \<Rightarrow>
          if is_directory loc then throwE (is_a_directory path)
          else if overwrite then remove_file loc
          else throwE (already_exists path))"

definition write_file_path :: "(rstr \<Rightarrow> rstr) \<Rightarrow> u32 \<Rightarrow> rstr \<Rightarrow> bytes \<Rightarrow> bool \<Rightarrow> bool \<Rightarrow> unit fs_op" where
  "write_file_path lower now path data create_parents overwrite =
     bindE (resolve_path lower now path create_parents) (\<lambda>resolved.
       if invalid_name (rp_name resolved) then throwE (fs_error ''Invalid filename length'')
       else
         bindE (replace_existing path overwrite (rp_location resolved)) (\<lambda>_.
           write_file_data_and_entry now (parent_cluster resolved) (rp_name resolved) data))"

fun read_chunks :: "u32 list \<Rightarrow> nat \<Rightarrow> bytes \<Rightarrow> bytes fs_op" where
  "read_chunks [] len data = returnE data"
| "read_chunks (cluster # clusters) len data =
     bindE (read_cluster cluster) (\<lambda>cluster_data.
     bindE (getsE (\<lambda>fs. unat (cluster_size fs))) (\<lambda>cs.
       read_chunks clusters len (data @ take (min (len - length data) cs) cluster_data)))"

definition read_file_from_location :: "file_entry_location \<Rightarrow> bytes fs_op" where
  "read_file_from_location loc =
     (if data_length loc = 0 then returnE []
      else
        bindE (read_cluster_chain (loc_first_cluster loc)) (\<lambda>chain.
          read_chunks chain (unat (data_length loc)) []))"

definition read_file :: "(rstr \<Rightarrow> rstr) \<Rightarrow> rstr \<Rightarrow> bytes fs_op" where
  "read_file lower name =
     bindE (find_file_entry lower name) (\<lambda>found.
       case found of None \<Rightarrow> throwE (file_not_found name) | Some loc \<Rightarrow> read_file_from_location loc)"

definition read_file_path :: "(rstr \<Rightarrow> rstr) \<Rightarrow> u32 \<Rightarrow> rstr \<Rightarrow> bytes fs_op" where
  "read_file_path lower now path =
     bindE (resolve_path lower now path False) (\<lambda>resolved.
       case rp_location resolved of
         Some loc \<Rightarrow> if is_directory loc then throwE (is_a_directory path) else read_file_from_location loc
       | None \<Rightarrow> throwE (file_not_found path))"

definition get_file_info_path :: "(rstr \<Rightarrow> rstr) \<Rightarrow> u32 \<Rightarrow> rstr \<Rightarrow> file_info option fs_op" where
  "get_file_info_path lower now path =
     bindE (resolve_path lower now path False) (\<lambda>resolved.
       case rp_location resolved of
         Some loc \<Rightarrow> returnE (Some \<lparr>fi_name = last (split_on 47 path), fi_size = data_length loc,
           fi_is_directory = is_directory loc, fi_path = path\<rparr>)
       | None \<Rightarrow> returnE None)"

definition delete_path :: "(rstr \<Rightarrow> rstr) \<Rightarrow> u32 \<Rightarrow> rstr \<Rightarrow> unit fs_op" where
  "delete_path lower now path =
     bindE (resolve_path lower now path False) (\<lambda>resolved.
       case rp_location resolved of
         None \<Rightarrow> throwE (FilesystemError (quoted path @ lit '' not found''))
       | Some loc \<Rightarrow>
           bindE (if is_directory loc then
               bindE (list_files_in_directory (loc_first_cluster loc) []) (\<lambda>contents.
                 if contents \<noteq> [] then throwE (FilesystemError (lit ''Directory '' @ quoted path @ lit '' is not empty''))
                 else returnE ())
             else returnE ()) (\<lambda>_. remove_file loc))"

text \<open>The recursion goes down the directory tree; \<open>fuel\<close> bounds its depth.\<close>

fun delete_recursive :: "(rstr \<Rightarrow> rstr) \<Rightarrow> u32 \<Rightarrow> nat \<Rightarrow> rstr \<Rightarrow> unit fs_op" where
  "delete_recursive lower now 0 path = throwE Panic"
| "delete_recursive lower now (Suc fuel) path =
     bindE (resolve_path lower now path False) (\<lambda>resolved.
       case rp_location resolved of
         None \<Rightarrow> throwE (FilesystemError (quoted path @ lit '' not found''))
       | Some loc \<Rightarrow>
           bindE (if is_directory loc then
               bindE (list_files_in_directory (loc_first_cluster loc) []) (\<lambda>contents.
                 forE contents (\<lambda>item.
                   delete_recursive lower now fuel
                     (if path \<noteq> [] \<and> last path = 47 then path @ fi_name item else path @ lit ''/'' @ fi_name item)))
             else returnE ()) (\<lambda>_. remove_file loc))"

text \<open>\<open>list_files_recursive\<close>: the stack of directories to visit; \<open>fuel\<close> bounds the number visited.\<close>

fun visit_subdirectories :: "(rstr \<Rightarrow> rstr) \<Rightarrow> u32 \<Rightarrow> file_info list \<Rightarrow> (u32 \<times> rstr) list \<Rightarrow> (u32 \<times> rstr) list fs_op" where
  "visit_subdirectories lower dir [] stack = returnE stack"
| "visit_subdirectories lower dir (file # files) stack =
     bindE (if fi_is_directory file then
         bindE (find_entry_in_directory lower dir (fi_name file)) (\<lambda>found.
           returnE (case found of Some loc \<Rightarrow> stack @ [(loc_first_cluster loc, fi_path file)] | None \<Rightarrow> stack))
       else returnE stack) (\<lambda>stack. visit_subdirectories lower dir files stack)"

fun list_recursive_loop :: "(rstr \<Rightarrow> rstr) \<Rightarrow> nat \<Rightarrow> (u32 \<times> rstr) list \<Rightarrow> file_info list \<Rightarrow> file_info list fs_op" where
  "list_recursive_loop lower 0 stack all_files = throwE Panic"
| "list_recursive_loop lower (Suc fuel) stack all_files =
     (if stack = [] then returnE all_files
      else
        let (dir, current_path) = last stack in
        bindE (list_files_in_directory dir current_path) (\<lambda>files.
        bindE (visit_subdirectories lower dir files (butlast stack)) (\<lambda>stack.
          list_recursive_loop lower fuel stack (all_files @ files))))"

definition list_files_recursive :: "(rstr \<Rightarrow> rstr) \<Rightarrow> nat \<Rightarrow> file_info list fs_op" where
  "list_files_recursive lower fuel =
     bindE (getsE first_cluster_of_root) (\<lambda>root. list_recursive_loop lower fuel [(root, [])] [])"

section \<open>The streaming writer\<close>

record file_writer =
  fw_name :: rstr
  fw_dir_cluster :: u32
  fw_total_size :: u64
  fw_clusters :: "u32 list"
  fw_index :: nat
  fw_buffer :: bytes
  fw_written :: u64

type_synonym 'a fw_op = "(exfat_fs \<times> file_writer, ventoy_error, 'a) stm"

text \<open>An operation of the file system, inside one of a writer or a reader that holds it.\<close>

definition on_fs :: "'a fs_op \<Rightarrow> (exfat_fs \<times> 'w, ventoy_error, 'a) stm" where
  "on_fs f s = (case f (fst s) of (r, fs) \<Rightarrow> (r, (fs, snd s)))"

definition create_in_directory :: "(rstr \<Rightarrow> rstr) \<Rightarrow> u32 \<Rightarrow> rstr \<Rightarrow> u64 \<Rightarrow> bool \<Rightarrow> file_writer fs_op" where
  "create_in_directory lower dir_cluster name total_size overwrite =
     (if invalid_name name then throwE (fs_error ''Invalid filename length'')
      else
        bindE (find_entry_in_directory lower dir_cluster name) (\<lambda>existing.
        bindE (case existing of
            None \<Rightarrow> returnE ()
          | Some loc \<Rightarrow> if overwrite then remove_file loc else throwE (already_exists name)) (\<lambda>_.
        bindE (getsE cluster_size) (\<lambda>cs.
        if total_size \<noteq> 0 \<and> cs = 0 then throwE Panic
        else
          let clusters_needed = (if total_size = 0 then 0 else unat ((total_size + ucast cs - 1) div ucast cs)) in
          bindE (if clusters_needed > 0
              then bindE (allocate_clusters clusters_needed) read_cluster_chain
              else returnE []) (\<lambda>allocated.
            returnE \<lparr>fw_name = name, fw_dir_cluster = dir_cluster, fw_total_size = total_size,
              fw_clusters = allocated, fw_index = 0, fw_buffer = [], fw_written = 0\<rparr>)))))"

definition writer_create :: "(rstr \<Rightarrow> rstr) \<Rightarrow> rstr \<Rightarrow> u64 \<Rightarrow> file_writer fs_op" where
  "writer_create lower name total_size =
     bindE (getsE first_cluster_of_root) (\<lambda>root. create_in_directory lower root name total_size False)"

definition writer_create_overwrite :: "(rstr \<Rightarrow> rstr) \<Rightarrow> rstr \<Rightarrow> u64 \<Rightarrow> bool \<Rightarrow> file_writer fs_op" where
  "writer_create_overwrite lower name total_size overwrite =
     bindE (getsE first_cluster_of_root) (\<lambda>root. create_in_directory lower root name total_size overwrite)"

definition create_at_path :: "(rstr \<Rightarrow> rstr) \<Rightarrow> u32 \<Rightarrow> rstr \<Rightarrow> u64 \<Rightarrow> bool \<Rightarrow> bool \<Rightarrow> file_writer fs_op" where
  "create_at_path lower now path total_size create_parents overwrite =
     bindE (resolve_path lower now path create_parents) (\<lambda>resolved.
     bindE (replace_existing path overwrite (rp_location resolved)) (\<lambda>_.
       create_in_directory lower (parent_cluster resolved) (rp_name resolved) total_size False))"

text \<open>The body of the loop of \<open>write\<close>, at the offset \<open>off\<close> in the data; its result is the next offset.\<close>

definition fw_write_turn :: "bytes \<Rightarrow> nat \<Rightarrow> nat fw_op" where
  "fw_write_turn data off s =
     (let cs = unat (cluster_size (fst s));
          w = snd s;
          space_in_buffer = cs - length (fw_buffer w);
          remaining_to_write = unat (fw_total_size w - fw_written w);
          chunk_size = min (min space_in_buffer (length data - off)) remaining_to_write;
          w = w\<lparr>fw_buffer := fw_buffer w @ take chunk_size (drop off data),
            fw_written := fw_written w + word_of_nat chunk_size\<rparr>;
          off = off + chunk_size
      in if length (fw_buffer w) \<ge> cs \<and> fw_index w < length (fw_clusters w) then
           bindE (on_fs (write_cluster (fw_clusters w ! fw_index w) (fw_buffer w))) (\<lambda>_ s.
             (Inr off, (fst s, (snd s)\<lparr>fw_index := fw_index (snd s) + 1, fw_buffer := []\<rparr>))) (fst s, w)
         else (Inr off, (fst s, w)))"

text \<open>A turn consumes at least one byte, unless the buffer is full and no cluster is left; that turn would repeat
  forever.\<close>

fun fw_write_loop :: "nat \<Rightarrow> bytes \<Rightarrow> nat \<Rightarrow> nat fw_op" where
  "fw_write_loop 0 data off = throwE Panic"
| "fw_write_loop (Suc fuel) data off =
     bindE (getsE (\<lambda>s. off < length data \<and> fw_written (snd s) < fw_total_size (snd s))) (\<lambda>more.
       if more then bindE (fw_write_turn data off) (fw_write_loop fuel data) else returnE off)"

definition fw_write :: "bytes \<Rightarrow> nat fw_op" where
  "fw_write data = fw_write_loop (length data + 1) data 0"

definition fw_finish :: "u32 \<Rightarrow> unit fw_op" where
  "fw_finish now =
     bindE (getsE snd) (\<lambda>w.
     bindE (if fw_buffer w \<noteq> [] \<and> fw_index w < length (fw_clusters w)
         then on_fs (write_cluster (fw_clusters w ! fw_index w) (fw_buffer w)) else returnE ()) (\<lambda>_.
       on_fs (create_entry_in_directory now (fw_dir_cluster w) (fw_name w)
         (if fw_clusters w = [] then 0 else fw_clusters w ! 0) (fw_total_size w) False)))"

text \<open>\<open>do_stream_write\<close>: a read of no bytes is the end of the input.\<close>

fun do_stream_write :: "bytes list \<Rightarrow> unit fw_op" where
  "do_stream_write [] = returnE ()"
| "do_stream_write (chunk # chunks) =
     (if chunk = [] then returnE () else bindE (fw_write chunk) (\<lambda>_. do_stream_write chunks))"

text \<open>Running a writer from its creation to \<open>finish\<close>.\<close>

definition stream_to :: "u32 \<Rightarrow> file_writer fs_op \<Rightarrow> bytes list \<Rightarrow> unit fs_op" where
  "stream_to now create chunks =
     bindE create (\<lambda>w fs.
       case bindE (do_stream_write chunks) (\<lambda>_. fw_finish now) (fs, w) of (r, (fs, w)) \<Rightarrow> (r, fs))"

definition write_file_from_reader :: "(rstr \<Rightarrow> rstr) \<Rightarrow> u32 \<Rightarrow> rstr \<Rightarrow> bytes list \<Rightarrow> u64 \<Rightarrow> unit fs_op" where
  "write_file_from_reader lower now name chunks sz = stream_to now (writer_create lower name sz) chunks"

definition write_file_from_reader_overwrite ::
    "(rstr \<Rightarrow> rstr) \<Rightarrow> u32 \<Rightarrow> rstr \<Rightarrow> bytes list \<Rightarrow> u64 \<Rightarrow> bool \<Rightarrow> unit fs_op" where
  "write_file_from_reader_overwrite lower now name chunks sz overwrite =
     stream_to now (writer_create_overwrite lower name sz overwrite) chunks"

definition write_file_from_reader_path ::
    "(rstr \<Rightarrow> rstr) \<Rightarrow> u32 \<Rightarrow> rstr \<Rightarrow> bytes list \<Rightarrow> u64 \<Rightarrow> bool \<Rightarrow> bool \<Rightarrow> unit fs_op" where
  "write_file_from_reader_path lower now path chunks sz create_parents overwrite =
     stream_to now (create_at_path lower now path sz create_parents overwrite) chunks"

section \<open>The streaming reader\<close>

record file_reader =
  fr_chain :: "u32 list"
  fr_size :: u64
  fr_position :: u64
  fr_cache :: "(u32 \<times> bytes) option"

type_synonym 'a fr_op = "(exfat_fs \<times> file_reader, ventoy_error, 'a) stm"

definition reader_from_location :: "file_entry_location \<Rightarrow> file_reader fs_op" where
  "reader_from_location loc =
     bindE (if loc_first_cluster loc \<ge> 2 \<and> data_length loc > 0
         then read_cluster_chain (loc_first_cluster loc) else returnE []) (\<lambda>chain.
       returnE \<lparr>fr_chain = chain, fr_size = data_length loc, fr_position = 0, fr_cache = None\<rparr>)"

definition reader_open :: "(rstr \<Rightarrow> rstr) \<Rightarrow> rstr \<Rightarrow> file_reader fs_op" where
  "reader_open lower name =
     bindE (find_file_entry lower name) (\<lambda>found.
       case found of
         None \<Rightarrow> throwE (file_not_found name)
       | Some loc \<Rightarrow> if is_directory loc then throwE (is_a_directory name) else reader_from_location loc)"

definition reader_open_path :: "(rstr \<Rightarrow> rstr) \<Rightarrow> u32 \<Rightarrow> rstr \<Rightarrow> file_reader fs_op" where
  "reader_open_path lower now path =
     bindE (resolve_path lower now path False) (\<lambda>resolved.
       case rp_location resolved of
         Some loc \<Rightarrow> if is_directory loc then throwE (is_a_directory path) else reader_from_location loc
       | None \<Rightarrow> throwE (file_not_found path))"

definition reader_remaining :: "file_reader \<Rightarrow> u64" where
  "reader_remaining r = (if fr_size r \<ge> fr_position r then fr_size r - fr_position r else 0)"

definition read_cluster_cached :: "nat \<Rightarrow> bytes fr_op" where
  "read_cluster_cached cluster_index =
     bindE (getsE snd) (\<lambda>r.
       if cluster_index \<ge> length (fr_chain r) then throwE (fs_error ''Cluster index out of range'')
       else
         let cluster_num = fr_chain r ! cluster_index;
             miss = bindE (on_fs (read_cluster cluster_num)) (\<lambda>data s.
               (Inr data, (fst s, (snd s)\<lparr>fr_cache := Some (cluster_num, data)\<rparr>)))
         in case fr_cache r of
              Some (cached_cluster, data) \<Rightarrow> if cached_cluster = cluster_num then returnE data else miss
            | None \<Rightarrow> miss)"

text \<open>The body of the loop of \<open>read\<close>: the bytes copied. An error of the volume becomes an I/O error.\<close>

definition as_io_error :: "ventoy_error \<Rightarrow> ventoy_error" where
  "as_io_error e = (if e = Panic then Panic else IoOther (ventoy_error_display e))"

definition fr_read_turn :: "nat \<Rightarrow> bytes fr_op" where
  "fr_read_turn remaining_in_buf s =
     (let cs = ucast (cluster_size (fst s));
          r = snd s;
          cluster_index = unat (fr_position r div cs);
          offset_in_cluster = unat (fr_position r mod cs);
          remaining_in_cluster = unat cs - offset_in_cluster;
          remaining_in_file = unat (fr_size r - fr_position r);
          to_read = min (min remaining_in_cluster remaining_in_file) remaining_in_buf
      in if cs = 0 then (Inl Panic, s)
         else
           (case read_cluster_cached cluster_index s of
              (Inl e, s) \<Rightarrow> (Inl (as_io_error e), s)
            | (Inr data, s) \<Rightarrow>
                (Inr (slice offset_in_cluster to_read data),
                 (fst s, (snd s)\<lparr>fr_position := fr_position (snd s) + word_of_nat to_read\<rparr>))))"

text \<open>The loop with the bytes copied so far; every turn copies at least one byte.\<close>

fun fr_read_loop :: "nat \<Rightarrow> nat \<Rightarrow> bytes \<Rightarrow> bytes fr_op" where
  "fr_read_loop 0 buf_len out = throwE Panic"
| "fr_read_loop (Suc fuel) buf_len out =
     bindE (getsE (\<lambda>s. length out < buf_len \<and> fr_position (snd s) < fr_size (snd s))) (\<lambda>more.
       if more then bindE (fr_read_turn (buf_len - length out)) (\<lambda>copied. fr_read_loop fuel buf_len (out @ copied))
       else returnE out)"

definition fr_read :: "nat \<Rightarrow> bytes fr_op" where
  "fr_read buf_len =
     bindE (getsE (\<lambda>s. fr_position (snd s) \<ge> fr_size (snd s) \<or> buf_len = 0)) (\<lambda>at_end.
       if at_end then returnE [] else fr_read_loop (buf_len + 1) buf_len [])"

datatype seek_from = SeekStart u64 | SeekEnd u64 | SeekCurrent u64

text \<open>Offsets from the end and the current position are signed; additions wrap.\<close>

definition fr_seek :: "seek_from \<Rightarrow> u64 fr_op" where
  "fr_seek p s =
     (let new_pos = (case p of
            SeekStart off \<Rightarrow> off
          | SeekEnd off \<Rightarrow> fr_size (snd s) + off
          | SeekCurrent off \<Rightarrow> fr_position (snd s) + off)
      in if sint new_pos < 0 then (Inl NegativeSeek, s)
         else (Inr new_pos, (fst s, (snd s)\<lparr>fr_position := new_pos\<rparr>)))"

text \<open>\<open>do_stream_read\<close>: the bytes written to the writer so far; 64 KiB are read at a time.\<close>

fun do_stream_read :: "nat \<Rightarrow> bytes \<Rightarrow> bytes fr_op" where
  "do_stream_read 0 out = throwE Panic"
| "do_stream_read (Suc fuel) out =
     bindE (fr_read 65536) (\<lambda>chunk. if chunk = [] then returnE out else do_stream_read fuel (out @ chunk))"

text \<open>Running a reader from its creation; the result is the output and the number of bytes.\<close>

definition stream_from :: "file_reader fs_op \<Rightarrow> (bytes \<times> u64) fs_op" where
  "stream_from open_reader =
     bindE open_reader (\<lambda>r fs.
       case do_stream_read (unat (fr_size r) + 1) [] (fs, r) of
         (Inl e, (fs, r)) \<Rightarrow> (Inl e, fs)
       | (Inr out, (fs, r)) \<Rightarrow> (Inr (out, word_of_nat (length out)), fs))"

definition read_file_to_writer :: "(rstr \<Rightarrow> rstr) \<Rightarrow> rstr \<Rightarrow> (bytes \<times> u64) fs_op" where
  "read_file_to_writer lower name = stream_from (reader_open lower name)"

definition read_file_path_to_writer :: "(rstr \<Rightarrow> rstr) \<Rightarrow> u32 \<Rightarrow> rstr \<Rightarrow> (bytes \<times> u64) fs_op" where
  "read_file_path_to_writer lower now path = stream_from (reader_open_path lower now path)"

end
