(* ===== verification/Exfat_Ops_Spec.thy ===== *)
theory Exfat_Ops_Spec
  imports Exfat_Ops
begin

text \<open>
  What the file operations of \<open>ExfatFs\<close> promise, over the volumes of \<^verbatim>\<open>Exfat_Volume\<close> and the directories
  of \<^verbatim>\<open>Exfat_Dir_Spec\<close>: a file written is a file that reads back, the streaming writer leaves the volume that
  \<open>write_file\<close> leaves however its input is cut into chunks, and the streaming reader returns the bytes of the
  file at its position.
\<close>

section \<open>Contents in a chain\<close>

text \<open>The clusters after a chain has been filled with some data, the last cluster padded.\<close>

fun fill :: "nat \<Rightarrow> u32 list \<Rightarrow> bytes \<Rightarrow> (u32 \<Rightarrow> bytes) \<Rightarrow> u32 \<Rightarrow> bytes" where
  "fill k [] data d = d"
| "fill k (c # cs) data d = fill k cs (drop k data) (d(c := take k data @ replicate (k - length data) 0))"

lemma fill_other: "c \<notin> set cs \<Longrightarrow> fill k cs data d c = d c"
  by (induction k cs data d rule: fill.induct) auto

lemma fill_contents:
  "distinct cs \<Longrightarrow> length data \<le> length cs * k \<Longrightarrow>
     concat (map (fill k cs data d) cs) = data @ replicate (length cs * k - length data) 0"
proof (induction k cs data d rule: fill.induct)
  case (2 k c cs data d)
  define g where "g = d(c := take k data @ replicate (k - length data) 0)"
  have "fill k cs (drop k data) g c = take k data @ replicate (k - length data) 0"
    using 2(2) by (simp add: fill_other g_def)
  moreover have "concat (map (fill k cs (drop k data) g) cs) =
      drop k data @ replicate (length cs * k - length (drop k data)) 0"
    using 2(2,3) unfolding g_def by (intro 2(1)) simp_all
  ultimately have "concat (map (fill k (c # cs) data d) (c # cs)) = take k data @ replicate (k - length data) 0 @
      drop k data @ replicate (length cs * k - length (drop k data)) 0"
    by (simp add: g_def del: fun_upd_apply)
  also have "\<dots> = data @ replicate (length (c # cs) * k - length data) 0"
  proof (cases "length data \<le> k")
    case True
    then show ?thesis by (simp add: replicate_add [symmetric])
  next
    case False
    have "take k data @ drop k data @ zs = data @ zs" for zs by (metis append_take_drop_id append_assoc)
    with False show ?thesis by (simp add: add.commute)
  qed
  finally show ?case .
qed simp

lemma drop_min_length: "drop (min (length xs) k) xs = drop k xs"
  by (simp add: min_def)

lemma write_chunks_ok:
  assumes "fs_ok fs" and "\<forall>c \<in> set cs. in_heap (v_count (vol fs)) c \<and> c \<noteq> 2"
  shows "yields (write_chunks cs data) fs (Inr ())
    (vol fs\<lparr>v_data := fill (v_cluster_size (vol fs)) cs data (v_data (vol fs))\<rparr>)"
  using assms
proof (induction cs arbitrary: data fs)
  case (Cons c cs)
  let ?k = "v_cluster_size (vol fs)"
  let ?v = "vol fs\<lparr>v_data := (v_data (vol fs))(c := take ?k data @ replicate (?k - length data) 0)\<rparr>"
  have w: "yields (write_cluster c (take (min (length data) ?k) data)) fs (Inr ()) ?v"
  proof -
    have "take (min (length data) ?k) data @ replicate (?k - length (take (min (length data) ?k) data)) 0 =
        take ?k data @ replicate (?k - length data) 0" by (simp add: min_def)
    then show ?thesis
      using write_cluster_ok [OF Cons.prems(1), of c "take (min (length data) ?k) data"] Cons.prems(2) by simp
  qed
  have rest: "yields (write_chunks cs (drop (min (length data) ?k) data)) fs' (Inr ())
      (vol fs\<lparr>v_data := fill ?k (c # cs) data (v_data (vol fs))\<rparr>)" if "fs_ok fs'" "vol fs' = ?v" for fs'
  proof -
    have "\<forall>c \<in> set cs. in_heap (v_count (vol fs')) c \<and> c \<noteq> 2" using Cons.prems(2) that(2) by simp
    from Cons.IH [OF that(1) this, of "drop ?k data"] show ?thesis
      unfolding drop_min_length that(2) by (simp del: fun_upd_apply)
  qed
  from yields_bind [OF w rest] show ?case
    unfolding write_chunks.simps by (simp add: yields_def bindE_def getsE_def)
qed simp

lemma length_v_data:
  "fs_ok fs \<Longrightarrow> in_heap (v_count (vol fs)) c \<Longrightarrow> length (v_data (vol fs) c) = v_cluster_size (vol fs)"
  by (simp add: fs_ok_def length_cluster_at)

lemma read_chunks_ok:
  assumes "fs_ok fs" and "\<forall>c \<in> set cs. in_heap (v_count (vol fs)) c"
  shows "yields (read_chunks cs len out) fs (Inr (out @ take (len - length out) (concat (map (v_data (vol fs)) cs)))) (vol fs)"
  using assms(2)
proof (induction cs arbitrary: out)
  case (Cons c cs)
  let ?d = "v_data (vol fs) c"
  have r: "read_cluster c fs = (Inr ?d, fs)"
    by (rule read_cluster_vol [OF assms(1)]) (use Cons.prems in auto)
  have len: "length ?d = unat (cluster_size fs)" using length_v_data [OF assms(1)] Cons.prems by simp
  have "yields (read_chunks cs len (out @ take (len - length out) ?d)) fs
      (Inr (out @ take (len - length out) (?d @ concat (map (v_data (vol fs)) cs)))) (vol fs)"
    using Cons.IH [of "out @ take (len - length out) ?d"] Cons.prems by (simp add: min_def split: if_splits)
  moreover have "take (min (len - length out) (unat (cluster_size fs))) ?d = take (len - length out) ?d"
    using len by (simp add: min_def)
  ultimately show ?case using r by (simp add: yields_def bindE_def getsE_def)
qed (use assms(1) in simp)

text \<open>The contents of a file: what its chain holds, cut at its length.\<close>

definition file_contents :: "volume \<Rightarrow> file_entry_location \<Rightarrow> bytes \<Rightarrow> bool" where
  "file_contents v loc data \<longleftrightarrow> data_length loc = 0 \<and> data = [] \<or>
     data_length loc \<noteq> 0 \<and> (\<exists>cs. chain_from (v_fat v) (loc_first_cluster loc) cs \<and> (\<forall>c \<in> set cs. in_heap (v_count v) c) \<and>
       data = take (unat (data_length loc)) (concat (map (v_data v) cs)))"

lemma read_file_from_location_ok:
  assumes "fs_ok fs" and "file_contents (vol fs) loc data"
  shows "yields (read_file_from_location loc) fs (Inr data) (vol fs)"
proof (cases "data_length loc = 0")
  case True
  then show ?thesis using assms by (simp add: read_file_from_location_def file_contents_def)
next
  case False
  then obtain cs where cs: "chain_from (v_fat (vol fs)) (loc_first_cluster loc) cs" "\<forall>c \<in> set cs. in_heap (v_count (vol fs)) c"
    "data = take (unat (data_length loc)) (concat (map (v_data (vol fs)) cs))"
    using assms(2) by (auto simp: file_contents_def)
  have "yields (bindE (read_cluster_chain (loc_first_cluster loc))
      (\<lambda>chain. read_chunks chain (unat (data_length loc)) [])) fs (Inr data) (vol fs)"
  proof (rule yields_bind [OF read_cluster_chain_ok [OF assms(1) cs(1,2)]])
    fix fs' assume fs': "fs_ok fs'" "vol fs' = vol fs"
    then show "yields (read_chunks cs (unat (data_length loc)) []) fs' (Inr data) (vol fs)"
      using read_chunks_ok [OF fs'(1), of cs "unat (data_length loc)" "[]"] cs(2,3) unfolding fs'(2) by simp
  qed
  then show ?thesis using False by (simp add: read_file_from_location_def)
qed


section \<open>Storing data\<close>

text \<open>A bitmap that keeps track of every cluster of the heap.\<close>

definition bitmap_covers :: "volume \<Rightarrow> bool" where
  "bitmap_covers v \<longleftrightarrow> v_count v \<le> 8 * length (v_data v 2)"

lemma covers_tracked: "bitmap_covers v \<Longrightarrow> in_heap (v_count v) c \<Longrightarrow> tracked (v_data v 2) c"
  by (auto simp: bitmap_covers_def tracked_def in_heap_def)

lemma free_list_mark:
  assumes "bitmap_covers v" and "v_count v + 2 < 2 ^ 32" and "2 \<le> unat (v_root v)" and "\<forall>x \<in> set cs. 2 \<le> unat x"
    and "v_data v' 2 = mark True cs (v_data v 2)" and "v_root v' = v_root v" and "v_count v' = v_count v"
  shows "free_list v' = filter (\<lambda>c. c \<notin> set cs) (free_list v)"
proof -
  have "is_cluster_allocated (mark True cs (v_data v 2)) c \<longleftrightarrow> c \<in> set cs \<or> is_cluster_allocated (v_data v 2) c"
    if range: "c \<in> set (map word_of_nat [Suc (unat (v_root v))..<v_count v + 2])" for c
  proof -
    obtain i where ci: "c = word_of_nat i" and "i \<in> {Suc (unat (v_root v))..<v_count v + 2}"
      using range unfolding set_map set_upt by blast
    then have i: "Suc (unat (v_root v)) \<le> i" "i < v_count v + 2" by simp_all
    then have "unat c = i" using assms(2) ci by (simp add: unat_of_nat)
    then have "in_heap (v_count v) c" using i assms(3) by (simp add: in_heap_def)
    from is_allocated_mark [OF covers_tracked [OF assms(1) this] assms(4)] show ?thesis by simp
  qed
  then show ?thesis
    unfolding free_list_def assms(5-7) filter_filter by (intro filter_cong refl) blast
qed

lemma filter_not_in_take: "distinct xs \<Longrightarrow> filter (\<lambda>x. x \<notin> set (take n xs)) xs = drop n xs"
proof (induction xs arbitrary: n)
  case (Cons x xs)
  show ?case
  proof (cases n)
    case (Suc m)
    have "filter (\<lambda>y. y \<noteq> x \<and> y \<notin> set (take m xs)) xs = filter (\<lambda>y. y \<notin> set (take m xs)) xs"
      using Cons.prems by (intro filter_cong) auto
    then show ?thesis using Suc Cons.IH [of m] Cons.prems by simp
  qed simp
qed simp

text \<open>The volume after data has been stored in free clusters.\<close>

definition stored_volume :: "u32 list \<Rightarrow> bytes \<Rightarrow> volume \<Rightarrow> volume" where
  "stored_volume cs data v = (let v1 = allocated_volume cs v in
     v1\<lparr>v_data := fill (v_cluster_size v) cs data (v_data v1)\<rparr>)"

lemma stored_volume_fields [simp]:
  "v_count (stored_volume cs data v) = v_count v" "v_cluster_size (stored_volume cs data v) = v_cluster_size v"
  "v_root (stored_volume cs data v) = v_root v" "v_boot (stored_volume cs data v) = v_boot v" "v_fat (stored_volume cs data v) = linked cs (v_fat v)"
  "v_data (stored_volume cs data v) = fill (v_cluster_size v) cs data (v_data (allocated_volume cs v))"
  by (simp_all add: stored_volume_def Let_def allocated_volume_def)

lemma stored_volume_Nil: "stored_volume [] [] v = v"
  by (simp add: stored_volume_def allocated_volume_def mark_def)

lemma fs_bounds:
  assumes "fs_ok fs"
  shows "v_count (vol fs) + 2 < 2 ^ 32" and "2 < unat (v_root (vol fs))" and "0 < v_cluster_size (vol fs)"
    and "v_count (vol fs) * v_cluster_size (vol fs) < 2 ^ 64"
  using assms by (auto simp: fs_ok_def geometry_ok_def)

text \<open>The first free clusters of a volume.\<close>

lemma free_clusters:
  assumes "fs_ok fs" and "n \<le> length (free_list (vol fs))"
  defines "cs \<equiv> take n (free_list (vol fs))"
  shows "distinct cs" and "length cs = n" and "c \<in> set cs \<Longrightarrow> in_heap (v_count (vol fs)) c \<and> c \<noteq> 2 \<and> 2 \<le> unat c"
    and "n * v_cluster_size (vol fs) < 2 ^ 64"
proof -
  show d: "distinct cs" and l: "length cs = n"
    using free_list_ok(1) [OF assms(1)] assms(2) by (simp_all add: cs_def)
  show h: "in_heap (v_count (vol fs)) c \<and> c \<noteq> 2 \<and> 2 \<le> unat c" if "c \<in> set cs" for c
    using free_list_ok(2) [OF assms(1), of c] that by (auto simp: cs_def dest: in_set_takeD)
  have "n \<le> v_count (vol fs)" using length_heap_distinct [OF d] h l by blast
  then have "n * v_cluster_size (vol fs) \<le> v_count (vol fs) * v_cluster_size (vol fs)" by simp
  then show "n * v_cluster_size (vol fs) < 2 ^ 64" using fs_bounds(4) [OF assms(1)] by linarith
qed

lemma stored_volume_ok:
  fixes data
  assumes "fs_ok fs" and "n \<le> length (free_list (vol fs))" and "bitmap_covers (vol fs)"
  defines "cs \<equiv> take n (free_list (vol fs))" and "v \<equiv> stored_volume (take n (free_list (vol fs))) data (vol fs)"
  shows "free_list v = drop n (free_list (vol fs))"
    and "c \<noteq> 2 \<Longrightarrow> c \<notin> set cs \<Longrightarrow> v_data v c = v_data (vol fs) c" and "c \<notin> set cs \<Longrightarrow> v_fat v c = v_fat (vol fs) c"
    and "0 < n \<Longrightarrow> chain_from (v_fat v) (hd cs) cs"
    and "length data \<le> n * v_cluster_size (vol fs) \<Longrightarrow> take (length data) (concat (map (v_data v) cs)) = data"
    and "bitmap_covers v"
proof -
  note fc = free_clusters [OF assms(1,2), folded cs_def]
  have v: "v = stored_volume cs data (vol fs)" by (simp add: v_def cs_def)
  have "2 \<notin> set cs" using fc(3) by blast
  then have bm: "v_data v 2 = mark True cs (v_data (vol fs) 2)" by (simp add: v fill_other)
  have "2 \<le> unat (v_root (vol fs))" using fs_bounds(2) [OF assms(1)] by simp
  from free_list_mark [OF assms(3) fs_bounds(1) [OF assms(1)] this _ bm]
  have "free_list v = filter (\<lambda>c. c \<notin> set cs) (free_list (vol fs))" using fc(3) by (simp add: v)
  then show "free_list v = drop n (free_list (vol fs))"
    using filter_not_in_take free_list_ok(1) [OF assms(1)] by (simp add: cs_def)
  show "v_data v c = v_data (vol fs) c" if "c \<noteq> 2" "c \<notin> set cs" using that by (simp add: v fill_other)
  show "v_fat v c = v_fat (vol fs) c" if "c \<notin> set cs" using that by (simp add: v linked_other)
  show "chain_from (v_fat v) (hd cs) cs" if "0 < n"
    using allocation_ok(4) [OF assms(1) that assms(2)] by (simp add: v cs_def)
  show "take (length data) (concat (map (v_data v) cs)) = data" if "length data \<le> n * v_cluster_size (vol fs)"
    using fill_contents [OF fc(1), of data "v_cluster_size (vol fs)" "v_data (allocated_volume cs (vol fs))"] that fc(2) by (simp add: v)
  show "bitmap_covers v" using assms(3) bm by (simp add: bitmap_covers_def v)
qed

text \<open>Allocating the clusters of some data and filling them, as \<open>write_file_data_and_entry\<close> does.\<close>

definition store_data :: "nat \<Rightarrow> bytes \<Rightarrow> u32 fs_op" where
  "store_data n data =
     (if n > 0 then bindE (allocate_clusters n) (\<lambda>first. bindE (read_cluster_chain first) (\<lambda>chain.
        bindE (write_chunks chain data) (\<lambda>_. returnE first))) else returnE 0)"

lemma store_data_pos:
  assumes "fs_ok fs" and "0 < n" and "n \<le> length (free_list (vol fs))"
  defines "cs \<equiv> take n (free_list (vol fs))"
  shows "yields (bindE (allocate_clusters n) (\<lambda>first. bindE (read_cluster_chain first) (\<lambda>chain.
      bindE (write_chunks chain data) (\<lambda>_. returnE first)))) fs (Inr (hd cs)) (stored_volume cs data (vol fs))"
proof (rule yields_bind [OF allocate_clusters_ok [OF assms(1-3)]], fold cs_def)
  note fc = free_clusters [OF assms(1,3), folded cs_def]
  fix fs1 assume fs1: "fs_ok fs1" "vol fs1 = allocated_volume cs (vol fs)"
  have chain: "chain_from (v_fat (vol fs1)) (hd cs) cs"
    using allocation_ok(4) [OF assms(1-3)] by (simp add: fs1(2) cs_def)
  have heap: "\<forall>c \<in> set cs. in_heap (v_count (vol fs1)) c" using fc(3) by (simp add: fs1(2))
  show "yields (bindE (read_cluster_chain (hd cs)) (\<lambda>chain. bindE (write_chunks chain data) (\<lambda>_. returnE (hd cs)))) fs1
      (Inr (hd cs)) (stored_volume cs data (vol fs))"
  proof (rule yields_bind [OF read_cluster_chain_ok [OF fs1(1) chain heap]])
    fix fs2 assume fs2: "fs_ok fs2" "vol fs2 = vol fs1"
    have "\<forall>c \<in> set cs. in_heap (v_count (vol fs2)) c \<and> c \<noteq> 2" using fc(3) heap by (simp add: fs2(2))
    from write_chunks_ok [OF fs2(1) this, of data]
    have w: "yields (write_chunks cs data) fs2 (Inr ()) (stored_volume cs data (vol fs))"
      by (simp only: fs2(2) fs1(2) stored_volume_def Let_def allocated_volume_fields)
    show "yields (bindE (write_chunks cs data) (\<lambda>_. returnE (hd cs))) fs2 (Inr (hd cs)) (stored_volume cs data (vol fs))"
      by (rule yields_bind [OF w]) simp
  qed
qed


lemma store_data_ok:
  assumes "fs_ok fs" and "n \<le> length (free_list (vol fs))" and "n = 0 \<Longrightarrow> data = []"
  shows "yields (store_data n data) fs (Inr (if n > 0 then hd (take n (free_list (vol fs))) else 0))
    (stored_volume (take n (free_list (vol fs))) data (vol fs))"
  using store_data_pos [OF assms(1) _ assms(2)] assms(1,3)
  by (cases "n > 0") (simp_all add: store_data_def stored_volume_Nil)

section \<open>A file and its entry\<close>

lemma dir_view_cong:
  assumes "dir_view v dir css" and "v_count v' = v_count v"
    and "\<And>c. c \<in> set (map fst css) \<Longrightarrow> v_fat v' c = v_fat v c \<and> v_data v' c = v_data v c"
  shows "dir_view v' dir css"
proof -
  have "chain_from (v_fat v') dir (map fst css)"
    by (rule chain_from_cong [of "v_fat v"]) (use assms in \<open>auto simp: dir_view_def\<close>)
  moreover have "clusters_ok v' css"
    by (rule clusters_ok_cong [of v]) (use assms in \<open>auto simp: dir_view_def\<close>)
  ultimately show ?thesis using assms(1) by (simp add: dir_view_def)
qed

lemma dir_not_bitmap: "dir_view v dir css \<Longrightarrow> 2 \<notin> set (map fst css)"
  by (auto simp: dir_view_def clusters_ok_def)

lemma clusters_for_bounds:
  assumes "0 < k"
  shows "n \<le> clusters_for k n * k" and "clusters_for k n = 0 \<longleftrightarrow> n = 0"
proof -
  have "n \<le> (n + k - 1) div k * k" if "0 < n"
  proof -
    have "(n + k - 1) mod k < k" using assms by simp
    then show ?thesis using div_mult_mod_eq [of "n + k - 1" k] that by linarith
  qed
  then show "n \<le> clusters_for k n * k" by (simp add: clusters_for_def)
  show "clusters_for k n = 0 \<longleftrightarrow> n = 0" using assms by (auto simp: clusters_for_def div_eq_0_iff)
qed

text \<open>A name that can be found again: what its entry set carries matches it.\<close>

definition retrievable :: "(rstr \<Rightarrow> rstr) \<Rightarrow> rstr \<Rightarrow> bool" where
  "retrievable lower name \<longleftrightarrow> length (encode_utf16 name) \<le> 255 \<and> lower (stored_name name) = lower name"

lemma lookup_new:
  assumes "retrievable lower name" and "lookup lower (lower name) (xs @ ys) = None"
  shows "lookup lower (lower name) (xs @ (c, off, create_file_entries now name first sz d) # ys) =
    Some (location (c, off, create_file_entries now name first sz d))"
proof -
  have "set_name (create_file_entries now name first sz d) = stored_name name"
    using create_file_entries_facts(2) assms(1) by (simp add: set_name_def retrievable_def)
  moreover have "lookup lower (lower name) xs = None" using assms(2) by (simp add: lookup_append split: option.splits)
  ultimately show ?thesis using assms(1) by (simp add: lookup_append retrievable_def)
qed

lemma location_new:
  assumes "retrievable lower name"
  shows "loc_first_cluster (location (c, off, create_file_entries now name first sz d)) = first"
    and "data_length (location (c, off, create_file_entries now name first sz d)) = sz"
    and "is_directory (location (c, off, create_file_entries now name first sz d)) = d"
  using create_file_entries_facts(2,3) assms by (simp_all add: location_def retrievable_def)

text \<open>What writing the data of a new file and its entry leaves: the directory with one more file, whose
  contents are the data, and every cluster outside the directory, the bitmap and the free ones as it was.\<close>

definition file_added :: "volume \<Rightarrow> volume \<Rightarrow> u32 \<Rightarrow> dir_clusters \<Rightarrow> u32 \<Rightarrow> rstr \<Rightarrow> bytes \<Rightarrow> bool" where
  "file_added v v' dir css now name data \<longleftrightarrow> v_count v' = v_count v \<and> v_root v' = v_root v \<and>
     v_cluster_size v' = v_cluster_size v \<and> v_boot v' = v_boot v \<and> (\<exists>css' xs ys c off first.
     let s = (c, off, create_file_entries now name first (word_of_nat (length data)) False) in
       dir_view v' dir css' \<and> dir_sets css = xs @ ys \<and> dir_sets css' = xs @ s # ys \<and> file_contents v' (location s) data \<and>
       (\<forall>c. c \<noteq> 2 \<longrightarrow> c \<notin> set (free_list v) \<longrightarrow> c \<notin> set (map fst css) \<longrightarrow> v_data v' c = v_data v c \<and> v_fat v' c = v_fat v c))"

lemma entry_of_stored_ok:
  assumes ok: "fs_ok fs" and ok1: "fs_ok fs1" and view: "dir_view (vol fs) dir css" and name: "retrievable lower name"
    and free: "set (free_list (vol fs)) \<inter> set (map fst css) = {}" and cov: "bitmap_covers (vol fs)"
    and sz: "v_cluster_size (vol fs) mod 32 = 0" "1024 \<le> v_cluster_size (vol fs)"
    and n: "n < length (free_list (vol fs))" "length data \<le> n * v_cluster_size (vol fs)" "n = 0 \<longleftrightarrow> data = []"
    and v1: "vol fs1 = stored_volume (take n (free_list (vol fs))) data (vol fs)"
    and first: "0 < n \<Longrightarrow> first = hd (take n (free_list (vol fs)))"
  shows "\<exists>v'. yields (create_entry_in_directory now dir name first (word_of_nat (length data)) False) fs1 (Inr ()) v' \<and>
    file_added (vol fs) v' dir css now name data"
proof -
  let ?cs = "take n (free_list (vol fs))"
  have "n \<le> length (free_list (vol fs))" using n(1) by simp
  note st = stored_volume_ok [OF ok this cov, where data = data, folded v1]
  note fc = free_clusters [OF ok \<open>n \<le> length (free_list (vol fs))\<close>]
  have cs_free: "set ?cs \<subseteq> set (free_list (vol fs))" by (rule set_take_subset)
  have outside: "c \<notin> set ?cs" if "c \<in> set (map fst css)" for c using that free cs_free by blast
  have view1: "dir_view (vol fs1) dir css"
    using view
  proof (rule dir_view_cong)
    show "v_count (vol fs1) = v_count (vol fs)" by (simp only: v1 stored_volume_fields)
    show "v_fat (vol fs1) c = v_fat (vol fs) c \<and> v_data (vol fs1) c = v_data (vol fs) c" if "c \<in> set (map fst css)" for c
      using outside [OF that] st(2,3) dir_not_bitmap [OF view] that by metis
  qed
  have free1: "set (free_list (vol fs1)) \<inter> set (map fst css) = {}"
    using free unfolding st(1) by (meson disjoint_iff in_set_dropD)
  have ne: "free_list (vol fs1) \<noteq> []" using n(1) unfolding st(1) by simp
  have sz1: "v_cluster_size (vol fs1) mod 32 = 0" "1024 \<le> v_cluster_size (vol fs1)"
    using sz by (simp_all only: v1 stored_volume_fields)
  let ?es = "create_file_entries now name first (word_of_nat (length data)) False"
  from create_entry_ok [OF ok1 view1 _ free1 sz1, of name now first "word_of_nat (length data)" False] ne name
  obtain v' css' where y: "yields (create_entry_in_directory now dir name first (word_of_nat (length data)) False) fs1 (Inr ()) v'"
    "dir_view v' dir css'" "entry_added css css' ?es" "dir_frame (vol fs1) v' css css'"
    unfolding retrievable_def by metis
  from y(3) obtain xs ys c off where sets: "dir_sets css = xs @ ys" "dir_sets css' = xs @ (c, off, ?es) # ys"
    unfolding entry_added_def by blast
  have new: "x \<in> set (map fst css) \<or> x \<in> set (drop n (free_list (vol fs)))" if x: "x \<in> set (map fst css')" for x
  proof -
    from y(4) have "map fst css' = map fst css \<or> (\<exists>z zs. free_list (vol fs1) = z # zs \<and> map fst css' = map fst css @ [z])"
      unfolding dir_frame_def by blast
    with x show ?thesis unfolding st(1) by (metis Un_iff empty_iff empty_set list.set_intros(1) set_ConsD set_append)
  qed
  have disj: "set ?cs \<inter> set (drop n (free_list (vol fs))) = {}"
    using free_list_ok(1) [OF ok] by (rule set_take_disj_set_drop_if_distinct) simp
  have keep: "v_data v' x = v_data (vol fs1) x \<and> v_fat v' x = v_fat (vol fs1) x" if "x \<noteq> 2" "x \<notin> set (map fst css')" for x
    using y(4) that unfolding dir_frame_def by blast
  have cs_keep: "v_data v' x = v_data (vol fs1) x \<and> v_fat v' x = v_fat (vol fs1) x" if "x \<in> set ?cs" for x
    using keep [of x] fc(3) [OF that] that new [of x] disj outside by blast
  have other: "v_data v' x = v_data (vol fs) x \<and> v_fat v' x = v_fat (vol fs) x"
    if x: "x \<noteq> 2" "x \<notin> set (free_list (vol fs))" "x \<notin> set (map fst css)" for x
  proof -
    have "x \<notin> set ?cs" using x(2) cs_free by blast
    moreover have "x \<notin> set (map fst css')" using new [of x] x in_set_dropD [of x n "free_list (vol fs)"] by blast
    ultimately show ?thesis using keep [OF x(1)] st(2,3) x(1) by metis
  qed
  have contents: "file_contents v' (location (c, off, ?es)) data"
  proof (cases "data = []")
    case True
    then show ?thesis using location_new [OF name] by (simp add: file_contents_def)
  next
    case False
    then have "0 < n" using n(3) by simp
    have "length data < 2 ^ 64" using n(2) fc(4) by linarith
    then have len: "unat (word_of_nat (length data) :: u64) = length data" by (simp add: unat_of_nat)
    have chain: "chain_from (v_fat v') first ?cs"
      using chain_from_cong [OF st(4) [OF \<open>0 < n\<close>], of "v_fat v'"] cs_keep first [OF \<open>0 < n\<close>] by simp
    have "map (v_data v') ?cs = map (v_data (vol fs1)) ?cs" using cs_keep by (intro map_cong refl) blast
    then have "data = take (length data) (concat (map (v_data v') ?cs))" using st(5) [OF n(2)] by (simp only:)
    moreover have "\<forall>x \<in> set ?cs. in_heap (v_count v') x"
      using fc(3) y(4) by (simp add: dir_frame_def v1)
    moreover have "(word_of_nat (length data) :: u64) \<noteq> 0" using len False by (metis length_0_conv unsigned_0)
    ultimately show ?thesis using location_new [OF name] chain len unfolding file_contents_def by metis
  qed
  have "file_added (vol fs) v' dir css now name data"
  proof -
    have "v_count v' = v_count (vol fs) \<and> v_root v' = v_root (vol fs) \<and>
        v_cluster_size v' = v_cluster_size (vol fs) \<and> v_boot v' = v_boot (vol fs)" using y(4) by (simp add: dir_frame_def v1)
    then show ?thesis unfolding file_added_def Let_def using y(2) sets contents other by blast
  qed
  with y(1) show ?thesis by blast
qed

lemma write_file_data_and_entry_eq:
  assumes "0 < v_cluster_size (vol fs)"
  shows "write_file_data_and_entry now dir name data fs =
    bindE (store_data (clusters_for (v_cluster_size (vol fs)) (length data)) data)
      (\<lambda>first. create_entry_in_directory now dir name first (word_of_nat (length data)) False) fs"
  using assms by (simp add: write_file_data_and_entry_def store_data_def Let_def)

lemma write_data_entry_ok:
  assumes ok: "fs_ok fs" and view: "dir_view (vol fs) dir css" and name: "retrievable lower name"
    and free: "set (free_list (vol fs)) \<inter> set (map fst css) = {}" and cov: "bitmap_covers (vol fs)"
    and sz: "v_cluster_size (vol fs) mod 32 = 0" "1024 \<le> v_cluster_size (vol fs)"
    and n: "clusters_for (v_cluster_size (vol fs)) (length data) < length (free_list (vol fs))"
  shows "\<exists>v'. yields (write_file_data_and_entry now dir name data) fs (Inr ()) v' \<and> file_added (vol fs) v' dir css now name data"
proof -
  let ?n = "clusters_for (v_cluster_size (vol fs)) (length data)"
  have k: "0 < v_cluster_size (vol fs)" using sz(2) by simp
  note cf = clusters_for_bounds [OF k, of "length data"]
  define first where "first = (if ?n > 0 then hd (take ?n (free_list (vol fs))) else 0)"
  have "?n \<le> length (free_list (vol fs))" "?n = 0 \<Longrightarrow> data = []" using n cf(2) by simp_all
  from store_data_ok [OF ok this, folded first_def]
  obtain fs1 where fs1: "store_data ?n data fs = (Inr first, fs1)" "fs_ok fs1"
      "vol fs1 = stored_volume (take ?n (free_list (vol fs))) data (vol fs)" by (rule yieldsE)
  have "?n = 0 \<longleftrightarrow> data = []" using cf(2) by simp
  from entry_of_stored_ok [OF ok fs1(2) view name free cov sz n cf(1) this fs1(3), of first now]
  obtain v' where "yields (create_entry_in_directory now dir name first (word_of_nat (length data)) False) fs1 (Inr ()) v'"
    "file_added (vol fs) v' dir css now name data" by (auto simp: first_def)
  then show ?thesis
    unfolding yields_def write_file_data_and_entry_eq [OF k] using fs1(1) by auto
qed


section \<open>Writing and reading\<close>

lemma read_file_ok:
  assumes "fs_ok fs" and "dir_view (vol fs) (v_root (vol fs)) css" and "lookup lower (lower name) (dir_sets css) = Some loc"
    and "file_contents (vol fs) loc data"
  shows "yields (read_file lower name) fs (Inr data) (vol fs)"
proof -
  have "yields (find_file_entry lower name) fs (Inr (Some loc)) (vol fs)"
    using find_entry_ok [OF assms(1,2), of lower name] assms(3) by (simp add: find_file_entry_def yields_def)
  then show ?thesis
    unfolding read_file_def
  proof (rule yields_bind)
    fix fs' assume "fs_ok fs'" "vol fs' = vol fs"
    then show "yields (case Some loc of None \<Rightarrow> throwE (file_not_found name) | Some loc \<Rightarrow> read_file_from_location loc)
        fs' (Inr data) (vol fs)"
      using read_file_from_location_ok [of fs' loc data] assms(4) by simp
  qed
qed

text \<open>A file whose clusters are neither free nor those of the directory or the bitmap.\<close>

definition file_apart :: "volume \<Rightarrow> dir_clusters \<Rightarrow> file_entry_location \<Rightarrow> bool" where
  "file_apart v css loc \<longleftrightarrow> (\<forall>cs. chain_from (v_fat v) (loc_first_cluster loc) cs \<longrightarrow>
     (\<forall>c \<in> set cs. c \<noteq> 2 \<and> c \<notin> set (free_list v) \<and> c \<notin> set (map fst css)))"

lemma file_contents_cong:
  assumes "file_contents v loc data" and "file_apart v css loc" and "v_count v' = v_count v"
    and "\<forall>c. c \<noteq> 2 \<longrightarrow> c \<notin> set (free_list v) \<longrightarrow> c \<notin> set (map fst css) \<longrightarrow> v_data v' c = v_data v c \<and> v_fat v' c = v_fat v c"
  shows "file_contents v' loc data"
proof (cases "data_length loc = 0")
  case False
  then obtain cs where cs: "chain_from (v_fat v) (loc_first_cluster loc) cs" "\<forall>c \<in> set cs. in_heap (v_count v) c"
    "data = take (unat (data_length loc)) (concat (map (v_data v) cs))"
    using assms(1) by (auto simp: file_contents_def)
  have same: "v_data v' c = v_data v c" "v_fat v' c = v_fat v c" if "c \<in> set cs" for c
    using assms(2,4) cs(1) that unfolding file_apart_def by blast+
  have "chain_from (v_fat v') (loc_first_cluster loc) cs" using cs(1) same(2) by (rule chain_from_cong)
  moreover have "map (v_data v') cs = map (v_data v) cs" using same(1) by simp
  ultimately show ?thesis using cs(2,3) False assms(3) unfolding file_contents_def by metis
qed (use assms(1) in \<open>simp add: file_contents_def\<close>)

lemma lookup_skip:
  "lower (set_name es) \<noteq> t \<Longrightarrow> lookup lower t (xs @ (c, off, es) # ys) = lookup lower t (xs @ ys)"
  by (simp add: lookup_append split: option.split)

lemma find_file_ok:
  "fs_ok fs \<Longrightarrow> dir_view (vol fs) (v_root (vol fs)) css \<Longrightarrow>
     yields (find_file_entry lower name) fs (Inr (lookup lower (lower name) (dir_sets css))) (vol fs)"
  using find_entry_ok [of fs "v_root (vol fs)" css lower name] by (simp add: find_file_entry_def yields_def)

lemma write_file_exists:
  assumes "fs_ok fs" and "dir_view (vol fs) (v_root (vol fs)) css" and "\<not> invalid_name name"
    and "lookup lower (lower name) (dir_sets css) \<noteq> None"
  shows "yields (write_file lower now name data) fs (Inl (already_exists name)) (vol fs)"
proof -
  define g where "g = (\<lambda>existing :: file_entry_location option. if existing \<noteq> None then throwE (already_exists name)
    else bindE (getsE first_cluster_of_root) (\<lambda>root. write_file_data_and_entry now root name data))"
  have "yields (bindE (find_file_entry lower name) g) fs (Inl (already_exists name)) (vol fs)"
    by (rule yields_bind [OF find_file_ok [OF assms(1,2)]]) (use assms(4) in \<open>simp add: g_def\<close>)
  then show ?thesis using assms(3) by (simp add: write_file_def g_def)
qed

lemma write_file_new:
  assumes "fs_ok fs" and "dir_view (vol fs) (v_root (vol fs)) css" and "\<not> invalid_name name"
    and "lookup lower (lower name) (dir_sets css) = None"
  obtains fs1 where "fs_ok fs1" and "vol fs1 = vol fs"
    and "write_file lower now name data fs = write_file_data_and_entry now (v_root (vol fs)) name data fs1"
proof -
  from find_file_ok [OF assms(1,2), of lower name] obtain fs1 where fs1:
    "find_file_entry lower name fs = (Inr None, fs1)" "fs_ok fs1" "vol fs1 = vol fs"
    unfolding assms(4) by (rule yieldsE)
  have "first_cluster_of_root fs1 = v_root (vol fs)" unfolding fs1(3) [symmetric] by simp
  then have "write_file lower now name data fs = write_file_data_and_entry now (v_root (vol fs)) name data fs1"
    using fs1(1) assms(3) by (simp add: write_file_def bindE_def getsE_def)
  with fs1 that show thesis by blast
qed

lemma file_added_reads:
  assumes ok': "fs_ok fs'" and "file_added (vol fs) (vol fs') (v_root (vol fs)) css now name data"
    and new: "lookup lower (lower name) (dir_sets css) = None" and name: "retrievable lower name"
  shows "yields (read_file lower name) fs' (Inr data) (vol fs')"
    and "\<forall>other loc d. lookup lower (lower other) (dir_sets css) = Some loc \<and> file_contents (vol fs) loc d \<and>
        file_apart (vol fs) css loc \<longrightarrow> yields (read_file lower other) fs' (Inr d) (vol fs')"
proof -
  let ?v = "vol fs"
  from assms(2) obtain css' xs ys c off first where a: "v_count (vol fs') = v_count ?v" "v_root (vol fs') = v_root ?v"
    "dir_view (vol fs') (v_root ?v) css'" "dir_sets css = xs @ ys"
    "dir_sets css' = xs @ (c, off, create_file_entries now name first (word_of_nat (length data)) False) # ys"
    "file_contents (vol fs') (location (c, off, create_file_entries now name first (word_of_nat (length data)) False)) data"
    "\<forall>c. c \<noteq> 2 \<longrightarrow> c \<notin> set (free_list ?v) \<longrightarrow> c \<notin> set (map fst css) \<longrightarrow>
      v_data (vol fs') c = v_data ?v c \<and> v_fat (vol fs') c = v_fat ?v c"
    unfolding file_added_def Let_def by blast
  let ?es = "create_file_entries now name first (word_of_nat (length data)) False"
  have view': "dir_view (vol fs') (v_root (vol fs')) css'" using a(2,3) by simp
  have "lookup lower (lower name) (dir_sets css') = Some (location (c, off, ?es))"
    using lookup_new [OF name] new unfolding a(4,5) by blast
  from read_file_ok [OF ok' view' this a(6)]
  show "yields (read_file lower name) fs' (Inr data) (vol fs')" .
  have "yields (read_file lower other) fs' (Inr d) (vol fs')"
    if o: "lookup lower (lower other) (dir_sets css) = Some loc" "file_contents ?v loc d" "file_apart ?v css loc" for other loc d
  proof (rule read_file_ok [OF ok' view'])
    have "lower (set_name ?es) = lower name"
      using create_file_entries_facts(2) name by (simp add: set_name_def retrievable_def)
    moreover have "lower other \<noteq> lower name" using o(1) new by auto
    ultimately show "lookup lower (lower other) (dir_sets css') = Some loc"
      using o(1) lookup_skip [of lower ?es "lower other" xs c off ys] unfolding a(4,5) by simp
    show "file_contents (vol fs') loc d" using o(2,3) a(1,7) by (rule file_contents_cong)
  qed
  then show "\<forall>other loc d. lookup lower (lower other) (dir_sets css) = Some loc \<and> file_contents ?v loc d \<and>
        file_apart ?v css loc \<longrightarrow> yields (read_file lower other) fs' (Inr d) (vol fs')" by blast
qed

lemma small_writable:
  "dir_view (vol small) (v_root (vol small)) [(3, empty_cluster 1024)]"
  "\<not> invalid_name [65]" "retrievable id [65]" "dir_sets [(3, empty_cluster 1024)] = []"
  "set (free_list (vol small)) \<inter> set (map fst [(3, empty_cluster 1024)]) = {}"
  "bitmap_covers (vol small)" "v_cluster_size (vol small) mod 32 = 0" "1024 \<le> v_cluster_size (vol small)"
  subgoal using small_root by (simp add: small_fields)
  subgoal by (simp add: invalid_name_def utf8_len_def utf8_width_def)
  subgoal using stored_name_bmp [of "[65]"] by (simp add: retrievable_def encode_utf16_def char_units_def bmp_name_def is_scalar_def)
  subgoal by (simp add: item_sets_empty)
  subgoal by (simp add: small_free_list)
  subgoal using small_cluster(1) by (simp add: bitmap_covers_def small_fields del: v_data_vol)
  subgoal by (simp add: small_fields)
  subgoal by (simp add: small_fields)
  done

text \<open>C2: Writing a file to the root directory of any good volume. If its name is taken, the call fails and
  nothing changes. Otherwise, when the bitmap covers the heap and there are enough free clusters (one more than
  the data needs, for a directory that is full), the call succeeds and leaves a good volume; the file
  then reads back as its data, whatever their length; and every other file of the directory
  that was apart from free clusters and directory reads back as before.\<close>

theorem write_file_then_read:
  assumes ok: "fs_ok fs" and view: "dir_view (vol fs) (v_root (vol fs)) css" and "\<not> invalid_name name"
    and name: "retrievable lower name"
    and free: "set (free_list (vol fs)) \<inter> set (map fst css) = {}" and cov: "bitmap_covers (vol fs)"
    and sz: "v_cluster_size (vol fs) mod 32 = 0" "1024 \<le> v_cluster_size (vol fs)"
    and n: "clusters_for (v_cluster_size (vol fs)) (length data) < length (free_list (vol fs))"
  shows "if lookup lower (lower name) (dir_sets css) \<noteq> None
    then yields (write_file lower now name data) fs (Inl (already_exists name)) (vol fs)
    else \<exists>fs'. write_file lower now name data fs = (Inr (), fs') \<and> fs_ok fs' \<and>
      yields (read_file lower name) fs' (Inr data) (vol fs') \<and>
      (\<forall>other loc d. lookup lower (lower other) (dir_sets css) = Some loc \<and> file_contents (vol fs) loc d \<and>
        file_apart (vol fs) css loc \<longrightarrow> yields (read_file lower other) fs' (Inr d) (vol fs'))"
proof (cases "lookup lower (lower name) (dir_sets css)")
  case (Some loc)
  then show ?thesis using write_file_exists [OF ok view assms(3)] by simp
next
  case None
  let ?v = "vol fs"
  obtain fs1 where fs1: "fs_ok fs1" "vol fs1 = ?v"
    "write_file lower now name data fs = write_file_data_and_entry now (v_root ?v) name data fs1"
    using write_file_new [OF ok view assms(3) None] .
  from write_data_entry_ok [OF fs1(1), unfolded fs1(2), OF view name free cov sz n]
  obtain fs' where fs': "write_file lower now name data fs = (Inr (), fs')" "fs_ok fs'"
      "file_added ?v (vol fs') (v_root ?v) css now name data" unfolding fs1(3) yields_def by blast
  from fs'(1,2) file_added_reads [OF fs'(2,3) None name] None show ?thesis by simp
qed

theorem write_file_then_read_witness:
  "\<exists>fs'. write_file id 0 [65] [1, 2, 3] small = (Inr (), fs') \<and> fst (read_file id [65] fs') = Inr [1, 2, 3]"
proof -
  note w = small_writable
  have "clusters_for (v_cluster_size (vol small)) (length [1, 2, 3 :: u8]) < length (free_list (vol small))"
    by (simp add: clusters_for_def small_fields small_free_list)
  from write_file_then_read [OF small_ok w(1-3,5-8) this, of 0] w(4) show ?thesis by (auto simp: yields_def)
qed

section \<open>The streaming writer\<close>

lemma fill_snoc:
  "fill k (cs @ [c]) data d = (fill k cs data d)(c := take k (drop (length cs * k) data) @
     replicate (k - length (drop (length cs * k) data)) 0)"
  by (induction k cs data d rule: fill.induct) (simp_all add: add.commute del: fun_upd_apply)

text \<open>The writer after \<open>p\<close> bytes of the data \<open>D\<close>: all full clusters are written, the rest is in the buffer.\<close>

definition writer_ok :: "bytes \<Rightarrow> u32 list \<Rightarrow> volume \<Rightarrow> bool" where
  "writer_ok D cs v \<longleftrightarrow> 0 < v_cluster_size v \<and> length D \<le> length cs * v_cluster_size v \<and> length D < 2 ^ 64 \<and>
     distinct cs \<and> (\<forall>c \<in> set cs. in_heap (v_count v) c \<and> c \<noteq> 2)"

definition partly_filled :: "bytes \<Rightarrow> u32 list \<Rightarrow> nat \<Rightarrow> volume \<Rightarrow> volume" where
  "partly_filled D cs i v = v\<lparr>v_data := fill (v_cluster_size v) (take i cs) D (v_data v)\<rparr>"

definition writer_at :: "bytes \<Rightarrow> u32 list \<Rightarrow> rstr \<Rightarrow> u32 \<Rightarrow> nat \<Rightarrow> nat \<Rightarrow> file_writer" where
  "writer_at D cs name dir k p = \<lparr>fw_name = name, fw_dir_cluster = dir, fw_total_size = word_of_nat (length D),
     fw_clusters = cs, fw_index = p div k, fw_buffer = drop (p div k * k) (take p D), fw_written = word_of_nat p\<rparr>"

definition writing :: "bytes \<Rightarrow> u32 list \<Rightarrow> rstr \<Rightarrow> u32 \<Rightarrow> volume \<Rightarrow> nat \<Rightarrow> exfat_fs \<times> file_writer \<Rightarrow> bool" where
  "writing D cs name dir v p s \<longleftrightarrow> p \<le> length D \<and> fs_ok (fst s) \<and>
     vol (fst s) = partly_filled D cs (p div v_cluster_size v) v \<and>
     snd s = writer_at D cs name dir (v_cluster_size v) p"


lemma diff_min: "k - min a k = k - (a :: nat)"
  by simp

lemma write_next_cluster:
  assumes "writer_ok D cs v" and "fs_ok fs" and "vol fs = partly_filled D cs i v" and "i < length cs"
    and "b = take (v_cluster_size v) (drop (i * v_cluster_size v) D)"
  shows "yields (write_cluster (cs ! i) b) fs (Inr ()) (partly_filled D cs (Suc i) v)"
proof -
  have c: "in_heap (v_count (vol fs)) (cs ! i)" "cs ! i \<noteq> 2" "length b \<le> v_cluster_size (vol fs)"
    using assms by (simp_all add: writer_ok_def partly_filled_def)
  have k: "unat (cluster_size fs) = v_cluster_size v"
    using arg_cong [OF assms(3), of v_cluster_size] by (simp add: partly_filled_def)
  have "vol fs\<lparr>v_data := (v_data (vol fs))(cs ! i := b @ replicate (unat (cluster_size fs) - length b) 0)\<rparr> =
      partly_filled D cs (Suc i) v"
    unfolding assms(3) k using assms(4,5)
    by (simp add: partly_filled_def take_Suc_conv_app_nth fill_snoc diff_min del: fun_upd_apply)
  moreover have "yields (write_cluster (cs ! i) b) fs (Inr ())
      (vol fs\<lparr>v_data := (v_data (vol fs))(cs ! i := b @ replicate (unat (cluster_size fs) - length b) 0)\<rparr>)"
    using write_cluster_ok [OF assms(2), of "cs ! i" b] c by simp
  ultimately show ?thesis by simp
qed

lemma unat_of_nat64: "n < 2 ^ 64 \<Longrightarrow> unat (word_of_nat n :: u64) = n"
  by (simp add: unat_of_nat)

lemma less_of_nat64: "p \<le> n \<Longrightarrow> n < 2 ^ 64 \<Longrightarrow> (word_of_nat p :: u64) < word_of_nat n \<longleftrightarrow> p < n"
  by (simp add: word_less_nat_alt unat_of_nat64)

lemma unat_diff64: "p \<le> n \<Longrightarrow> n < 2 ^ 64 \<Longrightarrow> unat (word_of_nat n - word_of_nat p :: u64) = n - p"
  by (simp add: unat_sub word_le_nat_alt unat_of_nat64)

text \<open>What is left of the input starts with what is left to write.\<close>

definition supplies :: "bytes \<Rightarrow> bytes \<Rightarrow> bool" where
  "supplies input left \<longleftrightarrow> (\<exists>rest. left = take (length left) (input @ rest))"

lemma supplies_take:
  assumes "supplies input left" and "q \<le> length input" and "q \<le> length left"
  shows "take q left = take q input"
proof -
  from assms(1) obtain rest where "left = take (length left) (input @ rest)" unfolding supplies_def by blast
  then have "take q left = take q (take (length left) (input @ rest))" by simp
  also have "\<dots> = take q input" using assms(2,3) by (simp del: take_append) (simp add: take_append)
  finally show ?thesis .
qed

lemma supplies_drop:
  assumes "supplies input left" and "q \<le> length input"
  shows "supplies (drop q input) (drop q left)"
proof -
  from assms(1) obtain rest where r: "left = take (length left) (input @ rest)" unfolding supplies_def by blast
  have "drop q left = drop q (take (length left) (input @ rest))" using r by simp
  also have "\<dots> = take (length (drop q left)) (drop q input @ rest)" using assms(2) by (simp only: drop_take drop_append length_drop) simp
  finally show ?thesis unfolding supplies_def by blast
qed

lemma div_step:
  assumes "0 < (k :: nat)" and "q \<le> k - p mod k"
  shows "(p + q) div k = (if p mod k + q = k then Suc (p div k) else p div k)"
proof -
  have p: "p + q = p div k * k + (p mod k + q)" by simp
  have "p mod k < k" using assms(1) by simp
  then have "p mod k + q \<le> k" using assms(2) by linarith
  then have "(p mod k + q) div k = (if p mod k + q = k then 1 else 0)" using assms(1) by simp
  then show ?thesis by (subst p, subst div_mult_self3) (use assms(1) in simp_all)
qed

lemma fw_write_turn_ok:
  assumes W: "writer_ok D cs v" and s: "writing D cs name dir v p s" and p: "p < length D" and off: "off < length data"
    and sup: "supplies (drop off data) (drop p D)"
  defines "q \<equiv> min (min (v_cluster_size v - p mod v_cluster_size v) (length data - off)) (length D - p)"
  shows "\<exists>s'. fw_write_turn data off s = (Inr (off + q), s') \<and> writing D cs name dir v (p + q) s' \<and> 0 < q"
proof -
  let ?k = "v_cluster_size v" and ?i = "p div v_cluster_size v"
  obtain fs w where sw: "s = (fs, w)" by (cases s)
  have k: "0 < ?k" "length D \<le> length cs * ?k" "length D < 2 ^ 64" using W by (simp_all add: writer_ok_def)
  have fs: "fs_ok fs" "vol fs = partly_filled D cs ?i v" and w: "w = writer_at D cs name dir ?k p"
    using s by (simp_all add: writing_def sw)
  have ks: "unat (cluster_size fs) = ?k"
    using arg_cong [OF fs(2), of v_cluster_size] by (simp add: partly_filled_def)
  have r: "p - ?i * ?k = p mod ?k" by (simp add: minus_div_mult_eq_mod)
  have buf: "length (fw_buffer w) = p mod ?k" using p r by (simp add: w writer_at_def min_def)
  have q: "q \<le> ?k - p mod ?k" "q \<le> length data - off" "q \<le> length D - p" "0 < q"
    using p off k(1) by (auto simp: q_def)
  have rem: "unat (fw_total_size w - fw_written w) = length D - p"
    using p k(3) by (simp add: w writer_at_def unat_diff64)
  have chunk: "take q (drop off data) = take q (drop p D)" using supplies_take [OF sup] q(2,3) by simp
  have newbuf: "fw_buffer w @ take q (drop off data) = drop (?i * ?k) (take (p + q) D)"
  proof -
    have "?i * ?k \<le> p" by (simp add: div_times_less_eq_dividend)
    then show ?thesis using p unfolding chunk take_add w writer_at_def by simp
  qed
  let ?w = "w\<lparr>fw_buffer := fw_buffer w @ take q (drop off data), fw_written := fw_written w + word_of_nat q\<rparr>"
  have w': "?w = writer_at D cs name dir ?k (p + q)\<lparr>fw_index := ?i, fw_buffer := drop (?i * ?k) (take (p + q) D)\<rparr>"
    unfolding newbuf by (simp add: w writer_at_def)
  have lenbuf: "length (drop (?i * ?k) (take (p + q) D)) = p mod ?k + q"
    using newbuf buf q(2) by (metis length_append length_drop length_take min.absorb2)
  have i: "?i < length cs"
  proof -
    have "p < length cs * ?k" using p k(2) by linarith
    then show ?thesis using k(1) by (simp add: div_less_iff_less_mult)
  qed
  have qq: "min (min (unat (cluster_size fs) - length (fw_buffer w)) (length data - off))
      (unat (fw_total_size w - fw_written w)) = q" by (simp only: ks buf rem q_def)
  have cond: "(unat (cluster_size fs) \<le> length (fw_buffer ?w) \<and> fw_index ?w < length (fw_clusters ?w)) = (?k = p mod ?k + q)"
    unfolding w' using i lenbuf q(1) ks mod_less_divisor [OF k(1), of p] by (auto simp: writer_at_def)
  have sel: "fw_clusters ?w ! fw_index ?w = cs ! ?i" "fw_buffer ?w = drop (?i * ?k) (take (p + q) D)"
    unfolding w' by (simp_all add: writer_at_def)
  have turn: "fw_write_turn data off s = (if ?k = p mod ?k + q
      then bindE (on_fs (write_cluster (cs ! ?i) (drop (?i * ?k) (take (p + q) D)))) (\<lambda>_ s.
             (Inr (off + q), (fst s, (snd s)\<lparr>fw_index := fw_index (snd s) + 1, fw_buffer := []\<rparr>))) (fs, ?w)
      else (Inr (off + q), (fs, ?w)))"
    unfolding fw_write_turn_def Let_def sw fst_conv snd_conv qq unfolding cond unfolding sel ..
  note step = div_step [OF k(1) q(1)]
  have pq: "p + q \<le> length D" using q(3) p by linarith
  show ?thesis
  proof (cases "p mod ?k + q = ?k")
    case True
    then have full: "p + q = ?i * ?k + ?k" by (metis add.assoc div_mult_mod_eq)
    let ?b = "drop (?i * ?k) (take (p + q) D)"
    have "?b = take ?k (drop (?i * ?k) D)" by (simp add: full take_drop add.commute)
    from write_next_cluster [OF W fs i this]
    obtain fs' where fs': "write_cluster (cs ! ?i) ?b fs = (Inr (), fs')" "fs_ok fs'" "vol fs' = partly_filled D cs (Suc ?i) v"
      by (rule yieldsE)
    have "?w\<lparr>fw_index := fw_index ?w + 1, fw_buffer := []\<rparr> = writer_at D cs name dir ?k (p + q)"
      unfolding w' using step True pq by (simp add: writer_at_def full)
    then have "fw_write_turn data off s = (Inr (off + q), (fs', writer_at D cs name dir ?k (p + q)))"
      unfolding turn using True fs'(1) by (simp add: bindE_def on_fs_def)
    moreover have "writing D cs name dir v (p + q) (fs', writer_at D cs name dir ?k (p + q))"
      using fs'(2,3) pq step True by (simp add: writing_def)
    ultimately show ?thesis using q(4) by blast
  next
    case False
    then have "?w = writer_at D cs name dir ?k (p + q)" unfolding w' using step by (simp add: writer_at_def)
    then have "fw_write_turn data off s = (Inr (off + q), (fs, writer_at D cs name dir ?k (p + q)))"
      unfolding turn using False by simp
    moreover have "writing D cs name dir v (p + q) (fs, writer_at D cs name dir ?k (p + q))"
      using fs pq step False by (simp add: writing_def)
    ultimately show ?thesis using q(4) by blast
  qed
qed

text \<open>The loop stops at the end of the data or of the file.\<close>

lemma fw_write_loop_ok:
  assumes W: "writer_ok D cs v" and "writing D cs name dir v p s" and "off \<le> length data"
    and "supplies (drop off data) (drop p D)" and "length data - off < fuel"
  shows "\<exists>off' s'. fw_write_loop fuel data off s = (Inr off', s') \<and>
    writing D cs name dir v (min (length D) (p + (length data - off))) s'"
  using assms(2-)
proof (induction fuel arbitrary: off p s)
  case (Suc fuel)
  have s: "p \<le> length D" "fw_written (snd s) = word_of_nat p" "fw_total_size (snd s) = word_of_nat (length D)"
    using Suc.prems(1) by (simp_all add: writing_def writer_at_def)
  have less: "fw_written (snd s) < fw_total_size (snd s) \<longleftrightarrow> p < length D"
    using W less_of_nat64 [OF s(1)] unfolding s(2,3) by (simp add: writer_ok_def)
  show ?case
  proof (cases "off < length data \<and> p < length D")
    case True
    define q where "q = min (min (v_cluster_size v - p mod v_cluster_size v) (length data - off)) (length D - p)"
    obtain s' where s': "fw_write_turn data off s = (Inr (off + q), s')" "writing D cs name dir v (p + q) s'" "0 < q"
      using fw_write_turn_ok [OF W Suc.prems(1) _ _ Suc.prems(3)] True unfolding q_def by blast
    have q: "q \<le> length data - off" "q \<le> length D - p" by (simp_all add: q_def)
    have "supplies (drop (off + q) data) (drop (p + q) D)"
      using supplies_drop [OF Suc.prems(3), of q] q(1) by (simp add: add.commute)
    moreover have "off + q \<le> length data" "length data - (off + q) < fuel" using q(1) s'(3) Suc.prems(2,4) True by simp_all
    ultimately obtain off' s2 where r: "fw_write_loop fuel data (off + q) s' = (Inr off', s2)"
      "writing D cs name dir v (min (length D) (p + q + (length data - (off + q)))) s2"
      using Suc.IH [OF s'(2)] by blast
    have "fw_write_loop (Suc fuel) data off s = (Inr off', s2)"
      using True less s'(1) r(1) by (simp add: bindE_def getsE_def)
    moreover have "p + q + (length data - (off + q)) = p + (length data - off)" using q(1) True by arith
    ultimately show ?thesis using r(2) by metis
  next
    case False
    then have "min (length D) (p + (length data - off)) = p" using s(1) Suc.prems(2) by auto
    moreover have "fw_write_loop (Suc fuel) data off s = (Inr off, s)"
      using False less by (auto simp: bindE_def getsE_def returnE_def)
    ultimately show ?thesis using Suc.prems(1) by simp
  qed
qed simp

lemma fw_write_ok:
  assumes "writer_ok D cs v" and "writing D cs name dir v p s" and "supplies data (drop p D)"
  shows "\<exists>r s'. fw_write data s = (Inr r, s') \<and> writing D cs name dir v (min (length D) (p + length data)) s'"
  using fw_write_loop_ok [OF assms(1,2), of 0 data "length data + 1"] assms(3) by (simp add: fw_write_def del: fw_write_loop.simps)

lemma supplies_split:
  assumes "supplies (chunk @ input) left"
  shows "supplies chunk left" and "supplies input (drop (length chunk) left)"
proof -
  show "supplies chunk left" using assms unfolding supplies_def append_assoc by blast
  show "supplies input (drop (length chunk) left)" using supplies_drop [OF assms, of "length chunk"] by simp
qed

lemma do_stream_write_ok:
  assumes "writer_ok D cs v" and "[] \<notin> set chunks" and "writing D cs name dir v p s"
    and "supplies (concat chunks) (drop p D)"
  shows "\<exists>s'. do_stream_write chunks s = (Inr (), s') \<and> writing D cs name dir v (min (length D) (p + length (concat chunks))) s'"
  using assms(2-)
proof (induction chunks arbitrary: p s)
  case Nil
  then show ?case by (auto simp: returnE_def writing_def min_def)
next
  case (Cons chunk chunks)
  have sup: "supplies chunk (drop p D)" "supplies (concat chunks) (drop (length chunk) (drop p D))"
    using supplies_split [of chunk "concat chunks"] Cons.prems(3) unfolding concat.simps by blast+
  obtain r s1 where s1: "fw_write chunk s = (Inr r, s1)" "writing D cs name dir v (min (length D) (p + length chunk)) s1"
    using fw_write_ok [OF assms(1) Cons.prems(2) sup(1)] by blast
  have "drop (min (length D) (p + length chunk)) D = drop (length chunk) (drop p D)" by (simp add: min_def add.commute)
  then have "\<exists>s'. do_stream_write chunks s1 = (Inr (), s') \<and>
      writing D cs name dir v (min (length D) (min (length D) (p + length chunk) + length (concat chunks))) s'"
    using Cons.prems(1) sup(2) by (intro Cons.IH [OF _ s1(2)]) simp_all
  moreover have "min (length D) (min (length D) (p + length chunk) + length (concat chunks)) =
      min (length D) (p + length (concat (chunk # chunks)))" by simp
  moreover have "chunk \<noteq> []" using Cons.prems(1) by auto
  ultimately show ?case using s1(1) by (simp add: bindE_def)
qed

lemma clusters_for_eq:
  assumes "0 < k"
  shows "clusters_for k n = (if n mod k = 0 then n div k else Suc (n div k))"
proof (cases "n = 0")
  case False
  have n: "n + k - 1 = n div k * k + (n mod k + (k - 1))" using assms by simp
  have "(n mod k + (k - 1)) div k = (if n mod k = 0 then 0 else 1)"
  proof (cases "n mod k = 0")
    case False
    then have "n mod k + (k - 1) = k + (n mod k - 1)" using assms by arith
    moreover have "n mod k - 1 < k" using mod_less_divisor [OF assms, of n] by linarith
    ultimately have "(n mod k + (k - 1)) div k = (k + (n mod k - 1)) div k" by (simp only:)
    also have "\<dots> = 1" using div_add_self1 [of k "n mod k - 1"] assms \<open>n mod k - 1 < k\<close> by simp
    finally show ?thesis using False by simp
  qed (use assms in simp)
  moreover have "(n div k * k + (n mod k + (k - 1))) div k = n div k + (n mod k + (k - 1)) div k"
    by (rule div_mult_self3) (use assms in simp)
  ultimately have "(n + k - 1) div k = (if n mod k = 0 then n div k else Suc (n div k))" unfolding n by simp
  then show ?thesis using False by (simp add: clusters_for_def)
qed (simp add: clusters_for_def)

lemma fw_finish_ok:
  assumes W: "writer_ok D cs v" and s: "writing D cs name dir v (length D) s"
    and n: "length cs = clusters_for (v_cluster_size v) (length D)"
  shows "\<exists>fs1. fs_ok fs1 \<and> vol fs1 = partly_filled D cs (length cs) v \<and>
    fw_finish now s = (case create_entry_in_directory now dir name (if cs = [] then 0 else hd cs) (word_of_nat (length D)) False fs1
      of (r, fs') \<Rightarrow> (r, (fs', snd s)))"
proof -
  let ?k = "v_cluster_size v" and ?i = "length D div v_cluster_size v"
  obtain fs w where sw: "s = (fs, w)" by (cases s)
  have k: "0 < ?k" using W by (simp add: writer_ok_def)
  have fs: "fs_ok fs" "vol fs = partly_filled D cs ?i v" and w: "w = writer_at D cs name dir ?k (length D)"
    using s by (simp_all add: writing_def sw)
  have sel: "fw_buffer w = drop (?i * ?k) D" "fw_index w = ?i" "fw_clusters w = cs" "fw_dir_cluster w = dir" "fw_name w = name"
    "fw_total_size w = word_of_nat (length D)" by (simp_all add: w writer_at_def)
  have r: "length (drop (?i * ?k) D) = length D mod ?k" by (simp add: minus_div_mult_eq_mod)
  have first: "(if cs = [] then 0 else cs ! 0) = (if cs = [] then 0 else hd cs)" by (simp add: hd_conv_nth)
  have eq: "fw_finish now s = bindE (if fw_buffer w \<noteq> [] \<and> fw_index w < length (fw_clusters w)
         then on_fs (write_cluster (fw_clusters w ! fw_index w) (fw_buffer w)) else returnE ())
      (\<lambda>_. on_fs (create_entry_in_directory now dir name (if cs = [] then 0 else hd cs) (word_of_nat (length D)) False)) (fs, w)"
    by (simp only: fw_finish_def sw sel first [symmetric] bindE_Inr [where m = "getsE snd", OF getsE_iff [THEN iffD2], OF conjI, OF refl refl] snd_conv)
  show ?thesis
  proof (cases "length D mod ?k = 0")
    case True
    then have "drop (?i * ?k) D = []" "length cs = ?i" using r n clusters_for_eq [OF k] by auto
    then show ?thesis
      unfolding eq sel using fs by (intro exI [of _ fs]) (simp add: on_fs_def sw)
  next
    case False
    then have b: "drop (?i * ?k) D \<noteq> []" "length cs = Suc ?i" using r n clusters_for_eq [OF k] by auto
    have "length D mod ?k < ?k" using k by simp
    then have "drop (?i * ?k) D = take ?k (drop (?i * ?k) D)" using r by simp
    from write_next_cluster [OF W fs _ this] b(2)
    obtain fs' where fs': "write_cluster (cs ! ?i) (drop (?i * ?k) D) fs = (Inr (), fs')" "fs_ok fs'"
      "vol fs' = partly_filled D cs (length cs) v" by (auto elim: yieldsE)
    then show ?thesis
      unfolding eq sel using b by (intro exI [of _ fs']) (simp add: on_fs_def sw bindE_def)
  qed
qed

lemma partly_filled_start: "partly_filled D cs 0 v = v"
  by (simp add: partly_filled_def)

lemma partly_filled_all: "length cs = n \<Longrightarrow> partly_filled D cs n (allocated_volume cs v) = stored_volume cs D v"
  by (auto simp: partly_filled_def stored_volume_def Let_def)

lemma clusters_needed:
  assumes "unat sz + unat c < 2 ^ 64" and "0 < unat (c :: u32)"
  shows "(if sz = 0 then 0 else unat ((sz + ucast c - 1) div ucast c :: u64)) = clusters_for (unat c) (unat sz)"
proof -
  have add: "unat (sz + ucast c) = unat sz + unat c" using assms(1) by (subst unat_add64) simp_all
  then have "unat (sz + ucast c - 1) = unat sz + unat c - 1"
    using assms(2) by (subst unat_sub) (simp_all add: word_le_nat_alt)
  then show ?thesis by (simp add: clusters_for_def unat_div_distrib unat_eq_zero)
qed

lemma create_in_directory_new:
  assumes ok: "fs_ok fs" and view: "dir_view (vol fs) dir css" and "\<not> invalid_name name"
    and new: "lookup lower (lower name) (dir_sets css) = None" and k: "0 < v_cluster_size (vol fs)"
    and n: "clusters_for (v_cluster_size (vol fs)) (unat sz) < length (free_list (vol fs))"
  defines "cs \<equiv> take (clusters_for (v_cluster_size (vol fs)) (unat sz)) (free_list (vol fs))"
  shows "yields (create_in_directory lower dir name sz overwrite) fs
    (Inr \<lparr>fw_name = name, fw_dir_cluster = dir, fw_total_size = sz, fw_clusters = cs, fw_index = 0, fw_buffer = [], fw_written = 0\<rparr>)
    (allocated_volume cs (vol fs))"
proof -
  let ?n = "clusters_for (v_cluster_size (vol fs)) (unat sz)"
  obtain fs1 where fs1: "find_entry_in_directory lower dir name fs = (Inr None, fs1)" "fs_ok fs1" "vol fs1 = vol fs"
    using find_entry_ok [OF ok view, of lower name] unfolding new by (rule yieldsE)
  let ?c = "cluster_size fs1"
  have c: "unat ?c = v_cluster_size (vol fs)" unfolding fs1(3) [symmetric] by simp
  have "?n * v_cluster_size (vol fs) + v_cluster_size (vol fs) < 2 ^ 64"
  proof -
    have "Suc ?n \<le> length (free_list (vol fs))" using n by simp
    from free_clusters(4) [OF ok this] show ?thesis by (simp add: add.commute)
  qed
  then have "unat sz + v_cluster_size (vol fs) < 2 ^ 64" using clusters_for_bounds(1) [OF k, of "unat sz"] by linarith
  then have needed: "(if sz = 0 then 0 else unat ((sz + ucast ?c - 1) div ucast ?c)) = ?n"
    using clusters_needed [of sz ?c] k unfolding c by simp
  have c0: "?c \<noteq> 0" using c k by auto
  define rest where "rest = (\<lambda>allocated. returnE \<lparr>fw_name = name, fw_dir_cluster = dir, fw_total_size = sz,
    fw_clusters = allocated, fw_index = 0, fw_buffer = [], fw_written = 0\<rparr> :: file_writer fs_op)"
  have eq: "create_in_directory lower dir name sz overwrite fs =
      bindE (if ?n > 0 then bindE (allocate_clusters ?n) read_cluster_chain else returnE []) rest fs1"
    unfolding needed [symmetric]
    using assms(3) fs1(1) c0 by (simp add: create_in_directory_def rest_def Let_def)
  have store: "yields (if ?n > 0 then bindE (allocate_clusters ?n) read_cluster_chain else returnE []) fs1 (Inr cs)
      (allocated_volume cs (vol fs))"
  proof (cases "?n > 0")
    case True
    have free1: "?n \<le> length (free_list (vol fs1))" using n unfolding fs1(3) by simp
    have cs: "cs = take ?n (free_list (vol fs1))" by (simp add: cs_def fs1(3))
    have "yields (bindE (allocate_clusters ?n) read_cluster_chain) fs1 (Inr cs) (allocated_volume cs (vol fs1))"
    proof (rule yields_bind [OF allocate_clusters_ok [OF fs1(2) True free1]], fold cs)
      fix fs2 assume fs2: "fs_ok fs2" "vol fs2 = allocated_volume cs (vol fs1)"
      have "chain_from (v_fat (vol fs2)) (hd cs) cs" "\<forall>c \<in> set cs. in_heap (v_count (vol fs2)) c"
        using allocation_ok(3,4) [OF fs1(2) True free1] by (simp_all add: fs2(2) cs)
      from read_cluster_chain_ok [OF fs2(1) this] show "yields (read_cluster_chain (hd cs)) fs2 (Inr cs) (allocated_volume cs (vol fs1))"
        unfolding fs2(2) .
    qed
    then show ?thesis using True unfolding fs1(3) by simp
  next
    case False
    then show ?thesis using fs1(2,3) by (simp add: cs_def allocated_volume_def mark_def)
  qed
  have "yields (bindE (if ?n > 0 then bindE (allocate_clusters ?n) read_cluster_chain else returnE []) rest) fs1
    (Inr \<lparr>fw_name = name, fw_dir_cluster = dir, fw_total_size = sz, fw_clusters = cs, fw_index = 0, fw_buffer = [], fw_written = 0\<rparr>)
    (allocated_volume cs (vol fs))"
    by (rule yields_bind [OF store]) (simp add: rest_def)
  then show ?thesis unfolding yields_def eq .
qed


lemma stream_to_ok:
  assumes W: "writer_ok D cs v" and create: "create fs = (Inr w, fs1)" and s: "writing D cs name dir v 0 (fs1, w)"
    and n: "length cs = clusters_for (v_cluster_size v) (length D)" and "[] \<notin> set chunks" and "D = take (length D) (concat chunks)"
  shows "\<exists>fs2. fs_ok fs2 \<and> vol fs2 = partly_filled D cs (length cs) v \<and>
    stream_to now create chunks fs =
      create_entry_in_directory now dir name (if cs = [] then 0 else hd cs) (word_of_nat (length D)) False fs2"
proof -
  have "supplies (concat chunks) (drop 0 D)" using assms(6) unfolding supplies_def by (metis append_Nil2 drop0)
  from do_stream_write_ok [OF W assms(5) s this] obtain s' where
    s': "do_stream_write chunks (fs1, w) = (Inr (), s')" "writing D cs name dir v (min (length D) (length (concat chunks))) s'"
    by auto
  have "min (length D) (length (concat chunks)) = length D" using assms(6) by (metis length_take min.commute)
  with s'(2) have "writing D cs name dir v (length D) s'" by simp
  from fw_finish_ok [OF W this n, of now] obtain fs2 where fs2: "fs_ok fs2" "vol fs2 = partly_filled D cs (length cs) v"
    "fw_finish now s' = (case create_entry_in_directory now dir name (if cs = [] then 0 else hd cs) (word_of_nat (length D)) False fs2
      of (r, fs') \<Rightarrow> (r, (fs', snd s')))" by blast
  have "stream_to now create chunks fs =
      create_entry_in_directory now dir name (if cs = [] then 0 else hd cs) (word_of_nat (length D)) False fs2"
    using create s'(1) fs2(3) by (simp add: stream_to_def bindE_def split: prod.split)
  with fs2 show ?thesis by blast
qed

text \<open>A stream into a directory: the result is that of creating the entry on the volume \<open>write_file\<close> has after
  its data is written.\<close>

lemma stream_create_ok:
  assumes ok: "fs_ok fs" and view: "dir_view (vol fs) dir css" and "\<not> invalid_name name"
    and new: "lookup lower (lower name) (dir_sets css) = None" and name: "retrievable lower name"
    and free: "set (free_list (vol fs)) \<inter> set (map fst css) = {}" and cov: "bitmap_covers (vol fs)"
    and sz: "v_cluster_size (vol fs) mod 32 = 0" "1024 \<le> v_cluster_size (vol fs)"
    and n: "clusters_for (v_cluster_size (vol fs)) (unat sz) < length (free_list (vol fs))"
    and chunks: "[] \<notin> set chunks" "unat sz \<le> length (concat chunks)"
  shows "\<exists>v'. yields (stream_to now (create_in_directory lower dir name sz overwrite) chunks) fs (Inr ()) v' \<and>
    file_added (vol fs) v' dir css now name (take (unat sz) (concat chunks))"
proof -
  let ?D = "take (unat sz) (concat chunks)" and ?n = "clusters_for (v_cluster_size (vol fs)) (unat sz)"
  let ?cs = "take ?n (free_list (vol fs))" and ?v = "allocated_volume (take ?n (free_list (vol fs))) (vol fs)"
  have k: "0 < v_cluster_size (vol fs)" using sz(2) by simp
  have len: "length ?D = unat sz" using chunks(2) by simp
  note cf = clusters_for_bounds [OF k, of "unat sz"]
  have le: "?n \<le> length (free_list (vol fs))" using n by simp
  note fc = free_clusters [OF ok le]
  have W: "writer_ok ?D ?cs ?v"
    unfolding writer_ok_def len using k cf(1) fc unsigned_less [of sz, where 'a = nat]
    by (simp only: allocated_volume_fields) simp
  obtain fs1 w where create: "create_in_directory lower dir name sz overwrite fs = (Inr w, fs1)" and fs1: "fs_ok fs1" "vol fs1 = ?v"
    and w: "w = \<lparr>fw_name = name, fw_dir_cluster = dir, fw_total_size = sz, fw_clusters = ?cs, fw_index = 0,
      fw_buffer = [], fw_written = 0\<rparr>"
    using create_in_directory_new [OF ok view assms(3) new k n, of overwrite] by (auto elim!: yieldsE)
  have s: "writing ?D ?cs name dir ?v 0 (fs1, w)"
    using fs1 len by (simp add: writing_def partly_filled_start writer_at_def w)
  have n': "length ?cs = clusters_for (v_cluster_size ?v) (length ?D)" using fc(2) len by simp
  have D: "?D = take (length ?D) (concat chunks)" using len by simp
  from stream_to_ok [where create = "create_in_directory lower dir name sz overwrite" and fs = fs, OF W create s n' chunks(1) D, of now]
  obtain fs2 where fs2: "fs_ok fs2"
    "vol fs2 = stored_volume ?cs ?D (vol fs)"
    "stream_to now (create_in_directory lower dir name sz overwrite) chunks fs =
      create_entry_in_directory now dir name (if ?cs = [] then 0 else hd ?cs) (word_of_nat (length ?D)) False fs2"
    unfolding partly_filled_all [OF refl] by blast
  have n0: "?n = 0 \<longleftrightarrow> ?D = []" using cf(2) len by (metis length_0_conv)
  have le2: "length ?D \<le> ?n * v_cluster_size (vol fs)" using cf(1) len by simp
  have "0 < ?n \<Longrightarrow> (if ?cs = [] then 0 else hd ?cs) = hd ?cs" using fc(2) by (metis less_irrefl list.size(3))
  from entry_of_stored_ok [OF ok fs2(1) view name free cov sz n le2 n0 fs2(2) this, of now]
  show ?thesis unfolding yields_def fs2(3) .
qed

text \<open>C17: Streaming a file into the root directory, the input cut into any non-empty chunks. If at least the
  announced number of bytes arrives and the name is new, the call succeeds, and the file reads back as the first so many bytes
  of the input, wherever the cuts are; other files are kept as in \<open>write_file\<close>.\<close>

theorem write_file_from_reader_then_read:
  assumes ok: "fs_ok fs" and view: "dir_view (vol fs) (v_root (vol fs)) css" and "\<not> invalid_name name"
    and name: "retrievable lower name" and new: "lookup lower (lower name) (dir_sets css) = None"
    and free: "set (free_list (vol fs)) \<inter> set (map fst css) = {}" and cov: "bitmap_covers (vol fs)"
    and sz: "v_cluster_size (vol fs) mod 32 = 0" "1024 \<le> v_cluster_size (vol fs)"
    and n: "clusters_for (v_cluster_size (vol fs)) (unat total_size) < length (free_list (vol fs))"
    and chunks: "[] \<notin> set chunks" "unat total_size \<le> length (concat chunks)"
  shows "\<exists>fs'. write_file_from_reader lower now name chunks total_size fs = (Inr (), fs') \<and> fs_ok fs' \<and>
      yields (read_file lower name) fs' (Inr (take (unat total_size) (concat chunks))) (vol fs') \<and>
      (\<forall>other loc d. lookup lower (lower other) (dir_sets css) = Some loc \<and> file_contents (vol fs) loc d \<and>
        file_apart (vol fs) css loc \<longrightarrow> yields (read_file lower other) fs' (Inr d) (vol fs'))"
proof -
  have root: "first_cluster_of_root fs = v_root (vol fs)" by simp
  have eq: "write_file_from_reader lower now name chunks total_size fs =
      stream_to now (create_in_directory lower (v_root (vol fs)) name total_size False) chunks fs"
    by (simp add: write_file_from_reader_def stream_to_def writer_create_def bindE_def getsE_def)
  from stream_create_ok [OF ok view assms(3) new name free cov sz n chunks, of now False]
  obtain fs' where fs': "write_file_from_reader lower now name chunks total_size fs = (Inr (), fs')" "fs_ok fs'"
    "file_added (vol fs) (vol fs') (v_root (vol fs)) css now name (take (unat total_size) (concat chunks))"
    unfolding eq yields_def by blast
  from fs'(1,2) file_added_reads [OF fs'(2,3) new name] show ?thesis by blast
qed

theorem write_file_from_reader_then_read_witness:
  "\<exists>fs'. write_file_from_reader id 0 [65] [[1, 2], [3]] 2 small = (Inr (), fs') \<and> fst (read_file id [65] fs') = Inr [1, 2]"
proof -
  note w = small_writable
  have "unat (2 :: u64) \<le> length (concat [[1, 2], [3 :: u8]])" by simp
  moreover have "clusters_for (v_cluster_size (vol small)) (unat (2 :: u64)) < length (free_list (vol small))"
    by (simp add: clusters_for_def small_fields small_free_list)
  ultimately show ?thesis
    using write_file_from_reader_then_read [OF small_ok w(1-3) _ w(5-8), of 2 "[[1, 2], [3]]" 0] w(4) by (auto simp: yields_def)
qed

section \<open>The streaming reader\<close>

text \<open>A reader of a file with some contents: its chain holds them, and its cache agrees with the volume.\<close>

definition reading :: "volume \<Rightarrow> bytes \<Rightarrow> file_reader \<Rightarrow> bool" where
  "reading v data r \<longleftrightarrow> (\<forall>c \<in> set (fr_chain r). in_heap (v_count v) c) \<and>
     data = take (unat (fr_size r)) (concat (map (v_data v) (fr_chain r))) \<and>
     unat (fr_size r) \<le> length (fr_chain r) * v_cluster_size v \<and>
     (\<forall>c d. fr_cache r = Some (c, d) \<longrightarrow> d = v_data v c)"

lemma slice_concat:
  "\<forall>x \<in> set xs. length x = k \<Longrightarrow> i < length xs \<Longrightarrow> off + q \<le> k \<Longrightarrow>
     slice off q (xs ! i) = slice (i * k + off) q (concat xs)"
proof (induction xs arbitrary: i)
  case (Cons x xs)
  then show ?case by (cases i) (simp_all add: slice_def add.assoc)
qed simp

lemma length_concat_blocks: "\<forall>x \<in> set xs. length x = k \<Longrightarrow> length (concat xs) = length xs * k"
  by (induction xs) simp_all

lemma length_chain_data:
  assumes "fs_ok fs" and "\<forall>c \<in> set cs. in_heap (v_count (vol fs)) c"
  shows "\<forall>x \<in> set (map (v_data (vol fs)) cs). length x = v_cluster_size (vol fs)"
    and "length (concat (map (v_data (vol fs)) cs)) = length cs * v_cluster_size (vol fs)"
proof -
  show "\<forall>x \<in> set (map (v_data (vol fs)) cs). length x = v_cluster_size (vol fs)"
    using length_v_data [OF assms(1)] assms(2) by simp
  from length_concat_blocks [OF this] show "length (concat (map (v_data (vol fs)) cs)) = length cs * v_cluster_size (vol fs)" by simp
qed

lemma reading_length: "fs_ok fs \<Longrightarrow> reading (vol fs) data r \<Longrightarrow> length data = unat (fr_size r)"
  using length_chain_data(2) [of fs "fr_chain r"] by (simp add: reading_def)

lemma reading_position: "reading v data (r\<lparr>fr_position := p\<rparr>) = reading v data r"
  by (simp add: reading_def)

lemma read_cluster_cached_ok:
  assumes "fs_ok fs" and "reading (vol fs) data r" and "i < length (fr_chain r)"
  shows "\<exists>cache. read_cluster_cached i (fs, r) = (Inr (v_data (vol fs) (fr_chain r ! i)), (fs, r\<lparr>fr_cache := cache\<rparr>)) \<and>
    reading (vol fs) data (r\<lparr>fr_cache := cache\<rparr>)"
proof -
  let ?c = "fr_chain r ! i"
  have heap: "in_heap (v_count (vol fs)) ?c" using assms(2,3) by (simp add: reading_def)
  have r: "read_cluster ?c fs = (Inr (v_data (vol fs) ?c), fs)" by (rule read_cluster_vol [OF assms(1) heap refl])
  show ?thesis
  proof (cases "\<exists>d. fr_cache r = Some (?c, d)")
    case True
    then obtain d where d: "fr_cache r = Some (?c, d)" by blast
    then have "d = v_data (vol fs) ?c" using assms(2) by (simp add: reading_def)
    then have "read_cluster_cached i (fs, r) = (Inr (v_data (vol fs) ?c), (fs, r))"
      using d assms(3) by (simp add: read_cluster_cached_def bindE_def getsE_def returnE_def Let_def)
    moreover have "r\<lparr>fr_cache := fr_cache r\<rparr> = r" by simp
    ultimately show ?thesis using assms(2) by metis
  next
    case False
    have "reading (vol fs) data (r\<lparr>fr_cache := Some (?c, v_data (vol fs) ?c)\<rparr>)" using assms(2) by (simp add: reading_def)
    moreover have "read_cluster_cached i (fs, r) =
        (Inr (v_data (vol fs) ?c), (fs, r\<lparr>fr_cache := Some (?c, v_data (vol fs) ?c)\<rparr>))"
      using False assms(3) r
      by (simp add: read_cluster_cached_def bindE_def getsE_def Let_def on_fs_def split: option.split)
    ultimately show ?thesis by blast
  qed
qed

lemma fr_read_turn_ok:
  assumes ok: "fs_ok fs" and rd: "reading (vol fs) data r" and p: "fr_position r < fr_size r" and "0 < n"
  defines "q \<equiv> min (min (v_cluster_size (vol fs) - unat (fr_position r) mod v_cluster_size (vol fs))
    (length data - unat (fr_position r))) n"
  shows "\<exists>r'. fr_read_turn n (fs, r) = (Inr (take q (drop (unat (fr_position r)) data)), (fs, r')) \<and> reading (vol fs) data r' \<and>
    unat (fr_position r') = unat (fr_position r) + q \<and> fr_size r' = fr_size r \<and> 0 < q"
proof -
  let ?k = "v_cluster_size (vol fs)" and ?p = "unat (fr_position r)" and ?c = "ucast (cluster_size fs) :: u64"
  have k: "unat ?c = ?k" "0 < ?k" using fs_bounds(3) [OF ok] by simp_all
  have N: "length data = unat (fr_size r)" using reading_length [OF ok rd] .
  have pN: "?p < unat (fr_size r)" using p by (simp add: word_less_nat_alt)
  have idx: "unat (fr_position r div ?c) = ?p div ?k" "unat (fr_position r mod ?c) = ?p mod ?k"
    by (simp_all add: unat_div_distrib unat_mod_distrib)
  have rem: "unat (fr_size r - fr_position r) = length data - ?p" using pN N by (simp add: unat_sub word_le_nat_alt)
  have i: "?p div ?k < length (fr_chain r)"
    using rd pN k(2) by (simp add: reading_def div_less_iff_less_mult)
  obtain cache where c: "read_cluster_cached (?p div ?k) (fs, r) =
      (Inr (v_data (vol fs) (fr_chain r ! (?p div ?k))), (fs, r\<lparr>fr_cache := cache\<rparr>))" "reading (vol fs) data (r\<lparr>fr_cache := cache\<rparr>)"
    using read_cluster_cached_ok [OF ok rd i] by blast
  have q: "q \<le> ?k - ?p mod ?k" "q \<le> length data - ?p" "0 < q"
    using assms(4) pN N k(2) by (auto simp: q_def)
  let ?L = "concat (map (v_data (vol fs)) (fr_chain r))"
  have "?p mod ?k < ?k" using k(2) by simp
  then have "slice (?p mod ?k) q (map (v_data (vol fs)) (fr_chain r) ! (?p div ?k)) = slice (?p div ?k * ?k + ?p mod ?k) q ?L"
    using q(1) i length_chain_data(1) [OF ok, of "fr_chain r"] rd by (intro slice_concat) (auto simp: reading_def)
  then have "slice (?p mod ?k) q (v_data (vol fs) (fr_chain r ! (?p div ?k))) = slice ?p q ?L" using i by simp
  also have "\<dots> = take q (drop ?p data)"
  proof -
    have "take q (drop ?p (take (unat (fr_size r)) ?L)) = take q (drop ?p ?L)" using q(2) N by (simp add: drop_take)
    then show ?thesis using rd by (simp add: slice_def reading_def)
  qed
  finally have copied: "slice (?p mod ?k) q (v_data (vol fs) (fr_chain r ! (?p div ?k))) = take q (drop ?p data)" .
  have c0: "?c \<noteq> 0" using k by (metis less_irrefl unsigned_0)
  have tr: "min (min (unat ?c - unat (fr_position r mod ?c)) (unat (fr_size r - fr_position r))) n = q"
    by (simp only: idx k(1) rem q_def)
  have "fr_read_turn n (fs, r) = (Inr (take q (drop ?p data)),
      (fs, r\<lparr>fr_cache := cache, fr_position := fr_position r + word_of_nat q\<rparr>))"
    unfolding fr_read_turn_def Let_def fst_conv snd_conv tr unfolding idx using c0 c(1) copied by simp
  moreover have "unat (fr_position r + word_of_nat q) = ?p + q"
  proof -
    have "?p + q < 2 ^ 64" using q(2) N pN unsigned_less [of "fr_size r", where 'a = nat] by simp
    then show ?thesis by (subst unat_add64) (simp_all add: unat_of_nat64)
  qed
  ultimately show ?thesis using c(2) q(3) by (auto simp: reading_def)
qed


lemma fr_read_loop_ok:
  assumes "fs_ok fs" and "reading (vol fs) data r" and "length out \<le> n" and "n - length out < fuel"
  shows "\<exists>r'. fr_read_loop fuel n out (fs, r) = (Inr (out @ take (n - length out) (drop (unat (fr_position r)) data)), (fs, r')) \<and>
    reading (vol fs) data r' \<and> fr_size r' = fr_size r \<and>
    unat (fr_position r') = unat (fr_position r) + length (take (n - length out) (drop (unat (fr_position r)) data))"
  using assms(2-)
proof (induction fuel arbitrary: out r)
  case (Suc fuel)
  have N: "length data = unat (fr_size r)" using reading_length [OF assms(1) Suc.prems(1)] .
  show ?case
  proof (cases "length out < n \<and> fr_position r < fr_size r")
    case True
    define q where "q = min (min (v_cluster_size (vol fs) - unat (fr_position r) mod v_cluster_size (vol fs))
      (length data - unat (fr_position r))) (n - length out)"
    let ?rest = "drop (unat (fr_position r)) data"
    have pre: "fr_position r < fr_size r" "0 < n - length out" using True by simp_all
    obtain r1 where r1: "fr_read_turn (n - length out) (fs, r) = (Inr (take q ?rest), (fs, r1))" "reading (vol fs) data r1"
      "unat (fr_position r1) = unat (fr_position r) + q" "fr_size r1 = fr_size r" "0 < q"
      using fr_read_turn_ok [OF assms(1) Suc.prems(1) pre, folded q_def] by blast
    have q: "q \<le> length data - unat (fr_position r)" "q \<le> n - length out" by (simp_all add: q_def)
    have lq: "length (take q ?rest) = q" using q(1) by simp
    have "length (out @ take q ?rest) \<le> n" "n - length (out @ take q ?rest) < fuel"
      unfolding length_append lq using q(2) r1(5) Suc.prems(2,3) True by linarith+
    from Suc.IH [OF r1(2) this] obtain r2 where r2:
      "fr_read_loop fuel n (out @ take q ?rest) (fs, r1) = (Inr ((out @ take q ?rest) @
         take (n - length (out @ take q ?rest)) (drop (unat (fr_position r1)) data)), (fs, r2))"
      "reading (vol fs) data r2" "fr_size r2 = fr_size r1" "unat (fr_position r2) = unat (fr_position r1) +
         length (take (n - length (out @ take q ?rest)) (drop (unat (fr_position r1)) data))" by blast
    have split: "take q ?rest @ take (n - length (out @ take q ?rest)) (drop (unat (fr_position r1)) data) =
        take (n - length out) ?rest"
    proof -
      have "take (q + (n - length out - q)) ?rest = take q ?rest @ take (n - length out - q) (drop q ?rest)" by (rule take_add)
      moreover have "drop q ?rest = drop (unat (fr_position r1)) data" by (simp add: r1(3) add.commute)
      moreover have "n - length (out @ take q ?rest) = n - length out - q" unfolding length_append lq by simp
      moreover have "q + (n - length out - q) = n - length out" using q(2) by simp
      ultimately show ?thesis by (simp only:)
    qed
    have "fr_read_loop (Suc fuel) n out (fs, r) =
        (Inr ((out @ take q ?rest) @ take (n - length (out @ take q ?rest)) (drop (unat (fr_position r1)) data)), (fs, r2))"
      using True r1(1) r2(1) by (simp add: bindE_def getsE_def)
    moreover have "unat (fr_position r2) = unat (fr_position r) + length (take (n - length out) ?rest)"
      unfolding split [symmetric] using r2(4) r1(3) lq by simp
    ultimately show ?thesis using r2(2,3) r1(4) unfolding append_assoc split by auto
  next
    case False
    have "take (n - length out) (drop (unat (fr_position r)) data) = []"
      using False N Suc.prems(2) by (auto simp: word_less_nat_alt)
    moreover have "fr_read_loop (Suc fuel) n out (fs, r) = (Inr out, (fs, r))"
      using False by (auto simp: bindE_def getsE_def returnE_def)
    ultimately show ?thesis
      using Suc.prems(1) by (intro exI [of _ r]) (simp only: append_Nil2 list.size add_0_right simp_thms)
  qed
qed simp

lemma fr_read_ok:
  assumes "fs_ok fs" and "reading (vol fs) data r"
  shows "\<exists>r'. fr_read n (fs, r) = (Inr (take n (drop (unat (fr_position r)) data)), (fs, r')) \<and> reading (vol fs) data r' \<and>
    fr_size r' = fr_size r \<and> unat (fr_position r') = unat (fr_position r) + length (take n (drop (unat (fr_position r)) data))"
proof (cases "fr_size r \<le> fr_position r \<or> n = 0")
  case True
  then have "take n (drop (unat (fr_position r)) data) = []"
    using reading_length [OF assms] by (auto simp: word_le_nat_alt)
  moreover have "fr_read n (fs, r) = (Inr [], (fs, r))" using True by (auto simp: fr_read_def bindE_def getsE_def returnE_def)
  ultimately show ?thesis using assms(2) by (intro exI [of _ r]) (simp only: list.size add_0_right simp_thms)
next
  case False
  then have "fr_read n (fs, r) = fr_read_loop (n + 1) n [] (fs, r)"
    by (auto simp: fr_read_def bindE_def getsE_def simp del: fr_read_loop.simps)
  then show ?thesis using fr_read_loop_ok [OF assms, of "[]" n "n + 1"] by simp
qed

lemma do_stream_read_ok:
  assumes "fs_ok fs" and "reading (vol fs) data r" and "length data - unat (fr_position r) < fuel"
  shows "\<exists>r'. do_stream_read fuel out (fs, r) = (Inr (out @ drop (unat (fr_position r)) data), (fs, r'))"
  using assms(2,3)
proof (induction fuel arbitrary: out r)
  case (Suc fuel)
  let ?rest = "drop (unat (fr_position r)) data"
  obtain r1 where r1: "fr_read 65536 (fs, r) = (Inr (take 65536 ?rest), (fs, r1))" "reading (vol fs) data r1"
    "unat (fr_position r1) = unat (fr_position r) + length (take 65536 ?rest)"
    using fr_read_ok [OF assms(1) Suc.prems(1), of 65536] by blast
  show ?case
  proof (cases "?rest = []")
    case True
    then show ?thesis using r1(1) by (simp add: bindE_def returnE_def)
  next
    case False
    then have pos: "0 < length (take 65536 ?rest)" by simp
    have "length data - unat (fr_position r1) < fuel" using Suc.prems(2) pos unfolding r1(3) by (simp add: not_le)
    from Suc.IH [OF r1(2) this] obtain r2 where
      "do_stream_read fuel (out @ take 65536 ?rest) (fs, r1) = (Inr ((out @ take 65536 ?rest) @ drop (unat (fr_position r1)) data), (fs, r2))"
      by blast
    moreover have "drop (unat (fr_position r1)) data = drop 65536 ?rest"
      unfolding r1(3) by (cases "65536 \<le> length ?rest") (simp_all add: add.commute)
    then have "take 65536 ?rest @ drop (unat (fr_position r1)) data = ?rest" by (simp only: append_take_drop_id)
    ultimately show ?thesis using r1(1) False by (simp add: bindE_def)
  qed
qed simp


lemma reader_from_location_ok:
  assumes ok: "fs_ok fs" and "file_contents (vol fs) loc data" and len: "length data = unat (data_length loc)"
  obtains fs' r where "reader_from_location loc fs = (Inr r, fs')" and "fs_ok fs'" and "vol fs' = vol fs"
    and "reading (vol fs) data r" and "fr_position r = 0" and "fr_size r = data_length loc"
proof (cases "data_length loc = 0")
  case True
  then have "data = []" using len by simp
  with True that [of "\<lparr>fr_chain = [], fr_size = 0, fr_position = 0, fr_cache = None\<rparr>" fs] ok show thesis
    by (simp add: reader_from_location_def reading_def bindE_def returnE_def)
next
  case False
  then obtain cs where cs: "chain_from (v_fat (vol fs)) (loc_first_cluster loc) cs" "\<forall>c \<in> set cs. in_heap (v_count (vol fs)) c"
    "data = take (unat (data_length loc)) (concat (map (v_data (vol fs)) cs))"
    using assms(2) by (auto simp: file_contents_def)
  have lenL: "unat (data_length loc) \<le> length cs * v_cluster_size (vol fs)"
    using len length_chain_data(2) [OF ok cs(2)] cs(3) by (metis length_take min.cobounded1)
  have "cs \<noteq> []" using lenL False by (auto simp: unat_eq_zero)
  then have "2 \<le> loc_first_cluster loc" using cs(1) by (cases cs) auto
  moreover obtain fs' where fs': "read_cluster_chain (loc_first_cluster loc) fs = (Inr cs, fs')" "fs_ok fs'" "vol fs' = vol fs"
    using read_cluster_chain_ok [OF ok cs(1,2)] by (rule yieldsE)
  moreover have "0 < data_length loc" using False by (simp add: word_neq_0_conv)
  ultimately have r: "reader_from_location loc fs =
      (Inr \<lparr>fr_chain = cs, fr_size = data_length loc, fr_position = 0, fr_cache = None\<rparr>, fs')"
    by (simp add: reader_from_location_def bindE_def returnE_def)
  have "reading (vol fs) data \<lparr>fr_chain = cs, fr_size = data_length loc, fr_position = 0, fr_cache = None\<rparr>"
    using cs(2,3) lenL by (simp add: reading_def)
  with that [OF r fs'(2,3)] show thesis by simp
qed

lemma zeros_append: "zeros a @ zeros b = zeros (a + b)"
  by (simp add: zeros_def replicate_add)

lemma take_zeros: "take a (zeros b) = zeros (min a b)"
  by (simp add: zeros_def)

lemma drop_zeros: "drop a (zeros b) = zeros (b - a)"
  by (simp add: zeros_def)

text \<open>C24: Seeking and reading. A reader opened on a file of a good volume behaves as a cursor on the file's
  bytes: a seek that does not end before the start sets the position, any other is an error and changes
  nothing, and a read of up to \<open>n\<close> bytes returns the next \<open>n\<close>, or all there are, whatever cluster boundaries and
  cached clusters are in between, and advances by as many.\<close>

theorem reader_is_cursor:
  assumes "fs_ok fs" and "reading (vol fs) data r"
  shows "(\<exists>r'. fr_read n (fs, r) = (Inr (take n (drop (unat (fr_position r)) data)), (fs, r')) \<and> reading (vol fs) data r' \<and>
      unat (fr_position r') = unat (fr_position r) + length (take n (drop (unat (fr_position r)) data))) \<and>
    (\<forall>target. let new_pos = (case target of SeekStart off \<Rightarrow> off | SeekEnd off \<Rightarrow> word_of_nat (length data) + off
        | SeekCurrent off \<Rightarrow> fr_position r + off) in
      if sint new_pos < 0 then fr_seek target (fs, r) = (Inl NegativeSeek, (fs, r))
      else \<exists>r'. fr_seek target (fs, r) = (Inr new_pos, (fs, r')) \<and> reading (vol fs) data r' \<and> fr_position r' = new_pos)"
proof (intro conjI allI)
  show "\<exists>r'. fr_read n (fs, r) = (Inr (take n (drop (unat (fr_position r)) data)), (fs, r')) \<and> reading (vol fs) data r' \<and>
      unat (fr_position r') = unat (fr_position r) + length (take n (drop (unat (fr_position r)) data))"
    using fr_read_ok [OF assms, of n] by blast
  fix target
  have sz: "word_of_nat (length data) = fr_size r" using reading_length [OF assms] by simp
  show "let new_pos = (case target of SeekStart off \<Rightarrow> off | SeekEnd off \<Rightarrow> word_of_nat (length data) + off
        | SeekCurrent off \<Rightarrow> fr_position r + off) in
      if sint new_pos < 0 then fr_seek target (fs, r) = (Inl NegativeSeek, (fs, r))
      else \<exists>r'. fr_seek target (fs, r) = (Inr new_pos, (fs, r')) \<and> reading (vol fs) data r' \<and> fr_position r' = new_pos"
    using assms(2) unfolding sz fr_seek_def Let_def by (simp add: reading_position split: seek_from.split)
qed

theorem reader_is_cursor_witness:
  "\<exists>r'. fr_read 3 (small, \<lparr>fr_chain = [4, 5], fr_size = 1500, fr_position = 1022, fr_cache = None\<rparr>) = (Inr (zeros 3), (small, r'))"
proof -
  let ?r = "\<lparr>fr_chain = [4, 5], fr_size = 1500, fr_position = 1022, fr_cache = None\<rparr>"
  have d: "v_data (vol small) 4 = zeros 1024" "v_data (vol small) 5 = zeros 1024" by (rule small_cluster(2), simp)+
  have "take 1500 (concat (map (v_data (vol small)) [4, 5])) = zeros 1500"
    unfolding list.map concat.simps d append_Nil2 by (simp only: zeros_append take_zeros) simp
  then have "reading (vol small) (zeros 1500) ?r"
    by (simp add: reading_def in_heap_def small_fields del: v_data_vol)
  moreover have "take 3 (drop (unat (fr_position ?r)) (zeros 1500)) = zeros 3" by (simp add: take_zeros drop_zeros)
  ultimately show ?thesis using reader_is_cursor [OF small_ok, of "zeros 1500" ?r 3] by auto
qed

text \<open>C31: Copying a file of the root directory to a writer gives the bytes that reading it gives, and their number,
  for every file that is not a directory and whose chain holds as many bytes as its entry says: the 64 KiB
  steps, the cluster cache and the chain are not observable.\<close>

theorem stream_read_equals_read:
  assumes ok: "fs_ok fs" and view: "dir_view (vol fs) (v_root (vol fs)) css"
    and loc: "lookup lower (lower name) (dir_sets css) = Some loc" "\<not> is_directory loc"
    and c: "file_contents (vol fs) loc data" "length data = unat (data_length loc)"
  shows "fst (read_file_to_writer lower name fs) = Inr (data, data_length loc) \<and> fst (read_file lower name fs) = Inr data"
proof
  obtain fs1 where fs1: "find_file_entry lower name fs = (Inr (Some loc), fs1)" "fs_ok fs1" "vol fs1 = vol fs"
    using find_file_ok [OF ok view, of lower name] unfolding loc(1) by (rule yieldsE)
  obtain fs2 r where r: "reader_from_location loc fs1 = (Inr r, fs2)" "fs_ok fs2" "vol fs2 = vol fs1"
    "reading (vol fs1) data r" "fr_position r = 0" "fr_size r = data_length loc"
    using reader_from_location_ok [OF fs1(2) _ c(2)] c(1) unfolding fs1(3) by blast
  have opened: "reader_open lower name fs = (Inr r, fs2)" using fs1(1) loc(2) r(1) by (simp add: reader_open_def bindE_def)
  have "length data - unat (fr_position r) < unat (fr_size r) + 1" using c(2) r(6) by simp
  from do_stream_read_ok [OF r(2) _ this, of "[]"] r(3,4,5)
  obtain r' where "do_stream_read (unat (fr_size r) + 1) [] (fs2, r) = (Inr data, (fs2, r'))" by auto
  then show "fst (read_file_to_writer lower name fs) = Inr (data, data_length loc)"
    using opened c(2) by (simp add: read_file_to_writer_def stream_from_def bindE_def del: do_stream_read.simps)
  show "fst (read_file lower name fs) = Inr data"
    using read_file_ok [OF ok view loc(1) c(1)] by (auto simp: yields_def)
qed


theorem stream_read_equals_read_witness:
  "\<exists>fs'. write_file id 0 [65] [1, 2, 3] small = (Inr (), fs') \<and> fst (read_file_to_writer id [65] fs') = Inr ([1, 2, 3], 3)"
proof -
  let ?data = "[1, 2, 3] :: bytes"
  note w = small_writable
  have n: "clusters_for (v_cluster_size (vol small)) (length ?data) < length (free_list (vol small))"
    by (simp add: clusters_for_def small_fields small_free_list)
  have none: "lookup id (id [65]) (dir_sets [(3, empty_cluster 1024)]) = None" unfolding w(4) by simp
  obtain fs1 where fs1: "fs_ok fs1" "vol fs1 = vol small"
    "write_file id 0 [65] ?data small = write_file_data_and_entry 0 (v_root (vol small)) [65] ?data fs1"
    using write_file_new [OF small_ok w(1,2) none] .
  from write_data_entry_ok [OF fs1(1), unfolded fs1(2), OF w(1,3,5-8) n]
  obtain fs' where fs': "write_file id 0 [65] ?data small = (Inr (), fs')" "fs_ok fs'"
      "file_added (vol small) (vol fs') (v_root (vol small)) [(3, empty_cluster 1024)] 0 [65] ?data"
    unfolding fs1(3) yields_def by blast
  then obtain css' xs ys c off first where a: "v_root (vol fs') = v_root (vol small)"
    "dir_view (vol fs') (v_root (vol small)) css'" "dir_sets [(3, empty_cluster 1024)] = xs @ ys"
    "dir_sets css' = xs @ (c, off, create_file_entries 0 [65] first (word_of_nat (length ?data)) False) # ys"
    "file_contents (vol fs') (location (c, off, create_file_entries 0 [65] first (word_of_nat (length ?data)) False)) ?data"
    unfolding file_added_def Let_def by blast
  let ?loc = "location (c, off, create_file_entries 0 [65] first (word_of_nat (length ?data)) False)"
  have view: "dir_view (vol fs') (v_root (vol fs')) css'" using a(1,2) by simp
  have found: "lookup id (id [65]) (dir_sets css') = Some ?loc"
    using lookup_new [OF w(3)] none unfolding a(3,4) by blast
  note loc = location_new [OF w(3), of c off 0 first "word_of_nat (length ?data)" False]
  have "fst (read_file_to_writer id [65] fs') = Inr (?data, data_length ?loc) \<and> fst (read_file id [65] fs') = Inr ?data"
    by (rule stream_read_equals_read [OF fs'(2) view found _ a(5)]) (simp_all only: loc, simp_all)
  then show ?thesis using fs'(1) unfolding loc(2) by simp
qed

end
