(* ===== verification/Exfat_Open.thy ===== *)
theory Exfat_Open
  imports Exfat_Format Exfat_Ops_Spec
begin

text \<open>
  The formatter (\<^verbatim>\<open>Exfat_Format\<close>) and the file system (\<^verbatim>\<open>Exfat_Fat\<close>) together: what \<open>format_exfat\<close> writes
  is one contiguous range of the partition, and \<open>ExfatFs::open\<close> on it gives a state that satisfies the
  invariant of the volume, with an empty root directory.
\<close>

section \<open>Formatting is one write\<close>

lemma write_all_Nil [simp]: "write_all [] c = c"
  by (simp add: write_all_def)

lemma fold_write_all: "fold write_all bss c = write_all (concat bss) c"
  by (induction bss arbitrary: c) (simp_all add: write_all_append)

lemma fold_write_map: "fold (\<lambda>x. write_all (f x)) xs c = write_all (concat (map f xs)) c"
  by (induction xs arbitrary: c) (simp_all add: write_all_append)

lemma seek_same: "unat p = cur_pos c \<Longrightarrow> seek_start p c = c"
  by (simp add: seek_start_def)

definition boot_region :: "boot_sector \<Rightarrow> bytes" where
  "boot_region b = (let region = boot_sector_to_bytes b # replicate 10 (replicate 512 0)
     in concat region @ concat (replicate 128 (to_le 4 (calculate_boot_checksum region))))"

definition fat_region :: "boot_sector \<Rightarrow> u32 \<Rightarrow> bytes" where
  "fat_region b uc = concat (map (to_le 4) (initial_fat uc)) @ replicate (unat (boot_fat_length b) * 512 - 4 * (unat uc + 4)) 0"

definition upcase_region :: "u32 \<Rightarrow> u32 \<Rightarrow> bytes" where
  "upcase_region cs uc = generate_upcase_table @ replicate (unat uc * unat cs - 131072) 0"

definition root_region :: "boot_sector \<Rightarrow> u32 \<Rightarrow> rstr \<Rightarrow> bytes" where
  "root_region b cs label = create_volume_label_entry label @
     create_bitmap_entry 2 (ucast ((boot_cluster_count b + 7) div 8)) @
     create_upcase_entry 3 131072 (calculate_upcase_checksum generate_upcase_table) @ replicate (unat cs - 96) 0"

definition volume_bytes :: "boot_sector \<Rightarrow> u32 \<Rightarrow> rstr \<Rightarrow> bytes" where
  "volume_bytes b cs label = (let uc = upcase_cluster_count cs in
     boot_region b @ boot_region b @ fat_region b uc @ initial_bitmap cs uc @ upcase_region cs uc @ root_region b cs label)"

lemma length_boot_sector_bytes: "length (jump_boot s) = 3 \<Longrightarrow> length (fs_name s) = 8 \<Longrightarrow> length (boot_sector_to_bytes s) = 512"
  by (simp add: boot_sector_to_bytes_def Let_def)

lemma length_concat_const: "length (concat (replicate n xs)) = n * length xs"
  by (induction n) simp_all

lemma length_boot_region: "length (jump_boot b) = 3 \<Longrightarrow> length (fs_name b) = 8 \<Longrightarrow> length (boot_region b) = 6144"
  by (simp add: boot_region_def Let_def length_boot_sector_bytes length_concat_const)

lemma length_initial_fat: "length (initial_fat uc) = unat uc + 4"
  by (simp add: initial_fat_def)

lemma length_fat_region:
  "4 * (unat uc + 4) \<le> unat (boot_fat_length b) * 512 \<Longrightarrow> length (fat_region b uc) = unat (boot_fat_length b) * 512"
  by (simp add: fat_region_def length_concat_le4 length_initial_fat)

lemma length_mark_cluster [simp]: "length (mark_cluster c b) = length b"
  by (simp add: mark_cluster_def Let_def)

lemma length_fold_mark [simp]: "length (fold (\<lambda>i. mark_cluster (f i)) xs b) = length b"
  by (induction xs arbitrary: b) simp_all

lemma length_initial_bitmap: "length (initial_bitmap cs uc) = unat cs"
  by (simp add: initial_bitmap_def Let_def)

lemma length_upcase_table: "length generate_upcase_table = 131072"
proof -
  have "length (concat (map (\<lambda>i. to_le 2 (f i :: u16)) xs)) = 2 * length xs" for f and xs :: "nat list"
    by (induction xs) simp_all
  then have "length (concat (map (\<lambda>i. to_le 2 (f i :: u16)) [0..<n])) = 2 * n" for f and n :: nat by (simp only: length_upt minus_nat.diff_0)
  from this [of _ 65536] show ?thesis unfolding generate_upcase_table_def by (simp only:)
qed

lemma length_upcase_region: "131072 \<le> unat uc * unat cs \<Longrightarrow> length (upcase_region cs uc) = unat uc * unat cs"
  by (simp add: upcase_region_def length_upcase_table)

lemma fold_copy_length:
  "\<forall>(i, u) \<in> set ius. off + i * 2 + 2 \<le> length e \<Longrightarrow>
     length (fold (\<lambda>(i, u) e. copy_at (off + i * 2) (to_le 2 (u :: u16)) e) ius e) = length e"
  by (induction ius arbitrary: e) auto

lemma length_entries:
  "length (create_bitmap_entry c n) = 32" "length (create_upcase_entry c n k) = 32"
  "length (create_volume_label_entry label) = 32"
proof -
  show "length (create_bitmap_entry c n) = 32" "length (create_upcase_entry c n k) = 32"
    by (simp_all add: create_bitmap_entry_def create_upcase_entry_def Let_def)
  have "\<forall>(i, u) \<in> set (enumerate 0 (take 11 (encode_utf16 label))). 2 + i * 2 + 2 \<le> 32"
    by (auto simp: in_set_enumerate_eq)
  then show "length (create_volume_label_entry label) = 32"
    unfolding create_volume_label_entry_def Let_def by (subst fold_copy_length) simp_all
qed

lemma length_root_region: "96 \<le> unat cs \<Longrightarrow> length (root_region b cs label) = unat cs"
  by (simp add: root_region_def length_entries)


text \<open>The numbers of a volume of \<open>v\<close> sectors.\<close>

lemma volume_numbers:
  assumes "63488 \<le> unat v" and "unat v < 2 ^ 32"
    and cs_def: "cs = get_cluster_size v" and b_def: "b = boot_sector_new v cs serial" and uc_def: "uc = upcase_cluster_count cs"
  shows "unat uc * unat cs = 131072" and "unat uc \<le> 32" and "1 \<le> unat uc" and "4096 \<le> unat cs" and "unat cs mod 32 = 0"
    and "unat (boot_fat_offset b) = 24" and "unat (boot_cluster_heap_offset b) = 24 + unat (boot_fat_length b)"
    and "4 * (unat (boot_cluster_count b) + 2) \<le> 512 * unat (boot_fat_length b)"
    and "(24 + unat (boot_fat_length b)) * 512 + unat (boot_cluster_count b) * unat cs \<le> unat v * 512"
    and "unat (boot_first_cluster_of_root b) = 3 + unat uc" and "3 + unat uc < unat (boot_cluster_count b) + 2"
    and "boot_first_cluster_of_root b = 3 + uc"
    and "shl1 (bytes_per_sector_shift b) = 512" and "512 * shl1 (boot_spc_shift b) = cs"
    and "length (jump_boot b) = 3" and "fs_name b = [0x45, 0x58, 0x46, 0x41, 0x54, 0x20, 0x20, 0x20]"
    and "boot_fat_offset b = 24" and "boot_cluster_heap_offset b = 24 + boot_fat_length b"
proof -
  have cases: "cs = 4096 \<or> cs = 32768 \<or> cs = 131072"
    using cluster_size_cases [OF assms(2)] by (cases) (simp_all add: cs_def)
  note u = upcase_cluster_counts
  show n: "unat uc * unat cs = 131072" "unat uc \<le> 32" "1 \<le> unat uc" "4096 \<le> unat cs" "unat cs mod 32 = 0"
    using cases u by (auto simp: uc_def)
  note g = geometry_facts [OF assms(1,2), of serial, folded cs_def, folded b_def, unfolded Let_def]
  show "unat (boot_fat_offset b) = 24" "unat (boot_cluster_heap_offset b) = 24 + unat (boot_fat_length b)"
    "4 * (unat (boot_cluster_count b) + 2) \<le> 512 * unat (boot_fat_length b)" using g by simp_all
  have "(unat (boot_cluster_heap_offset b) + unat (boot_cluster_count b) * 2 ^ unat (boot_spc_shift b)) * 512 \<le> unat v * 512"
    using g by simp
  then show "(24 + unat (boot_fat_length b)) * 512 + unat (boot_cluster_count b) * unat cs \<le> unat v * 512"
    using g by (simp add: add_mult_distrib mult.assoc mult.commute mult.left_commute)
  have "131072 div unat cs = unat uc" using cases u by (auto simp: uc_def)
  with g show r: "unat (boot_first_cluster_of_root b) = 3 + unat uc" by simp
  have "unat (boot_first_cluster_of_root b) < unat (boot_cluster_count b) + 2" using g by blast
  then show "3 + unat uc < unat (boot_cluster_count b) + 2" unfolding r .
  show "boot_first_cluster_of_root b = 3 + uc" by (simp add: b_def boot_sector_new_def Let_def uc_def)
  show "shl1 (bytes_per_sector_shift b) = 512" by (simp add: b_def boot_sector_new_def Let_def shl1_def)
  show "512 * shl1 (boot_spc_shift b) = cs"
    using cases by (auto simp: b_def boot_sector_new_def Let_def shl1_def sectors_per_cluster_shift_def)
  show "length (jump_boot b) = 3" "fs_name b = [0x45, 0x58, 0x46, 0x41, 0x54, 0x20, 0x20, 0x20]" "boot_fat_offset b = 24"
    "boot_cluster_heap_offset b = 24 + boot_fat_length b" by (simp_all add: b_def boot_sector_new_def Let_def)
qed

lemma unat_sector_pos:
  "unat (p :: u64) + unat (s :: u32) * 512 < 2 ^ 64 \<Longrightarrow> unat (p + ucast s * 512) = unat p + unat s * 512"
proof -
  assume a: "unat p + unat s * 512 < 2 ^ 64"
  then have "unat (ucast s * 512 :: u64) = unat s * 512" by (subst unat_mult64) simp_all
  with a show ?thesis by (simp add: unat_add64)
qed

lemma unat_of_nat_times4: "m < 2 ^ 32 \<Longrightarrow> unat (word_of_nat m * 4 :: u64) = 4 * m"
  by (subst unat_mult64) (simp_all add: unat_of_nat)

lemma room_aux: "x \<le> y \<Longrightarrow> p + ((24 + f) * 512 + y) < (z :: nat) \<Longrightarrow> p + 12288 + f * 512 + x < z"
  by simp

lemma write_padding: "(if 0 < w then write_all (replicate (unat w) 0) c else c) = write_all (replicate (unat (w :: u64)) 0) c"
  by (simp add: word_gt_0)

lemma format_exfat_write:
  fixes serial
  assumes v: "63488 \<le> unat (part_size div 512)" "unat (part_size div 512) < 2 ^ 32"
    and po: "unat part_offset + unat part_size < 2 ^ 64"
  defines "cs \<equiv> get_cluster_size (part_size div 512)"
  defines "b \<equiv> boot_sector_new (part_size div 512) cs serial"
  shows "cur_data (format_exfat serial part_offset part_size label c) = write_at (unat part_offset) (volume_bytes b cs label) (cur_data c)"
proof -
  define uc where "uc = upcase_cluster_count cs"
  note n = volume_numbers [OF v cs_def [THEN meta_eq_to_obj_eq] b_def [THEN meta_eq_to_obj_eq] uc_def]
  let ?p = "unat part_offset" and ?fl = "unat (boot_fat_length b)"
  have "unat (part_size div 512) * 512 \<le> unat part_size" by (simp add: unat_div)
  then have room: "?p + ((24 + ?fl) * 512 + unat (boot_cluster_count b) * unat cs) < 2 ^ 64" using n(9) po by linarith
  have "(2 + unat uc) * unat cs \<le> unat (boot_cluster_count b) * unat cs" using n(11) by (intro mult_le_mono1) simp
  then have heap_room: "(2 + unat uc) * unat cs \<le> unat (boot_cluster_count b) * unat cs" .
  have l: "length (boot_region b) = 6144" using n(15,16) by (intro length_boot_region) simp_all
  have "35 < unat (boot_cluster_count b) + 2 \<or> unat uc + 1 < unat (boot_cluster_count b)" using n(11) by simp
  then have fit: "4 * (unat uc + 4) \<le> ?fl * 512" using n(8,11) by simp
  note lf = length_fat_region [OF fit]
  have lu: "length (upcase_region cs uc) = unat uc * unat cs" using n(1) by (intro length_upcase_region) simp
  have fat_pos: "unat (part_offset + ucast (boot_fat_offset b) * 512) = ?p + 12288"
    using room n(17) by (subst unat_sector_pos) simp_all
  have heap_pos: "unat (part_offset + ucast (boot_cluster_heap_offset b) * 512) = ?p + 12288 + ?fl * 512"
    using room n(7) by (subst unat_sector_pos) simp_all
  define br where "br = boot_sector_to_bytes b # replicate 10 (replicate 512 (0 :: u8))"
  define ck where "ck = concat (replicate 128 (to_le 4 (calculate_boot_checksum br)))"
  define c0 where "c0 = seek_start part_offset c"
  define c1 where "c1 = write_all (boot_region b @ boot_region b) c0"
  define c2 where "c2 = write_all (fat_region b uc) c1"
  define c3 where "c3 = write_all (initial_bitmap cs uc) c2"
  define c4 where "c4 = write_all (upcase_region cs uc) c3"
  define c5 where "c5 = write_all (root_region b cs label) c4"
  have region: "boot_region b = concat br @ ck" by (simp add: boot_region_def br_def ck_def Let_def)
  have pos: "cur_pos c1 = ?p + 12288" "cur_pos c2 = ?p + 12288 + ?fl * 512" "cur_pos c3 = ?p + 12288 + ?fl * 512 + unat cs"
      "cur_pos c4 = ?p + 12288 + ?fl * 512 + unat cs + unat uc * unat cs"
    by (simp_all add: c0_def c1_def c2_def c3_def c4_def write_all_def seek_start_def l lf lu length_initial_bitmap)
  have e0: "write_all ck (fold write_all br (write_all ck (fold write_all br (seek_start part_offset c)))) = c1"
    by (simp only: fold_write_all write_all_append c1_def c0_def region append_assoc)
  have e1: "seek_start (part_offset + ucast (boot_fat_offset b) * 512) c1 = c1" using fat_pos pos(1) by (intro seek_same) simp
  have e2: "write_all (replicate (unat (ucast (boot_fat_length b) * 512 - (word_of_nat (length (initial_fat uc)) * 4 :: u64))) 0)
      (fold (\<lambda>entry. write_all (to_le 4 entry)) (initial_fat uc) c1) = c2"
  proof -
    have a: "unat (ucast (boot_fat_length b) * 512 :: u64) = ?fl * 512" using room by (subst unat_mult64) simp_all
    have d: "unat (word_of_nat (length (initial_fat uc)) * 4 :: u64) = 4 * (unat uc + 4)"
      unfolding length_initial_fat using n(2) by (intro unat_of_nat_times4) simp
    have "unat (ucast (boot_fat_length b) * 512 - (word_of_nat (length (initial_fat uc)) * 4 :: u64)) = ?fl * 512 - 4 * (unat uc + 4)"
      using a d fit by (subst unat_sub) (simp_all add: word_le_nat_alt)
    then show ?thesis by (simp only: fold_write_map write_all_append c2_def fat_region_def)
  qed
  have e3: "seek_start (part_offset + ucast (boot_cluster_heap_offset b) * 512) c2 = c2" using heap_pos pos(2) by (intro seek_same) simp
  have bound: "?p + 12288 + ?fl * 512 + (2 + unat uc) * unat cs < 2 ^ 64" by (rule room_aux [OF heap_room room])
  have off1: "unat (part_offset + ucast (boot_cluster_heap_offset b) * 512 + ucast cs) = ?p + 12288 + ?fl * 512 + unat cs"
    using heap_pos bound by (subst unat_add64) simp_all
  have e5: "seek_start (part_offset + ucast (boot_cluster_heap_offset b) * 512 + ucast cs) c3 = c3"
    using off1 pos(3) by (intro seek_same) simp
  have e6: "(if 0 < ucast uc * ucast cs - word_of_nat (length generate_upcase_table)
      then write_all (replicate (unat (ucast uc * ucast cs - word_of_nat (length generate_upcase_table) :: u64)) 0) (write_all generate_upcase_table c3)
      else write_all generate_upcase_table c3) = c4"
  proof -
    have "unat (ucast uc * ucast cs :: u64) = 131072" using n(1) by (subst unat_mult64) simp_all
    then have "ucast uc * ucast cs = (131072 :: u64)" by (simp add: word_unat_eq_iff)
    then show ?thesis unfolding length_upcase_table using n(1) by (simp add: c4_def upcase_region_def)
  qed
  have e7: "seek_start (part_offset + ucast (boot_cluster_heap_offset b) * 512 + (1 + ucast uc) * ucast cs) c4 = c4"
  proof (rule seek_same)
    have u: "unat (1 + ucast uc :: u64) = 1 + unat uc" using n(2) by (subst unat_add64) simp_all
    have "unat ((1 + ucast uc) * ucast cs :: u64) = (1 + unat uc) * unat cs"
      using u bound by (subst unat_mult64) simp_all
    then show "unat (part_offset + ucast (boot_cluster_heap_offset b) * 512 + (1 + ucast uc) * ucast cs) = cur_pos c4"
      using heap_pos bound pos(4) by (subst unat_add64) simp_all
  qed
  have e8: "write_all (replicate (unat (ucast cs - (32 * 3 :: u64))) 0) (write_all (create_upcase_entry 3 (word_of_nat (length generate_upcase_table))
      (calculate_upcase_checksum generate_upcase_table)) (write_all (create_bitmap_entry 2 (ucast ((boot_cluster_count b + 7) div 8)))
      (write_all (create_volume_label_entry label) c4))) = c5"
  proof -
    have "unat (ucast cs - (32 * 3 :: u64)) = unat cs - 96" using n(4) by (subst unat_sub) (simp_all add: word_le_nat_alt)
    then show ?thesis by (simp only: write_all_append c5_def root_region_def length_upcase_table append_assoc) simp
  qed
  have "format_exfat serial part_offset part_size label c = c5"
    unfolding format_exfat_def Let_def
    by (simp only: cs_def [symmetric] b_def [symmetric] uc_def [symmetric] br_def [symmetric] ck_def [symmetric]
        e0 e1 e2 e3 c3_def [symmetric] e5 e6 e7 e8)
  then show ?thesis
    by (simp only: c5_def c4_def c3_def c2_def c1_def c0_def write_all_append write_all_seek volume_bytes_def Let_def
        uc_def [symmetric] append_assoc)
qed


section \<open>Opening a formatted volume\<close>

lemma slice_in_append:
  "slice p n (xs @ ys) = slice p n xs" if "p + n \<le> length xs"
  using that by (simp add: slice_def)

lemma slice_pieces:
  "length a = p \<Longrightarrow> length x = n \<Longrightarrow> slice p n (a @ x @ z) = x"
  by (simp add: slice_def)

lemma slice_list_update: "i < p \<or> p + n \<le> i \<Longrightarrow> slice p n (xs[i := x]) = slice p n xs"
  by (cases "i < p") (auto simp: slice_def take_update_swap drop_update_swap list_update_beyond)

lemma slice_copy_at_same': "length src = n \<Longrightarrow> off + n \<le> length dst \<Longrightarrow> slice off n (copy_at off src dst) = src"
  using slice_copy_at_same by blast

text \<open>The fields of the boot sector where \<open>open\<close> reads them.\<close>

lemma boot_sector_fields_at:
  assumes "length (jump_boot s) = 3" and "length (fs_name s) = 8"
  shows "slice 3 8 (boot_sector_to_bytes s) = fs_name s"
    and "from_le (slice 80 4 (boot_sector_to_bytes s)) = boot_fat_offset s"
    and "from_le (slice 84 4 (boot_sector_to_bytes s)) = boot_fat_length s"
    and "from_le (slice 88 4 (boot_sector_to_bytes s)) = boot_cluster_heap_offset s"
    and "from_le (slice 92 4 (boot_sector_to_bytes s)) = boot_cluster_count s"
    and "from_le (slice 96 4 (boot_sector_to_bytes s)) = boot_first_cluster_of_root s"
    and "boot_sector_to_bytes s ! 108 = bytes_per_sector_shift s"
    and "boot_sector_to_bytes s ! 109 = boot_spc_shift s"
proof -
  define p where "p = copy_at 3 (fs_name s) (copy_at 0 (jump_boot s) (replicate 512 0))"
  define q where "q = copy_at 80 (to_le 4 (boot_fat_offset s)) (copy_at 72 (to_le 8 (volume_length s))
    (copy_at 64 (to_le 8 (boot_partition_offset s)) p))"
  define r where "r = copy_at 96 (to_le 4 (boot_first_cluster_of_root s)) (copy_at 92 (to_le 4 (boot_cluster_count s))
    (copy_at 88 (to_le 4 (boot_cluster_heap_offset s)) (copy_at 84 (to_le 4 (boot_fat_length s)) q)))"
  define t where "t = copy_at 106 (to_le 2 (volume_flags s)) (copy_at 104 (to_le 2 (fs_revision s)) (copy_at 100 (to_le 4 (volume_serial_number s)) r))"
  have len: "length p = 512" "length q = 512" "length r = 512" "length t = 512"
    using assms by (simp_all add: p_def q_def r_def t_def)
  have bytes: "boot_sector_to_bytes s = copy_at 510 (to_le 2 (boot_signature s)) (t[108 := bytes_per_sector_shift s, 109 := boot_spc_shift s,
      110 := number_of_fats s, 111 := drive_select s, 112 := percent_in_use s])"
    by (simp add: boot_sector_to_bytes_def Let_def p_def q_def r_def t_def)
  show "boot_sector_to_bytes s ! 108 = bytes_per_sector_shift s" "boot_sector_to_bytes s ! 109 = boot_spc_shift s"
    unfolding bytes using len by (simp_all add: nth_copy_at)
  note slices = slice_copy_at_before slice_copy_at_after slice_list_update slice_copy_at_same'
  have cut: "slice i n (boot_sector_to_bytes s) = slice i n r" if "i + n \<le> 100" for i n
    unfolding bytes t_def using that len by (simp add: slices)
  have cut_p: "slice 3 8 r = slice 3 8 p" and cut_q: "slice 80 4 r = slice 80 4 q"
    unfolding r_def q_def using len by (simp_all add: slices q_def)
  show "slice 3 8 (boot_sector_to_bytes s) = fs_name s" using assms by (simp add: cut cut_p) (simp add: p_def slices)
  show "from_le (slice 80 4 (boot_sector_to_bytes s)) = boot_fat_offset s" using len by (simp add: cut cut_q) (simp add: q_def slices)
  show "from_le (slice 84 4 (boot_sector_to_bytes s)) = boot_fat_length s"
    "from_le (slice 88 4 (boot_sector_to_bytes s)) = boot_cluster_heap_offset s"
    "from_le (slice 92 4 (boot_sector_to_bytes s)) = boot_cluster_count s"
    "from_le (slice 96 4 (boot_sector_to_bytes s)) = boot_first_cluster_of_root s"
    using len by (simp_all add: cut) (simp_all add: r_def slices)
qed


lemma length_volume_bytes:
  assumes v: "63488 \<le> unat v" "unat v < 2 ^ 32" and cs: "cs = get_cluster_size v" and b: "b = boot_sector_new v cs serial"
    and uc: "uc = upcase_cluster_count cs"
  shows "length (volume_bytes b cs label) = (24 + unat (boot_fat_length b)) * 512 + (2 + unat uc) * unat cs"
    and "length (boot_region b) = 6144" and "length (fat_region b uc) = unat (boot_fat_length b) * 512"
    and "length (volume_bytes b cs label) \<le> unat v * 512"
proof -
  note n = volume_numbers [OF v cs b uc]
  show l: "length (boot_region b) = 6144" using n(15,16) by (intro length_boot_region) simp_all
  have fit: "4 * (unat uc + 4) \<le> unat (boot_fat_length b) * 512" using n(8,11) by simp
  show f: "length (fat_region b uc) = unat (boot_fat_length b) * 512" by (rule length_fat_region [OF fit])
  have r: "length (root_region b cs label) = unat cs" using n(4) by (intro length_root_region) simp
  have u: "length (upcase_region cs uc) = unat uc * unat cs" using n(1) by (intro length_upcase_region) simp
  show len: "length (volume_bytes b cs label) = (24 + unat (boot_fat_length b)) * 512 + (2 + unat uc) * unat cs"
    by (simp add: volume_bytes_def Let_def uc [symmetric] l f r u length_initial_bitmap algebra_simps)
  have "(2 + unat uc) * unat cs \<le> unat (boot_cluster_count b) * unat cs" using n(11) by (intro mult_le_mono1) simp
  with n(9) show "length (volume_bytes b cs label) \<le> unat v * 512" unfolding len by (meson add_left_mono order_trans)
qed

text \<open>The state after opening.\<close>

definition opened :: "boot_sector \<Rightarrow> u32 \<Rightarrow> partition_layout \<Rightarrow> bytes \<Rightarrow> exfat_fs" where
  "opened b cs layout f = \<lparr>fs_file = f, partition_offset = data_offset layout, bytes_per_sector = 512,
     sectors_per_cluster = shl1 (boot_spc_shift b), cluster_size = cs, fat_offset = boot_fat_offset b,
     fat_length = boot_fat_length b, cluster_heap_offset = boot_cluster_heap_offset b,
     cluster_count = boot_cluster_count b, first_cluster_of_root = boot_first_cluster_of_root b,
     fat_cache = fat_cache_new, bitmap_cache = None, bitmap_dirty = False\<rparr>"

lemma open_formatted:
  assumes v: "63488 \<le> unat v" "unat v < 2 ^ 32" and cs: "cs = get_cluster_size v" and b: "b = boot_sector_new v cs serial"
    and room: "unat (data_offset layout) + unat v * 512 \<le> length f"
    and at: "slice (unat (data_offset layout)) (length (volume_bytes b cs label)) f = volume_bytes b cs label"
  shows "open_fs f layout = Inr (opened b cs layout f)"
proof -
  define uc where "uc = upcase_cluster_count cs"
  note n = volume_numbers [OF v cs b uc_def]
  note len = length_volume_bytes [OF v cs b uc_def]
  have lb: "length (boot_sector_to_bytes b) = 512" using n(15,16) by (intro length_boot_sector_bytes) simp_all
  obtain rest where rest: "volume_bytes b cs label = boot_sector_to_bytes b @ rest"
    by (simp add: volume_bytes_def boot_region_def Let_def)
  have l512: "512 \<le> length (volume_bytes b cs label)" unfolding rest using lb by simp
  have s: "slice (unat (data_offset layout)) 512 f = slice 0 512 (volume_bytes b cs label)"
    by (subst at [symmetric], subst slice_slice) (use l512 in simp_all)
  have boot: "slice (unat (data_offset layout)) 512 f = boot_sector_to_bytes b"
    unfolding s rest using slice_pieces [of "[]" 0 "boot_sector_to_bytes b" 512 rest] lb by simp
  have "unat (data_offset layout) + 512 \<le> length f" using room l512 len(4) [of label] by linarith
  then have r: "read_at (unat (data_offset layout)) 512 f = Some (boot_sector_to_bytes b)" by (simp add: read_at_def boot)
  have names: "length (jump_boot b) = 3" "length (fs_name b) = 8" using n(15,16) by simp_all
  note fields = boot_sector_fields_at [OF names]
  show ?thesis
    unfolding open_fs_def Let_def r option.case fields using n(13,14,16) by (simp add: opened_def)
qed


text \<open>Reading the regions of the volume.\<close>

lemma volume_regions:
  assumes v: "63488 \<le> unat v" "unat v < 2 ^ 32" and cs: "cs = get_cluster_size v" and b: "b = boot_sector_new v cs serial"
    and uc: "uc = upcase_cluster_count cs"
  shows "i + n \<le> unat (boot_fat_length b) * 512 \<Longrightarrow> slice (12288 + i) n (volume_bytes b cs label) = slice i n (fat_region b uc)"
    and "slice (12288 + unat (boot_fat_length b) * 512) (unat cs) (volume_bytes b cs label) = initial_bitmap cs uc"
    and "slice (12288 + unat (boot_fat_length b) * 512 + (1 + unat uc) * unat cs) (unat cs) (volume_bytes b cs label) =
      root_region b cs label"
proof -
  note n = volume_numbers [OF v cs b uc]
  note len = length_volume_bytes [OF v cs b uc]
  have r: "length (root_region b cs label) = unat cs" using n(4) by (intro length_root_region) simp
  have u: "length (upcase_region cs uc) = unat uc * unat cs" using n(1) by (intro length_upcase_region) simp
  let ?rr = "boot_region b @ boot_region b"
  have vb: "volume_bytes b cs label = ?rr @ fat_region b uc @ initial_bitmap cs uc @ upcase_region cs uc @ root_region b cs label"
    by (simp add: volume_bytes_def Let_def uc [symmetric])
  have lr: "length ?rr = 12288" by (simp add: len(2))
  show "slice (12288 + i) n (volume_bytes b cs label) = slice i n (fat_region b uc)" if "i + n \<le> unat (boot_fat_length b) * 512"
    unfolding vb using that lr len(3) by (simp add: slice_append slice_in_append)
  show "slice (12288 + unat (boot_fat_length b) * 512) (unat cs) (volume_bytes b cs label) = initial_bitmap cs uc"
    using slice_pieces [of "?rr @ fat_region b uc" _ "initial_bitmap cs uc" "unat cs" "upcase_region cs uc @ root_region b cs label"]
      len(2,3) by (simp add: vb length_initial_bitmap)
  show "slice (12288 + unat (boot_fat_length b) * 512 + (1 + unat uc) * unat cs) (unat cs) (volume_bytes b cs label) = root_region b cs label"
    using slice_pieces [of "?rr @ fat_region b uc @ initial_bitmap cs uc @ upcase_region cs uc" _ "root_region b cs label" "unat cs" "[]"]
      len(2,3) u r by (simp add: vb length_initial_bitmap add.assoc)
qed

lemma opened_positions:
  assumes v: "63488 \<le> unat v" "unat v < 2 ^ 32" and cs: "cs = get_cluster_size v" and b: "b = boot_sector_new v cs serial"
  shows "fat_base (opened b cs layout f) = unat (data_offset layout) + 12288"
    and "heap_base (opened b cs layout f) = unat (data_offset layout) + 12288 + unat (boot_fat_length b) * 512"
  using volume_numbers(6,7) [OF v cs b refl] by (simp_all add: fat_base_def heap_base_def opened_def)

lemma opened_ok:
  assumes v: "63488 \<le> unat v" "unat v < 2 ^ 32" and cs: "cs = get_cluster_size v" and b: "b = boot_sector_new v cs serial"
    and room: "unat (data_offset layout) + unat v * 512 \<le> length f" "length f < 2 ^ 64"
  shows "fs_ok (opened b cs layout f)"
proof -
  note n = volume_numbers [OF v cs b refl]
  note pos = opened_positions [OF v cs b, of layout f]
  have "4 * (unat (boot_cluster_count b) + 2) < 512 * 2 ^ 32" using n(8) unsigned_less [of "boot_fat_length b", where 'a = nat] by simp
  have "unat (boot_cluster_count b) * 4096 \<le> unat (boot_cluster_count b) * unat cs" using n(4) by simp
  then have "unat (boot_cluster_count b) * 4096 \<le> unat v * 512" using n(9) by linarith
  then have small: "unat (boot_cluster_count b) + 2 < 0xFFFFFFF8" using v(2) by simp
  have "geometry_ok (opened b cs layout f)"
    unfolding geometry_ok_def pos using n small room by (simp add: opened_def)
  then show ?thesis
    by (simp add: fs_ok_def fat_cache_ok_def bitmap_cache_ok_def opened_def fat_cache_new_def Let_def)
qed


section \<open>The FAT, the bitmap and the root directory\<close>

lemma slice_le4:
  "i < length xs \<Longrightarrow> slice (4 * i) 4 (concat (map (to_le 4) xs) @ ys) = to_le 4 (xs ! i)"
proof (induction xs arbitrary: i)
  case (Cons x xs)
  then show ?case by (cases i) (simp_all add: slice_def)
qed simp

lemma nth_initial_fat_root: "initial_fat uc ! (unat uc + 3) = 0xFFFFFFFF"
  by (simp add: initial_fat_def nth_append)

lemma opened_fat_root:
  assumes v: "63488 \<le> unat v" "unat v < 2 ^ 32" and cs: "cs = get_cluster_size v" and b: "b = boot_sector_new v cs serial"
    and at: "slice (unat (data_offset layout)) (length (volume_bytes b cs label)) f = volume_bytes b cs label"
  shows "fat_at (opened b cs layout f) (boot_first_cluster_of_root b) = 0xFFFFFFFF"
proof -
  define uc where "uc = upcase_cluster_count cs"
  note n = volume_numbers [OF v cs b uc_def]
  note len = length_volume_bytes [OF v cs b uc_def]
  let ?i = "unat uc + 3"
  have fit: "4 * ?i + 4 \<le> unat (boot_fat_length b) * 512" using n(8,11) by simp
  have "slice (unat (data_offset layout) + (12288 + 4 * ?i)) 4 f = slice (12288 + 4 * ?i) 4 (volume_bytes b cs label)"
    by (subst at [symmetric], subst slice_slice) (use fit len(1) in \<open>simp_all\<close>)
  also have "\<dots> = slice (4 * ?i) 4 (fat_region b uc)" by (rule volume_regions(1) [OF v cs b uc_def fit])
  also have "\<dots> = to_le 4 (0xFFFFFFFF :: u32)"
    using slice_le4 [of ?i "initial_fat uc"] by (simp add: fat_region_def length_initial_fat nth_initial_fat_root)
  finally have "slice (unat (data_offset layout) + (12288 + 4 * ?i)) 4 f = to_le 4 (0xFFFFFFFF :: u32)" .
  moreover have "fs_file (opened b cs layout f) = f" by (simp add: opened_def)
  ultimately show ?thesis
    by (simp add: fat_at_def fat_pos_def opened_positions(1) [OF v cs b] n(10) add.commute add.left_commute)
qed

lemma opened_cluster:
  assumes v: "63488 \<le> unat v" "unat v < 2 ^ 32" and cs: "cs = get_cluster_size v" and b: "b = boot_sector_new v cs serial"
    and at: "slice (unat (data_offset layout)) (length (volume_bytes b cs label)) f = volume_bytes b cs label"
  shows "cluster_at (opened b cs layout f) 2 = initial_bitmap cs (upcase_cluster_count cs)"
    and "cluster_at (opened b cs layout f) (boot_first_cluster_of_root b) = root_region b cs label"
proof -
  define uc where "uc = upcase_cluster_count cs"
  note n = volume_numbers [OF v cs b uc_def]
  note len = length_volume_bytes [OF v cs b uc_def]
  note pos = opened_positions(2) [OF v cs b, of layout f]
  let ?p = "unat (data_offset layout)" and ?h = "12288 + unat (boot_fat_length b) * 512"
  have size: "cluster_size (opened b cs layout f) = cs" "fs_file (opened b cs layout f) = f" by (simp_all add: opened_def)
  have sl: "slice (?p + q) (unat cs) f = slice q (unat cs) (volume_bytes b cs label)" if "q + unat cs \<le> length (volume_bytes b cs label)" for q
    by (subst at [symmetric], subst slice_slice) (use that in simp_all)
  have "slice (?p + ?h) (unat cs) f = initial_bitmap cs uc"
    using sl [of ?h] len(1) by (simp add: volume_regions(2) [OF v cs b uc_def])
  then show "cluster_at (opened b cs layout f) 2 = initial_bitmap cs (upcase_cluster_count cs)"
    by (simp add: cluster_at_def cluster_pos_def pos size uc_def add.assoc)
  have "slice (?p + (?h + (1 + unat uc) * unat cs)) (unat cs) f = root_region b cs label"
    using sl [of "?h + (1 + unat uc) * unat cs"] len(1) by (simp only: volume_regions(3) [OF v cs b uc_def]) simp
  then show "cluster_at (opened b cs layout f) (boot_first_cluster_of_root b) = root_region b cs label"
    by (simp add: cluster_at_def cluster_pos_def pos size n(10) add.assoc)
qed

text \<open>The bits the formatter sets: it numbers them by cluster, the file system by cluster minus 2.\<close>

lemma bit_mark_cluster:
  assumes "i < length b" and "k < 8"
  shows "bit (mark_cluster c b ! i) k \<longleftrightarrow> bit (b ! i) k \<or> unat c = 8 * i + k"
proof -
  have m: "unat (c mod 8) < 8" by (simp add: unat_mod_distrib)
  have "unat c = 8 * (unat c div 8) + unat c mod 8" by simp
  then have "unat c = 8 * i + k \<longleftrightarrow> unat c div 8 = i \<and> unat c mod 8 = k" using assms(2) by auto
  then show ?thesis
    using assms m by (auto simp: mark_cluster_def Let_def unat_div unat_mod_distrib nth_list_update bit_or_iff bit_push_bit_iff bit_1_iff bit_exp_iff)
qed

lemma bit_fold_mark:
  "i < length b \<Longrightarrow> k < 8 \<Longrightarrow>
     bit (fold (\<lambda>j. mark_cluster (f j)) js b ! i) k \<longleftrightarrow> bit (b ! i) k \<or> (\<exists>j \<in> set js. unat (f j) = 8 * i + k)"
  by (induction js arbitrary: b) (auto simp: bit_mark_cluster)

lemma bit_initial_bitmap:
  assumes "unat uc \<le> 32" and "1 \<le> unat cs" and "i < unat cs" and "k < 8"
  shows "bit (initial_bitmap cs uc ! i) k \<longleftrightarrow> 2 \<le> 8 * i + k \<and> 8 * i + k \<le> unat uc + 3"
proof -
  let ?z = "(replicate (unat cs) (0 :: u8))[0 := replicate (unat cs) 0 ! 0 OR 0x04]"
  have z: "bit (?z ! i) k \<longleftrightarrow> 8 * i + k = 2"
  proof (cases "i = 0")
    case True
    have "bit (0x04 :: u8) k \<longleftrightarrow> k = 2" using assms(4) by (auto simp: less_Suc_eq numeral_eq_Suc bit_Suc)
    then show ?thesis using True assms(3) by simp
  next
    case False
    then show ?thesis using assms(3) by auto
  qed
  have u: "unat (3 + word_of_nat j :: u32) = 3 + j" if "j < unat uc" for j
    using that assms(1) by (simp add: unat_word_ariths(1) unat_of_nat)
  have r: "unat (3 + uc) = 3 + unat uc" using assms(1) by (simp add: unat_word_ariths(1))
  have "(\<exists>j \<in> set [0..<unat uc]. unat (3 + word_of_nat j :: u32) = 8 * i + k) \<longleftrightarrow> 3 \<le> 8 * i + k \<and> 8 * i + k < 3 + unat uc"
    using u by (auto intro: bexI [of _ "8 * i + k - 3"])
  then show ?thesis
    using assms(3,4) z by (auto simp: initial_bitmap_def Let_def bit_mark_cluster bit_fold_mark r)
qed


definition root_items :: "boot_sector \<Rightarrow> u32 \<Rightarrow> rstr \<Rightarrow> dir_item list" where
  "root_items b cs label = [Entry (create_volume_label_entry label), Entry (create_bitmap_entry 2 (ucast ((boot_cluster_count b + 7) div 8))),
     Entry (create_upcase_entry 3 131072 (calculate_upcase_checksum generate_upcase_table))] @ empty_cluster (unat cs - 96)"

lemma nth_fold_copy:
  "\<forall>(i, u) \<in> set ius. 2 + i * 2 + 2 \<le> length e \<Longrightarrow>
     fold (\<lambda>(i, u) e. copy_at (2 + i * 2) (to_le 2 (u :: u16)) e) ius e ! 0 = e ! 0"
proof (induction ius arbitrary: e)
  case (Cons iu ius)
  obtain i u where iu: "iu = (i, u)" by (cases iu)
  have l: "2 + i * 2 + 2 \<le> length e" using Cons.prems iu by simp
  then have "copy_at (2 + i * 2) (to_le 2 u) e ! 0 = e ! 0" by (subst nth_copy_at) auto
  then show ?case using Cons.IH [of "copy_at (2 + i * 2) (to_le 2 u) e"] Cons.prems iu l by simp
qed simp

lemma entry_types_of_root:
  "create_volume_label_entry label ! 0 = 0x83" "create_bitmap_entry c n ! 0 = 0x81" "create_upcase_entry c n k ! 0 = 0x82"
proof -
  show "create_bitmap_entry c n ! 0 = 0x81" "create_upcase_entry c n k ! 0 = 0x82"
    by (simp_all add: create_bitmap_entry_def create_upcase_entry_def Let_def copy_at_def ENTRY_TYPE_BITMAP_def ENTRY_TYPE_UPCASE_def nth_append)
  have "\<forall>(i, u) \<in> set (enumerate 0 (take 11 (encode_utf16 label))). 2 + i * 2 + 2 \<le> 32"
    by (auto simp: in_set_enumerate_eq)
  then show "create_volume_label_entry label ! 0 = 0x83"
    unfolding create_volume_label_entry_def Let_def by (subst nth_fold_copy) (simp_all add: ENTRY_TYPE_VOLUME_LABEL_def)
qed

lemma root_items_ok:
  assumes "unat cs mod 32 = 0" and "96 \<le> unat cs"
  shows "dir_bytes (root_items b cs label) = root_region b cs label" and "\<forall>x \<in> set (root_items b cs label). item_ok x"
    and "tail_ends (root_items b cs label)" and "item_sets c off (root_items b cs label) = []"
proof -
  have m: "(unat cs - 96) mod 32 = 0" using assms by (simp add: mod_eq_0_iff_dvd dvd_diff_nat)
  show "dir_bytes (root_items b cs label) = root_region b cs label"
    using empty_cluster_bytes [OF m] by (simp add: root_items_def root_region_def)
  show "\<forall>x \<in> set (root_items b cs label). item_ok x"
    using empty_cluster_items by (auto simp: root_items_def length_entries entry_types_of_root entry_types)
  show "tail_ends (root_items b cs label)"
    using empty_cluster_items by (auto simp: root_items_def entry_types_of_root entry_types tail_ends_all)
  show "item_sets c off (root_items b cs label) = []" by (simp add: root_items_def item_sets_empty)
qed

lemma formatted_volume_facts:
  assumes v: "63488 \<le> unat v" "unat v < 2 ^ 32" and cs: "cs = get_cluster_size v" and b: "b = boot_sector_new v cs serial"
    and room: "unat (data_offset layout) + unat v * 512 \<le> length f" "length f < 2 ^ 64"
    and at: "slice (unat (data_offset layout)) (length (volume_bytes b cs label)) f = volume_bytes b cs label"
  defines "fs \<equiv> opened b cs layout f"
  shows "open_fs f layout = Inr fs" and "fs_ok fs" and "v_cluster_size (vol fs) = unat cs"
    and "dir_view (vol fs) (v_root (vol fs)) [(v_root (vol fs), root_items b cs label)]"
    and "dir_sets [(v_root (vol fs), root_items b cs label)] = []"
    and "tracked (v_data (vol fs) 2) c \<Longrightarrow>
      is_cluster_allocated (v_data (vol fs) 2) c \<longleftrightarrow> 4 \<le> unat c \<and> unat c \<le> unat (v_root (vol fs)) + 2"
proof -
  note n = volume_numbers [OF v cs b refl]
  show "open_fs f layout = Inr fs" unfolding fs_def using v cs b room(1) at by (rule open_formatted)
  show ok: "fs_ok fs" unfolding fs_def by (rule opened_ok [OF v cs b room])
  show size: "v_cluster_size (vol fs) = unat cs" by (simp add: fs_def opened_def)
  have root: "v_root (vol fs) = boot_first_cluster_of_root b" and count: "v_count (vol fs) = unat (boot_cluster_count b)"
    by (simp_all add: fs_def opened_def)
  have geo: "geometry_ok fs" using ok by (simp add: fs_ok_def)
  have heap: "in_heap (v_count (vol fs)) (v_root (vol fs))" using root_in_heap [OF geo] by simp
  note cl = opened_cluster [OF v cs b at, folded fs_def]
  have "v_fat (vol fs) (v_root (vol fs)) = fat_at fs (boot_first_cluster_of_root b)"
    using in_heap_in_fat [OF heap] by (simp add: root [unfolded vol_fields])
  also have "\<dots> = 0xFFFFFFFF" unfolding fs_def by (rule opened_fat_root [OF v cs b at])
  finally have fat: "v_fat (vol fs) (v_root (vol fs)) = 0xFFFFFFFF" .
  have below: "2 \<le> v_root (vol fs)" "v_root (vol fs) < 0xFFFFFFF8" "v_root (vol fs) \<noteq> 2"
    using heap_below [OF geo heap] fs_bounds(2) [OF ok] by auto
  have data: "v_data (vol fs) (v_root (vol fs)) = root_region b cs label"
    using heap cl(2) by (simp add: root [unfolded vol_fields])
  have "96 \<le> unat cs" using n(4) by simp
  note items = root_items_ok [OF n(5) this]
  show "dir_view (vol fs) (v_root (vol fs)) [(v_root (vol fs), root_items b cs label)]"
    unfolding dir_view_def using fat below heap items data by (simp del: vol_fields v_data_vol v_fat_vol)
  show "dir_sets [(v_root (vol fs), root_items b cs label)] = []" using items(4) by simp
  have bm: "v_data (vol fs) 2 = initial_bitmap cs (upcase_cluster_count cs)"
    using cl(1) two_in_heap [OF geo] by simp
  show "is_cluster_allocated (v_data (vol fs) 2) c \<longleftrightarrow> 4 \<le> unat c \<and> unat c \<le> unat (v_root (vol fs)) + 2"
    if t: "tracked (v_data (vol fs) 2) c"
  proof -
    have c: "2 \<le> unat c" "(unat c - 2) div 8 < unat cs" using t by (simp_all add: tracked_def bm length_initial_bitmap)
    have "8 * ((unat c - 2) div 8) + (unat c - 2) mod 8 = unat c - 2" by simp
    then have "bit (initial_bitmap cs (upcase_cluster_count cs) ! ((unat c - 2) div 8)) ((unat c - 2) mod 8) \<longleftrightarrow>
        2 \<le> unat c - 2 \<and> unat c - 2 \<le> unat (upcase_cluster_count cs) + 3"
      using bit_initial_bitmap [OF n(2) _ c(2), of "(unat c - 2) mod 8"] n(4) by simp
    moreover have "unat (v_root (vol fs)) = 3 + unat (upcase_cluster_count cs)" unfolding root n(10) ..
    moreover have "is_cluster_allocated (v_data (vol fs) 2) c \<longleftrightarrow>
        bit (initial_bitmap cs (upcase_cluster_count cs) ! ((unat c - 2) div 8)) ((unat c - 2) mod 8)"
      using is_cluster_allocated_iff [OF c(1)] t unfolding bm by blast
    ultimately show ?thesis using c(1) by arith
  qed
qed

section \<open>Opening the same volume again\<close>

lemma open_fs_file: "open_fs f layout = Inr fs \<Longrightarrow> fs_file fs = f \<and> fat_cache fs = fat_cache_new \<and>
    bitmap_cache fs = None \<and> \<not> bitmap_dirty fs \<and> partition_offset fs = data_offset layout"
  by (auto simp: open_fs_def Let_def split: option.splits if_splits)

lemma open_fs_cong:
  assumes "read_at (unat (data_offset layout)) 512 f' = read_at (unat (data_offset layout)) 512 f" and "open_fs f layout = Inr fs"
  shows "open_fs f' layout = Inr (fs\<lparr>fs_file := f'\<rparr>)"
  using assms by (auto simp: open_fs_def Let_def split: option.splits if_splits)

lemma read_at_prefix:
  assumes "length f' = length f" and "take n f' = take n f" and "p + k \<le> n"
  shows "read_at p k f' = read_at p k f"
proof -
  have "slice p k f' = slice p k (take n f')" "slice p k f = slice p k (take n f)"
    using assms(3) by (simp_all add: slice_def drop_take min_def)
  then show ?thesis using assms(1,2) by (simp add: read_at_def)
qed

lemma reopen:
  assumes "open_fs f layout = Inr fs" and "unat (data_offset layout) + 512 \<le> fat_base fs" and "v_boot (vol fs') = v_boot (vol fs)"
  shows "open_fs (fs_file fs') layout = Inr (fs'\<lparr>fat_cache := fat_cache_new, bitmap_cache := None, bitmap_dirty := False\<rparr>)"
    and "length (fs_file fs') = length f" and "take (fat_base fs) (fs_file fs') = take (fat_base fs) f"
proof -
  note o = open_fs_file [OF assms(1)]
  have b: "boot_part fs' = boot_part fs" using assms(3) by simp
  have rest: "fs'\<lparr>fs_file := x, fat_cache := fat_cache_new, bitmap_cache := None, bitmap_dirty := False\<rparr> =
      fs\<lparr>fs_file := x, fat_cache := fat_cache_new, bitmap_cache := None, bitmap_dirty := False\<rparr>" for x
    using arg_cong [OF b, of "\<lambda>(a, n). a\<lparr>fs_file := x\<rparr>"] by (cases fs, cases fs') (simp add: boot_part_def)
  have base: "fat_base fs' = fat_base fs" using rest [of "[]"] by (cases fs, cases fs') (simp add: fat_base_def)
  have "fs_file (fst (boot_part fs')) = fs_file (fst (boot_part fs))" "snd (boot_part fs') = snd (boot_part fs)" using b by simp_all
  then show "take (fat_base fs) (fs_file fs') = take (fat_base fs) f" "length (fs_file fs') = length f"
    using o by (simp_all add: boot_part_def base)
  from open_fs_cong [OF read_at_prefix [OF this(2,1) assms(2)] assms(1)]
  have "open_fs (fs_file fs') layout = Inr (fs\<lparr>fs_file := fs_file fs'\<rparr>)" .
  also have "fs\<lparr>fs_file := fs_file fs'\<rparr> = fs\<lparr>fs_file := fs_file fs', fat_cache := fat_cache_new, bitmap_cache := None, bitmap_dirty := False\<rparr>"
    using o by (cases fs) simp
  also have "\<dots> = fs'\<lparr>fat_cache := fat_cache_new, bitmap_cache := None, bitmap_dirty := False\<rparr>"
    unfolding rest [symmetric] by (cases fs') simp
  finally show "open_fs (fs_file fs') layout = Inr (fs'\<lparr>fat_cache := fat_cache_new, bitmap_cache := None, bitmap_dirty := False\<rparr>)" .
qed

text \<open>The caches are lost, nothing else.\<close>

lemma fresh_caches:
  assumes "fs_ok fs"
  defines "fs' \<equiv> fs\<lparr>fat_cache := fat_cache_new, bitmap_cache := None, bitmap_dirty := False\<rparr>"
  shows "fs_ok fs'" and "vol fs' = vol fs"
  using assms by (simp_all add: fs_ok_def bitmap_cache_ok_def fat_cache_ok_def fat_cache_new_def Let_def)

section \<open>A formatted volume opens\<close>

lemma formatted_volume:
  fixes serial label c
  assumes v: "63488 \<le> unat (part_size div 512)" "unat (part_size div 512) < 2 ^ 32"
    and room: "unat (data_offset layout) + unat part_size \<le> length (cur_data c)" "length (cur_data c) < 2 ^ 64"
  defines "cs \<equiv> get_cluster_size (part_size div 512)"
  defines "b \<equiv> boot_sector_new (part_size div 512) cs serial"
  defines "f \<equiv> cur_data (format_exfat serial (data_offset layout) part_size label c)"
  shows "f = write_at (unat (data_offset layout)) (volume_bytes b cs label) (cur_data c)"
    and "unat (data_offset layout) + length (volume_bytes b cs label) \<le> unat (data_offset layout) + unat part_size"
    and "length f = length (cur_data c)" and "unat (data_offset layout) + unat (part_size div 512) * 512 \<le> length f"
    and "slice (unat (data_offset layout)) (length (volume_bytes b cs label)) f = volume_bytes b cs label"
proof -
  have le: "unat (part_size div 512) * 512 \<le> unat part_size" by (simp add: unat_div)
  have len: "length (volume_bytes b cs label) \<le> unat (part_size div 512) * 512"
    unfolding b_def cs_def by (rule length_volume_bytes [OF v refl refl refl])
  have "unat (data_offset layout) + unat part_size < 2 ^ 64" using room by simp
  from format_exfat_write [OF v this]
  show f: "f = write_at (unat (data_offset layout)) (volume_bytes b cs label) (cur_data c)" unfolding f_def b_def cs_def .
  show "unat (data_offset layout) + length (volume_bytes b cs label) \<le> unat (data_offset layout) + unat part_size"
    using le len by simp
  show l: "length f = length (cur_data c)" unfolding f using le len room(1) by simp
  show "unat (data_offset layout) + unat (part_size div 512) * 512 \<le> length f" unfolding l using le room(1) by simp
  show "slice (unat (data_offset layout)) (length (volume_bytes b cs label)) f = volume_bytes b cs label" unfolding f by simp
qed

text \<open>Formatting a partition of a writer (of 31 MiB up to 2 TiB, inside the file) touches nothing but the
  partition, and the result opens as a good volume with an empty root directory. Every cluster its bitmap has a
  bit for is free, except those from 4 to two behind the root directory: the bits were set by the cluster number
  although bit 0 belongs to cluster 2, so the bitmap and the first cluster of the upcase table count as free and the
  two clusters after the root directory are lost.\<close>

theorem formatted_volume_opens:
  assumes "63488 \<le> unat (part_size div 512)" and "unat (part_size div 512) < 2 ^ 32"
    and "unat (data_offset layout) + unat part_size \<le> length (cur_data c)" and "length (cur_data c) < 2 ^ 64"
  shows "let f = cur_data (format_exfat serial (data_offset layout) part_size label c); p = unat (data_offset layout) in
    length f = length (cur_data c) \<and> take p f = take p (cur_data c) \<and>
    drop (p + unat part_size) f = drop (p + unat part_size) (cur_data c) \<and>
    (\<exists>fs css. open_fs f layout = Inr fs \<and> fs_ok fs \<and>
       dir_view (vol fs) (v_root (vol fs)) css \<and> dir_sets css = [] \<and>
       (\<forall>c. tracked (v_data (vol fs) 2) c \<longrightarrow>
         (is_cluster_allocated (v_data (vol fs) 2) c \<longleftrightarrow> 4 \<le> unat c \<and> unat c \<le> unat (v_root (vol fs)) + 2)))"
proof -
  note f = formatted_volume [OF assms, of serial label]
  note o = formatted_volume_facts [OF assms(1,2) refl refl f(4) _ f(5)]
  have "take (unat (data_offset layout)) (write_at (unat (data_offset layout)) d (cur_data c)) =
      take (unat (data_offset layout)) (cur_data c)" for d
    using assms(3) by (simp add: write_at_def)
  moreover have "drop (p + q) (write_at p d x) = drop (p + q) x" if "length d \<le> q" "p + q \<le> length x" for p q and d x :: bytes
  proof -
    have "p - length x + min p (length x) = p" "p + q - (p + length d) = q - length d" using that by (simp_all add: min_def)
    then show ?thesis using that by (simp add: write_at_def add.commute)
  qed
  ultimately show ?thesis
    unfolding Let_def using f(2,3) o assms(3,4) f(1) by (metis add_le_cancel_left)
qed

theorem formatted_volume_opens_witness:
  "\<exists>fs. open_fs (cur_data (format_exfat 7 (1024 * 1024) (31 * 1024 * 1024) (lit ''Ventoy'')
        \<lparr>cur_data = zeros (64 * 1024 * 1024), cur_pos = 0\<rparr>))
     \<lparr>total_sectors = 131072, data_start_sector = 2048, data_size_sectors = 63488,
      efi_start_sector = 65536, efi_size_sectors = 65536\<rparr> = Inr fs \<and> fs_ok fs"
  using formatted_volume_opens [of "31 * 1024 * 1024" "\<lparr>total_sectors = 131072, data_start_sector = 2048, data_size_sectors = 63488,
      efi_start_sector = 65536, efi_size_sectors = 65536\<rparr>" "\<lparr>cur_data = zeros (64 * 1024 * 1024), cur_pos = 0\<rparr>" 7 "lit ''Ventoy''"]
  by (auto simp: data_offset_def SECTOR_SIZE_def Let_def)

end
