(* ===== verification/Exfat_List.thy ===== *)
theory Exfat_List
  imports Exfat_Ops_Spec
begin

text \<open>
  Listing a directory above the bytes: \<open>list_files_in_directory\<close> of
  \<^verbatim>\<open>src/libs/ventoy-img-rs/src/exfat/ops.rs\<close> returns the entry sets of the directory view with a name, in
  order.
\<close>

fun set_info :: "rstr \<Rightarrow> u32 \<times> nat \<times> bytes list \<Rightarrow> file_info list" where
  "set_info path (c, off, es) = (case parsed_set es of (name, first, len) \<Rightarrow>
     if name = [] then []
     else [\<lparr>fi_name = name, fi_size = len, fi_is_directory = parse_is_directory (hd es) 0,
       fi_path = (if path = [] then name else path @ lit ''/'' @ name)\<rparr>])"

definition set_infos :: "rstr \<Rightarrow> (u32 \<times> nat \<times> bytes list) list \<Rightarrow> file_info list" where
  "set_infos path sets = concat (map (set_info path) sets)"

lemma set_infos_simps [simp]:
  "set_infos path [] = []" "set_infos path (s # ss) = set_info path s @ set_infos path ss"
  "set_infos path (ss @ ts) = set_infos path ss @ set_infos path ts"
  by (simp_all add: set_infos_def)

lemma list_cluster_items:
  assumes "\<forall>x \<in> set items. item_ok x" and "tail_ends items"
  shows "list_cluster path first (p @ dir_bytes items) (length p) files =
      Listing (files @ set_infos path (item_sets c off items)) (first \<and> (\<exists>x \<in> set items. is_end x))"
  using assms
proof (induction items arbitrary: p off files)
  case Nil
  then show ?case by (subst list_cluster.simps) simp
next
  case (Cons x items)
  show ?case
  proof (cases x)
    case (Entry e)
    with Cons.prems have e: "length e = 32" "e ! 0 \<noteq> ENTRY_TYPE_FILE" by simp_all
    have nth: "(p @ e @ dir_bytes items) ! length p = e ! 0" using nth_middle [of 0 e p "dir_bytes items"] e(1) by simp
    have tl: "tail_ends items"
      using Cons.prems(2) Entry by (cases "is_end x") (auto simp: tail_ends_all)
    have IH: "list_cluster path first ((p @ e) @ dir_bytes items) (length (p @ e)) files =
        Listing (files @ set_infos path (item_sets c (off + 32) items)) (first \<and> (\<exists>x \<in> set items. is_end x))"
      using Cons.prems tl by (intro Cons.IH) simp_all
    show ?thesis
    proof (cases "is_end x \<and> first")
      case True
      then have "\<forall>y \<in> set items. is_end y" using Cons.prems(2) by simp
      then have "item_sets c off' items = []" for off' by (rule item_sets_ends)
      then show ?thesis using True e nth Entry by (subst list_cluster.simps) simp
    next
      case False
      then show ?thesis using e nth Entry IH by (subst list_cluster.simps) auto
    qed
  next
    case (FileSet es)
    with Cons.prems have es: "es \<noteq> []" "\<forall>e \<in> set es. length e = 32" "hd es ! 0 = ENTRY_TYPE_FILE"
      "unat (hd es ! 1) = length es - 1" by simp_all
    let ?d = "p @ concat es @ dir_bytes items"
    have len: "length (concat es) = 32 * length es" using es(2) by (rule length_concat32)
    have ne: "0 < length es" using es(1) by simp
    have hd_es: "concat es = hd es @ concat (tl es)" using es(1) by (cases es) simp_all
    have nth: "?d ! (length p + k) = hd es ! k" if "k < 32" for k
      using nth_middle [of k "hd es" p "concat (tl es) @ dir_bytes items"] hd_es es that by simp
    have IH: "list_cluster path first ((p @ concat es) @ dir_bytes items) (length (p @ concat es)) fs =
        Listing (fs @ set_infos path (item_sets c (off + 32 * length es) items)) (first \<and> (\<exists>x \<in> set items. is_end x))" for fs
      using Cons.prems FileSet by (intro Cons.IH) simp_all
    have "(1 + unat (?d ! (length p + 1))) * 32 = 32 * length es"
      using nth [of 1] es(4) ne by simp
    then show ?thesis
      using FileSet len ne nth [of 0] nth [of 1] es parse_secondaries_set [OF es(2,1), of p "dir_bytes items"]
        parse_is_directory_set [OF es(2,1), of p "dir_bytes items"] IH
      by (subst list_cluster.simps) (auto simp: entry_types Let_def mult.commute [of _ 32] split: prod.split)
  qed
qed

lemma list_clusters_view:
  assumes "fs_ok fs" and "ends_ok css" and "clusters_ok (vol fs) css"
  shows "list_clusters path first (map fst css) files fs = (Inr (files @ set_infos path (dir_sets css)), fs)"
  using assms(2,3)
proof (induction css arbitrary: first files rule: ends_ok.induct)
  case 1
  then show ?case by (simp add: returnE_def)
next
  case (2 c items)
  have "read_cluster c fs = (Inr (dir_bytes items), fs)"
    by (rule read_cluster_vol [OF assms(1)]) (use 2(2) in auto)
  then show ?case
    using 2 list_cluster_items [of items path first "[]" files c 0] by (auto simp: bindE_def returnE_def split: bool.split)
next
  case (3 c items d ds)
  have r: "read_cluster c fs = (Inr (dir_bytes items), fs)"
    by (rule read_cluster_vol [OF assms(1)]) (use 3(3) in auto)
  have "list_cluster path first (dir_bytes items) 0 files = Listing (files @ set_infos path (item_sets c 0 items)) False"
    using 3(2,3) no_end_tail_ends list_cluster_items [of items path first "[]" files c 0] by auto
  moreover have "list_clusters path False (map fst (d # ds)) (files @ set_infos path (item_sets c 0 items)) fs =
      (Inr ((files @ set_infos path (item_sets c 0 items)) @ set_infos path (dir_sets (d # ds))), fs)"
    using 3(2,3) by (intro 3(1)) auto
  ultimately show ?case using r by (simp add: bindE_def)
qed

lemma list_directory_ok:
  assumes "fs_ok fs" and "dir_view (vol fs) dir css"
  shows "yields (list_files_in_directory dir path) fs (Inr (set_infos path (dir_sets css))) (vol fs)"
  unfolding list_files_in_directory_def
proof (rule yields_bind [OF read_cluster_chain_ok [OF assms(1) _ dir_view_chain [OF assms(2)]]])
  show "chain_from (v_fat (vol fs)) dir (map fst css)" using assms(2) by (simp add: dir_view_def)
  fix fs' assume "fs_ok fs'" "vol fs' = vol fs"
  then show "yields (list_clusters path True (map fst css) []) fs' (Inr (set_infos path (dir_sets css))) (vol fs)"
    using list_clusters_view [of fs' css path True "[]"] assms(2) by (simp add: yields_def dir_view_def)
qed

text \<open>Listing a directory of a good volume returns, in order, the name, size, kind and path of every entry set
  in it whose name is not empty, over all its clusters, and changes nothing on the volume.\<close>

theorem list_directory_lists_sets:
  assumes "fs_ok fs" and "dir_view (vol fs) dir css"
  shows "yields (list_files_in_directory dir path) fs (Inr (set_infos path (dir_sets css))) (vol fs)"
  by (rule list_directory_ok [OF assms])

theorem list_directory_lists_sets_witness:
  "fst (list_files_in_directory 3 [] small) = Inr []"
  using list_directory_lists_sets [OF small_ok, of 3 "[(3, empty_cluster 1024)]" "[]"] small_root small_writable(4)
  by (auto simp: yields_def)

lemma list_files_ok:
  assumes "fs_ok fs" and "dir_view (vol fs) (v_root (vol fs)) css"
  shows "yields list_files fs (Inr (set_infos [] (dir_sets css))) (vol fs)"
  using list_directory_ok [OF assms, of "[]"] by (simp add: list_files_def yields_def bindE_def getsE_def)

end
