(* ===== verification/Ventoy_Image.thy ===== *)
theory Ventoy_Image
  imports Exfat_Open Exfat_List
begin

text \<open>
  \<^verbatim>\<open>src/libs/ventoy-img-rs/src/resources.rs\<close> and \<^verbatim>\<open>image.rs\<close>: the boot resources and \<open>VentoyImage\<close>, which
  creates an image (boot code, partition table, signature, EFI partition, exFAT volume) and runs the
  file operations on it, each on a newly opened \<open>ExfatFs\<close>.

  An image is the contents of its file. Paths of the host are strings; the directory of the resources
  is given by what exists in it and what reading a file returns.
\<close>

section \<open>Resources\<close>

definition BOOT_IMG_NAME :: rstr where "BOOT_IMG_NAME = lit ''boot.img''"
definition CORE_IMG_NAME :: rstr where "CORE_IMG_NAME = lit ''core.img''"
definition VENTOY_DISK_IMG_NAME :: rstr where "VENTOY_DISK_IMG_NAME = lit ''ventoy.disk.img''"

definition VENTOY_SIGNATURE :: bytes where
  "VENTOY_SIGNATURE = [0x56, 0x54, 0x00, 0x47, 0x65, 0x00, 0x48, 0x44, 0x00, 0x52, 0x64, 0x00, 0x20, 0x45, 0x72, 0x0D]"

definition VENTOY_SIG_OFFSET :: u64 where "VENTOY_SIG_OFFSET = 0x190"

record resource_cache =
  rc_boot_img :: bytes
  rc_core_img :: bytes
  rc_ventoy_disk_img :: bytes

text \<open>The host: \<open>path.join(name)\<close>, \<open>exists\<close> and \<open>fs::read\<close> (an error is its message).\<close>

record host_files =
  path_join :: "rstr \<Rightarrow> rstr \<Rightarrow> rstr"
  path_exists :: "rstr \<Rightarrow> bool"
  read_path :: "rstr \<Rightarrow> rstr + bytes"

definition read_resource :: "host_files \<Rightarrow> rstr \<Rightarrow> ventoy_error + bytes" where
  "read_resource h path =
     (case read_path h path of
        Inl e \<Rightarrow> Inl (ResourceNotFound (lit ''Failed to read '' @ path @ lit '': '' @ e))
      | Inr d \<Rightarrow> Inr d)"

definition load_resources :: "host_files \<Rightarrow> rstr \<Rightarrow> ventoy_error + resource_cache" where
  "load_resources h resource_dir =
     (let boot_path = path_join h resource_dir BOOT_IMG_NAME;
          core_path = path_join h resource_dir CORE_IMG_NAME;
          ventoy_disk_path = path_join h resource_dir VENTOY_DISK_IMG_NAME
      in if \<not> path_exists h boot_path then Inl (ResourceNotFound (lit ''boot.img not found at '' @ boot_path))
         else if \<not> path_exists h core_path then Inl (ResourceNotFound (lit ''core.img not found at '' @ core_path))
         else if \<not> path_exists h ventoy_disk_path
         then Inl (ResourceNotFound (lit ''ventoy.disk.img not found at '' @ ventoy_disk_path))
         else
           case read_resource h boot_path of Inl e \<Rightarrow> Inl e | Inr boot \<Rightarrow>
           case read_resource h core_path of Inl e \<Rightarrow> Inl e | Inr core \<Rightarrow>
           case read_resource h ventoy_disk_path of Inl e \<Rightarrow> Inl e | Inr disk \<Rightarrow>
           if length boot \<noteq> 512
           then Inl (ResourceNotFound (lit ''boot.img has invalid size: '' @ lit (nat_to_string (length boot))
                  @ lit '' bytes (expected 512)''))
           else Inr \<lparr>rc_boot_img = boot, rc_core_img = core, rc_ventoy_disk_img = disk\<rparr>)"

text \<open>\<open>RESOURCE_CACHE\<close> is set once.\<close>

definition init_resources :: "host_files \<Rightarrow> rstr \<Rightarrow> (resource_cache option, ventoy_error, unit) stm" where
  "init_resources h resource_dir cache =
     (if cache \<noteq> None then (Inr (), cache)
      else case load_resources h resource_dir of
             Inl e \<Rightarrow> (Inl e, cache)
           | Inr c \<Rightarrow> (Inr (), Some c))"

definition is_initialized :: "resource_cache option \<Rightarrow> bool" where
  "is_initialized cache \<longleftrightarrow> cache \<noteq> None"

definition get_resource :: "(resource_cache \<Rightarrow> bytes) \<Rightarrow> resource_cache option \<Rightarrow> ventoy_error + bytes" where
  "get_resource field cache =
     (case cache of
        None \<Rightarrow> Inl (ResourceNotFound (lit ''Resources not initialized. Call init_resources() first.''))
      | Some c \<Rightarrow> Inr (field c))"

definition get_boot_img :: "resource_cache option \<Rightarrow> ventoy_error + bytes" where
  "get_boot_img = get_resource rc_boot_img"

definition get_core_img :: "resource_cache option \<Rightarrow> ventoy_error + bytes" where
  "get_core_img = get_resource rc_core_img"

definition get_ventoy_disk_img :: "resource_cache option \<Rightarrow> ventoy_error + bytes" where
  "get_ventoy_disk_img = get_resource rc_ventoy_disk_img"

definition get_resource_dir :: "host_files \<Rightarrow> rstr \<Rightarrow> rstr" where
  "get_resource_dir h data_dir = path_join h data_dir (lit ''ventoy'')"

definition required_files :: "rstr list" where
  "required_files = [BOOT_IMG_NAME, CORE_IMG_NAME, VENTOY_DISK_IMG_NAME]"

text \<open>The cache is filled exactly when every required file exists and can be read and the boot sector has 512
  bytes.\<close>

lemma load_resources_Inr:
  "load_resources h dir = Inr c \<Longrightarrow>
     (\<forall>n \<in> set required_files. path_exists h (path_join h dir n)) \<and> length (rc_boot_img c) = 512 \<and>
     read_path h (path_join h dir BOOT_IMG_NAME) = Inr (rc_boot_img c)"
  by (auto simp: load_resources_def read_resource_def required_files_def Let_def split: if_splits sum.splits)

section \<open>Creating and opening an image\<close>

definition write_boot_code :: "resource_cache option \<Rightarrow> (cursor, ventoy_error, unit) stm" where
  "write_boot_code cache c =
     (case get_boot_img cache of
        Inl e \<Rightarrow> (Inl e, c)
      | Inr boot \<Rightarrow>
          if length boot < 440 then (Inl Panic, seek_start 0 c)
          else
            let c = write_all (take 440 boot) (seek_start 0 c) in
            case get_core_img cache of
              Inl e \<Rightarrow> (Inl e, c)
            | Inr core \<Rightarrow>
                (Inr (), write_all (take (min (length core) (2047 * unat SECTOR_SIZE)) core) (seek_start SECTOR_SIZE c)))"

definition write_ventoy_signature :: "cursor \<Rightarrow> cursor" where
  "write_ventoy_signature c = write_all VENTOY_SIGNATURE (seek_start VENTOY_SIG_OFFSET c)"

definition write_efi_partition :: "resource_cache option \<Rightarrow> partition_layout \<Rightarrow> (cursor, ventoy_error, unit) stm" where
  "write_efi_partition cache layout c =
     (case get_ventoy_disk_img cache of
        Inl e \<Rightarrow> (Inl e, c)
      | Inr efi \<Rightarrow>
          (Inr (), write_all (take (min (length efi) (unat (efi_size_sectors layout * SECTOR_SIZE))) efi)
             (seek_start (efi_offset layout) c)))"

text \<open>\<open>create\<close>: the result and the file, \<open>None\<close> when it was not created.\<close>

definition image_create ::
    "(rstr \<Rightarrow> rstr) \<Rightarrow> u32 \<Rightarrow> resource_cache option \<Rightarrow> rstr \<Rightarrow> rstr \<Rightarrow> (ventoy_error + partition_layout) \<times> bytes option" where
  "image_create to_uppercase serial cache size_str label =
     (case parse_size to_uppercase size_str of Inl e \<Rightarrow> (Inl e, None) | Inr sz \<Rightarrow>
      case calculate_layout sz of Inl e \<Rightarrow> (Inl e, None) | Inr layout \<Rightarrow>
      case write_boot_code cache \<lparr>cur_data = replicate (unat sz) 0, cur_pos = 0\<rparr> of
        (Inl e, c) \<Rightarrow> (Inl e, Some (cur_data c))
      | (Inr _, c) \<Rightarrow>
          (case write_efi_partition cache layout (write_ventoy_signature (write_mbr_partition_table layout c)) of
             (Inl e, c) \<Rightarrow> (Inl e, Some (cur_data c))
           | (Inr _, c) \<Rightarrow>
               (Inr layout, Some (cur_data (format_exfat serial (data_offset layout) (data_size layout) label c)))))"

definition image_open :: "rstr \<Rightarrow> bytes \<Rightarrow> ventoy_error + partition_layout" where
  "image_open path file =
     (case read_at (unat VENTOY_SIG_OFFSET) 16 file of
        None \<Rightarrow> Inl UnexpectedEof
      | Some sig \<Rightarrow>
          if sig \<noteq> VENTOY_SIGNATURE then Inl (ImageError (lit ''Invalid Ventoy signature in '' @ path))
          else calculate_layout (word_of_nat (length file)))"

section \<open>Operations on an image\<close>

text \<open>Every operation opens the file system; its changes are in the file.\<close>

definition on_image :: "partition_layout \<Rightarrow> 'a fs_op \<Rightarrow> (bytes, ventoy_error, 'a) stm" where
  "on_image layout f file =
     (case open_fs file layout of
        Inl e \<Rightarrow> (Inl e, file)
      | Inr fs \<Rightarrow> (case f fs of (r, fs) \<Rightarrow> (r, fs_file fs)))"

definition image_list_files :: "partition_layout \<Rightarrow> (bytes, ventoy_error, file_info list) stm" where
  "image_list_files layout = on_image layout list_files"

definition image_list_files_at :: "(rstr \<Rightarrow> rstr) \<Rightarrow> u32 \<Rightarrow> partition_layout \<Rightarrow> rstr \<Rightarrow> (bytes, ventoy_error, file_info list) stm" where
  "image_list_files_at lower now layout path = on_image layout (list_files_at lower now path)"

definition image_list_files_recursive :: "(rstr \<Rightarrow> rstr) \<Rightarrow> nat \<Rightarrow> partition_layout \<Rightarrow> (bytes, ventoy_error, file_info list) stm" where
  "image_list_files_recursive lower fuel layout = on_image layout (list_files_recursive lower fuel)"

text \<open>The source file: its name if it has one in UTF-8, its length and what reading it returns.\<close>

definition image_add_file ::
    "(rstr \<Rightarrow> rstr) \<Rightarrow> u32 \<Rightarrow> partition_layout \<Rightarrow> rstr option \<Rightarrow> u64 \<Rightarrow> bytes list \<Rightarrow> (bytes, ventoy_error, unit) stm" where
  "image_add_file lower now layout file_name sz chunks =
     (case file_name of
        None \<Rightarrow> throwE (fs_error ''Invalid filename'')
      | Some name \<Rightarrow> on_image layout (write_file_from_reader lower now name chunks sz))"

definition image_add_file_overwrite ::
    "(rstr \<Rightarrow> rstr) \<Rightarrow> u32 \<Rightarrow> partition_layout \<Rightarrow> rstr option \<Rightarrow> u64 \<Rightarrow> bytes list \<Rightarrow> bool \<Rightarrow> (bytes, ventoy_error, unit) stm" where
  "image_add_file_overwrite lower now layout file_name sz chunks overwrite =
     (case file_name of
        None \<Rightarrow> throwE (fs_error ''Invalid filename'')
      | Some name \<Rightarrow> on_image layout (write_file_from_reader_overwrite lower now name chunks sz overwrite))"

definition image_add_file_to_path ::
    "(rstr \<Rightarrow> rstr) \<Rightarrow> u32 \<Rightarrow> partition_layout \<Rightarrow> u64 \<Rightarrow> bytes list \<Rightarrow> rstr \<Rightarrow> bool \<Rightarrow> bool \<Rightarrow> (bytes, ventoy_error, unit) stm" where
  "image_add_file_to_path lower now layout sz chunks dest_path create_parents overwrite =
     on_image layout (write_file_from_reader_path lower now dest_path chunks sz create_parents overwrite)"

definition image_create_directory ::
    "(rstr \<Rightarrow> rstr) \<Rightarrow> u32 \<Rightarrow> partition_layout \<Rightarrow> rstr \<Rightarrow> bool \<Rightarrow> (bytes, ventoy_error, unit) stm" where
  "image_create_directory lower now layout path create_parents = on_image layout (create_directory lower now path create_parents)"

definition image_remove_file :: "(rstr \<Rightarrow> rstr) \<Rightarrow> partition_layout \<Rightarrow> rstr \<Rightarrow> (bytes, ventoy_error, unit) stm" where
  "image_remove_file lower layout name = on_image layout (delete_file lower name)"

definition image_remove_path :: "(rstr \<Rightarrow> rstr) \<Rightarrow> u32 \<Rightarrow> partition_layout \<Rightarrow> rstr \<Rightarrow> (bytes, ventoy_error, unit) stm" where
  "image_remove_path lower now layout path = on_image layout (delete_path lower now path)"

definition image_remove_recursive :: "(rstr \<Rightarrow> rstr) \<Rightarrow> u32 \<Rightarrow> nat \<Rightarrow> partition_layout \<Rightarrow> rstr \<Rightarrow> (bytes, ventoy_error, unit) stm" where
  "image_remove_recursive lower now fuel layout path = on_image layout (delete_recursive lower now fuel path)"

definition image_read_file :: "(rstr \<Rightarrow> rstr) \<Rightarrow> u32 \<Rightarrow> partition_layout \<Rightarrow> rstr \<Rightarrow> (bytes, ventoy_error, bytes) stm" where
  "image_read_file lower now layout path = on_image layout (read_file_path lower now path)"

definition image_read_file_to_writer :: "(rstr \<Rightarrow> rstr) \<Rightarrow> u32 \<Rightarrow> partition_layout \<Rightarrow> rstr \<Rightarrow> (bytes, ventoy_error, bytes \<times> u64) stm" where
  "image_read_file_to_writer lower now layout path = on_image layout (read_file_path_to_writer lower now path)"

definition image_get_file_info :: "(rstr \<Rightarrow> rstr) \<Rightarrow> u32 \<Rightarrow> partition_layout \<Rightarrow> rstr \<Rightarrow> (bytes, ventoy_error, file_info option) stm" where
  "image_get_file_info lower now layout path = on_image layout (get_file_info_path lower now path)"

section \<open>A created image\<close>

lemma image_numbers:
  assumes "MIN_IMAGE_SIZE \<le> sz" and "unat sz < 2 ^ 41" and layout: "calculate_layout sz = Inr layout"
  shows "unat (data_offset layout) = 1048576"
    and "unat (data_offset layout) + unat (data_size layout) = unat (efi_offset layout)"
    and "unat (efi_offset layout) + 33554432 \<le> unat sz"
    and "63488 \<le> unat (data_size layout div 512)" and "unat (data_size layout div 512) < 2 ^ 32"
    and "unat (efi_size_sectors layout * SECTOR_SIZE) = 33554432"
proof -
  have l: "unat (data_start_sector layout) = 2048" "unat (efi_size_sectors layout) = 65536"
    using calculate_layout_Inr [OF assms(1)] layout by (metis sum.inject(2))+
  note f = layout_facts [of sz, unfolded layout sum.case]
  have mul: "unat (w * 512) = unat w * 512" if "unat w < 2 ^ 55" for w :: u64 using that by (simp add: unat_word_ariths(2))
  show "unat (data_offset layout) = 1048576" using l(1) by (simp add: data_offset_def SECTOR_SIZE_def mul)
  show "unat (efi_size_sectors layout * SECTOR_SIZE) = 33554432" using l(2) by (simp add: SECTOR_SIZE_def mul)
  have "unat (data_size layout) < 2 ^ 41" "32505856 \<le> unat (data_size layout)" using f assms(2) by linarith+
  then show "63488 \<le> unat (data_size layout div 512)" "unat (data_size layout div 512) < 2 ^ 32" by (simp_all add: unat_div)
  show "unat (data_offset layout) + unat (data_size layout) = unat (efi_offset layout)"
    "unat (efi_offset layout) + 33554432 \<le> unat sz" using f by simp_all
qed

lemma slice_write_at_before: "q + n \<le> p \<Longrightarrow> q + n \<le> length f \<Longrightarrow> slice q n (write_at p d f) = slice q n f"
  by (simp add: slice_write_at_other)

lemma slice_write_at_after: "p + length d \<le> q \<Longrightarrow> q + n \<le> length f \<Longrightarrow> slice q n (write_at p d f) = slice q n f"
  by (simp add: slice_write_at_other)

text \<open>What the bytes of an image before its data partition and in its EFI partition are.\<close>

definition image_head :: "resource_cache \<Rightarrow> partition_layout \<Rightarrow> bytes \<Rightarrow> bool" where
  "image_head rc layout f \<longleftrightarrow>
     slice 0 400 f = take 400 (rc_boot_img rc) \<and> slice 400 16 f = VENTOY_SIGNATURE \<and>
     slice 416 24 f = slice 416 24 (rc_boot_img rc) \<and>
     mbr_partition 0 f = mbr_entry_new True 0x07 (data_start_sector layout) (data_size_sectors layout) \<and>
     mbr_partition 1 f = mbr_entry_new False 0xEF (efi_start_sector layout) (efi_size_sectors layout) \<and>
     slice 510 2 f = [0x55, 0xAA] \<and>
     (let core = take (2047 * 512) (rc_core_img rc) in slice 512 (length core) f = core) \<and>
     (let efi = take 33554432 (rc_ventoy_disk_img rc) in slice (unat (efi_offset layout)) (length efi) f = efi)"

lemma image_head_keep:
  assumes "image_head rc layout f" and "length f' = length f" and "take p f' = take p f" and "1048576 \<le> p"
    and "drop (unat (efi_offset layout)) f' = drop (unat (efi_offset layout)) f" and "1048576 \<le> length f"
  shows "image_head rc layout f'"
proof -
  have s: "slice q n f' = slice q n f" if "q + n \<le> 1048576" for q n
  proof -
    have "slice q n f' = slice q n (take p f')" "slice q n f = slice q n (take p f)"
      using that assms(4) by (simp_all add: slice_def drop_take min_def)
    then show ?thesis using assms(3) by simp
  qed
  have e: "slice (unat (efi_offset layout)) n f' = slice (unat (efi_offset layout)) n f" for n
    using assms(5) by (simp add: slice_def)
  have m: "mbr_partition 0 f' = mbr_partition 0 f" "mbr_partition 1 f' = mbr_partition 1 f"
    using assms(2,6) by (auto intro!: mbr_partition_cong s)
  have core: "512 + length (take (2047 * 512) (rc_core_img rc)) \<le> 1048576" by simp
  show ?thesis using assms(1) unfolding image_head_def Let_def m e s [OF core] by (simp add: s)
qed

lemma length_VENTOY_SIGNATURE: "length VENTOY_SIGNATURE = 16"
  by (simp add: VENTOY_SIGNATURE_def)

lemma slice_take: "q + k \<le> n \<Longrightarrow> slice q k (take n xs) = slice q k xs"
  by (simp add: slice_def drop_take min_def)

lemma image_created:
  assumes parse: "parse_size up size_str = Inr sz" and sz: "MIN_IMAGE_SIZE \<le> sz" "unat sz < 2 ^ 41"
    and boot: "length (rc_boot_img rc) = 512" and layout: "calculate_layout sz = Inr layout"
  obtains c where "image_create up serial (Some rc) size_str label =
      (Inr layout, Some (cur_data (format_exfat serial (data_offset layout) (data_size layout) label c)))"
    and "length (cur_data c) = unat sz" and "image_head rc layout (cur_data c)"
proof -
  note n = image_numbers(1-4,6) [OF sz layout]
  let ?core = "take (2047 * 512) (rc_core_img rc)" and ?efi = "take 33554432 (rc_ventoy_disk_img rc)"
    and ?boot = "take 440 (rc_boot_img rc)"
  have min: "take (min (length xs) k) xs = take k xs" for xs :: bytes and k by (simp add: min_def)
  define c0 where "c0 = \<lparr>cur_data = replicate (unat sz) 0, cur_pos = 0\<rparr>"
  define c1 where "c1 = write_all ?core (seek_start SECTOR_SIZE (write_all ?boot (seek_start 0 c0)))"
  define c2 where "c2 = write_mbr_partition_table layout c1"
  define c3 where "c3 = write_ventoy_signature c2"
  define c4 where "c4 = write_all ?efi (seek_start (efi_offset layout) c3)"
  have "write_boot_code (Some rc) c0 = (Inr (), c1)"
    using boot by (simp add: write_boot_code_def get_boot_img_def get_core_img_def get_resource_def c1_def min SECTOR_SIZE_def)
  moreover have "write_efi_partition (Some rc) layout c3 = (Inr (), c4)"
    using n(5) by (simp add: write_efi_partition_def get_ventoy_disk_img_def get_resource_def c4_def min)
  ultimately have create: "image_create up serial (Some rc) size_str label =
      (Inr layout, Some (cur_data (format_exfat serial (data_offset layout) (data_size layout) label c4)))"
    unfolding image_create_def by (simp add: parse layout c0_def c2_def c3_def)
  have big: "1048576 + 33554432 \<le> unat sz" "1048576 \<le> unat (efi_offset layout)" using n by linarith+
  have l0: "length (cur_data c0) = unat sz" by (simp add: c0_def)
  have d1: "cur_data c1 = write_at 512 ?core (write_at 0 ?boot (cur_data c0))"
    by (simp add: c1_def write_all_seek SECTOR_SIZE_def)
  have l1: "length (cur_data c1) = unat sz" unfolding d1 using big l0 by simp
  note mbr = mbr_table_facts [of c1 layout, unfolded Let_def, folded c2_def]
  have l2: "length (cur_data c2) = unat sz" using mbr l1 big by simp
  have d3: "cur_data c3 = write_at 400 VENTOY_SIGNATURE (cur_data c2)"
    by (simp add: c3_def write_ventoy_signature_def write_all_seek VENTOY_SIG_OFFSET_def)
  have l3: "length (cur_data c3) = unat sz" unfolding d3 using l2 big by (simp add: length_VENTOY_SIGNATURE)
  have d4: "cur_data c4 = write_at (unat (efi_offset layout)) ?efi (cur_data c3)" by (simp add: c4_def write_all_seek)
  have l4: "length (cur_data c4) = unat sz" unfolding d4 using l3 n(3) by simp
  have s1: "slice q k (cur_data c1) = slice q k ?boot" if "q + k \<le> 440" for q k
    unfolding d1 using that big l0 boot
    by (subst slice_write_at_before) (simp_all add: slice_write_at_within)
  have core1: "slice 512 (length ?core) (cur_data c1) = ?core" unfolding d1 by (rule slice_write_at_same)
  have "take 446 (cur_data c2) = take 446 (cur_data c1)" "drop 512 (cur_data c2) = drop 512 (cur_data c1)"
    using mbr l1 big by simp_all
  have s2: "slice q k (cur_data c2) = slice q k (cur_data c1)" if "q + k \<le> 446" for q k
    using arg_cong [OF \<open>take 446 (cur_data c2) = _\<close>, of "slice q k"] that by (simp add: slice_take)
  have core2: "slice 512 (length ?core) (cur_data c2) = ?core"
    using core1 \<open>drop 512 (cur_data c2) = _\<close> by (simp only: slice_def)
  have s3: "slice q k (cur_data c3) = slice q k (cur_data c2)" if "q + k \<le> 400 \<or> 416 \<le> q" "q + k \<le> 1048576" for q k
    unfolding d3 using that l2 big by (intro slice_write_at_other) (auto simp: length_VENTOY_SIGNATURE)
  have s4: "slice q k (cur_data c4) = slice q k (cur_data c3)" if "q + k \<le> 1048576" for q k
    unfolding d4 using that l3 big by (intro slice_write_at_other) auto
  have boot1: "slice 0 400 (cur_data c4) = take 400 (rc_boot_img rc)"
    using s4 [of 0 400] s3 [of 0 400] s2 [of 0 400] s1 [of 0 400] by (simp add: slice_def)
  have boot2: "slice 416 24 (cur_data c4) = slice 416 24 (rc_boot_img rc)"
    using slice_take [of 416 24 440 "rc_boot_img rc"] by (simp add: s4 s3 s2 s1)
  have sig: "slice 400 16 (cur_data c4) = VENTOY_SIGNATURE"
    using slice_write_at_same [of 400 VENTOY_SIGNATURE "cur_data c2"] by (simp add: s4 d3 length_VENTOY_SIGNATURE)
  have m: "mbr_partition i (cur_data c4) = mbr_partition i (cur_data c2)" if "i < 4" for i
    using that big by (intro mbr_partition_cong) (simp_all add: s4 s3 l4 l2)
  have sign: "slice 510 2 (cur_data c4) = [0x55, 0xAA]" using mbr l1 big by (simp add: s4 s3)
  have parts: "mbr_partition 0 (cur_data c4) = mbr_entry_new True 0x07 (data_start_sector layout) (data_size_sectors layout)"
    "mbr_partition 1 (cur_data c4) = mbr_entry_new False 0xEF (efi_start_sector layout) (efi_size_sectors layout)"
    using mbr l1 big by (simp_all add: m)
  have lc: "512 + length ?core \<le> 1048576" by simp
  have core: "slice 512 (length ?core) (cur_data c4) = ?core" using core2 s4 [OF lc] s3 [OF _ lc] by simp
  have efi: "slice (unat (efi_offset layout)) (length ?efi) (cur_data c4) = ?efi" unfolding d4 by (rule slice_write_at_same)
  have "image_head rc layout (cur_data c4)"
    unfolding image_head_def Let_def using boot1 sig boot2 parts sign core efi by blast
  with that create l4 show thesis by blast
qed

text \<open>A created image: the volume opens, the head is as described, and the listing is empty.\<close>

definition image_volume :: "u32 \<Rightarrow> partition_layout \<Rightarrow> boot_sector" where
  "image_volume serial layout =
     boot_sector_new (data_size layout div 512) (get_cluster_size (data_size layout div 512)) serial"

lemma image_opens:
  assumes parse: "parse_size up size_str = Inr sz" and sz: "MIN_IMAGE_SIZE \<le> sz" "unat sz < 2 ^ 41"
    and boot: "length (rc_boot_img rc) = 512" and layout: "calculate_layout sz = Inr layout"
  obtains f fs css where "image_create up serial (Some rc) size_str label = (Inr layout, Some f)"
    and "length f = unat sz" and "image_head rc layout f"
    and "open_fs f layout = Inr fs" and "fs_ok fs" and "fs_file fs = f"
    and "v_cluster_size (vol fs) = unat (get_cluster_size (data_size layout div 512))"
    and "v_count (vol fs) = unat (boot_cluster_count (image_volume serial layout))"
    and "dir_view (vol fs) (v_root (vol fs)) css" and "dir_sets css = []" and "map fst css = [v_root (vol fs)]"
    and "\<And>c. tracked (v_data (vol fs) 2) c \<Longrightarrow>
      is_cluster_allocated (v_data (vol fs) 2) c \<longleftrightarrow> 4 \<le> unat c \<and> unat c \<le> unat (v_root (vol fs)) + 2"
    and "1060864 \<le> fat_base fs" and "v_root (vol fs) = boot_first_cluster_of_root (image_volume serial layout)"
proof -
  note l = layout image_numbers(1-3) [OF sz layout] and v = image_numbers(4,5) [OF sz layout]
  obtain c where c: "image_create up serial (Some rc) size_str label =
      (Inr layout, Some (cur_data (format_exfat serial (data_offset layout) (data_size layout) label c)))"
    "length (cur_data c) = unat sz" "image_head rc layout (cur_data c)"
    using image_created [OF parse sz boot l(1)] by metis
  have room: "unat (data_offset layout) + unat (data_size layout) \<le> length (cur_data c)" "length (cur_data c) < 2 ^ 64"
    using l c(2) sz(2) by simp_all
  define f where "f = cur_data (format_exfat serial (data_offset layout) (data_size layout) label c)"
  note f = formatted_volume [OF v room, of serial label, folded f_def]
  have "length f < 2 ^ 64" using f(3) room by simp
  note o = formatted_volume_facts [OF v refl refl f(4) this f(5)]
  let ?fs = "opened (boot_sector_new (data_size layout div 512) (get_cluster_size (data_size layout div 512)) serial)
    (get_cluster_size (data_size layout div 512)) layout f"
  have small: "take (unat (data_offset layout)) f = take (unat (data_offset layout)) (cur_data c)"
    unfolding f(1) using room by (simp add: write_at_def)
  have "drop (unat (efi_offset layout)) (write_at p d x) = drop (unat (efi_offset layout)) x"
    if "p + length d \<le> unat (efi_offset layout)" "unat (efi_offset layout) \<le> length x" for p d and x :: bytes
  proof -
    have "p - length x + min p (length x) = p" using that by (simp add: min_def)
    then show ?thesis using that by (simp add: write_at_def)
  qed
  then have rest: "drop (unat (efi_offset layout)) f = drop (unat (efi_offset layout)) (cur_data c)"
    using f(1,2) l c(2) by simp
  have "image_head rc layout f"
    using image_head_keep [OF c(3) f(3) small _ rest] l(2,3,4) c(2) by simp
  moreover have "fat_base ?fs = 1048576 + 24 * 512"
    by (simp add: fat_base_def opened_def l(2) volume_numbers(17) [OF v refl refl refl])
  moreover have "fs_file ?fs = f" "v_count (vol ?fs) = unat (boot_cluster_count (image_volume serial layout))"
    "v_root (vol ?fs) = boot_first_cluster_of_root (image_volume serial layout)"
    by (simp_all add: opened_def image_volume_def)
  moreover have "length f = unat sz" using f(3) c(2) by simp
  ultimately show thesis
    using that [OF _ _ _ o(1,2) _ o(3) _ o(4,5) _ o(6)] c(1) f_def by simp
qed

lemma image_head_opens: "calculate_layout sz = Inr layout \<Longrightarrow> length f = unat sz \<Longrightarrow> slice 400 16 f = VENTOY_SIGNATURE \<Longrightarrow>
    1048576 \<le> unat sz \<Longrightarrow> image_open path f = Inr layout"
  by (simp add: image_open_def read_at_def VENTOY_SIG_OFFSET_def)

text \<open>C19: Creating an image. For every size from 64 MiB up to 2 TiB and boot resources with a boot sector of 512
  bytes, the image has exactly that size; the boot code, the signature, the partition entries and the two larger
  resources (cut to their room) lie where they belong, none overwritten by a later step; the image is recognised when it is
  opened, with the layout it was created with; and its file system opens as a good volume whose listing is
  empty.\<close>

theorem created_image_opens:
  assumes "parse_size up size_str = Inr sz" and "64 * 1024 * 1024 \<le> sz" and "unat sz < 2 ^ 41"
    and "length (rc_boot_img rc) = 512"
  shows "\<exists>layout f. image_create up serial (Some rc) size_str label = (Inr layout, Some f) \<and>
    length f = unat sz \<and> image_head rc layout f \<and> image_open path f = Inr layout \<and>
    (\<exists>fs. open_fs f layout = Inr fs \<and> fs_ok fs) \<and> fst (image_list_files layout f) = Inr []"
proof -
  have sz: "MIN_IMAGE_SIZE \<le> sz" using assms(2) by (simp add: MIN_IMAGE_SIZE_def)
  obtain layout where l: "calculate_layout sz = Inr layout" using calculate_layout_Inr [OF sz] by metis
  obtain f fs css where
    "image_create up serial (Some rc) size_str label = (Inr layout, Some f)" "length f = unat sz" "image_head rc layout f"
    "open_fs f layout = Inr fs" "fs_ok fs" "fs_file fs = f" "dir_view (vol fs) (v_root (vol fs)) css" "dir_sets css = []"
    using image_opens [OF assms(1) sz assms(3,4) l, of serial label] by metis
  note i = l this
  have "1048576 \<le> unat sz" using assms(2) by (simp add: word_le_nat_alt)
  then have "image_open path f = Inr layout" using i(1,3,4) by (intro image_head_opens) (simp_all add: image_head_def)
  moreover have "fst (image_list_files layout f) = Inr []"
    using list_files_ok [OF i(6,8)] i(5,9) by (auto simp: image_list_files_def on_image_def yields_def)
  ultimately show ?thesis using i by blast
qed

theorem created_image_opens_witness:
  "\<exists>layout f. image_create (map (\<lambda>c. if 97 \<le> c \<and> c \<le> 122 then c - 32 else c)) 7
      (Some \<lparr>rc_boot_img = zeros 512, rc_core_img = [1, 2, 3], rc_ventoy_disk_img = [4, 5, 6]\<rparr>) (lit ''64M'') (lit ''Ventoy'') =
      (Inr layout, Some f) \<and> length f = 67108864 \<and> image_open [] f = Inr layout"
proof -
  have "parse_size (map (\<lambda>c. if 97 \<le> c \<and> c \<le> 122 then c - 32 else c)) (lit ''64M'') = Inr 67108864"
    by (simp add: parse_size_def trim_def is_whitespace_def lit_def Let_def parse_u64_def) auto
  from created_image_opens [OF this, of "\<lparr>rc_boot_img = zeros 512, rc_core_img = [1, 2, 3], rc_ventoy_disk_img = [4, 5, 6]\<rparr>"
      7 "lit ''Ventoy''" "[]"] show ?thesis by auto
qed

text \<open>Paths of one component.\<close>

lemma parse_path_name: "name \<noteq> [] \<Longrightarrow> 47 \<notin> set name \<Longrightarrow> parse_path name = [name]"
proof -
  assume a: "name \<noteq> []" "47 \<notin> set name"
  have d: "dropWhile (\<lambda>c. c = 47) xs = xs" if "47 \<notin> set xs" for xs :: rstr using that by (cases xs) auto
  have "trim_slashes name = name" using a(2) by (simp add: trim_slashes_def d)
  then show ?thesis using a by (simp add: parse_path_def split_on_none)
qed

lemma read_file_path_root:
  assumes "name \<noteq> []" "47 \<notin> set name" and "fs_ok fs" and "dir_view (vol fs) (v_root (vol fs)) css"
    and "lookup lower (lower name) (dir_sets css) = Some loc" and "\<not> is_directory loc" and "file_contents (vol fs) loc data"
  shows "yields (read_file_path lower now name) fs (Inr data) (vol fs)"
proof -
  obtain fs1 where fs1: "find_entry_in_directory lower (v_root (vol fs)) name fs = (Inr (Some loc), fs1)" "fs_ok fs1" "vol fs1 = vol fs"
    using find_entry_ok [OF assms(3,4), of lower name] assms(5) by (auto simp: yields_def)
  have "resolve_path lower now name False fs = (Inr \<lparr>parent_cluster = v_root (vol fs), rp_name = name, rp_location = Some loc\<rparr>, fs1)"
    using fs1(1) by (simp add: resolve_path_def parse_path_name [OF assms(1,2)] bindE_def getsE_def returnE_def)
  moreover have "yields (read_file_from_location loc) fs1 (Inr data) (vol fs1)"
    using read_file_from_location_ok [OF fs1(2), of loc data] assms(7) fs1(3) by simp
  ultimately show ?thesis using assms(6) fs1 by (auto simp: read_file_path_def bindE_def yields_def)
qed


lemma image_free_clusters:
  assumes root: "unat r + 2 < m" "m < 2 ^ 32" and alloc: "\<And>c. r < c \<Longrightarrow> unat c < m \<Longrightarrow>
      is_cluster_allocated d c \<longleftrightarrow> unat c \<le> unat r + 2"
    and v: "v_count v + 2 = m" "v_root v = r" "v_data v 2 = d"
  shows "length (free_list v) = m - unat r - 3" and "r \<notin> set (free_list v)"
proof -
  let ?w = "word_of_nat :: nat \<Rightarrow> u32"
  have u: "unat (?w i) = i" if "i < m" for i using that root(2) by (simp add: unat_of_nat)
  have "filter (\<lambda>i. \<not> is_cluster_allocated d (?w i)) [Suc (unat r)..<m] = filter (\<lambda>i. unat r + 2 < i) [Suc (unat r)..<m]"
  proof (intro filter_cong refl)
    fix i assume "i \<in> set [Suc (unat r)..<m]"
    then have i: "unat r < i" "i < m" by auto
    then show "(\<not> is_cluster_allocated d (?w i)) = (unat r + 2 < i)"
      using alloc [of "?w i"] u [OF i(2)] by (simp add: word_less_nat_alt not_le)
  qed
  moreover have "[Suc (unat r)..<m] = [Suc (unat r)..<unat r + 3] @ [unat r + 3..<m]"
    using root(1) upt_add_eq_append [of "Suc (unat r)" "unat r + 3" "m - unat r - 3"] by simp
  moreover have "filter (\<lambda>i. unat r + 2 < i) ([Suc (unat r)..<unat r + 3] @ [unat r + 3..<m]) = [unat r + 3..<m]" by (auto simp: filter_empty_conv intro!: filter_True)
  ultimately have filt: "filter (\<lambda>i. \<not> is_cluster_allocated d (?w i)) [Suc (unat r)..<m] = [unat r + 3..<m]" by simp
  have f: "free_list v = map ?w [unat r + 3..<m]"
    unfolding free_list_def v filter_map o_def filt ..
  show "length (free_list v) = m - unat r - 3" unfolding f using root(1) by simp
  show "r \<notin> set (free_list v)" unfolding f using u by auto
qed

text \<open>Adding a file to an image that opens as a good volume: it opens again, with one file more.\<close>

lemma image_add_ok:
  assumes opn: "open_fs f layout = Inr fs" and ok: "fs_ok fs" and view: "dir_view (vol fs) (v_root (vol fs)) css"
    and "\<not> invalid_name name" and name: "retrievable lower name" and new: "lookup lower (lower name) (dir_sets css) = None"
    and free: "set (free_list (vol fs)) \<inter> set (map fst css) = {}" and cov: "bitmap_covers (vol fs)"
    and sz: "v_cluster_size (vol fs) mod 32 = 0" "1024 \<le> v_cluster_size (vol fs)"
    and n: "clusters_for (v_cluster_size (vol fs)) (unat total_size) < length (free_list (vol fs))"
    and chunks: "[] \<notin> set chunks" "unat total_size \<le> length (concat chunks)"
    and base: "unat (data_offset layout) + 512 \<le> fat_base fs"
  obtains f' fs' where "image_add_file lower now layout (Some name) total_size chunks f = (Inr (), f')"
    and "open_fs f' layout = Inr fs'" and "fs_ok fs'"
    and "file_added (vol fs) (vol fs') (v_root (vol fs)) css now name (take (unat total_size) (concat chunks))"
    and "length f' = length f" and "take (fat_base fs) f' = take (fat_base fs) f"
proof -
  have eq: "write_file_from_reader lower now name chunks total_size fs =
      stream_to now (create_in_directory lower (v_root (vol fs)) name total_size False) chunks fs"
    by (simp add: write_file_from_reader_def stream_to_def writer_create_def bindE_def getsE_def)
  from stream_create_ok [OF ok view assms(4) new name free cov sz n chunks, of now False]
  obtain fs1 where fs1: "write_file_from_reader lower now name chunks total_size fs = (Inr (), fs1)" "fs_ok fs1"
    "file_added (vol fs) (vol fs1) (v_root (vol fs)) css now name (take (unat total_size) (concat chunks))"
    unfolding eq yields_def by blast
  let ?fs' = "fs1\<lparr>fat_cache := fat_cache_new, bitmap_cache := None, bitmap_dirty := False\<rparr>"
  have boot: "v_boot (vol fs1) = v_boot (vol fs)" using fs1(3) by (simp add: file_added_def)
  have "image_add_file lower now layout (Some name) total_size chunks f = (Inr (), fs_file fs1)"
    using fs1(1) opn by (simp add: image_add_file_def on_image_def)
  moreover have "open_fs (fs_file fs1) layout = Inr ?fs'" by (rule reopen(1) [OF opn base boot])
  moreover have "fs_ok ?fs'" "vol ?fs' = vol fs1" using fresh_caches [OF fs1(2)] by simp_all
  moreover have "length (fs_file fs1) = length f \<and> take (fat_base fs) (fs_file fs1) = take (fat_base fs) f"
    using reopen(2,3) [OF opn base boot] by simp
  ultimately show thesis using that [of "fs_file fs1" ?fs'] fs1(3) by simp
qed

lemma image_head_signature: "image_head rc layout f \<Longrightarrow> slice 400 16 f = VENTOY_SIGNATURE"
  by (simp add: image_head_def)

lemma slice_of_prefix: "take m f' = take m f \<Longrightarrow> q + n \<le> m \<Longrightarrow> slice q n f' = slice q n f"
  using slice_take [of q n m f] slice_take [of q n m f'] by simp

text \<open>C7: From an empty image to a file. An image is created (64 MiB to 2 TiB, such that its
  bitmap has a bit for every cluster), a host file is added under a name without slashes, and the image is opened again:
  it is still recognised with the same layout, the listing shows exactly this file with its size, and reading
  it returns the bytes that were added. Every step opens the image file anew.\<close>

theorem image_file_roundtrip:
  assumes parse: "parse_size up size_str = Inr sz" and "64 * 1024 * 1024 \<le> sz" and max: "unat sz < 2 ^ 41"
    and boot: "length (rc_boot_img rc) = 512" and layout: "calculate_layout sz = Inr layout"
    and cs: "cs = get_cluster_size (data_size layout div 512)"
    and clusters: "clusters = unat (boot_cluster_count (boot_sector_new (data_size layout div 512) cs serial))"
    and covered: "clusters \<le> 8 * unat cs"
    and name: "\<not> invalid_name name" "47 \<notin> set name" "retrievable lower name" "stored_name name = name"
    and chunks: "[] \<notin> set chunks" "concat chunks = data" "length data < 2 ^ 64"
    and fits: "clusters_for (unat cs) (length data) + unat (upcase_cluster_count cs) + 4 < clusters"
  shows "\<exists>f f'. image_create up serial (Some rc) size_str label = (Inr layout, Some f) \<and>
    image_add_file lower now layout (Some name) (word_of_nat (length data)) chunks f = (Inr (), f') \<and>
    image_open path f' = Inr layout \<and>
    fst (image_list_files layout f') = Inr [\<lparr>fi_name = name, fi_size = word_of_nat (length data), fi_is_directory = False, fi_path = name\<rparr>] \<and>
    fst (image_read_file lower now' layout name f') = Inr data"
proof -
  have sz: "MIN_IMAGE_SIZE \<le> sz" using assms(2) by (simp add: MIN_IMAGE_SIZE_def)
  have big: "1048576 \<le> unat sz" using assms(2) by (simp add: word_le_nat_alt)
  define b where "b = boot_sector_new (data_size layout div 512) cs serial"
  define total where "total = (word_of_nat (length data) :: u64)"
  obtain f fs css where "image_create up serial (Some rc) size_str label = (Inr layout, Some f)"
    "length f = unat sz" "image_head rc layout f" "open_fs f layout = Inr fs" "fs_ok fs"
    "v_cluster_size (vol fs) = unat cs" "v_count (vol fs) = clusters"
    "dir_view (vol fs) (v_root (vol fs)) css" "dir_sets css = []" "map fst css = [v_root (vol fs)]"
    "\<And>c. tracked (v_data (vol fs) 2) c \<Longrightarrow>
      is_cluster_allocated (v_data (vol fs) 2) c \<longleftrightarrow> 4 \<le> unat c \<and> unat c \<le> unat (v_root (vol fs)) + 2"
    "1060864 \<le> fat_base fs" "v_root (vol fs) = boot_first_cluster_of_root b"
    using image_opens [OF parse sz max boot layout, of serial label]
    unfolding image_volume_def cs [symmetric] b_def [symmetric] clusters [folded b_def, symmetric] by metis
  note i = this and off = image_numbers(1) [OF sz max layout] and v = image_numbers(4,5) [OF sz max layout]
  note n = volume_numbers [OF v cs b_def refl]
  have geo: "geometry_ok fs" and bounds: "clusters + 2 < 2 ^ 32"
    using i(5) fs_bounds(1) [OF i(5)] i(7) by (simp_all add: fs_ok_def)
  have root: "unat (v_root (vol fs)) = 3 + unat (upcase_cluster_count cs)" unfolding i(13) by (rule n(10))
  have cov: "bitmap_covers (vol fs)"
    using length_v_data [OF i(5), of 2] two_in_heap [OF geo] covered i(6,7) by (simp add: bitmap_covers_def del: v_data_vol)
  have alloc: "is_cluster_allocated (v_data (vol fs) 2) c \<longleftrightarrow> unat c \<le> unat (v_root (vol fs)) + 2"
    if "v_root (vol fs) < c" "unat c < clusters + 2" for c
  proof -
    have "in_heap (v_count (vol fs)) c" using that root i(7) by (simp add: in_heap_def word_less_nat_alt del: vol_fields)
    from i(11) [OF covers_tracked [OF cov this]] show ?thesis using that(1) root by (simp add: word_less_nat_alt del: vol_fields v_data_vol)
  qed
  note fr = image_free_clusters [OF _ bounds alloc _ _ refl]
  have fl: "length (free_list (vol fs)) = clusters + 2 - unat (v_root (vol fs)) - 3" "v_root (vol fs) \<notin> set (free_list (vol fs))"
    using fits root i(7) by (intro fr; simp del: vol_fields)+
  have total: "unat total = length data" using chunks(3) by (simp add: total_def unat_of_nat64)
  have cl: "clusters_for (v_cluster_size (vol fs)) (unat total) < length (free_list (vol fs))"
    unfolding fl(1) i(6) total using fits root by simp
  have new: "lookup lower (lower name) (dir_sets css) = None" unfolding i(9) by simp
  have base: "unat (data_offset layout) + 512 \<le> fat_base fs" using off i(12) by simp
  have "v_cluster_size (vol fs) mod 32 = 0" "1024 \<le> v_cluster_size (vol fs)" unfolding i(6) using n(4,5) by simp_all
  moreover have "set (free_list (vol fs)) \<inter> set (map fst css) = {}" unfolding i(10) using fl(2) by simp
  moreover have "unat total \<le> length (concat chunks)" unfolding total chunks(2) by simp
  ultimately obtain f' fs' where a: "image_add_file lower now layout (Some name) total chunks f = (Inr (), f')"
    "open_fs f' layout = Inr fs'" "fs_ok fs'"
    "file_added (vol fs) (vol fs') (v_root (vol fs)) css now name (take (unat total) (concat chunks))"
    "length f' = length f" "take (fat_base fs) f' = take (fat_base fs) f"
    using image_add_ok [OF i(4,5,8) name(1,3) new _ cov _ _ cl chunks(1) _ base] by metis
  have data: "take (unat total) (concat chunks) = data" unfolding total chunks(2) by simp
  obtain css' xs ys c off' first where "v_root (vol fs') = v_root (vol fs)" "dir_view (vol fs') (v_root (vol fs)) css'"
    "dir_sets css = xs @ ys" "dir_sets css' = xs @ (c, off', create_file_entries now name first total False) # ys"
    "file_contents (vol fs') (location (c, off', create_file_entries now name first total False)) data"
    using a(4) unfolding data file_added_def Let_def total_def [symmetric] by blast
  note d = this [unfolded i(9)]
  define es where "es = create_file_entries now name first total False"
  have view: "dir_view (vol fs') (v_root (vol fs')) css'" and sets: "dir_sets css' = [(c, off', es)]"
    using d by (simp_all add: es_def del: vol_fields)
  note facts = create_file_entries_facts(2,3) [of name now first total False, folded es_def]
  have len: "length (encode_utf16 name) \<le> 255" using name(3) by (simp add: retrievable_def)
  have ne: "name \<noteq> []" using name(1) by (auto simp: invalid_name_def)
  have "fst (image_list_files layout f') =
      Inr [\<lparr>fi_name = name, fi_size = total, fi_is_directory = False, fi_path = name\<rparr>]"
    using list_files_ok [OF a(3) view] a(2) facts [OF len] ne name(4)
    by (auto simp: sets image_list_files_def on_image_def yields_def)
  moreover have "lookup lower (lower name) (dir_sets css') = Some (location (c, off', es))"
    using lookup_new [OF name(3), of "[]" "[]" c off' now first total False] sets by (simp add: es_def)
  then have "yields (read_file_path lower now' name) fs' (Inr data) (vol fs')"
    using location_new(3) [OF name(3)] d(5) unfolding es_def
    by (intro read_file_path_root [OF ne name(2) a(3) view]) simp_all
  then have "fst (image_read_file lower now' layout name f') = Inr data"
    using a(2) by (auto simp: image_read_file_def on_image_def yields_def)
  moreover have "image_open path f' = Inr layout"
    using slice_of_prefix [OF a(6), of 400 16] i(12) image_head_signature [OF i(3)] a(5) i(2) big
    by (intro image_head_opens [OF layout]) simp_all
  ultimately show ?thesis using i(1) a(1) unfolding total_def by blast
qed

theorem image_file_roundtrip_witness:
  "\<exists>layout f f'. image_create (map (\<lambda>c. if 97 \<le> c \<and> c \<le> 122 then c - 32 else c)) 7
      (Some \<lparr>rc_boot_img = zeros 512, rc_core_img = [1, 2, 3], rc_ventoy_disk_img = [4, 5, 6]\<rparr>) (lit ''64M'') (lit ''Ventoy'') =
      (Inr layout, Some f) \<and>
    image_add_file id 0 layout (Some [65]) 3 [[1, 2], [3]] f = (Inr (), f') \<and> fst (image_read_file id 0 layout [65] f') = Inr [1, 2, 3]"
proof -
  let ?rc = "\<lparr>rc_boot_img = zeros 512, rc_core_img = [1, 2, 3], rc_ventoy_disk_img = [4, 5, 6]\<rparr>"
  have parse: "parse_size (map (\<lambda>c. if 97 \<le> c \<and> c \<le> 122 then c - 32 else c)) (lit ''64M'') = Inr 67108864"
    by (simp add: parse_size_def trim_def is_whitespace_def lit_def Let_def parse_u64_def) auto
  define layout where "layout = \<lparr>total_sectors = 131072, data_start_sector = 2048, data_size_sectors = 63488,
     efi_start_sector = 65536, efi_size_sectors = 65536\<rparr>"
  have l: "calculate_layout 67108864 = Inr layout"
    by (simp add: calculate_layout_def MIN_IMAGE_SIZE_def partition_consts Let_def layout_def)
  have v: "data_size layout div 512 = 63488" by (simp add: data_size_def layout_def SECTOR_SIZE_def)
  have cs: "get_cluster_size 63488 = 4096" by (simp add: get_cluster_size_def)
  have cc: "unat (boot_cluster_count (boot_sector_new 63488 4096 7)) = 7925"
    by (rule boot_sector_fields(4) [where spc = 8 and ?cc1.0 = 7929 and fl = 62]) simp_all
  have uc: "unat (upcase_cluster_count 4096) = 32" by (simp add: upcase_cluster_counts)
  have sn: "stored_name [65] = [65]" using stored_name_bmp [of "[65]"] by (simp add: bmp_name_def is_scalar_def)
  note r = image_file_roundtrip [OF parse _ _ _ l, of ?rc "4096" 7925 7 "[65]" id "[[1, 2], [3]]" "[1, 2, 3]" "lit ''Ventoy''" 0 "[]" 0]
  show ?thesis
    using r small_writable(2,3) sn v cs cc uc by (simp add: clusters_for_def) blast
qed

end
