(* ===== verification/Annexb.thy ===== *)
theory Annexb
  imports Kvm_Prelude
begin

text \<open>
  H.264 and H.265 byte streams in Annex B format: the scanners of \<^verbatim>\<open>src/src/webrtc/rtp.rs\<close> and of
  \<^verbatim>\<open>src/src/rtsp/service.rs\<close>. A position in the data is given by the rest of the data from there; the
  index is carried along where the code returns it. The reference is a stream composed of NAL units
  (\<open>annexb\<close>), and the lemmas say what each scanner finds in it.
\<close>

section \<open>The scanner of the RTSP service\<close>

definition CODE3 :: bytes where "CODE3 = [0, 0, 1]"
definition CODE4 :: bytes where "CODE4 = [0, 0, 0, 1]"

text \<open>The loop of \<open>find_annexb_start_code\<close>, from index \<open>i\<close>.\<close>

fun find_code :: "nat \<Rightarrow> bytes \<Rightarrow> (nat \<times> nat) option" where
  "find_code i [] = None"
| "find_code i (b # bs) =
     (if take 4 (b # bs) = CODE4 then Some (i, 4)
      else if take 3 (b # bs) = CODE3 then Some (i, 3)
      else find_code (i + 1) bs)"

definition find_annexb_start_code :: "bytes \<Rightarrow> nat \<Rightarrow> (nat \<times> nat) option" where
  "find_annexb_start_code data start = (if length data \<le> start then None else find_code start (drop start data))"

lemma code_lengths: "take 4 bs = CODE4 \<Longrightarrow> 4 \<le> length bs" "take 3 bs = CODE3 \<Longrightarrow> 3 \<le> length bs"
  by (drule arg_cong [of _ _ length], simp add: CODE4_def CODE3_def min_def split: if_splits)+

lemma find_code_bounds: "find_code i bs = Some (s, n) \<Longrightarrow> i \<le> s \<and> s + n \<le> i + length bs \<and> 0 < n"
proof (induction i bs rule: find_code.induct)
  case (2 i b bs)
  then show ?case using code_lengths [of "b # bs"] by (auto split: if_splits)
qed simp

lemma find_annexb_bounds: "find_annexb_start_code d p = Some (s, n) \<Longrightarrow> p \<le> s \<and> s + n \<le> length d \<and> 0 < n"
  using find_code_bounds [of p "drop p d" s n] by (auto simp: find_annexb_start_code_def split: if_splits)

text \<open>The inner \<open>while\<close> of \<open>split_annexb_nal_units\<close>.\<close>

definition trim_zeros :: "bytes \<Rightarrow> bytes" where
  "trim_zeros nal = rev (dropWhile (\<lambda>b. b = 0) (rev nal))"

function split_nals :: "bytes \<Rightarrow> nat \<Rightarrow> bytes list" where
  "split_nals data cursor =
     (case find_annexb_start_code data cursor of
        None \<Rightarrow> []
      | Some (start, start_code_len) \<Rightarrow>
          let nal_start = start + start_code_len in
          if length data \<le> nal_start then []
          else
            let next_start = (case find_annexb_start_code data nal_start of Some (idx, _) \<Rightarrow> idx | None \<Rightarrow> length data);
                nal = trim_zeros (slice nal_start (next_start - nal_start) data)
            in (if nal \<noteq> [] then [nal] else []) @ split_nals data next_start)"
  by auto
termination
proof (relation "measure (\<lambda>(data, cursor). length data - cursor)", goal_cases)
  case (2 data cursor p start len nal_start next_start nal)
  then show ?case
    using find_annexb_bounds [of data cursor start len] find_annexb_bounds [of data nal_start]
    by (auto split: option.splits)
qed simp

declare split_nals.simps [simp del]

definition split_annexb_nal_units :: "bytes \<Rightarrow> bytes list" where
  "split_annexb_nal_units data = split_nals data 0"

definition h264_nal_type :: "bytes \<Rightarrow> u8 option" where
  "h264_nal_type nal = (case nal of [] \<Rightarrow> None | b # _ \<Rightarrow> Some (b AND 0x1F))"

definition h265_nal_type :: "bytes \<Rightarrow> u8 option" where
  "h265_nal_type nal = (case nal of [] \<Rightarrow> None | b # _ \<Rightarrow> Some (drop_bit 1 b AND 0x3F))"

section \<open>The scanners of the H.264 track\<close>

text \<open>The test for a start code at a position, and the search for the next one.\<close>

definition code_len_at :: "bytes \<Rightarrow> nat option" where
  "code_len_at bs = (if take 4 bs = CODE4 then Some 4 else if take 3 bs = CODE3 then Some 3 else None)"

fun until_code :: "bytes \<Rightarrow> nat" where
  "until_code [] = 0"
| "until_code (b # bs) = (if take 3 (b # bs) = CODE3 \<or> take 4 (b # bs) = CODE4 then 0 else Suc (until_code bs))"

lemma code_len_at_pos: "code_len_at bs = Some n \<Longrightarrow> 0 < n"
  by (auto simp: code_len_at_def split: if_splits)

definition nal_end_at :: "nat \<Rightarrow> bytes \<Rightarrow> nat" where
  "nal_end_at n bs = n + 1 + until_code (drop (n + 1) bs)"

text \<open>\<open>strip_aud_nal_units\<close>: the loop, from the rest of the data.\<close>

function strip_aud_loop :: "bytes \<Rightarrow> bytes \<Rightarrow> bytes" where
  "strip_aud_loop result bs =
     (if bs = [] then result
      else case code_len_at bs of
        None \<Rightarrow> strip_aud_loop result (tl bs)
      | Some n \<Rightarrow>
          if length bs \<le> n then result
          else
            let nal_type = bs ! n AND 0x1F; nal_end = nal_end_at n bs in
            strip_aud_loop (if nal_type \<noteq> 9 \<and> nal_type \<noteq> 12 then result @ take nal_end bs else result) (drop nal_end bs))"
  by auto
termination by (relation "measure (\<lambda>(result, bs). length bs)") (auto simp: nal_end_at_def neq_Nil_conv)

declare strip_aud_loop.simps [simp del]

definition strip_aud_nal_units :: "bytes \<Rightarrow> bytes" where
  "strip_aud_nal_units data =
     (let result = strip_aud_loop [] data in if result = [] \<and> data \<noteq> [] then data else result)"

function extract_loop :: "bytes option \<times> bytes option \<Rightarrow> bytes \<Rightarrow> bytes option \<times> bytes option" where
  "extract_loop found bs =
     (if bs = [] then found
      else case code_len_at bs of
        None \<Rightarrow> extract_loop found (tl bs)
      | Some n \<Rightarrow>
          if length bs \<le> n then found
          else
            let nal_type = bs ! n AND 0x1F; nal_end = nal_end_at n bs; nal = slice n (nal_end - n) bs in
            extract_loop (if nal_type = 7 then (Some nal, snd found) else if nal_type = 8 then (fst found, Some nal) else found)
              (drop nal_end bs))"
  by auto
termination by (relation "measure (\<lambda>(found, bs). length bs)") (auto simp: nal_end_at_def neq_Nil_conv)

declare extract_loop.simps [simp del]

definition extract_sps_pps :: "bytes \<Rightarrow> bytes option \<times> bytes option" where
  "extract_sps_pps data = extract_loop (None, None) data"

function has_loop :: "bool \<times> bool \<Rightarrow> bytes \<Rightarrow> bool" where
  "has_loop found bs =
     (if bs = [] then fst found \<and> snd found
      else case code_len_at bs of
        None \<Rightarrow> has_loop found (tl bs)
      | Some n \<Rightarrow>
          if length bs \<le> n then fst found \<and> snd found
          else
            let nal_type = bs ! n AND 0x1F;
                found = (if nal_type = 7 then (True, snd found) else if nal_type = 8 then (fst found, True) else found)
            in if fst found \<and> snd found then True else has_loop found (drop (n + 1) bs))"
  by auto
termination by (relation "measure (\<lambda>(found, bs). length bs)") (auto simp: neq_Nil_conv)

declare has_loop.simps [simp del]

definition has_sps_pps :: "bytes \<Rightarrow> bool" where
  "has_sps_pps data = has_loop (False, False) data"

text \<open>\<open>is_h264_keyframe\<close>, whose test for a start code needs a byte after it.\<close>

definition keyframe_code_len :: "bytes \<Rightarrow> nat option" where
  "keyframe_code_len bs =
     (if 3 < length bs \<and> take 2 bs = [0, 0]
      then if bs ! 2 = 1 then Some 3
           else if 4 < length bs \<and> bs ! 2 = 0 \<and> bs ! 3 = 1 then Some 4 else None
      else None)"

function is_h264_keyframe :: "bytes \<Rightarrow> bool" where
  "is_h264_keyframe bs =
     (if bs = [] then False
      else case keyframe_code_len bs of
        None \<Rightarrow> is_h264_keyframe (tl bs)
      | Some n \<Rightarrow> if n < length bs \<and> bs ! n AND 0x1F = 5 then True else is_h264_keyframe (drop n bs))"
  by auto
termination
  by (relation "measure length") (auto simp: keyframe_code_len_def neq_Nil_conv split: if_splits)

declare is_h264_keyframe.simps [simp del]

text \<open>\<open>{:02x}\<close>\<close>

definition hex2_lower :: "u8 \<Rightarrow> string" where
  "hex2_lower b = map (\<lambda>d. char_of (if d < 10 then 48 + d else 87 + d)) [unat b div 16, unat b mod 16]"

definition parse_profile_level_id_from_sps :: "bytes \<Rightarrow> string option" where
  "parse_profile_level_id_from_sps sps =
     (if length sps < 4 then None else Some (hex2_lower (sps ! 1) @ hex2_lower (sps ! 2) @ hex2_lower (sps ! 3)))"

definition extract_profile_level_id :: "bytes \<Rightarrow> string option" where
  "extract_profile_level_id data =
     (case fst (extract_sps_pps data) of None \<Rightarrow> None | Some sps \<Rightarrow> parse_profile_level_id_from_sps sps)"

section \<open>Streams of NAL units\<close>

text \<open>A NAL unit as encoders produce it: emulation prevention keeps 00 00 00 and 00 00 01 out of it, and it
  does not end in a zero byte. A stream is NAL units after start codes of three or four bytes.\<close>

fun clean :: "bytes \<Rightarrow> bool" where
  "clean [] \<longleftrightarrow> True"
| "clean (b # bs) \<longleftrightarrow> take 3 (b # bs) \<noteq> [0, 0, 0] \<and> take 3 (b # bs) \<noteq> [0, 0, 1] \<and> clean bs"

definition nal_ok :: "bytes \<Rightarrow> bool" where
  "nal_ok nal \<longleftrightarrow> nal \<noteq> [] \<and> clean nal \<and> last nal \<noteq> 0"

definition code :: "bool \<Rightarrow> bytes" where
  "code four = (if four then CODE4 else CODE3)"

definition annexb :: "(bool \<times> bytes) list \<Rightarrow> bytes" where
  "annexb us = concat (map (\<lambda>(four, nal). code four @ nal) us)"

lemma annexb_simps [simp]:
  "annexb [] = []" "annexb ((four, nal) # us) = code four @ nal @ annexb us"
  by (simp_all add: annexb_def)

text \<open>No start code begins inside a NAL unit, whatever follows it.\<close>

lemma no_code_inside:
  assumes "clean (b # bs)" and "last (b # bs) \<noteq> 0"
  shows "take 3 ((b # bs) @ rest) \<noteq> CODE3" and "take 4 ((b # bs) @ rest) \<noteq> CODE4"
proof -
  consider "bs = []" | c where "bs = [c]" | c d ds where "bs = c # d # ds" by (metis list.exhaust)
  then show "take 3 ((b # bs) @ rest) \<noteq> CODE3" "take 4 ((b # bs) @ rest) \<noteq> CODE4"
    using assms by (cases; auto simp: CODE3_def CODE4_def numeral_eq_Suc)+
qed

lemma last_tl: "bs \<noteq> [] \<Longrightarrow> last (b # bs) = last bs"
  by simp

lemma find_code_nal: "clean nal \<Longrightarrow> nal = [] \<or> last nal \<noteq> 0 \<Longrightarrow> find_code i (nal @ rest) = find_code (i + length nal) rest"
proof (induction nal arbitrary: i)
  case (Cons b bs)
  then have "take 3 ((b # bs) @ rest) \<noteq> CODE3" "take 4 ((b # bs) @ rest) \<noteq> CODE4"
    using no_code_inside [of b bs rest] by auto
  then show ?case using Cons by (cases "bs = []") auto
qed simp

lemma until_code_nal: "clean nal \<Longrightarrow> nal = [] \<or> last nal \<noteq> 0 \<Longrightarrow> until_code (nal @ rest) = length nal + until_code rest"
proof (induction nal)
  case (Cons b bs)
  then have "take 3 ((b # bs) @ rest) \<noteq> CODE3" "take 4 ((b # bs) @ rest) \<noteq> CODE4"
    using no_code_inside [of b bs rest] by auto
  then show ?case using Cons by (cases "bs = []") auto
qed simp

lemma code_simps:
  "length (code four) = (if four then 4 else 3)"
  "take 3 (code four @ bs) = CODE3 \<longleftrightarrow> \<not> four" "take 4 (code four @ bs) = CODE4 \<longleftrightarrow> four"
  "code four \<noteq> []"
  by (auto simp: code_def CODE3_def CODE4_def numeral_eq_Suc)

lemma code_len_at_code: "code_len_at (code four @ bs) = Some (length (code four))"
  by (cases four) (simp_all add: code_len_at_def code_def CODE3_def CODE4_def numeral_eq_Suc)

lemma code_len_at_inside:
  "clean (b # bs) \<Longrightarrow> last (b # bs) \<noteq> 0 \<Longrightarrow> code_len_at ((b # bs) @ rest) = None"
  unfolding code_len_at_def using no_code_inside [of b bs rest] by simp

lemma find_code_code: "find_code i (code four @ bs) = Some (i, length (code four))"
  by (cases four) (simp_all add: code_def CODE3_def CODE4_def numeral_eq_Suc)

lemma until_code_code: "until_code (code four @ bs) = 0"
  by (cases four) (simp_all add: code_def CODE3_def CODE4_def numeral_eq_Suc)

lemma until_code_annexb: "until_code (annexb us) = 0"
  by (cases us) (auto simp: until_code_code)

lemma find_code_annexb: "find_code i (annexb us) = (case us of [] \<Rightarrow> None | (four, nal) # us \<Rightarrow> Some (i, length (code four)))"
  by (cases us) (auto simp: find_code_code)

lemma nal_ok_tl: "nal_ok nal \<Longrightarrow> clean (tl nal) \<and> (tl nal = [] \<or> last (tl nal) \<noteq> 0)"
  by (cases nal) (auto simp: nal_ok_def split: if_splits)

lemma nal_end_at_unit:
  assumes "nal_ok nal"
  shows "nal_end_at (length (code four)) (code four @ nal @ annexb us) = length (code four) + length nal"
proof -
  have "drop (length (code four) + 1) (code four @ nal @ annexb us) = tl nal @ annexb us"
    using assms by (cases nal) (simp_all add: nal_ok_def)
  then show ?thesis
    using until_code_nal [of "tl nal" "annexb us"] nal_ok_tl [OF assms] assms
    by (cases nal) (simp_all add: nal_end_at_def until_code_annexb nal_ok_def)
qed

text \<open>What the scanners find in a stream.\<close>

definition unit_type :: "bool \<times> bytes \<Rightarrow> u8" where
  "unit_type u = hd (snd u) AND 0x1F"

abbreviation good_units :: "(bool \<times> bytes) list \<Rightarrow> bool" where
  "good_units us \<equiv> \<forall>u \<in> set us. nal_ok (snd u)"

lemma unit_head:
  assumes "nal_ok nal"
  shows "(code four @ nal @ annexb us) ! length (code four) = hd nal" and "\<not> length (code four @ nal @ annexb us) \<le> length (code four)"
    and "code four @ nal @ annexb us \<noteq> []"
    and "take (length (code four) + length nal) (code four @ nal @ annexb us) = code four @ nal"
    and "drop (length (code four) + length nal) (code four @ nal @ annexb us) = annexb us"
  using assms by (auto simp: nal_ok_def nth_append hd_conv_nth code_simps)

lemma unit_type_pair: "unit_type (four, nal) = hd nal AND 0x1F"
  by (simp add: unit_type_def)

lemma strip_aud_loop_annexb:
  "good_units us \<Longrightarrow> strip_aud_loop result (annexb us) =
     result @ annexb (filter (\<lambda>u. unit_type u \<noteq> 9 \<and> unit_type u \<noteq> 12) us)"
proof (induction us arbitrary: result)
  case Nil
  then show ?case by (subst strip_aud_loop.simps) simp
next
  case (Cons u us)
  obtain four nal where u: "u = (four, nal)" by (cases u)
  then have ok: "nal_ok nal" and us: "good_units us" using Cons.prems by simp_all
  define d where "d = code four @ nal @ annexb us"
  note h = unit_head [OF ok, of four us] code_len_at_code [of four "nal @ annexb us"] nal_end_at_unit [OF ok, of four us]
  show ?case
    unfolding u annexb_simps d_def [symmetric]
    by (subst strip_aud_loop.simps)
      (simp add: h [folded d_def] Let_def Cons.IH [OF us] unit_type_pair)
qed

lemma extract_loop_annexb:
  "good_units us \<Longrightarrow> extract_loop found (annexb us) =
     (case map snd (filter (\<lambda>u. unit_type u = 7) us) of [] \<Rightarrow> fst found | xs \<Rightarrow> Some (last xs),
      case map snd (filter (\<lambda>u. unit_type u = 8) us) of [] \<Rightarrow> snd found | xs \<Rightarrow> Some (last xs))"
proof (induction us arbitrary: found)
  case Nil
  then show ?case by (subst extract_loop.simps) simp
next
  case (Cons u us)
  obtain four nal where u: "u = (four, nal)" by (cases u)
  then have ok: "nal_ok nal" and us: "good_units us" using Cons.prems by simp_all
  define d where "d = code four @ nal @ annexb us"
  have s: "slice (length (code four)) (length nal) d = nal" by (simp add: slice_def d_def)
  note h = unit_head [OF ok, of four us] code_len_at_code [of four "nal @ annexb us"] nal_end_at_unit [OF ok, of four us]
  show ?case
    unfolding u annexb_simps d_def [symmetric]
    by (subst extract_loop.simps)
      (simp add: h [folded d_def] s Let_def Cons.IH [OF us] unit_type_pair split: list.split)
qed

lemma has_loop_nal: "clean nal \<Longrightarrow> nal = [] \<or> last nal \<noteq> 0 \<Longrightarrow> has_loop found (nal @ rest) = has_loop found rest"
proof (induction nal)
  case (Cons b bs)
  have "code_len_at ((b # bs) @ rest) = None" using Cons.prems by (intro code_len_at_inside) simp_all
  then have "has_loop found ((b # bs) @ rest) = has_loop found (bs @ rest)" by (subst has_loop.simps) simp
  with Cons show ?case by (cases "bs = []") simp_all
qed simp

lemma has_loop_annexb:
  "good_units us \<Longrightarrow> \<not> (fst found \<and> snd found) \<Longrightarrow> has_loop found (annexb us) \<longleftrightarrow>
     (fst found \<or> (\<exists>u \<in> set us. unit_type u = 7)) \<and> (snd found \<or> (\<exists>u \<in> set us. unit_type u = 8))"
proof (induction us arbitrary: found)
  case Nil
  then show ?case by (subst has_loop.simps) simp
next
  case (Cons u us)
  obtain four nal where u: "u = (four, nal)" by (cases u)
  then have ok: "nal_ok nal" and us: "good_units us" using Cons.prems by simp_all
  have "drop (length (code four) + 1) (code four @ nal @ annexb us) = tl nal @ annexb us"
    using ok by (cases nal) (simp_all add: nal_ok_def)
  then have d: "has_loop f (drop (Suc (length (code four))) (code four @ nal @ annexb us)) = has_loop f (annexb us)" for f
    using has_loop_nal [of "tl nal" f "annexb us"] nal_ok_tl [OF ok] by simp
  define e where "e = code four @ nal @ annexb us"
  note h = unit_head(1-3) [OF ok, of four us] code_len_at_code [of four "nal @ annexb us"] d
  show ?case
    unfolding u annexb_simps e_def [symmetric]
    by (subst has_loop.simps)
      (use Cons.prems(2) in \<open>auto simp: h [folded e_def] Let_def Cons.IH [OF us] unit_type_pair\<close>)
qed

lemma keyframe_code_len_code_len: "keyframe_code_len bs = Some n \<Longrightarrow> code_len_at bs = Some n"
proof -
  assume k: "keyframe_code_len bs = Some n"
  then obtain a b c d ds where bs: "bs = a # b # c # d # ds"
    by (cases bs rule: remdups_adj.cases; cases "tl (tl bs)" rule: remdups_adj.cases) (auto simp: keyframe_code_len_def split: if_splits)
  show ?thesis using k unfolding bs
    by (auto simp: keyframe_code_len_def code_len_at_def CODE3_def CODE4_def numeral_eq_Suc split: if_splits)
qed

lemma keyframe_code_len_code:
  assumes "nal \<noteq> []"
  shows "keyframe_code_len (code four @ nal @ rest) = Some (length (code four))"
  using assms by (cases nal; cases four) (simp_all add: keyframe_code_len_def code_def CODE3_def CODE4_def numeral_eq_Suc)

lemma is_h264_keyframe_nal: "clean nal \<Longrightarrow> nal = [] \<or> last nal \<noteq> 0 \<Longrightarrow> is_h264_keyframe (nal @ rest) = is_h264_keyframe rest"
proof (induction nal)
  case (Cons b bs)
  have "code_len_at ((b # bs) @ rest) = None" using Cons.prems by (intro code_len_at_inside) simp_all
  then have "keyframe_code_len ((b # bs) @ rest) = None"
    using keyframe_code_len_code_len by (cases "keyframe_code_len ((b # bs) @ rest)") auto
  then have "is_h264_keyframe ((b # bs) @ rest) = is_h264_keyframe (bs @ rest)" by (subst is_h264_keyframe.simps) simp
  with Cons show ?case by (cases "bs = []") simp_all
qed simp

lemma is_h264_keyframe_annexb: "good_units us \<Longrightarrow> is_h264_keyframe (annexb us) \<longleftrightarrow> (\<exists>u \<in> set us. unit_type u = 5)"
proof (induction us)
  case Nil
  then show ?case by (subst is_h264_keyframe.simps) simp
next
  case (Cons u us)
  obtain four nal where u: "u = (four, nal)" by (cases u)
  then have ok: "nal_ok nal" and us: "good_units us" using Cons.prems by simp_all
  have "nal \<noteq> []" using ok by (simp add: nal_ok_def)
  have d: "is_h264_keyframe (drop (length (code four)) (code four @ nal @ annexb us)) = is_h264_keyframe (annexb us)"
    using is_h264_keyframe_nal [of nal "annexb us"] ok by (simp add: nal_ok_def)
  define e where "e = code four @ nal @ annexb us"
  note h = unit_head(1-3) [OF ok, of four us] keyframe_code_len_code [OF \<open>nal \<noteq> []\<close>, of four "annexb us"] d
  show ?case
    unfolding u annexb_simps e_def [symmetric]
    by (subst is_h264_keyframe.simps) (use h(2) [folded e_def, unfolded not_le] in \<open>auto simp: h [folded e_def] Cons.IH [OF us] unit_type_pair\<close>)
qed

lemma trim_zeros_ok: "nal_ok nal \<Longrightarrow> trim_zeros nal = nal"
  by (cases nal rule: rev_cases) (auto simp: trim_zeros_def nal_ok_def)

lemma split_nals_annexb: "good_units us \<Longrightarrow> split_nals (p @ annexb us) (length p) = map snd us"
proof (induction us arbitrary: p)
  case Nil
  then show ?case by (subst split_nals.simps) (simp add: find_annexb_start_code_def)
next
  case (Cons u us)
  obtain four nal where u: "u = (four, nal)" by (cases u)
  then have ok: "nal_ok nal" and us: "good_units us" using Cons.prems by simp_all
  have ne: "nal \<noteq> []" using ok by (simp add: nal_ok_def)
  let ?n = "length (code four)"
  define d where "d = p @ code four @ nal @ annexb us"
  have len: "length d = length p + ?n + length nal + length (annexb us)" by (simp add: d_def)
  have pos: "\<not> length d \<le> length p" "\<not> length d \<le> length p + ?n" unfolding len using ne by (auto simp: code_simps)
  have f1: "find_annexb_start_code d (length p) = Some (length p, ?n)"
    using pos(1) by (simp add: find_annexb_start_code_def d_def find_code_code)
  have "find_annexb_start_code d (length p + ?n) = find_code (length p + ?n + length nal) (annexb us)"
    using pos(2) find_code_nal [of nal "length p + ?n" "annexb us"] ok
    by (simp add: find_annexb_start_code_def d_def nal_ok_def)
  then have next_start: "(case find_annexb_start_code d (length p + ?n) of Some (idx, _) \<Rightarrow> idx | None \<Rightarrow> length d) = length p + ?n + length nal"
    using len by (cases us) (auto simp: find_code_code)
  have s: "slice (length p + ?n) (length nal) d = nal" by (simp add: slice_def d_def)
  have IH: "split_nals d (length p + ?n + length nal) = map snd us"
    using Cons.IH [OF us, of "p @ code four @ nal"] by (simp add: d_def add.assoc)
  show ?case
    unfolding u annexb_simps d_def [symmetric]
    by (subst split_nals.simps) (simp add: f1 pos next_start s IH trim_zeros_ok [OF ok] ne Let_def)
qed


text \<open>C35: On every stream of well-formed NAL units (\<open>nal_ok\<close>: not empty, without the bytes 0 0 0 or 0 0 1 in a row inside, not ending in a zero
  byte), with start codes of three or four bytes in any order, the five scanners
  written by hand find exactly the units: the RTSP splitter returns them all, the extractor the last SPS and
  the last PPS, the tests for parameter sets and for a key frame look at their types, and the filter drops the access
  unit delimiters (type 9) and fillers (type 12) and nothing else; if nothing would be left it returns the stream as it is. That is what the code
  does, not what the comments of \<open>strip_aud_nal_units\<close> say: by the first, SEI units (type 6) are stripped as well, and they are kept;
  by the last, the original is returned if nothing was stripped, and it is returned if everything was.\<close>

theorem annexb_scanners_agree:
  assumes "\<forall>u \<in> set us. nal_ok (snd u)"
  shows "split_annexb_nal_units (annexb us) = map snd us \<and>
    extract_sps_pps (annexb us) =
      (case map snd (filter (\<lambda>u. unit_type u = 7) us) of [] \<Rightarrow> None | xs \<Rightarrow> Some (last xs),
       case map snd (filter (\<lambda>u. unit_type u = 8) us) of [] \<Rightarrow> None | xs \<Rightarrow> Some (last xs)) \<and>
    (has_sps_pps (annexb us) \<longleftrightarrow> (\<exists>u \<in> set us. unit_type u = 7) \<and> (\<exists>u \<in> set us. unit_type u = 8)) \<and>
    (is_h264_keyframe (annexb us) \<longleftrightarrow> (\<exists>u \<in> set us. unit_type u = 5)) \<and>
    strip_aud_nal_units (annexb us) =
      (let kept = filter (\<lambda>u. unit_type u \<noteq> 9 \<and> unit_type u \<noteq> 12) us in annexb (if kept = [] then us else kept))"
proof -
  have ne: "annexb xs = [] \<longleftrightarrow> xs = []" for xs by (cases xs) (auto simp: code_simps)
  show ?thesis
    using assms split_nals_annexb [of us "[]"]
    by (simp add: split_annexb_nal_units_def extract_sps_pps_def has_sps_pps_def strip_aud_nal_units_def extract_loop_annexb
        has_loop_annexb is_h264_keyframe_annexb strip_aud_loop_annexb ne Let_def split: list.split)
qed

theorem annexb_scanners_agree_witness:
  "split_annexb_nal_units [0, 0, 0, 1, 0x67, 0x42, 0xe0, 0x1f, 0, 0, 1, 0x68, 0xce, 0, 0, 0, 1, 0x65, 0x88] =
     [[0x67, 0x42, 0xe0, 0x1f], [0x68, 0xce], [0x65, 0x88]] \<and>
   is_h264_keyframe [0, 0, 0, 1, 0x67, 0x42, 0xe0, 0x1f, 0, 0, 1, 0x68, 0xce, 0, 0, 0, 1, 0x65, 0x88]"
proof -
  have "\<forall>u \<in> set [(True, [0x67, 0x42, 0xe0, 0x1f]), (False, [0x68, 0xce]), (True, [0x65, 0x88])]. nal_ok (snd u)"
    by (simp add: nal_ok_def)
  from annexb_scanners_agree [OF this] show ?thesis by (simp add: code_def CODE3_def CODE4_def unit_type_def)
qed

end
