(* ===== verification/H265_Payloader.thy ===== *)
theory H265_Payloader
  imports Annexb
begin

text \<open>
  \<^verbatim>\<open>src/src/webrtc/h265_payloader.rs\<close>: the H.265 RTP payloader (RFC 7798), used for WebRTC and RTSP. The
  reference is a receiver that takes the payloads apart again. \<open>usize\<close> values are natural numbers, with the one
  subtraction that can wrap written out.
\<close>

definition H265_NAL_VPS :: u8 where "H265_NAL_VPS = 32"
definition H265_NAL_SPS :: u8 where "H265_NAL_SPS = 33"
definition H265_NAL_PPS :: u8 where "H265_NAL_PPS = 34"
definition H265_NAL_AUD :: u8 where "H265_NAL_AUD = 35"
definition H265_NAL_FILLER :: u8 where "H265_NAL_FILLER = 38"
definition H265_NAL_FU :: u8 where "H265_NAL_FU = 49"
definition H265_NAL_HEADER_SIZE :: nat where "H265_NAL_HEADER_SIZE = 2"
definition H265_FU_HEADER_SIZE :: nat where "H265_FU_HEADER_SIZE = 1"
definition AP_PAYLOAD_HDR :: bytes where "AP_PAYLOAD_HDR = [0x60, 0x01]"

lemmas h265_types = H265_NAL_VPS_def H265_NAL_SPS_def H265_NAL_PPS_def H265_NAL_AUD_def H265_NAL_FILLER_def H265_NAL_FU_def
lemmas h265_sizes = H265_NAL_HEADER_SIZE_def H265_FU_HEADER_SIZE_def

record h265_payloader =
  vps_nalu :: "bytes option"
  sps_nalu :: "bytes option"
  pps_nalu :: "bytes option"

definition h265_payloader_new :: h265_payloader where
  "h265_payloader_new = \<lparr>vps_nalu = None, sps_nalu = None, pps_nalu = None\<rparr>"

text \<open>\<open>next_ind\<close>: position and length of the next start code, \<open>None\<close> for \<open>(-1, -1)\<close>; the loop from index \<open>i\<close> after
  \<open>zero_count\<close> zeros.\<close>

fun next_ind_loop :: "nat \<Rightarrow> nat \<Rightarrow> bytes \<Rightarrow> (nat \<times> nat) option" where
  "next_ind_loop i zero_count [] = None"
| "next_ind_loop i zero_count (b # bs) =
     (if b = 0 then next_ind_loop (i + 1) (zero_count + 1) bs
      else if b = 1 \<and> 2 \<le> zero_count then Some (i - zero_count, zero_count + 1)
      else next_ind_loop (i + 1) 0 bs)"

definition next_ind :: "bytes \<Rightarrow> nat \<Rightarrow> (nat \<times> nat) option" where
  "next_ind nalu start = next_ind_loop start 0 (drop start nalu)"

definition get_nal_type :: "bytes \<Rightarrow> u8" where
  "get_nal_type nalu = (if length nalu < 2 then 0 else drop_bit 1 (nalu ! 0) AND 0x3F)"

definition put_u16 :: "u16 \<Rightarrow> bytes" where
  "put_u16 w = [ucast (drop_bit 8 w), ucast w]"

definition try_emit_aggregation_packet :: "nat \<Rightarrow> h265_payloader \<times> bytes list \<Rightarrow> h265_payloader \<times> bytes list" where
  "try_emit_aggregation_packet mtu sp =
     (case sp of (s, payloads) \<Rightarrow>
      case (vps_nalu s, sps_nalu s, pps_nalu s) of
        (Some vps, Some sps, Some pps) \<Rightarrow>
          let ap_size = H265_NAL_HEADER_SIZE + 2 + length vps + 2 + length sps + 2 + length pps;
              cleared = s\<lparr>vps_nalu := None, sps_nalu := None, pps_nalu := None\<rparr>
          in if mtu < ap_size then (cleared, payloads @ [vps, sps, pps])
             else (cleared, payloads @ [AP_PAYLOAD_HDR @
                     put_u16 (word_of_nat (length vps)) @ vps @
                     put_u16 (word_of_nat (length sps)) @ sps @
                     put_u16 (word_of_nat (length pps)) @ pps])
      | _ \<Rightarrow> (s, payloads))"

definition max_fragment_size :: "nat \<Rightarrow> nat" where
  "max_fragment_size mtu =
     (let overhead = H265_NAL_HEADER_SIZE + H265_FU_HEADER_SIZE
      in if mtu < overhead then mtu + 2 ^ 64 - overhead else mtu - overhead)"

text \<open>One fragmentation unit and the loop over them; the size of a fragment is positive.\<close>

definition fu_packet :: "bytes \<Rightarrow> nat \<Rightarrow> nat \<Rightarrow> bytes" where
  "fu_packet nalu offset fragment_size =
     (let nalu_payload = drop H265_NAL_HEADER_SIZE nalu;
          full_nalu_size = length nalu_payload;
          byte0 = (nalu ! 0 AND 0x81) OR push_bit 1 H265_NAL_FU;
          byte1 = nalu ! 1;
          fu_header = get_nal_type nalu;
          fu_header = (if offset = 0 then fu_header OR 0x80 else fu_header);
          fu_header = (if full_nalu_size \<le> offset + fragment_size then fu_header OR 0x40 else fu_header)
      in [byte0, byte1, fu_header] @ slice offset fragment_size nalu_payload)"

function fragment_loop :: "bytes \<Rightarrow> nat \<Rightarrow> nat \<Rightarrow> bytes list" where
  "fragment_loop nalu max_size offset =
     (let full_nalu_size = length nalu - H265_NAL_HEADER_SIZE in
      if offset < full_nalu_size \<and> 0 < max_size then
        let fragment_size = min (full_nalu_size - offset) max_size
        in fu_packet nalu offset fragment_size # fragment_loop nalu max_size (offset + fragment_size)
      else [])"
  by auto
termination
  by (relation "measure (\<lambda>(nalu, max_size, offset). length nalu - offset)") (auto simp: h265_sizes)

declare fragment_loop.simps [simp del]

definition emit_fragmented :: "bytes \<Rightarrow> nat \<Rightarrow> bytes list \<Rightarrow> bytes list" where
  "emit_fragmented nalu mtu payloads =
     (if length nalu < H265_NAL_HEADER_SIZE then payloads
      else if max_fragment_size mtu = 0 then payloads
      else if length nalu - H265_NAL_HEADER_SIZE = 0 then payloads
      else payloads @ fragment_loop nalu (max_fragment_size mtu) 0)"

definition emit :: "nat \<Rightarrow> bytes \<Rightarrow> h265_payloader \<times> bytes list \<Rightarrow> h265_payloader \<times> bytes list" where
  "emit mtu nalu sp =
     (case sp of (s, payloads) \<Rightarrow>
      if length nalu < H265_NAL_HEADER_SIZE then (s, payloads)
      else
        let nal_type = get_nal_type nalu in
        if nal_type = H265_NAL_AUD \<or> nal_type = H265_NAL_FILLER then (s, payloads)
        else if nal_type = H265_NAL_VPS then (s\<lparr>vps_nalu := Some nalu\<rparr>, payloads)
        else if nal_type = H265_NAL_SPS then (s\<lparr>sps_nalu := Some nalu\<rparr>, payloads)
        else if nal_type = H265_NAL_PPS then (s\<lparr>pps_nalu := Some nalu\<rparr>, payloads)
        else
          case try_emit_aggregation_packet mtu (s, payloads) of (s, payloads) \<Rightarrow>
          if length nalu \<le> mtu then (s, payloads @ [nalu])
          else (s, emit_fragmented nalu mtu payloads))"

lemma next_ind_loop_bounds: "next_ind_loop i z bs = Some (s, n) \<Longrightarrow> z \<le> i \<Longrightarrow> i - z \<le> s \<and> s + n \<le> i + length bs \<and> 0 < n"
proof (induction i z bs rule: next_ind_loop.induct)
  case (2 i z b bs)
  then show ?case by (fastforce split: if_splits)
qed simp

lemma next_ind_bounds: "next_ind nalu p = Some (s, n) \<Longrightarrow> p \<le> s \<and> s + n \<le> length nalu \<and> 0 < n"
  using next_ind_loop_bounds [of p 0 "drop p nalu" s n] by (cases "p \<le> length nalu") (auto simp: next_ind_def)

text \<open>The \<open>while\<close> loop of \<open>payload\<close>, with the start code found before.\<close>

function payload_loop :: "nat \<Rightarrow> bytes \<Rightarrow> nat \<times> nat \<Rightarrow> h265_payloader \<times> bytes list \<Rightarrow> h265_payloader \<times> bytes list" where
  "payload_loop mtu data ind sp =
     (let prev_start = fst ind + snd ind in
      case next_ind data prev_start of
        Some ind2 \<Rightarrow> payload_loop mtu data ind2 (emit mtu (slice prev_start (fst ind2 - prev_start) data) sp)
      | None \<Rightarrow> emit mtu (drop prev_start data) sp)"
  by auto
termination
proof (relation "measure (\<lambda>(mtu, data, ind, sp). length data - (fst ind + snd ind))", goal_cases)
  case (2 mtu data ind sp prev_start ind2)
  then show ?case using next_ind_bounds [of data prev_start "fst ind2" "snd ind2"] by auto
qed simp

declare payload_loop.simps [simp del]

definition payload :: "nat \<Rightarrow> bytes \<Rightarrow> h265_payloader \<Rightarrow> bytes list \<times> h265_payloader" where
  "payload mtu data s =
     (if data = [] \<or> mtu = 0 then ([], s)
      else case (case next_ind data 0 of None \<Rightarrow> emit mtu data (s, []) | Some ind \<Rightarrow> payload_loop mtu data ind (s, [])) of
        (s, payloads) \<Rightarrow> (payloads, s))"

lemma byte_cases: "(n :: nat) < 8 \<Longrightarrow> n = 0 \<or> n = 1 \<or> n = 2 \<or> n = 3 \<or> n = 4 \<or> n = 5 \<or> n = 6 \<or> n = 7"
  by arith

lemma byte_eqI: "(\<And>n. n \<in> {0, 1, 2, 3, 4, 5, 6, 7} \<Longrightarrow> bit (a :: u8) n = bit b n) \<Longrightarrow> a = b"
  by (rule bit_word_eqI) (use byte_cases in auto)

lemma fu_bits:
  fixes b :: u8
  defines "t \<equiv> drop_bit 1 b AND 0x3F"
  shows "drop_bit 1 ((b AND 0x81) OR push_bit 1 H265_NAL_FU) AND 0x3F = 49"
    and "(((b AND 0x81) OR push_bit 1 H265_NAL_FU) AND 0x81) OR push_bit 1 t = b"
    and "t AND 0x3F = t" and "(t OR 0x80) AND 0x3F = t" and "(t OR 0x40) AND 0x3F = t" and "((t OR 0x80) OR 0x40) AND 0x3F = t"
    and "t AND 0x80 = 0" and "(t OR 0x80) AND 0x80 = 0x80" and "(t OR 0x40) AND 0x80 = 0" and "((t OR 0x80) OR 0x40) AND 0x80 = 0x80"
    and "t AND 0x40 = 0" and "(t OR 0x80) AND 0x40 = 0" and "(t OR 0x40) AND 0x40 = 0x40" and "((t OR 0x80) OR 0x40) AND 0x40 = 0x40"
  unfolding t_def H265_NAL_FU_def
  by (rule byte_eqI; elim insertE emptyE; simp add: bit_simps bit_double_iff eval_nat_numeral mult.commute [of "drop_bit (Suc 0) b" 2])+

section \<open>The receiver\<close>

text \<open>A receiver as RFC 7798 describes it: aggregation packets are taken apart, fragmentation units are put
  together from the one with the start bit to the one with the end bit, everything else is a NAL unit. Its state
  is the unit being put together and the units received.\<close>

type_synonym receiver = "bytes option \<times> bytes list"

function split_ap :: "bytes \<Rightarrow> bytes list" where
  "split_ap bs =
     (if length bs < 2 then []
      else let n = 256 * unat (bs ! 0) + unat (bs ! 1) in take n (drop 2 bs) # split_ap (drop n (drop 2 bs)))"
  by auto
termination by (relation "measure length") auto

declare split_ap.simps [simp del]

definition recv :: "bytes \<Rightarrow> receiver \<Rightarrow> receiver" where
  "recv p r =
     (case r of (acc, out) \<Rightarrow>
      if get_nal_type p = 48 then (None, out @ split_ap (drop 2 p))
      else if get_nal_type p = 49 then
        let fu = p ! 2;
            acc = (if fu AND 0x80 \<noteq> 0 then Some ([(p ! 0 AND 0x81) OR push_bit 1 (fu AND 0x3F), p ! 1] @ drop 3 p)
                   else map_option (\<lambda>a. a @ drop 3 p) acc)
        in if fu AND 0x40 \<noteq> 0 then (None, out @ (case acc of Some a \<Rightarrow> [a] | None \<Rightarrow> [])) else (acc, out)
      else (None, out @ [p]))"

definition receive :: "bytes list \<Rightarrow> receiver \<Rightarrow> receiver" where
  "receive ps r = fold recv ps r"

lemma receive_simps [simp]:
  "receive [] r = r" "receive (p # ps) r = receive ps (recv p r)" "receive (ps @ qs) r = receive qs (receive ps r)"
  by (simp_all add: receive_def)

text \<open>What the sender means to transmit: parameter sets are kept, and sent together before the next
  unit of another kind; delimiters, fillers and units without a header are dropped.\<close>

definition forward :: "bytes \<Rightarrow> h265_payloader \<Rightarrow> h265_payloader \<times> bytes list" where
  "forward nal s =
     (if length nal < 2 \<or> get_nal_type nal \<in> {35, 38} then (s, [])
      else if get_nal_type nal = 32 then (s\<lparr>vps_nalu := Some nal\<rparr>, [])
      else if get_nal_type nal = 33 then (s\<lparr>sps_nalu := Some nal\<rparr>, [])
      else if get_nal_type nal = 34 then (s\<lparr>pps_nalu := Some nal\<rparr>, [])
      else case (vps_nalu s, sps_nalu s, pps_nalu s) of
        (Some v, Some p, Some q) \<Rightarrow> (h265_payloader_new, [v, p, q, nal])
      | _ \<Rightarrow> (s, [nal]))"

text \<open>Fragments.\<close>

lemma recv_fu:
  assumes "2 \<le> length nalu" and "off < length nalu - 2" and "0 < k" and "off + k \<le> length nalu - 2"
    and "off = 0 \<or> acc = Some (take (2 + off) nalu)"
  shows "recv (fu_packet nalu off k) (acc, out) =
    (if off + k = length nalu - 2 then (None, out @ [nalu]) else (Some (take (2 + (off + k)) nalu), out))"
proof -
  define p where "p = fu_packet nalu off k"
  define b where "b = nalu ! 0"
  define t where "t = drop_bit 1 b AND 0x3F"
  define fu where "fu = (let t = (if off = 0 then t OR 0x80 else t) in if length nalu - 2 \<le> off + k then t OR 0x40 else t)"
  have p: "p = [(b AND 0x81) OR push_bit 1 H265_NAL_FU, nalu ! 1, fu] @ slice off k (drop 2 nalu)"
    using assms(1) by (simp add: p_def fu_packet_def Let_def h265_sizes get_nal_type_def fu_def b_def t_def)
  have ty: "get_nal_type p = 49" unfolding p get_nal_type_def using fu_bits(1) by simp
  have s: "fu AND 0x80 \<noteq> 0 \<longleftrightarrow> off = 0" "fu AND 0x40 \<noteq> 0 \<longleftrightarrow> length nalu - 2 \<le> off + k" "fu AND 0x3F = t"
    using fu_bits(3-14) [of b] by (auto simp: Let_def fu_def t_def)
  have hd: "take 2 nalu = [b, nalu ! 1]"
    using assms(1) by (cases nalu; cases "tl nalu") (auto simp: numeral_2_eq_2 b_def)
  have restored: "[(p ! 0 AND 0x81) OR push_bit 1 (fu AND 0x3F), p ! 1] @ drop 3 p = take 2 nalu @ slice off k (drop 2 nalu)"
    unfolding s(3) hd using fu_bits(2) [of b] by (simp add: p t_def)
  have fields: "p ! 2 = fu" "drop 3 p = slice off k (drop 2 nalu)" by (simp_all add: p)
  have app: "take (2 + off) nalu @ slice off k (drop 2 nalu) = take (2 + (off + k)) nalu"
    using take_add [of "2 + off" k nalu] by (simp add: slice_def add.assoc add.commute)
  have acc: "(if fu AND 0x80 \<noteq> 0 then Some ([(p ! 0 AND 0x81) OR push_bit 1 (fu AND 0x3F), p ! 1] @ drop 3 p)
      else map_option (\<lambda>a. a @ drop 3 p) acc) = Some (take (2 + (off + k)) nalu)"
    unfolding restored unfolding s(1) fields(2) using assms(5) app by (cases "off = 0") simp_all
  have "length nalu - 2 \<le> off + k \<longleftrightarrow> off + k = length nalu - 2" using assms(4) by auto
  moreover have "take (2 + (off + k)) nalu = nalu" if "off + k = length nalu - 2" using that assms(1) by simp
  ultimately show ?thesis
    unfolding p_def [symmetric] recv_def prod.case ty fields(1) Let_def acc s(2) by simp
qed


lemma receive_fragments:
  assumes "2 \<le> length nalu" and "0 < m"
  shows "off < length nalu - 2 \<Longrightarrow> off = 0 \<or> acc = Some (take (2 + off) nalu) \<Longrightarrow>
    receive (fragment_loop nalu m off) (acc, out) = (None, out @ [nalu])"
proof (induction "length nalu - off" arbitrary: off acc rule: less_induct)
  case less
  define k where "k = min (length nalu - 2 - off) m"
  have k: "0 < k" "off + k \<le> length nalu - 2" using less.prems(1) assms(2) by (auto simp: k_def)
  have loop: "fragment_loop nalu m off = fu_packet nalu off k # fragment_loop nalu m (off + k)"
    using less.prems(1) assms(2) by (subst fragment_loop.simps) (simp add: Let_def h265_sizes k_def)
  show ?case
  proof (cases "off + k = length nalu - 2")
    case True
    then have "fragment_loop nalu m (off + k) = []" by (subst fragment_loop.simps) (simp add: Let_def h265_sizes)
    then show ?thesis using recv_fu [OF assms(1) less.prems(1) k less.prems(2)] True by (simp add: loop)
  next
    case False
    have "receive (fragment_loop nalu m (off + k)) (Some (take (2 + (off + k)) nalu), out) = (None, out @ [nalu])"
      using k False by (intro less.hyps) auto
    then show ?thesis using recv_fu [OF assms(1) less.prems(1) k less.prems(2)] False by (simp add: loop)
  qed
qed

lemma fragment_lengths:
  assumes "2 \<le> length nalu"
  shows "p \<in> set (fragment_loop nalu m off) \<Longrightarrow> length p \<le> 3 + m"
proof (induction nalu m off rule: fragment_loop.induct)
  case (1 nalu m off)
  then show ?case
    by (subst (asm) (2) fragment_loop.simps)
      (auto simp: Let_def fu_packet_def slice_def h265_sizes split: if_splits)
qed

text \<open>Aggregation.\<close>

lemma put_u16_value:
  assumes "n < 65536"
  shows "256 * unat (put_u16 (word_of_nat n) ! 0) + unat (put_u16 (word_of_nat n) ! 1) = n"
proof -
  have "n div 256 mod 256 = n div 256" using assms by (simp add: less_mult_imp_div_less)
  then show ?thesis
    using assms by (simp add: put_u16_def unat_of_nat unat_div unsigned_drop_bit_eq drop_bit_eq_div take_bit_eq_mod unsigned_ucast_eq)
qed

lemma split_ap_unit:
  assumes "length u < 65536"
  shows "split_ap (put_u16 (word_of_nat (length u)) @ u @ rest) = u # split_ap rest"
  using put_u16_value [OF assms] by (subst split_ap.simps) (simp add: put_u16_def Let_def)

lemma split_ap_Nil [simp]: "split_ap [] = []"
  by (subst split_ap.simps) simp

text \<open>Parameter sets in the cache are what their names say.\<close>

definition sets_ok :: "h265_payloader \<Rightarrow> bool" where
  "sets_ok s \<longleftrightarrow> (\<forall>v. vps_nalu s = Some v \<longrightarrow> get_nal_type v = 32) \<and> (\<forall>v. sps_nalu s = Some v \<longrightarrow> get_nal_type v = 33) \<and>
     (\<forall>v. pps_nalu s = Some v \<longrightarrow> get_nal_type v = 34)"

lemma recv_single: "get_nal_type p < 48 \<Longrightarrow> recv p (acc, out) = (None, out @ [p])"
  by (auto simp: recv_def)

lemma aggregation_ok:
  assumes "sets_ok s" and "mtu < 65536"
  shows "\<exists>qs. try_emit_aggregation_packet mtu (s, ps) =
      (if vps_nalu s \<noteq> None \<and> sps_nalu s \<noteq> None \<and> pps_nalu s \<noteq> None then h265_payloader_new else s, ps @ qs) \<and>
    receive qs (None, out) = (None, out @ (case (vps_nalu s, sps_nalu s, pps_nalu s) of (Some v, Some p, Some q) \<Rightarrow> [v, p, q] | _ \<Rightarrow> [])) \<and>
    (\<forall>q \<in> set qs. length q \<le> mtu \<or> get_nal_type q \<in> {32, 33, 34})"
proof (cases "vps_nalu s \<noteq> None \<and> sps_nalu s \<noteq> None \<and> pps_nalu s \<noteq> None")
  case True
  then obtain v p q where s: "vps_nalu s = Some v" "sps_nalu s = Some p" "pps_nalu s = Some q" by auto
  have t: "get_nal_type v = 32" "get_nal_type p = 33" "get_nal_type q = 34" using assms(1) s by (simp_all add: sets_ok_def)
  have cleared: "s\<lparr>vps_nalu := None, sps_nalu := None, pps_nalu := None\<rparr> = h265_payloader_new"
    by (cases s) (simp add: h265_payloader_new_def)
  let ?body = "put_u16 (word_of_nat (length v)) @ v @ put_u16 (word_of_nat (length p)) @ p @ put_u16 (word_of_nat (length q)) @ q"
  show ?thesis
  proof (cases "mtu < 8 + length v + length p + length q")
    case True
    then have "try_emit_aggregation_packet mtu (s, ps) = (h265_payloader_new, ps @ [v, p, q])"
      using cleared by (simp add: try_emit_aggregation_packet_def s Let_def h265_sizes)
    then show ?thesis using t by (intro exI [of _ "[v, p, q]"]) (simp add: s recv_single)
  next
    case False
    then have e: "try_emit_aggregation_packet mtu (s, ps) = (h265_payloader_new, ps @ [AP_PAYLOAD_HDR @ ?body])"
      using cleared by (simp add: try_emit_aggregation_packet_def s Let_def h265_sizes)
    have l: "length v < 65536" "length p < 65536" "length q < 65536" using False assms(2) by simp_all
    have "split_ap ?body = [v, p, q]"
      using split_ap_unit [OF l(1)] split_ap_unit [OF l(2)] split_ap_unit [OF l(3), of "[]"] by simp
    moreover have "get_nal_type (AP_PAYLOAD_HDR @ ?body) = 48" by (simp add: get_nal_type_def AP_PAYLOAD_HDR_def)
    moreover have "length (AP_PAYLOAD_HDR @ ?body) \<le> mtu" using False by (simp add: AP_PAYLOAD_HDR_def put_u16_def)
    moreover have "drop 2 (AP_PAYLOAD_HDR @ ?body) = ?body" by (simp add: AP_PAYLOAD_HDR_def)
    ultimately show ?thesis using e
      by (intro exI [of _ "[AP_PAYLOAD_HDR @ ?body]"]) (simp add: s recv_def)
  qed
next
  case False
  then have "try_emit_aggregation_packet mtu (s, ps) = (s, ps)"
    by (auto simp: try_emit_aggregation_packet_def split: option.split)
  then show ?thesis using False by (intro exI [of _ "[]"]) (auto split: option.split)
qed

lemma emit_ok:
  assumes "sets_ok s" and "4 \<le> mtu" "mtu < 65536" and "get_nal_type nal < 48"
  shows "\<exists>qs. emit mtu nal (s, ps) = (fst (forward nal s), ps @ qs) \<and> sets_ok (fst (forward nal s)) \<and>
    receive qs (None, out) = (None, out @ snd (forward nal s)) \<and> (\<forall>q \<in> set qs. length q \<le> mtu \<or> get_nal_type q \<in> {32, 33, 34})"
proof (cases "length nal < 2 \<or> get_nal_type nal \<in> {32, 33, 34, 35, 38}")
  case True
  then have "emit mtu nal (s, ps) = (fst (forward nal s), ps @ []) \<and> sets_ok (fst (forward nal s)) \<and> snd (forward nal s) = []"
    using assms(1) by (auto simp: emit_def forward_def h265_types h265_sizes Let_def sets_ok_def)
  then show ?thesis by (intro exI [of _ "[]"]) simp
next
  case False
  define s' where "s' = (if vps_nalu s \<noteq> None \<and> sps_nalu s \<noteq> None \<and> pps_nalu s \<noteq> None then h265_payloader_new else s)"
  define sets where "sets = (case (vps_nalu s, sps_nalu s, pps_nalu s) of (Some v, Some p, Some q) \<Rightarrow> [v, p, q] | _ \<Rightarrow> [])"
  obtain qs where qs: "try_emit_aggregation_packet mtu (s, ps) = (s', ps @ qs)"
    "receive qs (None, out) = (None, out @ sets)" "\<forall>q \<in> set qs. length q \<le> mtu \<or> get_nal_type q \<in> {32, 33, 34}"
    using aggregation_ok [OF assms(1,3), of ps out] unfolding s'_def sets_def by blast
  have fwd: "forward nal s = (s', sets @ [nal])"
    using False by (auto simp: forward_def s'_def sets_def split: option.split)
  have ok: "sets_ok s'" using assms(1) by (auto simp: s'_def sets_ok_def h265_payloader_new_def)
  have e: "emit mtu nal (s, ps) = (if length nal \<le> mtu then (s', ps @ qs @ [nal]) else (s', emit_fragmented nal mtu (ps @ qs)))"
    using False qs(1) by (simp add: emit_def h265_types h265_sizes Let_def)
  show ?thesis
  proof (cases "length nal \<le> mtu")
    case True
    then show ?thesis using e fwd ok qs(2,3) recv_single [OF assms(4)] by (intro exI [of _ "qs @ [nal]"]) auto
  next
    case big: False
    define m where "m = max_fragment_size mtu"
    have m: "m = mtu - 3" "0 < m" using assms(2) by (simp_all add: m_def max_fragment_size_def h265_sizes)
    have n: "2 \<le> length nal" "0 < length nal - 2" using big assms(2) by simp_all
    have "emit_fragmented nal mtu (ps @ qs) = ps @ qs @ fragment_loop nal m 0"
      using n m by (simp add: emit_fragmented_def h265_sizes m_def)
    moreover have "receive (fragment_loop nal m 0) (None, out @ sets) = (None, (out @ sets) @ [nal])"
      by (rule receive_fragments [OF n(1) m(2) n(2)]) simp
    moreover have "length p \<le> mtu" if "p \<in> set (fragment_loop nal m 0)" for p
      using fragment_lengths [OF n(1) that] m(1) assms(2) by simp
    ultimately show ?thesis using e big fwd ok qs(2,3) by (intro exI [of _ "qs @ fragment_loop nal m 0"]) auto
  qed
qed

section \<open>Whole frames\<close>

lemma clean_append: "clean (xs @ ys) \<Longrightarrow> clean ys"
  by (induction xs) auto

lemma next_ind_loop_nal:
  "clean (replicate z 0 @ nal) \<Longrightarrow> nal \<noteq> [] \<Longrightarrow> last nal \<noteq> 0 \<Longrightarrow>
     next_ind_loop i z (nal @ rest) = next_ind_loop (i + length nal) 0 rest"
proof (induction nal arbitrary: i z)
  case (Cons b bs)
  consider "b = 0" | "b = 1" "2 \<le> z" | "b \<noteq> 0" "\<not> (b = 1 \<and> 2 \<le> z)" by blast
  then show ?case
  proof cases
    case 1
    then have "clean (replicate (z + 1) 0 @ bs)" using Cons.prems(1) by (simp add: replicate_app_Cons_same)
    moreover have "bs \<noteq> []" using 1 Cons.prems(3) by auto
    ultimately show ?thesis using 1 Cons.prems(3) by (simp add: Cons.IH)
  next
    case 2
    then have "replicate z 0 @ b # bs = replicate (z - 2) 0 @ [0, 0, 1] @ bs"
      by (metis One_nat_def append.assoc append_Cons append_Nil le_add_diff_inverse2 numeral_2_eq_2 replicate_0 replicate_Suc replicate_add)
    then have "clean ([0, 0, 1] @ bs)" using Cons.prems(1) clean_append by metis
    then show ?thesis by simp
  next
    case 3
    have "clean (b # bs)" using Cons.prems(1) by (rule clean_append)
    then have "clean (replicate 0 0 @ bs)" by simp
    from Cons.IH [OF this] show ?thesis using 3 Cons.prems(3) by (cases "bs = []") auto
  qed
qed simp

lemma next_ind_loop_code: "next_ind_loop i 0 (code four @ bs) = Some (i, length (code four))"
  by (cases four) (simp_all add: code_def CODE3_def CODE4_def)

lemma next_ind_nal:
  assumes "nal_ok nal"
  shows "next_ind (p @ nal @ annexb us) (length p) =
    (case us of [] \<Rightarrow> None | (four, nal') # us \<Rightarrow> Some (length p + length nal, length (code four)))"
  using next_ind_loop_nal [of 0 nal "length p" "annexb us"] assms
  by (cases us) (auto simp: next_ind_def nal_ok_def next_ind_loop_code)

lemma payload_loop_annexb:
  "nal_ok nal \<Longrightarrow> good_units us \<Longrightarrow>
     payload_loop mtu (p @ nal @ annexb us) (a, n) sp = fold (emit mtu) (nal # map snd us) sp" if "a + n = length p"
  using that
proof (induction us arbitrary: p nal a n sp)
  case Nil
  then show ?case using next_ind_nal [of nal p "[]"] by (subst payload_loop.simps) (simp add: Let_def)
next
  case (Cons u us)
  obtain four nal' where u: "u = (four, nal')" by (cases u)
  have d: "p @ nal @ annexb (u # us) = (p @ nal @ code four) @ nal' @ annexb us" by (simp add: u)
  have "payload_loop mtu (p @ nal @ annexb (u # us)) (length p + length nal, length (code four)) sp' =
      fold (emit mtu) (nal' # map snd us) sp'" for sp'
    unfolding d using Cons.prems u by (intro Cons.IH) simp_all
  moreover have "next_ind (p @ nal @ annexb (u # us)) (length p) = Some (length p + length nal, length (code four))"
    using next_ind_nal [of nal p "u # us"] Cons.prems(1) u by simp
  moreover have "slice (length p) (length nal) (p @ nal @ annexb (u # us)) = nal" by (simp add: slice_def)
  ultimately show ?case
    using Cons.prems(3) u by (subst payload_loop.simps) (simp add: Let_def)
qed

lemma payload_annexb:
  assumes "good_units us" and "us \<noteq> []" and "mtu \<noteq> 0"
  shows "payload mtu (annexb us) s = (case fold (emit mtu) (map snd us) (s, []) of (s, payloads) \<Rightarrow> (payloads, s))"
proof -
  obtain four nal us' where us: "us = (four, nal) # us'" using assms(2) by (metis list.exhaust surj_pair)
  have "next_ind (annexb us) 0 = Some (0, length (code four))"
    unfolding us by (simp add: next_ind_def next_ind_loop_code)
  moreover have "payload_loop mtu (code four @ nal @ annexb us') (0, length (code four)) (s, []) = fold (emit mtu) (nal # map snd us') (s, [])"
    using assms(1) us by (intro payload_loop_annexb) simp_all
  ultimately show ?thesis using assms(3) code_simps(4) [of four] unfolding us by (simp add: payload_def)
qed

text \<open>All units of a frame.\<close>

fun forward_all :: "bytes list \<Rightarrow> h265_payloader \<Rightarrow> h265_payloader \<times> bytes list" where
  "forward_all [] s = (s, [])"
| "forward_all (nal # nals) s =
     (case forward nal s of (s, xs) \<Rightarrow> case forward_all nals s of (s, ys) \<Rightarrow> (s, xs @ ys))"

lemma emit_all_ok:
  assumes "4 \<le> mtu" "mtu < 65536"
  shows "sets_ok s \<Longrightarrow> \<forall>nal \<in> set nals. get_nal_type nal < 48 \<Longrightarrow>
    \<exists>qs. fold (emit mtu) nals (s, ps) = (fst (forward_all nals s), ps @ qs) \<and> sets_ok (fst (forward_all nals s)) \<and>
      receive qs (None, out) = (None, out @ snd (forward_all nals s)) \<and>
      (\<forall>q \<in> set qs. length q \<le> mtu \<or> get_nal_type q \<in> {32, 33, 34})"
proof (induction nals arbitrary: s ps out)
  case Nil
  then show ?case by (intro exI [of _ "[]"]) simp
next
  case (Cons nal nals)
  obtain s1 xs where f: "forward nal s = (s1, xs)" by (cases "forward nal s")
  obtain qs where qs: "emit mtu nal (s, ps) = (s1, ps @ qs)" "sets_ok s1" "receive qs (None, out) = (None, out @ xs)"
    "\<forall>q \<in> set qs. length q \<le> mtu \<or> get_nal_type q \<in> {32, 33, 34}"
    using emit_ok [OF Cons.prems(1) assms, of nal ps out] Cons.prems(2) f by auto
  obtain s2 ys where g: "forward_all nals s1 = (s2, ys)" by (cases "forward_all nals s1")
  obtain rs where rs: "fold (emit mtu) nals (s1, ps @ qs) = (s2, (ps @ qs) @ rs)" "sets_ok s2"
    "receive rs (None, out @ xs) = (None, (out @ xs) @ ys)" "\<forall>q \<in> set rs. length q \<le> mtu \<or> get_nal_type q \<in> {32, 33, 34}"
    using Cons.IH [OF qs(2), of "ps @ qs" "out @ xs"] Cons.prems(2) g by auto
  show ?case using qs rs f g by (intro exI [of _ "qs @ rs"]) auto
qed

text \<open>C8: Packetizing an H.265 frame, under these conditions: the MTU is at least 4 and below 65536; every NAL unit of the frame is
  well-formed (\<open>nal_ok\<close>: not empty, without the bytes 0 0 0 or 0 0 1 in a row inside, not ending in a zero byte)
  and of a type below 48, as encoders produce them; and the parameter sets kept from earlier frames are of their types (\<open>sets_ok\<close>,
  true of a new payloader and kept by every call). Then a receiver
  that takes the payloads apart gets exactly the units that are meant to be sent, in order and unchanged, and is left
  with nothing unfinished; the payloader keeps exactly the parameter sets it did not send; and no payload is larger
  than the MTU, except parameter sets that do not fit into one aggregation packet.\<close>

theorem h265_payload_roundtrip:
  assumes "\<forall>u \<in> set us. nal_ok (snd u) \<and> get_nal_type (snd u) < 48" and "sets_ok s" and "4 \<le> mtu" and "mtu < 65536"
  shows "case payload mtu (annexb us) s of (payloads, s') \<Rightarrow>
    receive payloads (None, out) = (None, out @ snd (forward_all (map snd us) s)) \<and>
    s' = fst (forward_all (map snd us) s) \<and> sets_ok s' \<and>
    (\<forall>p \<in> set payloads. length p \<le> mtu \<or> get_nal_type p \<in> {32, 33, 34})"
proof (cases "us = []")
  case True
  then show ?thesis using assms(2) by (simp add: payload_def)
next
  case False
  then show ?thesis
    using payload_annexb [of us mtu s] emit_all_ok [OF assms(3,4,2), of "map snd us" "[]" out] assms(1,3) by auto
qed

theorem h265_payload_roundtrip_witness:
  "receive (fst (payload 4 [0, 0, 1, 0x26, 1, 7, 8, 9, 0, 0, 0, 1, 0x02, 1] h265_payloader_new)) (None, []) =
     (None, [[0x26, 1, 7, 8, 9], [0x02, 1]])"
proof -
  have "\<forall>u \<in> set [(False, [0x26, 1, 7, 8, 9]), (True, [0x02, 1])]. nal_ok (snd u) \<and> get_nal_type (snd u) < 48"
    by (simp add: nal_ok_def get_nal_type_def)
  from h265_payload_roundtrip [OF this, of h265_payloader_new 4 "[]"]
  show ?thesis
    by (simp add: sets_ok_def h265_payloader_new_def code_def CODE3_def CODE4_def forward_def get_nal_type_def split: prod.splits)
qed

end
