(* ===== verification/Rtsp_Service.thy ===== *)
theory Rtsp_Service
  imports Rust_String H265_Payloader
begin

text \<open>
  \<^verbatim>\<open>src/src/rtsp/service.rs\<close>: the RTSP server. A connection is a state machine over the events of its
  socket; what it writes is recorded in order, and the socket may stop taking writes. The RTSP and SDP
  libraries (\<open>rtsp-types\<close>, \<open>sdp-types\<close>), Base64, the H.264 payloader and the marshalling of RTP packets are
  the fields of \<open>rtsp_env\<close>.
\<close>

section \<open>Data\<close>

definition RTP_CLOCK_RATE :: u32 where "RTP_CLOCK_RATE = 90000"
definition RTP_MTU :: nat where "RTP_MTU = 1200"

datatype rtsp_codec = RtspH264 | RtspH265
datatype video_encoder_type = EncH264 | EncH265 | EncVP8 | EncVP9
datatype video_codec_type = VideoH264 | VideoVP8 | VideoVP9 | VideoH265

record rtsp_config =
  rtsp_enabled :: bool
  rtsp_bind :: rstr
  rtsp_port :: u16
  rtsp_path :: rstr
  allow_one_client :: bool
  rtsp_codec_of :: rtsp_codec
  rtsp_username :: "rstr option"
  rtsp_password :: "rstr option"

definition rtsp_config_default :: rtsp_config where
  "rtsp_config_default =
     \<lparr>rtsp_enabled = False, rtsp_bind = lit ''0.0.0.0'', rtsp_port = 8554, rtsp_path = lit ''live'',
      allow_one_client = True, rtsp_codec_of = RtspH264, rtsp_username = None, rtsp_password = None\<rparr>"

datatype rtsp_method = Options | Describe | Setup | Play | Teardown | GetParameter | SetParameter | OtherMethod rstr
datatype rtsp_version = V1_0 | V2_0

record rtsp_request =
  rq_method :: rtsp_method
  rq_uri :: rstr
  rq_version :: rtsp_version
  rq_headers :: "rstr \<Rightarrow> rstr option"

datatype rtsp_status =
    StatusOk
  | StatusBadRequest
  | StatusUnauthorized
  | StatusNotFound
  | StatusMethodNotAllowed
  | StatusNotEnoughBandwidth
  | StatusMethodNotValid
  | StatusUnsupportedTransport
  | StatusInternalServerError

record rtsp_response =
  rs_version :: rtsp_version
  rs_status :: rtsp_status
  rs_headers :: "(rstr \<times> rstr) list"
  rs_body :: rstr

record parameter_sets =
  h264_sps :: "bytes option"
  h264_pps :: "bytes option"
  h265_vps :: "bytes option"
  h265_sps :: "bytes option"
  h265_pps :: "bytes option"

definition parameter_sets_default :: parameter_sets where
  "parameter_sets_default = \<lparr>h264_sps = None, h264_pps = None, h265_vps = None, h265_sps = None, h265_pps = None\<rparr>"

record encoded_video_frame =
  frame_data :: bytes
  pts_ms :: u64
  is_keyframe :: bool
  frame_duration :: nat
  frame_codec_type :: video_encoder_type

record rtp_packet =
  rtp_marker :: bool
  rtp_payload_type :: u8
  rtp_sequence :: u16
  rtp_timestamp :: u32
  rtp_ssrc :: u32
  rtp_payload :: bytes

text \<open>The session description as it is handed to the SDP library (the constant fields left out).\<close>

record sdp_session =
  sdp_address :: rstr
  sdp_fmt :: rstr
  sdp_rtpmap :: rstr
  sdp_fmtp :: rstr

text \<open>What the libraries do: a parsed message with the bytes it took (a response or an interleaved frame is
  \<open>OtherMsg\<close>), Base64, SDP text, H.264 payloads, marshalled packets, and the number of RTP clock ticks of a
  duration, rounded in floating point.\<close>

datatype rtsp_message = RequestMsg rtsp_method "rstr option" rtsp_version "(rstr \<times> rstr) list" | OtherMsg

record 'p rtsp_env =
  env_parse :: "bytes \<Rightarrow> (rtsp_message \<times> nat) option"
  env_b64_decode :: "rstr \<Rightarrow> bytes option"
  env_b64_encode :: "bytes \<Rightarrow> rstr"
  env_sdp :: "sdp_session \<Rightarrow> bytes option"
  env_h264 :: "nat \<Rightarrow> bytes \<Rightarrow> 'p \<Rightarrow> (rstr + bytes list) \<times> 'p"
  env_marshal :: "rtp_packet \<Rightarrow> rstr + bytes"
  env_ticks :: "nat \<Rightarrow> u32"

section \<open>Requests\<close>

text \<open>\<open>find_bytes\<close>: the first window that equals the needle.\<close>

fun find_bytes :: "bytes \<Rightarrow> bytes \<Rightarrow> nat option" where
  "find_bytes [] needle = None"
| "find_bytes (b # bs) needle =
     (if take (length needle) (b # bs) = needle then Some 0 else map_option Suc (find_bytes bs needle))"

definition CRLF2 :: bytes where "CRLF2 = [13, 10, 13, 10]"

definition take_rtsp_request_from_buffer :: "bytes \<Rightarrow> (rstr \<times> bytes) option" where
  "take_rtsp_request_from_buffer buffer =
     (case find_bytes buffer CRLF2 of
        None \<Rightarrow> None
      | Some pos \<Rightarrow> let req_end = pos + length CRLF2 in Some (from_utf8_lossy (take req_end buffer), drop req_end buffer))"

definition parse_rtsp_request :: "'p rtsp_env \<Rightarrow> rstr \<Rightarrow> rtsp_request option" where
  "parse_rtsp_request env raw =
     (case env_parse env (utf8_encode raw) of
        None \<Rightarrow> None
      | Some (message, consumed) \<Rightarrow>
          if consumed \<noteq> utf8_len raw then None
          else case message of
            OtherMsg \<Rightarrow> None
          | RequestMsg method uri version headers \<Rightarrow>
              Some \<lparr>rq_method = method, rq_uri = (case uri of Some u \<Rightarrow> u | None \<Rightarrow> []), rq_version = version,
                rq_headers = fold (\<lambda>(name, v) m. m(to_ascii_lowercase name \<mapsto> v)) headers Map.empty\<rparr>)"

definition extract_basic_auth :: "'p rtsp_env \<Rightarrow> rtsp_request \<Rightarrow> (rstr \<times> rstr) option" where
  "extract_basic_auth env req =
     (case rq_headers req (lit ''authorization'') of
        None \<Rightarrow> None
      | Some v \<Rightarrow>
          (case split_whitespace v of
             scheme # b64 # _ \<Rightarrow>
               if to_ascii_lowercase scheme \<noteq> lit ''basic'' then None
               else (case env_b64_decode env b64 of
                 None \<Rightarrow> None
               | Some decoded \<Rightarrow> (case from_utf8 decoded of None \<Rightarrow> None | Some raw \<Rightarrow> split_once (lit '':'') raw))
           | _ \<Rightarrow> None))"

definition rtsp_auth_credentials :: "rtsp_config \<Rightarrow> (rstr \<times> rstr) option" where
  "rtsp_auth_credentials config =
     (case rtsp_username config of
        None \<Rightarrow> None
      | Some u \<Rightarrow>
          let username = trim u in
          if username = [] then None
          else Some (username, case rtsp_password config of Some p \<Rightarrow> p | None \<Rightarrow> []))"

definition parse_interleaved_channel :: "rstr \<Rightarrow> u8 option" where
  "parse_interleaved_channel transport =
     (case split_once (lit ''interleaved='') (to_ascii_lowercase transport) of
        None \<Rightarrow> None
      | Some (_, v) \<Rightarrow>
          let head = hd (split_on (of_char CHR '';'') v);
              first = trim (hd (split_on (of_char CHR ''-'') head))
          in parse_u8 first)"

definition is_tcp_transport_request :: "rstr \<Rightarrow> bool" where
  "is_tcp_transport_request transport =
     list_ex (\<lambda>item. str_contains item (lit ''rtp/avp/tcp'') \<or> str_contains item (lit ''interleaved=''))
       (map (to_ascii_lowercase \<circ> trim) (split_on (of_char CHR '','') transport))"

definition extract_rtsp_path :: "rstr \<Rightarrow> rstr" where
  "extract_rtsp_path uri =
     (let raw_path = (case split_once (lit ''://'') uri of
            Some (_, remainder) \<Rightarrow> (let p = dropWhile (\<lambda>c. c \<noteq> 47) remainder in if p = [] then lit ''/'' else p)
          | None \<Rightarrow> uri)
      in trim_char 47 (hd (split_on (of_char CHR ''#'') (hd (split_on (of_char CHR ''?'') raw_path)))))"

definition is_valid_rtsp_path :: "rtsp_method \<Rightarrow> rstr \<Rightarrow> rstr \<Rightarrow> bool" where
  "is_valid_rtsp_path method uri configured_path =
     (if method = Options \<and> trim uri = lit ''*'' then True
      else
        let normalized_cfg = trim_char 47 configured_path in
        if normalized_cfg = [] then False
        else
          let request_path = extract_rtsp_path uri in
          if request_path = normalized_cfg then True
          else if method \<noteq> Setup \<and> method \<noteq> Teardown then False
          else request_path = lit ''trackID=0'' \<or> request_path = normalized_cfg @ lit ''/trackID=0'')"

section \<open>Session descriptions\<close>

definition join_str :: "rstr \<Rightarrow> rstr list \<Rightarrow> rstr" where
  "join_str sep ws = concat (case ws of [] \<Rightarrow> [] | w # ws \<Rightarrow> w # map (\<lambda>w. sep @ w) ws)"

definition build_h264_fmtp :: "'p rtsp_env \<Rightarrow> u8 \<Rightarrow> parameter_sets \<Rightarrow> rstr" where
  "build_h264_fmtp env payload_type params =
     (let attrs = [lit ''packetization-mode=1''];
          attrs = attrs @ (case h264_sps params of
              Some sps \<Rightarrow> (case parse_profile_level_id_from_sps sps of
                 Some profile_level_id \<Rightarrow> [lit ''profile-level-id='' @ lit profile_level_id] | None \<Rightarrow> [])
            | None \<Rightarrow> [lit ''profile-level-id=42e01f'']);
          attrs = attrs @ (case (h264_sps params, h264_pps params) of
              (Some sps, Some pps) \<Rightarrow> [lit ''sprop-parameter-sets='' @ env_b64_encode env sps @ lit '','' @ env_b64_encode env pps]
            | _ \<Rightarrow> [])
      in lit (nat_to_string (unat payload_type)) @ lit '' '' @ join_str (lit '';'') attrs)"

definition build_h265_fmtp :: "'p rtsp_env \<Rightarrow> u8 \<Rightarrow> parameter_sets \<Rightarrow> rstr" where
  "build_h265_fmtp env payload_type params =
     (let attr = (\<lambda>name set. case set of Some bs \<Rightarrow> [name @ env_b64_encode env bs] | None \<Rightarrow> []);
          attrs = attr (lit ''sprop-vps='') (h265_vps params) @ attr (lit ''sprop-sps='') (h265_sps params) @
            attr (lit ''sprop-pps='') (h265_pps params);
          pt = lit (nat_to_string (unat payload_type))
      in if attrs = [] then pt @ lit '' profile-id=1'' else pt @ lit '' '' @ join_str (lit '';'') attrs)"

definition build_sdp :: "'p rtsp_env \<Rightarrow> rtsp_config \<Rightarrow> video_codec_type \<Rightarrow> parameter_sets \<Rightarrow> rstr" where
  "build_sdp env config codec params =
     (let (payload_type, codec_name, fmtp_value) =
            (if codec = VideoH265 then (99 :: u8, lit ''H265'', build_h265_fmtp env 99 params)
             else (96, lit ''H264'', build_h264_fmtp env 96 params));
          pt = lit (nat_to_string (unat payload_type))
      in case env_sdp env \<lparr>sdp_address = rtsp_bind config, sdp_fmt = pt, sdp_rtpmap = pt @ lit '' '' @ codec_name @ lit ''/90000'',
             sdp_fmtp = fmtp_value\<rparr> of
           None \<Rightarrow> []
         | Some output \<Rightarrow> (case from_utf8 output of Some sdp_text \<Rightarrow> sdp_text | None \<Rightarrow> []))"

definition update_set :: "video_encoder_type \<Rightarrow> bytes \<Rightarrow> parameter_sets \<Rightarrow> parameter_sets" where
  "update_set codec nal params =
     (case codec of
        EncH264 \<Rightarrow>
          if h264_nal_type nal = Some 7 then params\<lparr>h264_sps := Some nal\<rparr>
          else if h264_nal_type nal = Some 8 then params\<lparr>h264_pps := Some nal\<rparr>
          else params
      | EncH265 \<Rightarrow>
          if h265_nal_type nal = Some 32 then params\<lparr>h265_vps := Some nal\<rparr>
          else if h265_nal_type nal = Some 33 then params\<lparr>h265_sps := Some nal\<rparr>
          else if h265_nal_type nal = Some 34 then params\<lparr>h265_pps := Some nal\<rparr>
          else params
      | _ \<Rightarrow> params)"

definition update_parameter_sets :: "encoded_video_frame \<Rightarrow> parameter_sets \<Rightarrow> parameter_sets" where
  "update_parameter_sets frame params = fold (update_set (frame_codec_type frame)) (split_annexb_nal_units (frame_data frame)) params"

section \<open>The socket\<close>

text \<open>What was written, in order, and how many more writes the socket takes (\<open>None\<close>: any number).\<close>

datatype wire = Reply rtsp_response | Raw bytes

datatype rtsp_error = RtspIo | RtspVideo rstr

record rtsp_socket =
  so_written :: "wire list"
  so_room :: "nat option"

definition write_wire :: "wire \<Rightarrow> (rtsp_socket, rtsp_error, unit) stm" where
  "write_wire w so =
     (if so_room so = Some 0 then (Inl RtspIo, so)
      else (Inr (), so\<lparr>so_written := so_written so @ [w], so_room := map_option (\<lambda>n. n - 1) (so_room so)\<rparr>))"

definition status_code_from_u16 :: "u16 \<Rightarrow> rtsp_status" where
  "status_code_from_u16 c =
     (if c = 200 then StatusOk
      else if c = 400 then StatusBadRequest
      else if c = 401 then StatusUnauthorized
      else if c = 404 then StatusNotFound
      else if c = 405 then StatusMethodNotAllowed
      else if c = 453 then StatusNotEnoughBandwidth
      else if c = 455 then StatusMethodNotValid
      else if c = 461 then StatusUnsupportedTransport
      else StatusInternalServerError)"

definition send_simple_response :: "u16 \<Rightarrow> rstr option \<Rightarrow> rstr \<Rightarrow> (rtsp_socket, rtsp_error, unit) stm" where
  "send_simple_response status cseq body =
     write_wire (Reply \<lparr>rs_version = V1_0, rs_status = status_code_from_u16 status,
       rs_headers = (case cseq of Some c \<Rightarrow> [(lit ''CSeq'', c)] | None \<Rightarrow> []), rs_body = body\<rparr>)"

definition send_response :: "rtsp_request \<Rightarrow> u16 \<Rightarrow> (rstr \<times> rstr) list \<Rightarrow> rstr \<Rightarrow> rstr \<Rightarrow> (rtsp_socket, rtsp_error, unit) stm" where
  "send_response req status extra_headers body session_id =
     (let cseq = (case rq_headers req (lit ''cseq'') of Some c \<Rightarrow> c | None \<Rightarrow> lit ''1'') in
      write_wire (Reply \<lparr>rs_version = rq_version req, rs_status = status_code_from_u16 status,
        rs_headers = [(lit ''CSeq'', cseq)] @ (if session_id = [] then [] else [(lit ''Session'', session_id)]) @ extra_headers,
        rs_body = body\<rparr>))"

section \<open>A connection before PLAY\<close>

record rtsp_connection_state =
  session_id :: rstr
  setup_done :: bool
  interleaved_channel :: u8

text \<open>A new connection, with the random number its session id is made of (\<open>{:016x}\<close>).\<close>

definition hex16 :: "u64 \<Rightarrow> rstr" where
  "hex16 w = concat (map (\<lambda>i. lit (hex2_lower (ucast (drop_bit (56 - 8 * i) w)))) [0..<8])"

definition generate_session_id :: "u64 \<Rightarrow> rstr" where
  "generate_session_id random = hex16 random"

definition connection_state_new :: "u64 \<Rightarrow> rtsp_connection_state" where
  "connection_state_new random =
     \<lparr>session_id = generate_session_id random, setup_done = False, interleaved_channel = 0\<rparr>"

text \<open>What the loop does after a request: go on, start streaming, or leave the loop.\<close>

datatype rtsp_action = NextRequest | StartStream | EndClient

type_synonym 'a rtsp_op = "(rtsp_connection_state \<times> rtsp_socket, rtsp_error, 'a) stm"

definition on_socket :: "(rtsp_socket, rtsp_error, unit) stm \<Rightarrow> rtsp_action \<Rightarrow> rtsp_action rtsp_op" where
  "on_socket f a cs = (case f (snd cs) of (Inl e, so) \<Rightarrow> (Inl e, (fst cs, so)) | (Inr _, so) \<Rightarrow> (Inr a, (fst cs, so)))"

definition codec_type :: "rtsp_codec \<Rightarrow> video_codec_type" where
  "codec_type c = (case c of RtspH264 \<Rightarrow> VideoH264 | RtspH265 \<Rightarrow> VideoH265)"

text \<open>The \<open>match\<close> on the method.\<close>

definition serve_method ::
    "'p rtsp_env \<Rightarrow> rtsp_config \<Rightarrow> parameter_sets \<Rightarrow> rtsp_request \<Rightarrow> rtsp_action rtsp_op" where
  "serve_method env cfg params req cs =
     (let st = fst cs; reply = (\<lambda>status headers body. send_response req status headers body (session_id st)) in
      case rq_method req of
        Options \<Rightarrow>
          on_socket (send_response req 200 [(lit ''Public'', lit ''OPTIONS, DESCRIBE, SETUP, PLAY, TEARDOWN'')] [] []) NextRequest cs
      | Describe \<Rightarrow>
          let sdp = build_sdp env cfg (codec_type (rtsp_codec_of cfg)) params in
          if sdp = [] then on_socket (reply 500 [] []) NextRequest cs
          else on_socket (reply 200 [(lit ''Content-Type'', lit ''application/sdp'')] sdp) NextRequest cs
      | Setup \<Rightarrow>
          let transport = (case rq_headers req (lit ''transport'') of Some t \<Rightarrow> t | None \<Rightarrow> []) in
          if \<not> is_tcp_transport_request transport
          then on_socket (reply 461 [(lit ''Transport'', lit ''RTP/AVP/TCP;unicast;interleaved=0-1'')] []) NextRequest cs
          else
            let interleaved = (case parse_interleaved_channel transport of Some c \<Rightarrow> c | None \<Rightarrow> 0);
                st = st\<lparr>setup_done := True, interleaved_channel := interleaved\<rparr>;
                next_channel = (if interleaved = 255 then 255 else interleaved + 1);
                transport_resp = lit ''RTP/AVP/TCP;unicast;interleaved='' @ lit (nat_to_string (unat interleaved)) @ lit ''-'' @
                  lit (nat_to_string (unat next_channel))
            in on_socket (reply 200 [(lit ''Transport'', transport_resp)] []) NextRequest (st, snd cs)
      | Play \<Rightarrow>
          if \<not> setup_done st then on_socket (reply 455 [] []) NextRequest cs
          else on_socket (reply 200 [] []) StartStream cs
      | Teardown \<Rightarrow> on_socket (reply 200 [] []) EndClient cs
      | _ \<Rightarrow> on_socket (reply 405 [] []) NextRequest cs)"

definition auth_ok :: "'p rtsp_env \<Rightarrow> (rstr \<times> rstr) option \<Rightarrow> rtsp_request \<Rightarrow> bool" where
  "auth_ok env expected req =
     (case expected of None \<Rightarrow> True | Some creds \<Rightarrow> extract_basic_auth env req = Some creds)"

definition serve_request ::
    "'p rtsp_env \<Rightarrow> rtsp_config \<Rightarrow> parameter_sets \<Rightarrow> rstr \<Rightarrow> rtsp_action rtsp_op" where
  "serve_request env cfg params req_text =
     (case parse_rtsp_request env req_text of
        None \<Rightarrow> on_socket (send_simple_response 400 None []) NextRequest
      | Some req \<Rightarrow>
          if \<not> is_valid_rtsp_path (rq_method req) (rq_uri req) (rtsp_path cfg)
          then on_socket (send_response req 404 [] [] []) NextRequest
          else if \<not> auth_ok env (rtsp_auth_credentials cfg) req
          then on_socket (send_response req 401 [(lit ''WWW-Authenticate'', lit ''Basic realm=\"One-KVM RTSP\"'')] [] []) NextRequest
          else serve_method env cfg params req)"

lemma find_bytes_bound: "find_bytes bs d = Some p \<Longrightarrow> p + length d \<le> length bs"
proof (induction bs d arbitrary: p rule: find_bytes.induct)
  case (2 b bs d)
  show ?case
  proof (cases "take (length d) (b # bs) = d")
    case True
    then have "min (length (b # bs)) (length d) = length d" by (metis length_take min.commute)
    then show ?thesis using True 2(2) by simp
  qed (use 2 in \<open>auto split: if_splits\<close>)
qed simp

lemma take_request_shrinks: "take_rtsp_request_from_buffer bs = Some (t, rest) \<Longrightarrow> length rest < length bs"
  using find_bytes_bound [of bs CRLF2] by (fastforce simp: take_rtsp_request_from_buffer_def Let_def CRLF2_def split: option.splits)

text \<open>The inner loop: the requests in the buffer, and what is left of it.\<close>

function serve_buffer ::
    "'p rtsp_env \<Rightarrow> rtsp_config \<Rightarrow> parameter_sets \<Rightarrow> bytes \<Rightarrow> (rtsp_action \<times> bytes) rtsp_op" where
  "serve_buffer env cfg params buffer cs =
     (case take_rtsp_request_from_buffer buffer of
        None \<Rightarrow> (Inr (NextRequest, buffer), cs)
      | Some (req_text, rest) \<Rightarrow>
          (case serve_request env cfg params req_text cs of
             (Inl e, cs) \<Rightarrow> (Inl e, cs)
           | (Inr NextRequest, cs) \<Rightarrow> serve_buffer env cfg params rest cs
           | (Inr a, cs) \<Rightarrow> (Inr (a, rest), cs)))"
  by pat_completeness auto
termination
  by (relation "measure (\<lambda>(env, cfg, params, buffer, cs). length buffer)") (auto dest: take_request_shrinks)

declare serve_buffer.simps [simp del]

text \<open>The events of the socket, and the outer loop; when the events are used up, the connection waits. Leaving the loop, it
  returns the events it has not read: what is still in \<open>request_buffer\<close> then is dropped with the buffer, and the
  stream that PLAY starts reads on from the socket.\<close>

datatype client_event = Received bytes | ReadFailed

fun client_loop ::
    "'p rtsp_env \<Rightarrow> rtsp_config \<Rightarrow> parameter_sets \<Rightarrow> client_event list \<Rightarrow> bytes \<Rightarrow>
       (rtsp_action \<times> client_event list) rtsp_op" where
  "client_loop env cfg params [] buffer cs = (Inr (NextRequest, []), cs)"
| "client_loop env cfg params (ReadFailed # events) buffer cs = (Inl RtspIo, cs)"
| "client_loop env cfg params (Received bs # events) buffer cs =
     (if bs = [] then (Inr (EndClient, events), cs)
      else case serve_buffer env cfg params (buffer @ bs) cs of
        (Inl e, cs) \<Rightarrow> (Inl e, cs)
      | (Inr (NextRequest, buffer), cs) \<Rightarrow> client_loop env cfg params events buffer cs
      | (Inr (a, buffer), cs) \<Rightarrow> (Inr (a, events), cs))"

section \<open>Streaming\<close>

definition is_frame_codec_match :: "encoded_video_frame \<Rightarrow> rtsp_codec \<Rightarrow> bool" where
  "is_frame_codec_match frame codec \<longleftrightarrow>
     (frame_codec_type frame = EncH264 \<and> codec = RtspH264) \<or> (frame_codec_type frame = EncH265 \<and> codec = RtspH265)"

definition pts_to_rtp_timestamp :: "u64 \<Rightarrow> u32" where
  "pts_to_rtp_timestamp pts = (if sint pts \<le> 0 then 0 else ucast (pts * ucast RTP_CLOCK_RATE div 1000))"

definition rtp_timestamp_increment :: "'p rtsp_env \<Rightarrow> nat \<Rightarrow> u32" where
  "rtp_timestamp_increment env duration = max (env_ticks env duration) 1"

definition monotonic_rtp_timestamp :: "'p rtsp_env \<Rightarrow> u64 \<Rightarrow> u32 \<Rightarrow> nat \<Rightarrow> u32" where
  "monotonic_rtp_timestamp env pts last_ts duration =
     (let from_pts = pts_to_rtp_timestamp pts; inc = rtp_timestamp_increment env duration
      in if last_ts < from_pts then from_pts else last_ts + inc)"

definition send_interleaved_rtp :: "'p rtsp_env \<Rightarrow> u8 \<Rightarrow> rtp_packet \<Rightarrow> (rtsp_socket, rtsp_error, unit) stm" where
  "send_interleaved_rtp env channel packet =
     (case env_marshal env packet of
        Inl e \<Rightarrow> throwE (RtspVideo (lit ''RTP marshal failed: '' @ e))
      | Inr marshaled \<Rightarrow>
          let len = (word_of_nat (length marshaled) :: u16);
              header = [0x24, channel, ucast (drop_bit 8 len), ucast (len AND 0xFF)]
          in bindE (write_wire (Raw header)) (\<lambda>_. write_wire (Raw marshaled)))"

text \<open>The loop over the payloads of a frame, with the next sequence number.\<close>

fun send_payloads ::
    "'p rtsp_env \<Rightarrow> u8 \<Rightarrow> u8 \<Rightarrow> u32 \<Rightarrow> u32 \<Rightarrow> bytes list \<Rightarrow> u16 \<Rightarrow> (rtsp_socket, rtsp_error, u16) stm" where
  "send_payloads env channel payload_type ssrc timestamp [] sequence_number = returnE sequence_number"
| "send_payloads env channel payload_type ssrc timestamp (pl # payloads) sequence_number =
     bindE (send_interleaved_rtp env channel
         \<lparr>rtp_marker = (payloads = []), rtp_payload_type = payload_type, rtp_sequence = sequence_number,
          rtp_timestamp = timestamp, rtp_ssrc = ssrc, rtp_payload = pl\<rparr>)
       (\<lambda>_. send_payloads env channel payload_type ssrc timestamp payloads (sequence_number + 1))"

record 'p stream_state =
  ss_sequence :: u16
  ss_h264 :: 'p
  ss_h265 :: h265_payloader
  ss_buffer :: bytes
  ss_last :: u32
  ss_params :: parameter_sets

type_synonym ('p, 'a) stream_op = "('p stream_state \<times> rtsp_socket, rtsp_error, 'a) stm"

definition rtsp_payload_type :: "rtsp_codec \<Rightarrow> u8" where
  "rtsp_payload_type codec = (case codec of RtspH264 \<Rightarrow> 96 | RtspH265 \<Rightarrow> 99)"

definition frame_payloads ::
    "'p rtsp_env \<Rightarrow> rtsp_codec \<Rightarrow> bytes \<Rightarrow> 'p stream_state \<Rightarrow> (rtsp_error + bytes list) \<times> 'p stream_state" where
  "frame_payloads env codec data st =
     (case codec of
        RtspH264 \<Rightarrow>
          (case env_h264 env RTP_MTU data (ss_h264 st) of
             (Inl e, p) \<Rightarrow> (Inl (RtspVideo (lit ''H264 payload failed: '' @ e)), st\<lparr>ss_h264 := p\<rparr>)
           | (Inr payloads, p) \<Rightarrow> (Inr payloads, st\<lparr>ss_h264 := p\<rparr>))
      | RtspH265 \<Rightarrow> (case payload RTP_MTU data (ss_h265 st) of (payloads, p) \<Rightarrow> (Inr payloads, st\<lparr>ss_h265 := p\<rparr>)))"

definition stream_frame :: "'p rtsp_env \<Rightarrow> rtsp_codec \<Rightarrow> u8 \<Rightarrow> u32 \<Rightarrow> encoded_video_frame \<Rightarrow> ('p, unit) stream_op" where
  "stream_frame env codec channel ssrc frame ss =
     (case ss of (st, so) \<Rightarrow>
      if \<not> is_frame_codec_match frame codec then (Inr (), (st, so))
      else
        let ts = monotonic_rtp_timestamp env (pts_ms frame) (ss_last st) (frame_duration frame);
            st = st\<lparr>ss_params := update_parameter_sets frame (ss_params st), ss_last := ts\<rparr>
        in case frame_payloads env codec (frame_data frame) st of
             (Inl e, st) \<Rightarrow> (Inl e, (st, so))
           | (Inr payloads, st) \<Rightarrow>
               if payloads = [] then (Inr (), (st, so))
               else (case send_payloads env channel (rtsp_payload_type codec) ssrc ts payloads (ss_sequence st) so of
                 (Inl e, so) \<Rightarrow> (Inl e, (st, so))
               | (Inr sequence_number, so) \<Rightarrow> (Inr (), (st\<lparr>ss_sequence := sequence_number\<rparr>, so))))"

section \<open>Requests while streaming\<close>

definition handle_play_control_request :: "rtsp_request \<Rightarrow> rstr \<Rightarrow> (rtsp_socket, rtsp_error, bool) stm" where
  "handle_play_control_request req session =
     (case rq_method req of
        Teardown \<Rightarrow> bindE (send_response req 200 [] [] session) (\<lambda>_. returnE True)
      | Options \<Rightarrow> bindE (send_response req 200
          [(lit ''Public'', lit ''OPTIONS, DESCRIBE, SETUP, PLAY, GET_PARAMETER, SET_PARAMETER, TEARDOWN'')] [] session) (\<lambda>_. returnE False)
      | GetParameter \<Rightarrow> bindE (send_response req 200 [] [] session) (\<lambda>_. returnE False)
      | SetParameter \<Rightarrow> bindE (send_response req 200 [] [] session) (\<lambda>_. returnE False)
      | _ \<Rightarrow> bindE (send_response req 405 [] [] session) (\<lambda>_. returnE False))"

text \<open>\<open>strip_interleaved_frames_prefix\<close>: the buffer without its first frame, if there is a whole one.\<close>

definition strip_interleaved_frames_prefix :: "bytes \<Rightarrow> bytes option" where
  "strip_interleaved_frames_prefix buffer =
     (if length buffer < 4 \<or> buffer ! 0 \<noteq> 0x24 then None
      else
        let payload_len = 256 * unat (buffer ! 2) + unat (buffer ! 3); frame_len = 4 + payload_len
        in if length buffer < frame_len then None else Some (drop frame_len buffer))"

function strip_all :: "bytes \<Rightarrow> bytes" where
  "strip_all buffer = (case strip_interleaved_frames_prefix buffer of None \<Rightarrow> buffer | Some rest \<Rightarrow> strip_all rest)"
  by auto
termination
  by (relation "measure length") (auto simp: strip_interleaved_frames_prefix_def Let_def split: if_splits)

declare strip_all.simps [simp del]

lemma strip_all_length: "length (strip_all buffer) \<le> length buffer"
proof (induction buffer rule: strip_all.induct)
  case (1 buffer)
  then show ?case
    by (subst strip_all.simps)
      (fastforce simp: strip_interleaved_frames_prefix_def Let_def split: option.split if_splits)
qed

text \<open>The loop over the requests; \<open>True\<close> ends the stream. The state is the buffer and the socket.\<close>

function serve_control :: "'p rtsp_env \<Rightarrow> rstr \<Rightarrow> bytes \<Rightarrow> (rtsp_socket, rtsp_error, bool \<times> bytes) stm" where
  "serve_control env session buffer so =
     (case take_rtsp_request_from_buffer buffer of
        None \<Rightarrow> (Inr (False, buffer), so)
      | Some (raw_req, rest) \<Rightarrow>
          (case parse_rtsp_request env raw_req of
             None \<Rightarrow> serve_control env session rest so
           | Some req \<Rightarrow>
               (case handle_play_control_request req session so of
                  (Inl e, so) \<Rightarrow> (Inl e, so)
                | (Inr stop, so) \<Rightarrow> if stop then (Inr (True, rest), so) else serve_control env session (strip_all rest) so)))"
  by pat_completeness auto
termination
  by (relation "measure (\<lambda>(env, session, buffer, so). length buffer)")
    (auto dest!: take_request_shrinks intro: le_less_trans [OF strip_all_length])

declare serve_control.simps [simp del]

datatype stream_event = Frame encoded_video_frame | FramesEnded | Control bytes | ControlFailed

text \<open>The \<open>select\<close> loop; \<open>True\<close> when the client ended the stream, \<open>False\<close> when it waits for more events. When the
  frames end, the subscription is renewed or tried again later.\<close>

fun stream_loop ::
    "'p rtsp_env \<Rightarrow> rtsp_codec \<Rightarrow> u8 \<Rightarrow> u32 \<Rightarrow> rstr \<Rightarrow> stream_event list \<Rightarrow> ('p, bool) stream_op" where
  "stream_loop env codec channel ssrc session [] ss = (Inr False, ss)"
| "stream_loop env codec channel ssrc session (Frame frame # events) ss =
     (case stream_frame env codec channel ssrc frame ss of
        (Inl e, ss) \<Rightarrow> (Inl e, ss)
      | (Inr _, ss) \<Rightarrow> stream_loop env codec channel ssrc session events ss)"
| "stream_loop env codec channel ssrc session (FramesEnded # events) ss = stream_loop env codec channel ssrc session events ss"
| "stream_loop env codec channel ssrc session (ControlFailed # events) ss = (Inl RtspIo, ss)"
| "stream_loop env codec channel ssrc session (Control bs # events) (st, so) =
     (if bs = [] then (Inr True, (st, so))
      else case serve_control env session (strip_all (ss_buffer st @ bs)) so of
        (Inl e, so) \<Rightarrow> (Inl e, (st, so))
      | (Inr (True, buffer), so) \<Rightarrow> (Inr True, (st\<lparr>ss_buffer := buffer\<rparr>, so))
      | (Inr (False, buffer), so) \<Rightarrow> stream_loop env codec channel ssrc session events (st\<lparr>ss_buffer := buffer\<rparr>, so))"

definition stream_video_interleaved ::
    "'p rtsp_env \<Rightarrow> rtsp_codec \<Rightarrow> u8 \<Rightarrow> rstr \<Rightarrow> u16 \<Rightarrow> u32 \<Rightarrow> 'p \<Rightarrow> parameter_sets \<Rightarrow> stream_event list \<Rightarrow>
       rtsp_socket \<Rightarrow> (rtsp_error + bool) \<times> 'p stream_state \<times> rtsp_socket" where
  "stream_video_interleaved env codec channel session sequence_number ssrc h264 params events so =
     stream_loop env codec channel ssrc session events
       (\<lparr>ss_sequence = sequence_number, ss_h264 = h264, ss_h265 = h265_payloader_new, ss_buffer = [], ss_last = 0,
         ss_params = params\<rparr>, so)"

section \<open>A client\<close>

text \<open>The one-client rule: who may be served, and giving the place back.\<close>

definition claim_client :: "rtsp_config \<Rightarrow> 'a \<Rightarrow> 'a option \<Rightarrow> bool \<times> 'a option" where
  "claim_client cfg peer active =
     (if allow_one_client cfg then
        (case active of
           Some a \<Rightarrow> (a = peer, active)
         | None \<Rightarrow> (True, Some peer))
      else (True, active))"

definition release_client :: "rtsp_config \<Rightarrow> 'a \<Rightarrow> 'a option \<Rightarrow> 'a option" where
  "release_client cfg peer active = (if allow_one_client cfg \<and> active = Some peer then None else active)"

text \<open>What became of a connection: refused, ended by an error that left \<open>handle_client\<close> early, finished, or still open
  (waiting for a request, or streaming).\<close>

datatype client_result = Refused | Failed rtsp_error | Finished | Waiting

text \<open>The serving part, once the connection is admitted. The stream gets the events of the socket that are left.\<close>

definition serve_client ::
    "'p rtsp_env \<Rightarrow> rtsp_config \<Rightarrow> parameter_sets \<Rightarrow> u64 \<Rightarrow> client_event list \<Rightarrow>
      (rtsp_connection_state \<Rightarrow> client_event list \<Rightarrow> rtsp_socket \<Rightarrow> (rtsp_error + bool) \<times> rtsp_socket) \<Rightarrow>
      rtsp_socket \<Rightarrow> client_result \<times> rtsp_socket" where
  "serve_client env cfg params random events stream so =
     (case client_loop env cfg params events [] (connection_state_new random, so) of
        (Inl e, (st, so)) \<Rightarrow> (Failed e, so)
      | (Inr (NextRequest, _), (st, so)) \<Rightarrow> (Waiting, so)
      | (Inr (EndClient, _), (st, so)) \<Rightarrow> (Finished, so)
      | (Inr (StartStream, later), (st, so)) \<Rightarrow>
          (case stream st later so of
             (Inr False, so) \<Rightarrow> (Waiting, so)
           | (_, so) \<Rightarrow> (Finished, so)))"

text \<open>The end of \<open>handle_client\<close>: reached by leaving the loop, while an error returns before it.\<close>

definition after_client :: "rtsp_config \<Rightarrow> 'a \<Rightarrow> client_result \<Rightarrow> 'a option \<Rightarrow> 'a option" where
  "after_client cfg peer r active = (case r of Finished \<Rightarrow> release_client cfg peer active | _ \<Rightarrow> active)"

definition handle_client ::
    "'p rtsp_env \<Rightarrow> rtsp_config \<Rightarrow> parameter_sets \<Rightarrow> 'a \<Rightarrow> u64 \<Rightarrow> client_event list \<Rightarrow>
      (rtsp_connection_state \<Rightarrow> client_event list \<Rightarrow> rtsp_socket \<Rightarrow> (rtsp_error + bool) \<times> rtsp_socket) \<Rightarrow>
      'a option \<Rightarrow> rtsp_socket \<Rightarrow> client_result \<times> 'a option \<times> rtsp_socket" where
  "handle_client env cfg params peer random events stream active so =
     (case claim_client cfg peer active of (admitted, active) \<Rightarrow>
      if \<not> admitted then
        (case send_simple_response 453 None (lit ''another client is active'') so of
           (Inl e, so) \<Rightarrow> (Failed e, active, so)
         | (Inr _, so) \<Rightarrow> (Refused, active, so))
      else
        (case serve_client env cfg params random events stream so of
           (r, so) \<Rightarrow> (r, after_client cfg peer r active, so)))"

section \<open>Requests in a byte stream\<close>

lemma find_bytes_append: "find_bytes bs d = Some p \<Longrightarrow> find_bytes (bs @ r) d = Some p"
proof (induction bs d arbitrary: p rule: find_bytes.induct)
  case (2 b bs d)
  show ?case
  proof (cases "take (length d) (b # bs) = d")
    case True
    then have "length d \<le> length (b # bs)" by (metis length_take min.cobounded1)
    then have "take (length d) ((b # bs) @ r) = take (length d) (b # bs)" by (simp only: take_append) simp
    then have "take (length d) ((b # bs) @ r) = d" using True by simp
    then show ?thesis using 2(2) True by simp
  next
    case False
    then obtain q where q: "find_bytes bs d = Some q" "p = Suc q" using 2(2) by auto
    from find_bytes_bound [OF q(1)] have "length d \<le> length (b # bs)" by simp
    then have "take (length d) ((b # bs) @ r) = take (length d) (b # bs)" by (simp only: take_append) simp
    then show ?thesis using 2(1) [OF False q(1)] False q(2) by simp
  qed
qed simp

lemma length_CRLF2: "length CRLF2 = 4"
  by (simp add: CRLF2_def)

lemma take_request_append:
  assumes "take_rtsp_request_from_buffer bs = Some (t, rest)"
  shows "take_rtsp_request_from_buffer (bs @ r) = Some (t, rest @ r)"
proof -
  obtain p where p: "find_bytes bs CRLF2 = Some p" "t = from_utf8_lossy (take (p + 4) bs)" "rest = drop (p + 4) bs"
    using assms by (auto simp: take_rtsp_request_from_buffer_def Let_def length_CRLF2 split: option.splits)
  have "p + 4 \<le> length bs" using find_bytes_bound [OF p(1)] by (simp add: length_CRLF2)
  then show ?thesis using find_bytes_append [OF p(1), of r] p by (simp add: take_rtsp_request_from_buffer_def Let_def length_CRLF2)
qed

text \<open>The text of a request: it ends with the first empty line.\<close>

definition request_text :: "rstr \<Rightarrow> bool" where
  "request_text t \<longleftrightarrow> (\<forall>c \<in> set t. is_scalar_value c) \<and> 4 \<le> length (utf8_encode t) \<and>
     find_bytes (utf8_encode t) CRLF2 = Some (length (utf8_encode t) - 4)"

interpretation requests: frame_codec utf8_encode take_rtsp_request_from_buffer request_text
proof unfold_locales
  fix t rest assume t: "request_text t"
  then have "find_bytes (utf8_encode t @ rest) CRLF2 = Some (length (utf8_encode t) - 4)"
    by (intro find_bytes_append) (simp add: request_text_def)
  then show "take_rtsp_request_from_buffer (utf8_encode t @ rest) = Some (t, rest)"
    using t from_utf8_lossy_encode [of t] by (simp add: take_rtsp_request_from_buffer_def Let_def length_CRLF2 request_text_def)
next
  fix t p q assume t: "request_text t" "utf8_encode t = p @ q" "q \<noteq> []"
  show "take_rtsp_request_from_buffer p = None"
  proof (cases "find_bytes p CRLF2")
    case None
    then show ?thesis by (simp add: take_rtsp_request_from_buffer_def)
  next
    case (Some k)
    then have "k = length (p @ q) - 4" using find_bytes_append [OF Some, of q] t by (simp add: request_text_def)
    moreover have "k + 4 \<le> length p" using find_bytes_bound [OF Some] by (simp add: length_CRLF2)
    ultimately show ?thesis using t(3) by (cases q) simp_all
  qed
qed

text \<open>Bytes that arrive later change nothing about the requests that are complete.\<close>

lemma serve_buffer_append:
  "serve_buffer env cfg params (bs @ r) cs =
     (case serve_buffer env cfg params bs cs of
        (Inl e, cs) \<Rightarrow> (Inl e, cs)
      | (Inr (NextRequest, rest), cs) \<Rightarrow> serve_buffer env cfg params (rest @ r) cs
      | (Inr (a, rest), cs) \<Rightarrow> (Inr (a, rest @ r), cs))"
proof (induction env cfg params bs cs rule: serve_buffer.induct)
  case (1 env cfg params bs cs)
  show ?case
  proof (cases "take_rtsp_request_from_buffer bs")
    case None
    then have "serve_buffer env cfg params bs cs = (Inr (NextRequest, bs), cs)" by (subst serve_buffer.simps) simp
    then show ?thesis by simp
  next
    case (Some tr)
    obtain t rest where tr: "tr = (t, rest)" by (cases tr)
    note t = Some [unfolded tr] take_request_append [OF Some [unfolded tr], of r]
    obtain res cs1 where s: "serve_request env cfg params t cs = (res, cs1)" by (cases "serve_request env cfg params t cs")
    have IH: "res = Inr NextRequest \<Longrightarrow> ?thesis"
    proof -
      assume n: "res = Inr NextRequest"
      have "serve_buffer env cfg params (rest @ r) cs1 = (case serve_buffer env cfg params rest cs1 of
          (Inl e, cs) \<Rightarrow> (Inl e, cs)
        | (Inr (NextRequest, rest), cs) \<Rightarrow> serve_buffer env cfg params (rest @ r) cs
        | (Inr (a, rest), cs) \<Rightarrow> (Inr (a, rest @ r), cs))"
        by (rule 1 [OF Some tr [symmetric] s [symmetric] n refl])
      moreover have "serve_buffer env cfg params (bs @ r) cs = serve_buffer env cfg params (rest @ r) cs1"
        "serve_buffer env cfg params bs cs = serve_buffer env cfg params rest cs1"
        using t s n by (subst serve_buffer.simps, simp)+
      ultimately show ?thesis by simp
    qed
    show ?thesis
    proof (cases "res = Inr NextRequest")
      case False
      have "serve_buffer env cfg params (bs @ r) cs = (case res of Inl e \<Rightarrow> (Inl e, cs1) | Inr a \<Rightarrow> (Inr (a, rest @ r), cs1))"
        using t(2) s False by (subst serve_buffer.simps) (auto split: sum.splits rtsp_action.splits)
      moreover have "serve_buffer env cfg params bs cs = (case res of Inl e \<Rightarrow> (Inl e, cs1) | Inr a \<Rightarrow> (Inr (a, rest), cs1))"
        using t(1) s False by (subst serve_buffer.simps) (auto split: sum.splits rtsp_action.splits)
      ultimately show ?thesis using False by (auto split: sum.splits rtsp_action.splits)
    qed (rule IH)
  qed
qed

lemma find_bytes_take: "find_bytes (bs @ r) d = Some p \<Longrightarrow> p + length d \<le> length bs \<Longrightarrow> d \<noteq> [] \<Longrightarrow> find_bytes bs d = Some p"
proof (induction bs d arbitrary: p rule: find_bytes.induct)
  case (2 b bs d)
  have "length d \<le> length (b # bs)" using 2(3) by simp
  then have same: "take (length d) ((b # bs) @ r) = take (length d) (b # bs)" by (simp only: take_append) simp
  show ?case
  proof (cases "take (length d) (b # bs) = d")
    case True
    then show ?thesis using 2(2) same by simp
  next
    case False
    then have "take (length d) (b # (bs @ r)) \<noteq> d" using same by simp
    then obtain q where q: "find_bytes (bs @ r) d = Some q" "p = Suc q" using 2(2) by auto
    then show ?thesis using 2(1) [OF False q(1)] False 2(3,4) by simp
  qed
qed simp

lemma no_request: "take_rtsp_request_from_buffer [] = None"
  by code_simp

lemma take_request_later:
  assumes "take_rtsp_request_from_buffer buffer = None" and "take_rtsp_request_from_buffer (buffer @ c) = Some (t, rest)"
  shows "\<exists>pre. c = pre @ rest"
proof -
  obtain p where p: "find_bytes (buffer @ c) CRLF2 = Some p" "rest = drop (p + 4) (buffer @ c)"
    using assms(2) by (auto simp: take_rtsp_request_from_buffer_def Let_def length_CRLF2 split: option.splits)
  have "length buffer \<le> p + 4"
  proof (rule ccontr)
    assume short: "\<not> length buffer \<le> p + 4"
    have "find_bytes buffer CRLF2 = Some p" using find_bytes_take [OF p(1)] short by (simp add: length_CRLF2 CRLF2_def)
    then show False using assms(1) by (simp add: take_rtsp_request_from_buffer_def Let_def)
  qed
  then have "rest = drop (p + 4 - length buffer) c" using p(2) by simp
  then show ?thesis by (metis append_take_drop_id)
qed

lemma serve_buffer_rest:
  "serve_buffer env cfg params bs cs = (Inr (a, rest), cs') \<Longrightarrow>
     (a = NextRequest \<longrightarrow> take_rtsp_request_from_buffer rest = None) \<and>
     (a \<noteq> NextRequest \<longrightarrow> (\<exists>t r. take_rtsp_request_from_buffer bs = Some (t, r) \<and> (\<exists>pre. r = pre @ rest)))"
proof (induction env cfg params bs cs rule: serve_buffer.induct)
  case (1 env cfg params bs cs)
  show ?case
  proof (cases "take_rtsp_request_from_buffer bs")
    case None
    then show ?thesis using 1(2) by (subst (asm) serve_buffer.simps) auto
  next
    case (Some tr)
    obtain t r where tr: "tr = (t, r)" by (cases tr)
    obtain res cs1 where s: "serve_request env cfg params t cs = (res, cs1)" by (cases "serve_request env cfg params t cs")
    show ?thesis
    proof (cases "res = Inr NextRequest")
      case True
      have "serve_buffer env cfg params r cs1 = (Inr (a, rest), cs')"
        using 1(2) Some tr s True by (subst (asm) serve_buffer.simps) simp
      note IH = 1(1) [OF Some tr [symmetric] s [symmetric] True refl this]
      have "a = NextRequest \<longrightarrow> take_rtsp_request_from_buffer rest = None" using IH by blast
      moreover have "\<exists>pre. r = pre @ rest" if a: "a \<noteq> NextRequest"
      proof -
        obtain t' r' pre where r': "take_rtsp_request_from_buffer r = Some (t', r')" "r' = pre @ rest" using IH a by blast
        then obtain pre' where "r = pre' @ r'" using take_request_later [of "[]" r] no_request by auto
        then show ?thesis using r'(2) by (metis append_assoc)
      qed
      ultimately show ?thesis using Some tr by auto
    next
      case False
      then show ?thesis using 1(2) Some tr s by (subst (asm) serve_buffer.simps) (auto split: sum.splits rtsp_action.splits)
    qed
  qed
qed

text \<open>What the loop does with chunks: as if all the bytes had come at once, but for those that follow the request that ends the
  loop in the same read: the rest of the loop does not see them.\<close>

lemma client_loop_chunks:
  assumes "chunks \<noteq> []" and "[] \<notin> set chunks" and "take_rtsp_request_from_buffer buffer = None"
  shows "case serve_buffer env cfg params (buffer @ concat chunks) cs of
     (Inl e, cs') \<Rightarrow> client_loop env cfg params (map Received chunks) buffer cs = (Inl e, cs')
   | (Inr (a, unread), cs') \<Rightarrow>
       (case a of
          NextRequest \<Rightarrow> client_loop env cfg params (map Received chunks) buffer cs = (Inr (NextRequest, []), cs')
        | _ \<Rightarrow> (\<exists>before pre lost later. chunks = before @ (pre @ lost) # later \<and> unread = lost @ concat later \<and>
                 client_loop env cfg params (map Received chunks) buffer cs = (Inr (a, map Received later), cs')))"
  using assms
proof (induction chunks arbitrary: buffer cs)
  case (Cons c cs')
  obtain res cs1 where s: "serve_buffer env cfg params (buffer @ c) cs = (res, cs1)" by (cases "serve_buffer env cfg params (buffer @ c) cs")
  have c: "c \<noteq> []" using Cons.prems(2) by auto
  note app = serve_buffer_append [of env cfg params "buffer @ c" "concat cs'" cs, unfolded s append_assoc]
  show ?case
  proof (cases res)
    case (Inl e)
    then show ?thesis using c s app by simp
  next
    case (Inr ar)
    obtain a rest where ar: "ar = (a, rest)" by (cases ar)
    note rest = serve_buffer_rest [OF s [unfolded Inr ar]]
    show ?thesis
    proof (cases "a = NextRequest")
      case True
      then have "take_rtsp_request_from_buffer rest = None" using rest by simp
      note IH = Cons.IH [OF _ _ this, of cs1]
      show ?thesis
      proof (cases "cs' = []")
        case nil: True
        have "serve_buffer env cfg params rest cs1 = (Inr (NextRequest, rest), cs1)"
          using \<open>take_rtsp_request_from_buffer rest = None\<close> by (subst serve_buffer.simps) simp
        then show ?thesis using c s app Inr ar True nil by simp
      next
        case False
        have step: "client_loop env cfg params (map Received (c # cs')) buffer cs = client_loop env cfg params (map Received cs') rest cs1"
          using c s Inr ar True by simp
        have all: "serve_buffer env cfg params (buffer @ concat (c # cs')) cs = serve_buffer env cfg params (rest @ concat cs') cs1"
          using app Inr ar True by simp
        from IH False Cons.prems show ?thesis unfolding step all
          by (auto split: sum.splits prod.splits rtsp_action.splits) (metis append_Cons)+
      qed
    next
      case False
      obtain t r pre where r: "take_rtsp_request_from_buffer (buffer @ c) = Some (t, r)" "r = pre @ rest" using rest False by blast
      obtain pre' where c': "c = pre' @ r" using take_request_later [OF Cons.prems(3) r(1)] by blast
      have loop: "client_loop env cfg params (map Received (c # cs')) buffer cs = (Inr (a, map Received cs'), cs1)"
        using c s Inr ar False by (auto split: rtsp_action.splits)
      have all: "serve_buffer env cfg params (buffer @ concat (c # cs')) cs = (Inr (a, rest @ concat cs'), cs1)"
        using app Inr ar False by (auto split: rtsp_action.splits)
      have "\<exists>before p lost later. c # cs' = before @ (p @ lost) # later \<and> rest @ concat cs' = lost @ concat later \<and> cs' = later"
        by (intro exI [of _ "[]"] exI [of _ "pre' @ pre"] exI [of _ rest] exI [of _ cs']) (simp add: c' r)
      then have "\<exists>before p lost later. c # cs' = before @ (p @ lost) # later \<and> rest @ concat cs' = lost @ concat later \<and>
          (Inr (a, map Received cs'), cs1) = (Inr (a, map Received later), cs1)" by blast
      then show ?thesis unfolding loop all using False by (cases a) simp_all
    qed
  qed
qed simp

text \<open>C40: How TCP cuts the client's bytes makes no difference to the replies, the connection state and the outcome: received in
  any non-empty pieces, they have the same as received at once. The one difference is after PLAY: of the bytes that a whole read would leave unread,
  those that came in the same piece as the end of the PLAY request are lost to the stream, and the pieces
  not read yet are the stream's to read.\<close>

theorem rtsp_chunk_independent:
  assumes "chunks \<noteq> []" and "[] \<notin> set chunks"
  shows "(case (client_loop env cfg params (map Received chunks) [] cs, client_loop env cfg params [Received (concat chunks)] [] cs) of
      ((r, cs1), (r', cs2)) \<Rightarrow> cs1 = cs2 \<and> map_sum id fst r = map_sum id fst r') \<and>
    (case serve_buffer env cfg params (concat chunks) cs of
       (Inr (StartStream, unread), cs') \<Rightarrow>
         \<exists>before pre lost later. chunks = before @ (pre @ lost) # later \<and> unread = lost @ concat later \<and>
           client_loop env cfg params (map Received chunks) [] cs = (Inr (StartStream, map Received later), cs')
     | _ \<Rightarrow> True)"
proof -
  have whole: "concat chunks \<noteq> []" using assms by (cases chunks) auto
  note some = client_loop_chunks [OF assms no_request, of env cfg params cs]
  have "[concat chunks] \<noteq> []" "[] \<notin> set [concat chunks]" using whole by auto
  note one = client_loop_chunks [OF this no_request, of env cfg params cs]
  obtain res cs1 where s: "serve_buffer env cfg params (concat chunks) cs = (res, cs1)" by (cases "serve_buffer env cfg params (concat chunks) cs")
  show ?thesis
  proof (cases res)
    case (Inl e)
    then show ?thesis using some one s by simp
  next
    case (Inr ar)
    obtain a unread where ar: "ar = (a, unread)" by (cases ar)
    show ?thesis using some one s Inr ar by (cases a) (fastforce)+
  qed
qed

definition sample_env :: "unit rtsp_env" where
  "sample_env = \<lparr>env_parse = (\<lambda>bs. Some (RequestMsg (if hd bs = 80 then Play else Setup) (Some (lit ''rtsp://h/live'')) V1_0
       [(lit ''Transport'', lit ''interleaved=2'')], length bs)),
     env_b64_decode = (\<lambda>s. None), env_b64_encode = (\<lambda>bs. []), env_sdp = (\<lambda>s. None), env_h264 = (\<lambda>m bs p. (Inr [bs], p)),
     env_marshal = (\<lambda>p. Inr (rtp_payload p)), env_ticks = (\<lambda>d. 3000)\<rparr>"

theorem rtsp_chunk_independent_witness:
  "snd (client_loop sample_env rtsp_config_default parameter_sets_default (map Received [[83, 13], [10, 13, 10, 80], [13, 10, 13, 10, 7]]) []
     (connection_state_new 0, \<lparr>so_written = [], so_room = None\<rparr>)) =
   snd (client_loop sample_env rtsp_config_default parameter_sets_default [Received [83, 13, 10, 13, 10, 80, 13, 10, 13, 10, 7]] []
     (connection_state_new 0, \<lparr>so_written = [], so_room = None\<rparr>))"
proof -
  have whole: "concat [[83, 13], [10, 13, 10, 80], [13, 10, 13, 10, 7 :: u8]] = [83, 13, 10, 13, 10, 80, 13, 10, 13, 10, 7]" by simp
  show ?thesis
    using rtsp_chunk_independent [of "[[83, 13], [10, 13, 10, 80], [13, 10, 13, 10, 7]]" sample_env rtsp_config_default parameter_sets_default
      "(connection_state_new 0, \<lparr>so_written = [], so_room = None\<rparr>)", unfolded whole, THEN conjunct1]
    by (simp add: case_prod_beta del: client_loop.simps list.map)
qed

section \<open>Who may watch\<close>

function request_texts :: "bytes \<Rightarrow> rstr list" where
  "request_texts bs = (case take_rtsp_request_from_buffer bs of None \<Rightarrow> [] | Some (t, rest) \<Rightarrow> t # request_texts rest)"
  by auto
termination by (relation "measure length") (auto dest: take_request_shrinks)

declare request_texts.simps [simp del]

text \<open>Requests sent back to back are found in order.\<close>

lemma request_texts_frames: "\<forall>t \<in> set ts. request_text t \<Longrightarrow> request_texts (concat (map utf8_encode ts)) = ts"
proof (induction ts)
  case Nil
  then show ?case by (subst request_texts.simps) (simp add: take_rtsp_request_from_buffer_def)
next
  case (Cons t ts)
  then show ?case using requests.dec_enc [of t "concat (map utf8_encode ts)"] by (subst request_texts.simps) simp
qed

text \<open>A request that passes the path and the password.\<close>

definition granted :: "'p rtsp_env \<Rightarrow> rtsp_config \<Rightarrow> rtsp_method \<Rightarrow> rtsp_request \<Rightarrow> bool" where
  "granted env cfg method req \<longleftrightarrow> rq_method req = method \<and> is_valid_rtsp_path method (rq_uri req) (rtsp_path cfg) \<and>
     auth_ok env (rtsp_auth_credentials cfg) req"

definition transport_of :: "rtsp_request \<Rightarrow> rstr" where
  "transport_of req = (case rq_headers req (lit ''transport'') of Some t \<Rightarrow> t | None \<Rightarrow> [])"

definition setup_by :: "'p rtsp_env \<Rightarrow> rtsp_config \<Rightarrow> rstr set \<Rightarrow> rtsp_connection_state \<Rightarrow> bool" where
  "setup_by env cfg T st \<longleftrightarrow> (\<exists>t \<in> T. \<exists>req. parse_rtsp_request env t = Some req \<and> granted env cfg Setup req \<and>
     is_tcp_transport_request (transport_of req) \<and>
     interleaved_channel st = (case parse_interleaved_channel (transport_of req) of Some c \<Rightarrow> c | None \<Rightarrow> 0))"

lemma setup_by_mono: "setup_by env cfg T st \<Longrightarrow> T \<subseteq> T' \<Longrightarrow> setup_by env cfg T' st"
  by (auto simp: setup_by_def)

lemma on_socket_result: "on_socket f a cs = (r, (st, so)) \<Longrightarrow> st = fst cs \<and> (r = Inr a \<or> (\<exists>e. r = Inl e))"
  by (auto simp: on_socket_def split: prod.splits sum.splits)

lemma serve_method_result:
  assumes "serve_method env cfg params req (st, so) = (r, (st', so'))"
  shows "st' = st \<or> (rq_method req = Setup \<and> is_tcp_transport_request (transport_of req) \<and>
      interleaved_channel st' = (case parse_interleaved_channel (transport_of req) of Some c \<Rightarrow> c | None \<Rightarrow> 0))"
    and "r = Inr StartStream \<Longrightarrow> rq_method req = Play \<and> setup_done st'"
  using assms
  by (cases "rq_method req"; force simp: serve_method_def Let_def transport_of_def split: if_splits dest!: on_socket_result)+

lemma serve_request_guard:
  assumes s: "serve_request env cfg params t (st, so) = (r, (st', so'))"
  shows "st' = st \<or> setup_by env cfg {t} st'"
    and "r = Inr StartStream \<Longrightarrow> setup_done st' \<and> (\<exists>req. parse_rtsp_request env t = Some req \<and> granted env cfg Play req)"
proof -
  have "(st' = st \<or> setup_by env cfg {t} st') \<and>
      (r = Inr StartStream \<longrightarrow> setup_done st' \<and> (\<exists>req. parse_rtsp_request env t = Some req \<and> granted env cfg Play req))"
  proof (cases "parse_rtsp_request env t")
    case None
    then show ?thesis using s on_socket_result by (fastforce simp: serve_request_def)
  next
    case (Some req)
    show ?thesis
    proof (cases "is_valid_rtsp_path (rq_method req) (rq_uri req) (rtsp_path cfg) \<and> auth_ok env (rtsp_auth_credentials cfg) req")
      case True
      then have "serve_method env cfg params req (st, so) = (r, (st', so'))" using s Some by (simp add: serve_request_def)
      note m = serve_method_result [OF this]
      show ?thesis using m True Some unfolding setup_by_def granted_def by auto
    next
      case False
      then show ?thesis using s Some by (fastforce simp: serve_request_def dest!: on_socket_result split: if_splits)
    qed
  qed
  then show "st' = st \<or> setup_by env cfg {t} st'"
    "r = Inr StartStream \<Longrightarrow> setup_done st' \<and> (\<exists>req. parse_rtsp_request env t = Some req \<and> granted env cfg Play req)" by blast+
qed

lemma serve_buffer_guard:
  assumes "serve_buffer env cfg params bs (st, so) = (r, (st', so'))"
  shows "(st' = st \<or> setup_by env cfg (set (request_texts bs)) st') \<and>
    (\<forall>rest. r = Inr (StartStream, rest) \<longrightarrow> setup_done st' \<and>
      (\<exists>t \<in> set (request_texts bs). \<exists>req. parse_rtsp_request env t = Some req \<and> granted env cfg Play req))"
  using assms
proof (induction env cfg params bs "(st, so)" arbitrary: st so rule: serve_buffer.induct)
  case (1 env cfg params bs st so)
  show ?case
  proof (cases "take_rtsp_request_from_buffer bs")
    case None
    then show ?thesis using 1(2) by (subst (asm) serve_buffer.simps) auto
  next
    case (Some tr)
    obtain t rest where tr: "tr = (t, rest)" by (cases tr)
    have T: "request_texts bs = t # request_texts rest" using Some tr by (subst request_texts.simps) simp
    obtain res st1 so1 where s: "serve_request env cfg params t (st, so) = (res, (st1, so1))"
      by (metis prod.collapse)
    note g = serve_request_guard [OF s]
    show ?thesis
    proof (cases "res = Inr NextRequest")
      case True
      have "serve_buffer env cfg params rest (st1, so1) = (r, (st', so'))"
        using 1(2) Some tr s True by (subst (asm) serve_buffer.simps) simp
      from 1(1) [OF Some tr [symmetric] s [symmetric] True refl this]
      have IH: "(st' = st1 \<or> setup_by env cfg (set (request_texts rest)) st') \<and>
        (\<forall>rest'. r = Inr (StartStream, rest') \<longrightarrow> setup_done st' \<and>
          (\<exists>t \<in> set (request_texts rest). \<exists>req. parse_rtsp_request env t = Some req \<and> granted env cfg Play req))" .
      have "setup_by env cfg {t} st1 \<Longrightarrow> setup_by env cfg (set (request_texts bs)) st1"
        "setup_by env cfg (set (request_texts rest)) st' \<Longrightarrow> setup_by env cfg (set (request_texts bs)) st'"
        unfolding T by (auto elim!: setup_by_mono)
      then show ?thesis using IH g(1) unfolding T by auto
    next
      case False
      have res: "serve_buffer env cfg params bs (st, so) =
          (case res of Inl e \<Rightarrow> (Inl e, (st1, so1)) | Inr a \<Rightarrow> (Inr (a, rest), (st1, so1)))"
        using Some tr s False by (subst serve_buffer.simps) (auto split: sum.splits rtsp_action.splits)
      then have st: "st' = st1" "r = Inr (StartStream, x) \<Longrightarrow> res = Inr StartStream" for x
        using 1(2) by (auto split: sum.splits)
      have "setup_by env cfg {t} st1 \<Longrightarrow> setup_by env cfg (set (request_texts bs)) st1"
        unfolding T by (erule setup_by_mono) simp
      then show ?thesis using st g T by auto
    qed
  qed
qed

text \<open>C21: Nobody watches without permission. If a connection starts streaming, then among the requests its bytes contain there is a
  PLAY and a SETUP, both for the configured path and, when a user name is configured, both with the right
  user and password; the SETUP asked for TCP, and the channel used is the one it asked for.\<close>

theorem rtsp_play_guarded:
  assumes "client_loop env cfg params (map Received chunks) [] (connection_state_new random, so) = (Inr (StartStream, later), (st, so'))"
    and "[] \<notin> set chunks"
  shows "(\<exists>t \<in> set (request_texts (concat chunks)). \<exists>req. parse_rtsp_request env t = Some req \<and> granted env cfg Play req) \<and>
    setup_by env cfg (set (request_texts (concat chunks))) st"
proof -
  have ne: "chunks \<noteq> []" using assms(1) by (cases chunks) auto
  obtain res cs1 where s: "serve_buffer env cfg params (concat chunks) (connection_state_new random, so) = (res, cs1)"
    by (cases "serve_buffer env cfg params (concat chunks) (connection_state_new random, so)")
  note all = client_loop_chunks [OF ne assms(2) no_request, of env cfg params "(connection_state_new random, so)", unfolded append_Nil s]
  have "cs1 = (st, so') \<and> (\<exists>rest. res = Inr (StartStream, rest))"
  proof (cases res)
    case (Inr ar)
    obtain a rest where "ar = (a, rest)" by (cases ar)
    then show ?thesis using all assms(1) Inr by (cases a) auto
  qed (use all assms(1) in simp)
  then obtain rest where
    "serve_buffer env cfg params (concat chunks) (connection_state_new random, so) = (Inr (StartStream, rest), (st, so'))"
    using s by auto
  from serve_buffer_guard [OF this] show ?thesis by (auto simp: connection_state_new_def)
qed

text \<open>A SETUP and a PLAY with the sample parser, in one piece.\<close>

lemmas sample_simps = lit_def to_ascii_lowercase_def trim_def is_whitespace_def str_contains_def parse_u8_def

lemma sample_requests:
  "take_rtsp_request_from_buffer [83, 13, 10, 13, 10, 80, 13, 10, 13, 10] = Some ([83, 13, 10, 13, 10], [80, 13, 10, 13, 10])"
  "take_rtsp_request_from_buffer [80, 13, 10, 13, 10] = Some ([80, 13, 10, 13, 10], [])"
  "take_rtsp_request_from_buffer [] = None"
  by code_simp+

definition sample_request :: "rtsp_method \<Rightarrow> rtsp_request" where
  "sample_request m = \<lparr>rq_method = m, rq_uri = lit ''rtsp://h/live'', rq_version = V1_0,
     rq_headers = [lit ''transport'' \<mapsto> lit ''interleaved=2'']\<rparr>"

lemma sample_parse:
  "parse_rtsp_request sample_env [83, 13, 10, 13, 10] = Some (sample_request Setup)"
  "parse_rtsp_request sample_env [80, 13, 10, 13, 10] = Some (sample_request Play)"
  by (simp_all add: parse_rtsp_request_def sample_request_def sample_env_def utf8_encode_def utf8_encode1_def utf8_len_def
      utf8_width_def sample_simps)

lemma sample_checks:
  "is_valid_rtsp_path Setup (rq_uri (sample_request Setup)) (rtsp_path rtsp_config_default)"
  "is_valid_rtsp_path Play (rq_uri (sample_request Play)) (rtsp_path rtsp_config_default)"
  "is_tcp_transport_request (lit ''interleaved=2'')"
  "auth_ok env (rtsp_auth_credentials rtsp_config_default) req"
  by (simp_all add: is_valid_rtsp_path_def extract_rtsp_path_def trim_char_def is_tcp_transport_request_def sample_simps
      sample_request_def rtsp_config_default_def auth_ok_def rtsp_auth_credentials_def)

lemma sample_methods: "rq_method (sample_request m) = m" "rq_headers (sample_request m) (lit ''transport'') = Some (lit ''interleaved=2'')"
  by (simp_all add: sample_request_def)

lemma reply_free: "so_room so = None \<Longrightarrow> \<exists>so'. on_socket (send_response req c hs b i) a (st, so) = (Inr a, (st, so')) \<and> so_room so' = None"
  by (simp add: on_socket_def send_response_def Let_def write_wire_def)

lemma sample_served:
  "\<exists>c hs. serve_request sample_env rtsp_config_default parameter_sets_default [83, 13, 10, 13, 10] (st, so) =
     on_socket (send_response (sample_request Setup) 200 hs [] (session_id st)) NextRequest
       (st\<lparr>setup_done := True, interleaved_channel := c\<rparr>, so)"
  "setup_done st \<Longrightarrow> serve_request sample_env rtsp_config_default parameter_sets_default [80, 13, 10, 13, 10] (st, so) =
     on_socket (send_response (sample_request Play) 200 [] [] (session_id st)) StartStream (st, so)"
  by (simp_all add: serve_request_def sample_parse sample_methods sample_checks serve_method_def Let_def del: ex_simps) blast

lemma sample_session:
  assumes "so_room so = None"
  shows "\<exists>st so'. client_loop sample_env rtsp_config_default parameter_sets_default
    (map Received [[83, 13, 10, 13, 10, 80, 13, 10, 13, 10]]) [] (connection_state_new i, so) = (Inr (StartStream, []), (st, so'))"
proof -
  obtain c hs so1 where 1: "serve_request sample_env rtsp_config_default parameter_sets_default [83, 13, 10, 13, 10]
      (connection_state_new i, so) = (Inr NextRequest, (connection_state_new i\<lparr>setup_done := True, interleaved_channel := c\<rparr>, so1))"
    "so_room so1 = None"
    using sample_served(1) [of "connection_state_new i" so] reply_free [OF assms] by metis
  define st1 where "st1 = connection_state_new i\<lparr>setup_done := True, interleaved_channel := c\<rparr>"
  have done1: "setup_done st1" by (simp add: st1_def)
  obtain so2 where 2: "serve_request sample_env rtsp_config_default parameter_sets_default [80, 13, 10, 13, 10] (st1, so1) =
      (Inr StartStream, (st1, so2))"
    using sample_served(2) [OF done1, of so1] reply_free [OF 1(2)] by metis
  show ?thesis
    using 1(1) 2 by (simp add: st1_def [symmetric] serve_buffer.simps sample_requests)
qed

theorem rtsp_play_guarded_witness:
  "\<exists>t \<in> set (request_texts [83, 13, 10, 13, 10, 80, 13, 10, 13, 10]). \<exists>req. parse_rtsp_request sample_env t = Some req \<and>
     granted sample_env rtsp_config_default Play req"
proof -
  obtain st so' where "client_loop sample_env rtsp_config_default parameter_sets_default
      (map Received [[83, 13, 10, 13, 10, 80, 13, 10, 13, 10]]) []
      (connection_state_new 5, \<lparr>so_written = [], so_room = None\<rparr>) = (Inr (StartStream, []), (st, so'))"
    using sample_session [of "\<lparr>so_written = [], so_room = None\<rparr>" 5] by auto
  from rtsp_play_guarded [OF this] show ?thesis by simp
qed

section \<open>One client at a time\<close>

text \<open>The accept loop of \<open>start\<close> with the tasks it spawns. A task is \<open>handle_client\<close> in its three parts, with the other
  tasks in between: \<open>Connect\<close> is its beginning (\<open>claim_client\<close>, under the lock of \<open>active_client\<close>), \<open>Leave\<close> its end,
  with a result that the serving part has on some events of its socket, and \<open>after_client\<close>. Two things
  the model takes for granted: an address and port connects again only when its connection before has been left (as TCP has it
  while both ends know of the connection), and \<open>Stop\<close> is one action that no accept
  overlaps. The configuration is the one the tasks have read.\<close>

record 'a rtsp_service =
  active_client :: "'a option"
  serving :: "'a set"

definition rtsp_service_new :: "'a rtsp_service" where
  "rtsp_service_new = \<lparr>active_client = None, serving = {}\<rparr>"

definition rtsp_stop :: "'a rtsp_service \<Rightarrow> 'a rtsp_service" where
  "rtsp_stop s = s\<lparr>active_client := None, serving := {}\<rparr>"

datatype 'a service_event = Connect 'a | Leave 'a client_result | Stop

inductive service_step :: "'p rtsp_env \<Rightarrow> rtsp_config \<Rightarrow> 'a rtsp_service \<Rightarrow> 'a service_event \<Rightarrow> 'a rtsp_service \<Rightarrow> bool" for env cfg where
  connect: "p \<notin> serving s \<Longrightarrow> claim_client cfg p (active_client s) = (admitted, active) \<Longrightarrow>
    service_step env cfg s (Connect p) (s\<lparr>active_client := active, serving := (if admitted then insert p (serving s) else serving s)\<rparr>)"
| leave: "p \<in> serving s \<Longrightarrow> fst (serve_client env cfg params random events stream so) = r \<Longrightarrow> r \<noteq> Waiting \<Longrightarrow>
    service_step env cfg s (Leave p r) (s\<lparr>active_client := after_client cfg p r (active_client s), serving := serving s - {p}\<rparr>)"
| stop: "service_step env cfg s Stop (rtsp_stop s)"

inductive_cases service_stepE: "service_step env cfg s e s'"

inductive service_run :: "'p rtsp_env \<Rightarrow> rtsp_config \<Rightarrow> 'a rtsp_service \<Rightarrow> 'a service_event list \<Rightarrow> 'a rtsp_service \<Rightarrow> bool" for env cfg where
  run_done: "service_run env cfg s [] s"
| run_step: "service_step env cfg s e s' \<Longrightarrow> service_run env cfg s' es s'' \<Longrightarrow> service_run env cfg s (e # es) s''"

text \<open>A call of \<open>handle_client\<close> that nothing interrupts is the one step or the two.\<close>

lemma handle_client_steps:
  assumes "handle_client env cfg params p random events stream (active_client s) so = (r, active, so')" and "p \<notin> serving s" and "r \<noteq> Waiting"
  shows "\<exists>es s'. service_run env cfg s es s' \<and> active_client s' = active \<and> serving s' = serving s \<and>
    (es = [Connect p] \<or> es = [Connect p, Leave p r])"
proof -
  obtain adm act where c: "claim_client cfg p (active_client s) = (adm, act)" by fastforce
  let ?s = "s\<lparr>active_client := act, serving := (if adm then insert p (serving s) else serving s)\<rparr>"
  have 1: "service_step env cfg s (Connect p) ?s" by (rule service_step.connect [OF assms(2) c])
  show ?thesis
  proof (cases adm)
    case False
    then have "active = act" using assms(1) c by (auto simp: handle_client_def split: sum.splits prod.splits)
    then show ?thesis using 1 False by (intro exI [of _ "[Connect p]"] exI [of _ ?s]) (auto intro: run_step run_done)
  next
    case True
    have r: "fst (serve_client env cfg params random events stream so) = r" "active = after_client cfg p r act"
      using assms(1) c True by (auto simp: handle_client_def split: prod.splits)
    let ?t = "?s\<lparr>active_client := after_client cfg p r (active_client ?s), serving := serving ?s - {p}\<rparr>"
    have 2: "service_step env cfg ?s (Leave p r) ?t" by (rule service_step.leave [OF _ r(1) assms(3)]) (simp add: True)
    have "service_run env cfg s [Connect p, Leave p r] ?t" by (rule run_step [OF 1 run_step [OF 2 run_done]])
    moreover have "active_client ?t = active" "serving ?t = serving s" using r(2) True assms(2) by auto
    ultimately show ?thesis by blast
  qed
qed

lemma service_step_single:
  "service_step env cfg s e s' \<Longrightarrow> allow_one_client cfg \<Longrightarrow> \<forall>p \<in> serving s. active_client s = Some p \<Longrightarrow>
     \<forall>p \<in> serving s'. active_client s' = Some p"
  by (erule service_stepE)
    (auto simp: claim_client_def release_client_def after_client_def rtsp_stop_def split: option.splits if_splits client_result.splits;
      metis option.inject)+

lemma service_run_single:
  "service_run env cfg s es s' \<Longrightarrow> allow_one_client cfg \<Longrightarrow> \<forall>p \<in> serving s. active_client s = Some p \<Longrightarrow>
     \<forall>p \<in> serving s'. active_client s' = Some p"
proof (induction rule: service_run.induct)
  case (run_step s e s' es s'')
  then show ?case using service_step_single [of env cfg s e s'] by simp
qed simp

lemma service_step_locked:
  "service_step env cfg s e s' \<Longrightarrow> allow_one_client cfg \<Longrightarrow> active_client s = Some p \<Longrightarrow> serving s = {} \<Longrightarrow> e \<noteq> Stop \<Longrightarrow> e \<noteq> Connect p \<Longrightarrow>
     active_client s' = Some p \<and> serving s' = {}"
  by (erule service_stepE) (auto simp: claim_client_def)

lemma service_run_locked:
  "service_run env cfg s es s' \<Longrightarrow> allow_one_client cfg \<Longrightarrow> active_client s = Some p \<Longrightarrow> serving s = {} \<Longrightarrow>
     Stop \<notin> set es \<Longrightarrow> Connect p \<notin> set es \<Longrightarrow> active_client s' = Some p \<and> serving s' = {}"
proof (induction rule: service_run.induct)
  case (run_step s e s' es s'')
  have "e \<noteq> Stop" "e \<noteq> Connect p" using run_step.prems by auto
  from service_step_locked [OF run_step.hyps(1) run_step.prems(1-3) this] run_step show ?case by simp
qed simp

text \<open>A client that is left \<open>Finished\<close> gives the place back, one that is left with an error does not.\<close>

lemma leave_result:
  assumes "service_step env cfg s (Leave p r) s1" and "allow_one_client cfg" and "\<forall>p \<in> serving s. active_client s = Some p"
  shows "serving s1 = {}" and "active_client s1 = (if r = Finished then None else Some p)"
proof -
  have p: "p \<in> serving s" and s1: "s1 = s\<lparr>active_client := after_client cfg p r (active_client s), serving := serving s - {p}\<rparr>"
    using assms(1) by (auto elim: service_stepE)
  have "x = p" if "x \<in> serving s" for x using assms(3) p that by (metis option.inject)
  then show "serving s1 = {}" unfolding s1 by auto
  show "active_client s1 = (if r = Finished then None else Some p)"
    unfolding s1 using assms(2,3) p by (simp add: after_client_def release_client_def split: client_result.split)
qed

text \<open>C27: The one-client rule (\<open>allow_one_client\<close>, on by default). Whatever connects and leaves in whatever order, at most one client
  is served, and it holds the place. A client that leaves the loop of \<open>handle_client\<close> gives the place back: nobody holds it then. But a client
  whose \<open>handle_client\<close> ends by an error (a read or a reply that fails before PLAY) keeps it: until the service is stopped, or a
  connection comes from the same address and port again, nobody is served.\<close>

theorem rtsp_single_client:
  assumes "allow_one_client cfg" and "service_run env cfg rtsp_service_new es s"
  shows "(\<forall>p \<in> serving s. \<forall>q \<in> serving s. p = q) \<and> (\<forall>p \<in> serving s. active_client s = Some p) \<and>
    (\<forall>p s1. service_step env cfg s (Leave p Finished) s1 \<longrightarrow> serving s1 = {} \<and> active_client s1 = None) \<and>
    (\<forall>p e s1 es' s'. service_step env cfg s (Leave p (Failed e)) s1 \<longrightarrow> service_run env cfg s1 es' s' \<longrightarrow> Stop \<notin> set es' \<longrightarrow>
       Connect p \<notin> set es' \<longrightarrow> serving s' = {} \<and> active_client s' = Some p)"
proof -
  have single: "\<forall>p \<in> serving s. active_client s = Some p"
    using service_run_single [OF assms(2,1)] by (simp add: rtsp_service_new_def)
  have locked: "serving s' = {} \<and> active_client s' = Some p"
    if f: "service_step env cfg s (Leave p (Failed e)) s1" "service_run env cfg s1 es' s'" "Stop \<notin> set es'" "Connect p \<notin> set es'" for p e s1 es' s'
    using service_run_locked [OF f(2) assms(1) _ leave_result(1) [OF f(1) assms(1) single] f(3,4)] leave_result(2) [OF f(1) assms(1) single]
    by simp
  have "\<forall>p \<in> serving s. \<forall>q \<in> serving s. p = q" using single by (metis option.inject)
  moreover have "\<forall>p s1. service_step env cfg s (Leave p Finished) s1 \<longrightarrow> serving s1 = {} \<and> active_client s1 = None"
    using leave_result(1) [OF _ assms(1) single] leave_result(2) [OF _ assms(1) single, of _ _ Finished] by simp blast
  ultimately show ?thesis using single locked by (intro conjI allI impI) blast+
qed

theorem rtsp_single_client_witness:
  "\<exists>s s1. service_run sample_env rtsp_config_default rtsp_service_new [Connect CHR ''a'', Connect CHR ''b''] s \<and>
     CHR ''a'' \<in> serving s \<and> CHR ''b'' \<notin> serving s \<and> service_step sample_env rtsp_config_default s (Leave CHR ''a'' (Failed RtspIo)) s1 \<and>
     (\<forall>p \<in> serving s. \<forall>q \<in> serving s. p = q) \<and> active_client s1 = Some CHR ''a''"
proof -
  define s where "s = \<lparr>active_client = Some CHR ''a'', serving = {CHR ''a''}\<rparr>"
  have "service_step sample_env rtsp_config_default rtsp_service_new (Connect CHR ''a'') s"
    using service_step.connect [of "CHR ''a''" rtsp_service_new rtsp_config_default True "Some CHR ''a''"]
    by (simp add: s_def rtsp_service_new_def claim_client_def rtsp_config_default_def)
  moreover have "service_step sample_env rtsp_config_default s (Connect CHR ''b'') s"
    using service_step.connect [of "CHR ''b''" s rtsp_config_default False "Some CHR ''a''"]
    by (simp add: s_def claim_client_def rtsp_config_default_def)
  ultimately have run: "service_run sample_env rtsp_config_default rtsp_service_new [Connect CHR ''a'', Connect CHR ''b''] s"
    by (intro run_step) (assumption, assumption, rule run_done)
  have failed: "fst (serve_client sample_env rtsp_config_default parameter_sets_default 0 [ReadFailed] (\<lambda>_ _ so. (Inr True, so))
      \<lparr>so_written = [], so_room = None\<rparr>) = Failed RtspIo"
    by (simp add: serve_client_def)
  obtain s1 where leave: "service_step sample_env rtsp_config_default s (Leave CHR ''a'' (Failed RtspIo)) s1"
    using service_step.leave [OF _ failed, of "CHR ''a''" s] by (auto simp: s_def)
  have on: "allow_one_client rtsp_config_default" by (simp add: rtsp_config_default_def)
  note result = rtsp_single_client [OF on run]
  have "active_client s1 = Some CHR ''a''" using result leave run_done [of sample_env rtsp_config_default s1] by fastforce
  then show ?thesis using run leave result by (intro exI [of _ s] exI [of _ s1]) (simp add: s_def)
qed

section \<open>Packets of a stream\<close>

text \<open>What is on the wire: whole packets, each behind its interleaving header, and whole replies between them.\<close>

definition interleaved_header :: "u8 \<Rightarrow> nat \<Rightarrow> bytes" where
  "interleaved_header channel n = [0x24, channel, word_of_nat (n div 256), word_of_nat n]"

inductive stream_log :: "'p rtsp_env \<Rightarrow> u8 \<Rightarrow> rtp_packet list \<Rightarrow> wire list \<Rightarrow> bool" for env channel where
  log_none: "stream_log env channel [] []"
| log_packet: "stream_log env channel ps ws \<Longrightarrow> env_marshal env p = Inr m \<Longrightarrow>
    stream_log env channel (ps @ [p]) (ws @ [Raw (interleaved_header channel (length m)), Raw m])"
| log_reply: "stream_log env channel ps ws \<Longrightarrow> stream_log env channel ps (ws @ [Reply r])"

lemma stream_log_append:
  "stream_log env channel ps ws \<Longrightarrow> stream_log env channel qs vs \<Longrightarrow> stream_log env channel (ps @ qs) (ws @ vs)"
proof (rotate_tac, induction rule: stream_log.induct)
  case (log_packet qs vs p m)
  then show ?case using stream_log.log_packet [of env channel "ps @ qs" "ws @ vs" p m] by simp
next
  case (log_reply qs vs r)
  then show ?case using stream_log.log_reply [of env channel "ps @ qs" "ws @ vs" r] by simp
qed simp

lemma interleaved_header_word:
  "[0x24, channel, ucast (drop_bit 8 (word_of_nat n :: u16)), ucast ((word_of_nat n :: u16) AND 0xFF)] = interleaved_header channel n"
proof -
  have "ucast (drop_bit 8 (word_of_nat n :: u16)) = (word_of_nat (n div 256) :: u8)"
    by (rule bit_word_eqI) (auto simp: bit_simps drop_bit_eq_div [of 8 n, simplified, symmetric])
  moreover have "ucast ((word_of_nat n :: u16) AND 0xFF) = (word_of_nat n :: u8)"
  proof (rule bit_word_eqI)
    have mask: "(0xFF :: u16) = mask 8" by (simp add: mask_eq_exp_minus_1)
    fix k assume "k < LENGTH(8)"
    then show "bit (ucast ((word_of_nat n :: u16) AND 0xFF) :: u8) k = bit (word_of_nat n :: u8) k"
      unfolding mask by (simp add: bit_simps)
  qed
  ultimately show ?thesis by (simp add: interleaved_header_def)
qed

lemma write_wire_ok: "write_wire w so = (Inr u, so') \<Longrightarrow> so_written so' = so_written so @ [w]"
  by (auto simp: write_wire_def split: if_splits)

lemma send_interleaved_rtp_ok:
  assumes "send_interleaved_rtp env channel p so = (Inr u, so')"
  shows "\<exists>ws. so_written so' = so_written so @ ws \<and> stream_log env channel [p] ws"
proof -
  from assms obtain m so1 where m: "env_marshal env p = Inr m"
    "write_wire (Raw (interleaved_header channel (length m))) so = (Inr (), so1)" "write_wire (Raw m) so1 = (Inr (), so')"
    unfolding send_interleaved_rtp_def Let_def interleaved_header_word
    by (auto simp: bindE_def throwE_def split: sum.splits prod.splits)
  have "stream_log env channel ([] @ [p]) ([] @ [Raw (interleaved_header channel (length m)), Raw m])"
    by (intro log_packet log_none m(1))
  then show ?thesis using write_wire_ok [OF m(2)] write_wire_ok [OF m(3)] by simp
qed

text \<open>The packets of one frame.\<close>

definition frame_packets :: "u8 \<Rightarrow> u32 \<Rightarrow> u32 \<Rightarrow> u16 \<Rightarrow> bytes list \<Rightarrow> rtp_packet list" where
  "frame_packets pt ssrc ts seq pls =
     map (\<lambda>i. \<lparr>rtp_marker = (Suc i = length pls), rtp_payload_type = pt, rtp_sequence = seq + word_of_nat i, rtp_timestamp = ts,
       rtp_ssrc = ssrc, rtp_payload = pls ! i\<rparr>) [0..<length pls]"

lemma frame_packets_Cons:
  "frame_packets pt ssrc ts seq (pl # pls) =
     \<lparr>rtp_marker = (pls = []), rtp_payload_type = pt, rtp_sequence = seq, rtp_timestamp = ts, rtp_ssrc = ssrc, rtp_payload = pl\<rparr> #
     frame_packets pt ssrc ts (seq + 1) pls"
  unfolding frame_packets_def list.size(4) add_0_right add_Suc_right upt_conv_Cons [OF zero_less_Suc] list.map map_Suc_upt [symmetric]
  by (auto simp: comp_def ac_simps)

lemma send_payloads_ok:
  "send_payloads env channel pt ssrc ts pls seq so = (Inr seq', so') \<Longrightarrow>
     seq' = seq + word_of_nat (length pls) \<and>
     (\<exists>ws. so_written so' = so_written so @ ws \<and> stream_log env channel (frame_packets pt ssrc ts seq pls) ws)"
proof (induction pls arbitrary: seq so)
  case Nil
  then show ?case by (auto simp: returnE_def frame_packets_def intro: log_none)
next
  case (Cons pl pls)
  let ?p = "\<lparr>rtp_marker = (pls = []), rtp_payload_type = pt, rtp_sequence = seq, rtp_timestamp = ts, rtp_ssrc = ssrc, rtp_payload = pl\<rparr>"
  from Cons.prems obtain so1 where s: "send_interleaved_rtp env channel ?p so = (Inr (), so1)"
    "send_payloads env channel pt ssrc ts pls (seq + 1) so1 = (Inr seq', so')"
    by (auto simp: bindE_def split: sum.splits prod.splits)
  obtain ws where ws: "so_written so1 = so_written so @ ws" "stream_log env channel [?p] ws"
    using send_interleaved_rtp_ok [OF s(1)] by blast
  obtain vs where vs: "so_written so' = so_written so1 @ vs"
    "stream_log env channel (frame_packets pt ssrc ts (seq + 1) pls) vs" "seq' = seq + 1 + word_of_nat (length pls)"
    using Cons.IH [OF s(2)] by blast
  show ?case
    using stream_log_append [OF ws(2) vs(2)] ws(1) vs(1,3) by (simp add: frame_packets_Cons)
qed

text \<open>The packets of a stream: groups, one for each frame that had payloads.\<close>

definition packet_group :: "rtp_packet list \<Rightarrow> bool" where
  "packet_group g \<longleftrightarrow> g \<noteq> [] \<and> (\<exists>ts. \<forall>p \<in> set g. rtp_timestamp p = ts) \<and>
     map rtp_marker g = replicate (length g - 1) False @ [True]"

lemma frame_packets_group:
  assumes "pls \<noteq> []"
  shows "packet_group (frame_packets pt ssrc ts seq pls)"
proof -
  have "map (\<lambda>i. Suc i = length pls) [0..<length pls] = replicate (length pls - 1) False @ [True]"
    using assms by (intro nth_equalityI) (auto simp: nth_append)
  then show ?thesis using assms by (simp add: packet_group_def frame_packets_def comp_def)
qed

definition sequence_run :: "u16 \<Rightarrow> nat \<Rightarrow> u16 list" where
  "sequence_run s n = map (\<lambda>i. s + word_of_nat i) [0..<n]"

lemma sequence_run_append: "sequence_run s m @ sequence_run (s + word_of_nat m) n = sequence_run s (m + n)"
proof (induction n)
  case (Suc n)
  have "sequence_run s m @ sequence_run (s + word_of_nat m) (Suc n) = (sequence_run s m @ sequence_run (s + word_of_nat m) n) @ [s + word_of_nat m + word_of_nat n]"
    by (simp add: sequence_run_def)
  then show ?case unfolding Suc by (simp add: sequence_run_def)
qed (simp add: sequence_run_def)

definition stream_sent :: "'p rtsp_env \<Rightarrow> rtsp_codec \<Rightarrow> u8 \<Rightarrow> u32 \<Rightarrow> u16 \<Rightarrow> u16 \<Rightarrow> wire list \<Rightarrow> bool" where
  "stream_sent env codec channel ssrc seq seq' ws \<longleftrightarrow> (\<exists>groups. stream_log env channel (concat groups) ws \<and>
     (\<forall>g \<in> set groups. packet_group g) \<and> (\<forall>p \<in> set (concat groups). rtp_ssrc p = ssrc \<and> rtp_payload_type p = rtsp_payload_type codec) \<and>
     map rtp_sequence (concat groups) = sequence_run seq (length (concat groups)) \<and> seq' = seq + word_of_nat (length (concat groups)))"

lemma stream_sent_none: "stream_sent env codec channel ssrc seq seq []"
  unfolding stream_sent_def by (intro exI [of _ "[]"]) (simp add: log_none sequence_run_def)

lemma stream_sent_append:
  assumes "stream_sent env codec channel ssrc seq seq1 ws" and "stream_sent env codec channel ssrc seq1 seq2 vs"
  shows "stream_sent env codec channel ssrc seq seq2 (ws @ vs)"
proof -
  obtain g h where g: "stream_log env channel (concat g) ws" "\<forall>x \<in> set g. packet_group x"
      "\<forall>p \<in> set (concat g). rtp_ssrc p = ssrc \<and> rtp_payload_type p = rtsp_payload_type codec"
      "map rtp_sequence (concat g) = sequence_run seq (length (concat g))" "seq1 = seq + word_of_nat (length (concat g))"
    and h: "stream_log env channel (concat h) vs" "\<forall>x \<in> set h. packet_group x"
      "\<forall>p \<in> set (concat h). rtp_ssrc p = ssrc \<and> rtp_payload_type p = rtsp_payload_type codec"
      "map rtp_sequence (concat h) = sequence_run seq1 (length (concat h))" "seq2 = seq1 + word_of_nat (length (concat h))"
    using assms unfolding stream_sent_def by blast
  have c: "concat (g @ h) = concat g @ concat h" by simp
  show ?thesis
    unfolding stream_sent_def
  proof (intro exI [of _ "g @ h"] conjI)
    show "stream_log env channel (concat (g @ h)) (ws @ vs)" unfolding c by (rule stream_log_append [OF g(1) h(1)])
    show "map rtp_sequence (concat (g @ h)) = sequence_run seq (length (concat (g @ h)))"
      unfolding c map_append g(4) h(4) g(5) length_append by (rule sequence_run_append)
    show "seq2 = seq + word_of_nat (length (concat (g @ h)))" unfolding c length_append h(5) g(5) by simp
  qed (use g(2,3) h(2,3) in auto)
qed

lemma stream_sent_reply: "stream_sent env codec channel ssrc seq seq [Reply r]"
  using log_reply [OF log_none, of env channel r] unfolding stream_sent_def
  by (intro exI [of _ "[]"]) (simp add: sequence_run_def)

lemma frame_payloads_seq: "frame_payloads env codec d st = (r, st') \<Longrightarrow> ss_sequence st' = ss_sequence st"
  by (auto simp: frame_payloads_def split: rtsp_codec.splits sum.splits prod.splits)

lemma stream_frame_sent:
  assumes "stream_frame env codec channel ssrc frame (st, so) = (Inr u, (st', so'))"
  shows "\<exists>ws. so_written so' = so_written so @ ws \<and> stream_sent env codec channel ssrc (ss_sequence st) (ss_sequence st') ws"
proof (cases "is_frame_codec_match frame codec")
  case False
  then show ?thesis using assms stream_sent_none by (auto simp: stream_frame_def)
next
  case True
  define ts where "ts = monotonic_rtp_timestamp env (pts_ms frame) (ss_last st) (frame_duration frame)"
  define st1 where "st1 = st\<lparr>ss_params := update_parameter_sets frame (ss_params st), ss_last := ts\<rparr>"
  obtain r st2 where f: "frame_payloads env codec (frame_data frame) st1 = (r, st2)" by (metis prod.collapse)
  then have q: "ss_sequence st2 = ss_sequence st" using frame_payloads_seq [OF f] by (simp add: st1_def)
  obtain pls where r: "r = Inr pls"
    using assms True f by (cases r) (auto simp: stream_frame_def Let_def ts_def [symmetric] st1_def [symmetric])
  show ?thesis
  proof (cases "pls = []")
    case True
    then show ?thesis using assms \<open>is_frame_codec_match frame codec\<close> f r q stream_sent_none
      by (auto simp: stream_frame_def Let_def ts_def [symmetric] st1_def [symmetric])
  next
    case False
    obtain seq' where s: "send_payloads env channel (rtsp_payload_type codec) ssrc ts pls (ss_sequence st) so = (Inr seq', so')"
      and st': "st' = st2\<lparr>ss_sequence := seq'\<rparr>"
      using assms True f r q False
      by (auto simp: stream_frame_def Let_def ts_def [symmetric] st1_def [symmetric] split: sum.splits prod.splits)
    define ps where "ps = frame_packets (rtsp_payload_type codec) ssrc ts (ss_sequence st) pls"
    obtain ws where ws: "so_written so' = so_written so @ ws" "stream_log env channel ps ws" "seq' = ss_sequence st + word_of_nat (length pls)"
      using send_payloads_ok [OF s] unfolding ps_def by blast
    have "stream_sent env codec channel ssrc (ss_sequence st) seq' ws"
      unfolding stream_sent_def
      using ws(2,3) frame_packets_group [OF False, of "rtsp_payload_type codec" ssrc ts "ss_sequence st"]
      by (intro exI [of _ "[ps]"]) (auto simp: ps_def frame_packets_def sequence_run_def)
    then show ?thesis using ws(1) st' by auto
  qed
qed

lemma send_response_ok: "send_response req c hs b i so = (Inr u, so') \<Longrightarrow> \<exists>r. so_written so' = so_written so @ [Reply r]"
  unfolding send_response_def Let_def by (blast dest: write_wire_ok)

lemma handle_play_control_request_ok:
  "handle_play_control_request req session so = (Inr b, so') \<Longrightarrow> \<exists>r. so_written so' = so_written so @ [Reply r]"
  unfolding handle_play_control_request_def
  by (cases "rq_method req") (auto simp: bindE_def returnE_def split: sum.splits prod.splits dest!: send_response_ok)

lemma serve_control_sent:
  "serve_control env session buffer so = (Inr x, so') \<Longrightarrow>
     \<exists>ws. so_written so' = so_written so @ ws \<and> stream_sent env' codec channel ssrc seq seq ws"
proof (induction env session buffer so arbitrary: so' rule: serve_control.induct)
  case (1 env session buffer so)
  show ?case
  proof (cases "take_rtsp_request_from_buffer buffer")
    case None
    then have "so' = so" using 1(3) by (simp add: serve_control.simps)
    then show ?thesis using stream_sent_none by (intro exI [of _ "[]"]) simp
  next
    case (Some tr)
    obtain raw rest where tr: "tr = (raw, rest)" by (cases tr)
    show ?thesis
    proof (cases "parse_rtsp_request env raw")
      case None
      then have "serve_control env session rest so = (Inr x, so')" using 1(3) Some tr by (subst (asm) serve_control.simps) simp
      then show ?thesis using 1(1) [OF Some tr [symmetric] None] by blast
    next
      case (Some req)
      obtain b so1 where h: "handle_play_control_request req session so = (Inr b, so1)"
        using 1(3) \<open>take_rtsp_request_from_buffer buffer = Some tr\<close> tr Some
        by (subst (asm) serve_control.simps) (auto split: sum.splits prod.splits)
      obtain r where r: "so_written so1 = so_written so @ [Reply r]" using handle_play_control_request_ok [OF h] by blast
      show ?thesis
      proof (cases b)
        case True
        then have "so' = so1"
          using 1(3) \<open>take_rtsp_request_from_buffer buffer = Some tr\<close> tr Some h by (subst (asm) serve_control.simps) simp
        then show ?thesis using r stream_sent_reply by (intro exI [of _ "[Reply r]"]) simp
      next
        case False
        then have "serve_control env session (strip_all rest) so1 = (Inr x, so')"
          using 1(3) \<open>take_rtsp_request_from_buffer buffer = Some tr\<close> tr Some h by (subst (asm) serve_control.simps) simp
        then obtain ws where ws: "so_written so' = so_written so1 @ ws" "stream_sent env' codec channel ssrc seq seq ws"
          using 1(2) [OF \<open>take_rtsp_request_from_buffer buffer = Some tr\<close> tr [symmetric] Some h [symmetric] refl False] by blast
        then show ?thesis using r stream_sent_append [OF stream_sent_reply ws(2)] by (intro exI [of _ "Reply r # ws"]) simp
      qed
    qed
  qed
qed

lemma stream_loop_sent:
  "stream_loop env codec channel ssrc session events (st, so) = (Inr b, (st', so')) \<Longrightarrow>
     \<exists>ws. so_written so' = so_written so @ ws \<and> stream_sent env codec channel ssrc (ss_sequence st) (ss_sequence st') ws"
proof (induction events arbitrary: st so)
  case Nil
  then show ?case using stream_sent_none by auto
next
  case (Cons e events)
  show ?case
  proof (cases e)
    case (Frame frame)
    obtain st1 so1 where f: "stream_frame env codec channel ssrc frame (st, so) = (Inr (), (st1, so1))"
      and l: "stream_loop env codec channel ssrc session events (st1, so1) = (Inr b, (st', so'))"
      using Cons.prems Frame by (auto split: sum.splits prod.splits)
    obtain ws where ws: "so_written so1 = so_written so @ ws" "stream_sent env codec channel ssrc (ss_sequence st) (ss_sequence st1) ws"
      using stream_frame_sent [OF f] by blast
    obtain vs where vs: "so_written so' = so_written so1 @ vs" "stream_sent env codec channel ssrc (ss_sequence st1) (ss_sequence st') vs"
      using Cons.IH [OF l] by blast
    show ?thesis using ws(1) vs(1) stream_sent_append [OF ws(2) vs(2)] by (intro exI [of _ "ws @ vs"]) simp
  next
    case (Control bs)
    show ?thesis
    proof (cases "bs = []")
      case True
      then show ?thesis using Cons.prems Control stream_sent_none by auto
    next
      case False
      obtain stop buffer so1 where c: "serve_control env session (strip_all (ss_buffer st @ bs)) so = (Inr (stop, buffer), so1)"
        using Cons.prems Control False by (auto split: sum.splits prod.splits)
      obtain ws where ws: "so_written so1 = so_written so @ ws" "stream_sent env codec channel ssrc (ss_sequence st) (ss_sequence st) ws"
        using serve_control_sent [OF c] by blast
      show ?thesis
      proof (cases stop)
        case True
        then show ?thesis using Cons.prems Control False c ws by auto
      next
        case False
        then have "stream_loop env codec channel ssrc session events (st\<lparr>ss_buffer := buffer\<rparr>, so1) = (Inr b, (st', so'))"
          using Cons.prems Control \<open>bs \<noteq> []\<close> c by simp
        then obtain vs where vs: "so_written so' = so_written so1 @ vs" "stream_sent env codec channel ssrc (ss_sequence st) (ss_sequence st') vs"
          using Cons.IH by fastforce
        show ?thesis using ws(1) vs(1) stream_sent_append [OF ws(2) vs(2)] by (intro exI [of _ "ws @ vs"]) simp
      qed
    qed
  qed (use Cons in auto)
qed

text \<open>C25: What a stream writes, whatever frames and requests arrive in whatever order, is a sequence of whole RTP packets
  behind their interleaving headers (dollar sign, the channel, the length) with whole replies only between them. Their sequence
  numbers count up by one modulo 65536 from the start value through the whole stream; they have the stream's
  SSRC and payload type; those of a frame have one timestamp, and exactly the last is marked.\<close>

theorem rtsp_stream_packets:
  assumes "stream_video_interleaved env codec channel session seq ssrc h264 params events so = (Inr b, (st', so'))"
  shows "\<exists>groups ws. so_written so' = so_written so @ ws \<and> stream_log env channel (concat groups) ws \<and>
    (\<forall>g \<in> set groups. packet_group g) \<and>
    (\<forall>p \<in> set (concat groups). rtp_ssrc p = ssrc \<and> rtp_payload_type p = rtsp_payload_type codec) \<and>
    map rtp_sequence (concat groups) = map (\<lambda>i. seq + word_of_nat i) [0..<length (concat groups)]"
  using stream_loop_sent [OF assms [unfolded stream_video_interleaved_def]]
  unfolding stream_sent_def sequence_run_def stream_state.simps by blast

definition sample_frame :: encoded_video_frame where
  "sample_frame = \<lparr>frame_data = [0, 0, 0, 1, 101, 7], pts_ms = 40, is_keyframe = True, frame_duration = 40, frame_codec_type = EncH264\<rparr>"

theorem rtsp_stream_packets_witness:
  "\<exists>groups. stream_log sample_env 0 (concat groups)
      [Raw [0x24, 0, 0, 6], Raw [0, 0, 0, 1, 101, 7]] \<and> (\<forall>g \<in> set groups. packet_group g)"
proof -
  obtain st' so' where s: "stream_video_interleaved sample_env RtspH264 0 [] 65535 9 () parameter_sets_default [Frame sample_frame]
      \<lparr>so_written = [], so_room = None\<rparr> = (Inr False, (st', so'))"
    "so_written so' = [Raw [0x24, 0, 0, 6], Raw [0, 0, 0, 1, 101, 7]]"
    by (simp add: stream_video_interleaved_def stream_frame_def is_frame_codec_match_def sample_frame_def frame_payloads_def
        sample_env_def send_interleaved_rtp_def Let_def bindE_def returnE_def write_wire_def)
  from rtsp_stream_packets [OF s(1)] s(2) show ?thesis by auto
qed

section \<open>Timestamps\<close>

lemma rtp_timestamp_increment_pos: "0 < rtp_timestamp_increment env d"
  by (auto simp: rtp_timestamp_increment_def max_def word_greater_zero_iff)

text \<open>As long as the clock does not wrap, the timestamp of a frame is above the last one, whatever its presentation time;
  it never repeats the last one. But at the wrap it runs backwards: when the presentation time is behind and the
  increment wraps, the next frame with the same presentation time is stamped with a value that is not above
  the one before the wrap.\<close>

theorem rtp_timestamp_steps:
  "monotonic_rtp_timestamp env pts l d \<noteq> l \<and>
   (unat l + unat (rtp_timestamp_increment env d) < 2 ^ 32 \<longrightarrow> l < monotonic_rtp_timestamp env pts l d) \<and>
   (pts_to_rtp_timestamp pts \<le> l \<and> l + rtp_timestamp_increment env d < pts_to_rtp_timestamp pts \<longrightarrow>
     monotonic_rtp_timestamp env pts l d < l \<and>
     monotonic_rtp_timestamp env pts (monotonic_rtp_timestamp env pts l d) d = pts_to_rtp_timestamp pts)"
proof -
  have inc: "rtp_timestamp_increment env d \<noteq> 0" using rtp_timestamp_increment_pos [of env d] by auto
  have "l < monotonic_rtp_timestamp env pts l d" if "unat l + unat (rtp_timestamp_increment env d) < 2 ^ 32"
  proof -
    have "unat (l + rtp_timestamp_increment env d) = unat l + unat (rtp_timestamp_increment env d)"
      using that by (simp add: unat_add_lem [THEN iffD1])
    moreover have "0 < unat (rtp_timestamp_increment env d)" using inc by (simp add: unat_gt_0)
    ultimately show ?thesis by (auto simp: monotonic_rtp_timestamp_def Let_def word_less_nat_alt)
  qed
  then show ?thesis using inc by (auto simp: monotonic_rtp_timestamp_def Let_def)
qed

theorem rtp_timestamp_steps_witness:
  "monotonic_rtp_timestamp sample_env 47721858 (monotonic_rtp_timestamp sample_env 47721858 4294967295 33) 33 = 4294967220"
proof -
  have p: "pts_to_rtp_timestamp 47721858 = 4294967220" by (simp add: pts_to_rtp_timestamp_def RTP_CLOCK_RATE_def sint_uint)
  have i: "rtp_timestamp_increment sample_env 33 = 3000" by (simp add: rtp_timestamp_increment_def sample_env_def max_def word_le_nat_alt)
  show ?thesis using rtp_timestamp_steps [of sample_env 47721858 4294967295 33] by (simp add: p i)
qed

end
