(* ===== verification/Otg_Backend.thy ===== *)
theory Otg_Backend
  imports Rust_String Hid_Types "HOL-Library.Sublist"
begin

text \<open>
  \<^verbatim>\<open>src/src/hid/otg.rs\<close>: the HID backend that writes reports to the device nodes of a USB gadget. The operating
  system (which nodes exist, what opening, polling and writing them gives, the UDC, the clock) is the
  record \<open>otg_env\<close>: each call answers from a state \<open>'w\<close> of the world and may change it, so every theorem holds for every
  behaviour of the system, call by call.
\<close>

section \<open>LEDs\<close>

record led_state =
  num_lock :: bool
  caps_lock :: bool
  scroll_lock :: bool
  compose :: bool
  kana :: bool

definition led_state_default :: led_state where
  "led_state_default = \<lparr>num_lock = False, caps_lock = False, scroll_lock = False, compose = False, kana = False\<rparr>"

definition led_from_byte :: "u8 \<Rightarrow> led_state" where
  "led_from_byte b = \<lparr>num_lock = (b AND 0x01 \<noteq> 0), caps_lock = (b AND 0x02 \<noteq> 0), scroll_lock = (b AND 0x04 \<noteq> 0),
     compose = (b AND 0x08 \<noteq> 0), kana = (b AND 0x10 \<noteq> 0)\<rparr>"

definition led_to_byte :: "led_state \<Rightarrow> u8" where
  "led_to_byte s =
     (let b = 0;
          b = (if num_lock s then b OR 0x01 else b);
          b = (if caps_lock s then b OR 0x02 else b);
          b = (if scroll_lock s then b OR 0x04 else b);
          b = (if compose s then b OR 0x08 else b);
          b = (if kana s then b OR 0x10 else b)
      in b)"

section \<open>The operating system\<close>

text \<open>An I/O error: its number, if it comes from the system, and its text.\<close>

record io_error =
  raw_os_error :: "nat option"
  io_text :: rstr

text \<open>\<open>poll\<close>: one ready descriptor with its events (\<open>None\<close> when they have unknown bits; else whether there is an error
  or hang-up, and whether there is input), none, another number, or a failure.\<close>

datatype poll_result = PollReady "(bool \<times> bool) option" | PollNone | PollOther | PollFails rstr

record 'w otg_env =
  os_exists :: "rstr \<Rightarrow> 'w \<Rightarrow> bool \<times> 'w"
  os_open :: "rstr \<Rightarrow> 'w \<Rightarrow> (rstr + unit) \<times> 'w"
  os_poll :: "rstr \<Rightarrow> 'w \<Rightarrow> poll_result \<times> 'w"
  os_write :: "rstr \<Rightarrow> bytes \<Rightarrow> 'w \<Rightarrow> (io_error + unit) \<times> 'w"
  os_read1 :: "rstr \<Rightarrow> 'w \<Rightarrow> (bool + u8 option) \<times> 'w"
  os_find_udc :: "'w \<Rightarrow> rstr option \<times> 'w"
  os_udc_state :: "rstr \<Rightarrow> 'w \<Rightarrow> rstr option \<times> 'w"
  os_elapsed :: "'w \<Rightarrow> nat \<times> 'w"
  os_sleep :: "nat \<Rightarrow> 'w \<Rightarrow> 'w"
  os_log_due :: "'w \<Rightarrow> bool \<times> 'w"

section \<open>The backend\<close>

record hid_device_paths =
  hp_keyboard :: "rstr option"
  hp_mouse_relative :: "rstr option"
  hp_mouse_absolute :: "rstr option"
  hp_consumer :: "rstr option"
  hp_udc :: "rstr option"
  hp_keyboard_leds_enabled :: bool

datatype device_type = DevKeyboard | DevMouseRelative | DevMouseAbsolute | DevConsumerControl

datatype otg_error = OtgHidError rstr rstr | OtgInternal rstr

definition otg_error_display :: "otg_error \<Rightarrow> rstr" where
  "otg_error_display e = (case e of
       OtgHidError reason code \<Rightarrow> lit ''HID error [otg]: '' @ reason @ lit '' (code: '' @ code @ lit '')''
     | OtgInternal s \<Rightarrow> lit ''Internal error: '' @ s)"

text \<open>The paths and the open files, by device; \<open>ob_wire\<close> is what has been written to them, in order. The runtime
  watch channel is the number of notifications sent.\<close>

record otg_backend =
  ob_path :: "device_type \<Rightarrow> rstr option"
  ob_open :: "device_type \<Rightarrow> bool"
  ob_keyboard_leds_enabled :: bool
  ob_keyboard_state :: keyboard_report
  ob_mouse_buttons :: u8
  ob_led_state :: led_state
  ob_screen_resolution :: "(u32 \<times> u32) option"
  ob_udc_name :: "rstr option"
  ob_initialized :: bool
  ob_online :: bool
  ob_last_error :: "(rstr \<times> rstr) option"
  ob_error_count :: u8
  ob_eagain_count :: u8
  ob_notified :: nat
  ob_worker_stop :: bool
  ob_worker :: bool
  ob_wire :: "(device_type \<times> bytes) list"

definition from_handles :: "hid_device_paths \<Rightarrow> otg_backend" where
  "from_handles paths =
     \<lparr>ob_path = (\<lambda>d. case d of DevKeyboard \<Rightarrow> hp_keyboard paths | DevMouseRelative \<Rightarrow> hp_mouse_relative paths
        | DevMouseAbsolute \<Rightarrow> hp_mouse_absolute paths | DevConsumerControl \<Rightarrow> hp_consumer paths),
      ob_open = (\<lambda>_. False), ob_keyboard_leds_enabled = hp_keyboard_leds_enabled paths,
      ob_keyboard_state = keyboard_report_default, ob_mouse_buttons = 0, ob_led_state = led_state_default,
      ob_screen_resolution = Some (1920, 1080), ob_udc_name = hp_udc paths, ob_initialized = False, ob_online = False,
      ob_last_error = None, ob_error_count = 0, ob_eagain_count = 0, ob_notified = 0, ob_worker_stop = False,
      ob_worker = False, ob_wire = []\<rparr>"

definition notify_runtime_changed :: "otg_backend \<Rightarrow> otg_backend" where
  "notify_runtime_changed b = b\<lparr>ob_notified := ob_notified b + 1\<rparr>"

definition clear_error :: "otg_backend \<Rightarrow> otg_backend" where
  "clear_error b = (if ob_last_error b \<noteq> None then notify_runtime_changed (b\<lparr>ob_last_error := None\<rparr>) else b)"

definition record_error :: "rstr \<Rightarrow> rstr \<Rightarrow> otg_backend \<Rightarrow> otg_backend" where
  "record_error reason error_code b =
     (let was_online = ob_online b; changed = (ob_last_error b \<noteq> Some (reason, error_code));
          b = b\<lparr>ob_online := False, ob_last_error := Some (reason, error_code)\<rparr>
      in if was_online \<or> changed then notify_runtime_changed b else b)"

definition mark_online :: "otg_backend \<Rightarrow> otg_backend" where
  "mark_online b =
     (let was_online = ob_online b; cleared_error = (ob_last_error b \<noteq> None);
          b = b\<lparr>ob_online := True, ob_last_error := None\<rparr>
      in if \<not> was_online \<or> cleared_error then notify_runtime_changed b else b)"

definition reset_error_count :: "otg_backend \<Rightarrow> otg_backend" where
  "reset_error_count b = b\<lparr>ob_error_count := 0, ob_eagain_count := 0\<rparr>"

definition set_udc_name :: "rstr \<Rightarrow> otg_backend \<Rightarrow> otg_backend" where
  "set_udc_name udc b = b\<lparr>ob_udc_name := Some udc\<rparr>"

type_synonym ('w, 'a) otg_op = "(otg_backend \<times> 'w, otg_error, 'a) stm"

definition on_backend :: "(otg_backend \<Rightarrow> otg_backend) \<Rightarrow> ('w, unit) otg_op" where
  "on_backend f = modifyE (\<lambda>(b, w). (f b, w))"

text \<open>A call to the system that cannot fail.\<close>

definition ask :: "('w \<Rightarrow> 'a \<times> 'w) \<Rightarrow> ('w, 'a) otg_op" where
  "ask f bw = (case f (snd bw) of (a, w) \<Rightarrow> (Inr a, (fst bw, w)))"

definition log_throttled_error :: "'w otg_env \<Rightarrow> ('w, unit) otg_op" where
  "log_throttled_error env =
     bindE (ask (os_log_due env)) (\<lambda>due. on_backend (\<lambda>b.
       if due then b\<lparr>ob_error_count := 0\<rparr> else b\<lparr>ob_error_count := ob_error_count b + 1\<rparr>))"

section \<open>The UDC\<close>

text \<open>The lower-case text is only compared with \<open>configured\<close>, so lowering the ASCII letters is enough.\<close>

definition read_udc_configured :: "'w otg_env \<Rightarrow> ('w, bool) otg_op" where
  "read_udc_configured env =
     bindE (getsE (\<lambda>(b, w). ob_udc_name b)) (\<lambda>name.
     bindE (case name of Some u \<Rightarrow> returnE (Some u) | None \<Rightarrow> ask (os_find_udc env)) (\<lambda>current.
     case current of
       None \<Rightarrow> returnE True
     | Some udc \<Rightarrow>
         bindE (on_backend (set_udc_name udc)) (\<lambda>_.
         bindE (ask (os_udc_state env udc)) (\<lambda>content.
         returnE (case content of
           Some text \<Rightarrow> to_ascii_lowercase (trim text) = lit ''configured''
         | None \<Rightarrow> True)))))"

section \<open>Devices\<close>

definition open_device :: "'w otg_env \<Rightarrow> rstr \<Rightarrow> ('w, unit) otg_op" where
  "open_device env path bw =
     (case os_open env path (snd bw) of
        (Inl e, w) \<Rightarrow> (Inl (OtgInternal (lit ''Failed to open HID device '' @ path @ lit '': '' @ e)), (fst bw, w))
      | (Inr _, w) \<Rightarrow> (Inr (), (fst bw, w)))"

definition set_open :: "device_type \<Rightarrow> bool \<Rightarrow> otg_backend \<Rightarrow> otg_backend" where
  "set_open d x b = b\<lparr>ob_open := (ob_open b)(d := x)\<rparr>"

definition ensure_device :: "'w otg_env \<Rightarrow> device_type \<Rightarrow> ('w, unit) otg_op" where
  "ensure_device env d bw =
     (case bw of (b, w) \<Rightarrow>
      case ob_path b d of
        None \<Rightarrow> (Inl (OtgHidError (lit ''Device disabled'') (lit ''disabled'')),
                 (record_error (lit ''Device disabled'') (lit ''disabled'') b, w))
      | Some path \<Rightarrow>
          (case os_exists env path w of
             (False, w) \<Rightarrow>
               let reason = lit ''Device not found: '' @ path
               in (Inl (OtgHidError reason (lit ''enoent'')), (record_error reason (lit ''enoent'') (set_open d False b), w))
           | (True, w) \<Rightarrow>
               if ob_open b d then (Inr (), (mark_online b, w))
               else
                 (case open_device env path (b, w) of
                    (Inl e, (b, w)) \<Rightarrow>
                      (Inl e, (record_error (lit ''Failed to reopen HID device '' @ path @ lit '': '' @ otg_error_display e)
                         (lit ''not_opened'') b, w))
                  | (Inr _, (b, w)) \<Rightarrow> (Inr (), (mark_online (set_open d True b), w)))))"

definition io_error_code :: "io_error \<Rightarrow> rstr" where
  "io_error_code e =
     (case raw_os_error e of
        None \<Rightarrow> lit ''io_error''
      | Some n \<Rightarrow>
          if n = 32 then lit ''epipe''
          else if n = 108 then lit ''eshutdown''
          else if n = 11 then lit ''eagain''
          else if n = 6 then lit ''enxio''
          else if n = 19 then lit ''enodev''
          else if n = 5 then lit ''eio''
          else if n = 2 then lit ''enoent''
          else lit ''io_error'')"

definition io_error_to_hid_error :: "io_error \<Rightarrow> rstr \<Rightarrow> otg_error" where
  "io_error_to_hid_error e operation = OtgHidError (operation @ lit '': '' @ io_text e) (io_error_code e)"

text \<open>\<open>write_with_timeout\<close>; a poll that fails is wrapped, so that its error has no number.\<close>

definition write_with_timeout :: "'w otg_env \<Rightarrow> device_type \<Rightarrow> bytes \<Rightarrow> otg_backend \<times> 'w \<Rightarrow> (io_error + bool) \<times> otg_backend \<times> 'w" where
  "write_with_timeout env d data bw =
     (case bw of (b, w) \<Rightarrow>
      let path = (case ob_path b d of Some p \<Rightarrow> p | None \<Rightarrow> []) in
      case os_poll env path w of
        (PollReady revents, w) \<Rightarrow>
          if (case revents of Some (broken, _) \<Rightarrow> broken | None \<Rightarrow> False)
          then (Inl \<lparr>raw_os_error = None, io_text = lit ''Device error or hangup''\<rparr>, (b, w))
          else
            (case os_write env path data w of
               (Inl e, w) \<Rightarrow> (Inl e, (b, w))
             | (Inr _, w) \<Rightarrow> (Inr True, (b\<lparr>ob_wire := ob_wire b @ [(d, data)]\<rparr>, w)))
      | (PollNone, w) \<Rightarrow> (Inr False, (b, w))
      | (PollOther, w) \<Rightarrow> (Inr False, (b, w))
      | (PollFails e, w) \<Rightarrow> (Inl \<lparr>raw_os_error = None, io_text = e\<rparr>, (b, w)))"

section \<open>Reports\<close>

text \<open>The three arms for a write that failed; \<open>clears\<close>: whether the count of EAGAIN errors is reset.\<close>

definition write_failed :: "device_type \<Rightarrow> bool \<Rightarrow> rstr \<Rightarrow> io_error \<Rightarrow> ('w, unit) otg_op" where
  "write_failed d clears operation e =
     (let clear = (\<lambda>b. if clears then b\<lparr>ob_eagain_count := 0\<rparr> else b); reason = operation @ lit '': '' @ io_text e in
      if raw_os_error e = Some 108 then
        bindE (on_backend (\<lambda>b. record_error reason (lit ''eshutdown'') (set_open d False (clear b))))
          (\<lambda>_. throwE (io_error_to_hid_error e operation))
      else if raw_os_error e = Some 11 then returnE ()
      else
        bindE (on_backend (\<lambda>b. record_error reason (io_error_code e) (clear b)))
          (\<lambda>_. throwE (io_error_to_hid_error e operation)))"

definition not_opened :: "rstr \<Rightarrow> otg_error" where
  "not_opened name = OtgHidError (name @ lit '' device not opened'') (lit ''not_opened'')"

definition send_keyboard_report :: "'w otg_env \<Rightarrow> keyboard_report \<Rightarrow> ('w, unit) otg_op" where
  "send_keyboard_report env report bw =
     (if ob_path (fst bw) DevKeyboard = None then (Inr (), bw)
      else bindE (ensure_device env DevKeyboard) (\<lambda>_ bw.
        if \<not> ob_open (fst bw) DevKeyboard then (Inl (not_opened (lit ''Keyboard'')), bw)
        else
          (case write_with_timeout env DevKeyboard (keyboard_report_to_bytes report) bw of
             (Inr True, bw) \<Rightarrow> on_backend (reset_error_count \<circ> mark_online) bw
           | (Inr False, bw) \<Rightarrow> log_throttled_error env bw
           | (Inl e, bw) \<Rightarrow> write_failed DevKeyboard True (lit ''Failed to write keyboard report'') e bw)) bw)"

definition send_mouse_report_relative :: "'w otg_env \<Rightarrow> u8 \<Rightarrow> u8 \<Rightarrow> u8 \<Rightarrow> u8 \<Rightarrow> ('w, unit) otg_op" where
  "send_mouse_report_relative env buttons dx dy wheel bw =
     (if ob_path (fst bw) DevMouseRelative = None then (Inr (), bw)
      else bindE (ensure_device env DevMouseRelative) (\<lambda>_ bw.
        if \<not> ob_open (fst bw) DevMouseRelative then (Inl (not_opened (lit ''Relative mouse'')), bw)
        else
          (case write_with_timeout env DevMouseRelative [buttons, dx, dy, wheel] bw of
             (Inr True, bw) \<Rightarrow> on_backend (reset_error_count \<circ> mark_online) bw
           | (Inr False, bw) \<Rightarrow> (Inr (), bw)
           | (Inl e, bw) \<Rightarrow> write_failed DevMouseRelative True (lit ''Failed to write mouse report'') e bw)) bw)"

definition send_mouse_report_absolute :: "'w otg_env \<Rightarrow> u8 \<Rightarrow> u16 \<Rightarrow> u16 \<Rightarrow> u8 \<Rightarrow> ('w, unit) otg_op" where
  "send_mouse_report_absolute env buttons x y wheel bw =
     (if ob_path (fst bw) DevMouseAbsolute = None then (Inr (), bw)
      else bindE (ensure_device env DevMouseAbsolute) (\<lambda>_ bw.
        if \<not> ob_open (fst bw) DevMouseAbsolute then (Inl (not_opened (lit ''Absolute mouse'')), bw)
        else
          (case write_with_timeout env DevMouseAbsolute
               [buttons, ucast (x AND 0xFF), ucast (drop_bit 8 x), ucast (y AND 0xFF), ucast (drop_bit 8 y), wheel] bw of
             (Inr True, bw) \<Rightarrow> on_backend (reset_error_count \<circ> mark_online) bw
           | (Inr False, bw) \<Rightarrow> (Inr (), bw)
           | (Inl e, bw) \<Rightarrow> write_failed DevMouseAbsolute True (lit ''Failed to write mouse report'') e bw)) bw)"

text \<open>A consumer report is followed by its release, whatever becomes of that.\<close>

definition send_consumer_report :: "'w otg_env \<Rightarrow> u16 \<Rightarrow> ('w, unit) otg_op" where
  "send_consumer_report env u bw =
     (if ob_path (fst bw) DevConsumerControl = None then (Inr (), bw)
      else bindE (ensure_device env DevConsumerControl) (\<lambda>_ bw.
        if \<not> ob_open (fst bw) DevConsumerControl then (Inl (not_opened (lit ''Consumer control'')), bw)
        else
          (case write_with_timeout env DevConsumerControl [ucast (u AND 0xFF), ucast (drop_bit 8 u)] bw of
             (Inr True, bw) \<Rightarrow>
               (case write_with_timeout env DevConsumerControl [0, 0] bw of
                  (_, bw) \<Rightarrow> on_backend (reset_error_count \<circ> mark_online) bw)
           | (Inr False, bw) \<Rightarrow> (Inr (), bw)
           | (Inl e, bw) \<Rightarrow> write_failed DevConsumerControl False (lit ''Failed to write consumer report'') e bw)) bw)"

section \<open>Events\<close>

definition otg_keyboard_state :: "keyboard_event \<Rightarrow> keyboard_report \<Rightarrow> keyboard_report" where
  "otg_keyboard_state ev r =
     (if is_modifier (ke_key ev) then
        (case modifier_bit (ke_key ev) of
           None \<Rightarrow> r
         | Some m \<Rightarrow> r\<lparr>kr_modifiers := (case ke_type ev of KeyDown \<Rightarrow> kr_modifiers r OR m | KeyUp \<Rightarrow> kr_modifiers r AND NOT m)\<rparr>)
      else
        let r = r\<lparr>kr_modifiers := to_hid_byte (ke_modifiers ev)\<rparr>; usb_key = to_hid_usage (ke_key ev)
        in case ke_type ev of KeyDown \<Rightarrow> snd (add_key usb_key r) | KeyUp \<Rightarrow> remove_key usb_key r)"

definition otg_send_keyboard :: "'w otg_env \<Rightarrow> keyboard_event \<Rightarrow> ('w, unit) otg_op" where
  "otg_send_keyboard env ev =
     bindE (on_backend (\<lambda>b. b\<lparr>ob_keyboard_state := otg_keyboard_state ev (ob_keyboard_state b)\<rparr>)) (\<lambda>_.
     bindE (getsE (\<lambda>(b, w). ob_keyboard_state b)) (\<lambda>report. send_keyboard_report env report))"

definition clamp_i32 :: "int \<Rightarrow> int \<Rightarrow> u32 \<Rightarrow> int" where
  "clamp_i32 lo hi v = max lo (min hi (sint v))"

definition otg_send_mouse :: "'w otg_env \<Rightarrow> mouse_event \<Rightarrow> ('w, unit) otg_op" where
  "otg_send_mouse env ev bw =
     (let buttons = ob_mouse_buttons (fst bw) in
      case me_type ev of
        MouseMove \<Rightarrow>
          send_mouse_report_relative env buttons (word_of_int (clamp_i32 (-127) 127 (me_x ev)))
            (word_of_int (clamp_i32 (-127) 127 (me_y ev))) 0 bw
      | MouseMoveAbs \<Rightarrow>
          send_mouse_report_absolute env 0 (word_of_int (clamp_i32 0 32767 (me_x ev))) (word_of_int (clamp_i32 0 32767 (me_y ev))) 0 bw
      | MouseDown \<Rightarrow>
          (case me_button ev of
             None \<Rightarrow> (Inr (), bw)
           | Some button \<Rightarrow>
               let new_buttons = buttons OR to_hid_bit button
               in send_mouse_report_relative env new_buttons 0 0 0 ((fst bw)\<lparr>ob_mouse_buttons := new_buttons\<rparr>, snd bw))
      | MouseUp \<Rightarrow>
          (case me_button ev of
             None \<Rightarrow> (Inr (), bw)
           | Some button \<Rightarrow>
               let new_buttons = buttons AND NOT (to_hid_bit button)
               in send_mouse_report_relative env new_buttons 0 0 0 ((fst bw)\<lparr>ob_mouse_buttons := new_buttons\<rparr>, snd bw))
      | MouseScroll \<Rightarrow> send_mouse_report_relative env buttons 0 0 (me_scroll ev) bw)"

definition otg_send_consumer :: "'w otg_env \<Rightarrow> consumer_event \<Rightarrow> ('w, unit) otg_op" where
  "otg_send_consumer env ev = send_consumer_report env (usage ev)"

definition otg_reset :: "'w otg_env \<Rightarrow> ('w, unit) otg_op" where
  "otg_reset env =
     bindE (on_backend (\<lambda>b. b\<lparr>ob_keyboard_state := clear_report (ob_keyboard_state b)\<rparr>)) (\<lambda>_.
     bindE (getsE (\<lambda>(b, w). ob_keyboard_state b)) (\<lambda>report.
     bindE (send_keyboard_report env report) (\<lambda>_.
     bindE (on_backend (\<lambda>b. b\<lparr>ob_mouse_buttons := 0\<rparr>)) (\<lambda>_.
     bindE (send_mouse_report_relative env 0 0 0 0) (\<lambda>_.
       send_mouse_report_absolute env 0 0 0 0)))))"

definition stop_runtime_worker :: "otg_backend \<Rightarrow> otg_backend" where
  "stop_runtime_worker b = b\<lparr>ob_worker_stop := True, ob_worker := False\<rparr>"

definition close_devices :: "otg_backend \<Rightarrow> otg_backend" where
  "close_devices b = b\<lparr>ob_open := (\<lambda>_. False)\<rparr>"

definition otg_shutdown :: "'w otg_env \<Rightarrow> ('w, unit) otg_op" where
  "otg_shutdown env =
     bindE (on_backend stop_runtime_worker) (\<lambda>_.
     bindE (otg_reset env) (\<lambda>_.
       on_backend (\<lambda>b. notify_runtime_changed (clear_error ((close_devices b)\<lparr>ob_initialized := False, ob_online := False\<rparr>)))))"

definition otg_set_screen_resolution :: "u32 \<Rightarrow> u32 \<Rightarrow> otg_backend \<Rightarrow> otg_backend" where
  "otg_set_screen_resolution width height b = notify_runtime_changed (b\<lparr>ob_screen_resolution := Some (width, height)\<rparr>)"

definition otg_drop :: "otg_backend \<Rightarrow> otg_backend" where
  "otg_drop b = close_devices (stop_runtime_worker b)"

section \<open>Waiting for the devices, and starting\<close>

text \<open>\<open>wait_for_hid_devices\<close>, in nanoseconds. The clock and the sleep belong to the system, so the loop has fuel; \<open>None\<close> means
  that it was not enough.\<close>

fun all_exist :: "'w otg_env \<Rightarrow> rstr list \<Rightarrow> 'w \<Rightarrow> bool \<times> 'w" where
  "all_exist env [] w = (True, w)"
| "all_exist env (p # ps) w = (case os_exists env p w of (True, w) \<Rightarrow> all_exist env ps w | (False, w) \<Rightarrow> (False, w))"

definition MAX_DELAY_MS :: nat where "MAX_DELAY_MS = 100"

fun wait_loop :: "nat \<Rightarrow> 'w otg_env \<Rightarrow> rstr list \<Rightarrow> nat \<Rightarrow> nat \<Rightarrow> 'w \<Rightarrow> bool option \<times> 'w" where
  "wait_loop 0 env paths timeout delay_ms w = (None, w)"
| "wait_loop (Suc n) env paths timeout delay_ms w =
     (case os_elapsed env w of (t1, w) \<Rightarrow>
      if \<not> t1 < timeout then (Some False, w)
      else case all_exist env paths w of (found, w) \<Rightarrow>
      if found then (Some True, w)
      else case os_elapsed env w of (t2, w) \<Rightarrow>
      let sleep_duration = min (delay_ms * 1000000) (timeout - t2) in
      if sleep_duration = 0 then (Some False, w)
      else wait_loop n env paths timeout (min (delay_ms * 2) MAX_DELAY_MS) (os_sleep env sleep_duration w))"

definition wait_for_hid_devices :: "nat \<Rightarrow> 'w otg_env \<Rightarrow> rstr list \<Rightarrow> nat \<Rightarrow> 'w \<Rightarrow> bool option \<times> 'w" where
  "wait_for_hid_devices fuel env device_paths timeout_ms w = wait_loop fuel env device_paths (timeout_ms * 1000000) 10 w"

definition start_runtime_worker :: "otg_backend \<Rightarrow> otg_backend" where
  "start_runtime_worker b = (if ob_worker b then b else b\<lparr>ob_worker_stop := False, ob_worker := True\<rparr>)"

text \<open>The steps of \<open>init\<close>.\<close>

definition init_udc :: "'w otg_env \<Rightarrow> ('w, unit) otg_op" where
  "init_udc env bw =
     (case ob_udc_name (fst bw) of
        Some _ \<Rightarrow> (Inr (), bw)
      | None \<Rightarrow> bindE (ask (os_find_udc env)) (\<lambda>udc. case udc of None \<Rightarrow> returnE () | Some u \<Rightarrow> on_backend (set_udc_name u)) bw)"

definition init_device :: "'w otg_env \<Rightarrow> device_type \<Rightarrow> ('w, unit) otg_op" where
  "init_device env d bw =
     (case ob_path (fst bw) d of
        None \<Rightarrow> (Inr (), bw)
      | Some path \<Rightarrow>
          bindE (ask (os_exists env path)) (\<lambda>found.
            if found then bindE (open_device env path) (\<lambda>_. on_backend (set_open d True)) else returnE ()) bw)"

definition configured_paths :: "otg_backend \<Rightarrow> rstr list" where
  "configured_paths b = List.map_filter (ob_path b) [DevKeyboard, DevMouseRelative, DevMouseAbsolute, DevConsumerControl]"

text \<open>The wait ends because the clock goes on; its fuel is an argument (\<open>None\<close>: not enough).\<close>

definition otg_init :: "nat \<Rightarrow> 'w otg_env \<Rightarrow> otg_backend \<times> 'w \<Rightarrow> ((otg_error + unit) \<times> otg_backend \<times> 'w) option" where
  "otg_init fuel env bw =
     (case init_udc env bw of (_, bw) \<Rightarrow>
      let device_paths = configured_paths (fst bw) in
      if device_paths = [] then Some (Inl (OtgInternal (lit ''No HID devices configured for OTG backend'')), bw)
      else case wait_for_hid_devices fuel env device_paths 2000 (snd bw) of
        (None, w) \<Rightarrow> None
      | (Some False, w) \<Rightarrow> Some (Inl (OtgInternal (lit ''HID devices did not appear'')), (fst bw, w))
      | (Some True, w) \<Rightarrow>
          Some (bindE (init_device env DevKeyboard) (\<lambda>_.
            bindE (init_device env DevMouseRelative) (\<lambda>_.
            bindE (init_device env DevMouseAbsolute) (\<lambda>_.
            bindE (init_device env DevConsumerControl) (\<lambda>_.
              on_backend (\<lambda>b. mark_online (start_runtime_worker (notify_runtime_changed (b\<lparr>ob_initialized := True\<rparr>))))))))
            (fst bw, w)))"

section \<open>What the outside sees\<close>

text \<open>\<open>is_none_or\<close> over the four paths, in order, each only when the ones before exist.\<close>

fun paths_exist :: "'w otg_env \<Rightarrow> device_type list \<Rightarrow> ('w, bool) otg_op" where
  "paths_exist env [] = returnE True"
| "paths_exist env (d # ds) =
     bindE (getsE (\<lambda>(b, w). ob_path b d)) (\<lambda>path.
     bindE (case path of None \<Rightarrow> returnE True | Some p \<Rightarrow> ask (os_exists env p)) (\<lambda>found.
       if found then paths_exist env ds else returnE False))"

definition check_devices_exist :: "'w otg_env \<Rightarrow> ('w, bool) otg_op" where
  "check_devices_exist env = paths_exist env [DevKeyboard, DevMouseRelative, DevMouseAbsolute, DevConsumerControl]"

fun missing_paths :: "'w otg_env \<Rightarrow> device_type list \<Rightarrow> ('w, rstr list) otg_op" where
  "missing_paths env [] = returnE []"
| "missing_paths env (d # ds) =
     bindE (getsE (\<lambda>(b, w). ob_path b d)) (\<lambda>path.
     bindE (case path of None \<Rightarrow> returnE [] | Some p \<Rightarrow> bindE (ask (os_exists env p)) (\<lambda>found. returnE (if found then [] else [p])))
       (\<lambda>missing. bindE (missing_paths env ds) (\<lambda>rest. returnE (missing @ rest))))"

definition get_missing_devices :: "'w otg_env \<Rightarrow> ('w, rstr list) otg_op" where
  "get_missing_devices env = missing_paths env [DevKeyboard, DevMouseRelative, DevMouseAbsolute]"

record otg_snapshot =
  sn_initialized :: bool
  sn_online :: bool
  sn_supports_absolute_mouse :: bool
  sn_keyboard_leds_enabled :: bool
  sn_led_state :: led_state
  sn_screen_resolution :: "(u32 \<times> u32) option"
  sn_device :: "rstr option"
  sn_error :: "rstr option"
  sn_error_code :: "rstr option"

definition comma_join :: "rstr list \<Rightarrow> rstr" where
  "comma_join ws = concat (case ws of [] \<Rightarrow> [] | w # ws \<Rightarrow> w # map (\<lambda>w. lit '', '' @ w) ws)"

definition build_runtime_snapshot :: "'w otg_env \<Rightarrow> ('w, otg_snapshot) otg_op" where
  "build_runtime_snapshot env =
     bindE (getsE fst) (\<lambda>b.
     bindE (if ob_initialized b then check_devices_exist env else returnE True) (\<lambda>exist.
     bindE
       (if \<not> exist then bindE (get_missing_devices env) (\<lambda>missing.
          returnE (False, Some (lit ''HID device node missing: '' @ comma_join missing, lit ''enoent'')))
        else if ob_initialized b then bindE (read_udc_configured env) (\<lambda>configured.
          returnE (if configured then (ob_online b, ob_last_error b)
            else (False, Some (lit ''UDC is not in configured state'', lit ''udc_not_configured''))))
        else returnE (False, ob_last_error b)) (\<lambda>(online, err).
     bindE (case ob_path b DevMouseAbsolute of None \<Rightarrow> returnE False | Some p \<Rightarrow> ask (os_exists env p)) (\<lambda>absolute.
     bindE (getsE (\<lambda>(b, w). ob_udc_name b)) (\<lambda>udc.
     returnE \<lparr>sn_initialized = ob_initialized b, sn_online = online, sn_supports_absolute_mouse = absolute,
       sn_keyboard_leds_enabled = ob_keyboard_leds_enabled b, sn_led_state = ob_led_state b,
       sn_screen_resolution = ob_screen_resolution b, sn_device = udc,
       sn_error = map_option fst err, sn_error_code = map_option snd err\<rparr>)))))"

section \<open>The monitor thread\<close>

text \<open>\<open>poll_keyboard_led_once\<close> with its own file; the result is whether something changed. A byte that is read is
  \<open>Inr (Some b)\<close>; \<open>Inr None\<close> is nothing read, \<open>Inl True\<close> would block, \<open>Inl False\<close> is another error.\<close>

definition poll_keyboard_led_once :: "'w otg_env \<Rightarrow> rstr \<Rightarrow> bool \<times> led_state \<times> 'w \<Rightarrow> bool \<times> bool \<times> led_state \<times> 'w" where
  "poll_keyboard_led_once env path s =
     (case s of (file, leds, w) \<Rightarrow>
      case (if file then (True, w) else (case os_open env path w of (Inr _, w) \<Rightarrow> (True, w) | (Inl _, w) \<Rightarrow> (False, os_sleep env 500000000 w))) of
        (False, w) \<Rightarrow> (False, False, leds, w)
      | (True, w) \<Rightarrow>
          (case os_poll env path w of
             (PollNone, w) \<Rightarrow> (False, True, leds, w)
           | (PollFails _, w) \<Rightarrow> (True, False, leds, w)
           | (PollOther, w) \<Rightarrow> (False, True, leds, w)
           | (PollReady None, w) \<Rightarrow> (False, True, leds, w)
           | (PollReady (Some (broken, readable)), w) \<Rightarrow>
               if broken then (True, False, leds, w)
               else if \<not> readable then (False, True, leds, w)
               else
                 (case os_read1 env path w of
                    (Inr (Some b), w) \<Rightarrow>
                      let new = led_from_byte b in if leds = new then (False, True, leds, w) else (True, True, new, w)
                  | (Inr None, w) \<Rightarrow> (False, True, leds, w)
                  | (Inl True, w) \<Rightarrow> (False, True, leds, w)
                  | (Inl False, w) \<Rightarrow> (True, False, leds, w))))"

text \<open>The state of the thread, and one turn of its loop.\<close>

record monitor =
  mo_configured :: bool
  mo_file :: bool

definition monitor_turn :: "'w otg_env \<Rightarrow> monitor \<Rightarrow> otg_backend \<times> 'w \<Rightarrow> monitor \<times> otg_backend \<times> 'w" where
  "monitor_turn env m bw =
     (case read_udc_configured env bw of (r, (b, w)) \<Rightarrow>
      let current = (case r of Inr x \<Rightarrow> x | Inl _ \<Rightarrow> True);
          changed = (mo_configured m \<noteq> current);
          m = m\<lparr>mo_configured := current\<rparr>
      in case (if ob_keyboard_leds_enabled b then ob_path b DevKeyboard else None) of
           None \<Rightarrow> (m, (if changed then notify_runtime_changed b else b), os_sleep env 500000000 w)
         | Some path \<Rightarrow>
             (case poll_keyboard_led_once env path (mo_file m, ob_led_state b, w) of (led_changed, file, leds, w) \<Rightarrow>
                let b = b\<lparr>ob_led_state := leds\<rparr>
                in (m\<lparr>mo_file := file\<rparr>, (if changed \<or> led_changed then notify_runtime_changed b else b), w)))"

section \<open>What one call does\<close>

text \<open>The part of the state that sending a report leaves alone, and the part that the outside sees of the rest.\<close>

definition otg_rest :: "otg_backend \<Rightarrow> (device_type \<Rightarrow> rstr option) \<times> bool \<times> keyboard_report \<times> u8 \<times> led_state \<times>
    (u32 \<times> u32) option \<times> rstr option \<times> bool \<times> bool \<times> bool" where
  "otg_rest b = (ob_path b, ob_keyboard_leds_enabled b, ob_keyboard_state b, ob_mouse_buttons b, ob_led_state b,
     ob_screen_resolution b, ob_udc_name b, ob_initialized b, ob_worker_stop b, ob_worker b)"

definition otg_health :: "otg_backend \<Rightarrow> bool \<times> (rstr \<times> rstr) option" where
  "otg_health b = (ob_online b, ob_last_error b)"

definition announces_health :: "otg_backend \<Rightarrow> otg_backend \<Rightarrow> bool" where
  "announces_health b b' \<longleftrightarrow> ob_notified b \<le> ob_notified b' \<and> (otg_health b' \<noteq> otg_health b \<longrightarrow> ob_notified b < ob_notified b')"

lemma announces_health_refl [simp]: "announces_health b b"
  by (simp add: announces_health_def)

lemma announces_health_trans [trans]: "announces_health b b' \<Longrightarrow> announces_health b' b'' \<Longrightarrow> announces_health b b''"
  by (auto simp: announces_health_def)

text \<open>The effect of sending reports \<open>rs\<close> to the device \<open>d\<close>: what may be left of them on the wire, who is told, and that an
  error that is returned is the one that is recorded.\<close>

definition sends :: "device_type \<Rightarrow> bytes list \<Rightarrow> otg_backend \<Rightarrow> otg_error + unit \<Rightarrow> otg_backend \<Rightarrow> bool" where
  "sends d rs b r b' \<longleftrightarrow>
     otg_rest b' = otg_rest b \<and>
     (\<exists>n \<le> length rs. ob_wire b' = ob_wire b @ map (Pair d) (take n rs)) \<and>
     (ob_path b d = None \<longrightarrow> ob_wire b' = ob_wire b \<and> ob_open b' = ob_open b \<and> r = Inr ()) \<and>
     (\<forall>x. x \<noteq> d \<longrightarrow> ob_open b' x = ob_open b x) \<and>
     announces_health b b' \<and>
     (r = Inr () \<longrightarrow> ob_path b d = None \<or> (ob_online b' \<and> ob_last_error b' = None)) \<and>
     (\<forall>reason code. r = Inl (OtgHidError reason code) \<longrightarrow> \<not> ob_online b' \<and> ob_last_error b' = Some (reason, code)) \<and>
     (\<forall>reason. r = Inl (OtgInternal reason) \<longrightarrow> \<not> ob_online b' \<and>
        (\<exists>text. ob_last_error b' = Some (text, lit ''not_opened''))) \<and>
     (ob_eagain_count b = 0 \<longrightarrow> ob_eagain_count b' = 0)"

lemmas otg_views = otg_rest_def otg_health_def announces_health_def

lemma mark_online_effect:
  "otg_rest (mark_online b) = otg_rest b" "ob_wire (mark_online b) = ob_wire b" "ob_open (mark_online b) = ob_open b"
  "announces_health b (mark_online b)" "ob_online (mark_online b)" "ob_last_error (mark_online b) = None"
  "ob_eagain_count (mark_online b) = ob_eagain_count b" "ob_path (mark_online b) = ob_path b"
  by (cases "ob_last_error b"; auto simp: mark_online_def Let_def notify_runtime_changed_def otg_views)+

lemma record_error_effect:
  "otg_rest (record_error s c b) = otg_rest b" "ob_wire (record_error s c b) = ob_wire b" "ob_open (record_error s c b) = ob_open b"
  "announces_health b (record_error s c b)" "\<not> ob_online (record_error s c b)" "ob_last_error (record_error s c b) = Some (s, c)"
  "ob_eagain_count (record_error s c b) = ob_eagain_count b" "ob_path (record_error s c b) = ob_path b"
  by (auto simp: record_error_def Let_def notify_runtime_changed_def otg_views)

lemma ensure_device_effect:
  assumes "ensure_device env d (b, w) = (r, (b', w'))"
  shows "otg_rest b' = otg_rest b \<and> ob_wire b' = ob_wire b \<and> (\<forall>x. x \<noteq> d \<longrightarrow> ob_open b' x = ob_open b x) \<and> announces_health b b' \<and>
    (r = Inr () \<longrightarrow> ob_open b' d \<and> ob_online b' \<and> ob_last_error b' = None) \<and>
    (\<forall>reason code. r = Inl (OtgHidError reason code) \<longrightarrow> \<not> ob_online b' \<and> ob_last_error b' = Some (reason, code)) \<and>
    (\<forall>reason. r = Inl (OtgInternal reason) \<longrightarrow> \<not> ob_online b' \<and> (\<exists>text. ob_last_error b' = Some (text, lit ''not_opened''))) \<and>
    ob_eagain_count b' = ob_eagain_count b"
  using assms
  by (cases "ob_last_error b"; auto simp: ensure_device_def open_device_def Let_def mark_online_effect record_error_effect set_open_def
      split: option.splits prod.splits bool.splits sum.splits if_splits)
    (auto simp: mark_online_def record_error_def Let_def notify_runtime_changed_def otg_views)

lemma write_with_timeout_effect:
  assumes "write_with_timeout env d data (b, w) = (r, (b', w'))"
  shows "b' = b\<lparr>ob_wire := ob_wire b @ (if r = Inr True then [(d, data)] else [])\<rparr>"
  using assms by (auto simp: write_with_timeout_def Let_def split: prod.splits poll_result.splits sum.splits if_splits)

lemma write_failed_effect:
  assumes "write_failed d clears operation e (b, w) = (r, (b', w'))"
  shows "otg_rest b' = otg_rest b \<and> ob_wire b' = ob_wire b \<and> (\<forall>x. x \<noteq> d \<longrightarrow> ob_open b' x = ob_open b x) \<and> announces_health b b' \<and>
    (r = Inr () \<longrightarrow> b' = b) \<and>
    (\<forall>x. r = Inl x \<longrightarrow> (\<exists>reason code. x = OtgHidError reason code \<and> \<not> ob_online b' \<and> ob_last_error b' = Some (reason, code))) \<and>
    (ob_eagain_count b = 0 \<longrightarrow> ob_eagain_count b' = 0)"
  using assms
  by (auto simp: write_failed_def Let_def bindE_def on_backend_def modifyE_def throwE_def returnE_def set_open_def
      record_error_effect io_error_to_hid_error_def io_error_code_def split: if_splits)
    (auto simp: record_error_def Let_def notify_runtime_changed_def otg_views)

text \<open>The common shape of the four functions that send.\<close>

definition deliver :: "'w otg_env \<Rightarrow> device_type \<Rightarrow> bytes \<Rightarrow> ('w, unit) otg_op \<Rightarrow> ('w, unit) otg_op \<Rightarrow> bool \<Rightarrow> rstr \<Rightarrow> rstr \<Rightarrow> ('w, unit) otg_op" where
  "deliver env d data written dropped clears operation name bw =
     (if ob_path (fst bw) d = None then (Inr (), bw)
      else bindE (ensure_device env d) (\<lambda>_ bw.
        if \<not> ob_open (fst bw) d then (Inl (not_opened name), bw)
        else
          (case write_with_timeout env d data bw of
             (Inr True, bw) \<Rightarrow> written bw
           | (Inr False, bw) \<Rightarrow> dropped bw
           | (Inl e, bw) \<Rightarrow> write_failed d clears operation e bw)) bw)"

lemma send_deliver:
  "send_keyboard_report env report = deliver env DevKeyboard (keyboard_report_to_bytes report)
     (on_backend (reset_error_count \<circ> mark_online)) (log_throttled_error env) True (lit ''Failed to write keyboard report'') (lit ''Keyboard'')"
  "send_mouse_report_relative env buttons dx dy wheel = deliver env DevMouseRelative [buttons, dx, dy, wheel]
     (on_backend (reset_error_count \<circ> mark_online)) (returnE ()) True (lit ''Failed to write mouse report'') (lit ''Relative mouse'')"
  "send_mouse_report_absolute env buttons x y wheel = deliver env DevMouseAbsolute
     [buttons, ucast (x AND 0xFF), ucast (drop_bit 8 x), ucast (y AND 0xFF), ucast (drop_bit 8 y), wheel]
     (on_backend (reset_error_count \<circ> mark_online)) (returnE ()) True (lit ''Failed to write mouse report'') (lit ''Absolute mouse'')"
  "send_consumer_report env u = deliver env DevConsumerControl [ucast (u AND 0xFF), ucast (drop_bit 8 u)]
     (\<lambda>bw. on_backend (reset_error_count \<circ> mark_online) (snd (write_with_timeout env DevConsumerControl [0, 0] bw)))
     (returnE ()) False (lit ''Failed to write consumer report'') (lit ''Consumer control'')"
  unfolding send_keyboard_report_def [abs_def] send_mouse_report_relative_def [abs_def] send_mouse_report_absolute_def [abs_def]
    send_consumer_report_def [abs_def] deliver_def [abs_def] returnE_def [abs_def] case_prod_unfold
  by (rule refl)+

text \<open>What follows a write or a drop: it succeeds, and writes at most the reports \<open>rs\<close>.\<close>

definition settles :: "device_type \<Rightarrow> bytes list \<Rightarrow> ('w, unit) otg_op \<Rightarrow> bool" where
  "settles d rs m \<longleftrightarrow> (\<forall>b w r b' w'. m (b, w) = (r, (b', w')) \<longrightarrow> ob_online b \<longrightarrow> ob_last_error b = None \<longrightarrow>
     r = Inr () \<and> otg_rest b' = otg_rest b \<and> (\<exists>n \<le> length rs. ob_wire b' = ob_wire b @ map (Pair d) (take n rs)) \<and>
     ob_open b' = ob_open b \<and> otg_health b' = otg_health b \<and> ob_notified b' = ob_notified b \<and>
     (ob_eagain_count b = 0 \<longrightarrow> ob_eagain_count b' = 0))"

lemma settlesD:
  assumes "settles d rs m" and "m (b, w) = (r, (b', w'))" and "ob_online b" and "ob_last_error b = None"
  shows "r = Inr ()" "otg_rest b' = otg_rest b" "\<exists>n \<le> length rs. ob_wire b' = ob_wire b @ map (Pair d) (take n rs)"
    "ob_open b' = ob_open b" "otg_health b' = otg_health b" "ob_notified b' = ob_notified b" "ob_eagain_count b = 0 \<Longrightarrow> ob_eagain_count b' = 0"
  using assms unfolding settles_def by blast+

lemma settles_ops:
  "settles d [] (on_backend (reset_error_count \<circ> mark_online))" "settles d [] (returnE ())" "settles d [] (log_throttled_error env)"
  "settles d [data] (\<lambda>bw. on_backend (reset_error_count \<circ> mark_online) (snd (write_with_timeout env d data bw)))"
proof -
  show 1: "settles d [] (on_backend (reset_error_count \<circ> mark_online))" "settles d [] (returnE ())" "settles d [] (log_throttled_error env)"
    by (auto simp: settles_def on_backend_def modifyE_def returnE_def reset_error_count_def mark_online_def Let_def
        log_throttled_error_def bindE_def ask_def otg_views split: prod.splits)
  show "settles d [data] (\<lambda>bw. on_backend (reset_error_count \<circ> mark_online) (snd (write_with_timeout env d data bw)))"
    unfolding settles_def
  proof (intro allI impI)
    fix b w r b' w'
    assume m: "on_backend (reset_error_count \<circ> mark_online) (snd (write_with_timeout env d data (b, w))) = (r, (b', w'))"
      and h: "ob_online b" "ob_last_error b = None"
    obtain q b1 w1 where q: "write_with_timeout env d data (b, w) = (q, (b1, w1))" by (metis prod.collapse)
    define ws where "ws = (if q = Inr True then [(d, data)] else [])"
    have b1: "b1 = b\<lparr>ob_wire := ob_wire b @ ws\<rparr>" using write_with_timeout_effect [OF q] by (simp add: ws_def)
    have "r = Inr ()" "b' = b1\<lparr>ob_error_count := 0, ob_eagain_count := 0\<rparr>" using m h q b1
      by (auto simp: on_backend_def modifyE_def reset_error_count_def mark_online_def Let_def)
    moreover have "\<exists>n \<le> length [data]. ws = map (Pair d) (take n [data])"
      by (cases "q = Inr True") (auto simp: ws_def intro: exI [of _ 0] exI [of _ 1])
    ultimately show "r = Inr () \<and> otg_rest b' = otg_rest b \<and> (\<exists>n \<le> length [data]. ob_wire b' = ob_wire b @ map (Pair d) (take n [data])) \<and>
       ob_open b' = ob_open b \<and> otg_health b' = otg_health b \<and> ob_notified b' = ob_notified b \<and>
       (ob_eagain_count b = 0 \<longrightarrow> ob_eagain_count b' = 0)"
      using b1 by (auto simp: otg_views)
  qed
qed

lemma sendsI:
  assumes "otg_rest b' = otg_rest b" and "n \<le> length rs" and "ob_wire b' = ob_wire b @ map (Pair d) (take n rs)" and "ob_path b d \<noteq> None"
    and "\<And>x. x \<noteq> d \<Longrightarrow> ob_open b' x = ob_open b x" and "announces_health b b'"
    and "r = Inr () \<Longrightarrow> ob_online b' \<and> ob_last_error b' = None"
    and "\<And>reason code. r = Inl (OtgHidError reason code) \<Longrightarrow> \<not> ob_online b' \<and> ob_last_error b' = Some (reason, code)"
    and "\<And>reason. r = Inl (OtgInternal reason) \<Longrightarrow> \<not> ob_online b' \<and> (\<exists>text. ob_last_error b' = Some (text, lit ''not_opened''))"
    and "ob_eagain_count b = 0 \<Longrightarrow> ob_eagain_count b' = 0"
  shows "sends d rs b r b'"
  using assms unfolding sends_def by blast

lemma announces_health_cong:
  "otg_health b' = otg_health b \<Longrightarrow> ob_notified b' = ob_notified b \<Longrightarrow> announces_health a b \<Longrightarrow> announces_health a b'"
  by (simp add: announces_health_def)

lemma deliver_sends:
  assumes "settles d rs written" and "settles d [] dropped"
    and "deliver env d data written dropped clears operation name (b, w) = (r, (b', w'))"
  shows "sends d (data # rs) b r b'"
proof (cases "ob_path b d = None")
  case True
  then show ?thesis using assms(3) by (auto simp: deliver_def sends_def intro: exI [of _ 0])
next
  case False
  obtain r1 b1 w1 where e: "ensure_device env d (b, w) = (r1, (b1, w1))" by (metis prod.collapse)
  note E = ensure_device_effect [OF e]
  show ?thesis
  proof (cases r1)
    case (Inl x)
    then have "r = Inl x" "b' = b1" using assms(3) False e by (auto simp: deliver_def bindE_def)
    then show ?thesis using E Inl False by (auto simp: sends_def intro: exI [of _ 0])
  next
    case (Inr u)
    obtain q b2 w2 where q: "write_with_timeout env d data (b1, w1) = (q, (b2, w2))" by (metis prod.collapse)
    have o: "ob_open b1 d" "ob_online b1" "ob_last_error b1 = None" using E Inr by auto
    have m: "(case q of Inl x \<Rightarrow> write_failed d clears operation x (b2, w2) | Inr True \<Rightarrow> written (b2, w2) | Inr False \<Rightarrow> dropped (b2, w2)) = (r, (b', w'))"
      using assms(3) False e Inr q o by (simp add: deliver_def bindE_def split: sum.splits bool.splits)
    have b2: "b2 = b1\<lparr>ob_wire := ob_wire b1 @ (if q = Inr True then [(d, data)] else [])\<rparr>" by (rule write_with_timeout_effect [OF q])
    show ?thesis
    proof (cases q)
      case (Inl x)
      then have "write_failed d clears operation x (b1, w2) = (r, (b', w'))" using m b2 by simp
      note W = write_failed_effect [OF this]
      show ?thesis
      proof (rule sendsI [where n = 0])
        show "announces_health b b'" using E W announces_health_trans by blast
        show "ob_online b' \<and> ob_last_error b' = None" if "r = Inr ()" using W o that by simp
        show "ob_open b' x = ob_open b x" if "x \<noteq> d" for x using E W that by simp
        show "\<not> ob_online b' \<and> ob_last_error b' = Some (reason, code)" if "r = Inl (OtgHidError reason code)" for reason code
          using W that by blast
        show "\<not> ob_online b' \<and> (\<exists>text. ob_last_error b' = Some (text, lit ''not_opened''))" if "r = Inl (OtgInternal reason)" for reason
          using W that by blast
      qed (use E W False in simp_all)
    next
      case (Inr ok)
      show ?thesis
      proof (cases ok)
        case True
        then have "written (b2, w2) = (r, (b', w'))" using m Inr by simp
        moreover have "ob_online b2" "ob_last_error b2 = None" using b2 o by auto
        ultimately obtain n where "r = Inr ()" "otg_rest b' = otg_rest b2" "n \<le> length rs" "ob_wire b' = ob_wire b2 @ map (Pair d) (take n rs)"
          "ob_open b' = ob_open b2" "otg_health b' = otg_health b2" "ob_notified b' = ob_notified b2" "ob_eagain_count b2 = 0 \<longrightarrow> ob_eagain_count b' = 0"
          using assms(1) unfolding settles_def by blast
        note W = this
        show ?thesis
        proof (rule sendsI [where n = "Suc n"])
          show "ob_wire b' = ob_wire b @ map (Pair d) (take (Suc n) (data # rs))" using E W b2 Inr True by simp
          show "otg_rest b' = otg_rest b" using E W(2) b2 by (simp add: otg_rest_def)
          show "announces_health b b'"
            using E W(6,7) b2 by (intro announces_health_cong [of b' b1 b]) (simp_all add: otg_health_def)
          show "ob_online b' \<and> ob_last_error b' = None" using W(6) b2 o by (simp add: otg_health_def)
          show "ob_open b' x = ob_open b x" if "x \<noteq> d" for x using E W(5) b2 that by simp
        qed (use E W b2 o \<open>ob_path b d \<noteq> None\<close> in simp_all)
      next
        case False
        then have "dropped (b1, w2) = (r, (b', w'))" using m Inr b2 by simp
        then have "r = Inr ()" "otg_rest b' = otg_rest b1" "ob_wire b' = ob_wire b1"
          "ob_open b' = ob_open b1" "otg_health b' = otg_health b1" "ob_notified b' = ob_notified b1" "ob_eagain_count b1 = 0 \<longrightarrow> ob_eagain_count b' = 0"
          using settlesD [OF assms(2)] o by auto
        note W = this
        show ?thesis
        proof (rule sendsI [where n = 0])
          show "announces_health b b'" using E W(5,6) by (intro announces_health_cong [of b' b1 b]) simp_all
          show "ob_online b' \<and> ob_last_error b' = None" using W(5) o by (simp add: otg_health_def)
          show "ob_open b' x = ob_open b x" if "x \<noteq> d" for x using E W(4) that by simp
        qed (use E W \<open>ob_path b d \<noteq> None\<close> in simp_all)
      qed
    qed
  qed
qed

lemma send_effects:
  "send_keyboard_report env report (b, w) = (r, (b', w')) \<Longrightarrow> sends DevKeyboard [keyboard_report_to_bytes report] b r b'"
  "send_mouse_report_relative env buttons dx dy wheel (b, w) = (r, (b', w')) \<Longrightarrow> sends DevMouseRelative [[buttons, dx, dy, wheel]] b r b'"
  "send_mouse_report_absolute env buttons x y wheel (b, w) = (r, (b', w')) \<Longrightarrow>
     sends DevMouseAbsolute [[buttons, ucast (x AND 0xFF), ucast (drop_bit 8 x), ucast (y AND 0xFF), ucast (drop_bit 8 y), wheel]] b r b'"
  "send_consumer_report env u (b, w) = (r, (b', w')) \<Longrightarrow>
     sends DevConsumerControl [[ucast (u AND 0xFF), ucast (drop_bit 8 u)], [0, 0]] b r b'"
  unfolding send_deliver by (erule deliver_sends [rotated 2]; rule settles_ops)+

section \<open>What is asked for, and what arrives\<close>

datatype otg_call =
    KeyboardCall keyboard_event
  | MouseCall mouse_event
  | ConsumerCall consumer_event
  | ResetCall
  | ShutdownCall
  | ResolutionCall u32 u32

definition otg_call :: "'w otg_env \<Rightarrow> otg_call \<Rightarrow> ('w, unit) otg_op" where
  "otg_call env c =
     (case c of
        KeyboardCall ev \<Rightarrow> otg_send_keyboard env ev
      | MouseCall ev \<Rightarrow> otg_send_mouse env ev
      | ConsumerCall ev \<Rightarrow> otg_send_consumer env ev
      | ResetCall \<Rightarrow> otg_reset env
      | ShutdownCall \<Rightarrow> otg_shutdown env
      | ResolutionCall width height \<Rightarrow> on_backend (otg_set_screen_resolution width height))"

text \<open>Callers log an error and go on.\<close>

fun otg_run :: "'w otg_env \<Rightarrow> otg_call list \<Rightarrow> otg_backend \<times> 'w \<Rightarrow> otg_backend \<times> 'w" where
  "otg_run env [] bw = bw"
| "otg_run env (c # cs) bw = otg_run env cs (snd (otg_call env c bw))"

text \<open>The HID state as an observer has it: the pressed keys and buttons, and the reports that each call should send. When
  the keyboard cannot be written, a reset leaves the mouse alone.\<close>

type_synonym hid_view = "keyboard_report \<times> u8"

definition absolute_report :: "u16 \<Rightarrow> u16 \<Rightarrow> bytes" where
  "absolute_report x y = [0, ucast (x AND 0xFF), ucast (drop_bit 8 x), ucast (y AND 0xFF), ucast (drop_bit 8 y), 0]"

definition mouse_step :: "mouse_event \<Rightarrow> u8 \<Rightarrow> (device_type \<times> bytes) list \<times> u8" where
  "mouse_step ev m =
     (case me_type ev of
        MouseMove \<Rightarrow> ([(DevMouseRelative, [m, word_of_int (clamp_i32 (-127) 127 (me_x ev)), word_of_int (clamp_i32 (-127) 127 (me_y ev)), 0])], m)
      | MouseMoveAbs \<Rightarrow> ([(DevMouseAbsolute, absolute_report (word_of_int (clamp_i32 0 32767 (me_x ev))) (word_of_int (clamp_i32 0 32767 (me_y ev))))], m)
      | MouseDown \<Rightarrow> (case me_button ev of None \<Rightarrow> ([], m)
          | Some button \<Rightarrow> ([(DevMouseRelative, [m OR to_hid_bit button, 0, 0, 0])], m OR to_hid_bit button))
      | MouseUp \<Rightarrow> (case me_button ev of None \<Rightarrow> ([], m)
          | Some button \<Rightarrow> ([(DevMouseRelative, [m AND NOT (to_hid_bit button), 0, 0, 0])], m AND NOT (to_hid_bit button)))
      | MouseScroll \<Rightarrow> ([(DevMouseRelative, [m, 0, 0, me_scroll ev])], m))"

definition reset_reports :: "keyboard_report \<Rightarrow> (device_type \<times> bytes) list" where
  "reset_reports k = [(DevKeyboard, keyboard_report_to_bytes (clear_report k)), (DevMouseRelative, [0, 0, 0, 0]), (DevMouseAbsolute, absolute_report 0 0)]"

inductive hid_step :: "hid_view \<Rightarrow> otg_call \<Rightarrow> (device_type \<times> bytes) list \<Rightarrow> hid_view \<Rightarrow> bool" where
  keyboard: "hid_step (k, m) (KeyboardCall ev) [(DevKeyboard, keyboard_report_to_bytes (otg_keyboard_state ev k))] (otg_keyboard_state ev k, m)"
| mouse: "mouse_step ev m = (rs, m') \<Longrightarrow> hid_step (k, m) (MouseCall ev) rs (k, m')"
| consumer: "hid_step v (ConsumerCall ev) [(DevConsumerControl, [ucast (usage ev AND 0xFF), ucast (drop_bit 8 (usage ev))]), (DevConsumerControl, [0, 0])] v"
| reset: "c \<in> {ResetCall, ShutdownCall} \<Longrightarrow> hid_step (k, m) c (reset_reports k) (clear_report k, 0)"
| reset_cut: "c \<in> {ResetCall, ShutdownCall} \<Longrightarrow> hid_step (k, m) c [(DevKeyboard, keyboard_report_to_bytes (clear_report k))] (clear_report k, m)"
| resolution: "hid_step v (ResolutionCall width height) [] v"

inductive_cases hid_step_cases: "hid_step v c rs v'"

inductive hid_run :: "hid_view \<Rightarrow> otg_call list \<Rightarrow> (device_type \<times> bytes) list \<Rightarrow> hid_view \<Rightarrow> bool" where
  run_none: "hid_run v [] [] v"
| run_call: "hid_step v c rs v' \<Longrightarrow> hid_run v' cs rs' v'' \<Longrightarrow> hid_run v (c # cs) (rs @ rs') v''"

definition otg_view :: "otg_backend \<Rightarrow> hid_view" where
  "otg_view b = (ob_keyboard_state b, ob_mouse_buttons b)"

lemma sends_wire:
  assumes "sends d rs b r b'"
  obtains ws where "ob_wire b' = ob_wire b @ ws" "subseq ws (map (Pair d) rs)" "\<forall>x \<in> set ws. ob_path b (fst x) \<noteq> None"
    "otg_view b' = otg_view b" "ob_path b' = ob_path b"
proof -
  obtain n where n: "n \<le> length rs" "ob_wire b' = ob_wire b @ map (Pair d) (take n rs)" using assms by (auto simp: sends_def)
  have "subseq (map (Pair d) (take n rs)) (map (Pair d) rs)"
    unfolding take_map [symmetric] by (rule prefix_imp_subseq [OF take_is_prefix])
  moreover have "\<forall>x \<in> set (map (Pair d) (take n rs)). ob_path b (fst x) \<noteq> None"
    using n assms by (cases "take n rs") (auto simp: sends_def)
  moreover have "otg_view b' = otg_view b" "ob_path b' = ob_path b" using assms by (auto simp: sends_def otg_rest_def otg_view_def)
  ultimately show thesis using that n(2) by blast
qed

text \<open>One call does one step of the observer's machine, and writes a selection of its reports, in order.\<close>

definition calls :: "otg_backend \<Rightarrow> otg_call \<Rightarrow> otg_backend \<Rightarrow> bool" where
  "calls b c b' \<longleftrightarrow> (\<exists>ws rs. ob_wire b' = ob_wire b @ ws \<and> subseq ws rs \<and>
     (\<forall>x \<in> set ws. ob_path b (fst x) \<noteq> None) \<and> hid_step (otg_view b) c rs (otg_view b') \<and> ob_path b' = ob_path b)"

lemma callsI:
  "ob_wire b' = ob_wire b @ ws \<Longrightarrow> subseq ws rs \<Longrightarrow> \<forall>x \<in> set ws. ob_path b (fst x) \<noteq> None \<Longrightarrow> hid_step (otg_view b) c rs (otg_view b') \<Longrightarrow> ob_path b' = ob_path b \<Longrightarrow> calls b c b'"
  unfolding calls_def by blast

lemma sends_calls:
  assumes "sends d ds b1 r b'" and "hid_step (otg_view b) c (map (Pair d) ds) (otg_view b1)"
    and "ob_wire b1 = ob_wire b" and "ob_path b1 = ob_path b"
  shows "calls b c b'"
  using sends_wire [OF assms(1)] assms(2-4) by (metis callsI)

lemma keyboard_calls:
  assumes "otg_send_keyboard env ev (b, w) = (r, (b', w'))"
  shows "calls b (KeyboardCall ev) b'"
proof -
  define b1 where "b1 = b\<lparr>ob_keyboard_state := otg_keyboard_state ev (ob_keyboard_state b)\<rparr>"
  have "send_keyboard_report env (ob_keyboard_state b1) (b1, w) = (r, (b', w'))"
    using assms by (simp add: otg_send_keyboard_def bindE_def on_backend_def modifyE_def getsE_def b1_def)
  from sends_calls [OF send_effects(1) [OF this], of b] show ?thesis
    by (simp add: b1_def otg_view_def hid_step.keyboard)
qed

lemma mouse_calls:
  assumes "otg_send_mouse env ev (b, w) = (r, (b', w'))"
  shows "calls b (MouseCall ev) b'"
proof -
  have step: "mouse_step ev (ob_mouse_buttons b) = (rs, ob_mouse_buttons c) \<Longrightarrow> ob_keyboard_state c = ob_keyboard_state b \<Longrightarrow>
      hid_step (otg_view b) (MouseCall ev) rs (otg_view c)" for rs c
    by (simp add: otg_view_def hid_step.mouse)
  show ?thesis
  proof (cases "me_type ev")
    case MouseMove
    then show ?thesis using assms
      by (intro sends_calls [OF send_effects(2) step]) (auto simp: otg_send_mouse_def mouse_step_def)
  next
    case MouseMoveAbs
    then show ?thesis using assms
      by (intro sends_calls [OF send_effects(3) step]) (auto simp: otg_send_mouse_def mouse_step_def absolute_report_def)
  next
    case MouseScroll
    then show ?thesis using assms
      by (intro sends_calls [OF send_effects(2) step]) (auto simp: otg_send_mouse_def mouse_step_def)
  next
    case MouseDown
    show ?thesis
    proof (cases "me_button ev")
      case None
      then have "b' = b" using assms MouseDown by (simp add: otg_send_mouse_def)
      then show ?thesis using step [of "[]" b] MouseDown None by (intro callsI [of b' b "[]" "[]"]) (simp_all add: mouse_step_def)
    next
      case (Some button)
      then show ?thesis using assms MouseDown
        by (intro sends_calls [OF send_effects(2) step [where c = "b\<lparr>ob_mouse_buttons := ob_mouse_buttons b OR to_hid_bit button\<rparr>"]]) (auto simp: otg_send_mouse_def mouse_step_def Let_def)
    qed
  next
    case MouseUp
    show ?thesis
    proof (cases "me_button ev")
      case None
      then have "b' = b" using assms MouseUp by (simp add: otg_send_mouse_def)
      then show ?thesis using step [of "[]" b] MouseUp None by (intro callsI [of b' b "[]" "[]"]) (simp_all add: mouse_step_def)
    next
      case (Some button)
      then show ?thesis using assms MouseUp
        by (intro sends_calls [OF send_effects(2) step [where c = "b\<lparr>ob_mouse_buttons := ob_mouse_buttons b AND NOT (to_hid_bit button)\<rparr>"]]) (auto simp: otg_send_mouse_def mouse_step_def Let_def)
    qed
  qed
qed

lemma consumer_calls:
  assumes "otg_send_consumer env ev (b, w) = (r, (b', w'))"
  shows "calls b (ConsumerCall ev) b'"
  using sends_calls [OF send_effects(4) [OF assms [unfolded otg_send_consumer_def]], of b "ConsumerCall ev"]
  by (simp add: hid_step.consumer)

text \<open>A reset, step by step.\<close>

lemma otg_reset_steps:
  assumes "otg_reset env (b, w) = (r, (b', w'))"
  defines "b1 \<equiv> b\<lparr>ob_keyboard_state := clear_report (ob_keyboard_state b)\<rparr>"
  obtains (failed) e where "r = Inl e" "sends DevKeyboard [keyboard_report_to_bytes (ob_keyboard_state b1)] b1 r b'"
  | (sent) r3 b2 b3 where "sends DevKeyboard [keyboard_report_to_bytes (ob_keyboard_state b1)] b1 (Inr ()) b2"
      "sends DevMouseRelative [[0, 0, 0, 0]] (b2\<lparr>ob_mouse_buttons := 0\<rparr>) r3 b3"
      "(\<exists>e. r3 = Inl e) \<and> r = r3 \<and> b' = b3 \<or> r3 = Inr () \<and> sends DevMouseAbsolute [absolute_report 0 0] b3 r b'"
proof -
  obtain r2 b2 w2 where k: "send_keyboard_report env (ob_keyboard_state b1) (b1, w) = (r2, (b2, w2))" by (metis prod.collapse)
  note K = send_effects(1) [OF k]
  show thesis
  proof (cases r2)
    case (Inl e)
    then have "r = Inl e" "b' = b2" using assms(1) k by (auto simp: otg_reset_def bindE_def on_backend_def modifyE_def getsE_def b1_def)
    then show thesis using failed K Inl by blast
  next
    case (Inr u)
    obtain r3 b3 w3 where m: "send_mouse_report_relative env 0 0 0 0 (b2\<lparr>ob_mouse_buttons := 0\<rparr>, w2) = (r3, (b3, w3))" by (metis prod.collapse)
    have rest: "(case r3 of Inl e \<Rightarrow> (Inl e, (b3, w3)) | Inr u \<Rightarrow> send_mouse_report_absolute env 0 0 0 0 (b3, w3)) = (r, (b', w'))"
      using assms(1) k Inr m by (simp add: otg_reset_def bindE_def on_backend_def modifyE_def getsE_def b1_def split: sum.splits)
    have "(\<exists>e. r3 = Inl e) \<and> r = r3 \<and> b' = b3 \<or> r3 = Inr () \<and> sends DevMouseAbsolute [absolute_report 0 0] b3 r b'"
    proof (cases r3)
      case (Inr u)
      then have "send_mouse_report_absolute env 0 0 0 0 (b3, w3) = (r, (b', w'))" using rest by simp
      from send_effects(3) [OF this] show ?thesis using Inr by (simp add: absolute_report_def)
    qed (use rest in auto)
    then show thesis using sent K Inr send_effects(2) [OF m] by simp
  qed
qed

lemma reset_calls:
  assumes "otg_reset env (b, w) = (r, (b', w'))" and c: "c \<in> {ResetCall, ShutdownCall}"
  shows "calls b c b'"
  using assms(1)
proof (cases rule: otg_reset_steps)
  case (failed e)
  from sends_calls [OF failed(2), of b c] show ?thesis using c by (simp add: otg_view_def hid_step.reset_cut)
next
  case (sent r3 b2 b3)
  define k where "k = clear_report (ob_keyboard_state b)"
  have s1: "sends DevKeyboard [keyboard_report_to_bytes k] (b\<lparr>ob_keyboard_state := k\<rparr>) (Inr ()) b2"
    using sent(1) by (simp add: k_def)
  obtain w1 where W1: "ob_wire b2 = ob_wire (b\<lparr>ob_keyboard_state := k\<rparr>) @ w1" "subseq w1 (map (Pair DevKeyboard) [keyboard_report_to_bytes k])"
    "\<forall>x \<in> set w1. ob_path (b\<lparr>ob_keyboard_state := k\<rparr>) (fst x) \<noteq> None" "otg_view b2 = otg_view (b\<lparr>ob_keyboard_state := k\<rparr>)"
    "ob_path b2 = ob_path (b\<lparr>ob_keyboard_state := k\<rparr>)"
    by (rule sends_wire [OF s1])
  then have w1: "ob_wire b2 = ob_wire b @ w1" "subseq w1 [(DevKeyboard, keyboard_report_to_bytes k)]" "\<forall>x \<in> set w1. ob_path b (fst x) \<noteq> None"
    "ob_keyboard_state b2 = k" "ob_path b2 = ob_path b" by (simp_all add: otg_view_def)
  obtain w2 where W2: "ob_wire b3 = ob_wire (b2\<lparr>ob_mouse_buttons := 0\<rparr>) @ w2" "subseq w2 (map (Pair DevMouseRelative) [[0, 0, 0, 0]])"
    "\<forall>x \<in> set w2. ob_path (b2\<lparr>ob_mouse_buttons := 0\<rparr>) (fst x) \<noteq> None" "otg_view b3 = otg_view (b2\<lparr>ob_mouse_buttons := 0\<rparr>)"
    "ob_path b3 = ob_path (b2\<lparr>ob_mouse_buttons := 0\<rparr>)"
    by (rule sends_wire [OF sent(2)])
  then have w2: "ob_wire b3 = ob_wire b2 @ w2" "subseq w2 [(DevMouseRelative, [0, 0, 0, 0])]" "\<forall>x \<in> set w2. ob_path b (fst x) \<noteq> None"
    "otg_view b3 = (k, 0)" "ob_path b3 = ob_path b"
    using w1(4,5) by (simp_all add: otg_view_def)
  have "\<exists>w3. ob_wire b' = ob_wire b3 @ w3 \<and> subseq w3 [(DevMouseAbsolute, absolute_report 0 0)] \<and>
      (\<forall>x \<in> set w3. ob_path b (fst x) \<noteq> None) \<and> otg_view b' = otg_view b3 \<and> ob_path b' = ob_path b3"
    using sent(3)
  proof
    assume "(\<exists>e. r3 = Inl e) \<and> r = r3 \<and> b' = b3"
    then show ?thesis by (intro exI [of _ "[]"]) simp
  next
    assume "r3 = Inr () \<and> sends DevMouseAbsolute [absolute_report 0 0] b3 r b'"
    then show ?thesis using sends_wire [of DevMouseAbsolute "[absolute_report 0 0]" b3 r b'] w2(5) by (metis list.map(1) list.map(2))
  qed
  then obtain w3 where w3: "ob_wire b' = ob_wire b3 @ w3" "subseq w3 [(DevMouseAbsolute, absolute_report 0 0)]"
    "\<forall>x \<in> set w3. ob_path b (fst x) \<noteq> None" "otg_view b' = otg_view b3" "ob_path b' = ob_path b3"
    by blast
  have "subseq (w1 @ w2 @ w3) ([(DevKeyboard, keyboard_report_to_bytes k)] @ [(DevMouseRelative, [0, 0, 0, 0])] @ [(DevMouseAbsolute, absolute_report 0 0)])"
    by (intro list_emb_append_mono w1(2) w2(2) w3(2))
  then have "subseq (w1 @ w2 @ w3) (reset_reports (ob_keyboard_state b))" by (simp add: reset_reports_def k_def)
  moreover have "hid_step (otg_view b) c (reset_reports (ob_keyboard_state b)) (otg_view b')"
    using hid_step.reset [OF c] w2(4) w3(4) by (simp add: otg_view_def k_def)
  moreover have "ob_wire b' = ob_wire b @ w1 @ w2 @ w3" "ob_path b' = ob_path b"
    "\<forall>x \<in> set (w1 @ w2 @ w3). ob_path b (fst x) \<noteq> None" using w1 w2 w3 by auto
  ultimately show ?thesis by (intro callsI)
qed

lemma otg_shutdown_steps:
  assumes "otg_shutdown env (b, w) = (r, (b', w'))"
  obtains (failed) e where "otg_reset env (stop_runtime_worker b, w) = (Inl e, (b', w'))" "r = Inl e"
  | (stopped) b1 where "otg_reset env (stop_runtime_worker b, w) = (Inr (), (b1, w'))" "r = Inr ()"
      "b' = notify_runtime_changed (clear_error ((close_devices b1)\<lparr>ob_initialized := False, ob_online := False\<rparr>))"
proof -
  obtain r1 b1 w1 where r: "otg_reset env (stop_runtime_worker b, w) = (r1, (b1, w1))" by (metis prod.collapse)
  show thesis
  proof (cases r1)
    case (Inl e)
    then have "r = Inl e" "b' = b1" "w' = w1" using assms r by (simp_all add: otg_shutdown_def bindE_def on_backend_def modifyE_def)
    then show thesis using failed r Inl by blast
  next
    case (Inr u)
    then have "r = Inr ()" "b' = notify_runtime_changed (clear_error ((close_devices b1)\<lparr>ob_initialized := False, ob_online := False\<rparr>))" "w' = w1"
      using assms r by (simp_all add: otg_shutdown_def bindE_def on_backend_def modifyE_def)
    then show thesis using stopped r Inr by simp
  qed
qed

lemma shutdown_calls:
  assumes "otg_shutdown env (b, w) = (r, (b', w'))"
  shows "calls b ShutdownCall b'"
proof -
  have s: "otg_view (stop_runtime_worker b) = otg_view b" "ob_wire (stop_runtime_worker b) = ob_wire b" "ob_path (stop_runtime_worker b) = ob_path b"
    by (simp_all add: stop_runtime_worker_def otg_view_def)
  from assms show ?thesis
  proof (cases rule: otg_shutdown_steps)
    case (failed e)
    from reset_calls [OF failed(1), of ShutdownCall] show ?thesis by (simp add: calls_def s)
  next
    case (stopped b1)
    then have "otg_view b' = otg_view b1" "ob_wire b' = ob_wire b1" "ob_path b' = ob_path b1"
      by (auto simp: otg_view_def notify_runtime_changed_def clear_error_def close_devices_def)
    then show ?thesis using reset_calls [OF stopped(1), of ShutdownCall] by (simp add: calls_def s)
  qed
qed

lemma otg_call_calls:
  assumes "otg_call env c (b, w) = (r, (b', w'))"
  shows "calls b c b'"
proof (cases c)
  case (ResolutionCall width height)
  then have "otg_view b' = otg_view b" "ob_wire b' = ob_wire b" "ob_path b' = ob_path b"
    using assms by (auto simp: otg_call_def on_backend_def modifyE_def otg_set_screen_resolution_def notify_runtime_changed_def otg_view_def)
  then show ?thesis using hid_step.resolution [of "otg_view b" width height] ResolutionCall
    by (intro callsI [of b' b "[]" "[]"]) simp_all
qed (use assms keyboard_calls mouse_calls consumer_calls reset_calls [where c = ResetCall] shutdown_calls in \<open>auto simp: otg_call_def\<close>)

lemma otg_run_calls:
  "otg_run env cs (b, w) = (b', w') \<Longrightarrow>
     \<exists>ws rs. ob_wire b' = ob_wire b @ ws \<and> subseq ws rs \<and> (\<forall>x \<in> set ws. ob_path b (fst x) \<noteq> None) \<and> hid_run (otg_view b) cs rs (otg_view b')"
proof (induction cs arbitrary: b w)
  case Nil
  then show ?case by (auto simp: otg_view_def intro: run_none)
next
  case (Cons c cs)
  obtain r b1 w1 where c: "otg_call env c (b, w) = (r, (b1, w1))" by (metis prod.collapse)
  then have "otg_run env cs (b1, w1) = (b', w')" using Cons.prems by simp
  from Cons.IH [OF this] obtain vs qs where q: "ob_wire b' = ob_wire b1 @ vs" "subseq vs qs" "\<forall>x \<in> set vs. ob_path b1 (fst x) \<noteq> None"
    "hid_run (otg_view b1) cs qs (otg_view b')" by blast
  obtain ws rs where s: "ob_wire b1 = ob_wire b @ ws" "subseq ws rs" "\<forall>x \<in> set ws. ob_path b (fst x) \<noteq> None"
    "hid_step (otg_view b) c rs (otg_view b1)" "ob_path b1 = ob_path b"
    using otg_call_calls [OF c] unfolding calls_def by blast
  show ?case
    using run_call [OF s(4) q(4)] list_emb_append_mono [OF s(2) q(2)] s(1,3,5) q(1,3)
    by (intro exI [of _ "ws @ vs"] exI [of _ "rs @ qs"]) auto
qed

text \<open>C3: Whatever the system does call by call (nodes vanish, opening fails, polls time out, writes are refused), the backend
  implements the HID state machine: its keys and buttons are those after all the calls made, and what is on
  the wire is a selection, in order, of the reports that the machine sends to configured devices. A report may be lost, but none is
  invented, repeated, changed or out of order.\<close>

theorem otg_refines_hid:
  "\<exists>ws rs. ob_wire (fst (otg_run env cs (b, w))) = ob_wire b @ ws \<and> subseq ws rs \<and> list_all (\<lambda>(d, report). ob_path b d \<noteq> None) ws \<and>
     hid_run (otg_view b) cs rs (otg_view (fst (otg_run env cs (b, w))))"
  using otg_run_calls [OF prod.collapse [symmetric], of env cs b w] by (simp add: list_all_iff case_prod_unfold)

text \<open>A call is at most one step of \<open>hid_run\<close>; invariants of the machine hold in every run.\<close>

lemma hid_run_invariant:
  assumes "hid_run v cs rs v'" and "P v"
    and "\<And>v c rs v'. hid_step v c rs v' \<Longrightarrow> P v \<Longrightarrow> c \<in> C \<Longrightarrow> P v' \<and> (\<forall>x \<in> set rs. Q x)"
    and "set cs \<subseteq> C"
  shows "P v' \<and> (\<forall>x \<in> set rs. Q x)"
  using assms
proof (induction rule: hid_run.induct)
  case (run_call v c rs v' cs rs' v'')
  have "P v' \<and> (\<forall>x \<in> set rs. Q x)" using run_call.prems(2) [OF run_call.hyps(1) run_call.prems(1)] run_call.prems(3) by simp
  then show ?case using run_call.IH [OF _ run_call.prems(2)] run_call.prems(3) by auto
qed simp

lemma otg_run_wire:
  assumes "\<And>rs v'. hid_run (otg_view b) cs rs v' \<Longrightarrow> P v' \<and> (\<forall>x \<in> set rs. Q x)"
  obtains ws where "ob_wire (fst (otg_run env cs (b, w))) = ob_wire b @ ws" "\<forall>x \<in> set ws. Q x \<and> ob_path b (fst x) \<noteq> None"
    "P (otg_view (fst (otg_run env cs (b, w))))"
proof -
  obtain ws rs where r: "ob_wire (fst (otg_run env cs (b, w))) = ob_wire b @ ws" "subseq ws rs" "\<forall>x \<in> set ws. ob_path b (fst x) \<noteq> None"
    "hid_run (otg_view b) cs rs (otg_view (fst (otg_run env cs (b, w))))"
    using otg_run_calls [OF prod.collapse [symmetric], of env cs b w] by blast
  have "set ws \<subseteq> set rs" using r(2) by (metis subseq_singleton_left subseq_order.trans subsetI)
  then show thesis using that r(1,3) assms [OF r(4)] by blast
qed

section \<open>Reports are well formed\<close>

definition report_ok :: "device_type \<times> bytes \<Rightarrow> bool" where
  "report_ok x \<longleftrightarrow>
     (case fst x of
        DevKeyboard \<Rightarrow> length (snd x) = 8 \<and> snd x ! 1 = 0 \<and> compact (drop 2 (snd x))
      | DevMouseRelative \<Rightarrow> length (snd x) = 4 \<and> unat (snd x ! 0) < 32 \<and> sint (snd x ! 1) \<noteq> -128 \<and> sint (snd x ! 2) \<noteq> -128
      | DevMouseAbsolute \<Rightarrow> length (snd x) = 6 \<and> snd x ! 0 = 0 \<and> unat (snd x ! 2) < 128 \<and> unat (snd x ! 4) < 128
      | DevConsumerControl \<Rightarrow> length (snd x) = 2)"

definition view_ok :: "hid_view \<Rightarrow> bool" where
  "view_ok v \<longleftrightarrow> wf_report (fst v) \<and> kr_reserved (fst v) = 0 \<and> unat (snd v) < 32"

lemma report_keys:
  assumes "length (kr_keys r) = 6"
  shows "keyboard_report_to_bytes r = [kr_modifiers r, kr_reserved r] @ kr_keys r"
  using assms unfolding keyboard_report_to_bytes_def
  by (auto simp: list_eq_iff_nth_eq eval_nat_numeral less_Suc_eq_0_disj nth_Cons split: nat.splits)

lemma otg_keyboard_state_ok:
  assumes "wf_report r"
  shows "wf_report (otg_keyboard_state ev r)" "kr_reserved (otg_keyboard_state ev r) = kr_reserved r"
proof -
  have m: "wf_report (r\<lparr>kr_modifiers := x\<rparr>)" for x using assms by (simp add: wf_report_def)
  show "wf_report (otg_keyboard_state ev r)"
    using assms m report.press_inv [OF m to_hid_usage_nonzero] report.release_inv [OF m]
    by (auto simp: otg_keyboard_state_def Let_def split: option.splits key_event_type.splits)
  show "kr_reserved (otg_keyboard_state ev r) = kr_reserved r"
    by (auto simp: otg_keyboard_state_def Let_def add_key_def remove_key_def split: option.splits key_event_type.splits prod.splits)
qed

lemma keyboard_report_ok: "wf_report r \<Longrightarrow> kr_reserved r = 0 \<Longrightarrow> report_ok (DevKeyboard, keyboard_report_to_bytes r)"
  by (simp add: report_ok_def report_keys wf_report_def)

lemma clear_report_ok: "kr_reserved (clear_report r) = kr_reserved r"
  by (simp add: clear_report_def)

lemma sint_clamped:
  assumes "-127 \<le> i" "i \<le> 127"
  shows "sint (word_of_int i :: u8) \<noteq> -128"
  using assms by (simp add: signed_of_int signed_take_bit_int_eq_self)

lemma high_byte_small:
  assumes "i \<le> 32767" "0 \<le> i"
  shows "unat (ucast (drop_bit 8 (word_of_int i :: u16)) :: u8) < 128"
proof -
  have "unat (word_of_int i :: u16) = nat i" using assms by (simp add: unat_word_ariths nat_eq_iff take_bit_int_eq_self unsigned_of_int)
  then have "unat (drop_bit 8 (word_of_int i :: u16)) = nat i div 256"
    unfolding unat_drop_bit_eq by (simp add: drop_bit_eq_div)
  moreover have "nat i div 256 < 128" using assms by linarith
  ultimately have "unat (drop_bit 8 (word_of_int i :: u16)) < 128" by (simp only:)
  then show ?thesis by (simp add: unsigned_ucast_eq take_bit_nat_eq_self)
qed

lemma button_bits:
  assumes "unat (m :: u8) < 32"
  shows "unat (m OR to_hid_bit b) < 32" "unat (m AND NOT (to_hid_bit b)) < 32"
proof -
  have 32: "unat x < 32 \<longleftrightarrow> take_bit 5 x = x" for x :: u8
    by (simp add: take_bit_eq_self_iff_drop_bit_eq_0 drop_bit_eq_div word_less_nat_alt flip: unat_eq_0 unat_drop_bit_eq)
      (simp add: unat_div div_eq_0_iff)
  have b: "take_bit 5 (to_hid_bit b) = to_hid_bit b" by (cases b) simp_all
  show "unat (m OR to_hid_bit b) < 32" using assms b unfolding 32 by (simp add: take_bit_or)
  show "unat (m AND NOT (to_hid_bit b)) < 32"
    using assms word_and_le2 [of m "NOT (to_hid_bit b)"] by (simp add: word_le_nat_alt)
qed

lemma hid_step_ok:
  assumes "hid_step v c rs v'" and "view_ok v"
  shows "view_ok v' \<and> (\<forall>x \<in> set rs. report_ok x)"
  using assms
proof (cases rule: hid_step.cases)
  case (keyboard k m ev)
  then show ?thesis using assms(2) otg_keyboard_state_ok [of k ev] keyboard_report_ok by (simp add: view_ok_def)
next
  case (mouse ev m m' k)
  then show ?thesis using assms(2) button_bits [of m] sint_clamped high_byte_small
    by (auto simp: view_ok_def mouse_step_def report_ok_def absolute_report_def clamp_i32_def split: mouse_event_type.splits option.splits)
next
  case (reset k m)
  then show ?thesis using assms(2) keyboard_report_ok [OF wf_clear_report, of k] wf_clear_report [of k]
    by (auto simp: view_ok_def clear_report_ok reset_reports_def report_ok_def absolute_report_def)
next
  case (reset_cut k m)
  then show ?thesis using assms(2) keyboard_report_ok [OF wf_clear_report, of k] wf_clear_report [of k]
    by (auto simp: view_ok_def clear_report_ok)
qed (use assms in \<open>auto simp: report_ok_def\<close>)

lemma view_ok_new: "view_ok (otg_view (from_handles paths))"
  by (simp add: view_ok_def otg_view_def from_handles_def wf_report_default) (simp add: keyboard_report_default_def)

text \<open>C16: From the moment the backend is made, whatever is called and however the system behaves, every report on the wire has
  the format of its device: eight bytes with a zero second byte and the keys packed to the front for the
  keyboard, four for the relative mouse with only the five buttons and no movement of -128, six for the absolute mouse with no button and
  coordinates of at most 15 bits, two for the consumer control; devices that are not configured get none.\<close>

theorem otg_wire_types:
  "list_all (\<lambda>x. report_ok x \<and> ob_path (from_handles paths) (fst x) \<noteq> None)
     (ob_wire (fst (otg_run env cs (from_handles paths, w))))"
proof -
  have run: "view_ok v' \<and> (\<forall>x \<in> set rs. report_ok x)" if "hid_run (otg_view (from_handles paths)) cs rs v'" for rs v'
    using hid_run_invariant [OF that, of view_ok UNIV report_ok] view_ok_new hid_step_ok by blast
  obtain ws where "ob_wire (fst (otg_run env cs (from_handles paths, w))) = ob_wire (from_handles paths) @ ws"
    "\<forall>x \<in> set ws. report_ok x \<and> ob_path (from_handles paths) (fst x) \<noteq> None"
    by (rule otg_run_wire [OF run])
  then show ?thesis by (simp add: from_handles_def list_all_iff)
qed

section \<open>Keys that are released\<close>

definition key_absent :: "u8 \<Rightarrow> hid_view \<Rightarrow> bool" where
  "key_absent u v \<longleftrightarrow> length (kr_keys (fst v)) = 6 \<and> u \<notin> set (kr_keys (fst v))"

definition report_lacks :: "u8 \<Rightarrow> device_type \<times> bytes \<Rightarrow> bool" where
  "report_lacks u x \<longleftrightarrow> (fst x = DevKeyboard \<longrightarrow> u \<notin> set (drop 2 (snd x)))"

definition presses :: "canonical_key \<Rightarrow> otg_call \<Rightarrow> bool" where
  "presses key c \<longleftrightarrow> (\<exists>ev. c = KeyboardCall ev \<and> ke_type ev = KeyDown \<and> ke_key ev = key)"

lemma set_fill_slot: "set (snd (fill_slot k ks)) \<subseteq> insert k (set ks)"
  by (induction ks) (auto split: prod.splits)

lemma length_fill_slot: "length (snd (fill_slot k ks)) = length ks"
  by (induction ks) (auto split: prod.splits)

lemma keyboard_state_absent:
  assumes "length (kr_keys r) = 6" and "u \<noteq> 0"
    and "u \<notin> set (kr_keys r) \<or> (ke_type ev = KeyUp \<and> \<not> is_modifier (ke_key ev) \<and> to_hid_usage (ke_key ev) = u)"
    and "\<not> (ke_type ev = KeyDown \<and> to_hid_usage (ke_key ev) = u)"
  shows "length (kr_keys (otg_keyboard_state ev r)) = 6 \<and> u \<notin> set (kr_keys (otg_keyboard_state ev r))"
  using assms set_fill_slot [of "to_hid_usage (ke_key ev)" "kr_keys r"] length_fill_slot [of "to_hid_usage (ke_key ev)" "kr_keys r"]
  by (cases "ke_type ev") (auto simp: otg_keyboard_state_def Let_def add_key_def remove_key_def split: option.splits prod.splits)

lemma hid_step_absent:
  assumes "hid_step v c rs v'" and "key_absent (to_hid_usage key) v" and "\<not> presses key c"
  shows "key_absent (to_hid_usage key) v' \<and> (\<forall>x \<in> set rs. report_lacks (to_hid_usage key) x)"
  using assms(1)
proof (cases rule: hid_step.cases)
  case (keyboard k m ev)
  have inj: "ke_key ev = key" if "to_hid_usage (ke_key ev) = to_hid_usage key"
    using that by (metis from_hid_usage_iff option.inject)
  have "length (kr_keys (otg_keyboard_state ev k)) = 6 \<and> to_hid_usage key \<notin> set (kr_keys (otg_keyboard_state ev k))"
    using assms(2,3) keyboard inj by (intro keyboard_state_absent) (auto simp: key_absent_def presses_def to_hid_usage_nonzero)
  then show ?thesis using keyboard by (simp add: key_absent_def report_lacks_def report_keys)
next
  case (mouse ev m m' k)
  then show ?thesis using assms(2)
    by (auto simp: key_absent_def report_lacks_def mouse_step_def split: mouse_event_type.splits option.splits)
qed (use assms(2) in \<open>auto simp: key_absent_def report_lacks_def clear_report_def reset_reports_def report_keys to_hid_usage_nonzero absolute_report_def\<close>)

lemma otg_run_append: "otg_run env (cs @ ds) bw = otg_run env ds (otg_run env cs bw)"
  by (induction cs arbitrary: bw) auto

lemma otg_run_view_ok: "view_ok (otg_view (fst (otg_run env cs (from_handles paths, w))))"
proof -
  have "view_ok v' \<and> (\<forall>x \<in> set rs. report_ok x)" if "hid_run (otg_view (from_handles paths)) cs rs v'" for rs v'
    using hid_run_invariant [OF that, of view_ok UNIV report_ok] view_ok_new hid_step_ok by blast
  then show ?thesis by (rule otg_run_wire)
qed

text \<open>C11: A released key does not come back. However the system behaves, and whatever was called before: from the call that
  releases a key that is not a modifier on, as long as it is not pressed again, no keyboard report that is
  written has it, even when the report of the release itself was lost.\<close>

theorem otg_released_key:
  assumes "\<not> is_modifier key" and "list_all (\<lambda>c. \<not> presses key c) cs"
    and before: "before = otg_run env cs0 (from_handles paths, w)"
  shows "\<exists>ws. ob_wire (fst (otg_run env (KeyboardCall (key_up key m) # cs) before)) = ob_wire (fst before) @ ws \<and>
    list_all (report_lacks (to_hid_usage key)) ws"
proof -
  obtain b w1 where b: "before = (b, w1)" by (cases before)
  have len: "length (kr_keys (ob_keyboard_state b)) = 6"
    using otg_run_view_ok [of env cs0 paths w] b by (simp add: before [symmetric] view_ok_def wf_report_def otg_view_def)
  let ?cs = "KeyboardCall (key_up key m) # cs"
  have run: "True \<and> (\<forall>x \<in> set rs. report_lacks (to_hid_usage key) x)" if run: "hid_run (otg_view b) ?cs rs v'" for rs v'
    using run
  proof (cases rule: hid_run.cases)
    case (run_call rs1 v1 rs2)
    from run_call(2) have v1: "v1 = (otg_keyboard_state (key_up key m) (ob_keyboard_state b), ob_mouse_buttons b)"
      "rs1 = [(DevKeyboard, keyboard_report_to_bytes (otg_keyboard_state (key_up key m) (ob_keyboard_state b)))]"
      by (auto simp: otg_view_def elim: hid_step_cases)
    have k: "length (kr_keys (otg_keyboard_state (key_up key m) (ob_keyboard_state b))) = 6 \<and>
        to_hid_usage key \<notin> set (kr_keys (otg_keyboard_state (key_up key m) (ob_keyboard_state b)))"
      using len assms(1) by (intro keyboard_state_absent) (auto simp: key_up_def to_hid_usage_nonzero)
    then have first: "key_absent (to_hid_usage key) v1" "\<forall>x \<in> set rs1. report_lacks (to_hid_usage key) x"
      by (auto simp: v1 key_absent_def report_lacks_def report_keys)
    have "set cs \<subseteq> {c. \<not> presses key c}" using assms(2) by (auto simp: list_all_iff)
    with hid_run_invariant [OF run_call(3), of "key_absent (to_hid_usage key)" "{c. \<not> presses key c}" "report_lacks (to_hid_usage key)"]
      first(1) hid_step_absent
    have "\<forall>x \<in> set rs2. report_lacks (to_hid_usage key) x" by blast
    then show ?thesis using first(2) run_call(1) by auto
  qed
  obtain ws where "ob_wire (fst (otg_run env ?cs (b, w1))) = ob_wire b @ ws"
    "\<forall>x \<in> set ws. report_lacks (to_hid_usage key) x \<and> ob_path b (fst x) \<noteq> None"
    by (rule otg_run_wire [OF run])
  then show ?thesis unfolding b by (intro exI [of _ ws]) (simp add: list_all_iff)
qed

text \<open>A system on which everything works, and one with just a keyboard.\<close>

definition healthy_env :: "unit otg_env" where
  "healthy_env = \<lparr>os_exists = (\<lambda>p w. (True, w)), os_open = (\<lambda>p w. (Inr (), w)), os_poll = (\<lambda>p w. (PollReady (Some (False, False)), w)),
     os_write = (\<lambda>p d w. (Inr (), w)), os_read1 = (\<lambda>p w. (Inr None, w)), os_find_udc = (\<lambda>w. (None, w)),
     os_udc_state = (\<lambda>u w. (None, w)), os_elapsed = (\<lambda>w. (0, w)), os_sleep = (\<lambda>d w. w), os_log_due = (\<lambda>w. (False, w))\<rparr>"

definition sample_paths :: hid_device_paths where
  "sample_paths = \<lparr>hp_keyboard = Some (lit ''/dev/hidg0''), hp_mouse_relative = Some (lit ''/dev/hidg1''), hp_mouse_absolute = None,
     hp_consumer = None, hp_udc = None, hp_keyboard_leds_enabled = True\<rparr>"

theorem otg_released_key_witness:
  "\<exists>ws. ob_wire (fst (otg_run healthy_env [KeyboardCall (key_up (Letter KeyA) no_modifiers), ResetCall]
       (otg_run healthy_env [KeyboardCall (key_down (Letter KeyA) no_modifiers)] (from_handles sample_paths, ())))) =
     ob_wire (fst (otg_run healthy_env [KeyboardCall (key_down (Letter KeyA) no_modifiers)] (from_handles sample_paths, ()))) @ ws \<and>
     list_all (report_lacks (to_hid_usage (Letter KeyA))) ws"
  by (rule otg_released_key [OF _ _ refl]) (simp_all add: is_modifier_def presses_def)

end
