(* ===== verification/Otg_Health.thy ===== *)
theory Otg_Health
  imports Otg_Backend
begin

text \<open>
  What callers and observers of the OTG backend (\<^verbatim>\<open>src/src/hid/otg.rs\<close>) can rely on: errors that are returned are the ones that
  are recorded, every change of the runtime status is announced, a system that works again is used again, waiting for the
  devices ends, and what a shutdown leaves behind.
\<close>

section \<open>Announcements\<close>

text \<open>The status that watchers read, apart from what is asked of the system at that moment.\<close>

definition otg_status :: "otg_backend \<Rightarrow> bool \<times> bool \<times> (rstr \<times> rstr) option \<times> led_state \<times> (u32 \<times> u32) option" where
  "otg_status b = (ob_initialized b, ob_online b, ob_last_error b, ob_led_state b, ob_screen_resolution b)"

definition otg_announces :: "otg_backend \<Rightarrow> otg_backend \<Rightarrow> bool" where
  "otg_announces b b' \<longleftrightarrow> ob_notified b \<le> ob_notified b' \<and> (otg_status b' \<noteq> otg_status b \<longrightarrow> ob_notified b < ob_notified b')"

lemma otg_announces_refl [simp]: "otg_announces b b"
  by (simp add: otg_announces_def)

lemma otg_announces_trans [trans]: "otg_announces b b' \<Longrightarrow> otg_announces b' b'' \<Longrightarrow> otg_announces b b''"
  by (auto simp: otg_announces_def)

lemma sends_announces: "sends d rs b r b' \<Longrightarrow> otg_announces b b'"
  by (auto simp: sends_def announces_health_def otg_announces_def otg_status_def otg_health_def otg_rest_def)

lemma announces_same: "otg_status b1 = otg_status b \<Longrightarrow> ob_notified b1 = ob_notified b \<Longrightarrow> otg_announces b1 b' \<Longrightarrow> otg_announces b b'"
  by (simp add: otg_announces_def)

text \<open>The error a caller gets is the one that is recorded, and the backend is offline then.\<close>

definition otg_error_recorded :: "otg_error + unit \<Rightarrow> otg_backend \<Rightarrow> bool" where
  "otg_error_recorded r b \<longleftrightarrow>
     (case r of
        Inr _ \<Rightarrow> True
      | Inl (OtgHidError reason code) \<Rightarrow> \<not> ob_online b \<and> ob_last_error b = Some (reason, code)
      | Inl (OtgInternal reason) \<Rightarrow> \<not> ob_online b \<and> (\<exists>text. ob_last_error b = Some (text, lit ''not_opened'')))"

lemma sends_recorded: "sends d rs b r b' \<Longrightarrow> otg_error_recorded r b'"
  by (auto simp: sends_def otg_error_recorded_def split: sum.splits otg_error.splits)

text \<open>A call that sends one report, from a state that differs in keys or buttons only.\<close>

lemma single_send:
  assumes "otg_call env c (b, w) = (r, (b', w'))" and "c \<notin> {ResetCall, ShutdownCall}" and "\<forall>x y. c \<noteq> ResolutionCall x y"
  shows "(b' = b \<and> r = Inr ()) \<or> (\<exists>d rs b1. sends d rs b1 r b' \<and> otg_status b1 = otg_status b \<and> ob_notified b1 = ob_notified b \<and>
    ob_open b1 = ob_open b \<and> ob_path b1 = ob_path b)"
proof (cases c)
  case (KeyboardCall ev)
  then have "send_keyboard_report env (otg_keyboard_state ev (ob_keyboard_state b))
      (b\<lparr>ob_keyboard_state := otg_keyboard_state ev (ob_keyboard_state b)\<rparr>, w) = (r, (b', w'))"
    using assms(1) by (simp add: otg_call_def otg_send_keyboard_def bindE_def on_backend_def modifyE_def getsE_def)
  from send_effects(1) [OF this] show ?thesis by (intro disjI2 exI conjI) (assumption, simp_all add: otg_status_def)
next
  case (ConsumerCall ev)
  then have "send_consumer_report env (usage ev) (b, w) = (r, (b', w'))" using assms(1) by (simp add: otg_call_def otg_send_consumer_def)
  from send_effects(4) [OF this] show ?thesis by blast
next
  case (MouseCall ev)
  have rel: "?thesis" if "send_mouse_report_relative env u x y z (b\<lparr>ob_mouse_buttons := m\<rparr>, w) = (r, (b', w'))" for u x y z m
    using send_effects(2) [OF that] by (intro disjI2 exI conjI) (assumption, simp_all add: otg_status_def)
  have abs: "?thesis" if "send_mouse_report_absolute env u x y z (b, w) = (r, (b', w'))" for u x y z
    using send_effects(3) [OF that] by blast
  have same: "b\<lparr>ob_mouse_buttons := ob_mouse_buttons b\<rparr> = b" by simp
  show ?thesis
    using assms(1) MouseCall rel [where m = "ob_mouse_buttons b", unfolded same] rel abs
    by (auto simp: otg_call_def otg_send_mouse_def Let_def split: mouse_event_type.splits option.splits)
qed (use assms in auto)

lemma reset_effect:
  assumes "otg_reset env (b, w) = (r, (b', w'))"
  shows "otg_announces b b' \<and> otg_error_recorded r b' \<and> ob_initialized b' = ob_initialized b \<and> ob_worker b' = ob_worker b \<and>
    ob_open b' DevConsumerControl = ob_open b DevConsumerControl"
  using assms
proof (cases rule: otg_reset_steps)
  case (failed e)
  have "otg_announces b b'"
    using sends_announces [OF failed(2)] by (rule announces_same [rotated 2]) (simp_all add: otg_status_def)
  moreover have "otg_error_recorded r b'" by (rule sends_recorded [OF failed(2)])
  moreover have "ob_initialized b' = ob_initialized b \<and> ob_worker b' = ob_worker b \<and>
      ob_open b' DevConsumerControl = ob_open b DevConsumerControl"
    using failed(2) unfolding sends_def otg_rest_def by simp
  ultimately show ?thesis by simp
next
  case (sent r3 b2 b3)
  have keep: "ob_initialized y = ob_initialized x \<and> ob_worker y = ob_worker x \<and> ob_open y DevConsumerControl = ob_open x DevConsumerControl"
    if "sends d rs x q y" "d \<noteq> DevConsumerControl" for d rs x q y
    using that by (auto simp: sends_def otg_rest_def)
  have 1: "otg_announces b b2"
    using sends_announces [OF sent(1)] by (rule announces_same [rotated 2]) (simp_all add: otg_status_def)
  have 2: "otg_announces b2 b3"
    using sends_announces [OF sent(2)] by (rule announces_same [rotated 2]) (simp_all add: otg_status_def)
  from sent(3) show ?thesis
  proof
    assume "(\<exists>e. r3 = Inl e) \<and> r = r3 \<and> b' = b3"
    then show ?thesis using otg_announces_trans [OF 1 2] sends_recorded [OF sent(2)] keep [OF sent(1)] keep [OF sent(2)] by auto
  next
    assume "r3 = Inr () \<and> sends DevMouseAbsolute [absolute_report 0 0] b3 r b'"
    then have s: "sends DevMouseAbsolute [absolute_report 0 0] b3 r b'" by simp
    have "otg_announces b b'" using otg_announces_trans [OF otg_announces_trans [OF 1 2] sends_announces [OF s]] .
    then show ?thesis using sends_recorded [OF s] keep [OF sent(1)] keep [OF sent(2)] keep [OF s] by auto
  qed
qed

lemma otg_call_effect:
  assumes "otg_call env c (b, w) = (r, (b', w'))"
  shows "otg_announces b b' \<and> otg_error_recorded r b'"
proof -
  consider (reset) "c = ResetCall" | (shutdown) "c = ShutdownCall" | (resolution) x y where "c = ResolutionCall x y"
    | (send) "c \<notin> {ResetCall, ShutdownCall}" "\<forall>x y. c \<noteq> ResolutionCall x y" by blast
  then show ?thesis
  proof cases
    case reset
    then show ?thesis using reset_effect [of env b w r b' w'] assms by (simp add: otg_call_def)
  next
    case resolution
    then show ?thesis using assms
      by (auto simp: otg_call_def on_backend_def modifyE_def otg_set_screen_resolution_def notify_runtime_changed_def otg_announces_def otg_error_recorded_def)
  next
    case send
    from single_send [OF assms send] show ?thesis
      by (auto simp: otg_error_recorded_def dest: sends_announces sends_recorded intro: announces_same)
  next
    case shutdown
    then have s: "otg_shutdown env (b, w) = (r, (b', w'))" using assms by (simp add: otg_call_def)
    have start: "otg_announces (stop_runtime_worker b) x \<Longrightarrow> otg_announces b x" for x
      by (simp add: otg_announces_def stop_runtime_worker_def otg_status_def)
    from s show ?thesis
    proof (cases rule: otg_shutdown_steps)
      case (failed e)
      then show ?thesis using reset_effect [OF failed(1)] start by simp
    next
      case (stopped b1)
      have "otg_announces b1 b'"
        by (auto simp: stopped(3) otg_announces_def notify_runtime_changed_def clear_error_def close_devices_def)
      then show ?thesis using otg_announces_trans [OF start] reset_effect [OF stopped(1)] stopped(2) by (auto simp: otg_error_recorded_def)
    qed
  qed
qed

text \<open>C26: The error that a call returns is the one that observers see: the backend is offline then and its recorded reason and code
  are those of the error (a device that cannot be opened is recorded as not opened).\<close>

theorem otg_errors_recorded: "case otg_call env c (b, w) of (r, (b', w')) \<Rightarrow> otg_error_recorded r b'"
  using otg_call_effect [of env c b w] by (auto split: prod.split)

lemma otg_run_announces: "otg_announces b (fst (otg_run env cs (b, w)))"
proof (induction cs arbitrary: b w)
  case (Cons c cs)
  obtain r b1 w1 where c: "otg_call env c (b, w) = (r, (b1, w1))" by (metis prod.collapse)
  then show ?case using otg_call_effect [OF c] Cons.IH [of b1 w1] otg_announces_trans by auto
qed simp

section \<open>The monitor\<close>

lemma read_udc_effect:
  assumes "read_udc_configured env (b, w) = (r, (b', w'))"
  shows "\<exists>x. r = Inr x" "\<exists>u. b' = b\<lparr>ob_udc_name := u\<rparr>"
proof -
  have "\<not> isl r \<and> b' = b\<lparr>ob_udc_name := ob_udc_name b'\<rparr>"
    using assms by (auto simp: read_udc_configured_def bindE_def getsE_def returnE_def ask_def on_backend_def modifyE_def set_udc_name_def
        split: option.splits prod.splits)
  then show "\<exists>x. r = Inr x" "\<exists>u. b' = b\<lparr>ob_udc_name := u\<rparr>" by (cases r; auto)+
qed

lemma poll_led_effect: "poll_keyboard_led_once env path (file, leds, w) = (changed, file', leds', w') \<Longrightarrow> leds' = leds \<or> changed"
  by (auto simp: poll_keyboard_led_once_def Let_def split: prod.splits bool.splits poll_result.splits option.splits sum.splits if_splits)

lemma monitor_turn_announces:
  assumes "monitor_turn env m (b, w) = (m', b', w')"
  shows "otg_announces b b' \<and> (mo_configured m' \<noteq> mo_configured m \<longrightarrow> ob_notified b < ob_notified b')"
proof -
  obtain r b1 w1 where r: "read_udc_configured env (b, w) = (r, (b1, w1))" by (metis prod.collapse)
  obtain x u where x: "r = Inr x" "b1 = b\<lparr>ob_udc_name := u\<rparr>" using read_udc_effect [OF r] by blast
  define P where "P p = poll_keyboard_led_once env p (mo_file m, ob_led_state b1, w1)" for p
  define ch fl leds w2 where "ch p = fst (P p)" and "fl p = fst (snd (P p))" and "leds p = fst (snd (snd (P p)))" and "w2 p = snd (snd (snd (P p)))" for p
  have p: "poll_keyboard_led_once env p (mo_file m, ob_led_state b1, w1) = (ch p, fl p, leds p, w2 p)" for p
    by (simp add: P_def [symmetric] ch_def fl_def leds_def w2_def)
  have "leds q = ob_led_state b" if "\<not> ch q" for q
    using poll_led_effect [OF p [of q]] x that by simp
  then show ?thesis
    using assms r x p
    by (auto simp: monitor_turn_def Let_def otg_announces_def otg_status_def notify_runtime_changed_def split: option.splits if_splits)
qed

text \<open>Calls of the backend and turns of its monitor thread, in any order.\<close>

fun otg_history :: "'w otg_env \<Rightarrow> otg_call option list \<Rightarrow> monitor \<times> otg_backend \<times> 'w \<Rightarrow> monitor \<times> otg_backend \<times> 'w" where
  "otg_history env [] s = s"
| "otg_history env (None # xs) (m, bw) = otg_history env xs (monitor_turn env m bw)"
| "otg_history env (Some c # xs) (m, bw) = otg_history env xs (m, snd (otg_call env c bw))"

definition history_announces :: "monitor \<times> otg_backend \<times> 'w \<Rightarrow> monitor \<times> otg_backend \<times> 'w \<Rightarrow> bool" where
  "history_announces s s' \<longleftrightarrow>
     (case (s, s') of ((m, b, w), (m', b', w')) \<Rightarrow>
        ob_notified b \<le> ob_notified b' \<and> (mo_configured m' \<noteq> mo_configured m \<or> otg_status b' \<noteq> otg_status b \<longrightarrow> ob_notified b < ob_notified b'))"

lemma history_announces_iff:
  "history_announces (m, b, w) (m', b', w') \<longleftrightarrow> otg_announces b b' \<and> (mo_configured m' \<noteq> mo_configured m \<longrightarrow> ob_notified b < ob_notified b')"
  by (auto simp: history_announces_def otg_announces_def)

lemma history_announces_trans: "history_announces s s' \<Longrightarrow> history_announces s' s'' \<Longrightarrow> history_announces s s''"
  by (auto simp: history_announces_def split: prod.splits)

lemma otg_history_announces: "history_announces s (otg_history env xs s)"
proof (induction env xs s rule: otg_history.induct)
  case (1 env s)
  then show ?case by (auto simp: history_announces_def split: prod.splits)
next
  case (2 env xs m bw)
  obtain b w m1 b1 w1 where e: "bw = (b, w)" "monitor_turn env m (b, w) = (m1, b1, w1)" by (metis prod.collapse)
  have "history_announces (m, b, w) (m1, b1, w1)" using monitor_turn_announces [OF e(2)] by (simp add: history_announces_iff)
  from history_announces_trans [OF this] show ?case using 2 e by simp
next
  case (3 env c xs m bw)
  obtain b w r b1 w1 where e: "bw = (b, w)" "otg_call env c (b, w) = (r, (b1, w1))" by (metis prod.collapse)
  have "history_announces (m, b, w) (m, b1, w1)" using otg_call_effect [OF e(2)] by (simp add: history_announces_iff)
  from history_announces_trans [OF this] show ?case using 3 e by simp
qed

text \<open>C28: No change of the runtime status goes unannounced. Calls of the backend and turns of its monitor thread in any order: when they
  change whether the backend is initialized or online, the error, the LEDs, the resolution, or what the monitor knows of the UDC, at
  least one notification is sent.\<close>

theorem otg_no_lost_wakeup: "history_announces s (otg_history env xs s)"
  by (rule otg_history_announces)

section \<open>LEDs\<close>

text \<open>The LED byte of the host and the LED state: each of the five LEDs survives both ways, and the other three bits are dropped.\<close>

theorem led_roundtrip: "led_from_byte (led_to_byte s) = s \<and> led_to_byte (led_from_byte b) = b AND 0x1F"
proof
  show "led_from_byte (led_to_byte s) = s"
    by (cases s) (simp add: led_from_byte_def led_to_byte_def Let_def)
  show "led_to_byte (led_from_byte b) = b AND 0x1F"
  proof (rule bit_word_eqI)
    fix k assume "k < LENGTH(8)"
    then have "k = 0 \<or> k = 1 \<or> k = 2 \<or> k = 3 \<or> k = 4 \<or> k = 5 \<or> k = 6 \<or> k = 7" by (intro less_8_cases) simp
    then show "bit (led_to_byte (led_from_byte b)) k = bit (b AND 0x1F) k"
      unfolding led_from_byte_def and_bit_iff
      by (elim disjE; cases "bit b 0"; cases "bit b 1"; cases "bit b 2"; cases "bit b 3"; cases "bit b 4";
          simp add: led_to_byte_def bit_and_iff)
  qed
qed

section \<open>A system that works\<close>

definition works :: "'w otg_env \<Rightarrow> bool" where
  "works env \<longleftrightarrow> (\<forall>p w. fst (os_exists env p w)) \<and> (\<forall>p w. fst (os_open env p w) = Inr ()) \<and>
     (\<forall>p w. \<exists>input. fst (os_poll env p w) = PollReady (Some (False, input))) \<and> (\<forall>p d w. fst (os_write env p d w) = Inr ())"

lemma worksD:
  assumes "works env"
  obtains w1 w2 w3 w4 input where "os_exists env p w = (True, w1)" "os_open env p' w' = (Inr (), w2)"
    "os_poll env p'' w'' = (PollReady (Some (False, input)), w3)" "os_write env p''' d w''' = (Inr (), w4)"
  using assms unfolding works_def by (metis prod.collapse)

lemma ensure_device_works:
  assumes "works env" and "ob_path b d \<noteq> None"
  shows "\<exists>b' w'. ensure_device env d (b, w) = (Inr (), (b', w'))"
proof -
  obtain path where p: "ob_path b d = Some path" using assms(2) by blast
  obtain w1 where e: "os_exists env path w = (True, w1)" using worksD [OF assms(1)] by metis
  obtain w2 where o: "os_open env path w1 = (Inr (), w2)" using worksD [OF assms(1)] by metis
  show ?thesis using p e o by (simp add: ensure_device_def open_device_def)
qed

lemma write_works:
  assumes "works env"
  shows "\<exists>w'. write_with_timeout env d data (b, w) = (Inr True, (b\<lparr>ob_wire := ob_wire b @ [(d, data)]\<rparr>, w'))"
proof -
  define path where "path = (case ob_path b d of Some p \<Rightarrow> p | None \<Rightarrow> [])"
  obtain w1 input where p: "os_poll env path w = (PollReady (Some (False, input)), w1)" using worksD [OF assms] by metis
  obtain w2 where "os_write env path data w1 = (Inr (), w2)" using worksD [OF assms] by metis
  then show ?thesis using p by (simp add: write_with_timeout_def Let_def path_def)
qed

text \<open>What is delivered: everything for the devices that are configured.\<close>

definition delivers :: "device_type \<Rightarrow> bytes list \<Rightarrow> otg_backend \<Rightarrow> otg_error + unit \<Rightarrow> otg_backend \<Rightarrow> bool" where
  "delivers d rs b r b' \<longleftrightarrow> r = Inr () \<and> ob_wire b' = ob_wire b @ (if ob_path b d = None then [] else map (Pair d) rs)"

lemma deliver_works:
  assumes "works env" and "deliver env d data written dropped clears operation name (b, w) = (r, (b', w'))"
    and "\<And>b w r b' w'. written (b, w) = (r, (b', w')) \<Longrightarrow> r = Inr () \<and> ob_wire b' = ob_wire b @ map (Pair d) rs"
  shows "delivers d (data # rs) b r b'"
proof (cases "ob_path b d = None")
  case True
  then show ?thesis using assms(2) by (simp add: deliver_def delivers_def)
next
  case False
  obtain b1 w1 where e: "ensure_device env d (b, w) = (Inr (), (b1, w1))" using ensure_device_works [OF assms(1) False] by blast
  note E = ensure_device_effect [OF e]
  obtain w2 where q: "write_with_timeout env d data (b1, w1) = (Inr True, (b1\<lparr>ob_wire := ob_wire b1 @ [(d, data)]\<rparr>, w2))"
    using write_works [OF assms(1)] by blast
  have o: "ob_open b1 d" using E by simp
  have "written (b1\<lparr>ob_wire := ob_wire b1 @ [(d, data)]\<rparr>, w2) = (r, (b', w'))"
    using assms(2) False e q o by (simp add: deliver_def bindE_def)
  from assms(3) [OF this] show ?thesis using E False by (auto simp: delivers_def)
qed

lemma send_works:
  assumes "works env"
  shows "send_keyboard_report env report (b, w) = (r, (b', w')) \<Longrightarrow> delivers DevKeyboard [keyboard_report_to_bytes report] b r b'"
    and "send_mouse_report_relative env buttons dx dy wheel (b, w) = (r, (b', w')) \<Longrightarrow> delivers DevMouseRelative [[buttons, dx, dy, wheel]] b r b'"
    and "send_mouse_report_absolute env buttons x y wheel (b, w) = (r, (b', w')) \<Longrightarrow>
      delivers DevMouseAbsolute [[buttons, ucast (x AND 0xFF), ucast (drop_bit 8 x), ucast (y AND 0xFF), ucast (drop_bit 8 y), wheel]] b r b'"
    and "send_consumer_report env u (b, w) = (r, (b', w')) \<Longrightarrow>
      delivers DevConsumerControl [[ucast (u AND 0xFF), ucast (drop_bit 8 u)], [0, 0]] b r b'"
proof -
  have wire: "ob_wire (reset_error_count (mark_online b)) = ob_wire b" for b
    by (simp add: reset_error_count_def mark_online_effect)
  have plain: "r = Inr () \<and> ob_wire b' = ob_wire b @ map (Pair d) []" if "on_backend (reset_error_count \<circ> mark_online) (b, w) = (r, (b', w'))"
    for b w r b' w' d using that wire by (auto simp: on_backend_def modifyE_def)
  have release: "r = Inr () \<and> ob_wire b' = ob_wire b @ map (Pair d) [x]"
    if "on_backend (reset_error_count \<circ> mark_online) (snd (write_with_timeout env d x (b, w))) = (r, (b', w'))" for b w r b' w' d x
    using that wire write_works [OF assms, of d x b w] by (auto simp: on_backend_def modifyE_def)
  note D = deliver_works [OF assms]
  show "send_keyboard_report env report (b, w) = (r, (b', w')) \<Longrightarrow> delivers DevKeyboard [keyboard_report_to_bytes report] b r b'"
    "send_mouse_report_relative env buttons dx dy wheel (b, w) = (r, (b', w')) \<Longrightarrow> delivers DevMouseRelative [[buttons, dx, dy, wheel]] b r b'"
    "send_mouse_report_absolute env buttons x y wheel (b, w) = (r, (b', w')) \<Longrightarrow>
      delivers DevMouseAbsolute [[buttons, ucast (x AND 0xFF), ucast (drop_bit 8 x), ucast (y AND 0xFF), ucast (drop_bit 8 y), wheel]] b r b'"
    "send_consumer_report env u (b, w) = (r, (b', w')) \<Longrightarrow>
      delivers DevConsumerControl [[ucast (u AND 0xFF), ucast (drop_bit 8 u)], [0, 0]] b r b'"
    unfolding send_deliver by (erule D; erule plain release)+
qed

definition configured :: "otg_backend \<Rightarrow> (device_type \<times> bytes) list \<Rightarrow> (device_type \<times> bytes) list" where
  "configured b rs = filter (\<lambda>(d, report). ob_path b d \<noteq> None) rs"

lemma configured_simps [simp]:
  "configured b [] = []" "configured b (xs @ ys) = configured b xs @ configured b ys"
  "configured b (map (Pair d) rs) = (if ob_path b d = None then [] else map (Pair d) rs)"
  by (simp_all add: configured_def)

definition call_delivered :: "otg_backend \<Rightarrow> otg_call \<Rightarrow> otg_error + unit \<Rightarrow> otg_backend \<Rightarrow> bool" where
  "call_delivered b c r b' \<longleftrightarrow> r = Inr () \<and>
     (\<exists>rs. hid_step (otg_view b) c rs (otg_view b') \<and> ob_wire b' = ob_wire b @ configured b rs \<and>
        (c \<in> {ResetCall, ShutdownCall} \<longrightarrow> rs = reset_reports (ob_keyboard_state b) \<and> ob_mouse_buttons b' = 0))"

lemma send_delivered:
  assumes "sends d ds b1 r b'" and "delivers d ds b1 r b'" and "hid_step (otg_view b) c (map (Pair d) ds) (otg_view b1)"
    and "ob_wire b1 = ob_wire b" and "ob_path b1 = ob_path b" and "c \<notin> {ResetCall, ShutdownCall}"
  shows "call_delivered b c r b'"
proof -
  have "otg_view b' = otg_view b1" using assms(1) by (auto simp: sends_def otg_rest_def otg_view_def)
  then have "hid_step (otg_view b) c (map (Pair d) ds) (otg_view b')" using assms(3) by simp
  moreover have "ob_wire b' = ob_wire b @ configured b (map (Pair d) ds)" "r = Inr ()" using assms(2,4,5) by (auto simp: delivers_def)
  ultimately show ?thesis using assms(6) unfolding call_delivered_def by blast
qed

lemma otg_send_mouse_cases:
  assumes "otg_send_mouse env ev (b, w) = (r, (b', w'))"
  obtains (nothing) "b' = b" "r = Inr ()" "mouse_step ev (ob_mouse_buttons b) = ([], ob_mouse_buttons b)"
  | (relative) u dx dy wheel m' where "mouse_step ev (ob_mouse_buttons b) = ([(DevMouseRelative, [u, dx, dy, wheel])], m')"
      "send_mouse_report_relative env u dx dy wheel (b\<lparr>ob_mouse_buttons := m'\<rparr>, w) = (r, (b', w'))"
  | (absolute) x y where "mouse_step ev (ob_mouse_buttons b) = ([(DevMouseAbsolute, absolute_report x y)], ob_mouse_buttons b)"
      "send_mouse_report_absolute env 0 x y 0 (b, w) = (r, (b', w'))"
proof -
  have same: "b\<lparr>ob_mouse_buttons := ob_mouse_buttons b\<rparr> = b" by simp
  show thesis
  proof (cases "me_type ev \<in> {MouseDown, MouseUp} \<and> me_button ev = None")
    case True
    then have "b' = b" "r = Inr ()" "mouse_step ev (ob_mouse_buttons b) = ([], ob_mouse_buttons b)"
      using assms by (auto simp: otg_send_mouse_def mouse_step_def)
    then show thesis by (rule nothing)
  next
    case False
    then show thesis
      using assms relative relative [where m' = "ob_mouse_buttons b", unfolded same] absolute
      by (cases "me_type ev"; cases "me_button ev") (simp_all add: otg_send_mouse_def mouse_step_def Let_def)
  qed
qed

lemma reset_delivered:
  assumes "works env" and "otg_reset env (b, w) = (r, (b', w'))" and "c \<in> {ResetCall, ShutdownCall}"
  shows "call_delivered b c r b'"
proof -
  define k where "k = clear_report (ob_keyboard_state b)"
  define b1 where "b1 = b\<lparr>ob_keyboard_state := k\<rparr>"
  obtain r2 b2 w2 where s2: "send_keyboard_report env k (b1, w) = (r2, (b2, w2))" by (metis prod.collapse)
  note S2 = send_effects(1) [OF s2] and D2 = send_works(1) [OF assms(1) s2]
  obtain r3 b3 w3 where s3: "send_mouse_report_relative env 0 0 0 0 (b2\<lparr>ob_mouse_buttons := 0\<rparr>, w2) = (r3, (b3, w3))" by (metis prod.collapse)
  note S3 = send_effects(2) [OF s3] and D3 = send_works(2) [OF assms(1) s3]
  have r: "r2 = Inr ()" "r3 = Inr ()" using D2 D3 by (simp_all add: delivers_def)
  have s4: "send_mouse_report_absolute env 0 0 0 0 (b3, w3) = (r, (b', w'))"
    using assms(2) s2 s3 r by (simp add: otg_reset_def bindE_def on_backend_def modifyE_def getsE_def k_def b1_def)
  note S4 = send_effects(3) [OF s4] and D4 = send_works(3) [OF assms(1) s4]
  have v: "otg_view b' = (k, 0)" "ob_path b2 = ob_path b" "ob_path b3 = ob_path b"
    using S2 S3 S4 by (auto simp: sends_def otg_rest_def otg_view_def b1_def)
  have "ob_wire b' = ob_wire b @ configured b (map (Pair DevKeyboard) [keyboard_report_to_bytes k]) @
      configured b (map (Pair DevMouseRelative) [[0, 0, 0, 0]]) @ configured b (map (Pair DevMouseAbsolute) [absolute_report 0 0])"
    using D2 D3 D4 v(2,3) unfolding configured_simps by (simp add: delivers_def b1_def absolute_report_def)
  then have "ob_wire b' = ob_wire b @ configured b (reset_reports (ob_keyboard_state b))"
    by (simp add: reset_reports_def k_def configured_def)
  moreover have "hid_step (otg_view b) c (reset_reports (ob_keyboard_state b)) (otg_view b')"
    using hid_step.reset [OF assms(3)] v(1) by (simp add: otg_view_def k_def)
  moreover have "r = Inr ()" "ob_mouse_buttons b' = 0" using D4 v(1) by (simp_all add: delivers_def otg_view_def)
  ultimately show ?thesis unfolding call_delivered_def by blast
qed

lemma otg_call_works:
  assumes w: "works env" and "otg_call env c (b, w) = (r, (b', w'))"
  shows "call_delivered b c r b'"
proof (cases c)
  case (KeyboardCall ev)
  define b1 where "b1 = b\<lparr>ob_keyboard_state := otg_keyboard_state ev (ob_keyboard_state b)\<rparr>"
  have "send_keyboard_report env (ob_keyboard_state b1) (b1, w) = (r, (b', w'))"
    using assms KeyboardCall by (simp add: otg_call_def otg_send_keyboard_def bindE_def on_backend_def modifyE_def getsE_def b1_def)
  from send_delivered [OF send_effects(1) [OF this] send_works(1) [OF w this], of b c] show ?thesis
    using KeyboardCall by (simp add: b1_def otg_view_def hid_step.keyboard)
next
  case (MouseCall ev)
  then have m: "otg_send_mouse env ev (b, w) = (r, (b', w'))" using assms by (simp add: otg_call_def)
  have step: "mouse_step ev (ob_mouse_buttons b) = (rs, m') \<Longrightarrow> hid_step (otg_view b) c rs (ob_keyboard_state b, m')" for rs m'
    using MouseCall by (simp add: otg_view_def hid_step.mouse)
  from m show ?thesis
  proof (cases rule: otg_send_mouse_cases)
    case nothing
    then show ?thesis using step MouseCall by (auto simp: call_delivered_def otg_view_def intro!: exI [of _ "[]"])
  next
    case (relative u dx dy wheel m')
    from send_delivered [OF send_effects(2) [OF relative(2)] send_works(2) [OF w relative(2)], of b c] show ?thesis
      using step [OF relative(1)] MouseCall by (simp add: otg_view_def)
  next
    case (absolute x y)
    from send_delivered [OF send_effects(3) [OF absolute(2)] send_works(3) [OF w absolute(2)], of b c] show ?thesis
      using step [OF absolute(1)] MouseCall by (simp add: otg_view_def absolute_report_def)
  qed
next
  case (ConsumerCall ev)
  then have "send_consumer_report env (usage ev) (b, w) = (r, (b', w'))" using assms by (simp add: otg_call_def otg_send_consumer_def)
  from send_delivered [OF send_effects(4) [OF this] send_works(4) [OF w this], of b c] show ?thesis
    using ConsumerCall by (simp add: hid_step.consumer)
next
  case ResetCall
  then show ?thesis using assms reset_delivered [OF w, of b _ r b' w' c] by (simp add: otg_call_def)
next
  case (ResolutionCall width height)
  then show ?thesis using assms hid_step.resolution [of "otg_view b" width height]
    by (auto simp: otg_call_def on_backend_def modifyE_def otg_set_screen_resolution_def notify_runtime_changed_def call_delivered_def
        otg_view_def intro!: exI [of _ "[]"])
next
  case ShutdownCall
  then have "otg_shutdown env (b, w) = (r, (b', w'))" using assms by (simp add: otg_call_def)
  then show ?thesis
  proof (cases rule: otg_shutdown_steps)
    case (failed e)
    from reset_delivered [OF w failed(1), of c] show ?thesis using ShutdownCall by (simp add: call_delivered_def)
  next
    case (stopped b1)
    have "otg_view b' = otg_view b1" "ob_wire b' = ob_wire b1" "ob_mouse_buttons b' = ob_mouse_buttons b1"
      by (auto simp: stopped(3) otg_view_def notify_runtime_changed_def clear_error_def close_devices_def)
    moreover have "otg_view (stop_runtime_worker b) = otg_view b" "ob_wire (stop_runtime_worker b) = ob_wire b"
      "ob_keyboard_state (stop_runtime_worker b) = ob_keyboard_state b" "configured (stop_runtime_worker b) rs = configured b rs" for rs
      by (simp_all add: stop_runtime_worker_def otg_view_def configured_def)
    ultimately show ?thesis using reset_delivered [OF w stopped(1), of c] ShutdownCall stopped(2) by (simp add: call_delivered_def)
  qed
qed

text \<open>C23: A system that works again is used again: from every state of the backend, whatever failed before, a call that meets a working
  system returns without an error and writes exactly the reports of its step for the devices that are configured, and a reset or
  a shutdown the whole reset.\<close>

theorem otg_recovers:
  assumes "works env"
  shows "case otg_call env c (b, w) of (r, (b', w')) \<Rightarrow> call_delivered b c r b'"
  using otg_call_works [OF assms, of c b w] by (auto split: prod.split)

theorem otg_recovers_witness:
  "case otg_call healthy_env ResetCall (from_handles sample_paths, ()) of (r, (b', w')) \<Rightarrow> call_delivered (from_handles sample_paths) ResetCall r b'"
  by (rule otg_recovers) (auto simp: works_def healthy_env_def)

section \<open>Shutting down\<close>

text \<open>A shutdown that succeeds leaves nothing open, no error and the backend uninitialized and offline. One whose reset fails returns the
  error before that: the monitor thread is gone, but the backend still counts as initialized, with the consumer device (and
  whatever else was open) still open.\<close>

theorem otg_shutdown_outcomes:
  "case otg_shutdown env (b, w) of
     (Inr _, (b', w')) \<Rightarrow> \<not> ob_initialized b' \<and> \<not> ob_online b' \<and> ob_last_error b' = None \<and> \<not> ob_worker b' \<and> ob_open b' = (\<lambda>_. False) \<and>
        ob_notified b < ob_notified b'
   | (Inl e, (b', w')) \<Rightarrow> ob_initialized b' = ob_initialized b \<and> \<not> ob_online b' \<and> \<not> ob_worker b' \<and>
        ob_open b' DevConsumerControl = ob_open b DevConsumerControl"
proof -
  obtain r b' w' where s: "otg_shutdown env (b, w) = (r, (b', w'))" by (metis prod.collapse)
  from s show ?thesis
  proof (cases rule: otg_shutdown_steps)
    case (failed e)
    have "\<not> ob_online b'" using reset_effect [OF failed(1)] by (auto simp: otg_error_recorded_def split: otg_error.splits)
    then show ?thesis using reset_effect [OF failed(1)] s failed(2) by (simp add: stop_runtime_worker_def)
  next
    case (stopped b1)
    have "ob_notified b \<le> ob_notified b1" "\<not> ob_worker b1"
      using reset_effect [OF stopped(1)] by (simp_all add: otg_announces_def stop_runtime_worker_def)
    then show ?thesis using s stopped(2,3)
      by (cases "ob_last_error b1") (auto simp: notify_runtime_changed_def clear_error_def close_devices_def)
  qed
qed

section \<open>Waiting for the devices ends\<close>

text \<open>A clock that never runs backwards and that a sleep advances by at least its length.\<close>

definition keeps_time :: "'w otg_env \<Rightarrow> ('w \<Rightarrow> nat) \<Rightarrow> bool" where
  "keeps_time env clock \<longleftrightarrow>
     (\<forall>w. fst (os_elapsed env w) = clock w \<and> clock w \<le> clock (snd (os_elapsed env w))) \<and>
     (\<forall>p w. clock w \<le> clock (snd (os_exists env p w))) \<and> (\<forall>d w. clock w + d \<le> clock (os_sleep env d w))"

lemma all_exist_clock: "keeps_time env clock \<Longrightarrow> clock w \<le> clock (snd (all_exist env ps w))"
proof (induction ps arbitrary: w)
  case (Cons p ps)
  have "clock w \<le> clock (snd (os_exists env p w))" using Cons.prems by (simp add: keeps_time_def)
  then show ?case using Cons.IH [OF Cons.prems, of "snd (os_exists env p w)"] by (auto split: prod.split bool.split)
qed simp

lemma wait_loop_ends:
  assumes time: "keeps_time env clock"
  shows "10 \<le> delay \<Longrightarrow> timeout \<le> clock w + n * 10000000 \<Longrightarrow> fst (wait_loop (Suc n) env paths timeout delay w) \<noteq> None"
proof (induction n arbitrary: delay w)
  case 0
  then have "\<not> fst (os_elapsed env w) < timeout" using time by (simp add: keeps_time_def)
  then show ?case by (simp add: case_prod_unfold)
next
  case (Suc n)
  obtain t1 w1 where t1: "os_elapsed env w = (t1, w1)" by (cases "os_elapsed env w")
  obtain found w2 where e: "all_exist env paths w1 = (found, w2)" by (cases "all_exist env paths w1")
  obtain t2 w3 where t2: "os_elapsed env w2 = (t2, w3)" by (cases "os_elapsed env w2")
  define d where "d = min (delay * 1000000) (timeout - t2)"
  show ?case
  proof (cases "t1 < timeout \<and> \<not> found \<and> d \<noteq> 0")
    case False
    then show ?thesis using t1 e t2 by (subst wait_loop.simps) (auto simp: d_def Let_def)
  next
    case True
    have c: "clock w \<le> clock w1" "clock w1 \<le> clock w2" "t2 = clock w2" "clock w2 \<le> clock w3" "clock w3 + d \<le> clock (os_sleep env d w3)"
      using time t1 t2 all_exist_clock [OF time, of w1 paths] e unfolding keeps_time_def by (metis fst_conv snd_conv)+
    have "timeout \<le> clock (os_sleep env d w3) + n * 10000000"
      using Suc.prems c unfolding d_def by (auto simp: min_def split: if_splits)
    moreover have "10 \<le> min (delay * 2) MAX_DELAY_MS" using Suc.prems by (simp add: MAX_DELAY_MS_def)
    ultimately have "fst (wait_loop (Suc n) env paths timeout (min (delay * 2) MAX_DELAY_MS) (os_sleep env d w3)) \<noteq> None" by (intro Suc.IH)
    moreover have "wait_loop (Suc (Suc n)) env paths timeout delay w =
        wait_loop (Suc n) env paths timeout (min (delay * 2) MAX_DELAY_MS) (os_sleep env d w3)"
      using True t1 e t2 by (subst wait_loop.simps) (simp add: d_def [symmetric] Let_def del: wait_loop.simps)
    ultimately show ?thesis by (rule ssubst [where P = "\<lambda>x. fst x \<noteq> None", rotated])
  qed
qed

text \<open>Waiting for the device nodes always ends: with a clock that sleeping advances, a tenth of the timeout in milliseconds and one more
  turns are enough for the loop with its growing delays to find all nodes or give up.\<close>

theorem wait_for_hid_devices_ends:
  assumes "keeps_time env clock"
  shows "fst (wait_for_hid_devices (Suc (Suc (timeout_ms div 10))) env paths timeout_ms w) \<noteq> None"
proof -
  have "timeout_ms * 1000000 \<le> clock w + Suc (timeout_ms div 10) * 10000000"
  proof -
    have "timeout_ms \<le> Suc (timeout_ms div 10) * 10" by simp
    then have "timeout_ms * 1000000 \<le> Suc (timeout_ms div 10) * 10 * 1000000" by (intro mult_right_mono) simp_all
    then show ?thesis by simp
  qed
  then show ?thesis unfolding wait_for_hid_devices_def by (intro wait_loop_ends [OF assms]) simp_all
qed

definition sleepy_env :: "nat otg_env" where
  "sleepy_env = \<lparr>os_exists = (\<lambda>p w. (False, w)), os_open = (\<lambda>p w. (Inr (), w)), os_poll = (\<lambda>p w. (PollNone, w)),
     os_write = (\<lambda>p d w. (Inr (), w)), os_read1 = (\<lambda>p w. (Inr None, w)), os_find_udc = (\<lambda>w. (None, w)),
     os_udc_state = (\<lambda>u w. (None, w)), os_elapsed = (\<lambda>w. (w, w)), os_sleep = (\<lambda>d w. w + d), os_log_due = (\<lambda>w. (False, w))\<rparr>"

theorem wait_for_hid_devices_ends_witness:
  "fst (wait_for_hid_devices (Suc (Suc (2000 div 10))) sleepy_env [lit ''/dev/hidg0''] 2000 0) \<noteq> None"
  by (rule wait_for_hid_devices_ends [of _ id]) (simp add: keeps_time_def sleepy_env_def)

end
