(* ===== verification/Codec_Constraints.thy ===== *)
theory Codec_Constraints
  imports Rtsp_Service
begin

text \<open>
  \<^verbatim>\<open>src/src/video/codec_constraints.rs\<close>: which codecs the video outputs may use together. RTSP locks the shared encoder to its codec,
  RustDesk rules out MJPEG. Then the enforcement, with the two operations of the stream manager it uses:
  \<open>set_video_codec\<close> (\<^verbatim>\<open>src/src/webrtc/webrtc_streamer.rs\<close>) and \<open>switch_mode_transaction\<close> (\<^verbatim>\<open>src/src/video/stream_manager.rs\<close>), which only
  starts a switch and leaves it to a task.
\<close>

record stream_codec_constraints =
  sc_rustdesk_enabled :: bool
  sc_rtsp_enabled :: bool
  allowed_webrtc_codecs :: "video_codec_type list"
  allow_mjpeg :: bool
  locked_codec :: "video_codec_type option"
  sc_reason :: rstr

definition debug_codec :: "video_codec_type \<Rightarrow> rstr" where
  "debug_codec c = lit (case c of VideoH264 \<Rightarrow> ''H264'' | VideoH265 \<Rightarrow> ''H265'' | VideoVP8 \<Rightarrow> ''VP8'' | VideoVP9 \<Rightarrow> ''VP9'')"

definition unrestricted :: stream_codec_constraints where
  "unrestricted = \<lparr>sc_rustdesk_enabled = False, sc_rtsp_enabled = False,
     allowed_webrtc_codecs = [VideoH264, VideoH265, VideoVP8, VideoVP9], allow_mjpeg = True, locked_codec = None,
     sc_reason = lit ''No codec lock active''\<rparr>"

text \<open>\<open>from_config\<close>; of the configuration it reads two switches and the codec of RTSP.\<close>

definition constraints_from_config :: "bool \<Rightarrow> rtsp_config \<Rightarrow> stream_codec_constraints" where
  "constraints_from_config rustdesk_on rtsp =
     (if rtsp_enabled rtsp then
        (let locked = codec_type (rtsp_codec_of rtsp) in
         \<lparr>sc_rustdesk_enabled = rustdesk_on, sc_rtsp_enabled = rtsp_enabled rtsp, allowed_webrtc_codecs = [locked],
           allow_mjpeg = False, locked_codec = Some locked,
           sc_reason = (if rustdesk_on then lit ''RTSP enabled with codec lock ('' @ debug_codec locked @ lit '') and RustDesk enabled''
             else lit ''RTSP enabled with codec lock ('' @ debug_codec locked @ lit '')'')\<rparr>)
      else if rustdesk_on then
        \<lparr>sc_rustdesk_enabled = rustdesk_on, sc_rtsp_enabled = rtsp_enabled rtsp,
          allowed_webrtc_codecs = [VideoH264, VideoH265, VideoVP8, VideoVP9], allow_mjpeg = False, locked_codec = None,
          sc_reason = lit ''RustDesk enabled, MJPEG disabled''\<rparr>
      else unrestricted)"

definition is_mjpeg_allowed :: "stream_codec_constraints \<Rightarrow> bool" where
  "is_mjpeg_allowed c = allow_mjpeg c"

definition is_webrtc_codec_allowed :: "stream_codec_constraints \<Rightarrow> video_codec_type \<Rightarrow> bool" where
  "is_webrtc_codec_allowed c codec = (codec \<in> set (allowed_webrtc_codecs c))"

definition preferred_webrtc_codec :: "stream_codec_constraints \<Rightarrow> video_codec_type" where
  "preferred_webrtc_codec c =
     (case locked_codec c of
        Some codec \<Rightarrow> codec
      | None \<Rightarrow> (case allowed_webrtc_codecs c of [] \<Rightarrow> VideoH264 | codec # _ \<Rightarrow> codec))"

definition codec_to_id :: "video_codec_type \<Rightarrow> rstr" where
  "codec_to_id c = lit (case c of VideoH264 \<Rightarrow> ''h264'' | VideoH265 \<Rightarrow> ''h265'' | VideoVP8 \<Rightarrow> ''vp8'' | VideoVP9 \<Rightarrow> ''vp9'')"

definition encoder_codec_to_id :: "video_encoder_type \<Rightarrow> rstr" where
  "encoder_codec_to_id c = lit (case c of EncH264 \<Rightarrow> ''h264'' | EncH265 \<Rightarrow> ''h265'' | EncVP8 \<Rightarrow> ''vp8'' | EncVP9 \<Rightarrow> ''vp9'')"

fun video_codec_to_encoder_codec :: "video_codec_type \<Rightarrow> video_encoder_type" where
  "video_codec_to_encoder_codec VideoH264 = EncH264"
| "video_codec_to_encoder_codec VideoH265 = EncH265"
| "video_codec_to_encoder_codec VideoVP8 = EncVP8"
| "video_codec_to_encoder_codec VideoVP9 = EncVP9"

fun encoder_codec_to_video_codec :: "video_encoder_type \<Rightarrow> video_codec_type" where
  "encoder_codec_to_video_codec EncH264 = VideoH264"
| "encoder_codec_to_video_codec EncH265 = VideoH265"
| "encoder_codec_to_video_codec EncVP8 = VideoVP8"
| "encoder_codec_to_video_codec EncVP9 = VideoVP9"

definition allowed_codecs_for_api :: "stream_codec_constraints \<Rightarrow> rstr list" where
  "allowed_codecs_for_api c = (if allow_mjpeg c then [lit ''mjpeg''] else []) @ map codec_to_id (allowed_webrtc_codecs c)"

section \<open>The stream manager\<close>

datatype stream_mode = ModeWebRTC | ModeMjpeg

text \<open>The task of a switch: spawned; the mode written; the transition id cleared, the flag \<open>switching\<close> not yet.\<close>

datatype switch_phase = Spawned | ModeWritten | IdCleared

record stream_manager =
  sm_mode :: stream_mode
  sm_codec :: video_codec_type
  sm_switching :: bool
  sm_transition :: "rstr option"
  sm_task :: "(stream_mode \<times> switch_phase) option"

text \<open>The environment of an enforcement: whether a capture device is configured and the pipeline for the new codec can be built,
  whether the capture is initialized and can be, the next transition id, and how many steps the task of
  a switch makes at each point where the enforcement waits.\<close>

record sm_env =
  se_has_capture :: bool
  se_pipeline_ok :: bool
  se_initialized :: bool
  se_init_ok :: bool
  se_uuid :: rstr
  se_gap_mode :: nat
  se_gap_codec :: nat
  se_gap_flag :: nat

datatype sm_error = PipelineFailed | CaptureFailed

record mode_switch_transaction =
  ms_accepted :: bool
  ms_switching :: bool
  ms_transition :: "rstr option"

text \<open>One step of the task: \<open>do_switch_mode\<close> writes the mode whether or not the new mode can be started, and the end of the task
  clears the id and then the flag.\<close>

definition switch_task_step :: "stream_manager \<Rightarrow> stream_manager" where
  "switch_task_step sm =
     (case sm_task sm of
        None \<Rightarrow> sm
      | Some (mode, Spawned) \<Rightarrow> sm\<lparr>sm_mode := mode, sm_task := Some (mode, ModeWritten)\<rparr>
      | Some (mode, ModeWritten) \<Rightarrow> sm\<lparr>sm_transition := None, sm_task := Some (mode, IdCleared)\<rparr>
      | Some (mode, IdCleared) \<Rightarrow> sm\<lparr>sm_switching := False, sm_task := None\<rparr>)"

definition task_steps :: "nat \<Rightarrow> stream_manager \<Rightarrow> stream_manager" where
  "task_steps n sm = (switch_task_step ^^ n) sm"

text \<open>The codec is written before the pipeline is built.\<close>

definition set_video_codec :: "sm_env \<Rightarrow> video_codec_type \<Rightarrow> (stream_manager, sm_error, unit) stm" where
  "set_video_codec env codec sm =
     (if sm_codec sm = codec then (Inr (), sm)
      else if se_has_capture env \<and> \<not> se_pipeline_ok env then (Inl PipelineFailed, sm\<lparr>sm_codec := codec\<rparr>)
      else (Inr (), sm\<lparr>sm_codec := codec\<rparr>))"

definition ensure_video_capture_running :: "sm_env \<Rightarrow> (stream_manager, sm_error, unit) stm" where
  "ensure_video_capture_running env sm =
     (if \<not> se_initialized env \<and> \<not> se_init_ok env then (Inl CaptureFailed, sm) else (Inr (), sm))"

definition switch_mode_transaction :: "sm_env \<Rightarrow> stream_mode \<Rightarrow> (stream_manager, sm_error, mode_switch_transaction) stm" where
  "switch_mode_transaction env new_mode sm =
     (let current_mode = sm_mode sm in
      if current_mode = new_mode then
        (let idle = \<lparr>ms_accepted = False, ms_switching = False, ms_transition = None\<rparr> in
         if new_mode = ModeWebRTC then bindE (ensure_video_capture_running env) (\<lambda>_. returnE idle) sm else returnE idle sm)
      else
        (let sm = task_steps (se_gap_flag env) sm in
         if sm_switching sm then returnE \<lparr>ms_accepted = False, ms_switching = True, ms_transition = sm_transition sm\<rparr> sm
         else returnE \<lparr>ms_accepted = True, ms_switching = True, ms_transition = Some (se_uuid env)\<rparr>
           (sm\<lparr>sm_switching := True, sm_transition := Some (se_uuid env), sm_task := Some (new_mode, Spawned)\<rparr>)))"

section \<open>Enforcing them\<close>

record enforcement_result =
  er_changed :: bool
  er_message :: "rstr option"

definition enforce_constraints :: "sm_env \<Rightarrow> stream_codec_constraints \<Rightarrow> (stream_manager, sm_error, enforcement_result) stm" where
  "enforce_constraints env c sm =
     (let current_mode = sm_mode sm; sm = task_steps (se_gap_mode env) sm; target = preferred_webrtc_codec c in
      if current_mode = ModeMjpeg \<and> \<not> allow_mjpeg c then
        bindE (set_video_codec env target) (\<lambda>_ sm.
          bindE (switch_mode_transaction env ModeWebRTC) (\<lambda>_.
          returnE \<lparr>er_changed = True,
            er_message = Some (lit ''Auto-switched from MJPEG to '' @ codec_to_id target @ lit '' due to codec lock'')\<rparr>)
          (task_steps (se_gap_codec env) sm)) sm
      else if current_mode = ModeWebRTC \<and> \<not> is_webrtc_codec_allowed c (sm_codec sm) then
        bindE (set_video_codec env target) (\<lambda>_.
        returnE \<lparr>er_changed = True,
          er_message = Some (lit ''Auto-switched codec from '' @ codec_to_id (sm_codec sm) @ lit '' to '' @ codec_to_id target @
            lit '' due to codec lock'')\<rparr>) sm
      else returnE \<lparr>er_changed = False, er_message = None\<rparr> sm)"

section \<open>What holds of them\<close>

text \<open>The constraints of a configuration always leave a codec, the preferred one is allowed, and a lock is exactly one codec.\<close>

definition constraints_ok :: "stream_codec_constraints \<Rightarrow> bool" where
  "constraints_ok c \<longleftrightarrow> is_webrtc_codec_allowed c (preferred_webrtc_codec c) \<and>
     (case locked_codec c of None \<Rightarrow> set (allowed_webrtc_codecs c) = UNIV | Some k \<Rightarrow> allowed_webrtc_codecs c = [k]) \<and>
     (allow_mjpeg c = (\<not> sc_rustdesk_enabled c \<and> \<not> sc_rtsp_enabled c)) \<and> ((locked_codec c \<noteq> None) = sc_rtsp_enabled c)"

lemma UNIV_video_codec: "UNIV = {VideoH264, VideoH265, VideoVP8, VideoVP9}"
  using video_codec_type.nchotomy by auto

lemma constraints_from_config_ok: "constraints_ok (constraints_from_config rustdesk_on rtsp)"
  by (auto simp: constraints_ok_def constraints_from_config_def unrestricted_def Let_def is_webrtc_codec_allowed_def
      preferred_webrtc_codec_def UNIV_video_codec)

lemma unrestricted_ok: "constraints_ok unrestricted"
  by (simp add: constraints_ok_def unrestricted_def is_webrtc_codec_allowed_def preferred_webrtc_codec_def UNIV_video_codec)

lemma codec_conversions [simp]:
  "video_codec_to_encoder_codec (encoder_codec_to_video_codec e) = e"
  "encoder_codec_to_video_codec (video_codec_to_encoder_codec v) = v"
  by (cases e; simp) (cases v; simp)

definition conforms :: "stream_codec_constraints \<Rightarrow> stream_manager \<Rightarrow> bool" where
  "conforms c sm = (case sm_mode sm of ModeMjpeg \<Rightarrow> allow_mjpeg c | ModeWebRTC \<Rightarrow> is_webrtc_codec_allowed c (sm_codec sm))"

text \<open>What every state of the manager satisfies: the flag is up exactly while there is a task, and a task that has written the mode
  is the last that did.\<close>

definition sm_inv :: "stream_manager \<Rightarrow> bool" where
  "sm_inv sm \<longleftrightarrow> sm_switching sm = (sm_task sm \<noteq> None) \<and>
     (case sm_task sm of Some (mode, phase) \<Rightarrow> phase = Spawned \<or> sm_mode sm = mode | None \<Rightarrow> True)"

text \<open>The manager when the task has ended, and the mode it will have.\<close>

definition settled :: "stream_manager \<Rightarrow> stream_manager" where
  "settled sm = task_steps 3 sm"

definition final_mode :: "stream_manager \<Rightarrow> stream_mode" where
  "final_mode sm = (case sm_task sm of Some (mode, _) \<Rightarrow> mode | None \<Rightarrow> sm_mode sm)"

lemma step_facts:
  "sm_inv sm \<Longrightarrow> sm_inv (switch_task_step sm)"
  "sm_codec (switch_task_step sm) = sm_codec sm"
  "sm_inv sm \<Longrightarrow> final_mode (switch_task_step sm) = final_mode sm"
  by (auto simp: sm_inv_def switch_task_step_def final_mode_def split: option.splits switch_phase.splits)

lemma task_facts:
  "sm_inv sm \<Longrightarrow> sm_inv (task_steps n sm)"
  "sm_codec (task_steps n sm) = sm_codec sm"
  "sm_inv sm \<Longrightarrow> final_mode (task_steps n sm) = final_mode sm"
proof -
  have "(sm_inv sm \<longrightarrow> sm_inv (task_steps n sm)) \<and> sm_codec (task_steps n sm) = sm_codec sm \<and>
      (sm_inv sm \<longrightarrow> final_mode (task_steps n sm) = final_mode sm)"
    by (induction n) (auto simp: task_steps_def step_facts)
  then show "sm_inv sm \<Longrightarrow> sm_inv (task_steps n sm)" "sm_codec (task_steps n sm) = sm_codec sm"
    "sm_inv sm \<Longrightarrow> final_mode (task_steps n sm) = final_mode sm" by blast+
qed

text \<open>Three steps end the task, which always writes its mode.\<close>

lemma settled_task: "sm_task (settled sm) = None"
  by (auto simp: settled_def task_steps_def eval_nat_numeral switch_task_step_def split: option.splits switch_phase.splits)

lemma settled_mode: "sm_inv sm \<Longrightarrow> sm_mode (settled sm) = final_mode sm" "sm_codec (settled sm) = sm_codec sm"
proof -
  show "sm_mode (settled sm) = final_mode sm" if "sm_inv sm"
    using task_facts(3) [OF that, where n = 3] settled_task [of sm] by (simp add: settled_def final_mode_def)
qed (simp add: settled_def task_facts)

lemma idle_steps: "sm_task sm = None \<Longrightarrow> task_steps n sm = sm"
  unfolding task_steps_def by (induction n) (simp_all add: switch_task_step_def)

text \<open>A switch that is requested ends in the mode asked for, or meets a switch to the other mode.\<close>

lemma switch_facts:
  assumes "sm_inv sm" and "switch_mode_transaction env mode sm = (r, sm')"
  shows "sm_inv sm' \<and> sm_codec sm' = sm_codec sm"
    and "r = Inl e \<Longrightarrow> e = CaptureFailed \<and> sm' = sm \<and> sm_mode sm = mode"
    and "r = Inr t \<Longrightarrow> sm_task sm = None \<or> final_mode sm = mode \<Longrightarrow> final_mode sm' = mode"
proof -
  let ?sm = "task_steps (se_gap_flag env) sm"
  note gap = task_facts [where sm = sm and n = "se_gap_flag env"]
  have inv: "sm_inv ?sm" "final_mode ?sm = final_mode sm" using gap assms(1) by auto
  show "sm_inv sm' \<and> sm_codec sm' = sm_codec sm"
    using assms inv gap(2) by (auto simp: switch_mode_transaction_def Let_def ensure_video_capture_running_def bindE_def returnE_def sm_inv_def split: if_splits)
  show "r = Inl e \<Longrightarrow> e = CaptureFailed \<and> sm' = sm \<and> sm_mode sm = mode"
    using assms(2) by (auto simp: switch_mode_transaction_def Let_def ensure_video_capture_running_def bindE_def returnE_def split: if_splits)
  show "final_mode sm' = mode" if r: "r = Inr t" "sm_task sm = None \<or> final_mode sm = mode"
  proof (cases "sm_mode sm = mode")
    case True
    then have "sm' = sm" using assms(2) r(1)
      by (auto simp: switch_mode_transaction_def Let_def ensure_video_capture_running_def bindE_def returnE_def split: if_splits)
    then show ?thesis using r(2) True by (auto simp: final_mode_def)
  next
    case False
    show ?thesis
    proof (cases "sm_switching ?sm")
      case True
      have "sm_task sm \<noteq> None"
      proof
        assume none: "sm_task sm = None"
        then show False using True assms(1) idle_steps [OF none, of "se_gap_flag env"] by (simp add: sm_inv_def)
      qed
      then show ?thesis using True False assms(2) r inv by (auto simp: switch_mode_transaction_def Let_def returnE_def)
    qed (use False assms(2) in \<open>auto simp: switch_mode_transaction_def Let_def returnE_def final_mode_def\<close>)
  qed
qed

lemma set_codec_facts:
  assumes "sm_inv sm" and "set_video_codec env codec sm = (r, sm')"
  shows "sm_inv sm' \<and> final_mode sm' = final_mode sm \<and> sm_task sm' = sm_task sm \<and> sm_codec sm' = codec"
    and "r = Inl e \<Longrightarrow> e = PipelineFailed"
  using assms by (auto simp: set_video_codec_def sm_inv_def final_mode_def split: if_splits option.splits)

text \<open>The manager that is switching to MJPEG.\<close>

definition to_mjpeg :: "stream_manager \<Rightarrow> bool" where
  "to_mjpeg sm = (case sm_task sm of Some (mode, _) \<Rightarrow> mode = ModeMjpeg | None \<Rightarrow> False)"

lemma not_to_mjpeg:
  assumes "sm_inv sm" and "\<not> to_mjpeg sm"
  shows "final_mode sm = ModeWebRTC \<or> sm_task sm = None" and "sm_mode sm = ModeWebRTC \<Longrightarrow> final_mode sm = ModeWebRTC"
  using assms by (cases "case sm_task sm of Some (mode, _) \<Rightarrow> mode | None \<Rightarrow> ModeMjpeg";
    auto simp: to_mjpeg_def final_mode_def split: option.splits prod.splits)+

lemma enforce_result:
  fixes rustdesk_on rtsp
  defines "c \<equiv> constraints_from_config rustdesk_on rtsp"
  assumes inv: "sm_inv sm"
  shows "case enforce_constraints env c sm of
     (Inr res, sm') \<Rightarrow> sm_inv sm' \<and> er_changed res = (\<not> conforms c sm) \<and> (er_changed res \<or> sm' = task_steps (se_gap_mode env) sm) \<and>
       (to_mjpeg sm \<or> conforms c (settled sm'))
   | (Inl e, sm') \<Rightarrow> sm_inv sm' \<and> \<not> conforms c sm \<and> sm_codec sm' = preferred_webrtc_codec c \<and> final_mode sm' = final_mode sm \<and>
       (case e of PipelineFailed \<Rightarrow> se_has_capture env \<and> \<not> se_pipeline_ok env | CaptureFailed \<Rightarrow> \<not> se_initialized env \<and> \<not> se_init_ok env)"
proof -
  let ?sm = "task_steps (se_gap_mode env) sm" and ?k = "preferred_webrtc_codec c"
  have ok: "is_webrtc_codec_allowed c ?k" "allow_mjpeg c \<Longrightarrow> is_webrtc_codec_allowed c k" for k
    using constraints_from_config_ok [of rustdesk_on rtsp] unfolding c_def
    by (auto simp: constraints_ok_def is_webrtc_codec_allowed_def split: option.splits)
  have gap: "sm_inv ?sm" "sm_codec ?sm = sm_codec sm" "final_mode ?sm = final_mode sm" using task_facts inv by auto
  obtain r1 sm1 where 1: "set_video_codec env ?k ?sm = (r1, sm1)" by fastforce
  note f1 = set_codec_facts [OF gap(1) 1]
  let ?sm1 = "task_steps (se_gap_codec env) sm1"
  have inv1: "sm_inv sm1" using f1(1) by simp
  note g1 = task_facts(1) [OF inv1] task_facts(2) [of _ sm1] task_facts(3) [OF inv1]
  obtain r2 sm2 where 2: "switch_mode_transaction env ModeWebRTC ?sm1 = (r2, sm2)" by fastforce
  note f2 = switch_facts [OF g1(1) 2]
  consider (mjpeg) "sm_mode sm = ModeMjpeg" "\<not> allow_mjpeg c" | (codec) "sm_mode sm = ModeWebRTC" "\<not> is_webrtc_codec_allowed c (sm_codec sm)"
    | (fine) "conforms c sm"
    by (cases "sm_mode sm") (auto simp: conforms_def)
  then show ?thesis
  proof cases
    case fine
    have "enforce_constraints env c sm = (Inr \<lparr>er_changed = False, er_message = None\<rparr>, ?sm)"
      using fine gap(2) by (auto simp: enforce_constraints_def conforms_def Let_def returnE_def split: stream_mode.splits)
    moreover have "conforms c (settled ?sm)" if "\<not> to_mjpeg sm"
      using not_to_mjpeg [OF inv that] fine ok(2) settled_mode(1) [OF gap(1)] settled_mode(2) gap
      by (cases "sm_mode sm") (auto simp: conforms_def final_mode_def split: stream_mode.splits)
    ultimately show ?thesis using fine gap by auto
  next
    case codec
    have bad: "\<not> conforms c sm" using codec by (simp add: conforms_def)
    show ?thesis
    proof (cases r1)
      case (Inl e)
      then have "enforce_constraints env c sm = (Inl e, sm1)"
        using codec gap(2) 1 by (simp add: enforce_constraints_def Let_def bindE_def)
      moreover have "e = PipelineFailed \<and> se_has_capture env \<and> \<not> se_pipeline_ok env"
        using 1 Inl by (auto simp: set_video_codec_def split: if_splits)
      ultimately show ?thesis using f1 bad gap by simp
    next
      case (Inr u)
      then obtain res where "enforce_constraints env c sm = (Inr res, sm1)" "er_changed res"
        using codec gap(2) 1 by (auto simp: enforce_constraints_def Let_def bindE_def returnE_def)
      moreover have "conforms c (settled sm1)" if "\<not> to_mjpeg sm"
        using not_to_mjpeg(2) [OF inv that codec(1)] settled_mode(1) [OF inv1] settled_mode(2) f1(1) gap ok(1) by (simp add: conforms_def)
      ultimately show ?thesis using f1 bad by auto
    qed
  next
    case mjpeg
    have bad: "\<not> conforms c sm" using mjpeg by (simp add: conforms_def)
    show ?thesis
    proof (cases r1)
      case (Inl e)
      then have "enforce_constraints env c sm = (Inl e, sm1)"
        using mjpeg 1 by (simp add: enforce_constraints_def Let_def bindE_def)
      moreover have "e = PipelineFailed \<and> se_has_capture env \<and> \<not> se_pipeline_ok env"
        using 1 Inl by (auto simp: set_video_codec_def split: if_splits)
      ultimately show ?thesis using f1 bad gap by simp
    next
      case Inr1: (Inr u)
      show ?thesis
      proof (cases r2)
        case (Inl e)
        then have "enforce_constraints env c sm = (Inl e, sm2)"
          using mjpeg 1 2 Inr1 by (simp add: enforce_constraints_def Let_def bindE_def)
        moreover have "e = CaptureFailed \<and> \<not> se_initialized env \<and> \<not> se_init_ok env"
          using 2 Inl by (auto simp: switch_mode_transaction_def ensure_video_capture_running_def Let_def bindE_def returnE_def split: if_splits)
        moreover have "sm2 = ?sm1" using f2(2) [OF Inl] by simp
        ultimately show ?thesis using f1 g1 bad gap by simp
      next
        case (Inr t)
        then obtain res where "enforce_constraints env c sm = (Inr res, sm2)" "er_changed res"
          using mjpeg 1 2 Inr1 by (auto simp: enforce_constraints_def Let_def bindE_def returnE_def)
        moreover have "conforms c (settled sm2)" if "\<not> to_mjpeg sm"
        proof -
          have "final_mode ?sm1 = final_mode sm" using g1(3) f1(1) gap(3) by simp
          moreover have "sm_task ?sm1 = None" if none: "sm_task sm = None"
            using none f1(1) by (simp add: idle_steps)
          ultimately have "final_mode sm2 = ModeWebRTC" using f2(3) [OF Inr] not_to_mjpeg(1) [OF inv that] by auto
          then show ?thesis using settled_mode(1) [of sm2] settled_mode(2) f2(1) g1(2) f1(1) ok(1) by (simp add: conforms_def)
        qed
        ultimately show ?thesis using f2(1) bad by auto
      qed
    qed
  qed
qed

text \<open>C39: Enforcing the codec constraints of any configuration, while the task of a switch may go on between its steps and no other request
  reaches the stream manager. It reports a change exactly when the mode and the codec it reads do not conform, and otherwise it
  requests nothing. When it succeeds, the manager conforms as soon as the switch in progress (if there is one) has ended,
  unless a switch to MJPEG was in progress at the start. When it fails, building the pipeline or starting the capture has failed:
  the codec is the preferred one already, while the mode the manager ends in is the one it would have had.\<close>

theorem constraints_enforced:
  assumes "sm_inv sm"
  shows "case enforce_constraints env (constraints_from_config rustdesk_on rtsp) sm of
     (Inr res, sm') \<Rightarrow> sm_inv sm' \<and> er_changed res = (\<not> conforms (constraints_from_config rustdesk_on rtsp) sm) \<and>
       (er_changed res \<or> sm' = task_steps (se_gap_mode env) sm) \<and>
       (to_mjpeg sm \<or> conforms (constraints_from_config rustdesk_on rtsp) (settled sm'))
   | (Inl e, sm') \<Rightarrow> sm_inv sm' \<and> \<not> conforms (constraints_from_config rustdesk_on rtsp) sm \<and>
       sm_codec sm' = preferred_webrtc_codec (constraints_from_config rustdesk_on rtsp) \<and> final_mode sm' = final_mode sm \<and>
       (case e of PipelineFailed \<Rightarrow> se_has_capture env \<and> \<not> se_pipeline_ok env | CaptureFailed \<Rightarrow> \<not> se_initialized env \<and> \<not> se_init_ok env)"
  using enforce_result [OF assms] .

text \<open>The exception: MJPEG is being started when RTSP is enabled. The enforcement sets the codec and reports a switch, but its request
  meets the running one and is ignored, and the manager stays in MJPEG.\<close>

definition mjpeg_starting :: stream_manager where
  "mjpeg_starting = \<lparr>sm_mode = ModeMjpeg, sm_codec = VideoVP8, sm_switching = True, sm_transition = Some [], sm_task = Some (ModeMjpeg, ModeWritten)\<rparr>"

definition quiet_env :: sm_env where
  "quiet_env = \<lparr>se_has_capture = True, se_pipeline_ok = True, se_initialized = True, se_init_ok = True, se_uuid = [],
     se_gap_mode = 0, se_gap_codec = 0, se_gap_flag = 0\<rparr>"

lemma enforcement_ignored:
  assumes "rtsp_enabled rtsp"
  shows "\<exists>res sm'. enforce_constraints quiet_env (constraints_from_config rustdesk_on rtsp) mjpeg_starting = (Inr res, sm') \<and> er_changed res \<and>
    sm_mode (settled sm') = ModeMjpeg \<and> \<not> allow_mjpeg (constraints_from_config rustdesk_on rtsp)"
  using assms by (auto simp: enforce_constraints_def constraints_from_config_def quiet_env_def mjpeg_starting_def set_video_codec_def
      switch_mode_transaction_def task_steps_def settled_def eval_nat_numeral switch_task_step_def Let_def bindE_def returnE_def)

theorem constraints_enforced_witness:
  "conforms (constraints_from_config True rtsp_config_default)
    (settled (snd (enforce_constraints quiet_env (constraints_from_config True rtsp_config_default)
      \<lparr>sm_mode = ModeMjpeg, sm_codec = VideoVP8, sm_switching = False, sm_transition = None, sm_task = None\<rparr>)))"
proof -
  let ?sm = "\<lparr>sm_mode = ModeMjpeg, sm_codec = VideoVP8, sm_switching = False, sm_transition = None, sm_task = None\<rparr>"
  have "sm_inv ?sm" by (simp add: sm_inv_def)
  from constraints_enforced [OF this, where env = quiet_env and rustdesk_on = True and rtsp = rtsp_config_default]
  have all: "case enforce_constraints quiet_env (constraints_from_config True rtsp_config_default) ?sm of (Inr res, sm') \<Rightarrow>
      conforms (constraints_from_config True rtsp_config_default) (settled sm') | (Inl e, sm') \<Rightarrow> False"
    by (cases "enforce_constraints quiet_env (constraints_from_config True rtsp_config_default) ?sm")
      (simp add: to_mjpeg_def quiet_env_def split: sum.splits sm_error.splits)
  then show ?thesis
    by (cases "enforce_constraints quiet_env (constraints_from_config True rtsp_config_default) ?sm") (simp split: sum.splits)
qed

end
