(* ===== verification/Hid_Controller.thy ===== *)
theory Hid_Controller
  imports Otg_Backend "HOL-Library.Sublist"
begin

text \<open>
  \<^verbatim>\<open>src/src/hid/mod.rs\<close> and \<^verbatim>\<open>src/src/hid/backend.rs\<close>: the controller between the clients and the backend. Events go through a queue of 64
  to one worker task; a pointer move that finds it full replaces the pending move, any other event waits for room for at most 30 ms. The backend
  is a record of the methods of the trait \<open>HidBackend\<close>, over a state \<open>'b\<close>; the OTG backend of this development is one.

  A call of the API, a snapshot and the processing of an event are one action each; what happens between the snapshots and the writes of a backend is in
  \<open>Ch9329_Races\<close>. Of the channel it is taken for granted that it is first come first served and that a sender that is given a place puts its
  event there before another one does; it is never closed, since the controller holds its sending end and the worker does not end.
\<close>

section \<open>Backends\<close>

datatype hid_backend_type = HidOtg | HidCh9329 rstr u32 | HidNone

definition name_str :: "hid_backend_type \<Rightarrow> rstr" where
  "name_str t = (case t of HidOtg \<Rightarrow> lit ''otg'' | HidCh9329 _ _ \<Rightarrow> lit ''ch9329'' | HidNone \<Rightarrow> lit ''none'')"

text \<open>\<open>detect\<close>, over the test for a path.\<close>

definition common_ports :: "rstr list" where
  "common_ports = [lit ''/dev/ttyUSB0'', lit ''/dev/ttyUSB1'', lit ''/dev/ttyAMA0'', lit ''/dev/serial0'']"

definition otg_available :: "(rstr \<Rightarrow> bool) \<Rightarrow> bool" where
  "otg_available path_exists = path_exists (lit ''/sys/class/udc'')"

definition detect_backend :: "(rstr \<Rightarrow> bool) \<Rightarrow> hid_backend_type" where
  "detect_backend path_exists =
     (if otg_available path_exists then HidOtg
      else case find path_exists common_ports of Some port \<Rightarrow> HidCh9329 port 9600 | None \<Rightarrow> HidNone)"

text \<open>\<open>HidEvent\<close> of the queue.\<close>

datatype queued_event = QKeyboard keyboard_event | QMouse mouse_event | QConsumer consumer_event | QReset

datatype ctl_error = BadRequest rstr | CtlInternal rstr | CtlConfig rstr | BackendError rstr

text \<open>The methods of a backend and what creates one; a failed call is only logged by the worker. \<open>otg_service\<close> and the two constructors are
  what the controller is given.\<close>

record 'b hid_env =
  otg_service :: bool
  service_paths :: "hid_device_paths option"
  otg_create :: "hid_device_paths \<Rightarrow> rstr + 'b"
  ch9329_create :: "rstr \<Rightarrow> u32 \<Rightarrow> rstr + 'b"
  bk_init :: "'b \<Rightarrow> (rstr + unit) \<times> 'b"
  bk_keyboard :: "keyboard_event \<Rightarrow> 'b \<Rightarrow> 'b"
  bk_mouse :: "mouse_event \<Rightarrow> 'b \<Rightarrow> 'b"
  bk_consumer :: "consumer_event \<Rightarrow> 'b \<Rightarrow> 'b"
  bk_reset :: "'b \<Rightarrow> 'b"
  bk_shutdown :: "'b \<Rightarrow> 'b"
  bk_snapshot :: "'b \<Rightarrow> otg_snapshot \<times> 'b"

section \<open>The state that is shown\<close>

record hid_runtime_state =
  rt_available :: bool
  rt_backend :: rstr
  rt_initialized :: bool
  rt_online :: bool
  rt_supports_absolute_mouse :: bool
  rt_keyboard_leds_enabled :: bool
  rt_led_state :: led_state
  rt_screen_resolution :: "(u32 \<times> u32) option"
  rt_device :: "rstr option"
  rt_error :: "rstr option"
  rt_error_code :: "rstr option"

definition device_for_backend_type :: "hid_backend_type \<Rightarrow> rstr option" where
  "device_for_backend_type t = (case t of HidCh9329 port _ \<Rightarrow> Some port | _ \<Rightarrow> None)"

definition from_backend_type :: "hid_backend_type \<Rightarrow> hid_runtime_state" where
  "from_backend_type t =
     \<lparr>rt_available = (t \<noteq> HidNone), rt_backend = name_str t, rt_initialized = False, rt_online = False, rt_supports_absolute_mouse = False,
      rt_keyboard_leds_enabled = False, rt_led_state = led_state_default, rt_screen_resolution = None,
      rt_device = device_for_backend_type t, rt_error = None, rt_error_code = None\<rparr>"

definition from_backend :: "hid_backend_type \<Rightarrow> otg_snapshot \<Rightarrow> hid_runtime_state" where
  "from_backend t sn =
     \<lparr>rt_available = (t \<noteq> HidNone), rt_backend = name_str t, rt_initialized = sn_initialized sn, rt_online = sn_online sn,
      rt_supports_absolute_mouse = sn_supports_absolute_mouse sn, rt_keyboard_leds_enabled = sn_keyboard_leds_enabled sn,
      rt_led_state = sn_led_state sn, rt_screen_resolution = sn_screen_resolution sn,
      rt_device = (case sn_device sn of Some d \<Rightarrow> Some d | None \<Rightarrow> device_for_backend_type t),
      rt_error = sn_error sn, rt_error_code = sn_error_code sn\<rparr>"

definition with_error :: "hid_backend_type \<Rightarrow> hid_runtime_state \<Rightarrow> rstr \<Rightarrow> rstr \<Rightarrow> hid_runtime_state" where
  "with_error t current reason error_code =
     current\<lparr>rt_available := (t \<noteq> HidNone), rt_backend := name_str t, rt_initialized := False, rt_online := False,
       rt_keyboard_leds_enabled := False, rt_led_state := led_state_default, rt_device := device_for_backend_type t,
       rt_error := Some reason, rt_error_code := Some error_code\<rparr>"

section \<open>The controller\<close>

text \<open>\<open>hc_waiting\<close>: the senders that wait for room, first come first served; \<open>hc_flushing\<close>: the worker has processed an event and not yet looked
  at the pending move; \<open>hc_calls\<close>: what the worker has handed to \<open>process_hid_event\<close>; \<open>hc_dirty\<close>: how often the device information was marked dirty;
  \<open>hc_retired\<close>: the backends that were shut down.\<close>

record 'b hid_controller =
  hc_backend :: "'b option"
  hc_type :: hid_backend_type
  hc_events :: bool
  hc_runtime :: hid_runtime_state
  hc_queue :: "queued_event list"
  hc_waiting :: "queued_event list"
  hc_pending :: "mouse_event option"
  hc_pending_flag :: bool
  hc_worker :: bool
  hc_flushing :: bool
  hc_runtime_worker :: bool
  hc_available :: bool
  hc_calls :: "queued_event list"
  hc_dirty :: nat
  hc_retired :: "'b list"

definition HID_EVENT_QUEUE_CAPACITY :: nat where "HID_EVENT_QUEUE_CAPACITY = 64"

definition controller_new :: "hid_backend_type \<Rightarrow> 'b hid_controller" where
  "controller_new t =
     \<lparr>hc_backend = None, hc_type = t, hc_events = False, hc_runtime = from_backend_type t, hc_queue = [], hc_waiting = [], hc_pending = None,
      hc_pending_flag = False, hc_worker = False, hc_flushing = False, hc_runtime_worker = False, hc_available = False, hc_calls = [], hc_dirty = 0,
      hc_retired = []\<rparr>"

definition apply_runtime_state :: "hid_runtime_state \<Rightarrow> 'b hid_controller \<Rightarrow> 'b hid_controller" where
  "apply_runtime_state next_state c =
     (if hc_runtime c = next_state then c
      else c\<lparr>hc_runtime := next_state, hc_dirty := (if hc_events c then hc_dirty c + 1 else hc_dirty c)\<rparr>)"

definition apply_backend_runtime_state :: "'b hid_env \<Rightarrow> 'b hid_controller \<Rightarrow> 'b hid_controller" where
  "apply_backend_runtime_state env c =
     (case hc_backend c of
        Some b \<Rightarrow>
          (case bk_snapshot env b of (sn, b) \<Rightarrow>
             apply_runtime_state (from_backend (hc_type c) sn) (c\<lparr>hc_backend := Some b, hc_available := sn_initialized sn\<rparr>))
      | None \<Rightarrow> apply_runtime_state (from_backend_type (hc_type c)) (c\<lparr>hc_available := False\<rparr>))"

definition start_event_worker :: "'b hid_controller \<Rightarrow> 'b hid_controller" where
  "start_event_worker c = c\<lparr>hc_worker := True\<rparr>"

definition ctl_stop_runtime_worker :: "'b hid_controller \<Rightarrow> 'b hid_controller" where
  "ctl_stop_runtime_worker c = c\<lparr>hc_runtime_worker := False\<rparr>"

definition ctl_restart_runtime_worker :: "'b hid_controller \<Rightarrow> 'b hid_controller" where
  "ctl_restart_runtime_worker c = c\<lparr>hc_runtime_worker := (hc_backend c \<noteq> None)\<rparr>"

definition send_failed :: rstr where "send_failed = lit ''HID backend not available''"

section \<open>The operations\<close>

text \<open>\<open>init\<close>: what the constructors say, before the backend's own \<open>init\<close>.\<close>

definition create_backend :: "'b hid_env \<Rightarrow> hid_backend_type \<Rightarrow> ctl_error + 'b option" where
  "create_backend env t =
     (case t of
        HidOtg \<Rightarrow>
          if \<not> otg_service env then Inl (CtlInternal (lit ''OtgService not available''))
          else (case service_paths env of
            None \<Rightarrow> Inl (CtlConfig (lit ''OTG HID paths are not available''))
          | Some handles \<Rightarrow> (case otg_create env handles of Inl e \<Rightarrow> Inl (BackendError e) | Inr b \<Rightarrow> Inr (Some b)))
      | HidCh9329 port baud \<Rightarrow> (case ch9329_create env port baud of Inl e \<Rightarrow> Inl (BackendError e) | Inr b \<Rightarrow> Inr (Some b))
      | HidNone \<Rightarrow> Inr None)"

definition ctl_init :: "'b hid_env \<Rightarrow> 'b hid_controller \<Rightarrow> (ctl_error + unit) \<times> 'b hid_controller" where
  "ctl_init env c =
     (case create_backend env (hc_type c) of
        Inl e \<Rightarrow> (Inl e, c)
      | Inr None \<Rightarrow> (Inr (), c)
      | Inr (Some b) \<Rightarrow>
          (case bk_init env b of
             (Inl e, b) \<Rightarrow>
               (Inl (BackendError e),
                apply_runtime_state (with_error (hc_type c) (hc_runtime c) (lit ''Failed to initialize HID backend: '' @ e) (lit ''init_failed''))
                  (c\<lparr>hc_available := False\<rparr>))
           | (Inr _, b) \<Rightarrow>
               (Inr (), ctl_restart_runtime_worker (start_event_worker (apply_backend_runtime_state env (c\<lparr>hc_backend := Some b\<rparr>))))))"

definition take_backend :: "'b hid_env \<Rightarrow> 'b hid_controller \<Rightarrow> 'b hid_controller" where
  "take_backend env c =
     (case hc_backend c of Some b \<Rightarrow> c\<lparr>hc_backend := None, hc_retired := hc_retired c @ [bk_shutdown env b]\<rparr> | None \<Rightarrow> c)"

definition ctl_shutdown :: "'b hid_env \<Rightarrow> 'b hid_controller \<Rightarrow> 'b hid_controller" where
  "ctl_shutdown env c =
     (let c = (take_backend env (ctl_stop_runtime_worker c))\<lparr>hc_available := False\<rparr>;
          shown = from_backend_type (hc_type c);
          shown = (if hc_type c = HidNone then shown\<lparr>rt_available := False\<rparr>
                   else shown\<lparr>rt_error := Some (lit ''HID backend stopped''), rt_error_code := Some (lit ''shutdown'')\<rparr>)
      in apply_runtime_state shown c)"

text \<open>\<open>reload\<close>: the new backend, created and initialized, or none; only a missing service ends the call at once.\<close>

definition reload_backend :: "'b hid_env \<Rightarrow> hid_backend_type \<Rightarrow> 'b option" where
  "reload_backend env t =
     (case create_backend env t of
        Inr (Some b) \<Rightarrow> (case bk_init env b of (Inr _, b) \<Rightarrow> Some b | (Inl _, _) \<Rightarrow> None)
      | _ \<Rightarrow> None)"

definition ctl_reload :: "'b hid_env \<Rightarrow> hid_backend_type \<Rightarrow> 'b hid_controller \<Rightarrow> (ctl_error + unit) \<times> 'b hid_controller" where
  "ctl_reload env t c =
     (let c = take_backend env (ctl_stop_runtime_worker (c\<lparr>hc_available := False\<rparr>)) in
      if t = HidOtg \<and> \<not> otg_service env then (Inl (CtlConfig (lit ''OTG backend not available (OtgService missing)'')), c)
      else
        let new = reload_backend env t; c = c\<lparr>hc_backend := new\<rparr> in
        if t = HidNone then (Inr (), apply_runtime_state (from_backend_type HidNone) (c\<lparr>hc_type := HidNone\<rparr>))
        else if new \<noteq> None then
          (Inr (), ctl_restart_runtime_worker (apply_backend_runtime_state env ((start_event_worker c)\<lparr>hc_type := t\<rparr>)))
        else
          (Inl (CtlInternal (lit ''Failed to reload HID backend'')),
           apply_runtime_state (with_error t (hc_runtime c) (lit ''Failed to initialize HID backend'') (lit ''init_failed''))
             (c\<lparr>hc_available := False, hc_type := t\<rparr>)))"

text \<open>Sending. A sender that finds the queue full waits; its time is a step of its own.\<close>

definition enqueue_event :: "queued_event \<Rightarrow> 'b hid_controller \<Rightarrow> 'b hid_controller" where
  "enqueue_event ev c =
     (if length (hc_queue c) < HID_EVENT_QUEUE_CAPACITY then c\<lparr>hc_queue := hc_queue c @ [ev]\<rparr>
      else c\<lparr>hc_waiting := hc_waiting c @ [ev]\<rparr>)"

definition enqueue_mouse_move :: "mouse_event \<Rightarrow> 'b hid_controller \<Rightarrow> 'b hid_controller" where
  "enqueue_mouse_move ev c =
     (if length (hc_queue c) < HID_EVENT_QUEUE_CAPACITY then c\<lparr>hc_queue := hc_queue c @ [QMouse ev]\<rparr>
      else c\<lparr>hc_pending := Some ev, hc_pending_flag := True\<rparr>)"

definition guarded :: "('b hid_controller \<Rightarrow> 'b hid_controller) \<Rightarrow> 'b hid_controller \<Rightarrow> (ctl_error + unit) \<times> 'b hid_controller" where
  "guarded f c = (if hc_available c then (Inr (), f c) else (Inl (BadRequest send_failed), c))"

definition ctl_send_keyboard :: "keyboard_event \<Rightarrow> 'b hid_controller \<Rightarrow> (ctl_error + unit) \<times> 'b hid_controller" where
  "ctl_send_keyboard ev = guarded (enqueue_event (QKeyboard ev))"

definition ctl_send_mouse :: "mouse_event \<Rightarrow> 'b hid_controller \<Rightarrow> (ctl_error + unit) \<times> 'b hid_controller" where
  "ctl_send_mouse ev =
     guarded (if me_type ev = MouseMove \<or> me_type ev = MouseMoveAbs then enqueue_mouse_move ev else enqueue_event (QMouse ev))"

definition ctl_send_consumer :: "consumer_event \<Rightarrow> 'b hid_controller \<Rightarrow> (ctl_error + unit) \<times> 'b hid_controller" where
  "ctl_send_consumer ev = guarded (enqueue_event (QConsumer ev))"

definition ctl_reset :: "'b hid_controller \<Rightarrow> (ctl_error + unit) \<times> 'b hid_controller" where
  "ctl_reset c = (Inr (), if hc_available c then enqueue_event QReset c else c)"

text \<open>\<open>info\<close>: the name, whether it is initialized, absolute pointing, and the resolution.\<close>

definition ctl_info :: "'b hid_controller \<Rightarrow> (rstr \<times> bool \<times> bool \<times> (u32 \<times> u32) option) option" where
  "ctl_info c =
     (let s = hc_runtime c in
      if rt_available s then Some (rt_backend s, rt_initialized s, rt_supports_absolute_mouse s, rt_screen_resolution s) else None)"

section \<open>The worker\<close>

definition bk_process :: "'b hid_env \<Rightarrow> queued_event \<Rightarrow> 'b \<Rightarrow> 'b" where
  "bk_process env ev =
     (case ev of QKeyboard k \<Rightarrow> bk_keyboard env k | QMouse m \<Rightarrow> bk_mouse env m | QConsumer u \<Rightarrow> bk_consumer env u | QReset \<Rightarrow> bk_reset env)"

definition process_hid_event :: "'b hid_env \<Rightarrow> queued_event \<Rightarrow> 'b hid_controller \<Rightarrow> 'b hid_controller" where
  "process_hid_event env ev c = c\<lparr>hc_backend := map_option (bk_process env ev) (hc_backend c), hc_calls := hc_calls c @ [ev]\<rparr>"

text \<open>The first half of a turn: an event is received, which gives the first waiting sender its room, and processed.\<close>

definition worker_receive :: "'b hid_env \<Rightarrow> 'b hid_controller \<Rightarrow> 'b hid_controller" where
  "worker_receive env c =
     (if hc_worker c \<and> \<not> hc_flushing c then
        (case hc_queue c of
           [] \<Rightarrow> c
         | ev # q \<Rightarrow>
             process_hid_event env ev
               (c\<lparr>hc_queue := q @ take 1 (hc_waiting c), hc_waiting := drop 1 (hc_waiting c), hc_flushing := True\<rparr>))
      else c)"

text \<open>The second half: the pending move.\<close>

definition worker_flush :: "'b hid_env \<Rightarrow> 'b hid_controller \<Rightarrow> 'b hid_controller" where
  "worker_flush env c =
     (if hc_flushing c then
        let c = c\<lparr>hc_flushing := False\<rparr> in
        if hc_pending_flag c then
          let c' = c\<lparr>hc_pending_flag := False, hc_pending := None\<rparr> in
          (case hc_pending c of Some m \<Rightarrow> process_hid_event env (QMouse m) c' | None \<Rightarrow> c')
        else c
      else c)"

text \<open>A sender that has waited 30 ms gives up, which its caller does not see.\<close>

definition send_timeout :: "nat \<Rightarrow> 'b hid_controller \<Rightarrow> 'b hid_controller" where
  "send_timeout i c = c\<lparr>hc_waiting := take i (hc_waiting c) @ drop (Suc i) (hc_waiting c)\<rparr>"

definition runtime_changed :: "'b hid_env \<Rightarrow> 'b hid_controller \<Rightarrow> 'b hid_controller" where
  "runtime_changed env c = (if hc_runtime_worker c then apply_backend_runtime_state env c else c)"

text \<open>Everything that happens to a controller, in any order. Each call of the API is one step, but a sender may go on waiting after it.\<close>

datatype ctl_step =
    StInit | StShutdown | StReload hid_backend_type | StEvents
  | StKeyboard keyboard_event | StMouse mouse_event | StConsumer consumer_event | StReset
  | StReceive | StFlush | StTimeout nat | StRuntimeChanged

definition ctl_step :: "'b hid_env \<Rightarrow> ctl_step \<Rightarrow> 'b hid_controller \<Rightarrow> 'b hid_controller" where
  "ctl_step env st c =
     (case st of
        StInit \<Rightarrow> snd (ctl_init env c)
      | StShutdown \<Rightarrow> ctl_shutdown env c
      | StReload t \<Rightarrow> snd (ctl_reload env t c)
      | StEvents \<Rightarrow> c\<lparr>hc_events := True\<rparr>
      | StKeyboard ev \<Rightarrow> snd (ctl_send_keyboard ev c)
      | StMouse ev \<Rightarrow> snd (ctl_send_mouse ev c)
      | StConsumer ev \<Rightarrow> snd (ctl_send_consumer ev c)
      | StReset \<Rightarrow> snd (ctl_reset c)
      | StReceive \<Rightarrow> worker_receive env c
      | StFlush \<Rightarrow> worker_flush env c
      | StTimeout i \<Rightarrow> send_timeout i c
      | StRuntimeChanged \<Rightarrow> runtime_changed env c)"

text \<open>The outside may differ from step to step.\<close>

fun ctl_run :: "('b hid_env \<times> ctl_step) list \<Rightarrow> 'b hid_controller \<Rightarrow> 'b hid_controller" where
  "ctl_run [] c = c"
| "ctl_run ((env, st) # sts) c = ctl_run sts (ctl_step env st c)"


section \<open>What reaches the backend\<close>

fun is_move :: "queued_event \<Rightarrow> bool" where
  "is_move (QMouse m) \<longleftrightarrow> me_type m = MouseMove \<or> me_type m = MouseMoveAbs"
| "is_move _ \<longleftrightarrow> False"

definition non_moves :: "queued_event list \<Rightarrow> queued_event list" where
  "non_moves evs = filter (\<lambda>ev. \<not> is_move ev) evs"










lemma non_moves_simps [simp]:
  "non_moves [] = []" "non_moves (xs @ ys) = non_moves xs @ non_moves ys"
  "non_moves (ev # evs) = (if is_move ev then non_moves evs else ev # non_moves evs)"
  by (simp_all add: non_moves_def)













section \<open>What is shown of the backend\<close>

text \<open>\<open>hc_available\<close> lets events in: then there is a backend and it is shown as initialized; a change of what is shown is announced.\<close>

definition shown_ok :: "'b hid_controller \<Rightarrow> bool" where
  "shown_ok c \<longleftrightarrow> (hc_available c \<longrightarrow> hc_backend c \<noteq> None \<and> rt_initialized (hc_runtime c)) \<and> (hc_runtime_worker c \<longrightarrow> hc_backend c \<noteq> None)"

definition announced :: "'b hid_controller \<Rightarrow> 'b hid_controller \<Rightarrow> bool" where
  "announced c c' \<longleftrightarrow>
     (if hc_events c \<and> hc_runtime c' \<noteq> hc_runtime c then hc_dirty c < hc_dirty c' else hc_dirty c \<le> hc_dirty c')"

lemma apply_announced: "announced c (apply_runtime_state s c)"
  by (simp add: announced_def apply_runtime_state_def)

lemma announced_same:
  "announced c c' \<Longrightarrow> hc_events d = hc_events c \<Longrightarrow> hc_runtime d = hc_runtime c \<Longrightarrow> hc_dirty d = hc_dirty c \<Longrightarrow>
   hc_runtime d' = hc_runtime c' \<Longrightarrow> hc_dirty d' = hc_dirty c' \<Longrightarrow> announced d d'"
  by (simp add: announced_def)

lemma runtime_after_apply [simp]:
  "hc_runtime (apply_runtime_state s c) = s" "hc_available (apply_runtime_state s c) = hc_available c"
  "hc_backend (apply_runtime_state s c) = hc_backend c" "hc_runtime_worker (apply_runtime_state s c) = hc_runtime_worker c"
  by (simp_all add: apply_runtime_state_def)

lemma shown_apply_backend: "hc_backend c \<noteq> None \<Longrightarrow> shown_ok (apply_backend_runtime_state env c)"
  by (auto simp: shown_ok_def apply_backend_runtime_state_def from_backend_def split: prod.split)

lemma shown_step:
  assumes "shown_ok c"
  shows "shown_ok (ctl_step env st c)"
proof (cases st)
  case StInit
  then show ?thesis
    using assms shown_apply_backend [of _ env]
    by (auto simp: ctl_step_def ctl_init_def shown_ok_def ctl_restart_runtime_worker_def start_event_worker_def apply_backend_runtime_state_def
        from_backend_def split: sum.split option.split prod.split)
next
  case StShutdown
  then show ?thesis
    by (simp add: ctl_step_def ctl_shutdown_def shown_ok_def Let_def ctl_stop_runtime_worker_def take_backend_def split: option.split)
next
  case (StReload t)
  then show ?thesis
    by (auto simp: ctl_step_def ctl_reload_def shown_ok_def Let_def ctl_stop_runtime_worker_def take_backend_def ctl_restart_runtime_worker_def
        start_event_worker_def apply_backend_runtime_state_def from_backend_def split: option.split prod.split)
next
  case StRuntimeChanged
  then show ?thesis
    using assms shown_apply_backend [of c env] by (auto simp: ctl_step_def runtime_changed_def shown_ok_def)
next
  case (StMouse ev)
  then show ?thesis
    using assms by (auto simp: ctl_step_def ctl_send_mouse_def guarded_def enqueue_event_def enqueue_mouse_move_def shown_ok_def)
next
  case StReceive
  then show ?thesis
    using assms by (auto simp: ctl_step_def worker_receive_def process_hid_event_def shown_ok_def split: list.split)
next
  case StFlush
  then show ?thesis
    using assms by (auto simp: ctl_step_def worker_flush_def process_hid_event_def shown_ok_def Let_def split: option.split)
qed (use assms in \<open>auto simp: ctl_step_def ctl_send_keyboard_def ctl_send_consumer_def ctl_reset_def guarded_def enqueue_event_def
    send_timeout_def shown_ok_def\<close>)

lemma shown_run: "shown_ok c \<Longrightarrow> shown_ok (ctl_run sts c)"
  by (induction sts arbitrary: c) (auto simp: shown_step)

lemma shown_new: "shown_ok (controller_new t)"
  by (simp add: shown_ok_def controller_new_def)

text \<open>The other direction does not hold: a reload to OTG without the service leaves the old state shown, with no backend behind it.\<close>

lemma stale_after_reload:
  assumes "\<not> otg_service env" and "rt_initialized (hc_runtime c)"
  shows "rt_initialized (hc_runtime (snd (ctl_reload env HidOtg c))) \<and> \<not> hc_available (snd (ctl_reload env HidOtg c)) \<and>
    hc_backend (snd (ctl_reload env HidOtg c)) = None"
  using assms by (simp add: ctl_reload_def Let_def take_backend_def ctl_stop_runtime_worker_def split: option.split)

text \<open>A move that finds the queue full overtakes the events in the queue: the worker processes it after the next of them, so the older moves of the
  queue come after it.\<close>

lemma full_queue_move:
  assumes "hc_available c" and "hc_queue c = ev # q" and "length q = 63" and "hc_worker c" and "\<not> hc_flushing c" and "is_move (QMouse m)"
  shows "hc_calls (ctl_run [(env, StMouse m), (env, StReceive), (env, StFlush)] c) = hc_calls c @ [ev, QMouse m] \<and>
    hc_queue (ctl_run [(env, StMouse m), (env, StReceive), (env, StFlush)] c) = q @ take 1 (hc_waiting c)"
  using assms
  by (simp add: ctl_step_def ctl_send_mouse_def guarded_def enqueue_mouse_move_def HID_EVENT_QUEUE_CAPACITY_def worker_receive_def
      process_hid_event_def worker_flush_def Let_def)

end
