(* ===== verification/Hid_Wire.thy ===== *)
theory Hid_Wire
  imports Hid_Controller
begin

text \<open>
  The controller in front of the OTG backend: from the call of a client to the reports on the wire. The backend of \<open>Otg_Backend\<close>, with the system that it
  runs on as its state, is a backend of the controller; what a key release that the controller accepted means for the reports after it.
\<close>

section \<open>The OTG backend as a backend of the controller\<close>





section \<open>What does not touch the reports\<close>












section \<open>A release that was accepted\<close>













section \<open>Every backend of a controller is well formed\<close>














lemma backend_simps [simp]:
  "hc_backend (ctl_restart_runtime_worker c) = hc_backend c" "hc_backend (start_event_worker c) = hc_backend c"
  "hc_backend (ctl_stop_runtime_worker c) = hc_backend c" "hc_backend (take_backend env c) = None"
  "hc_backend (enqueue_event ev c) = hc_backend c" "hc_backend (enqueue_mouse_move m c) = hc_backend c"
  "hc_backend (send_timeout i c) = hc_backend c"
  by (simp_all add: ctl_restart_runtime_worker_def start_event_worker_def ctl_stop_runtime_worker_def take_backend_def
      enqueue_event_def enqueue_mouse_move_def send_timeout_def split: option.split)

lemma backend_guarded [simp]: "(\<And>c. hc_backend (f c) = hc_backend c) \<Longrightarrow> hc_backend (snd (guarded f c)) = hc_backend c"
  by (simp add: guarded_def)







section \<open>The reports after an accepted release\<close>




















end
