(* ===== verification/Rustdesk_Hid.thy ===== *)
theory Rustdesk_Hid
  imports Otg_Backend
begin

text \<open>
  \<^verbatim>\<open>src/src/rustdesk/hid_adapter.rs\<close> and the input part of \<^verbatim>\<open>src/src/rustdesk/connection.rs\<close>: how the key and mouse messages
  of a RustDesk client become events for the HID controller, the throttle for mouse moves and the CapsLock
  tracking. The messages are those of \<^verbatim>\<open>src/protos/message.proto\<close>. An \<open>i32\<close> is a \<open>u32\<close> read signed.
\<close>

section \<open>Messages\<close>

datatype rd_key_union = RdControlKey u32 | RdChr u32 | RdUnicode u32 | RdSeq rstr | RdWin2winHotkey u32

record rd_key_event =
  rk_down :: bool
  rk_press :: bool
  rk_union :: "rd_key_union option"
  rk_modifiers :: "u32 list"

record rd_mouse_event =
  rm_mask :: u32
  rm_x :: u32
  rm_y :: u32

section \<open>Mouse\<close>

definition RD_MOVE :: u32 where "RD_MOVE = 0"
definition RD_DOWN :: u32 where "RD_DOWN = 1"
definition RD_UP :: u32 where "RD_UP = 2"
definition RD_WHEEL :: u32 where "RD_WHEEL = 3"
definition RD_TRACKPAD :: u32 where "RD_TRACKPAD = 4"
definition RD_MOVE_RELATIVE :: u32 where "RD_MOVE_RELATIVE = 5"

definition RD_LEFT :: u32 where "RD_LEFT = 1"
definition RD_RIGHT :: u32 where "RD_RIGHT = 2"
definition RD_MIDDLE :: u32 where "RD_MIDDLE = 4"

lemmas rd_mouse_consts = RD_MOVE_def RD_DOWN_def RD_UP_def RD_WHEEL_def RD_TRACKPAD_def RD_MOVE_RELATIVE_def
  RD_LEFT_def RD_RIGHT_def RD_MIDDLE_def

definition button_id_to_button :: "u32 \<Rightarrow> mouse_button option" where
  "button_id_to_button b =
     (if b = RD_LEFT then Some LeftButton else if b = RD_RIGHT then Some RightButton
      else if b = RD_MIDDLE then Some MiddleButton else None)"

text \<open>\<open>max(0) as u32\<close>, then the scaling in 64 bits and the cast back.\<close>

definition scale_coord :: "u32 \<Rightarrow> u32 \<Rightarrow> u32" where
  "scale_coord v dim =
     (let x = (if sint v < 0 then 0 else v) in ucast ((ucast x * 32767 :: u64) div ucast (max dim 1)))"

definition abs_move_event :: "rd_mouse_event \<Rightarrow> u32 \<Rightarrow> u32 \<Rightarrow> mouse_event" where
  "abs_move_event ev width height = move_abs (scale_coord (rm_x ev) width) (scale_coord (rm_y ev) height)"

definition convert_mouse_event :: "rd_mouse_event \<Rightarrow> u32 \<Rightarrow> u32 \<Rightarrow> bool \<Rightarrow> mouse_event list" where
  "convert_mouse_event ev width height relative_mode =
     (let event_type = rm_mask ev AND 7;
          button = button_id_to_button (signed_drop_bit 3 (rm_mask ev));
          first = (if relative_mode then [] else [abs_move_event ev width height])
      in if event_type = RD_MOVE then [abs_move_event ev width height]
         else if event_type = RD_MOVE_RELATIVE then [move_rel (rm_x ev) (rm_y ev)]
         else if event_type = RD_DOWN then first @ (case button of Some b \<Rightarrow> [button_down b] | None \<Rightarrow> [])
         else if event_type = RD_UP then first @ (case button of Some b \<Rightarrow> [button_up b] | None \<Rightarrow> [])
         else if event_type = RD_WHEEL then first @ [scroll_event (if sint (rm_y ev) > 0 then 1 else -1)]
         else first)"

section \<open>Keys\<close>

text \<open>The keys of the protocol's \<open>ControlKey\<close> that the code names, with their numbers.\<close>

datatype (plugins only: code size) control_key =
    Ck_Alt | Ck_Backspace | Ck_CapsLock | Ck_Control | Ck_Delete | Ck_DownArrow | Ck_End | Ck_Escape | Ck_F1 |
    Ck_F10 | Ck_F11 | Ck_F12 | Ck_F2 | Ck_F3 | Ck_F4 | Ck_F5 | Ck_F6 | Ck_F7 | Ck_F8 | Ck_F9 | Ck_Home |
    Ck_LeftArrow | Ck_Meta | Ck_PageDown | Ck_PageUp | Ck_Return | Ck_RightArrow | Ck_Shift | Ck_Space | Ck_Tab |
    Ck_UpArrow | Ck_Numpad0 | Ck_Numpad1 | Ck_Numpad2 | Ck_Numpad3 | Ck_Numpad4 | Ck_Numpad5 | Ck_Numpad6 |
    Ck_Numpad7 | Ck_Numpad8 | Ck_Numpad9 | Ck_Pause | Ck_Insert | Ck_Scroll | Ck_NumLock | Ck_Multiply | Ck_Add |
    Ck_Subtract | Ck_Decimal | Ck_Divide | Ck_NumpadEnter | Ck_RShift | Ck_RControl | Ck_RAlt

fun control_key_value :: "control_key \<Rightarrow> u32" where
  "control_key_value Ck_Alt = 1" | "control_key_value Ck_Backspace = 2" | "control_key_value Ck_CapsLock = 3" |
  "control_key_value Ck_Control = 4" | "control_key_value Ck_Delete = 5" | "control_key_value Ck_DownArrow = 6" |
  "control_key_value Ck_End = 7" | "control_key_value Ck_Escape = 8" | "control_key_value Ck_F1 = 9" |
  "control_key_value Ck_F10 = 10" | "control_key_value Ck_F11 = 11" | "control_key_value Ck_F12 = 12" |
  "control_key_value Ck_F2 = 13" | "control_key_value Ck_F3 = 14" | "control_key_value Ck_F4 = 15" |
  "control_key_value Ck_F5 = 16" | "control_key_value Ck_F6 = 17" | "control_key_value Ck_F7 = 18" |
  "control_key_value Ck_F8 = 19" | "control_key_value Ck_F9 = 20" | "control_key_value Ck_Home = 21" |
  "control_key_value Ck_LeftArrow = 22" | "control_key_value Ck_Meta = 23" | "control_key_value Ck_PageDown = 25" |
  "control_key_value Ck_PageUp = 26" | "control_key_value Ck_Return = 27" | "control_key_value Ck_RightArrow = 28" |
  "control_key_value Ck_Shift = 29" | "control_key_value Ck_Space = 30" | "control_key_value Ck_Tab = 31" |
  "control_key_value Ck_UpArrow = 32" | "control_key_value Ck_Numpad0 = 33" | "control_key_value Ck_Numpad1 = 34" |
  "control_key_value Ck_Numpad2 = 35" | "control_key_value Ck_Numpad3 = 36" | "control_key_value Ck_Numpad4 = 37" |
  "control_key_value Ck_Numpad5 = 38" | "control_key_value Ck_Numpad6 = 39" | "control_key_value Ck_Numpad7 = 40" |
  "control_key_value Ck_Numpad8 = 41" | "control_key_value Ck_Numpad9 = 42" | "control_key_value Ck_Pause = 46" |
  "control_key_value Ck_Insert = 58" | "control_key_value Ck_Scroll = 62" | "control_key_value Ck_NumLock = 63" |
  "control_key_value Ck_Multiply = 66" | "control_key_value Ck_Add = 67" | "control_key_value Ck_Subtract = 68" |
  "control_key_value Ck_Decimal = 69" | "control_key_value Ck_Divide = 70" |
  "control_key_value Ck_NumpadEnter = 72" | "control_key_value Ck_RShift = 73" |
  "control_key_value Ck_RControl = 74" | "control_key_value Ck_RAlt = 75"

text \<open>The arms of \<open>control_key_to_hid\<close> in the order of the code.\<close>

definition control_key_table :: "(control_key \<times> u8) list" where
  "control_key_table =
    [(Ck_Alt, 0xE2), (Ck_Backspace, 0x2A), (Ck_CapsLock, 0x39), (Ck_Control, 0xE0), (Ck_Delete, 0x4C),
     (Ck_DownArrow, 0x51), (Ck_End, 0x4D), (Ck_Escape, 0x29), (Ck_F1, 0x3A), (Ck_F2, 0x3B), (Ck_F3, 0x3C),
     (Ck_F4, 0x3D), (Ck_F5, 0x3E), (Ck_F6, 0x3F), (Ck_F7, 0x40), (Ck_F8, 0x41), (Ck_F9, 0x42), (Ck_F10, 0x43),
     (Ck_F11, 0x44), (Ck_F12, 0x45), (Ck_Home, 0x4A), (Ck_LeftArrow, 0x50), (Ck_Meta, 0xE3), (Ck_PageDown, 0x4E),
     (Ck_PageUp, 0x4B), (Ck_Return, 0x28), (Ck_RightArrow, 0x4F), (Ck_Shift, 0xE1), (Ck_Space, 0x2C), (Ck_Tab, 0x2B),
     (Ck_UpArrow, 0x52), (Ck_Numpad0, 0x62), (Ck_Numpad1, 0x59), (Ck_Numpad2, 0x5A), (Ck_Numpad3, 0x5B),
     (Ck_Numpad4, 0x5C), (Ck_Numpad5, 0x5D), (Ck_Numpad6, 0x5E), (Ck_Numpad7, 0x5F), (Ck_Numpad8, 0x60),
     (Ck_Numpad9, 0x61), (Ck_Insert, 0x49), (Ck_Pause, 0x48), (Ck_Scroll, 0x47), (Ck_NumLock, 0x53),
     (Ck_RShift, 0xE5), (Ck_RControl, 0xE4), (Ck_RAlt, 0xE6), (Ck_Multiply, 0x55), (Ck_Add, 0x57),
     (Ck_Subtract, 0x56), (Ck_Decimal, 0x63), (Ck_Divide, 0x54), (Ck_NumpadEnter, 0x58)]"

definition control_key_to_hid :: "u32 \<Rightarrow> u8 option" where
  "control_key_to_hid key = map_of (map (\<lambda>(k, u). (control_key_value k, u)) control_key_table) key"

definition is_modifier_control_key :: "rd_key_event \<Rightarrow> bool" where
  "is_modifier_control_key ev =
     (case rk_union ev of
        Some (RdControlKey ck) \<Rightarrow>
          ck \<in> control_key_value ` {Ck_Control, Ck_Shift, Ck_Alt, Ck_Meta, Ck_RControl, Ck_RShift, Ck_RAlt}
      | _ \<Rightarrow> False)"

definition set_modifier :: "u32 \<Rightarrow> keyboard_modifiers \<Rightarrow> keyboard_modifiers" where
  "set_modifier v m =
     (if v = control_key_value Ck_Control then m\<lparr>left_ctrl := True\<rparr>
      else if v = control_key_value Ck_Shift then m\<lparr>left_shift := True\<rparr>
      else if v = control_key_value Ck_Alt then m\<lparr>left_alt := True\<rparr>
      else if v = control_key_value Ck_Meta then m\<lparr>left_meta := True\<rparr>
      else if v = control_key_value Ck_RControl then m\<lparr>right_ctrl := True\<rparr>
      else if v = control_key_value Ck_RShift then m\<lparr>right_shift := True\<rparr>
      else if v = control_key_value Ck_RAlt then m\<lparr>right_alt := True\<rparr>
      else m)"

definition parse_modifiers :: "rd_key_event \<Rightarrow> keyboard_modifiers" where
  "parse_modifiers ev = fold set_modifier (rk_modifiers ev) no_modifiers"

text \<open>Key codes are read as integers; the ranges of the code are comparisons.\<close>

definition ascii_symbols :: "(int \<times> u8) list" where
  "ascii_symbols =
    [(32, 0x2C), (13, 0x28), (10, 0x28), (9, 0x2B), (27, 0x29), (8, 0x2A), (127, 0x4C), (45, 0x2D), (61, 0x2E),
     (91, 0x2F), (93, 0x30), (92, 0x31), (59, 0x33), (39, 0x34), (96, 0x35), (44, 0x36), (46, 0x37), (47, 0x38)]"

definition ascii_to_hid :: "u32 \<Rightarrow> u8 option" where
  "ascii_to_hid c =
     (let a = uint c in
      if 97 \<le> a \<and> a \<le> 122 then Some (word_of_int (a - 97 + 0x04))
      else if 65 \<le> a \<and> a \<le> 90 then Some (word_of_int (a - 65 + 0x04))
      else if a = 48 then Some 0x27
      else if 49 \<le> a \<and> a \<le> 57 then Some (word_of_int (a - 49 + 0x1E))
      else map_of ascii_symbols a)"

definition windows_special :: "(int \<times> u8) list" where
  "windows_special =
    [(0x6A, 0x55), (0x6B, 0x57), (0x6D, 0x56), (0x6E, 0x63), (0x6F, 0x54),
     (0x08, 0x2A), (0x09, 0x2B), (0x0D, 0x28), (0x1B, 0x29), (0x20, 0x2C), (0x21, 0x4B), (0x22, 0x4E), (0x23, 0x4D),
     (0x24, 0x4A), (0x25, 0x50), (0x26, 0x52), (0x27, 0x4F), (0x28, 0x51), (0x2D, 0x49), (0x2E, 0x4C),
     (0xBA, 0x33), (0xBB, 0x2E), (0xBC, 0x36), (0xBD, 0x2D), (0xBE, 0x37), (0xBF, 0x38), (0xC0, 0x35), (0xDB, 0x2F),
     (0xDC, 0x31), (0xDD, 0x30), (0xDE, 0x34), (0x14, 0x39), (0x90, 0x53), (0x91, 0x47), (0x2C, 0x46), (0x13, 0x48)]"

definition windows_vk_to_hid :: "u32 \<Rightarrow> u8 option" where
  "windows_vk_to_hid c =
     (let vk = uint c in
      if 0x41 \<le> vk \<and> vk \<le> 0x5A then Some (word_of_int (vk - 0x41 + 0x04))
      else if vk = 0x30 then Some 0x27
      else if 0x31 \<le> vk \<and> vk \<le> 0x39 then Some (word_of_int (vk - 0x31 + 0x1E))
      else if vk = 0x60 then Some 0x62
      else if 0x61 \<le> vk \<and> vk \<le> 0x69 then Some (word_of_int (vk - 0x61 + 0x59))
      else if 0x70 \<le> vk \<and> vk \<le> 0x7B then Some (word_of_int (vk - 0x70 + 0x3A))
      else map_of windows_special vk)"

definition x11_keys :: "(int \<times> u8) list" where
  "x11_keys =
    [(19, 0x27), (20, 0x2D), (21, 0x2E), (34, 0x2F), (35, 0x30),
     (24, 0x14), (25, 0x1A), (26, 0x08), (27, 0x15), (28, 0x17), (29, 0x1C), (30, 0x18), (31, 0x0C), (32, 0x12), (33, 0x13),
     (38, 0x04), (39, 0x16), (40, 0x07), (41, 0x09), (42, 0x0A), (43, 0x0B), (44, 0x0D), (45, 0x0E), (46, 0x0F), (47, 0x33),
     (48, 0x34), (49, 0x35), (51, 0x31),
     (52, 0x1D), (53, 0x1B), (54, 0x06), (55, 0x19), (56, 0x05), (57, 0x11), (58, 0x10), (59, 0x36), (60, 0x37), (61, 0x38),
     (65, 0x2C)]"

definition x11_keycode_to_hid :: "u32 \<Rightarrow> u8 option" where
  "x11_keycode_to_hid c =
     (let k = uint c in if 10 \<le> k \<and> k \<le> 18 then Some (word_of_int (k - 10 + 0x1E)) else map_of x11_keys k)"

definition keycode_to_hid :: "u32 \<Rightarrow> u8 option" where
  "keycode_to_hid c =
     (case ascii_to_hid c of
        Some hid \<Rightarrow> Some hid
      | None \<Rightarrow> (case windows_vk_to_hid c of Some hid \<Rightarrow> Some hid | None \<Rightarrow> x11_keycode_to_hid c))"

text \<open>\<open>convert_key_event\<close>; a usage that is no canonical key gives no event.\<close>

definition convert_key_event :: "rd_key_event \<Rightarrow> keyboard_event option" where
  "convert_key_event ev =
     (let event_type = (if rk_down ev \<or> rk_press ev then KeyDown else KeyUp);
          modifiers = (if is_modifier_control_key ev then no_modifiers else parse_modifiers ev);
          usage = (case rk_union ev of
            Some (RdControlKey ck) \<Rightarrow> control_key_to_hid ck
          | Some (RdChr chr) \<Rightarrow> keycode_to_hid chr
          | _ \<Rightarrow> None)
      in case usage of
           None \<Rightarrow> None
         | Some u \<Rightarrow>
             (case from_hid_usage u of
                None \<Rightarrow> None
              | Some key \<Rightarrow> Some \<lparr>ke_type = event_type, ke_key = key, ke_modifiers = modifiers\<rparr>))"

section \<open>The input part of a connection\<close>

text \<open>Times are milliseconds of the monotonic clock. The configuration of the throttle is a constant of the code.\<close>

definition DEFAULT_MOUSE_THROTTLE_MS :: nat where "DEFAULT_MOUSE_THROTTLE_MS = 16"
definition DEFAULT_SCREEN_WIDTH :: u32 where "DEFAULT_SCREEN_WIDTH = 1920"
definition DEFAULT_SCREEN_HEIGHT :: u32 where "DEFAULT_SCREEN_HEIGHT = 1080"

record rd_input =
  last_mouse_time :: int
  last_caps_lock :: bool
  relative_mouse_active :: bool

definition throttler_new :: "int \<Rightarrow> int" where
  "throttler_new now = now - int DEFAULT_MOUSE_THROTTLE_MS"

text \<open>\<open>duration_since\<close> saturates at zero.\<close>

definition should_send_mouse_move :: "int \<Rightarrow> rd_input \<Rightarrow> bool \<times> rd_input" where
  "should_send_mouse_move now s =
     (if max 0 (now - last_mouse_time s) \<ge> int DEFAULT_MOUSE_THROTTLE_MS then (True, s\<lparr>last_mouse_time := now\<rparr>)
      else (False, s))"

definition mark_mouse_sent :: "int \<Rightarrow> rd_input \<Rightarrow> rd_input" where
  "mark_mouse_sent now s = s\<lparr>last_mouse_time := now\<rparr>"

text \<open>The handlers give the events for the HID controller (whose answers are only logged) and the new state;
  \<open>hid\<close>: whether there is a controller.\<close>

definition handle_key_event :: "bool \<Rightarrow> rd_key_event \<Rightarrow> rd_input \<Rightarrow> hid_event list \<times> rd_input" where
  "handle_key_event hid ev s =
     (let caps = control_key_value Ck_CapsLock \<in> set (rk_modifiers ev);
          caps_events = (if caps \<noteq> last_caps_lock s \<and> hid
            then [KeyboardEv (key_down (TextKey CapsLock) no_modifiers), KeyboardEv (key_up (TextKey CapsLock) no_modifiers)]
            else []);
          key_events = (case convert_key_event ev of Some kb \<Rightarrow> if hid then [KeyboardEv kb] else [] | None \<Rightarrow> [])
      in (caps_events @ key_events, s\<lparr>last_caps_lock := caps\<rparr>))"

text \<open>\<open>now\<close>: the one reading of the clock, by the throttle for a pure move and by \<open>mark_mouse_sent\<close> for the others.\<close>

definition handle_mouse_event :: "bool \<Rightarrow> int \<Rightarrow> rd_mouse_event \<Rightarrow> rd_input \<Rightarrow> hid_event list \<times> rd_input" where
  "handle_mouse_event hid now ev s =
     (let event_type = rm_mask ev AND 7;
          relative = (event_type = RD_MOVE_RELATIVE);
          s = (if relative then s\<lparr>relative_mouse_active := True\<rparr>
               else if event_type = RD_MOVE then s\<lparr>relative_mouse_active := False\<rparr> else s);
          pure_move = (event_type = RD_MOVE \<or> relative)
      in case (if pure_move then should_send_mouse_move now s else (True, s)) of
           (False, s) \<Rightarrow> ([], s)
         | (True, s) \<Rightarrow>
             let events = convert_mouse_event ev DEFAULT_SCREEN_WIDTH DEFAULT_SCREEN_HEIGHT (relative_mouse_active s)
             in if hid then (map MouseEv events, if pure_move then s else mark_mouse_sent now s) else ([], s))"

section \<open>Key codes\<close>

text \<open>The tables only know codes below 256, so that a statement about them is a check of a list.\<close>

definition small_codes :: "u32 list" where
  "small_codes = map word_of_int [0..255]"

lemma in_small_codes: "uint c < 256 \<Longrightarrow> c \<in> set small_codes"
  unfolding small_codes_def by (auto intro!: image_eqI [of _ _ "uint c"])

lemma large_code: "256 \<le> uint c \<Longrightarrow> ascii_to_hid c = None \<and> windows_vk_to_hid c = None \<and> x11_keycode_to_hid c = None"
  by (auto simp: ascii_to_hid_def windows_vk_to_hid_def x11_keycode_to_hid_def ascii_symbols_def windows_special_def x11_keys_def)

text \<open>The X11 codes that the tables before leave over, and the Windows codes that the ASCII table takes.\<close>

definition x11_reachable :: "int list" where
  "x11_reachable = [11, 12, 14, 15, 16, 17, 18, 21, 24, 25, 26, 28, 29, 30, 31, 41, 42, 43, 58, 60]"

definition windows_shadowed :: "int list" where
  "windows_shadowed = [39, 44, 45, 46] @ [96..107] @ [109..111] @ [112..122]"

definition code_ok :: "u32 \<Rightarrow> bool" where
  "code_ok c \<longleftrightarrow>
     (x11_keycode_to_hid c \<noteq> None \<and> keycode_to_hid c = x11_keycode_to_hid c) = (uint c \<in> set x11_reachable) \<and>
     (windows_vk_to_hid c \<noteq> None \<and> keycode_to_hid c \<noteq> windows_vk_to_hid c) = (uint c \<in> set windows_shadowed) \<and>
     (case keycode_to_hid c of None \<Rightarrow> True | Some h \<Rightarrow> from_hid_usage h \<noteq> None)"

lemma small_codes_ok: "list_all code_ok small_codes"
  by code_simp

lemma code_ok: "code_ok c"
proof (cases "uint c < 256")
  case True
  then show ?thesis using small_codes_ok in_small_codes by (auto simp: list_all_iff)
next
  case False
  then show ?thesis using large_code [of c]
    by (simp add: code_ok_def keycode_to_hid_def x11_reachable_def windows_shadowed_def upto.simps)
qed

text \<open>C34: What the three tables for key codes mean together: of the X11 codes of a Linux client only 20 reach the X11 table, every
  other one that it knows is taken for an ASCII or Windows code and gives another key or none of its own; of the Windows codes the numeric pad, F1 to F11 and
  four others give the key of an ASCII character. Every code that is found gives a canonical key.\<close>

theorem rd_keycode_tables:
  "(x11_keycode_to_hid c \<noteq> None \<and> keycode_to_hid c = x11_keycode_to_hid c) = (uint c \<in> set x11_reachable) \<and>
   (windows_vk_to_hid c \<noteq> None \<and> keycode_to_hid c \<noteq> windows_vk_to_hid c) = (uint c \<in> set windows_shadowed) \<and>
   (case keycode_to_hid c of None \<Rightarrow> True | Some h \<Rightarrow> from_hid_usage h \<noteq> None)"
  using code_ok [of c] by (simp add: code_ok_def)

section \<open>Modifiers\<close>

definition modifier_control_keys :: "control_key list" where
  "modifier_control_keys = [Ck_Control, Ck_Shift, Ck_Alt, Ck_Meta, Ck_RControl, Ck_RShift, Ck_RAlt]"

lemma control_keys_convert:
  "list_all (\<lambda>(k, u). control_key_to_hid (control_key_value k) = Some u \<and> from_hid_usage u \<noteq> None) control_key_table"
  by code_simp

lemma modifier_keys_agree:
  "list_all (\<lambda>k. case control_key_to_hid (control_key_value k) of None \<Rightarrow> False | Some u \<Rightarrow>
     (case from_hid_usage u of None \<Rightarrow> False | Some key \<Rightarrow>
        modifier_bit key = Some (to_hid_byte (set_modifier (control_key_value k) no_modifiers)))) modifier_control_keys"
  by code_simp

section \<open>Pointer positions\<close>

lemma sint_nonneg: "0 \<le> sint (v :: u32) \<Longrightarrow> sint v = uint v \<and> uint v < 2 ^ 31"
proof -
  assume v: "0 \<le> sint v"
  then have b: "\<not> bit v 31" using bit_last_iff [of v] by simp
  then have "sint v = take_bit 31 (uint v)"
    by (simp add: sint_uint signed_take_bit_eq_if_positive bit_uint_iff)
  moreover have "take_bit 31 (uint v) < 2 ^ 31" by (rule take_bit_int_less_exp)
  moreover have "take_bit 31 (uint v) = uint v"
  proof -
    have "even (uint v div 2 ^ 31)" using b bit_uint_iff [of v 31] by (simp only: bit_iff_odd [of "uint v"]) simp
    moreover have "uint v div 2 ^ 31 < 2" using uint_lt2p [of v] by (simp add: div_less_iff_less_mult)
    moreover have "0 \<le> uint v div 2 ^ 31" by (simp add: pos_imp_zdiv_nonneg_iff)
    ultimately have "uint v div 2 ^ 31 = 0" by (metis even_iff_mod_2_eq_zero mod_pos_pos_trivial)
    then show ?thesis by (auto simp: take_bit_eq_mod zdiv_eq_0_iff mod_pos_pos_trivial)
  qed
  ultimately show ?thesis by simp
qed

lemma scale_coord_uint:
  assumes "0 \<le> sint v" and "dim \<noteq> 0"
  shows "uint (scale_coord v dim) = (uint v * 32767 div uint dim) mod 2 ^ 32"
proof -
  have v: "uint v < 2 ^ 31" using sint_nonneg [OF assms(1)] by simp
  have d: "max dim 1 = dim" 
  proof -
    have "0 < uint dim" using assms(2) uint_0_iff [of dim] uint_ge_0 [of dim] by linarith
    then show ?thesis by (auto simp: max_def word_le_def word_uint_eq_iff)
  qed
  have m: "uint (ucast v * 32767 :: u64) = uint v * 32767"
    using v by (simp add: uint_word_ariths unsigned_ucast_eq take_bit_eq_mod)
  moreover have "uint dim mod 18446744073709551616 = uint dim"
    using uint_lt2p [of dim] by (intro mod_pos_pos_trivial) simp_all
  ultimately show ?thesis
    using assms(1) d by (simp add: scale_coord_def Let_def uint_div unsigned_ucast_eq take_bit_eq_mod)
qed

text \<open>Scaling keeps a point of the screen on the absolute axes: from 0 to 32767, exact at both edges, never decreasing, and with
  less than one step of rounding.\<close>

theorem rd_pointer_scale:
  assumes "0 \<le> sint v" and "sint v \<le> sint dim" and "0 < sint dim"
  shows "uint (scale_coord v dim) = sint v * 32767 div sint dim \<and> uint (scale_coord v dim) \<le> 32767 \<and>
    (sint v = sint dim \<longrightarrow> uint (scale_coord v dim) = 32767) \<and>
    (\<forall>u. 0 \<le> sint u \<and> sint u \<le> sint v \<longrightarrow> uint (scale_coord u dim) \<le> uint (scale_coord v dim))"
proof -
  have dim: "sint dim = uint dim" "dim \<noteq> 0" using assms(3) sint_nonneg [of dim] by auto
  have scale: "uint (scale_coord u dim) = sint u * 32767 div sint dim \<and> sint u * 32767 div sint dim \<le> 32767"
    if "0 \<le> sint u" "sint u \<le> sint dim" for u
  proof -
    have "sint u * 32767 div sint dim \<le> sint dim * 32767 div sint dim"
      using that(2) assms(3) by (intro zdiv_mono1) simp_all
    then have "sint u * 32767 div sint dim \<le> 32767" using assms(3) by simp
    moreover have "0 \<le> sint u * 32767 div sint dim" using that(1) assms(3) by (simp add: pos_imp_zdiv_nonneg_iff)
    ultimately show ?thesis
      using scale_coord_uint [OF that(1) dim(2)] sint_nonneg [OF that(1)] by (simp add: dim(1) mod_pos_pos_trivial)
  qed
  have "uint (scale_coord u dim) \<le> uint (scale_coord v dim)" if "0 \<le> sint u" "sint u \<le> sint v" for u
    using scale [OF that(1)] scale [OF assms(1,2)] that assms by (simp add: zdiv_mono1)
  then show ?thesis using scale [OF assms(1,2)] assms(3) by auto
qed

theorem rd_pointer_scale_witness: "uint (scale_coord 960 1920) = 16383"
  using rd_pointer_scale [of 960 1920] by simp

section \<open>The throttle\<close>

definition is_pure_move :: "rd_mouse_event \<Rightarrow> bool" where
  "is_pure_move ev \<longleftrightarrow> rm_mask ev AND 7 = RD_MOVE \<or> rm_mask ev AND 7 = RD_MOVE_RELATIVE"

text \<open>A history: messages with the readings of the clock, and what is sent for each.\<close>

fun mouse_history :: "(int \<times> rd_mouse_event) list \<Rightarrow> rd_input \<Rightarrow> (int \<times> rd_mouse_event \<times> hid_event list) list" where
  "mouse_history [] s = []"
| "mouse_history ((now, ev) # ms) s =
     (case handle_mouse_event True now ev s of (es, s) \<Rightarrow> (now, ev, es) # mouse_history ms s)"

fun clock_ok :: "int \<Rightarrow> (int \<times> rd_mouse_event) list \<Rightarrow> bool" where
  "clock_ok t [] = True"
| "clock_ok t ((now, ev) # ms) = (t \<le> now \<and> clock_ok now ms)"

definition sent_moves :: "(int \<times> rd_mouse_event \<times> hid_event list) list \<Rightarrow> int list" where
  "sent_moves out = map fst (filter (\<lambda>(t, ev, es). is_pure_move ev \<and> es \<noteq> []) out)"

definition always_sent :: "int \<times> rd_mouse_event \<times> hid_event list \<Rightarrow> bool" where
  "always_sent x = (case x of (t, ev, es) \<Rightarrow>
     is_pure_move ev \<or> (\<exists>relative. es = map MouseEv (convert_mouse_event ev DEFAULT_SCREEN_WIDTH DEFAULT_SCREEN_HEIGHT relative)))"

lemma pure_move_sends: "is_pure_move ev \<Longrightarrow> convert_mouse_event ev w h r \<noteq> []"
  by (auto simp: is_pure_move_def convert_mouse_event_def Let_def rd_mouse_consts)

lemma handle_mouse_event_step:
  assumes "handle_mouse_event True now ev s = (es, s')"
  shows "always_sent (now, ev, es) \<and>
    (if is_pure_move ev then
       (if 16 \<le> max 0 (now - last_mouse_time s) then es \<noteq> [] \<and> last_mouse_time s' = now
        else es = [] \<and> last_mouse_time s' = last_mouse_time s)
     else last_mouse_time s' = now)"
proof (cases "is_pure_move ev")
  case True
  then show ?thesis
    using assms pure_move_sends [OF True]
    by (auto simp: handle_mouse_event_def Let_def is_pure_move_def always_sent_def should_send_mouse_move_def
        DEFAULT_MOUSE_THROTTLE_MS_def split: if_splits)
next
  case False
  then show ?thesis
    using assms
    by (auto simp: handle_mouse_event_def Let_def is_pure_move_def always_sent_def mark_mouse_sent_def split: if_splits)
qed

lemma clock_ok_mono: "clock_ok t ms \<Longrightarrow> t' \<le> t \<Longrightarrow> clock_ok t' ms"
  by (cases ms) auto

lemma mouse_history_throttled:
  assumes "clock_ok t ms" and "last_mouse_time s \<le> t"
  shows "sorted_wrt (\<lambda>a b. a + 16 \<le> b) (sent_moves (mouse_history ms s)) \<and>
    (\<forall>a \<in> set (sent_moves (mouse_history ms s)). last_mouse_time s + 16 \<le> a) \<and> list_all always_sent (mouse_history ms s)"
  using assms
proof (induction ms arbitrary: s t)
  case (Cons m ms)
  obtain now ev where m: "m = (now, ev)" by (cases m) auto
  obtain es s' where h: "handle_mouse_event True now ev s = (es, s')" by fastforce
  note step = handle_mouse_event_step [OF h]
  have c: "t \<le> now" "clock_ok now ms" using Cons.prems(1) m by simp_all
  show ?case
  proof (cases "is_pure_move ev")
    case True
    show ?thesis
    proof (cases "16 \<le> max 0 (now - last_mouse_time s)")
      case big: True
      then have s': "es \<noteq> []" "last_mouse_time s' = now" using step True by auto
      then show ?thesis using Cons.IH [OF c(2), of s'] c big step m h True by (force simp: sent_moves_def)
    next
      case small: False
      then have s': "es = []" "last_mouse_time s' = last_mouse_time s" using step True by auto
      then show ?thesis using Cons.IH [OF c(2), of s'] c Cons.prems(2) step m h True by (simp add: sent_moves_def)
    qed
  next
    case False
    then have s': "last_mouse_time s' = now" using step by auto
    then show ?thesis using Cons.IH [OF c(2), of s'] c Cons.prems(2) step m h False by (force simp: sent_moves_def)
  qed
qed (simp add: sent_moves_def)

text \<open>C32: The throttle: with a clock that does not go back, the mouse moves that reach the HID controller are at least 16 ms apart,
  and no other message is ever held back.\<close>

theorem rd_mouse_throttled:
  assumes "clock_ok t ms" and "last_mouse_time s \<le> t"
  shows "sorted_wrt (\<lambda>a b. a + 16 \<le> b) (sent_moves (mouse_history ms s)) \<and> list_all always_sent (mouse_history ms s)"
  using mouse_history_throttled [OF assms] by simp

theorem rd_mouse_throttled_witness:
  "list_all always_sent (mouse_history [(100, \<lparr>rm_mask = 0, rm_x = 5, rm_y = 5\<rparr>), (105, \<lparr>rm_mask = 9, rm_x = 5, rm_y = 5\<rparr>)]
     \<lparr>last_mouse_time = throttler_new 100, last_caps_lock = False, relative_mouse_active = False\<rparr>)"
  by (rule rd_mouse_throttled [of 100, THEN conjunct2]) (simp_all add: throttler_new_def DEFAULT_MOUSE_THROTTLE_MS_def)

end
