(* ===== verification/Rustdesk_Connection.thy ===== *)
theory Rustdesk_Connection
  imports Rustdesk_Codec Rustdesk_Hid Codec_Constraints
begin

text \<open>
  \<^verbatim>\<open>src/src/rustdesk/connection.rs\<close> and the part of \<^verbatim>\<open>src/src/rustdesk/crypto.rs\<close> that it uses: one connection of a RustDesk
  client, from the handshake to the end of its loop. What is not in the repository is the record \<open>rd_env\<close>: the protobuf coding, the
  NaCl and SHA-256 functions, the encoders, the stream manager's answers, the socket and the clock; calls to the outside read and change a state \<open>'w\<close>.
  What a connection does to the outside is the list \<open>effects\<close>.
\<close>

section \<open>Messages\<close>

record test_delay =
  td_time :: u64
  td_from_client :: bool
  td_last_delay :: u32
  td_target_bitrate :: u32

record login_request =
  lr_my_id :: rstr
  lr_my_name :: rstr
  lr_password :: bytes

record rd_peer_info =
  pi_username :: rstr
  pi_hostname :: rstr
  pi_platform :: rstr
  pi_version :: rstr
  pi_display_name :: rstr
  pi_display :: "u32 \<times> u32"
  pi_current_display :: u32
  pi_sas_enabled :: bool
  pi_h264 :: bool
  pi_h265 :: bool
  pi_vp8 :: bool
  pi_av1 :: bool

datatype login_response = LoginPeerInfo rd_peer_info | LoginError rstr

record option_message =
  om_image_quality :: u32
  om_prefer :: "u32 option"

datatype misc_union = SwitchDisplay u32 | OptionMisc option_message | RefreshVideo bool | VideoReceived bool
  | AudioFormatMisc u32 u32 | OtherMisc

text \<open>\<open>Message::union\<close>; the frames of a \<open>VideoFrame\<close> are its codec and the list of data, key flag and time. The messages
  that are only logged are \<open>MsgOther\<close>, a message without a union is \<open>MsgEmpty\<close>.\<close>

datatype rd_video_codec = RdH264 | RdH265 | RdVP8 | RdVP9 | RdAV1

datatype hbb_message =
    MsgSignedId bytes
  | MsgPublicKey bytes bytes
  | MsgTestDelay test_delay
  | MsgVideoFrame rd_video_codec "(bytes \<times> bool \<times> u64) list"
  | MsgAudioFrame bytes
  | MsgLoginRequest login_request
  | MsgLoginResponse login_response
  | MsgHash rstr rstr
  | MsgKeyEvent rd_key_event
  | MsgMouseEvent rd_mouse_event
  | MsgClipboard
  | MsgMisc "misc_union option"
  | MsgOther
  | MsgEmpty

datatype bitrate_preset = PresetSpeed | PresetBalanced | PresetQuality | PresetCustom u32

section \<open>The state\<close>

datatype connection_state = ConnPending | ConnHandshaking | ConnActive | ConnClosed | ConnError rstr

text \<open>\<open>Sealed k nonce data\<close>: \<open>secretbox::seal\<close> is called with this key, nonce and message; \<open>FrameSent\<close>: a frame with this payload is written.\<close>

datatype rd_effect =
    Sealed bytes bytes bytes
  | FrameSent bytes
  | ToHid hid_event
  | BitrateSet bitrate_preset
  | KeyframeRequested
  | VideoStarted video_encoder_type
  | VideoStopped
  | AudioStarted

record connection =
  device_id :: rstr
  peer_id :: rstr
  peer_name :: rstr
  conn_state :: connection_state
  temp_public :: bytes
  temp_secret :: bytes
  conn_password :: rstr
  session_key :: "bytes option"
  encryption_enabled :: bool
  enc_seqnum :: u64
  dec_seqnum :: u64
  negotiated_codec :: "video_encoder_type option"
  video_frame_tx :: bool
  video_task :: bool
  audio_task :: bool
  conn_input :: rd_input
  last_delay :: u32
  last_test_delay_sent :: "int option"
  video_streaming :: bool
  audio_streaming :: bool
  effects :: "rd_effect list"

record 'w rd_env =
  pb_encode :: "hbb_message \<Rightarrow> bytes option"
  pb_decode :: "bytes \<Rightarrow> hbb_message option"
  idpk_encode :: "rstr \<Rightarrow> bytes \<Rightarrow> bytes"
  idpk_decode :: "bytes \<Rightarrow> (rstr \<times> bytes) option"
  na_sign :: "bytes \<Rightarrow> bytes"
  na_seal :: "bytes \<Rightarrow> bytes \<Rightarrow> bytes \<Rightarrow> bytes"
  na_open :: "bytes \<Rightarrow> bytes \<Rightarrow> bytes \<Rightarrow> bytes option"
  na_box_open :: "bytes \<Rightarrow> bytes \<Rightarrow> bytes \<Rightarrow> bytes \<Rightarrow> bytes option"
  sha256 :: "bytes \<Rightarrow> bytes"
  has_hid :: bool
  has_audio :: bool
  has_video :: bool
  codec_available :: "video_encoder_type \<Rightarrow> bool"
  manager_constraints :: "'w \<Rightarrow> stream_codec_constraints \<times> 'w"
  video_resolution :: "'w \<Rightarrow> (u32 \<times> u32) option \<times> 'w"
  hostname_file :: "'w \<Rightarrow> rstr option \<times> 'w"
  write_socket :: "bytes \<Rightarrow> 'w \<Rightarrow> bool \<times> 'w"
  clock_ms :: "'w \<Rightarrow> int \<times> 'w"
  epoch_ms :: "'w \<Rightarrow> u64 \<times> 'w"

definition RUSTDESK_COMPAT_VERSION :: rstr where "RUSTDESK_COMPAT_VERSION = lit ''1.4.5''"
definition RUSTDESK_COMPAT_PLATFORM :: rstr where "RUSTDESK_COMPAT_PLATFORM = lit ''Windows''"

text \<open>\<open>Connection::new\<close>; the key pair is generated by the caller's environment, the clock read once.\<close>

definition connection_new :: "rstr \<Rightarrow> rstr \<Rightarrow> bytes \<times> bytes \<Rightarrow> int \<Rightarrow> connection" where
  "connection_new dev_id password keypair now =
     \<lparr>device_id = dev_id, peer_id = [], peer_name = [], conn_state = ConnPending, temp_public = fst keypair, temp_secret = snd keypair,
      conn_password = password, session_key = None, encryption_enabled = False, enc_seqnum = 0, dec_seqnum = 0, negotiated_codec = None,
      video_frame_tx = False, video_task = False, audio_task = False,
      conn_input = \<lparr>last_mouse_time = throttler_new now, last_caps_lock = False, relative_mouse_active = False\<rparr>,
      last_delay = 0, last_test_delay_sent = None, video_streaming = False, audio_streaming = False, effects = []\<rparr>"

type_synonym ('w, 'a) rd_op = "(connection \<times> 'w, rstr, 'a) stm"

definition on_conn :: "(connection \<Rightarrow> connection) \<Rightarrow> ('w, unit) rd_op" where
  "on_conn f = modifyE (\<lambda>(c, w). (f c, w))"

definition of_conn :: "(connection \<Rightarrow> 'a) \<Rightarrow> ('w, 'a) rd_op" where
  "of_conn f = getsE (\<lambda>(c, w). f c)"

definition ask_env :: "('w \<Rightarrow> 'a \<times> 'w) \<Rightarrow> ('w, 'a) rd_op" where
  "ask_env f cw = (case f (snd cw) of (a, w) \<Rightarrow> (Inr a, (fst cw, w)))"

definition emit :: "rd_effect \<Rightarrow> ('w, unit) rd_op" where
  "emit e = on_conn (\<lambda>c. c\<lparr>effects := effects c @ [e]\<rparr>)"

section \<open>Cryptography\<close>

definition hash_password :: "'w rd_env \<Rightarrow> rstr \<Rightarrow> rstr \<Rightarrow> bytes" where
  "hash_password env password salt = sha256 env (utf8_encode password @ utf8_encode salt)"

definition hash_password_double :: "'w rd_env \<Rightarrow> rstr \<Rightarrow> rstr \<Rightarrow> rstr \<Rightarrow> bytes" where
  "hash_password_double env password salt challenge =
     (let first_hash = sha256 env (utf8_encode password @ utf8_encode salt) in sha256 env (first_hash @ utf8_encode challenge))"

definition decrypt_symmetric_key :: "'w rd_env \<Rightarrow> bytes \<Rightarrow> bytes \<Rightarrow> bytes \<Rightarrow> bytes option" where
  "decrypt_symmetric_key env their_public sealed our_secret =
     (if length their_public \<noteq> 32 then None
      else case na_box_open env sealed (replicate 24 0) their_public our_secret of
        None \<Rightarrow> None
      | Some key \<Rightarrow> if length key = 32 then Some key else None)"

definition get_nonce :: "u64 \<Rightarrow> bytes" where
  "get_nonce seqnum = copy_at 0 (to_le 8 seqnum) (replicate 24 0)"

section \<open>Sending\<close>

definition send_framed :: "'w rd_env \<Rightarrow> bytes \<Rightarrow> ('w, unit) rd_op" where
  "send_framed env data =
     (case encode_frame data of
        Inl _ \<Rightarrow> throwE (lit ''Message too large'')
      | Inr framed \<Rightarrow>
          bindE (ask_env (write_socket env framed)) (\<lambda>ok. if ok then emit (FrameSent data) else throwE (lit ''write failed'')))"

definition send_encrypted :: "'w rd_env \<Rightarrow> bytes \<Rightarrow> ('w, unit) rd_op" where
  "send_encrypted env data =
     bindE (of_conn session_key) (\<lambda>key. case key of
       Some k \<Rightarrow>
         bindE (on_conn (\<lambda>c. c\<lparr>enc_seqnum := enc_seqnum c + 1\<rparr>)) (\<lambda>_.
         bindE (of_conn enc_seqnum) (\<lambda>n.
         let nonce = get_nonce n in
         bindE (emit (Sealed k nonce data)) (\<lambda>_.
           send_framed env (na_seal env data nonce k))))
     | None \<Rightarrow> send_framed env data)"

text \<open>Encoding a message (\<open>map_err\<close> on failure) and sending it.\<close>

definition encode_message :: "'w rd_env \<Rightarrow> hbb_message \<Rightarrow> ('w, bytes) rd_op" where
  "encode_message env m = (case pb_encode env m of Some bs \<Rightarrow> returnE bs | None \<Rightarrow> throwE (lit ''Failed to encode''))"

definition send_message :: "'w rd_env \<Rightarrow> hbb_message \<Rightarrow> ('w, unit) rd_op" where
  "send_message env m = bindE (encode_message env m) (send_encrypted env)"

definition create_signed_id_message :: "'w rd_env \<Rightarrow> connection \<Rightarrow> hbb_message" where
  "create_signed_id_message env c = MsgSignedId (na_sign env (idpk_encode env (device_id c) (temp_public c)))"

definition create_hash_message :: "connection \<Rightarrow> hbb_message" where
  "create_hash_message c = MsgHash (device_id c) []"

definition create_login_error_response :: "rstr \<Rightarrow> hbb_message" where
  "create_login_error_response err = MsgLoginResponse (LoginError err)"

section \<open>Codecs and streaming\<close>

definition current_codec_constraints :: "'w rd_env \<Rightarrow> ('w, stream_codec_constraints) rd_op" where
  "current_codec_constraints env = (if has_video env then ask_env (manager_constraints env) else returnE unrestricted)"

definition usable :: "'w rd_env \<Rightarrow> stream_codec_constraints \<Rightarrow> video_encoder_type \<Rightarrow> bool" where
  "usable env constraints e \<longleftrightarrow> is_webrtc_codec_allowed constraints (encoder_codec_to_video_codec e) \<and> codec_available env e"

definition negotiate_video_codec :: "'w rd_env \<Rightarrow> ('w, video_encoder_type) rd_op" where
  "negotiate_video_codec env =
     bindE (current_codec_constraints env) (\<lambda>constraints. returnE
       (if usable env constraints EncH264 then EncH264
        else if usable env constraints EncH265 then EncH265
        else if usable env constraints EncVP8 then EncVP8
        else if usable env constraints EncVP9 then EncVP9
        else video_codec_to_encoder_codec (preferred_webrtc_codec constraints)))"

definition start_video_streaming :: "'w rd_env \<Rightarrow> ('w, unit) rd_op" where
  "start_video_streaming env =
     (if \<not> has_video env then returnE ()
      else bindE (of_conn negotiated_codec) (\<lambda>codec.
        bindE (emit (VideoStarted (case codec of Some e \<Rightarrow> e | None \<Rightarrow> EncH264))) (\<lambda>_.
          on_conn (\<lambda>c. c\<lparr>video_task := True\<rparr>))))"

definition start_audio_streaming :: "'w rd_env \<Rightarrow> ('w, unit) rd_op" where
  "start_audio_streaming env =
     (if \<not> has_audio env then returnE ()
      else bindE (emit AudioStarted) (\<lambda>_. on_conn (\<lambda>c. c\<lparr>audio_task := True\<rparr>)))"

definition switch_video_codec :: "'w rd_env \<Rightarrow> video_encoder_type \<Rightarrow> ('w, unit) rd_op" where
  "switch_video_codec env new_codec =
     bindE (of_conn video_task) (\<lambda>task.
     bindE (if task then bindE (emit VideoStopped) (\<lambda>_. on_conn (\<lambda>c. c\<lparr>video_task := False\<rparr>)) else returnE ()) (\<lambda>_.
     bindE (on_conn (\<lambda>c. c\<lparr>negotiated_codec := Some new_codec\<rparr>)) (\<lambda>_.
     bindE (of_conn video_frame_tx) (\<lambda>tx.
       if tx then start_video_streaming env else returnE ()))))"

section \<open>Login\<close>

definition verify_password :: "'w rd_env \<Rightarrow> connection \<Rightarrow> bytes \<Rightarrow> bool" where
  "verify_password env c provided =
     (if provided = [] then conn_password c = []
      else if conn_password c = [] then False
      else if provided = hash_password_double env (conn_password c) (device_id c) [] then True
      else provided = hash_password env (conn_password c) (device_id c))"

definition get_hostname :: "'w rd_env \<Rightarrow> ('w, rstr) rd_op" where
  "get_hostname env = bindE (ask_env (hostname_file env)) (\<lambda>f. returnE (case f of Some s \<Rightarrow> trim s | None \<Rightarrow> lit ''One-KVM''))"

text \<open>\<open>create_login_response(true)\<close>, the only way it is called.\<close>

definition create_login_response :: "'w rd_env \<Rightarrow> ('w, hbb_message) rd_op" where
  "create_login_response env =
     bindE (current_codec_constraints env) (\<lambda>constraints.
     bindE (if has_video env then ask_env (video_resolution env) else returnE None) (\<lambda>resolution.
     bindE (get_hostname env) (\<lambda>hostname.
     returnE (MsgLoginResponse (LoginPeerInfo
       \<lparr>pi_username = lit ''one-kvm'', pi_hostname = hostname, pi_platform = RUSTDESK_COMPAT_PLATFORM,
        pi_version = RUSTDESK_COMPAT_VERSION, pi_display_name = lit ''KVM Display'',
        pi_display = (case resolution of Some r \<Rightarrow> r | None \<Rightarrow> (DEFAULT_SCREEN_WIDTH, DEFAULT_SCREEN_HEIGHT)),
        pi_current_display = 0, pi_sas_enabled = False,
        pi_h264 = usable env constraints EncH264, pi_h265 = usable env constraints EncH265,
        pi_vp8 = usable env constraints EncVP8, pi_av1 = False\<rparr>)))))"

definition handle_login_request :: "'w rd_env \<Rightarrow> login_request \<Rightarrow> ('w, bool) rd_op" where
  "handle_login_request env lr =
     bindE (of_conn conn_password) (\<lambda>password.
     bindE (of_conn (\<lambda>c. verify_password env c (lr_password lr))) (\<lambda>valid.
     if password \<noteq> [] \<and> lr_password lr = [] then
       bindE (send_message env (create_login_error_response (lit ''Empty Password''))) (\<lambda>_. returnE False)
     else if password \<noteq> [] \<and> \<not> valid then
       bindE (send_message env (create_login_error_response (lit ''Wrong Password''))) (\<lambda>_. returnE False)
     else
       bindE (on_conn (\<lambda>c. c\<lparr>conn_state := ConnActive\<rparr>)) (\<lambda>_.
       bindE (negotiate_video_codec env) (\<lambda>codec.
       bindE (on_conn (\<lambda>c. c\<lparr>negotiated_codec := Some codec\<rparr>)) (\<lambda>_.
       bindE (create_login_response env) (\<lambda>response.
       bindE (send_message env response) (\<lambda>_. returnE True)))))))"

text \<open>The arm for a login request.\<close>

definition login_arm :: "'w rd_env \<Rightarrow> login_request \<Rightarrow> ('w, unit) rd_op" where
  "login_arm env lr =
     bindE (on_conn (\<lambda>c. c\<lparr>peer_id := lr_my_id lr, peer_name := lr_my_name lr\<rparr>)) (\<lambda>_.
     bindE (handle_login_request env lr) (\<lambda>ok.
     if ok then
       bindE (on_conn (\<lambda>c. c\<lparr>video_frame_tx := True\<rparr>)) (\<lambda>_.
       bindE (of_conn video_streaming) (\<lambda>video.
       bindE (if video then returnE () else bindE (start_video_streaming env) (\<lambda>_. on_conn (\<lambda>c. c\<lparr>video_streaming := True\<rparr>))) (\<lambda>_.
       bindE (of_conn audio_streaming) (\<lambda>audio.
       if audio then returnE () else bindE (start_audio_streaming env) (\<lambda>_. on_conn (\<lambda>c. c\<lparr>audio_streaming := True\<rparr>))))))
     else returnE ()))"

section \<open>The other messages\<close>

definition handle_peer_public_key :: "'w rd_env \<Rightarrow> bytes \<Rightarrow> bytes \<Rightarrow> ('w, unit) rd_op" where
  "handle_peer_public_key env asymmetric symmetric =
     bindE (on_conn (\<lambda>c.
       if length asymmetric = 32 \<and> symmetric \<noteq> [] then
         (case decrypt_symmetric_key env asymmetric symmetric (temp_secret c) of
            Some key \<Rightarrow> c\<lparr>session_key := Some key, encryption_enabled := True\<rparr>
          | None \<Rightarrow> c\<lparr>encryption_enabled := False\<rparr>)
       else c\<lparr>encryption_enabled := False\<rparr>)) (\<lambda>_.
     bindE (of_conn create_hash_message) (send_message env))"

definition handle_signed_id :: "'w rd_env \<Rightarrow> bytes \<Rightarrow> ('w, unit) rd_op" where
  "handle_signed_id env signed_data =
     bindE (on_conn (\<lambda>c.
       case idpk_decode env (if length signed_data > 64 then drop 64 signed_data else signed_data) of
         Some (ident, _) \<Rightarrow> if ident \<noteq> [] then c\<lparr>peer_id := ident\<rparr> else c
       | None \<Rightarrow> c)) (\<lambda>_.
     bindE (of_conn (create_signed_id_message env)) (\<lambda>m.
     bindE (encode_message env m) (send_framed env)))"

definition request_keyframe :: "'w rd_env \<Rightarrow> ('w, unit) rd_op" where
  "request_keyframe env = (if has_video env then emit KeyframeRequested else returnE ())"

definition quality_preset :: "u32 \<Rightarrow> bitrate_preset option" where
  "quality_preset q = (if q = 2 then Some PresetSpeed else if q = 3 then Some PresetBalanced else if q = 4 then Some PresetQuality else None)"

definition prefer_codec :: "u32 \<Rightarrow> video_encoder_type option" where
  "prefer_codec p = (if p = 1 then Some EncVP9 else if p = 2 then Some EncH264 else if p = 3 then Some EncH265
     else if p = 4 then Some EncVP8 else None)"

definition handle_option_message :: "'w rd_env \<Rightarrow> option_message \<Rightarrow> ('w, unit) rd_op" where
  "handle_option_message env opt =
     bindE (case quality_preset (om_image_quality opt) of
              Some preset \<Rightarrow> if has_video env then emit (BitrateSet preset) else returnE ()
            | None \<Rightarrow> returnE ()) (\<lambda>_.
     case om_prefer opt of
       None \<Rightarrow> returnE ()
     | Some p \<Rightarrow>
         (case prefer_codec p of
            None \<Rightarrow> returnE ()
          | Some new_codec \<Rightarrow>
              bindE (of_conn negotiated_codec) (\<lambda>current.
              if current = Some new_codec then returnE ()
              else bindE (current_codec_constraints env) (\<lambda>constraints.
                if \<not> is_webrtc_codec_allowed constraints (encoder_codec_to_video_codec new_codec) then returnE ()
                else if codec_available env new_codec then switch_video_codec env new_codec else returnE ()))))"

definition handle_misc :: "'w rd_env \<Rightarrow> misc_union option \<Rightarrow> ('w, unit) rd_op" where
  "handle_misc env misc =
     (case misc of
        Some (OptionMisc opt) \<Rightarrow> handle_option_message env opt
      | Some (RefreshVideo refresh) \<Rightarrow> if refresh then request_keyframe env else returnE ()
      | _ \<Rightarrow> returnE ())"

text \<open>\<open>elapsed\<close> saturates at zero.\<close>

definition handle_test_delay :: "'w rd_env \<Rightarrow> test_delay \<Rightarrow> ('w, unit) rd_op" where
  "handle_test_delay env td =
     (if td_from_client td then
        bindE (of_conn last_delay) (\<lambda>delay.
          send_message env (MsgTestDelay \<lparr>td_time = td_time td, td_from_client = False, td_last_delay = delay, td_target_bitrate = 0\<rparr>))
      else
        bindE (of_conn last_test_delay_sent) (\<lambda>sent. case sent of
          None \<Rightarrow> returnE ()
        | Some t \<Rightarrow>
            bindE (ask_env (clock_ms env)) (\<lambda>now.
              on_conn (\<lambda>c. c\<lparr>last_test_delay_sent := None, last_delay := word_of_int (max 0 (now - t))\<rparr>))))"

definition send_test_delay :: "'w rd_env \<Rightarrow> ('w, unit) rd_op" where
  "send_test_delay env =
     bindE (ask_env (epoch_ms env)) (\<lambda>time.
     bindE (of_conn last_delay) (\<lambda>delay.
     bindE (send_message env (MsgTestDelay \<lparr>td_time = time, td_from_client = False, td_last_delay = delay, td_target_bitrate = 0\<rparr>)) (\<lambda>_.
     bindE (ask_env (clock_ms env)) (\<lambda>now. on_conn (\<lambda>c. c\<lparr>last_test_delay_sent := Some now\<rparr>)))))"

text \<open>Input: the events of the handler become effects.\<close>

definition run_input :: "(rd_input \<Rightarrow> hid_event list \<times> rd_input) \<Rightarrow> ('w, unit) rd_op" where
  "run_input h = on_conn (\<lambda>c. case h (conn_input c) of (es, i) \<Rightarrow> c\<lparr>conn_input := i, effects := effects c @ map ToHid es\<rparr>)"

definition input_arm :: "('w, unit) rd_op \<Rightarrow> ('w, unit) rd_op" where
  "input_arm m = bindE (of_conn conn_state) (\<lambda>st. if st = ConnActive then m else returnE ())"

definition mouse_arm :: "'w rd_env \<Rightarrow> rd_mouse_event \<Rightarrow> ('w, unit) rd_op" where
  "mouse_arm env me =
     bindE (ask_env (clock_ms env)) (\<lambda>now. run_input (handle_mouse_event (has_hid env) now me))"

definition dispatch :: "'w rd_env \<Rightarrow> hbb_message \<Rightarrow> ('w, unit) rd_op" where
  "dispatch env m =
     (case m of
        MsgPublicKey asymmetric symmetric \<Rightarrow> handle_peer_public_key env asymmetric symmetric
      | MsgLoginRequest lr \<Rightarrow> login_arm env lr
      | MsgKeyEvent ke \<Rightarrow> input_arm (run_input (handle_key_event (has_hid env) ke))
      | MsgMouseEvent me \<Rightarrow> input_arm (mouse_arm env me)
      | MsgMisc misc \<Rightarrow> handle_misc env misc
      | MsgTestDelay td \<Rightarrow> handle_test_delay env td
      | MsgSignedId si \<Rightarrow> handle_signed_id env si
      | _ \<Rightarrow> returnE ())"

text \<open>The start of \<open>handle_message_arc\<close>: the bytes to decode, and the sequence number.\<close>

definition decrypt_incoming :: "'w rd_env \<Rightarrow> bytes \<Rightarrow> connection \<Rightarrow> bytes \<times> connection" where
  "decrypt_incoming env data c =
     (case session_key c of
        None \<Rightarrow> (data, c)
      | Some key \<Rightarrow>
          let n = dec_seqnum c + 1 in
          (case na_open env data (get_nonce n) key of
             Some plain \<Rightarrow> (plain, c\<lparr>dec_seqnum := n\<rparr>)
           | None \<Rightarrow> (data, c\<lparr>dec_seqnum := n - 1\<rparr>)))"

definition handle_message :: "'w rd_env \<Rightarrow> bytes \<Rightarrow> ('w, unit) rd_op" where
  "handle_message env data cw =
     (case decrypt_incoming env data (fst cw) of (msg_data, c) \<Rightarrow>
      case pb_decode env msg_data of
        None \<Rightarrow> (Inl (lit ''decode error''), (c, snd cw))
      | Some m \<Rightarrow> dispatch env m (c, snd cw))"

section \<open>The loop\<close>

text \<open>What ends a wait of the loop.\<close>

datatype conn_event = EvFrame bytes | EvEof | EvReadError | EvVideo bytes | EvAudio bytes | EvTick | EvShutdown

text \<open>One turn; the result is whether the loop goes on. A failed delay test is only logged.\<close>

definition succeeded :: "('e + 'a) \<times> 's \<Rightarrow> bool \<times> 's" where
  "succeeded r = (case fst r of Inr _ \<Rightarrow> True | Inl _ \<Rightarrow> False, snd r)"

definition conn_turn :: "'w rd_env \<Rightarrow> conn_event \<Rightarrow> connection \<times> 'w \<Rightarrow> bool \<times> connection \<times> 'w" where
  "conn_turn env ev cw =
     (case ev of
        EvFrame data \<Rightarrow> succeeded (handle_message env data cw)
      | EvVideo data \<Rightarrow> succeeded (send_encrypted env data cw)
      | EvAudio data \<Rightarrow> succeeded (send_encrypted env data cw)
      | EvTick \<Rightarrow>
          if conn_state (fst cw) = ConnActive \<and> last_test_delay_sent (fst cw) = None
          then (True, snd (send_test_delay env cw)) else (True, cw)
      | EvEof \<Rightarrow> (False, cw)
      | EvReadError \<Rightarrow> (False, cw)
      | EvShutdown \<Rightarrow> (False, cw))"

definition conn_cleanup :: "connection \<Rightarrow> connection" where
  "conn_cleanup c = c\<lparr>video_task := False, audio_task := False, conn_state := ConnClosed\<rparr>"

text \<open>\<open>handle_tcp\<close>; between two turns another task may close the connection (\<open>None\<close>), see \<open>close_all\<close>.\<close>

definition mark_closed :: "connection \<Rightarrow> connection" where
  "mark_closed c = c\<lparr>conn_state := ConnClosed\<rparr>"

fun conn_loop :: "'w rd_env \<Rightarrow> conn_event option list \<Rightarrow> connection \<times> 'w \<Rightarrow> bool \<times> connection \<times> 'w" where
  "conn_loop env [] cw = (True, cw)"
| "conn_loop env (None # evs) (c, w) = conn_loop env evs (mark_closed c, w)"
| "conn_loop env (Some ev # evs) cw =
     (case conn_turn env ev cw of
        (True, cw) \<Rightarrow> conn_loop env evs cw
      | (False, (c, w)) \<Rightarrow> (False, (conn_cleanup c, w)))"

definition tcp_start :: "'w rd_env \<Rightarrow> ('w, unit) rd_op" where
  "tcp_start env =
     bindE (on_conn (\<lambda>c. c\<lparr>conn_state := ConnHandshaking\<rparr>)) (\<lambda>_.
     bindE (of_conn (create_signed_id_message env)) (\<lambda>m.
     bindE (encode_message env m) (send_framed env)))"

definition handle_tcp :: "'w rd_env \<Rightarrow> conn_event option list \<Rightarrow> connection \<times> 'w \<Rightarrow> (rstr + bool) \<times> connection \<times> 'w" where
  "handle_tcp env evs = bindE (tcp_start env) (\<lambda>_ cw. case conn_loop env evs cw of (running, cw) \<Rightarrow> (Inr running, cw))"

end
