(* ===== verification/Rustdesk_Session.thy ===== *)
theory Rustdesk_Session
  imports Rustdesk_Connection
begin

text \<open>
  What a course of a connection keeps. A relation between the states before and after is shown for the few operations that send, and the
  locales carry it through every handler and the loop: the sequence numbers of the encryption, what is written once there is a key, and what a
  client without the password can do.
\<close>

section \<open>Relations that every operation keeps\<close>

definition keeps :: "('s \<Rightarrow> 's \<Rightarrow> bool) \<Rightarrow> ('s, 'e, 'a) stm \<Rightarrow> bool" where
  "keeps R m \<longleftrightarrow> (\<forall>s. R s (snd (m s)))"

named_theorems keeps_intros

lemma keepsD: "keeps R m \<Longrightarrow> m s = (r, s') \<Longrightarrow> R s s'"
  unfolding keeps_def by (metis snd_conv)

locale step_relation =
  fixes R :: "connection \<Rightarrow> connection \<Rightarrow> bool"
  assumes R_refl: "R c c" and R_trans: "R c c' \<Longrightarrow> R c' c'' \<Longrightarrow> R c c''"
begin

abbreviation Rs :: "connection \<times> 'w \<Rightarrow> connection \<times> 'w \<Rightarrow> bool" where
  "Rs s s' \<equiv> R (fst s) (fst s')"

lemma keeps_bind [keeps_intros]:
  assumes "keeps Rs m" and "\<And>a. keeps Rs (f a)"
  shows "keeps Rs (bindE m f)"
  unfolding keeps_def
proof
  fix s
  obtain r s1 where m: "m s = (r, s1)" by (cases "m s")
  have first: "Rs s s1" by (rule keepsD [OF assms(1) m])
  show "Rs s (snd (bindE m f s))"
  proof (cases r)
    case (Inr a)
    obtain r2 s2 where f: "f a s1 = (r2, s2)" by (cases "f a s1")
    show ?thesis using R_trans [OF first keepsD [OF assms(2) f]] by (simp add: m f Inr)
  qed (simp add: m first)
qed

lemma keeps_return [keeps_intros]: "keeps Rs (returnE a)" by (simp add: keeps_def returnE_def R_refl)
lemma keeps_throw [keeps_intros]: "keeps Rs (throwE e)" by (simp add: keeps_def throwE_def R_refl)
lemma keeps_of_conn [keeps_intros]: "keeps Rs (of_conn f)" by (simp add: keeps_def of_conn_def getsE_def R_refl)
lemma keeps_ask [keeps_intros]: "keeps Rs (ask_env f)" by (simp add: keeps_def ask_env_def R_refl split: prod.split)
lemma keeps_on_conn: "(\<And>c. R c (f c)) \<Longrightarrow> keeps Rs (on_conn f)" by (auto simp: keeps_def on_conn_def modifyE_def)
lemma keeps_if [keeps_intros]: "(b \<Longrightarrow> keeps Rs m) \<Longrightarrow> (\<not> b \<Longrightarrow> keeps Rs m') \<Longrightarrow> keeps Rs (if b then m else m')" by simp
lemma keeps_option [keeps_intros]:
  "(x = None \<Longrightarrow> keeps Rs m) \<Longrightarrow> (\<And>a. x = Some a \<Longrightarrow> keeps Rs (f a)) \<Longrightarrow> keeps Rs (case x of None \<Rightarrow> m | Some a \<Rightarrow> f a)"
  by (cases x) auto
lemma keeps_encode [keeps_intros]: "keeps Rs (encode_message env m)"
  unfolding encode_message_def by (intro keeps_intros)
lemma keeps_constraints [keeps_intros]: "keeps Rs (current_codec_constraints env)"
  unfolding current_codec_constraints_def by (intro keeps_intros)
lemma keeps_negotiate [keeps_intros]: "keeps Rs (negotiate_video_codec env)"
  unfolding negotiate_video_codec_def by (intro keeps_intros)
lemma keeps_response [keeps_intros]: "keeps Rs (create_login_response env)"
  unfolding create_login_response_def get_hostname_def by (intro keeps_intros)

end

text \<open>The part of the state that the relations below look at.\<close>

definition core :: "connection \<Rightarrow> connection_state \<times> rstr \<times> rstr \<times> bytes option \<times> u64 \<times> bool \<times> rd_effect list" where
  "core c = (conn_state c, conn_password c, device_id c, session_key c, enc_seqnum c, video_frame_tx c, effects c)"

definition own_effect :: "rd_effect \<Rightarrow> bool" where
  "own_effect e = (case e of BitrateSet _ \<Rightarrow> True | KeyframeRequested \<Rightarrow> True | VideoStopped \<Rightarrow> True | _ \<Rightarrow> False)"

locale conn_relation = step_relation R for R +
  fixes env :: "'w rd_env"
  assumes R_core: "core c' = core c \<Longrightarrow> dec_seqnum c' = dec_seqnum c \<Longrightarrow> R c c'"
    and R_send: "R (fst cw) (fst (snd (send_encrypted env d cw)))"
    and R_reply: "R (fst cw) (fst (snd (bindE (encode_message env (MsgSignedId si)) (send_framed env) cw)))"
    and R_own: "own_effect e \<Longrightarrow> R c (c\<lparr>effects := effects c @ [e]\<rparr>)"
    and R_video: "video_frame_tx c \<Longrightarrow> R c (c\<lparr>effects := effects c @ [VideoStarted codec]\<rparr>)"
begin

lemma keeps_send [keeps_intros]: "keeps Rs (send_encrypted env d)"
  unfolding keeps_def using R_send by blast

lemma keeps_reply [keeps_intros]: "keeps Rs (bindE (encode_message env (MsgSignedId si)) (send_framed env))"
  unfolding keeps_def using R_reply by blast

lemma keeps_message [keeps_intros]: "keeps Rs (send_message env m)"
  unfolding send_message_def by (intro keeps_intros)

lemma keeps_core: "(\<And>c. core (f c) = core c) \<Longrightarrow> (\<And>c. dec_seqnum (f c) = dec_seqnum c) \<Longrightarrow> keeps Rs (on_conn f)"
  by (intro keeps_on_conn R_core)

lemma keeps_own [keeps_intros]: "own_effect e \<Longrightarrow> keeps Rs (emit e)"
  unfolding emit_def by (intro keeps_on_conn R_own)

lemma keeps_test_delay: "keeps Rs (handle_test_delay env td)" "keeps Rs (send_test_delay env)"
  unfolding handle_test_delay_def send_test_delay_def
  by (intro keeps_intros keeps_core; simp add: core_def)+

lemma keeps_public_key:
  assumes "\<And>c k. R c (c\<lparr>session_key := Some k, encryption_enabled := True\<rparr>)"
  shows "keeps Rs (handle_peer_public_key env asymmetric symmetric)"
  unfolding handle_peer_public_key_def
  by (intro keeps_intros keeps_on_conn)
    (auto simp: core_def intro!: assms R_core split: option.split)

lemma keeps_signed_id: "keeps Rs (handle_signed_id env signed_data)"
  unfolding handle_signed_id_def create_signed_id_message_def
proof (rule keeps_bind)
  show "keeps Rs (bindE (of_conn (\<lambda>c. MsgSignedId (na_sign env (idpk_encode env (device_id c) (temp_public c)))))
      (\<lambda>m. bindE (encode_message env m) (send_framed env)))"
    using keeps_reply by (auto simp: keeps_def of_conn_def getsE_def bindE_def)
qed (intro keeps_core, auto simp: core_def split: option.split)

lemma keeps_restart: "keeps Rs (bindE (of_conn video_frame_tx) (\<lambda>tx. if tx then start_video_streaming env else returnE ()))"
  unfolding keeps_def
proof
  fix s :: "connection \<times> 'w"
  obtain c w where s: "s = (c, w)" by (cases s)
  show "Rs s (snd (bindE (of_conn video_frame_tx) (\<lambda>tx. if tx then start_video_streaming env else returnE ()) s))"
  proof (cases "video_frame_tx c \<and> has_video env")
    case True
    define codec where "codec = (case negotiated_codec c of Some e \<Rightarrow> e | None \<Rightarrow> EncH264)"
    have "R c (c\<lparr>effects := effects c @ [VideoStarted codec]\<rparr>)" using True by (intro R_video) simp
    moreover have "R (c\<lparr>effects := effects c @ [VideoStarted codec]\<rparr>) (c\<lparr>effects := effects c @ [VideoStarted codec], video_task := True\<rparr>)"
      by (rule R_core) (simp_all add: core_def)
    ultimately show ?thesis
      using True s R_trans
      by (simp add: start_video_streaming_def of_conn_def getsE_def bindE_def emit_def on_conn_def modifyE_def codec_def)
  next
    case False
    then show ?thesis
      by (auto simp: s start_video_streaming_def of_conn_def getsE_def bindE_def returnE_def R_refl)
  qed
qed

lemma keeps_switch: "keeps Rs (switch_video_codec env codec)"
  unfolding switch_video_codec_def
  by (intro keeps_bind keeps_restart keeps_if keeps_of_conn keeps_own keeps_return keeps_core) (simp_all add: core_def own_effect_def)

lemma keeps_misc: "keeps Rs (handle_misc env misc)"
proof -
  have "keeps Rs (handle_option_message env opt)" for opt
    unfolding handle_option_message_def
    by (intro keeps_intros keeps_switch) (simp_all add: own_effect_def)
  moreover have "keeps Rs (request_keyframe env)"
    unfolding request_keyframe_def by (intro keeps_intros) (simp add: own_effect_def)
  ultimately show ?thesis
    unfolding handle_misc_def by (auto simp: keeps_return split: option.split misc_union.split)
qed

lemma keeps_login_refused:
  assumes "conn_password (fst cw) \<noteq> []" and "lr_password lr = [] \<or> \<not> verify_password env (fst cw) (lr_password lr)"
  shows "Rs cw (snd (handle_login_request env lr cw)) \<and> fst (handle_login_request env lr cw) \<noteq> Inr True"
proof -
  define why where "why = (if lr_password lr = [] then lit ''Empty Password'' else lit ''Wrong Password'')"
  have eq: "handle_login_request env lr cw = bindE (send_message env (create_login_error_response why)) (\<lambda>_. returnE False) cw"
    using assms by (cases cw) (auto simp: handle_login_request_def why_def of_conn_def getsE_def bindE_def)
  have "keeps Rs (bindE (send_message env (create_login_error_response why)) (\<lambda>_. returnE False))"
    by (intro keeps_intros)
  then have "Rs cw (snd (handle_login_request env lr cw))" unfolding eq keeps_def by blast
  moreover have "fst (handle_login_request env lr cw) \<noteq> Inr True"
    by (auto simp: eq bindE_def returnE_def split: prod.split sum.split)
  ultimately show ?thesis ..
qed

end

definition is_public_key :: "hbb_message \<Rightarrow> bool" where
  "is_public_key m = (case m of MsgPublicKey _ _ \<Rightarrow> True | _ \<Rightarrow> False)"

text \<open>Relations that also allow a login, and any event of the loop.\<close>

locale login_relation = conn_relation +
  assumes R_active: "R c (c\<lparr>conn_state := st\<rparr>)"
    and R_tx: "R c (c\<lparr>video_frame_tx := True\<rparr>)"
    and R_effect: "(\<And>k n d. e \<noteq> Sealed k n d) \<Longrightarrow> (\<And>p. e \<noteq> FrameSent p) \<Longrightarrow> R c (c\<lparr>effects := effects c @ [e]\<rparr>)"
begin

lemma R_effects:
  "list_all (\<lambda>e. case e of Sealed _ _ _ \<Rightarrow> False | FrameSent _ \<Rightarrow> False | _ \<Rightarrow> True) es \<Longrightarrow> R c (c\<lparr>effects := effects c @ es\<rparr>)"
proof (induction es arbitrary: c)
  case Nil
  show ?case by (rule R_core) (simp_all add: core_def)
next
  case (Cons e es)
  have "R c (c\<lparr>effects := effects c @ [e]\<rparr>)" using Cons.prems by (intro R_effect) auto
  moreover have "R (c\<lparr>effects := effects c @ [e]\<rparr>) (c\<lparr>effects := effects c @ e # es\<rparr>)"
    using Cons.IH [of "c\<lparr>effects := effects c @ [e]\<rparr>"] Cons.prems by simp
  ultimately show ?case by (rule R_trans)
qed

lemma keeps_emit: "(\<And>k n d. e \<noteq> Sealed k n d) \<Longrightarrow> (\<And>p. e \<noteq> FrameSent p) \<Longrightarrow> keeps Rs (emit e)"
  unfolding emit_def by (intro keeps_on_conn R_effect)

lemma keeps_start: "keeps Rs (start_video_streaming env)" "keeps Rs (start_audio_streaming env)"
  unfolding start_video_streaming_def start_audio_streaming_def
  by (intro keeps_bind keeps_if keeps_return keeps_of_conn keeps_emit keeps_core; simp add: core_def)+

lemma keeps_login: "keeps Rs (login_arm env lr)"
proof -
  have "keeps Rs (handle_login_request env lr)"
    unfolding handle_login_request_def
    by (intro keeps_intros keeps_on_conn R_active keeps_core) (simp_all add: core_def)
  then show ?thesis
    unfolding login_arm_def
    by (intro keeps_bind keeps_if keeps_return keeps_of_conn keeps_start keeps_on_conn)
      (auto simp: core_def intro: R_tx R_core)
qed

lemma keeps_input: "keeps Rs (input_arm (run_input h))" "keeps Rs (input_arm (mouse_arm env me))"
proof -
  have run: "keeps Rs (run_input h)" for h
    unfolding run_input_def
  proof (rule keeps_on_conn)
    fix c :: connection
    obtain es i where h: "h (conn_input c) = (es, i)" by fastforce
    have "R c (c\<lparr>effects := effects c @ map ToHid es\<rparr>)" by (rule R_effects) (simp add: list_all_iff)
    moreover have "R (c\<lparr>effects := effects c @ map ToHid es\<rparr>) (c\<lparr>conn_input := i, effects := effects c @ map ToHid es\<rparr>)"
      by (rule R_core) (simp_all add: core_def)
    ultimately show "R c (case h (conn_input c) of (es, i) \<Rightarrow> c\<lparr>conn_input := i, effects := effects c @ map ToHid es\<rparr>)"
      by (simp add: h) (rule R_trans)
  qed
  then show "keeps Rs (input_arm (run_input h))" "keeps Rs (input_arm (mouse_arm env me))"
    unfolding input_arm_def mouse_arm_def by (auto intro!: keeps_intros)
qed

lemma keeps_dispatch_other: "\<not> is_public_key m \<Longrightarrow> keeps Rs (dispatch env m)"
  unfolding dispatch_def
  by (cases m) (simp_all add: is_public_key_def keeps_return keeps_login keeps_input keeps_misc keeps_test_delay keeps_signed_id)

end

text \<open>Relations that also allow a new key and a received message.\<close>

locale session_relation = login_relation +
  assumes R_dec: "core c' = core c \<Longrightarrow> R c c'"
    and R_key: "R c (c\<lparr>session_key := Some k, encryption_enabled := True\<rparr>)"
begin

lemma keeps_dispatch: "keeps Rs (dispatch env m)"
  using keeps_dispatch_other [of m] keeps_public_key [OF R_key]
  by (cases m) (simp_all add: dispatch_def is_public_key_def)

lemma handle_message_step: "R (fst cw) (fst (snd (handle_message env data cw)))"
proof -
  obtain d c where dec: "decrypt_incoming env data (fst cw) = (d, c)" by fastforce
  have "R (fst cw) c"
    using dec by (intro R_dec) (auto simp: decrypt_incoming_def core_def Let_def split: option.splits)
  moreover have "R c (fst (snd (dispatch env m (c, snd cw))))" for m
    using keeps_dispatch [of m] by (simp add: keeps_def)
  ultimately show ?thesis
    by (auto simp: handle_message_def dec split: option.split intro: R_trans)
qed

lemma conn_turn_step: "R (fst cw) (fst (snd (conn_turn env ev cw)))"
proof -
  have "R (fst cw) (fst (snd (send_test_delay env cw)))" using keeps_test_delay(2) unfolding keeps_def by blast
  then show ?thesis
    using handle_message_step [of cw] R_send [of cw] by (cases ev) (simp_all add: conn_turn_def succeeded_def R_refl)
qed

lemma conn_loop_step: "R (fst cw) (fst (snd (conn_loop env evs cw)))"
proof (induction evs arbitrary: cw)
  case (Cons o_ev evs)
  obtain c w where cw: "cw = (c, w)" by (cases cw)
  show ?case
  proof (cases o_ev)
    case None
    have "R c (fst (snd (conn_loop env evs (mark_closed c, w))))"
      using Cons.IH [of "(mark_closed c, w)"] R_active [of c ConnClosed] by (auto simp: mark_closed_def intro: R_trans)
    then show ?thesis by (simp add: None cw)
  next
    case (Some ev)
    obtain running c1 w1 where t: "conn_turn env ev (c, w) = (running, (c1, w1))" by (metis prod.collapse)
    have first: "R c c1" using conn_turn_step [of "(c, w)" ev] by (simp add: t)
    have "R (c1\<lparr>conn_state := ConnClosed\<rparr>) (conn_cleanup c1)" by (rule R_core) (simp_all add: core_def conn_cleanup_def)
    then have cleanup: "R c1 (conn_cleanup c1)" by (rule R_trans [OF R_active])
    show ?thesis
    proof (cases running)
      case True
      have "R c1 (fst (snd (conn_loop env evs (c1, w1))))" using Cons.IH [of "(c1, w1)"] by simp
      then show ?thesis using R_trans [OF first] by (simp add: Some cw t True)
    next
      case False
      then show ?thesis using R_trans [OF first cleanup] by (simp add: Some cw t)
    qed
  qed
qed (simp add: R_refl)

lemma handle_tcp_step: "R (fst cw) (fst (snd (handle_tcp env evs cw)))"
proof -
  have "keeps Rs (\<lambda>cw. case conn_loop env evs cw of (running, cw) \<Rightarrow> (Inr running, cw))"
    using conn_loop_step [of _ evs] by (auto simp: keeps_def split: prod.split) (metis fst_conv snd_conv)
  moreover have "keeps Rs (tcp_start env)"
  proof -
    have "keeps Rs (bindE (of_conn (create_signed_id_message env)) (\<lambda>m. bindE (encode_message env m) (send_framed env)))"
      using keeps_reply by (auto simp: keeps_def of_conn_def getsE_def bindE_def create_signed_id_message_def)
    then show ?thesis unfolding tcp_start_def by (rule keeps_bind [OF keeps_on_conn [OF R_active]])
  qed
  ultimately have "keeps Rs (handle_tcp env evs)" unfolding handle_tcp_def by (intro keeps_bind)
  then show ?thesis unfolding keeps_def by blast
qed

end

section \<open>Nonces\<close>

definition sealed_nonces :: "rd_effect list \<Rightarrow> bytes list" where
  "sealed_nonces es = List.map_filter (\<lambda>e. case e of Sealed _ n _ \<Rightarrow> Some n | _ \<Rightarrow> None) es"

definition counts :: "connection \<Rightarrow> connection \<Rightarrow> bool" where
  "counts c c' \<longleftrightarrow> (\<exists>es k. effects c' = effects c @ es \<and> enc_seqnum c' = enc_seqnum c + of_nat k \<and>
     sealed_nonces es = map (\<lambda>i. get_nonce (enc_seqnum c + of_nat (Suc i))) [0..<k])"

lemma sealed_nonces_simps [simp]:
  "sealed_nonces [] = []" "sealed_nonces (es @ es') = sealed_nonces es @ sealed_nonces es'"
  "sealed_nonces [Sealed k n d] = [n]" "sealed_nonces [FrameSent p] = []"
  by (simp_all add: sealed_nonces_def List.map_filter_def)

lemma counts_refl: "counts c c"
  unfolding counts_def by (intro exI [of _ "[]"] exI [of _ 0]) simp

lemma counts_trans: "counts c c' \<Longrightarrow> counts c' c'' \<Longrightarrow> counts c c''"
proof -
  assume "counts c c'" and "counts c' c''"
  then obtain es k es' k' where e: "effects c' = effects c @ es" "effects c'' = effects c' @ es'"
    and n: "enc_seqnum c' = enc_seqnum c + of_nat k" "enc_seqnum c'' = enc_seqnum c' + of_nat k'"
    and s: "sealed_nonces es = map (\<lambda>i. get_nonce (enc_seqnum c + of_nat (Suc i))) [0..<k]"
      "sealed_nonces es' = map (\<lambda>i. get_nonce (enc_seqnum c' + of_nat (Suc i))) [0..<k']"
    unfolding counts_def by blast
  have "map (\<lambda>i. k + i) [0..<k'] = [k..<k + k']" using map_add_upt [of k k'] by (simp add: add.commute)
  then have "[0..<k + k'] = [0..<k] @ map (\<lambda>i. k + i) [0..<k']" using upt_add_eq_append [of 0 k k'] by simp
  then have "sealed_nonces (es @ es') = map (\<lambda>i. get_nonce (enc_seqnum c + of_nat (Suc i))) [0..<k + k']"
    by (simp add: s n(1) comp_def add.assoc add.left_commute)
  then show ?thesis
    unfolding counts_def using e n by (intro exI [of _ "es @ es'"] exI [of _ "k + k'"]) (simp add: add.assoc)
qed

lemma counts_none: "effects c' = effects c @ es \<Longrightarrow> sealed_nonces es = [] \<Longrightarrow> enc_seqnum c' = enc_seqnum c \<Longrightarrow> counts c c'"
  unfolding counts_def by (intro exI [of _ es] exI [of _ 0]) simp

lemma counts_framed: "counts (fst cw) (fst (snd (send_framed env d cw)))"
proof -
  have "counts c (c\<lparr>effects := effects c @ [FrameSent d]\<rparr>)" for c by (rule counts_none [of _ _ "[FrameSent d]"]) simp_all
  then show ?thesis
    by (cases cw)
      (auto simp: send_framed_def throwE_def ask_env_def bindE_def emit_def on_conn_def modifyE_def counts_refl split: sum.split prod.split)
qed

lemma counts_encrypted: "counts (fst cw) (fst (snd (send_encrypted env d cw)))"
proof (cases "session_key (fst cw)")
  case None
  then show ?thesis using counts_framed [of cw env d] by (cases cw) (simp add: send_encrypted_def of_conn_def getsE_def bindE_def)
next
  case (Some k)
  obtain c w where cw: "cw = (c, w)" by (cases cw)
  define n where "n = enc_seqnum c + 1"
  define c1 where "c1 = c\<lparr>enc_seqnum := n, effects := effects c @ [Sealed k (get_nonce n) d]\<rparr>"
  have "send_encrypted env d cw = send_framed env (na_seal env d (get_nonce n) k) (c1, w)"
    using Some by (simp add: cw send_encrypted_def of_conn_def getsE_def bindE_def on_conn_def modifyE_def emit_def n_def c1_def Let_def)
  moreover have "counts c c1"
    unfolding counts_def by (intro exI [of _ "[Sealed k (get_nonce n) d]"] exI [of _ 1]) (simp add: c1_def n_def)
  ultimately show ?thesis using counts_framed [of "(c1, w)" env "na_seal env d (get_nonce n) k"] by (simp add: cw counts_trans)
qed

lemma counts_reply: "counts (fst cw) (fst (snd (bindE (encode_message env m) (send_framed env) cw)))"
  using counts_framed [of cw env]
  by (auto simp: encode_message_def bindE_def returnE_def throwE_def counts_refl split: option.split)

lemma sealed_nonces_other:
  assumes "\<And>k n d. e \<noteq> Sealed k n d"
  shows "sealed_nonces [e] = []"
  using assms by (cases e) (auto simp: sealed_nonces_def List.map_filter_def)

interpretation nonces: session_relation counts env for env :: "'w rd_env"
proof unfold_locales
  fix c c' c'' k e codec st
  show "counts c c" by (rule counts_refl)
  show "counts c c' \<Longrightarrow> counts c' c'' \<Longrightarrow> counts c c''" by (rule counts_trans)
  show "core c' = core c \<Longrightarrow> counts c c'" and "core c' = core c \<Longrightarrow> counts c c'"
    by (rule counts_none [of _ _ "[]"]; simp add: core_def)+
  show "counts c (c\<lparr>session_key := Some k, encryption_enabled := True\<rparr>)" by (rule counts_none [of _ _ "[]"]) simp_all
  show "own_effect e \<Longrightarrow> counts c (c\<lparr>effects := effects c @ [e]\<rparr>)"
    by (rule counts_none [of _ _ "[e]"]) (auto simp: own_effect_def intro!: sealed_nonces_other)
  show "counts c (c\<lparr>effects := effects c @ [VideoStarted codec]\<rparr>)" by (rule counts_none [of _ _ "[VideoStarted codec]"]) (auto simp: sealed_nonces_other)
  show "counts c (c\<lparr>conn_state := st\<rparr>)" by (rule counts_none [of _ _ "[]"]) simp_all
  show "counts c (c\<lparr>video_frame_tx := True\<rparr>)" by (rule counts_none [of _ _ "[]"]) simp_all
  show "(\<And>k n d. e \<noteq> Sealed k n d) \<Longrightarrow> counts c (c\<lparr>effects := effects c @ [e]\<rparr>)"
    by (rule counts_none [of _ _ "[e]"]) (auto simp: sealed_nonces_other)
qed (rule counts_encrypted counts_reply)+

lemma get_nonce_inject: "get_nonce m = get_nonce n \<longleftrightarrow> m = n"
proof
  assume "get_nonce m = get_nonce n"
  then have "take 8 (get_nonce m) = take 8 (get_nonce n)" by simp
  then have "to_le 8 m = to_le 8 n" by (simp add: get_nonce_def copy_at_def)
  then have "from_le (to_le 8 m) = (from_le (to_le 8 n) :: u64)" by simp
  then show "m = n" by (simp add: from_le_to_le)
qed simp

lemma distinct_nonces: "n < 2 ^ 64 \<Longrightarrow> distinct (map (\<lambda>i. get_nonce (of_nat i)) [1..<Suc n])"
  by (auto simp: distinct_map inj_on_def get_nonce_inject unat_of_nat dest!: arg_cong [of _ _ "unat :: u64 \<Rightarrow> nat"])

text \<open>C9: No nonce is used twice on a connection: whatever a client sends, in whatever order its messages, the video, the audio and the timer come, and
  whatever fails, the nonces that the encryption is called with are those of the numbers 1, 2, 3 and so on, without a gap, and the first
  18446744073709551615 of them (until the counter wraps) are pairwise different, also when the client changes the key.\<close>

theorem rd_nonces_fresh:
  "case handle_tcp env evs (connection_new dev password keypair now, w) of (r, (c, w')) \<Rightarrow>
     sealed_nonces (effects c) = map (\<lambda>i. get_nonce (of_nat i)) [1..<Suc (length (sealed_nonces (effects c)))] \<and>
     distinct (take (2 ^ 64 - 1) (sealed_nonces (effects c)))"
proof -
  obtain r c w' where t: "handle_tcp env evs (connection_new dev password keypair now, w) = (r, (c, w'))" by (metis prod.collapse)
  have "counts (connection_new dev password keypair now) c"
    using nonces.handle_tcp_step [of "(connection_new dev password keypair now, w)" env evs] by (simp add: t)
  then obtain k where k: "sealed_nonces (effects c) = map (\<lambda>i. get_nonce (of_nat (Suc i))) [0..<k]"
    by (auto simp: counts_def connection_new_def)
  have seqs: "sealed_nonces (effects c) = map (\<lambda>i. get_nonce (of_nat i)) [1..<Suc k]"
    unfolding k by (simp only: map_Suc_upt [symmetric] map_map comp_def One_nat_def)
  define m where "m = min k (2 ^ 64 - 1)"
  have "take (2 ^ 64 - 1) [1..<Suc k] = [1..<Suc m]" by (cases "k \<le> 2 ^ 64 - 1") (simp_all add: m_def take_upt del: upt_Suc)
  then have "take (2 ^ 64 - 1) (sealed_nonces (effects c)) = map (\<lambda>i. get_nonce (of_nat i)) [1..<Suc m]"
    by (simp only: seqs take_map)
  then have "distinct (take (2 ^ 64 - 1) (sealed_nonces (effects c)))"
    using distinct_nonces [of m] by (simp add: m_def del: upt_Suc)
  then show ?thesis by (simp add: t seqs del: upt_Suc)
qed

section \<open>Encryption once there is a key\<close>

definition sealed_log :: "'w rd_env \<Rightarrow> rd_effect list \<Rightarrow> bool" where
  "sealed_log env es \<longleftrightarrow> (\<forall>p. FrameSent p \<in> set es \<longrightarrow>
     (\<exists>k n d. Sealed k n d \<in> set es \<and> p = na_seal env d n k) \<or> (\<exists>si. pb_encode env (MsgSignedId si) = Some p))"






lemma sealed_log_Nil [simp]: "sealed_log env []" by (simp add: sealed_log_def)

lemma send_framed_result:
  obtains w' where "send_framed env d (c, w) = (Inr (), (c\<lparr>effects := effects c @ [FrameSent d]\<rparr>, w'))"
  | e w' where "send_framed env d (c, w) = (Inl e, (c, w'))"
proof (cases "encode_frame d")
  case (Inr framed)
  obtain ok w' where w': "write_socket env framed w = (ok, w')" by fastforce
  show thesis
  proof (cases ok)
    case True
    then have "send_framed env d (c, w) = (Inr (), (c\<lparr>effects := effects c @ [FrameSent d]\<rparr>, w'))"
      using w' Inr by (simp add: send_framed_def bindE_def ask_env_def emit_def on_conn_def modifyE_def)
    then show thesis by (rule that(1))
  next
    case False
    then have "send_framed env d (c, w) = (Inl (lit ''write failed''), (c, w'))"
      using w' Inr by (simp add: send_framed_def bindE_def ask_env_def throwE_def)
    then show thesis by (rule that(2))
  qed
next
  case (Inl e)
  then have "send_framed env d (c, w) = (Inl (lit ''Message too large''), (c, w))"
    by (simp add: send_framed_def throwE_def)
  then show thesis by (rule that(2))
qed




















section \<open>Without the password\<close>

definition quiet :: "rd_effect \<Rightarrow> bool" where
  "quiet e = (case e of ToHid _ \<Rightarrow> False | VideoStarted _ \<Rightarrow> False | AudioStarted \<Rightarrow> False | _ \<Rightarrow> True)"

definition unauthenticated :: "connection \<Rightarrow> bool" where
  "unauthenticated c \<longleftrightarrow> conn_state c \<noteq> ConnActive \<and> \<not> video_frame_tx c \<and> conn_password c \<noteq> []"

definition locked :: "connection \<Rightarrow> connection \<Rightarrow> bool" where
  "locked c c' \<longleftrightarrow> (unauthenticated c \<longrightarrow> unauthenticated c' \<and> conn_password c' = conn_password c \<and> device_id c' = device_id c \<and>
     (\<exists>es. effects c' = effects c @ es \<and> list_all quiet es))"

definition valid_login :: "'w rd_env \<Rightarrow> rstr \<Rightarrow> rstr \<Rightarrow> hbb_message \<Rightarrow> bool" where
  "valid_login env dev password m = (case m of
     MsgLoginRequest lr \<Rightarrow> lr_password lr = hash_password_double env password dev [] \<or> lr_password lr = hash_password env password dev
   | _ \<Rightarrow> False)"

lemma locked_refl: "locked c c" by (auto simp: locked_def)

lemma locked_trans: "locked c c' \<Longrightarrow> locked c' c'' \<Longrightarrow> locked c c''"
  unfolding locked_def by (metis append.assoc list_all_append)

lemma locked_quiet:
  "effects c' = effects c @ es \<Longrightarrow> list_all quiet es \<Longrightarrow> conn_state c' = conn_state c \<or> conn_state c' \<noteq> ConnActive \<Longrightarrow>
   video_frame_tx c' = video_frame_tx c \<Longrightarrow> conn_password c' = conn_password c \<Longrightarrow> device_id c' = device_id c \<Longrightarrow> locked c c'"
  by (auto simp: locked_def unauthenticated_def)

lemma locked_framed: "locked (fst cw) (fst (snd (send_framed env d cw)))"
proof -
  obtain c w where cw: "cw = (c, w)" by (cases cw)
  obtain w' where "send_framed env d (c, w) = (Inr (), (c\<lparr>effects := effects c @ [FrameSent d]\<rparr>, w'))
      \<or> (\<exists>e. send_framed env d (c, w) = (Inl e, (c, w')))"
    by (rule send_framed_result [of env d c w]) blast+
  then show ?thesis
    unfolding cw
    by (auto intro: locked_quiet [of _ _ "[FrameSent d]"] simp: quiet_def locked_refl)
qed

lemma locked_encrypted: "locked (fst cw) (fst (snd (send_encrypted env d cw)))"
proof (cases "session_key (fst cw)")
  case None
  then show ?thesis using locked_framed [of cw env d] by (cases cw) (simp add: send_encrypted_def of_conn_def getsE_def bindE_def)
next
  case (Some k)
  obtain c w where cw: "cw = (c, w)" by (cases cw)
  define n where "n = enc_seqnum c + 1"
  define c1 where "c1 = c\<lparr>enc_seqnum := n, effects := effects c @ [Sealed k (get_nonce n) d]\<rparr>"
  have "send_encrypted env d cw = send_framed env (na_seal env d (get_nonce n) k) (c1, w)"
    using Some by (simp add: cw send_encrypted_def of_conn_def getsE_def bindE_def on_conn_def modifyE_def emit_def n_def c1_def Let_def)
  moreover have "locked c c1" by (rule locked_quiet [of _ _ "[Sealed k (get_nonce n) d]"]) (simp_all add: c1_def quiet_def)
  ultimately show ?thesis
    using locked_framed [of "(c1, w)" env "na_seal env d (get_nonce n) k"] by (simp add: cw) (rule locked_trans)
qed

interpretation lock: conn_relation locked env for env :: "'w rd_env"
proof unfold_locales
  fix c c' c'' k e codec and cw :: "connection \<times> 'w" and si
  show "locked c c" by (rule locked_refl)
  show "locked c c' \<Longrightarrow> locked c' c'' \<Longrightarrow> locked c c''" by (rule locked_trans)
  show "core c' = core c \<Longrightarrow> locked c c'" by (rule locked_quiet [of _ _ "[]"]) (simp_all add: core_def)
  show "own_effect e \<Longrightarrow> locked c (c\<lparr>effects := effects c @ [e]\<rparr>)"
    by (rule locked_quiet [of _ _ "[e]"]) (auto simp: own_effect_def quiet_def split: rd_effect.splits)
  show "video_frame_tx c \<Longrightarrow> locked c (c\<lparr>effects := effects c @ [VideoStarted codec]\<rparr>)"
    by (simp add: locked_def unauthenticated_def)
  show "locked (fst cw) (fst (snd (bindE (encode_message env (MsgSignedId si)) (send_framed env) cw)))"
    using locked_framed [of cw env]
    by (auto simp: encode_message_def bindE_def returnE_def throwE_def locked_refl split: option.split)
qed (rule locked_encrypted)

lemma locked_key: "locked c (c\<lparr>session_key := Some k, encryption_enabled := True\<rparr>)"
  by (rule locked_quiet [of _ _ "[]"]) simp_all

lemma locked_login:
  assumes "unauthenticated c" and "\<not> valid_login env (device_id c) (conn_password c) (MsgLoginRequest lr)"
  shows "locked c (fst (snd (login_arm env lr (c, w))))"
proof -
  define c1 where "c1 = c\<lparr>peer_id := lr_my_id lr, peer_name := lr_my_name lr\<rparr>"
  have c1: "locked c c1" by (rule locked_quiet [of _ _ "[]"]) (simp_all add: c1_def)
  have refused: "locked c1 (fst (snd (handle_login_request env lr (c1, w)))) \<and> fst (handle_login_request env lr (c1, w)) \<noteq> Inr True"
    using lock.keeps_login_refused [of "(c1, w)" lr env] assms
    by (auto simp: c1_def unauthenticated_def valid_login_def verify_password_def)
  obtain r cw where h: "handle_login_request env lr (c1, w) = (r, cw)" by (cases "handle_login_request env lr (c1, w)")
  have "snd (login_arm env lr (c, w)) = cw"
    using h refused unfolding login_arm_def
    by (auto simp: bindE_def on_conn_def modifyE_def c1_def returnE_def split: sum.split)
  then show ?thesis using locked_trans [OF c1] refused h by simp
qed

lemma locked_dispatch:
  assumes "unauthenticated c" and "\<not> valid_login env (device_id c) (conn_password c) m"
  shows "locked c (fst (snd (dispatch env m (c, w :: 'w))))"
proof -
  have idle: "input_arm op (c, w) = (Inr (), (c, w))" for op
    using assms(1) by (simp add: input_arm_def unauthenticated_def of_conn_def getsE_def bindE_def returnE_def)
  have keep: "locked c (fst (snd (m (c, w))))" if "keeps (\<lambda>s s'. locked (fst s) (fst s')) m" for m :: "('w, unit) rd_op"
    using that unfolding keeps_def by (metis fst_conv)
  show ?thesis
    using assms lock.keeps_public_key [OF locked_key] lock.keeps_misc lock.keeps_test_delay(1) lock.keeps_signed_id
    by (cases m) (auto simp: dispatch_def idle locked_login returnE_def locked_refl intro!: keep)
qed

text \<open>The messages that a connection decodes in the course of its loop.\<close>

definition decoded :: "'w rd_env \<Rightarrow> conn_event \<Rightarrow> connection \<Rightarrow> hbb_message list" where
  "decoded env ev c =
     (case ev of EvFrame data \<Rightarrow> (case pb_decode env (fst (decrypt_incoming env data c)) of Some m \<Rightarrow> [m] | None \<Rightarrow> []) | _ \<Rightarrow> [])"

fun received :: "'w rd_env \<Rightarrow> conn_event option list \<Rightarrow> connection \<times> 'w \<Rightarrow> hbb_message list" where
  "received env [] cw = []"
| "received env (None # evs) (c, w) = received env evs (mark_closed c, w)"
| "received env (Some ev # evs) cw =
     decoded env ev (fst cw) @
     (case conn_turn env ev cw of (True, cw) \<Rightarrow> received env evs cw | (False, _) \<Rightarrow> [])"


lemma locked_turn:
  assumes "unauthenticated c"
    and "list_all (\<lambda>m. \<not> valid_login env (device_id c) (conn_password c) m) (decoded env ev c)"
  shows "locked c (fst (snd (conn_turn env ev (c, w))))"
proof (cases ev)
  case (EvFrame data)
  obtain d c1 where dec: "decrypt_incoming env data c = (d, c1)" by fastforce
  have same: "core c1 = core c"
    using dec by (auto simp: decrypt_incoming_def core_def Let_def split: option.splits)
  then have c1: "locked c c1" by (intro locked_quiet [of _ _ "[]"]) (simp_all add: core_def)
  show ?thesis
  proof (cases "pb_decode env d")
    case None
    then show ?thesis using c1 by (simp add: EvFrame conn_turn_def succeeded_def handle_message_def dec)
  next
    case (Some m)
    have "unauthenticated c1" "\<not> valid_login env (device_id c1) (conn_password c1) m"
      using assms same Some dec by (simp_all add: EvFrame decoded_def core_def unauthenticated_def)
    then have "locked c1 (fst (snd (dispatch env m (c1, w))))" by (rule locked_dispatch)
    then show ?thesis using c1 Some
      by (simp add: EvFrame conn_turn_def succeeded_def handle_message_def dec) (rule locked_trans)
  qed
next
  case EvTick
  then show ?thesis using assms(1) by (simp add: conn_turn_def unauthenticated_def locked_refl)
qed (use locked_encrypted [of "(c, w)" env] in \<open>simp_all add: conn_turn_def succeeded_def locked_refl\<close>)

lemma locked_loop:
  assumes "unauthenticated c" and "list_all (\<lambda>m. \<not> valid_login env (device_id c) (conn_password c) m) (received env evs (c, w))"
  shows "locked c (fst (snd (conn_loop env evs (c, w))))"
  using assms
proof (induction evs arbitrary: c w)
  case (Cons o_ev evs)
  show ?case
  proof (cases o_ev)
    case None
    have m: "locked c (mark_closed c)" by (rule locked_quiet [of _ _ "[]"]) (simp_all add: mark_closed_def)
    have "unauthenticated (mark_closed c)" "conn_password (mark_closed c) = conn_password c" "device_id (mark_closed c) = device_id c"
      using Cons.prems(1) by (simp_all add: unauthenticated_def mark_closed_def)
    then have "locked (mark_closed c) (fst (snd (conn_loop env evs (mark_closed c, w))))"
      using Cons.IH [of "mark_closed c" w] Cons.prems(2) by (simp add: None)
    then show ?thesis using m None by (simp add: locked_trans)
  next
    case (Some ev)
    obtain running c1 w1 where t: "conn_turn env ev (c, w) = (running, (c1, w1))" by (metis prod.collapse)
    have first: "locked c c1"
      using locked_turn [OF Cons.prems(1), of env ev w] Cons.prems(2) by (simp add: Some t)
    then have c1: "unauthenticated c1" "conn_password c1 = conn_password c" "device_id c1 = device_id c"
      using Cons.prems(1) by (auto simp: locked_def)
    show ?thesis
    proof (cases running)
      case True
      have "locked c1 (fst (snd (conn_loop env evs (c1, w1))))"
        using Cons.IH [OF c1(1), of w1] Cons.prems(2) c1 by (simp add: Some t True)
      then show ?thesis using first by (simp add: Some t True locked_trans)
    next
      case False
      have "locked c1 (conn_cleanup c1)" by (rule locked_quiet [of _ _ "[]"]) (simp_all add: conn_cleanup_def)
      then show ?thesis using first by (simp add: Some t False locked_trans)
    qed
  qed
qed (simp add: locked_refl)

lemma password_needed:
  assumes "password \<noteq> []"
    and "tcp_start env (connection_new dev password keypair now, w) = (Inr (), cw)"
    and "list_all (\<lambda>m. \<not> valid_login env dev password m) (received env evs cw)"
  shows "case handle_tcp env evs (connection_new dev password keypair now, w) of (r, (c, w')) \<Rightarrow>
    conn_state c \<noteq> ConnActive \<and> list_all quiet (effects c)"
proof -
  let ?c = "connection_new dev password keypair now"
  obtain c1 w1 where cw: "cw = (c1, w1)" by (cases cw)
  define c0 where "c0 = ?c\<lparr>conn_state := ConnHandshaking\<rparr>"
  have c0: "unauthenticated c0" "device_id c0 = dev" "conn_password c0 = password" "effects c0 = []"
    using assms(1) by (simp_all add: c0_def connection_new_def unauthenticated_def)
  have "locked c0 c1"
  proof -
    define si where "si = na_sign env (idpk_encode env (device_id c0) (temp_public c0))"
    have "bindE (encode_message env (MsgSignedId si)) (send_framed env) (c0, w) = (Inr (), (c1, w1))"
      using assms(2) by (simp add: tcp_start_def on_conn_def modifyE_def bindE_def of_conn_def getsE_def cw create_signed_id_message_def c0_def si_def)
    then show ?thesis using lock.R_reply [of "(c0, w)" env si] by simp
  qed
  then have c1: "unauthenticated c1" "device_id c1 = dev" "conn_password c1 = password" "list_all quiet (effects c1)"
    using c0 by (auto simp: locked_def)
  obtain running c2 w2 where l: "conn_loop env evs (c1, w1) = (running, (c2, w2))" by (metis prod.collapse)
  have "locked c1 c2" using locked_loop [OF c1(1), of env evs w1] assms(3) c1 by (simp add: cw l)
  then have "conn_state c2 \<noteq> ConnActive \<and> list_all quiet (effects c2)"
    using c1 by (auto simp: locked_def unauthenticated_def)
  then show ?thesis using assms(2) by (simp add: handle_tcp_def cw l)
qed

end
