(* ===== verification/Rustdesk_Client.thy ===== *)
theory Rustdesk_Client
  imports Rustdesk_Session "HOL-Library.Sublist"
begin

text \<open>
  A connection seen by its client: the encrypted session and the plain one, the handshake of a client that knows the password, what an outside close does,
  and the reading of frames in the \<open>select!\<close> of the loop.
\<close>

section \<open>A client that encrypts\<close>

text \<open>What happens at the connection: an encrypted message of the client, bytes in the clear, or something else.\<close>

datatype client_item = Secret bytes | Clear bytes | Other "conn_event option"

fun client_events :: "'w rd_env \<Rightarrow> bytes \<Rightarrow> u64 \<Rightarrow> client_item list \<Rightarrow> conn_event option list" where
  "client_events env k n [] = []"
| "client_events env k n (Secret bs # xs) = Some (EvFrame (na_seal env bs (get_nonce (n + 1)) k)) # client_events env k (n + 1) xs"
| "client_events env k n (Clear bs # xs) = Some (EvFrame bs) # client_events env k n xs"
| "client_events env k n (Other ev # xs) = ev # client_events env k n xs"

definition item_messages :: "'w rd_env \<Rightarrow> client_item \<Rightarrow> hbb_message list" where
  "item_messages env x =
     (case x of Other _ \<Rightarrow> [] | Secret bs \<Rightarrow> (case pb_decode env bs of Some m \<Rightarrow> [m] | None \<Rightarrow> [])
      | Clear bs \<Rightarrow> (case pb_decode env bs of Some m \<Rightarrow> [m] | None \<Rightarrow> []))"

definition item_ok :: "'w rd_env \<Rightarrow> bytes \<Rightarrow> client_item \<Rightarrow> bool" where
  "item_ok env k x \<longleftrightarrow> list_all (\<lambda>m. \<not> is_public_key m) (item_messages env x) \<and>
     (case x of Secret _ \<Rightarrow> True | Clear bs \<Rightarrow> (\<forall>n. na_open env bs n k = None)
      | Other (Some (EvFrame _)) \<Rightarrow> False | Other _ \<Rightarrow> True)"

definition opens_sealed :: "'w rd_env \<Rightarrow> bool" where
  "opens_sealed env \<longleftrightarrow> (\<forall>d n k. na_open env (na_seal env d n k) n k = Some d)"

definition same_session :: "connection \<Rightarrow> connection \<Rightarrow> bool" where
  "same_session c c' \<longleftrightarrow> session_key c' = session_key c \<and> dec_seqnum c' = dec_seqnum c"

lemma same_session_framed: "same_session (fst cw) (fst (snd (send_framed env d cw)))"
proof -
  obtain c w where cw: "cw = (c, w)" by (cases cw)
  obtain w' where "send_framed env d (c, w) = (Inr (), (c\<lparr>effects := effects c @ [FrameSent d]\<rparr>, w'))
      \<or> (\<exists>e. send_framed env d (c, w) = (Inl e, (c, w')))"
    by (rule send_framed_result [of env d c w]) blast+
  then show ?thesis unfolding cw by (auto simp: same_session_def)
qed

lemma same_session_encrypted: "same_session (fst cw) (fst (snd (send_encrypted env d cw)))"
proof (cases "session_key (fst cw)")
  case None
  then show ?thesis using same_session_framed [of cw env d] by (cases cw) (simp add: send_encrypted_def of_conn_def getsE_def bindE_def)
next
  case (Some k)
  obtain c w where cw: "cw = (c, w)" by (cases cw)
  define n where "n = enc_seqnum c + 1"
  define c1 where "c1 = c\<lparr>enc_seqnum := n, effects := effects c @ [Sealed k (get_nonce n) d]\<rparr>"
  have "send_encrypted env d cw = send_framed env (na_seal env d (get_nonce n) k) (c1, w)"
    using Some by (simp add: cw send_encrypted_def of_conn_def getsE_def bindE_def on_conn_def modifyE_def emit_def n_def c1_def Let_def)
  then show ?thesis
    using same_session_framed [of "(c1, w)" env "na_seal env d (get_nonce n) k"] by (simp add: cw same_session_def c1_def)
qed

interpretation session: login_relation same_session env for env :: "'w rd_env"
proof unfold_locales
  fix cw :: "connection \<times> 'w" and si and d
  show "same_session (fst cw) (fst (snd (send_encrypted env d cw)))" by (rule same_session_encrypted)
  show "same_session (fst cw) (fst (snd (bindE (encode_message env (MsgSignedId si)) (send_framed env) cw)))"
    using same_session_framed [of cw env]
    by (auto simp: encode_message_def bindE_def returnE_def throwE_def same_session_def split: option.split)
qed (simp_all add: same_session_def core_def)

text \<open>One turn: the session key stays, and the sequence number counts the messages that opened.\<close>

lemma turn_session:
  assumes "list_all (\<lambda>m. \<not> is_public_key m) (decoded env ev c)"
  shows "session_key (fst (snd (conn_turn env ev (c, w)))) = session_key c \<and>
    dec_seqnum (fst (snd (conn_turn env ev (c, w)))) = dec_seqnum (case ev of EvFrame data \<Rightarrow> snd (decrypt_incoming env data c) | _ \<Rightarrow> c)"
proof (cases ev)
  case (EvFrame data)
  obtain d c1 where dec: "decrypt_incoming env data c = (d, c1)" by fastforce
  have key: "session_key c1 = session_key c"
    using dec by (auto simp: decrypt_incoming_def Let_def split: option.splits)
  show ?thesis
  proof (cases "pb_decode env d")
    case None
    then show ?thesis using key by (simp add: EvFrame conn_turn_def succeeded_def handle_message_def dec)
  next
    case (Some m)
    then have "\<not> is_public_key m" using assms by (simp add: EvFrame decoded_def dec)
    then have "same_session c1 (fst (snd (dispatch env m (c1, w))))"
      using session.keeps_dispatch_other [of m env] by (simp add: keeps_def)
    then show ?thesis using Some key
      by (simp add: EvFrame conn_turn_def succeeded_def handle_message_def dec same_session_def)
  qed
next
  case EvTick
  have "same_session c (fst (snd (send_test_delay env (c, w))))"
    using session.keeps_test_delay(2) [of env] by (simp add: keeps_def)
  then show ?thesis by (simp add: EvTick conn_turn_def same_session_def)
qed (use same_session_encrypted [of "(c, w)" env] in \<open>simp_all add: conn_turn_def succeeded_def same_session_def\<close>)

lemma decrypt_secret:
  assumes "opens_sealed env" and "session_key c = Some k"
  shows "decrypt_incoming env (na_seal env bs (get_nonce (dec_seqnum c + 1)) k) c = (bs, c\<lparr>dec_seqnum := dec_seqnum c + 1\<rparr>)"
  using assms by (simp add: decrypt_incoming_def opens_sealed_def)

lemma decrypt_clear:
  assumes "\<forall>n. na_open env bs n k = None" and "session_key c = Some k"
  shows "decrypt_incoming env bs c = (bs, c)"
  using assms by (simp add: decrypt_incoming_def Let_def)

lemma received_client:
  assumes "opens_sealed env" and "list_all (item_ok env k) xs" and "session_key c = Some k"
  shows "prefix (received env (client_events env k (dec_seqnum c) xs) (c, w)) (concat (map (item_messages env) xs)) \<and>
    (fst (conn_loop env (client_events env k (dec_seqnum c) xs) (c, w)) \<longrightarrow>
      received env (client_events env k (dec_seqnum c) xs) (c, w) = concat (map (item_messages env) xs))"
  using assms(2,3)
proof (induction xs arbitrary: c w)
  case (Cons x xs)
  have turn: ?case
    if ev: "client_events env k (dec_seqnum c) (x # xs) = Some ev # client_events env k n xs"
      and dec: "decoded env ev c = item_messages env x"
      and n: "dec_seqnum (case ev of EvFrame data \<Rightarrow> snd (decrypt_incoming env data c) | _ \<Rightarrow> c) = n" for ev n
  proof -
    obtain running c1 w1 where t: "conn_turn env ev (c, w) = (running, (c1, w1))" by (metis prod.collapse)
    have "list_all (\<lambda>m. \<not> is_public_key m) (decoded env ev c)" using Cons.prems(1) dec by (simp add: item_ok_def)
    from turn_session [OF this, of w] have c1: "session_key c1 = Some k" "dec_seqnum c1 = n"
      using Cons.prems(2) n by (simp_all add: t)
    show ?thesis
      using Cons.IH [OF _ c1(1), of w1] Cons.prems(1) c1(2) by (cases running) (simp_all add: ev dec t)
  qed
  show ?case
  proof (cases x)
    case (Secret bs)
    then show ?thesis
      using decrypt_secret [OF assms(1) Cons.prems(2), of bs]
      by (intro turn [of "EvFrame (na_seal env bs (get_nonce (dec_seqnum c + 1)) k)" "dec_seqnum c + 1"])
        (simp_all add: decoded_def item_messages_def)
  next
    case (Clear bs)
    then have "decrypt_incoming env bs c = (bs, c)"
      using Cons.prems by (intro decrypt_clear) (auto simp: item_ok_def)
    then show ?thesis
      by (intro turn [of "EvFrame bs" "dec_seqnum c"]) (simp_all add: decoded_def item_messages_def Clear)
  next
    case (Other o_ev)
    show ?thesis
    proof (cases o_ev)
      case None
      then show ?thesis
        using Cons.IH [of "mark_closed c" w] Cons.prems by (simp add: Other item_messages_def mark_closed_def)
    next
      case (Some ev)
      then show ?thesis
        using Cons.prems(1) Other
        by (intro turn [of ev "dec_seqnum c"]) (auto simp: decoded_def item_messages_def item_ok_def split: conn_event.splits)
    qed
  qed
qed simp

text \<open>C13: The encrypted session is transparent, and it lets plain messages in. With a key, a client that numbers its encrypted messages, and
  anything else in between (video, audio, ticks, closings): the connection decodes exactly the messages that the client meant, in order, up to the end of
  its loop. Bytes in the clear that do not open are among them: they are handled like the encrypted ones and do not disturb the numbers.\<close>

theorem rd_client_messages:
  assumes "opens_sealed env" and "list_all (item_ok env k) xs" and "session_key c = Some k"
  shows "prefix (received env (client_events env k (dec_seqnum c) xs) (c, w)) (concat (map (item_messages env) xs)) \<and>
    (fst (conn_loop env (client_events env k (dec_seqnum c) xs) (c, w)) \<longrightarrow>
      received env (client_events env k (dec_seqnum c) xs) (c, w) = concat (map (item_messages env) xs))"
  by (rule received_client [OF assms])

lemma conn_apply [simp]:
  "of_conn g (c, w) = (Inr (g c), (c, w))" "on_conn h (c, w) = (Inr (), (h c, w))"
  "emit e (c, w) = (Inr (), (c\<lparr>effects := effects c @ [e]\<rparr>, w))" "returnE a s = (Inr a, s)"
  by (simp_all add: of_conn_def getsE_def on_conn_def modifyE_def emit_def)

lemma bind_of_conn [simp]: "bindE (of_conn g) f (c, w) = f (g c) (c, w)"
  by (simp add: bindE_def)

section \<open>The handshake of a client that knows the password\<close>

text \<open>A message that can be sent: it encodes, and it fits a frame, sealed or not.\<close>

definition sendable :: "'w rd_env \<Rightarrow> hbb_message \<Rightarrow> bool" where
  "sendable env m \<longleftrightarrow> (case pb_encode env m of None \<Rightarrow> False
     | Some bs \<Rightarrow> length bs \<le> MAX_PACKET_LENGTH \<and> (\<forall>n k. length (na_seal env bs n k) \<le> MAX_PACKET_LENGTH))"

text \<open>The socket takes everything, and the answers to a login can be sent.\<close>

definition cooperative :: "'w rd_env \<Rightarrow> bool" where
  "cooperative env \<longleftrightarrow> (\<forall>bs w. fst (write_socket env bs w)) \<and>
     (\<forall>w p. pi_hostname p = (case fst (hostname_file env w) of Some s \<Rightarrow> trim s | None \<Rightarrow> lit ''One-KVM'') \<longrightarrow>
       sendable env (MsgLoginResponse (LoginPeerInfo p)))"

lemma send_framed_ok:
  assumes "\<forall>bs w. fst (write_socket env bs w)" and "length d \<le> MAX_PACKET_LENGTH"
  obtains w' where "send_framed env d (c, w) = (Inr (), (c\<lparr>effects := effects c @ [FrameSent d]\<rparr>, w'))"
proof -
  obtain framed where f: "encode_frame d = Inr framed" using assms(2) by (simp add: encode_frame_eq)
  obtain ok w' where w': "write_socket env framed w = (ok, w')" by (cases "write_socket env framed w")
  then have ok using assms(1) by (metis fst_conv)
  then have "send_framed env d (c, w) = (Inr (), (c\<lparr>effects := effects c @ [FrameSent d]\<rparr>, w'))"
    using f w' by (simp add: send_framed_def bindE_def ask_env_def emit_def on_conn_def modifyE_def)
  then show thesis by (rule that)
qed

lemma send_message_ok:
  assumes "\<forall>bs w. fst (write_socket env bs w)" and "sendable env m"
  obtains bs w' where "pb_encode env m = Some bs"
    and "send_message env m (c, w) = (Inr (), (case session_key c of
      None \<Rightarrow> c\<lparr>effects := effects c @ [FrameSent bs]\<rparr>
    | Some k \<Rightarrow> c\<lparr>enc_seqnum := enc_seqnum c + 1, effects := effects c @
        [Sealed k (get_nonce (enc_seqnum c + 1)) bs, FrameSent (na_seal env bs (get_nonce (enc_seqnum c + 1)) k)]\<rparr>, w'))"
proof -
  obtain bs where bs: "pb_encode env m = Some bs" "length bs \<le> MAX_PACKET_LENGTH"
    "\<And>n k. length (na_seal env bs n k) \<le> MAX_PACKET_LENGTH"
    using assms(2) by (auto simp: sendable_def split: option.splits)
  show thesis
  proof (cases "session_key c")
    case None
    obtain w' where "send_framed env bs (c, w) = (Inr (), (c\<lparr>effects := effects c @ [FrameSent bs]\<rparr>, w'))"
      by (rule send_framed_ok [OF assms(1) bs(2)])
    then show thesis
      by (intro that [of bs w']) (simp_all add: bs None send_message_def encode_message_def send_encrypted_def of_conn_def getsE_def bindE_def returnE_def)
  next
    case (Some k)
    define n where "n = enc_seqnum c + 1"
    define c1 where "c1 = c\<lparr>enc_seqnum := n, effects := effects c @ [Sealed k (get_nonce n) bs]\<rparr>"
    obtain w' where "send_framed env (na_seal env bs (get_nonce n) k) (c1, w) =
        (Inr (), (c1\<lparr>effects := effects c1 @ [FrameSent (na_seal env bs (get_nonce n) k)]\<rparr>, w'))"
      by (rule send_framed_ok [OF assms(1) bs(3)])
    then show thesis
      by (intro that [of bs w'])
        (simp_all add: bs Some send_message_def encode_message_def send_encrypted_def of_conn_def getsE_def bindE_def returnE_def
          on_conn_def modifyE_def emit_def n_def c1_def Let_def)
  qed
qed

lemma create_login_response_ok:
  obtains p w' w0 where "create_login_response env (c, w) = (Inr (MsgLoginResponse (LoginPeerInfo p)), (c, w'))"
    and "pi_hostname p = (case fst (hostname_file env w0) of Some s \<Rightarrow> trim s | None \<Rightarrow> lit ''One-KVM'')"
proof -
  obtain cs w1 where c1: "current_codec_constraints env (c, w) = (Inr cs, (c, w1))"
    by (cases "has_video env"; cases "manager_constraints env w") (auto simp: current_codec_constraints_def ask_env_def returnE_def)
  obtain res w2 where c2: "(if has_video env then ask_env (video_resolution env) else returnE None) (c, w1) = (Inr res, (c, w2))"
    by (cases "has_video env"; cases "video_resolution env w1") (auto simp: ask_env_def returnE_def)
  obtain host w3 where h: "hostname_file env w2 = (host, w3)" by (cases "hostname_file env w2")
  have c3: "get_hostname env (c, w2) = (Inr (case host of Some s \<Rightarrow> trim s | None \<Rightarrow> lit ''One-KVM''), (c, w3))"
    using h by (simp add: get_hostname_def ask_env_def returnE_def bindE_def)
  show thesis
    by (rule that [of _ w3 w2])
      (simp add: create_login_response_def c1 c2 c3 returnE_def, simp add: h)
qed


lemma negotiate_ok:
  obtains codec w' where "negotiate_video_codec env (c, w) = (Inr codec, (c, w'))"
proof -
  obtain cs w1 where c1: "current_codec_constraints env (c, w) = (Inr cs, (c, w1))"
    by (cases "has_video env"; cases "manager_constraints env w") (auto simp: current_codec_constraints_def ask_env_def returnE_def)
  show thesis by (rule that) (simp add: negotiate_video_codec_def bindE_def c1 returnE_def)
qed

text \<open>A login with the right password.\<close>

lemma login_arm_ok:
  assumes "cooperative env" and "lr_password lr \<noteq> [] \<or> conn_password c = []" and "verify_password env c (lr_password lr)"
    and "\<not> video_streaming c" and "\<not> audio_streaming c"
  obtains p response codec c' w' where "login_arm env lr (c, w) = (Inr (), (c', w'))"
    and "pb_encode env (MsgLoginResponse (LoginPeerInfo p)) = Some response"
    and "conn_state c' = ConnActive" and "session_key c' = session_key c" and "peer_id c' = lr_my_id lr"
    and "effects c' = effects c @
      (case session_key c of None \<Rightarrow> [FrameSent response]
       | Some k \<Rightarrow> [Sealed k (get_nonce (enc_seqnum c + 1)) response, FrameSent (na_seal env response (get_nonce (enc_seqnum c + 1)) k)]) @
      (if has_video env then [VideoStarted codec] else []) @ (if has_audio env then [AudioStarted] else [])"
proof -
  define c1 where "c1 = c\<lparr>peer_id := lr_my_id lr, peer_name := lr_my_name lr, conn_state := ConnActive\<rparr>"
  obtain codec w1 where n: "negotiate_video_codec env (c1, w) = (Inr codec, (c1, w1))" by (rule negotiate_ok)
  define c2 where "c2 = c1\<lparr>negotiated_codec := Some codec\<rparr>"
  obtain p w2 w0 where r: "create_login_response env (c2, w1) = (Inr (MsgLoginResponse (LoginPeerInfo p)), (c2, w2))"
    and host: "pi_hostname p = (case fst (hostname_file env w0) of Some s \<Rightarrow> trim s | None \<Rightarrow> lit ''One-KVM'')"
    by (rule create_login_response_ok)
  have fits: "\<forall>bs w. fst (write_socket env bs w)" "sendable env (MsgLoginResponse (LoginPeerInfo p))"
    using assms(1) host unfolding cooperative_def by blast+
  obtain response w3 where e: "pb_encode env (MsgLoginResponse (LoginPeerInfo p)) = Some response"
    and s: "send_message env (MsgLoginResponse (LoginPeerInfo p)) (c2, w2) = (Inr (), (case session_key c2 of
      None \<Rightarrow> c2\<lparr>effects := effects c2 @ [FrameSent response]\<rparr>
    | Some k \<Rightarrow> c2\<lparr>enc_seqnum := enc_seqnum c2 + 1, effects := effects c2 @
        [Sealed k (get_nonce (enc_seqnum c2 + 1)) response, FrameSent (na_seal env response (get_nonce (enc_seqnum c2 + 1)) k)]\<rparr>, w3))"
    by (rule send_message_ok [OF fits])
  define c3 where "c3 = (case session_key c of
      None \<Rightarrow> c2\<lparr>effects := effects c2 @ [FrameSent response]\<rparr>
    | Some k \<Rightarrow> c2\<lparr>enc_seqnum := enc_seqnum c2 + 1, effects := effects c2 @
        [Sealed k (get_nonce (enc_seqnum c2 + 1)) response, FrameSent (na_seal env response (get_nonce (enc_seqnum c2 + 1)) k)]\<rparr>)"
  have key: "session_key c2 = session_key c" "enc_seqnum c2 = enc_seqnum c" "effects c2 = effects c"
    by (simp_all add: c2_def c1_def)
  have h: "handle_login_request env lr (c\<lparr>peer_id := lr_my_id lr, peer_name := lr_my_name lr\<rparr>, w) = (Inr True, (c3, w3))"
  proof -
    let ?c = "c\<lparr>peer_id := lr_my_id lr, peer_name := lr_my_name lr\<rparr>"
    have "verify_password env ?c x = verify_password env c x" for x by (simp add: verify_password_def)
    then have ok: "verify_password env ?c (lr_password lr) = True" "(conn_password c \<noteq> [] \<and> lr_password lr = []) = False"
      using assms(2,3) by blast+
    show ?thesis
      unfolding handle_login_request_def using n r s
      by (simp add: ok c3_def c1_def c2_def)
  qed
  have flags: "\<not> video_streaming c3" "\<not> audio_streaming c3" "negotiated_codec c3 = Some codec" "conn_state c3 = ConnActive"
    "session_key c3 = session_key c" "peer_id c3 = lr_my_id lr"
    using assms(4,5) by (simp_all add: c3_def c2_def c1_def split: option.split)
  have eff: "effects c3 = effects c @ (case session_key c of None \<Rightarrow> [FrameSent response]
       | Some k \<Rightarrow> [Sealed k (get_nonce (enc_seqnum c + 1)) response, FrameSent (na_seal env response (get_nonce (enc_seqnum c + 1)) k)])"
    by (simp add: c3_def key split: option.split)
  define c4 where "c4 = snd (start_video_streaming env (c3\<lparr>video_frame_tx := True\<rparr>, w3))"
  have v: "start_video_streaming env (c3\<lparr>video_frame_tx := True\<rparr>, w3) = (Inr (),
      (if has_video env then c3\<lparr>video_frame_tx := True, effects := effects c3 @ [VideoStarted codec], video_task := True\<rparr>
       else c3\<lparr>video_frame_tx := True\<rparr>, w3))"
    by (simp add: start_video_streaming_def flags(3))
  have a: "start_audio_streaming env (c, w) = (Inr (),
      (if has_audio env then c\<lparr>effects := effects c @ [AudioStarted], audio_task := True\<rparr> else c, w))" for c w
    by (simp add: start_audio_streaming_def)
  define c4 where "c4 = (let c = c3\<lparr>video_frame_tx := True\<rparr>;
      c = (if has_video env then c\<lparr>effects := effects c @ [VideoStarted codec], video_task := True\<rparr> else c)\<lparr>video_streaming := True\<rparr>
    in (if has_audio env then c\<lparr>effects := effects c @ [AudioStarted], audio_task := True\<rparr> else c)\<lparr>audio_streaming := True\<rparr>)"
  have run: "login_arm env lr (c, w) = (Inr (), (c4, w3))"
    by (cases "has_video env"; cases "has_audio env") (simp_all add: login_arm_def h v a flags(1,2) c4_def Let_def)
  have c4: "conn_state c4 = conn_state c3" "session_key c4 = session_key c3" "peer_id c4 = peer_id c3"
    "effects c4 = effects c3 @ (if has_video env then [VideoStarted codec] else []) @ (if has_audio env then [AudioStarted] else [])"
    by (simp_all add: c4_def Let_def)
  show thesis
    by (rule that [OF run e]) (simp_all add: c4 flags eff)
qed

lemma public_key_ok:
  assumes "\<forall>bs w. fst (write_socket env bs w)" and "sendable env (MsgHash (device_id c) [])"
    and "length cpk = 32" and "sealed \<noteq> []" and "na_box_open env sealed (replicate 24 0) cpk (temp_secret c) = Some k" and "length k = 32"
  obtains hash w' where "pb_encode env (MsgHash (device_id c) []) = Some hash"
    and "handle_peer_public_key env cpk sealed (c, w) = (Inr (), (c\<lparr>session_key := Some k, encryption_enabled := True,
      enc_seqnum := enc_seqnum c + 1, effects := effects c @
        [Sealed k (get_nonce (enc_seqnum c + 1)) hash, FrameSent (na_seal env hash (get_nonce (enc_seqnum c + 1)) k)]\<rparr>, w'))"
proof -
  define c1 where "c1 = c\<lparr>session_key := Some k, encryption_enabled := True\<rparr>"
  have key: "decrypt_symmetric_key env cpk sealed (temp_secret c) = Some k"
    using assms(3,5,6) by (simp add: decrypt_symmetric_key_def)
  obtain hash w' where h: "pb_encode env (MsgHash (device_id c) []) = Some hash"
    "send_message env (MsgHash (device_id c) []) (c1, w) = (Inr (), (c1\<lparr>enc_seqnum := enc_seqnum c + 1, effects := effects c @
        [Sealed k (get_nonce (enc_seqnum c + 1)) hash, FrameSent (na_seal env hash (get_nonce (enc_seqnum c + 1)) k)]\<rparr>, w'))"
    by (rule send_message_ok [OF assms(1,2), of c1 w]) (simp add: c1_def)
  have "handle_peer_public_key env cpk sealed (c, w) = send_message env (MsgHash (device_id c) []) (c1, w)"
    using assms(3,4) key by (simp add: handle_peer_public_key_def c1_def create_hash_message_def)
  then show thesis using h by (intro that [of hash w']) (simp_all add: c1_def)
qed

text \<open>C10: A client that knows the password gets in. On a fresh connection and a system that works, a client that sends its session key sealed for the
  connection and then the encrypted login request with the double hash: the loop goes on, the connection is active with that key, and the client was sent the
  challenge and the answer to its login, encrypted with the numbers 1 and 2, and then the video and the audio are started.\<close>

theorem rd_login_succeeds:
  assumes env: "cooperative env" "opens_sealed env" "sendable env (MsgHash (device_id c) [])"
    and fresh: "session_key c = None" "enc_seqnum c = 0" "dec_seqnum c = 0" "\<not> video_streaming c" "\<not> audio_streaming c"
    and key: "pb_decode env hello = Some (MsgPublicKey cpk sealed)" "length cpk = 32" "sealed \<noteq> []"
      "na_box_open env sealed (replicate 24 0) cpk (temp_secret c) = Some k" "length k = 32"
    and login: "pb_decode env bs = Some (MsgLoginRequest lr)" "lr_password lr = hash_password_double env (conn_password c) (device_id c) []"
      "lr_password lr \<noteq> []" "conn_password c \<noteq> []"
  shows "case conn_loop env [Some (EvFrame hello), Some (EvFrame (na_seal env bs (get_nonce 1) k))] (c, w) of (running, (c', w')) \<Rightarrow>
    running \<and> conn_state c' = ConnActive \<and> session_key c' = Some k \<and> peer_id c' = lr_my_id lr \<and>
    (\<exists>hash response p codec. pb_encode env (MsgHash (device_id c) []) = Some hash \<and>
      pb_encode env (MsgLoginResponse (LoginPeerInfo p)) = Some response \<and>
      effects c' = effects c @ [Sealed k (get_nonce 1) hash, FrameSent (na_seal env hash (get_nonce 1) k),
        Sealed k (get_nonce 2) response, FrameSent (na_seal env response (get_nonce 2) k)] @
        (if has_video env then [VideoStarted codec] else []) @ (if has_audio env then [AudioStarted] else []))"
proof -
  have writes: "\<forall>bs w. fst (write_socket env bs w)" using env(1) by (simp add: cooperative_def)
  obtain hash w1 where hash: "pb_encode env (MsgHash (device_id c) []) = Some hash"
    and pk: "handle_peer_public_key env cpk sealed (c, w) = (Inr (), (c\<lparr>session_key := Some k, encryption_enabled := True,
      enc_seqnum := enc_seqnum c + 1, effects := effects c @
        [Sealed k (get_nonce (enc_seqnum c + 1)) hash, FrameSent (na_seal env hash (get_nonce (enc_seqnum c + 1)) k)]\<rparr>, w1))"
    by (rule public_key_ok [OF writes env(3) key(2-5)])
  define c1 where "c1 = c\<lparr>session_key := Some k, encryption_enabled := True, enc_seqnum := 1,
    effects := effects c @ [Sealed k (get_nonce 1) hash, FrameSent (na_seal env hash (get_nonce 1) k)], dec_seqnum := 1\<rparr>"
  have ok: "lr_password lr \<noteq> [] \<or> conn_password c1 = []" "verify_password env c1 (lr_password lr)"
    "\<not> video_streaming c1" "\<not> audio_streaming c1"
    using login fresh by (simp_all add: verify_password_def c1_def)
  obtain p response codec c2 w2 where l: "login_arm env lr (c1, w1) = (Inr (), (c2, w2))"
    and r: "pb_encode env (MsgLoginResponse (LoginPeerInfo p)) = Some response"
    and c2: "conn_state c2 = ConnActive" "session_key c2 = session_key c1" "peer_id c2 = lr_my_id lr"
    and e: "effects c2 = effects c1 @
      (case session_key c1 of None \<Rightarrow> [FrameSent response]
       | Some k \<Rightarrow> [Sealed k (get_nonce (enc_seqnum c1 + 1)) response, FrameSent (na_seal env response (get_nonce (enc_seqnum c1 + 1)) k)]) @
      (if has_video env then [VideoStarted codec] else []) @ (if has_audio env then [AudioStarted] else [])"
    by (rule login_arm_ok [OF env(1) ok, of w1])
  have first: "conn_turn env (EvFrame hello) (c, w) = (True, (c1\<lparr>dec_seqnum := 0\<rparr>, w1))"
    using pk fresh key(1) by (simp add: conn_turn_def succeeded_def handle_message_def decrypt_incoming_def dispatch_def c1_def)
  have "decrypt_incoming env (na_seal env bs (get_nonce 1) k) (c1\<lparr>dec_seqnum := 0\<rparr>) = (bs, c1)"
    using env(2) by (simp add: decrypt_incoming_def opens_sealed_def c1_def)
  then have second: "conn_turn env (EvFrame (na_seal env bs (get_nonce 1) k)) (c1\<lparr>dec_seqnum := 0\<rparr>, w1) = (True, (c2, w2))"
    using l login(1) by (simp add: conn_turn_def succeeded_def handle_message_def dispatch_def)
  have eff: "effects c2 = effects c @ [Sealed k (get_nonce 1) hash, FrameSent (na_seal env hash (get_nonce 1) k),
        Sealed k (get_nonce 2) response, FrameSent (na_seal env response (get_nonce 2) k)] @
        (if has_video env then [VideoStarted codec] else []) @ (if has_audio env then [AudioStarted] else [])"
    using e by (simp add: c1_def)
  show ?thesis
    using c2 hash r eff by (simp add: first second) (simp add: c1_def, blast)
qed

text \<open>Closing all connections does not end them. The manager only sets the state to closed, and the loop never looks at it: a connection that another
  task has closed goes on reading, and the next valid login makes it active again.\<close>

theorem rd_close_all_reopened:
  assumes "cooperative env" and "pb_decode env (fst (decrypt_incoming env data c)) = Some (MsgLoginRequest lr)"
    and "verify_password env c (lr_password lr)" and "\<not> video_streaming c" and "\<not> audio_streaming c" and "lr_password lr \<noteq> []"
  shows "case conn_loop env [None, Some (EvFrame data)] (c, w) of (running, (c', w')) \<Rightarrow> running \<and> conn_state c' = ConnActive"
proof -
  obtain d c1 where dec: "decrypt_incoming env data (mark_closed c) = (d, c1)" by fastforce
  have d: "d = fst (decrypt_incoming env data c)"
    using dec by (auto simp: decrypt_incoming_def mark_closed_def Let_def split: option.splits)
  have same: "conn_password c1 = conn_password c" "device_id c1 = device_id c" "video_streaming c1 = video_streaming c"
    "audio_streaming c1 = audio_streaming c"
    using dec by (auto simp: decrypt_incoming_def mark_closed_def Let_def split: option.splits)
  have "verify_password env c1 x = verify_password env c x" for x by (simp add: verify_password_def same)
  then have ok: "lr_password lr \<noteq> [] \<or> conn_password c1 = []" "verify_password env c1 (lr_password lr)"
    "\<not> video_streaming c1" "\<not> audio_streaming c1"
    using assms(3-6) same by simp_all
  obtain c2 w2 where l: "login_arm env lr (c1, w) = (Inr (), (c2, w2))" "conn_state c2 = ConnActive"
    by (rule login_arm_ok [OF assms(1) ok, of w])
  then show ?thesis
    using assms(2) by (simp add: conn_turn_def succeeded_def handle_message_def dec dispatch_def d)
qed

section \<open>Reading frames inside \<open>select!\<close>\<close>

text \<open>Each turn of the loop waits in a \<open>select!\<close> with a new \<open>read_frame\<close> future, which is dropped when another branch is ready first; the bytes
  that it has taken from the socket are gone then. The state is the unread bytes of the socket and those taken by the pending future.
  \<open>Arrived\<close>: bytes reach the socket; \<open>Polled\<close>: the future is polled; \<open>Taken ev\<close>: another branch of the \<open>select!\<close> is taken; \<open>Outside\<close>: another task
  closes the connection. The result is the list of events on which the loop (\<open>conn_loop\<close>) runs.\<close>

datatype select_event = Arrived bytes | Polled | Taken conn_event | Outside

fun select_events :: "select_event list \<Rightarrow> bytes \<times> bytes \<Rightarrow> conn_event option list" where
  "select_events [] s = []"
| "select_events (Arrived bs # evs) (sock, taken) = select_events evs (sock @ bs, taken)"
| "select_events (Taken ev # evs) (sock, taken) = Some ev # select_events evs (sock, [])"
| "select_events (Outside # evs) s = None # select_events evs s"
| "select_events (Polled # evs) (sock, taken) =
     (case read_frame (taken @ sock) of
        Inr (d, rest) \<Rightarrow> Some (EvFrame d) # select_events evs (rest, [])
      | Inl _ \<Rightarrow> select_events evs ([], taken @ sock))"

definition frames_read :: "conn_event option list \<Rightarrow> bytes list" where
  "frames_read evs = List.map_filter (\<lambda>ev. case ev of Some (EvFrame d) \<Rightarrow> Some d | _ \<Rightarrow> None) evs"

lemma frames_read_simps [simp]:
  "frames_read [] = []" "frames_read (None # evs) = frames_read evs" "frames_read (Some (EvFrame d) # evs) = d # frames_read evs"
  "(\<And>d. ev \<noteq> EvFrame d) \<Longrightarrow> frames_read (Some ev # evs) = frames_read evs"
  by (auto simp: frames_read_def List.map_filter_def split: conn_event.split)

text \<open>No future is dropped while it holds bytes, and the other branches are not frames.\<close>

fun unbroken :: "select_event list \<Rightarrow> bytes \<times> bytes \<Rightarrow> bool" where
  "unbroken [] s = True"
| "unbroken (Arrived bs # evs) (sock, taken) = unbroken evs (sock @ bs, taken)"
| "unbroken (Taken ev # evs) (sock, taken) = (taken = [] \<and> (case ev of EvFrame _ \<Rightarrow> False | _ \<Rightarrow> True) \<and> unbroken evs (sock, []))"
| "unbroken (Outside # evs) s = unbroken evs s"
| "unbroken (Polled # evs) (sock, taken) =
     (case read_frame (taken @ sock) of Inr (d, rest) \<Rightarrow> unbroken evs (rest, []) | Inl _ \<Rightarrow> unbroken evs ([], taken @ sock))"

fun arrivals :: "select_event list \<Rightarrow> bytes" where
  "arrivals [] = []"
| "arrivals (Arrived bs # evs) = bs @ arrivals evs"
| "arrivals (_ # evs) = arrivals evs"

lemma read_frame_whole: "length m \<le> MAX_PACKET_LENGTH \<Longrightarrow> read_frame (frame m @ rest) = Inr (m, rest)"
  using read_frame_decode [of "frame m @ rest"] decode_frame [of codec_new m rest]
  by (simp add: frame_ok_def codec_new_def)

lemma read_frame_part:
  assumes "length m \<le> MAX_PACKET_LENGTH" and "frame m = p @ q" and "q \<noteq> []"
  shows "read_frame p = Inl UnexpectedEof"
  using read_frame_decode [of p] decode_prefix [of codec_new m p q] assms
  by (simp add: frame_ok_def codec_new_def split: if_splits)

lemma read_run_prefix:
  assumes "list_all (\<lambda>m. length m \<le> MAX_PACKET_LENGTH) ms" and "unbroken evs (sock, taken)"
    and "taken @ sock @ arrivals evs @ later = concat (map frame ms)"
  shows "prefix (frames_read (select_events evs (sock, taken))) ms"
  using assms
proof (induction evs arbitrary: sock taken ms)
  case (Cons ev evs)
  show ?case
  proof (cases ev)
    case (Arrived bs)
    then show ?thesis using Cons.IH [of ms "sock @ bs" taken] Cons.prems by simp
  next
    case (Taken other)
    then show ?thesis using Cons.IH [of ms sock "[]"] Cons.prems by (cases other) simp_all
  next
    case Outside
    then show ?thesis using Cons.IH [of ms sock taken] Cons.prems by simp
  next
    case Polled
    show ?thesis
    proof (cases ms)
      case Nil
      then have "taken @ sock = []" using Cons.prems(3) by simp
      then have "read_frame (taken @ sock) = Inl UnexpectedEof" by (simp add: read_frame_def read_exact_def)
      then show ?thesis using Cons.IH [of ms "[]" "taken @ sock"] Cons.prems Polled by simp
    next
      case (Cons m ms')
      have m: "length m \<le> MAX_PACKET_LENGTH" using Cons.prems(1) Cons by simp
      have eq: "(taken @ sock) @ (arrivals evs @ later) = frame m @ concat (map frame ms')"
        using Cons.prems(3) Cons Polled by simp
      show ?thesis
      proof (cases "length (taken @ sock) < length (frame m)")
        case True
        obtain q where q: "frame m = (taken @ sock) @ q" "q \<noteq> []" by (rule append_cut_less [OF eq True])
        have "read_frame (taken @ sock) = Inl UnexpectedEof" by (rule read_frame_part [OF m q])
        then show ?thesis
          using Cons.IH [of ms "[]" "taken @ sock"] Cons.prems Polled by simp
      next
        case False
        then have "length (frame m) \<le> length (taken @ sock)" by simp
        with eq obtain rest where rest: "taken @ sock = frame m @ rest" "rest @ arrivals evs @ later = concat (map frame ms')"
          by (rule append_cut_le)
        have "read_frame (taken @ sock) = Inr (m, rest)" using read_frame_whole [OF m] rest(1) by simp
        then show ?thesis
          using Cons.IH [of ms' rest "[]"] Cons.prems Polled Cons rest(2) by simp
      qed
    qed
  qed
qed simp

text \<open>C18: Reading frames in the loop, when it is right and what goes wrong. As long as no pending read is dropped with bytes in it, the frames that the loop handles
  are the client's messages, in order, however the bytes arrive. But whenever another branch (a video frame, the timer) is taken while the first part
  \<open>p\<close> of a frame has been read, the loop goes on exactly as if the client had never sent \<open>p\<close>: the rest of the frame is then taken for the start of one.\<close>

theorem rd_read_cancelled:
  assumes "list_all (\<lambda>m. length m \<le> MAX_PACKET_LENGTH) ms" and "unbroken sel ([], [])" and "arrivals sel @ later = concat (map frame ms)"
    and "length m \<le> MAX_PACKET_LENGTH" and "frame m = p @ q" and "q \<noteq> []"
  shows "prefix (frames_read (select_events sel ([], []))) ms \<and>
    conn_loop env (select_events (Arrived p # Polled # Taken ev # Arrived q # evs) ([], [])) cw =
      conn_loop env (Some ev # select_events (Arrived q # evs) ([], [])) cw"
  using read_run_prefix [OF assms(1,2), of later] assms(3) read_frame_part [OF assms(4-6)] by simp

section \<open>A concrete environment\<close>

text \<open>A small instance of the parameters, for the witnesses: sealing puts a byte in front.\<close>

definition toy_env :: "unit rd_env" where
  "toy_env =
     \<lparr>pb_encode = (\<lambda>m. case m of MsgHash _ _ \<Rightarrow> Some [1] | MsgLoginResponse _ \<Rightarrow> Some [2] | MsgSignedId _ \<Rightarrow> Some [3] | _ \<Rightarrow> Some []),
      pb_decode = (\<lambda>bs.
        if bs = [10] then Some (MsgPublicKey (replicate 32 0) [7])
        else if bs = [11] then Some (MsgLoginRequest \<lparr>lr_my_id = [49], lr_my_name = [50], lr_password = [5]\<rparr>)
        else if bs = [12] then Some (MsgMouseEvent \<lparr>rm_mask = 0, rm_x = 3, rm_y = 4\<rparr>)
        else None),
      idpk_encode = (\<lambda>_ pk. pk), idpk_decode = (\<lambda>_. None), na_sign = (\<lambda>d. d),
      na_seal = (\<lambda>d n k. 99 # d),
      na_open = (\<lambda>d n k. case d of [] \<Rightarrow> None | x # xs \<Rightarrow> if x = 99 then Some xs else None),
      na_box_open = (\<lambda>_ _ _ _. Some (replicate 32 1)), sha256 = (\<lambda>_. [5]), has_hid = True, has_audio = True, has_video = True,
      codec_available = (\<lambda>_. True), manager_constraints = (\<lambda>w. (unrestricted, w)), video_resolution = (\<lambda>w. (Some (1280, 720), w)),
      hostname_file = (\<lambda>w. (None, w)), write_socket = (\<lambda>_ w. (True, w)), clock_ms = (\<lambda>w. (0, w)), epoch_ms = (\<lambda>w. (0, w))\<rparr>"

definition toy_connection :: connection where
  "toy_connection = connection_new [49, 50] [112] ([8], [9]) 0"

lemma toy_opens: "opens_sealed toy_env" by (simp add: opens_sealed_def toy_env_def)

lemma toy_cooperative: "cooperative toy_env"
  by (simp add: cooperative_def sendable_def toy_env_def MAX_PACKET_LENGTH_def)

theorem rd_client_messages_witness:
  "prefix (received toy_env (client_events toy_env [1] 0 [Secret [11], Other (Some EvTick), Clear [12]])
     (toy_connection\<lparr>session_key := Some [1]\<rparr>, ()))
   (concat (map (item_messages toy_env) [Secret [11], Other (Some EvTick), Clear [12]]))"
  using rd_client_messages [OF toy_opens, of "[1]" "[Secret [11], Other (Some EvTick), Clear [12]]"
      "toy_connection\<lparr>session_key := Some [1]\<rparr>" "()"]
  by (simp add: item_ok_def item_messages_def is_public_key_def toy_env_def toy_connection_def connection_new_def)

theorem rd_login_succeeds_witness:
  "case conn_loop toy_env [Some (EvFrame [10]), Some (EvFrame (na_seal toy_env [11] (get_nonce 1) (replicate 32 1)))] (toy_connection, ()) of
     (running, (c', w')) \<Rightarrow> running \<and> conn_state c' = ConnActive \<and> session_key c' = Some (replicate 32 1) \<and>
       peer_id c' = lr_my_id \<lparr>lr_my_id = [49], lr_my_name = [50], lr_password = [5]\<rparr> \<and>
    (\<exists>hash response p codec. pb_encode toy_env (MsgHash (device_id toy_connection) []) = Some hash \<and>
      pb_encode toy_env (MsgLoginResponse (LoginPeerInfo p)) = Some response \<and>
      effects c' = effects toy_connection @ [Sealed (replicate 32 1) (get_nonce 1) hash, FrameSent (na_seal toy_env hash (get_nonce 1) (replicate 32 1)),
        Sealed (replicate 32 1) (get_nonce 2) response, FrameSent (na_seal toy_env response (get_nonce 2) (replicate 32 1))] @
        (if has_video toy_env then [VideoStarted codec] else []) @ (if has_audio toy_env then [AudioStarted] else []))"
  by (rule rd_login_succeeds [OF toy_cooperative toy_opens, where cpk = "replicate 32 0" and sealed = "[7]"])
    (simp_all add: sendable_def toy_env_def toy_connection_def connection_new_def hash_password_double_def MAX_PACKET_LENGTH_def)

theorem rd_close_all_reopened_witness:
  "case conn_loop toy_env [None, Some (EvFrame [11])] (toy_connection, ()) of (running, (c', w')) \<Rightarrow> running \<and> conn_state c' = ConnActive"
  by (rule rd_close_all_reopened [OF toy_cooperative, where lr = "\<lparr>lr_my_id = [49], lr_my_name = [50], lr_password = [5]\<rparr>"])
    (simp_all add: toy_env_def toy_connection_def connection_new_def decrypt_incoming_def verify_password_def hash_password_double_def)

theorem rd_read_cancelled_witness:
  "prefix (frames_read (select_events [Taken EvTick, Arrived (frame [4]), Polled] ([], []))) [[4]] \<and>
   conn_loop toy_env (select_events [Arrived [12, 1], Polled, Taken EvTick, Arrived [4, 4], Polled] ([], [])) (toy_connection, ()) =
     conn_loop toy_env (Some EvTick # select_events [Arrived [4, 4], Polled] ([], [])) (toy_connection, ())"
proof -
  have f: "frame [1, 4, 4] = [12, 1] @ [4, 4 :: u8]" by code_simp
  show ?thesis
    using rd_read_cancelled [of "[[4]]" "[Taken EvTick, Arrived (frame [4]), Polled]" "[]" "[1, 4, 4]" "[12, 1]" "[4, 4]", where evs = "[Polled]"]
      read_frame_whole [of "[4]" "[]"] f
    by (simp add: MAX_PACKET_LENGTH_def)
qed

text \<open>C1: Nothing reaches the machine without the password. On a device with a password, for every course of a new connection: as long as no login
  request with one of the two hashes of that password has been received, the connection is not active, no key or mouse event is sent, and neither the
  video nor the audio is started, whatever else the client sends and whatever fails.\<close>

theorem rd_password_required:
  assumes "password \<noteq> []"
    and "tcp_start env (connection_new dev password keypair now, w) = (Inr (), cw)"
    and "list_all (\<lambda>m. \<not> valid_login env dev password m) (received env evs cw)"
  shows "case handle_tcp env evs (connection_new dev password keypair now, w) of (r, (c, w')) \<Rightarrow>
    conn_state c \<noteq> ConnActive \<and> list_all quiet (effects c)"
  using password_needed [OF assms] .

theorem rd_password_required_witness:
  "case handle_tcp toy_env [Some (EvFrame [12])] (connection_new [49, 50] [112] ([8], [9]) 0, ()) of (r, (c, w')) \<Rightarrow>
    conn_state c \<noteq> ConnActive \<and> list_all quiet (effects c)"
  by (rule rd_password_required [where password = "[112]" and cw = "snd (tcp_start toy_env (connection_new [49, 50] [112] ([8], [9]) 0, ()))"])
    (simp, code_simp, code_simp)

end
