(* ===== verification/Rustdesk_Video.thy ===== *)
theory Rustdesk_Video
  imports Rustdesk_Connection Annexb "HOL-Library.Sublist"
begin

text \<open>
  The two tasks that feed a RustDesk connection: \<^verbatim>\<open>run_video_streaming\<close> and \<^verbatim>\<open>run_audio_streaming\<close> of
  \<^verbatim>\<open>src/src/rustdesk/connection.rs\<close> with the adapters of \<^verbatim>\<open>src/src/rustdesk/frame_adapters.rs\<close>.
  A run is driven by what its waits return: a list of subscriptions, each a list of what is received, with the value of the connection's
  state that the check before each wait reads. Times are milliseconds of the monotonic clock.
\<close>

section \<open>The video frame adapter\<close>

record video_adapter =
  va_codec :: rd_video_codec
  va_seq :: u32
  timestamp_base :: u64
  va_sps :: "bytes option"
  va_pps :: "bytes option"

definition video_adapter_new :: "rd_video_codec \<Rightarrow> video_adapter" where
  "video_adapter_new codec = \<lparr>va_codec = codec, va_seq = 0, timestamp_base = 0, va_sps = None, va_pps = None\<rparr>"

fun to_codec_id :: "rd_video_codec \<Rightarrow> int" where
  "to_codec_id RdH264 = 0"
| "to_codec_id RdH265 = 1"
| "to_codec_id RdVP8 = 2"
| "to_codec_id RdVP9 = 3"
| "to_codec_id RdAV1 = 4"

definition set_codec :: "rd_video_codec \<Rightarrow> video_adapter \<Rightarrow> video_adapter" where
  "set_codec codec a = a\<lparr>va_codec := codec\<rparr>"

definition remember :: "bytes option \<times> bytes option \<Rightarrow> video_adapter \<Rightarrow> video_adapter" where
  "remember found a =
     a\<lparr>va_sps := (if fst found \<noteq> None then fst found else va_sps a),
       va_pps := (if snd found \<noteq> None then snd found else va_pps a)\<rparr>"

definition prepare_h264_frame :: "bytes \<Rightarrow> bool \<Rightarrow> video_adapter \<Rightarrow> bytes \<times> video_adapter" where
  "prepare_h264_frame data key a =
     (if va_codec a \<noteq> RdH264 then (data, a)
      else
        let found = extract_sps_pps data; a = remember found a in
        if key \<and> (fst found = None \<or> snd found = None) then
          (case (va_sps a, va_pps a) of
             (Some sps, Some pps) \<Rightarrow> ([0, 0, 0, 1] @ sps @ [0, 0, 0, 1] @ pps @ data, a)
           | _ \<Rightarrow> (data, a))
        else (data, a))"

text \<open>The time is relative to the first frame; the subtraction wraps in a release build, and the signed time is the difference again.\<close>

definition encode_frame_from_bytes :: "bytes \<Rightarrow> bool \<Rightarrow> u64 \<Rightarrow> video_adapter \<Rightarrow> hbb_message \<times> video_adapter" where
  "encode_frame_from_bytes data key timestamp_ms a =
     (case prepare_h264_frame data key a of (data, a) \<Rightarrow>
        let a = (if va_seq a = 0 then a\<lparr>timestamp_base := timestamp_ms\<rparr> else a);
            pts = timestamp_ms - timestamp_base a
        in (MsgVideoFrame (va_codec a) [(data, key, pts)], a\<lparr>va_seq := va_seq a + 1\<rparr>))"

definition or_default :: "bytes option \<Rightarrow> bytes" where
  "or_default r = (case r of Some bs \<Rightarrow> bs | None \<Rightarrow> [])"

definition encode_frame_bytes_zero_copy :: "'w rd_env \<Rightarrow> bytes \<Rightarrow> bool \<Rightarrow> u64 \<Rightarrow> video_adapter \<Rightarrow> bytes \<times> video_adapter" where
  "encode_frame_bytes_zero_copy env data key timestamp_ms a =
     (case encode_frame_from_bytes data key timestamp_ms a of (msg, a) \<Rightarrow> (or_default (pb_encode env msg), a))"

section \<open>The video task\<close>

text \<open>\<^verbatim>\<open>EncodedVideoFrame\<close> with its sequence number in the pipeline.\<close>

record sequenced_frame = encoded_video_frame +
  evf_sequence :: u64

text \<open>What the task does to the outside; a message to the client is kept with the frame that it carries.\<close>

datatype video_effect =
    CodecSet video_codec_type
  | KeyframeAsked int
  | Subscribed
  | VideoSent sequenced_frame bytes

record video_stream =
  vs_adapter :: video_adapter
  waiting_for_keyframe :: bool
  last_sequence :: "u64 option"
  last_keyframe_request :: int
  vs_log :: "video_effect list"

fun rd_codec_of :: "video_encoder_type \<Rightarrow> rd_video_codec" where
  "rd_codec_of EncH264 = RdH264"
| "rd_codec_of EncH265 = RdH265"
| "rd_codec_of EncVP8 = RdVP8"
| "rd_codec_of EncVP9 = RdVP9"

definition video_stream_new :: "video_encoder_type \<Rightarrow> int \<Rightarrow> video_stream" where
  "video_stream_new negotiated now =
     \<lparr>vs_adapter = video_adapter_new (rd_codec_of negotiated), waiting_for_keyframe = True, last_sequence = None,
      last_keyframe_request = now - 1000, vs_log = [CodecSet (encoder_codec_to_video_codec negotiated)]\<rparr>"

definition saturating_succ :: "u64 \<Rightarrow> u64" where
  "saturating_succ n = (if n = - 1 then n else n + 1)"

definition gap_detected :: "sequenced_frame \<Rightarrow> video_stream \<Rightarrow> bool" where
  "gap_detected f s = (case last_sequence s of Some prev \<Rightarrow> saturating_succ prev < evf_sequence f | None \<Rightarrow> False)"

definition skip_frame :: "int \<Rightarrow> sequenced_frame \<Rightarrow> video_stream \<Rightarrow> video_stream" where
  "skip_frame now f s =
     (let s = (if gap_detected f s then s\<lparr>waiting_for_keyframe := True\<rparr> else s) in
      if 200 \<le> now - last_keyframe_request s
      then s\<lparr>vs_log := vs_log s @ [KeyframeAsked now], last_keyframe_request := now\<rparr> else s)"

text \<open>The result is whether the channel to the connection is still open.\<close>

definition forward_frame :: "'w rd_env \<Rightarrow> bool \<Rightarrow> sequenced_frame \<Rightarrow> video_stream \<Rightarrow> bool \<times> video_stream" where
  "forward_frame env channel_open f s =
     (case encode_frame_bytes_zero_copy env (frame_data f) (is_keyframe f) (pts_ms f) (vs_adapter s) of (bs, a) \<Rightarrow>
        let s = s\<lparr>vs_adapter := a\<rparr> in
        if channel_open then (True, s\<lparr>vs_log := vs_log s @ [VideoSent f bs], last_sequence := Some (evf_sequence f)\<rparr>)
        else (False, s))"

definition on_video_frame :: "'w rd_env \<Rightarrow> int \<Rightarrow> bool \<Rightarrow> sequenced_frame \<Rightarrow> video_stream \<Rightarrow> bool \<times> video_stream" where
  "on_video_frame env now channel_open f s =
     (if waiting_for_keyframe s \<or> gap_detected f s then
        if is_keyframe f then forward_frame env channel_open f (s\<lparr>waiting_for_keyframe := False\<rparr>)
        else (True, skip_frame now f s)
      else forward_frame env channel_open f s)"

text \<open>At the end of the list the task still waits (\<open>Pending\<close>).\<close>

datatype video_recv = VideoShutdown | VideoClosed | VideoFrame int bool sequenced_frame
datatype loop_end = Stopped | Resubscribe | Pending

fun video_receive :: "'w rd_env \<Rightarrow> (bool \<times> video_recv) list \<Rightarrow> video_stream \<Rightarrow> loop_end \<times> video_stream" where
  "video_receive env [] s = (Pending, s)"
| "video_receive env ((active, r) # rs) s =
     (if \<not> active then (Stopped, s)
      else case r of
        VideoShutdown \<Rightarrow> (Stopped, s)
      | VideoClosed \<Rightarrow> (Resubscribe, s)
      | VideoFrame now channel_open f \<Rightarrow>
          (case on_video_frame env now channel_open f s of
             (True, s) \<Rightarrow> video_receive env rs s
           | (False, s) \<Rightarrow> (Stopped, s)))"

text \<open>One element per turn of the outer loop: the state read, and the subscription if there is one; the request for a key frame after it
  does not touch the time of the last request.\<close>

fun run_video_streaming :: "'w rd_env \<Rightarrow> (bool \<times> (bool \<times> video_recv) list option) list \<Rightarrow> video_stream \<Rightarrow> loop_end \<times> video_stream" where
  "run_video_streaming env [] s = (Pending, s)"
| "run_video_streaming env ((active, subscription) # rest) s =
     (if \<not> active then (Stopped, s)
      else case subscription of
        None \<Rightarrow> run_video_streaming env rest s
      | Some rs \<Rightarrow>
          (case video_receive env rs (s\<lparr>vs_log := vs_log s @ [Subscribed]\<rparr>) of
             (Resubscribe, s) \<Rightarrow> run_video_streaming env rest s
           | r \<Rightarrow> r))"

section \<open>The audio task\<close>

record audio_adapter =
  sample_rate :: u32
  audio_channels :: u8
  format_sent :: bool

definition audio_adapter_new :: "u32 \<Rightarrow> u8 \<Rightarrow> audio_adapter" where
  "audio_adapter_new rate ch = \<lparr>sample_rate = rate, audio_channels = ch, format_sent = False\<rparr>"

definition create_format_message :: "audio_adapter \<Rightarrow> hbb_message \<times> audio_adapter" where
  "create_format_message a = (MsgMisc (Some (AudioFormatMisc (sample_rate a) (ucast (audio_channels a)))), a\<lparr>format_sent := True\<rparr>)"

definition encode_opus_frame :: "bytes \<Rightarrow> hbb_message" where
  "encode_opus_frame data = MsgAudioFrame data"

definition audio_reset :: "audio_adapter \<Rightarrow> audio_adapter" where
  "audio_reset a = a\<lparr>format_sent := False\<rparr>"

text \<open>A message is kept with its bytes; \<open>AudioFrame value channel_open\<close> is a change of the watched frame.\<close>

datatype audio_effect = AudioSubscribed | AudioSent hbb_message bytes
datatype audio_recv = AudioShutdown | AudioClosed | AudioFrame "bytes option" bool

definition send_audio :: "'w rd_env \<Rightarrow> hbb_message \<Rightarrow> audio_effect" where
  "send_audio env m = AudioSent m (or_default (pb_encode env m))"

fun audio_receive :: "'w rd_env \<Rightarrow> (bool \<times> audio_recv) list \<Rightarrow> audio_effect list \<Rightarrow> loop_end \<times> audio_effect list" where
  "audio_receive env [] log = (Pending, log)"
| "audio_receive env ((active, r) # rs) log =
     (if \<not> active then (Stopped, log)
      else case r of
        AudioShutdown \<Rightarrow> (Stopped, log)
      | AudioClosed \<Rightarrow> (Resubscribe, log)
      | AudioFrame None _ \<Rightarrow> audio_receive env rs log
      | AudioFrame (Some data) channel_open \<Rightarrow>
          if channel_open then audio_receive env rs (log @ [send_audio env (encode_opus_frame data)]) else (Stopped, log))"

text \<open>A turn of the outer loop: the state read, and for a subscription whether the channel takes the format message, and what is received.\<close>

fun run_audio_streaming ::
  "'w rd_env \<Rightarrow> (bool \<times> (bool \<times> (bool \<times> audio_recv) list) option) list \<Rightarrow> audio_adapter \<Rightarrow> audio_effect list \<Rightarrow> loop_end \<times> audio_effect list" where
  "run_audio_streaming env [] a log = (Pending, log)"
| "run_audio_streaming env ((active, subscription) # rest) a log =
     (if \<not> active then (Stopped, log)
      else case subscription of
        None \<Rightarrow> run_audio_streaming env rest a log
      | Some (channel_open, rs) \<Rightarrow>
          if \<not> format_sent a \<and> \<not> channel_open then (Stopped, log @ [AudioSubscribed])
          else
            let (format, a') = (if format_sent a then ([], a) else case create_format_message a of (m, a') \<Rightarrow> ([send_audio env m], a'))
            in case audio_receive env rs (log @ [AudioSubscribed] @ format) of
              (Resubscribe, log) \<Rightarrow> run_audio_streaming env rest (audio_reset a') log
            | r \<Rightarrow> r)"

section \<open>What the client can decode\<close>

definition sent_frames :: "video_effect list \<Rightarrow> sequenced_frame list" where
  "sent_frames log = List.map_filter (\<lambda>e. case e of VideoSent f _ \<Rightarrow> Some f | _ \<Rightarrow> None) log"

definition asked_times :: "video_effect list \<Rightarrow> int list" where
  "asked_times log = List.map_filter (\<lambda>e. case e of KeyframeAsked t \<Rightarrow> Some t | _ \<Rightarrow> None) log"

lemma sent_frames_simps [simp]:
  "sent_frames [] = []" "sent_frames (xs @ ys) = sent_frames xs @ sent_frames ys"
  "sent_frames (VideoSent f bs # es) = f # sent_frames es" "sent_frames (Subscribed # es) = sent_frames es"
  "sent_frames (CodecSet c # es) = sent_frames es" "sent_frames (KeyframeAsked t # es) = sent_frames es"
  by (simp_all add: sent_frames_def List.map_filter_def)

lemma asked_times_simps [simp]:
  "asked_times [] = []" "asked_times (xs @ ys) = asked_times xs @ asked_times ys"
  "asked_times (VideoSent f bs # es) = asked_times es" "asked_times (Subscribed # es) = asked_times es"
  "asked_times (CodecSet c # es) = asked_times es" "asked_times (KeyframeAsked t # es) = t # asked_times es"
  by (simp_all add: asked_times_def List.map_filter_def)

text \<open>What a run receives.\<close>

definition frames_in :: "(bool \<times> video_recv) list \<Rightarrow> sequenced_frame list" where
  "frames_in rs = List.map_filter (\<lambda>(_, r). case r of VideoFrame _ _ f \<Rightarrow> Some f | _ \<Rightarrow> None) rs"

definition run_frames :: "(bool \<times> (bool \<times> video_recv) list option) list \<Rightarrow> sequenced_frame list" where
  "run_frames subs = concat (map (\<lambda>(_, sub). case sub of Some rs \<Rightarrow> frames_in rs | None \<Rightarrow> []) subs)"

lemma frames_in_simps [simp]:
  "frames_in [] = []" "frames_in ((a, VideoShutdown) # rs) = frames_in rs" "frames_in ((a, VideoClosed) # rs) = frames_in rs"
  "frames_in ((a, VideoFrame now op f) # rs) = f # frames_in rs"
  by (simp_all add: frames_in_def List.map_filter_def)

definition follows :: "sequenced_frame \<Rightarrow> sequenced_frame \<Rightarrow> bool" where
  "follows p f \<longleftrightarrow> is_keyframe f \<or> evf_sequence f = evf_sequence p + 1"

definition decodable :: "sequenced_frame list \<Rightarrow> bool" where
  "decodable fs \<longleftrightarrow> list_all is_keyframe (take 1 fs) \<and> successively follows fs"

definition spaced :: "int list \<Rightarrow> bool" where
  "spaced ts \<longleftrightarrow> successively (\<lambda>t t'. t + 200 \<le> t') ts"

definition log_ok :: "video_stream \<Rightarrow> bool" where
  "log_ok s \<longleftrightarrow>
     decodable (sent_frames (vs_log s)) \<and> spaced (asked_times (vs_log s)) \<and>
     last_sequence s = (if sent_frames (vs_log s) = [] then None else Some (evf_sequence (last (sent_frames (vs_log s))))) \<and>
     (asked_times (vs_log s) \<noteq> [] \<longrightarrow> last_keyframe_request s = last (asked_times (vs_log s)))"

definition stream_ok :: "video_stream \<Rightarrow> bool" where
  "stream_ok s \<longleftrightarrow> log_ok s \<and> (last_sequence s = None \<longrightarrow> waiting_for_keyframe s)"

definition newer :: "video_stream \<Rightarrow> sequenced_frame list \<Rightarrow> bool" where
  "newer s fs \<longleftrightarrow> sorted_wrt (<) (map evf_sequence fs) \<and> (\<forall>p f. last_sequence s = Some p \<longrightarrow> f \<in> set fs \<longrightarrow> p < evf_sequence f)"

lemma next_word: "p < q \<Longrightarrow> q \<le> saturating_succ p \<Longrightarrow> q = p + 1"
  by (auto simp: saturating_succ_def dest: inc_le split: if_splits)

lemma decodable_snoc:
  "decodable (fs @ [f]) \<longleftrightarrow> decodable fs \<and> (if fs = [] then is_keyframe f else follows (last fs) f)"
proof (cases "fs = []")
  case False
  then have "take 1 (fs @ [f]) = take 1 fs" by (cases fs) simp_all
  then show ?thesis using False by (simp add: decodable_def successively_append_iff conj_assoc)
qed (simp add: decodable_def)

lemma spaced_snoc: "spaced (ts @ [t]) \<longleftrightarrow> spaced ts \<and> (ts = [] \<or> last ts + 200 \<le> t)"
  by (auto simp: spaced_def successively_append_iff)

lemma newer_tl: "newer s (f # fs) \<Longrightarrow> last_sequence s' = last_sequence s \<or> last_sequence s' = Some (evf_sequence f) \<Longrightarrow> newer s' fs"
  by (auto simp: newer_def)

lemma forward_frame_ok:
  assumes "log_ok s" and "newer s (f # fs)" and "forward_frame env op f s = (r, s')"
    and "is_keyframe f \<or> (\<exists>p. last_sequence s = Some p \<and> evf_sequence f = p + 1)"
  shows "log_ok s' \<and> (r \<longrightarrow> stream_ok s' \<and> newer s' fs)"
proof -
  obtain bs a where e: "encode_frame_bytes_zero_copy env (frame_data f) (is_keyframe f) (pts_ms f) (vs_adapter s) = (bs, a)"
    by (metis prod.collapse)
  have next_frame: "if sent_frames (vs_log s) = [] then is_keyframe f else follows (last (sent_frames (vs_log s))) f"
    using assms(1,4) by (auto simp: log_ok_def follows_def split: if_splits)
  have s': "s' = (if op then s\<lparr>vs_adapter := a, vs_log := vs_log s @ [VideoSent f bs], last_sequence := Some (evf_sequence f)\<rparr> else s\<lparr>vs_adapter := a\<rparr>)"
    and r: "r = op"
    using assms(3) by (auto simp: forward_frame_def e Let_def split: if_splits)
  have "log_ok s'" using assms(1) next_frame by (cases op) (simp_all add: s' log_ok_def decodable_snoc)
  moreover have "newer s' fs" by (rule newer_tl [OF assms(2)]) (simp add: s')
  ultimately show ?thesis by (cases op) (auto simp: stream_ok_def s' r)
qed

lemma skip_frame_ok:
  assumes "stream_ok s" and "newer s (f # fs)"
  shows "stream_ok (skip_frame now f s) \<and> newer (skip_frame now f s) fs"
proof
  show "newer (skip_frame now f s) fs" by (rule newer_tl [OF assms(2)]) (simp add: skip_frame_def Let_def)
  show "stream_ok (skip_frame now f s)"
    using assms(1) by (auto simp: skip_frame_def stream_ok_def log_ok_def spaced_snoc Let_def)
qed

lemma on_video_frame_ok:
  assumes "stream_ok s" and "newer s (f # fs)" and "on_video_frame env now op f s = (r, s')"
  shows "log_ok s' \<and> (r \<longrightarrow> stream_ok s' \<and> newer s' fs)"
proof (cases "waiting_for_keyframe s \<or> gap_detected f s")
  case True
  show ?thesis
  proof (cases "is_keyframe f")
    case key: True
    have "log_ok (s\<lparr>waiting_for_keyframe := False\<rparr>)" "newer (s\<lparr>waiting_for_keyframe := False\<rparr>) (f # fs)"
      using assms(1,2) by (simp_all add: stream_ok_def log_ok_def newer_def)
    from forward_frame_ok [OF this] show ?thesis using True key assms(3) by (simp add: on_video_frame_def)
  next
    case False
    then show ?thesis using True assms(3) skip_frame_ok [OF assms(1,2), of now] by (auto simp: on_video_frame_def stream_ok_def)
  qed
next
  case False
  then obtain p where p: "last_sequence s = Some p" "evf_sequence f \<le> saturating_succ p"
    using assms(1) by (cases "last_sequence s") (auto simp: stream_ok_def gap_detected_def not_less)
  moreover have "p < evf_sequence f" using assms(2) p(1) by (simp add: newer_def)
  ultimately have "evf_sequence f = p + 1" by (intro next_word)
  then show ?thesis
    using False forward_frame_ok [OF _ assms(2), of env op r s'] assms(1,3) p(1) by (simp add: on_video_frame_def stream_ok_def)
qed

lemma newer_append: "newer s (fs @ gs) \<Longrightarrow> newer s gs"
  by (auto simp: newer_def sorted_wrt_append)

lemma video_receive_ok:
  assumes "stream_ok s" and "newer s (frames_in rs @ later)" and "video_receive env rs s = (e, s')"
  shows "log_ok s' \<and> (e = Resubscribe \<longrightarrow> stream_ok s' \<and> newer s' later)"
  using assms
proof (induction rs arbitrary: s)
  case (Cons x rs)
  obtain active r where x: "x = (active, r)" by (cases x)
  show ?case
  proof (cases "active \<and> (\<exists>now op f. r = VideoFrame now op f)")
    case True
    then obtain now op f where r: "r = VideoFrame now op f" by auto
    obtain go s1 where t: "on_video_frame env now op f s = (go, s1)" by (metis prod.collapse)
    from on_video_frame_ok [OF Cons.prems(1) _ t, of "frames_in rs @ later"] Cons.prems(2)
    have "log_ok s1 \<and> (go \<longrightarrow> stream_ok s1 \<and> newer s1 (frames_in rs @ later))" by (simp add: x r)
    then show ?thesis using Cons.IH [of s1] Cons.prems(3) True t by (cases go) (auto simp: x r)
  next
    case False
    then show ?thesis using Cons.prems newer_append [of s "frames_in rs" later]
      by (cases r) (auto simp: x stream_ok_def split: if_splits)
  qed
qed (simp add: stream_ok_def)

lemma run_video_ok:
  "stream_ok s \<Longrightarrow> newer s (run_frames subs) \<Longrightarrow> log_ok (snd (run_video_streaming env subs s))"
proof (induction subs arbitrary: s)
  case (Cons x subs)
  obtain active sub where x: "x = (active, sub)" by (cases x)
  show ?case
  proof (cases "active \<and> sub \<noteq> None")
    case True
    then obtain rs where sub: "sub = Some rs" by auto
    define s0 where "s0 = s\<lparr>vs_log := vs_log s @ [Subscribed]\<rparr>"
    obtain e s1 where t: "video_receive env rs s0 = (e, s1)" by (metis prod.collapse)
    have "stream_ok s0" "newer s0 (frames_in rs @ run_frames subs)"
      using Cons.prems by (simp_all add: s0_def stream_ok_def log_ok_def newer_def run_frames_def x sub)
    from video_receive_ok [OF this t] show ?thesis
      using Cons.IH [of s1] True by (cases e) (simp_all add: x sub t s0_def [symmetric])
  next
    case False
    then show ?thesis using Cons by (auto simp: x run_frames_def stream_ok_def)
  qed
qed (simp add: stream_ok_def)

text \<open>C29: The frames that a client is sent. As long as the sequence numbers of the frames that the task receives increase (which they do within one pipeline; a pipeline
  that is started again numbers from the beginning, and then this does not hold, see \<open>restart_forwards_delta\<close>), the frames that it sends begin
  with a key frame, and each later one is a key frame or has the number after that of the one before: no delta frame is sent without the frame before it. This is
  so however many frames are lost before the task and however often it subscribes again; and the key frames that it asks for because it skips frames are at least 200 ms apart.\<close>

theorem rd_video_decodable:
  assumes "sorted_wrt (<) (map evf_sequence (run_frames subs))"
  shows "case run_video_streaming env subs (video_stream_new negotiated now) of
    (e, s) \<Rightarrow> decodable (sent_frames (vs_log s)) \<and> spaced (asked_times (vs_log s))"
proof -
  have "stream_ok (video_stream_new negotiated now)" "newer (video_stream_new negotiated now) (run_frames subs)"
    using assms by (simp_all add: video_stream_new_def stream_ok_def log_ok_def newer_def decodable_def spaced_def)
  from run_video_ok [OF this, of env] show ?thesis
    by (cases "run_video_streaming env subs (video_stream_new negotiated now)") (simp add: log_ok_def)
qed

theorem rd_video_decodable_witness:
  "case run_video_streaming undefined [(True, Some [(True, VideoFrame 0 True \<lparr>frame_data = [], pts_ms = 0, is_keyframe = True, frame_duration = 0,
      frame_codec_type = EncH265, evf_sequence = 3\<rparr>)])] (video_stream_new EncH265 0) of
    (e, s) \<Rightarrow> decodable (sent_frames (vs_log s)) \<and> spaced (asked_times (vs_log s))"
  by (rule rd_video_decodable) (simp add: run_frames_def)

text \<open>After a restart of the pipeline, whose numbers begin again, nothing waits for a key frame: a delta frame of the new pipeline is sent
  after the frames of the old one.\<close>

lemma restart_forwards_delta:
  assumes "is_keyframe k" and "\<not> is_keyframe d" and "evf_sequence d \<le> saturating_succ (evf_sequence k)"
  shows "sent_frames (vs_log (snd (run_video_streaming env
      [(True, Some [(True, VideoFrame t True k), (True, VideoClosed)]), (True, Some [(True, VideoFrame t' True d)])]
      (video_stream_new negotiated now)))) = [k, d]"
  using assms(1,2) assms(3) [folded not_less]
  by (auto simp: on_video_frame_def forward_frame_def video_stream_new_def gap_detected_def Let_def split: prod.splits)

section \<open>Key frames with their parameter sets\<close>

text \<open>The adapter over a stream of H.264 frames, each a list of NAL units.\<close>

fun prepare_frames :: "((bool \<times> bytes) list \<times> bool) list \<Rightarrow> video_adapter \<Rightarrow> video_adapter" where
  "prepare_frames [] a = a"
| "prepare_frames ((us, key) # fs) a = prepare_frames fs (snd (prepare_h264_frame (annexb us) key a))"

definition last_unit :: "u8 \<Rightarrow> (bool \<times> bytes) list \<Rightarrow> bytes option" where
  "last_unit t us = (let xs = filter (\<lambda>u. unit_type u = t) us in if xs = [] then None else Some (snd (last xs)))"

lemma last_unit_append: "last_unit t (us @ vs) = (if last_unit t vs \<noteq> None then last_unit t vs else last_unit t us)"
  by (simp add: last_unit_def Let_def)

lemma last_unit_Nil [simp]: "last_unit t [] = None"
  by (simp add: last_unit_def)

lemma last_unit_SomeD: "last_unit t us = Some nal \<Longrightarrow> \<exists>four. (four, nal) \<in> set us \<and> unit_type (four, nal) = t"
proof -
  assume a: "last_unit t us = Some nal"
  define u where "u = last (filter (\<lambda>u. unit_type u = t) us)"
  have ne: "filter (\<lambda>u. unit_type u = t) us \<noteq> []" and nal: "snd u = nal"
    using a by (auto simp: last_unit_def Let_def u_def split: if_splits)
  have "u \<in> set (filter (\<lambda>u. unit_type u = t) us)" unfolding u_def by (rule last_in_set [OF ne])
  then show ?thesis using nal by (intro exI [of _ "fst u"]) (cases u, auto)
qed

lemma extract_units: "good_units us \<Longrightarrow> extract_sps_pps (annexb us) = (last_unit 7 us, last_unit 8 us)"
  by (cases "filter (\<lambda>u. unit_type u = 7) us"; cases "filter (\<lambda>u. unit_type u = 8) us")
    (simp_all add: extract_sps_pps_def extract_loop_annexb last_unit_def last_map)

lemma prepare_codec [simp]: "va_codec (snd (prepare_h264_frame data key a)) = va_codec a"
  by (auto simp: prepare_h264_frame_def remember_def Let_def split: option.splits)

lemma prepare_sets:
  assumes "va_codec a = RdH264" and "good_units us"
    and "va_sps a = last_unit 7 past" and "va_pps a = last_unit 8 past"
  shows "va_sps (snd (prepare_h264_frame (annexb us) key a)) = last_unit 7 (past @ us)"
    and "va_pps (snd (prepare_h264_frame (annexb us) key a)) = last_unit 8 (past @ us)"
  using assms by (auto simp: prepare_h264_frame_def extract_units remember_def last_unit_append Let_def split: option.splits)

lemma prepare_frames_sets:
  assumes "va_codec a = RdH264" and "good_units (concat (map fst fs))"
    and "va_sps a = last_unit 7 past" and "va_pps a = last_unit 8 past"
  shows "va_codec (prepare_frames fs a) = RdH264 \<and>
    va_sps (prepare_frames fs a) = last_unit 7 (past @ concat (map fst fs)) \<and>
    va_pps (prepare_frames fs a) = last_unit 8 (past @ concat (map fst fs))"
  using assms
proof (induction fs arbitrary: a past)
  case (Cons f fs)
  obtain us key where f: "f = (us, key)" by (cases f)
  show ?case
    using Cons.IH [of "snd (prepare_h264_frame (annexb us) key a)" "past @ us"] Cons.prems prepare_sets [of a us past key]
    by (simp add: f)
qed simp

text \<open>A decoder can start at every key frame. For any stream of well-formed H.264 frames, once a sequence and a picture parameter set have been seen,
  each key frame that the adapter hands on contains, in the eyes of the scanner, the last ones of the stream, and ends with the frame that it was given;
  a frame that is not a key frame is not changed.\<close>

theorem rd_keyframe_sets:
  assumes "\<forall>u \<in> set (concat (map fst fs) @ us). nal_ok (snd u)"
    and "last_unit 7 (concat (map fst fs) @ us) = Some sps" and "last_unit 8 (concat (map fst fs) @ us) = Some pps"
  shows "(case prepare_h264_frame (annexb us) True (prepare_frames fs (video_adapter_new RdH264)) of
      (out, a) \<Rightarrow> extract_sps_pps out = (Some sps, Some pps) \<and> suffix (annexb us) out) \<and>
    fst (prepare_h264_frame (annexb us) False (prepare_frames fs (video_adapter_new RdH264))) = annexb us"
proof -
  define a where "a = prepare_frames fs (video_adapter_new RdH264)"
  have a: "va_codec a = RdH264" "va_sps a = last_unit 7 (concat (map fst fs))" "va_pps a = last_unit 8 (concat (map fst fs))"
    using prepare_frames_sets [of "video_adapter_new RdH264" fs "[]"] assms(1) by (simp_all add: a_def video_adapter_new_def)
  have us: "good_units us" using assms(1) by simp
  note e = extract_units [OF us]
  have known: "va_sps (remember (last_unit 7 us, last_unit 8 us) a) = Some sps" "va_pps (remember (last_unit 7 us, last_unit 8 us) a) = Some pps"
    using assms(2,3) a by (simp_all add: remember_def last_unit_append split: if_splits)
  let ?vs = "(True, sps) # (True, pps) # us"
  have units: "nal_ok sps" "unit_type (True, sps) = 7" "nal_ok pps" "unit_type (True, pps) = 8"
    using last_unit_SomeD [OF assms(2)] last_unit_SomeD [OF assms(3)] bspec [OF assms(1)] by (metis snd_conv, metis unit_type_pair, metis snd_conv, metis unit_type_pair)
  have vs: "annexb ?vs = [0, 0, 0, 1] @ sps @ [0, 0, 0, 1] @ pps @ annexb us" by (simp add: code_def CODE4_def)
  have pair: "last_unit 7 [(True, sps), (True, pps)] = Some sps" "last_unit 8 [(True, sps), (True, pps)] = Some pps"
    using units by (simp_all add: last_unit_def)
  have found: "last_unit 7 us = None \<or> last_unit 7 us = Some sps" "last_unit 8 us = None \<or> last_unit 8 us = Some pps"
    using assms(2,3) by (auto simp: last_unit_append split: if_splits)
  have "extract_sps_pps (annexb ?vs) = (Some sps, Some pps)"
    using extract_units [of ?vs] units us found pair last_unit_append [of _ "[(True, sps), (True, pps)]" us] by auto
  then have inside: "extract_sps_pps ([0, 0, 0, 1] @ sps @ [0, 0, 0, 1] @ pps @ annexb us) = (Some sps, Some pps)"
    unfolding vs .
  have "prepare_h264_frame (annexb us) True a =
      (if last_unit 7 us = None \<or> last_unit 8 us = None then [0, 0, 0, 1] @ sps @ [0, 0, 0, 1] @ pps @ annexb us else annexb us,
       remember (last_unit 7 us, last_unit 8 us) a)"
    using known by (cases "last_unit 7 us"; cases "last_unit 8 us") (simp_all add: prepare_h264_frame_def a(1) e Let_def)
  moreover have "fst (prepare_h264_frame (annexb us) False a) = annexb us"
    by (simp add: prepare_h264_frame_def)
  moreover have "suffix (annexb us) ([0, 0, 0, 1] @ sps @ [0, 0, 0, 1] @ pps @ annexb us)"
    by (rule suffixI [of _ "[0, 0, 0, 1] @ sps @ [0, 0, 0, 1] @ pps"]) simp
  ultimately show ?thesis
    using inside found e by (auto simp: a_def [symmetric] split: if_splits)
qed

theorem rd_keyframe_sets_witness:
  "case prepare_h264_frame (annexb [(True, [0x65, 0x88])]) True
      (prepare_frames [([(True, [0x67, 0x42]), (False, [0x68, 0xce])], False)] (video_adapter_new RdH264)) of
    (out, a) \<Rightarrow> extract_sps_pps out = (Some [0x67, 0x42], Some [0x68, 0xce]) \<and>
      suffix (annexb [(True, [0x65, 0x88])]) out"
  by (rule rd_keyframe_sets [THEN conjunct1]) (simp_all add: nal_ok_def last_unit_def unit_type_def)

section \<open>The format before the sound\<close>

text \<open>Whether each frame comes after a format message of the same subscription.\<close>

fun format_first :: "bool \<Rightarrow> audio_effect list \<Rightarrow> bool" where
  "format_first known [] \<longleftrightarrow> True"
| "format_first known (AudioSubscribed # es) \<longleftrightarrow> format_first False es"
| "format_first known (AudioSent (MsgMisc m) bs # es) \<longleftrightarrow> format_first True es"
| "format_first known (AudioSent m bs # es) \<longleftrightarrow> known \<and> format_first known es"

fun format_known :: "bool \<Rightarrow> audio_effect list \<Rightarrow> bool" where
  "format_known known [] \<longleftrightarrow> known"
| "format_known known (AudioSubscribed # es) \<longleftrightarrow> format_known False es"
| "format_known known (AudioSent (MsgMisc m) bs # es) \<longleftrightarrow> format_known True es"
| "format_known known (AudioSent m bs # es) \<longleftrightarrow> format_known known es"

lemma format_first_append: "format_first known (xs @ ys) \<longleftrightarrow> format_first known xs \<and> format_first (format_known known xs) ys"
  by (induction known xs rule: format_known.induct) auto

lemma format_known_append: "format_known known (xs @ ys) = format_known (format_known known xs) ys"
  by (induction known xs rule: format_known.induct) auto

lemma audio_receive_ok:
  "format_first False log \<Longrightarrow> format_known False log \<Longrightarrow> audio_receive env rs log = (e, log') \<Longrightarrow> format_first False log'"
proof (induction env rs log rule: audio_receive.induct)
  case (2 env active r rs log)
  then show ?case
    by (cases r) (auto simp: send_audio_def encode_opus_frame_def format_first_append format_known_append split: if_splits option.splits)
qed simp

lemma run_audio_ok:
  "format_first False log \<Longrightarrow> \<not> format_sent a \<Longrightarrow> format_first False (snd (run_audio_streaming env subs a log))"
proof (induction subs arbitrary: a log)
  case (Cons x subs)
  obtain active sub where x: "x = (active, sub)" by (cases x)
  show ?case
  proof (cases "active \<and> (\<exists>rs. sub = Some (True, rs))")
    case True
    then obtain rs where sub: "sub = Some (True, rs)" by auto
    define log1 where "log1 = log @ [AudioSubscribed, send_audio env (fst (create_format_message a))]"
    have "format_first False log1" "format_known False log1"
      using Cons.prems(1) by (simp_all add: log1_def format_first_append format_known_append send_audio_def create_format_message_def)
    moreover obtain e log2 where t: "audio_receive env rs log1 = (e, log2)" by (metis prod.collapse)
    ultimately have "format_first False log2" by (rule audio_receive_ok)
    then show ?thesis
      using Cons.IH [of log2 "audio_reset (snd (create_format_message a))"] True Cons.prems(2) t
      by (cases e) (simp_all add: x sub log1_def create_format_message_def audio_reset_def)
  next
    case False
    then show ?thesis using Cons by (auto simp: x format_first_append split: option.splits)
  qed
qed simp

text \<open>The client knows the format of the sound: whatever the task meets, every audio frame that it sends comes after a format message sent in the
  same subscription.\<close>

theorem rd_audio_format_first:
  "format_first False (snd (run_audio_streaming env subs (audio_adapter_new rate ch) []))"
  by (rule run_audio_ok) (simp_all add: audio_adapter_new_def)

end
