(* ===== verification/Spec2Isabelle.thy ===== *)
theory Spec2Isabelle
  imports Kvm_Prelude Rustdesk_Codec Hid_Types Hid_Channel Ch9329_Protocol Ch9329_Backend Ch9329_Races
    Image_File Ventoy_Partition Exfat_Unicode Exfat_Format Exfat_Fat Exfat_Volume Exfat_Dir Exfat_Dir_Spec
    Exfat_Ops Exfat_Ops_Spec Exfat_Open Exfat_List Ventoy_Image
    Rust_String Annexb H265_Payloader Rtsp_Service Otg_Backend Otg_Health Codec_Constraints Hid_Controller Hid_Wire
    Rustdesk_Hid Rustdesk_Connection Rustdesk_Session Rustdesk_Client Rustdesk_Video
begin

text \<open>
  A verification development for One-KVM, a KVM over IP in Rust: it captures the screen of a machine, streams it to browsers, RTSP players and
  RustDesk clients, and feeds their keyboards and mice to the machine through a USB gadget or a CH9329 serial chip; a library beside it writes
  bootable disk images. The theories translate the parts of the program with logic of their own. What is not translated is at the end.

  \<^bold>\<open>Input, from a client to the machine\<close> (\<^verbatim>\<open>src/src/hid\<close>).
  \<^item> \<^verbatim>\<open>Hid_Types\<close>: \<^verbatim>\<open>keyboard.rs\<close>, \<^verbatim>\<open>types.rs\<close>, \<^verbatim>\<open>consumer.rs\<close>; canonical keys and their codes, modifiers, events, the keyboard report with its six slots.
  \<^item> \<^verbatim>\<open>Hid_Channel\<close>: \<^verbatim>\<open>datachannel.rs\<close>; the binary messages of browsers, parsed and built.
  \<^item> \<^verbatim>\<open>Rustdesk_Hid\<close>: \<^verbatim>\<open>rustdesk/hid_adapter.rs\<close> and the input part of \<^verbatim>\<open>rustdesk/connection.rs\<close>; RustDesk messages as events, the throttle.
  \<^item> \<^verbatim>\<open>Hid_Controller\<close>: \<^verbatim>\<open>mod.rs\<close>, \<^verbatim>\<open>backend.rs\<close>; the queue of 64 events, its waiting senders and pending move, the worker, the shown state, reloads;
    over a record of the methods of a backend. The order of the queue, and that it loses only what a sender gave up on.
  \<^item> \<^verbatim>\<open>Otg_Backend\<close>, \<^verbatim>\<open>Otg_Health\<close>: \<^verbatim>\<open>otg.rs\<close>; the gadget backend and its monitor over an operating system that answers call by call. It refines a state
    machine of reports; types of the reports on the wire; errors, recovery and announcements of the status.
  \<^item> \<^verbatim>\<open>Hid_Wire\<close>: the controller in front of the gadget backend; a release that was accepted is final at the wire.
  \<^item> \<^verbatim>\<open>Ch9329_Protocol\<close>, \<^verbatim>\<open>Ch9329_Backend\<close>: \<^verbatim>\<open>ch9329.rs\<close>; packets, the scanner that finds responses in a noisy line, transfers, the worker with its
    reconnect loop, the operations of the backend as whole actions. \<^verbatim>\<open>Ch9329_Races\<close>: the same status taken apart into its single accesses, any number of threads
    and the reader of the controller interleaved: no change of the status is lost.

  \<^bold>\<open>RustDesk\<close> (\<^verbatim>\<open>src/src/rustdesk\<close>).
  \<^item> \<^verbatim>\<open>Rustdesk_Codec\<close>: \<^verbatim>\<open>bytes_codec.rs\<close>; the framing, encoded and decoded in any chunks.
  \<^item> \<^verbatim>\<open>Rustdesk_Connection\<close>: \<^verbatim>\<open>connection.rs\<close>, with the hashes of \<^verbatim>\<open>crypto.rs\<close>; one connection with every message handler and the loop, in a state and error
    monad over the protobuf codec, libsodium, the clock and the managers. \<^verbatim>\<open>Rustdesk_Session\<close>: what a course of it keeps: the sequence
    of nonces, what is sealed, that nothing reaches the machine without the password. \<^verbatim>\<open>Rustdesk_Client\<close>: the connection seen by a client: the login
    succeeds, the messages come through, what reads lose that the \<open>select!\<close> cancels.
  \<^item> \<^verbatim>\<open>Rustdesk_Video\<close>: the video and audio tasks of \<^verbatim>\<open>connection.rs\<close> and \<^verbatim>\<open>frame_adapters.rs\<close>; which frames are sent, with which parameter sets and formats.

  \<^bold>\<open>Video\<close>.
  \<^item> \<^verbatim>\<open>Annexb\<close>: the scanners of \<^verbatim>\<open>webrtc/rtp.rs\<close> and \<^verbatim>\<open>rtsp/service.rs\<close>; \<^verbatim>\<open>H265_Payloader\<close>: \<^verbatim>\<open>webrtc/h265_payloader.rs\<close>, against a receiver of RFC 7798.
  \<^item> \<^verbatim>\<open>Rtsp_Service\<close>: \<^verbatim>\<open>rtsp/service.rs\<close>; requests, the connection, the one-client rule with the accept loop, session descriptions, the interleaved stream.
  \<^item> \<^verbatim>\<open>Codec_Constraints\<close>: \<^verbatim>\<open>video/codec_constraints.rs\<close> with the codec change of \<^verbatim>\<open>webrtc/webrtc_streamer.rs\<close> and the mode switch of
    \<^verbatim>\<open>video/stream_manager.rs\<close>, whose task goes on while the enforcement waits.

  \<^bold>\<open>Disk images\<close> (\<^verbatim>\<open>src/libs/ventoy-img-rs/src\<close>).
  \<^item> \<^verbatim>\<open>Image_File\<close>: a file as bytes and position. \<^verbatim>\<open>Ventoy_Partition\<close>: \<^verbatim>\<open>partition.rs\<close>, layout and MBR.
  \<^item> \<^verbatim>\<open>Exfat_Format\<close>, \<^verbatim>\<open>Exfat_Unicode\<close>: formatting, names and case folding. \<^verbatim>\<open>Exfat_Fat\<close>, \<^verbatim>\<open>Exfat_Dir\<close>, \<^verbatim>\<open>Exfat_Ops\<close>: \<^verbatim>\<open>exfat/ops.rs\<close> from clusters to files,
    readers and writers, on the bytes of the disk with the caches of the code.
  \<^item> \<^verbatim>\<open>Exfat_Volume\<close>, \<^verbatim>\<open>Exfat_Dir_Spec\<close>, \<^verbatim>\<open>Exfat_List\<close>, \<^verbatim>\<open>Exfat_Ops_Spec\<close>: the abstract layers (a volume is a FAT and cluster contents, a directory a list of entry sets, a
    file a list of bytes) and the refinements to them. \<^verbatim>\<open>Exfat_Open\<close>, \<^verbatim>\<open>Ventoy_Image\<close>: what is formatted opens; the image as a whole
    (\<^verbatim>\<open>resources.rs\<close>, \<^verbatim>\<open>image.rs\<close>).

  \<^bold>\<open>How the code is written here.\<close> Structs are records, enums datatypes, machine integers words of their width (\<^verbatim>\<open>Kvm_Prelude\<close>, which also has little-endian
  bytes, slices and the monad of a state and an error; \<^verbatim>\<open>Rust_String\<close> has strings as lists of scalar values). \<open>Err\<close> is \<open>Inl\<close>; a panic is \<open>None\<close> where the code can
  reach one. Waiting is an explicit list of what the wait returns. Libraries that are not in the repository (protobuf code, libsodium, the RTSP parser, RTP
  marshalling, Base64, the file system and the devices) are fields of an environment or arguments, with no law unless a theorem names one.

  \<^bold>\<open>Interfaces.\<close> \<open>frame_codec\<close> (encoders and decoders of messages in a byte stream; interpreted by the RustDesk framing, the CH9329 responses and
  the RTSP requests), \<open>cell_store\<close> (numbered cells with laws of writing; the FAT and the bitmap), \<open>key_slots\<close> (pressing and releasing
  keys of a report; the keyboard report), and \<open>step_relation\<close>, \<open>conn_relation\<close>, \<open>login_relation\<close>, \<open>session_relation\<close> (relations on connections that
  every operation of RustDesk keeps; interpreted by the nonce counter, the sealing, the key and the lock of the password).

  \<^bold>\<open>Loops and bounds.\<close> Loops over lists and buffers are structural or have a measure. With fuel: \<open>chain_loop\<close> gets two more than the number of clusters and stops
  earlier with an error on a circular chain; the loops of readers and writers get one turn more than there are bytes, and every turn moves at least one;
  \<open>take_matching\<close> gets the length of the buffer, and a response has six bytes; waiting for the device nodes gets two turns more than a tenth of the timeout.
  That this is enough is proved in each case (as \<open>read_cluster_chain_total\<close> and \<open>wait_for_hid_devices_ends\<close>). Deleting and listing recursively take the depth
  they may reach as an argument.

  \<^bold>\<open>Concurrency.\<close> A call of an API, a turn of a worker and a snapshot are one action each, and these interleave in any order; what happens inside is \<^verbatim>\<open>Ch9329_Races\<close> for
  the status of the CH9329 backend, the three parts of a connection in the one-client rule of RTSP, the steps of a mode switch in \<^verbatim>\<open>Codec_Constraints\<close>, and the
  cancelled reads of RustDesk. Not covered: accepts that overlap \<open>stop\<close> of the RTSP service, and two calls of the controller's \<open>reload\<close> at once.

  \<^bold>\<open>Not modelled\<close>: the web interface and its configuration, authentication, the capture of video and sound, the encoders and their pipelines, the sessions of
  WebRTC, the configuration of the USB gadget, virtual media above the images, RustDesk's rendezvous, ATX, extensions and updates. They are glue
  around libraries and the kernel, and their results are inputs here.
\<close>

end
